(* ===== verification/Kernel_Base.thy ===== *)
theory Kernel_Base
  imports Complex_Main "HOL-Library.Word"
begin

text \<open>
  Shared vocabulary of the development: the C integer types as words, the kernel
  error numbers, the handful of kernel helpers every driver uses (\<open>fls64\<close>, \<open>ALIGN\<close>,
  \<open>check_add_overflow\<close>, C's truncating signed division) and the facts about them the
  component theories need.  Helpers of the kernel itself are modelled by their
  documented meaning; everything else in the library translates a file of the repository.
\<close>

unbundle bit_operations_syntax

named_theorems c_arith \<open>unsigned C arithmetic read back as natural numbers\<close>
named_theorems mem_simps \<open>reads of a byte buffer after writes to it\<close>

type_synonym u8 = "8 word"
type_synonym u16 = "16 word"
type_synonym u32 = "32 word"
type_synonym u64 = "64 word"
type_synonym s32 = "32 word"
type_synonym s64 = "64 word"

text \<open>
  The negative error returns of the modelled code.  A handler that returns \<open>-EINVAL\<close>
  returns \<open>Inl EINVAL\<close> here.
\<close>

datatype errno = EINVAL | ENOMEM | EFAULT | ENOSPC | EBUSY | EAGAIN | EINTR | ENODEV
  | ERANGE | EIO | ETIMEDOUT | EOPNOTSUPP | ENOTTY | EBADF

declare of_nat_unat [simp del] of_int_uint [simp del] of_int_sint [simp del]

lemma unat_less_length: "unat (w :: 'a::len word) < 2 ^ LENGTH('a)"
  by (rule unsigned_less)

lemma word_eq_unatI: "unat a = unat b \<Longrightarrow> a = (b :: 'a::len word)"
  by (simp add: word_unat_eq_iff)

lemma unat_of_nat_small: "n < 2 ^ LENGTH('a) \<Longrightarrow> unat (of_nat n :: 'a::len word) = n"
  by (simp only: unat_of_nat mod_less)

lemma odd_unat_iff: "odd (unat w) \<longleftrightarrow> bit (w :: 'a::len word) 0"
  by (simp add: bit_unsigned_iff flip: bit_0)

lemma and_one_nonzero: "w AND 1 \<noteq> 0 \<longleftrightarrow> bit (w :: 'a::len word) 0"
  by (simp add: and_one_eq mod_2_eq_odd bit_0)

lemma high_bit_less:
  assumes "unat w < 2 ^ n" "bit (w :: 'a::len word) m" shows "m < n"
proof (rule ccontr)
  assume "\<not> m < n"
  then have "unat w < 2 ^ m" using assms by (meson less_le_trans one_le_numeral power_increasing not_less)
  then have "\<not> bit (unat w) m" by (simp add: bit_iff_odd)
  then show False using assms(2) by (auto simp add: bit_unsigned_iff)
qed

subsection \<open>Bit length: \<open>fls64\<close>\<close>

fun bit_length :: "nat \<Rightarrow> nat" where
  "bit_length n = (if n = 0 then 0 else Suc (bit_length (n div 2)))"

declare bit_length.simps [simp del]

lemma bit_length_0 [simp]: "bit_length 0 = 0"
  by (simp add: bit_length.simps)

lemma bit_length_pos: "0 < n \<Longrightarrow> bit_length n = Suc (bit_length (n div 2))"
  by (simp add: bit_length.simps [of n])

lemma bit_length_bounds: "0 < n \<Longrightarrow> 2 ^ (bit_length n - 1) \<le> n \<and> n < 2 ^ bit_length n"
proof (induction n rule: bit_length.induct)
  case (1 n)
  show ?case
  proof (cases "n div 2 = 0")
    case True
    with 1 have "n = 1" by simp
    then show ?thesis by (simp add: bit_length_pos)
  next
    case False
    with 1 have ih: "2 ^ (bit_length (n div 2) - 1) \<le> n div 2 \<and> n div 2 < 2 ^ bit_length (n div 2)"
      by simp
    from False obtain k where k: "bit_length (n div 2) = Suc k"
      by (cases "n div 2") (auto simp: bit_length_pos)
    from ih k have "2 ^ k \<le> n div 2" and "n div 2 < 2 * 2 ^ k" by simp_all
    then have "2 * 2 ^ k \<le> n" and "n < 4 * 2 ^ k" by linarith+
    then show ?thesis using k 1 by (simp add: bit_length_pos)
  qed
qed

lemma bit_length_lower: "0 < n \<Longrightarrow> 2 ^ (bit_length n - 1) \<le> n"
  using bit_length_bounds by blast

lemma bit_length_upper: "n < 2 ^ bit_length n"
  using bit_length_bounds [of n] by (cases "n = 0") auto

lemma bit_length_le_iff: "bit_length n \<le> k \<longleftrightarrow> n < 2 ^ k"
proof
  assume "bit_length n \<le> k"
  then have "2 ^ bit_length n \<le> (2::nat) ^ k" by simp
  with bit_length_upper [of n] show "n < 2 ^ k" by linarith
next
  assume lt: "n < 2 ^ k"
  show "bit_length n \<le> k"
  proof (rule ccontr)
    assume "\<not> bit_length n \<le> k"
    then have k: "k \<le> bit_length n - 1" and n: "0 < n" by (auto intro: gr0I)
    from k have "(2::nat) ^ k \<le> 2 ^ (bit_length n - 1)" by simp
    with bit_length_lower [OF n] lt show False by linarith
  qed
qed

lemma bit_length_unique: "2 ^ k \<le> n \<Longrightarrow> n < 2 ^ Suc k \<Longrightarrow> bit_length n = Suc k"
  using bit_length_le_iff [of n "Suc k"] bit_length_le_iff [of n k] by linarith

lemma bit_length_pos_iff: "0 < bit_length n \<longleftrightarrow> 0 < n"
  using bit_length_le_iff [of n 0] by auto

text \<open>\<open>fls64\<close>: the position, from 1, of the most significant set bit; 0 for 0.\<close>

definition fls64 :: "u64 \<Rightarrow> nat" where
  "fls64 w = bit_length (unat w)"

lemma fls64_le: "fls64 w \<le> 64"
  using unat_less_length [of w] by (simp add: fls64_def bit_length_le_iff)

subsection \<open>Shifts and masks as arithmetic\<close>

lemma unat_push_bit [c_arith]:
  "unat (push_bit n (w :: 'a::len word)) = (unat w * 2 ^ n) mod 2 ^ LENGTH('a)"
  by (metis unsigned_push_bit_eq take_bit_eq_mod push_bit_eq_mult)

lemma unat_drop_bit [c_arith]: "unat (drop_bit n (w :: 'a::len word)) = unat w div 2 ^ n"
  by (simp only: unat_drop_bit_eq drop_bit_eq_div [of n "unat w"])

lemma and_mask_eq_take_bit: "w AND mask n = take_bit n (w :: 'a::len word)"
  by (simp add: take_bit_eq_mask)

lemma unat_take_bit [c_arith]: "unat (take_bit n (w :: 'a::len word)) = unat w mod 2 ^ n"
  by (metis unsigned_take_bit_eq take_bit_eq_mod)

lemma unat_and_mask: "unat (w AND mask n) = unat (w :: 'a::len word) mod 2 ^ n"
  by (simp add: and_mask_eq_take_bit unat_take_bit)

lemma and_mask_small: "unat w < 2 ^ n \<Longrightarrow> (w :: 'a::len word) AND mask n = w"
  by (rule word_eq_unatI) (simp add: unat_and_mask)

lemma take_bit_or_exp: "take_bit k w OR 2 ^ k = take_bit k w + (2 ^ k :: 'a::len word)"
  by (subst disjunctive_add) (auto simp: bit_simps)

text \<open>The low-bit masks the sources write as literals.\<close>

lemma mask_literals:
  "(0x1 :: 'a::len word) = mask 1" "(0x7 :: 'a::len word) = mask 3" "(0xf :: 'a::len word) = mask 4"
  "(0x1f :: 'a::len word) = mask 5" "(0x7f :: 'a::len word) = mask 7"
  "(0xff :: 'a::len word) = mask 8"  "(0x1ff :: 'a::len word) = mask 9"
  "(0x7ff :: 'a::len word) = mask 11" "(0xfff :: 'a::len word) = mask 12"
  "(0x7fff :: 'a::len word) = mask 15" "(0xffff :: 'a::len word) = mask 16"
  "(0xfffff :: 'a::len word) = mask 20" "(0x7fffff :: 'a::len word) = mask 23"
  by (simp_all add: mask_eq_exp_minus_1)

lemma unat_le_minus: "unat b \<le> unat a \<Longrightarrow> unat (a - b) = unat a - unat (b :: 'a::len word)"
  by (simp add: unat_sub_if')

lemma unat_pred: "0 < b \<Longrightarrow> unat (b - 1) = unat b - 1" for b :: "'a::len word"
proof -
  assume "0 < b"
  then have "unat (1 :: 'a word) \<le> unat b" by (simp add: word_less_nat_alt Suc_le_eq)
  then show ?thesis by (simp add: unat_le_minus)
qed

lemma pred_less: "0 < b \<Longrightarrow> b - 1 < b" for b :: "'a::len word"
proof -
  assume b: "0 < b"
  then have "0 < unat b" by (simp add: word_less_nat_alt)
  then show ?thesis unfolding word_less_nat_alt unat_pred [OF b] by linarith
qed

lemma unat_add_small:
  "unat a + unat b < 2 ^ LENGTH('a) \<Longrightarrow> unat (a + b) = unat a + unat (b :: 'a::len word)"
  by (simp add: unat_word_ariths)

lemma unat_mult_small:
  "unat a * unat b < 2 ^ LENGTH('a) \<Longrightarrow> unat (a * b) = unat a * unat (b :: 'a::len word)"
  by (simp add: unat_word_ariths)

lemma unat_ucast_up:
  "LENGTH('a) \<le> LENGTH('b) \<Longrightarrow> unat (ucast (w :: 'a::len word) :: 'b::len word) = unat w"
  by (simp add: unsigned_ucast_eq take_bit_eq_mod)
     (metis mod_less order_less_le_trans power_increasing one_le_numeral unsigned_less)

lemma unat_ucast_mod: "unat (ucast (w :: 'a::len word) :: 'b::len word) = unat w mod 2 ^ LENGTH('b)"
  by (simp add: unsigned_ucast_eq take_bit_eq_mod)

subsection \<open>Kernel helpers\<close>

text \<open>\<open>ALIGN(x, a)\<close> for a power of two \<open>a\<close>: \<open>(x + (a - 1)) & ~(a - 1)\<close>, wrapping.\<close>

definition ALIGN :: "u64 \<Rightarrow> u64 \<Rightarrow> u64" where
  "ALIGN x a = (x + (a - 1)) AND NOT (a - 1)"

definition is_power_of_2 :: "u64 \<Rightarrow> bool" where
  "is_power_of_2 n \<longleftrightarrow> n \<noteq> 0 \<and> n AND (n - 1) = 0"

text \<open>On numbers: the least multiple of \<open>a\<close> not below \<open>x\<close>.\<close>

definition align_up :: "nat \<Rightarrow> nat \<Rightarrow> nat" where
  "align_up x a = (x + (a - 1)) div a * a"

lemma align_up_ge: "0 < a \<Longrightarrow> x \<le> align_up x a"
proof -
  assume a: "0 < a"
  have "x + (a - 1) < align_up x a + a"
    unfolding align_up_def using a div_mult_mod_eq [of "x + (a - 1)" a] mod_less_divisor [OF a, of "x + (a - 1)"]
    by linarith
  then show ?thesis using a by linarith
qed

lemma align_up_dvd [simp]: "a dvd align_up x a"
  by (simp add: align_up_def)

lemma align_up_less: "0 < a \<Longrightarrow> align_up x a < x + a"
  using div_times_less_eq_dividend [of "x + (a - 1)" a] unfolding align_up_def by linarith

lemma align_up_least: "0 < a \<Longrightarrow> a dvd q \<Longrightarrow> x \<le> q \<Longrightarrow> align_up x a \<le> q"
proof -
  assume a: "0 < a" "a dvd q" "x \<le> q"
  then obtain k where k: "q = k * a" by (metis dvd_def mult.commute)
  have "(x + (a - 1)) div a \<le> (k * a + (a - 1)) div a" using a k by (intro div_le_mono) simp
  also have "\<dots> = k + (a - 1) div a" using a(1) by (intro div_mult_self3) simp
  also have "(a - 1) div a = 0" using a(1) by simp
  finally have "(x + (a - 1)) div a \<le> k" by (simp only: add_0_right)
  then show ?thesis unfolding align_up_def k by (rule mult_le_mono1)
qed

lemma align_up_mono: "0 < a \<Longrightarrow> x \<le> y \<Longrightarrow> align_up x a \<le> align_up y a"
  by (meson align_up_dvd align_up_ge align_up_least order_trans)

lemma pow2_nat: "0 < n \<Longrightarrow> n AND (n - 1) = 0 \<Longrightarrow> \<exists>k. n = 2 ^ k" for n :: nat
proof (induction n rule: less_induct)
  case (less n)
  show ?case
  proof (cases "even n")
    case True
    then obtain m where m: "n = 2 * m" by auto
    then have m0: "0 < m" "m < n" using less.prems by auto
    then have "n - 1 = Suc (2 * (m - 1))" using m by simp
    then have "n AND (n - 1) = 2 * (m AND (m - 1))"
      using m by (subst and_rec) simp
    then obtain k where "m = 2 ^ k" using less m0 by auto
    then show ?thesis using m by (intro exI [of _ "Suc k"]) simp
  next
    case False
    then obtain m where m: "n = Suc (2 * m)" by (auto elim: oddE)
    have "m AND m = m" by simp
    then have "n AND (n - 1) = 2 * m"
      using m by (subst and_rec) simp
    then have "n = 1" using less m by simp
    then show ?thesis by (intro exI [of _ 0]) simp
  qed
qed

lemma is_power_of_2_E:
  assumes "is_power_of_2 a" obtains k where "k < 64" "unat a = 2 ^ k" "a = 2 ^ k"
proof -
  have nz: "0 < a" using assms by (auto simp: is_power_of_2_def word_neq_0_conv)
  have "unat (a AND (a - 1)) = 0" using assms by (simp add: is_power_of_2_def)
  then have "unat a AND (unat a - 1) = 0" by (simp add: unsigned_and_eq unat_pred [OF nz])
  moreover have "0 < unat a" using nz by (simp add: word_less_nat_alt)
  ultimately obtain k where k: "unat a = 2 ^ k" using pow2_nat by blast
  moreover have "k < 64"
  proof (rule ccontr)
    assume "\<not> k < 64"
    then have "(2::nat) ^ 64 \<le> 2 ^ k" by (intro power_increasing) auto
    then show False using unat_less_length [of a] by (simp add: k)
  qed
  moreover have "a = 2 ^ k"
  proof (rule word_eq_unatI)
    have "(2::nat) ^ k < 2 ^ 64" using \<open>k < 64\<close> by (intro power_strict_increasing) simp_all
    then show "unat a = unat (2 ^ k :: u64)" using unat_of_nat_small [of "2 ^ k", where 'a = 64] k by simp
  qed
  ultimately show ?thesis using that by blast
qed

lemma unat_ALIGN:
  assumes p: "is_power_of_2 a" and b: "unat x + (unat a - 1) < 2 ^ 64"
  shows "unat (ALIGN x a) = align_up (unat x) (unat a)"
proof -
  obtain k where k: "k < 64" "unat a = 2 ^ k" "a = 2 ^ k" by (rule is_power_of_2_E [OF p])
  have m: "a - 1 = mask k" by (simp add: k(3) mask_eq_exp_minus_1)
  have c: "w AND NOT (mask k) = push_bit k (drop_bit k w)" for w :: u64
    by (rule bit_word_eqI) (auto simp: bit_simps)
  have "0 < a" using p by (auto simp: is_power_of_2_def word_neq_0_conv)
  then have u: "unat (x + (a - 1)) = unat x + (unat a - 1)"
    using b by (subst unat_add_small) (simp_all add: unat_pred)
  have "unat (ALIGN x a) = unat (push_bit k (drop_bit k (x + (a - 1))))"
    unfolding ALIGN_def m c ..
  also have "\<dots> = ((unat x + (2 ^ k - 1)) div 2 ^ k * 2 ^ k) mod 2 ^ 64"
    by (simp add: unat_push_bit unat_drop_bit u k(2))
  also have "\<dots> = (unat x + (2 ^ k - 1)) div 2 ^ k * 2 ^ k"
  proof (rule mod_less)
    have "(unat x + (2 ^ k - 1)) div 2 ^ k * 2 ^ k \<le> unat x + (2 ^ k - 1)"
      by (rule div_times_less_eq_dividend)
    then show "(unat x + (2 ^ k - 1)) div 2 ^ k * 2 ^ k < 2 ^ 64"
      using b [unfolded k(2)] by (rule le_less_trans)
  qed
  finally show ?thesis by (simp add: align_up_def k(2))
qed

text \<open>\<open>check_add_overflow\<close> and \<open>check_mul_overflow\<close>: \<open>None\<close> where the macro returns true.\<close>

definition check_add_overflow :: "u64 \<Rightarrow> u64 \<Rightarrow> u64 option" where
  "check_add_overflow a b = (if unat a + unat b < 2 ^ 64 then Some (a + b) else None)"

definition check_mul_overflow :: "u64 \<Rightarrow> u64 \<Rightarrow> u64 option" where
  "check_mul_overflow a b = (if unat a * unat b < 2 ^ 64 then Some (a * b) else None)"

lemma check_add_overflow_Some:
  "check_add_overflow a b = Some c \<longleftrightarrow> c = a + b \<and> unat c = unat a + unat b"
  using unat_less_length [of c] unat_add_small [of a b]
  by (auto simp: check_add_overflow_def)

lemma check_mul_overflow_Some:
  "check_mul_overflow a b = Some c \<longleftrightarrow> c = a * b \<and> unat c = unat a * unat b"
  using unat_less_length [of c] unat_mult_small [of a b]
  by (auto simp: check_mul_overflow_def)

text \<open>C's signed division truncates toward zero.\<close>

definition c_div :: "int \<Rightarrow> int \<Rightarrow> int" where
  "c_div a b = sgn a * sgn b * (\<bar>a\<bar> div \<bar>b\<bar>)"

lemma c_div_pos: "0 \<le> a \<Longrightarrow> 0 < b \<Longrightarrow> c_div a b = a div b"
  by (cases "a = 0") (simp_all add: c_div_def)

lemma c_div_neg: "a < 0 \<Longrightarrow> 0 < b \<Longrightarrow> c_div a b = - ((- a) div b)"
  by (simp add: c_div_def)

lemma c_div_mono: "a \<le> a' \<Longrightarrow> 0 < b \<Longrightarrow> c_div a b \<le> c_div a' b"
proof -
  assume le: "a \<le> a'" and b: "0 < b"
  consider "0 \<le> a" | "a < 0" "0 \<le> a'" | "a' < 0" using le by linarith
  then show ?thesis
  proof cases
    case 1
    with le b show ?thesis by (simp add: c_div_pos zdiv_mono1)
  next
    case 2
    with b show ?thesis
      using pos_imp_zdiv_nonneg_iff [OF b, of "- a"] pos_imp_zdiv_nonneg_iff [OF b, of a']
      by (simp add: c_div_pos c_div_neg)
  next
    case 3
    with le b show ?thesis by (simp add: c_div_neg zdiv_mono1)
  qed
qed

lemma c_div_mult: "0 < b \<Longrightarrow> c_div (a * b) b = a"
  by (cases "0 \<le> a") (simp_all add: c_div_pos c_div_neg mult_less_0_iff flip: mult_minus_left)

end
