(* ===== verification/Isp_Bytes.thy ===== *)
theory Isp_Bytes
  imports Kernel_Base
begin

text \<open>
  \<open>ar-isp-bytes.h\<close>: byte-wise little-endian accessors and the shared IEEE-754 field
  extraction.  A \<open>u8 *\<close> buffer is a map from displacements to bytes, a C pointer into it is
  the buffer with a displacement, so \<open>ar_isp_get_le32(blob + off)\<close> is
  \<open>ar_isp_get_le32 blob off\<close> and a store returns the updated buffer.
\<close>

type_synonym mem = "nat \<Rightarrow> u8"

definition ar_isp_get_le32 :: "mem \<Rightarrow> nat \<Rightarrow> u32" where
  "ar_isp_get_le32 p i =
     ucast (p i) OR push_bit 8 (ucast (p (i + 1))) OR push_bit 16 (ucast (p (i + 2)))
       OR push_bit 24 (ucast (p (i + 3)))"

definition ar_isp_put_le32 :: "mem \<Rightarrow> nat \<Rightarrow> u32 \<Rightarrow> mem" where
  "ar_isp_put_le32 p i v =
     p(i := ucast v, i + 1 := ucast (drop_bit 8 v), i + 2 := ucast (drop_bit 16 v),
       i + 3 := ucast (drop_bit 24 v))"

definition ar_isp_get_le16 :: "mem \<Rightarrow> nat \<Rightarrow> u16" where
  "ar_isp_get_le16 p i = ucast (p i) OR push_bit 8 (ucast (p (i + 1)))"

definition ar_isp_put_le16 :: "mem \<Rightarrow> nat \<Rightarrow> u16 \<Rightarrow> mem" where
  "ar_isp_put_le16 p i v = p(i := ucast v, i + 1 := ucast (drop_bit 8 v))"

text \<open>The mantissa with its implicit leading one restored, and the unbiased exponent.\<close>

definition ar_isp_f32_mant :: "u32 \<Rightarrow> u32" where
  "ar_isp_f32_mant bits = (bits AND 0x7fffff) OR 0x800000"

definition ar_isp_f32_exp :: "u32 \<Rightarrow> int" where
  "ar_isp_f32_exp bits = uint (drop_bit 23 bits AND 0xff) - 127"

subsection \<open>Round trips and frames\<close>

lemma get_put_le32 [mem_simps]: "ar_isp_get_le32 (ar_isp_put_le32 p i v) i = v"
proof (rule bit_word_eqI)
  fix n assume n: "n < LENGTH(32)"
  then consider "n < 8" | "8 \<le> n" "n < 16" | "16 \<le> n" "n < 24" | "24 \<le> n" "n < 32"
    by fastforce
  then show "bit (ar_isp_get_le32 (ar_isp_put_le32 p i v) i) n = bit v n"
    by cases (auto simp: ar_isp_get_le32_def ar_isp_put_le32_def bit_simps)
qed

lemma get_put_le16 [mem_simps]: "ar_isp_get_le16 (ar_isp_put_le16 p i v) i = v"
  by (rule bit_word_eqI) (auto simp: ar_isp_get_le16_def ar_isp_put_le16_def bit_simps less_Suc_eq)

lemma put_le32_other [mem_simps]:
  "j < i \<or> i + 3 < j \<Longrightarrow> ar_isp_put_le32 p i v j = p j"
  by (auto simp: ar_isp_put_le32_def)

lemma put_le16_other [mem_simps]:
  "j < i \<or> i + 1 < j \<Longrightarrow> ar_isp_put_le16 p i v j = p j"
  by (auto simp: ar_isp_put_le16_def)

lemma get_le32_cong: "(\<And>j. i \<le> j \<Longrightarrow> j < i + 4 \<Longrightarrow> p j = q j) \<Longrightarrow> ar_isp_get_le32 p i = ar_isp_get_le32 q i"
  by (simp add: ar_isp_get_le32_def)

lemma get_le16_cong: "(\<And>j. i \<le> j \<Longrightarrow> j < i + 2 \<Longrightarrow> p j = q j) \<Longrightarrow> ar_isp_get_le16 p i = ar_isp_get_le16 q i"
  by (simp add: ar_isp_get_le16_def)

lemma get_le32_put_le32_other [mem_simps]:
  "i + 3 < j \<or> j + 3 < i \<Longrightarrow> ar_isp_get_le32 (ar_isp_put_le32 p j v) i = ar_isp_get_le32 p i"
  by (rule get_le32_cong) (auto simp: put_le32_other)

lemma get_le32_put_le16_other [mem_simps]:
  "i + 3 < j \<or> j + 1 < i \<Longrightarrow> ar_isp_get_le32 (ar_isp_put_le16 p j v) i = ar_isp_get_le32 p i"
  by (rule get_le32_cong) (auto simp: put_le16_other)

lemma get_le16_put_le32_other [mem_simps]:
  "i + 1 < j \<or> j + 3 < i \<Longrightarrow> ar_isp_get_le16 (ar_isp_put_le32 p j v) i = ar_isp_get_le16 p i"
  by (rule get_le16_cong) (auto simp: put_le32_other)

lemma get_le16_put_le16_other [mem_simps]:
  "i + 1 < j \<or> j + 1 < i \<Longrightarrow> ar_isp_get_le16 (ar_isp_put_le16 p j v) i = ar_isp_get_le16 p i"
  by (rule get_le16_cong) (auto simp: put_le16_other)

subsection \<open>Reads inside a buffer\<close>

text \<open>Two buffers that agree below \<open>n\<close>: a reader of them that stays below \<open>n\<close> cannot tell them apart.\<close>

definition agree :: "nat \<Rightarrow> mem \<Rightarrow> mem \<Rightarrow> bool" where
  "agree n m m' \<longleftrightarrow> (\<forall>i<n. m i = m' i)"

named_theorems agree_simps \<open>reads of agreeing buffers\<close>

lemma agree_byte [agree_simps]: "agree n m m' \<Longrightarrow> i < n \<Longrightarrow> m i = m' i"
  by (simp add: agree_def)

lemma agree_le32 [agree_simps]: "agree n m m' \<Longrightarrow> i + 4 \<le> n \<Longrightarrow> ar_isp_get_le32 m i = ar_isp_get_le32 m' i"
  by (rule get_le32_cong) (simp add: agree_def)

lemma agree_le16 [agree_simps]: "agree n m m' \<Longrightarrow> i + 2 \<le> n \<Longrightarrow> ar_isp_get_le16 m i = ar_isp_get_le16 m' i"
  by (rule get_le16_cong) (simp add: agree_def)

lemma agree_example: "agree n (\<lambda>_. 0) (\<lambda>i. if i < n then 0 else 255)"
  by (simp add: agree_def)

subsection \<open>The mantissa and exponent ranges\<close>

lemma f32_mant_unfold: "ar_isp_f32_mant b = take_bit 23 b + 2 ^ 23"
proof -
  have "ar_isp_f32_mant b = take_bit 23 b OR 2 ^ 23"
    by (simp add: ar_isp_f32_mant_def mask_literals and_mask_eq_take_bit)
  then show ?thesis by (simp only: take_bit_or_exp)
qed

lemma unat_f32_mant: "unat (ar_isp_f32_mant b) = unat b mod 2 ^ 23 + 2 ^ 23"
proof -
  have "unat b mod 2 ^ 23 < 2 ^ 23" by simp
  then show ?thesis
    by (simp add: f32_mant_unfold unat_word_ariths unat_take_bit)
qed

lemma f32_mant_bounds: "2 ^ 23 \<le> unat (ar_isp_f32_mant b) \<and> unat (ar_isp_f32_mant b) < 2 ^ 24"
  using mod_less_divisor [of "2 ^ 23" "unat b"] by (simp add: unat_f32_mant)

lemma f32_exp_bounds: "- 127 \<le> ar_isp_f32_exp b \<and> ar_isp_f32_exp b \<le> 128"
proof -
  have "unat (drop_bit 23 b AND mask 8) < 256" by (simp add: unat_and_mask)
  then have "uint (drop_bit 23 b AND mask 8) < 256"
    using uint_nat [of "drop_bit 23 b AND mask 8"] by linarith
  then show ?thesis by (simp add: ar_isp_f32_exp_def mask_literals)
qed

subsection \<open>Loops of writes to separate regions\<close>

text \<open>A loop whose step \<open>i\<close> writes only the bytes of \<open>R i\<close>, with contents that do not depend on
  the buffer: after the loop each region holds what its own step writes into any buffer.\<close>

lemma fold_regions:
  fixes f :: "'a \<Rightarrow> mem \<Rightarrow> mem"
  assumes out: "\<And>i m p. i \<in> set is \<Longrightarrow> p \<notin> R i \<Longrightarrow> f i m p = m p"
    and inn: "\<And>i m m' p. i \<in> set is \<Longrightarrow> p \<in> R i \<Longrightarrow> f i m p = f i m' p"
    and disj: "\<And>i j. i \<in> set is \<Longrightarrow> j \<in> set is \<Longrightarrow> i \<noteq> j \<Longrightarrow> R i \<inter> R j = {}"
  shows "j \<in> set is \<Longrightarrow> p \<in> R j \<Longrightarrow> fold f is m p = f j m0 p"
    and "(\<And>j. j \<in> set is \<Longrightarrow> p \<notin> R j) \<Longrightarrow> fold f is m p = m p"
  using assms
proof (induction "is" arbitrary: m rule: rev_induct)
  case (snoc i "is")
  {
    case 1
    show ?case
    proof (cases "p \<in> R i")
      case True
      then have "i = j" using 1(1,2) 1(5) [of i j] by auto
      then show ?thesis using True 1(4) [of i p _ m0] by simp
    next
      case False
      then have "j \<in> set is" using 1(1,2) by auto
      then show ?thesis using snoc(1) [of m] 1 False by simp
    qed
  next
    case 2
    then show ?case using snoc(2) [of m] by simp
  }
qed simp_all

end
