(* ===== verification/Isp_Rounding.thy ===== *)
theory Isp_Rounding
  imports Isp_Softfloat
begin

text \<open>
  The real value of a binary32 bit pattern and the correctness of the operations of
  \<open>ar-isp-softfloat.h\<close> with respect to it.  A result is \<^emph>\<open>correctly rounded\<close> when no
  finite binary32 number is nearer to the exact value, and an equally near different one
  only loses to an even significand.
\<close>

section \<open>Values\<close>

definition sgn_of :: "bool \<Rightarrow> real" where
  "sgn_of s = (if s then - 1 else 1)"

definition up_val :: "ar_f32_up \<Rightarrow> real" where
  "up_val u = sgn_of (up_sign u) * (real (unat (up_sig u)) * 2 powi up_exp u)"

definition f32_val :: "ar_f32 \<Rightarrow> real" where
  "f32_val a = up_val (ar_f32_unpack a)"

definition f32_finite :: "ar_f32 \<Rightarrow> bool" where
  "f32_finite a \<longleftrightarrow> drop_bit 23 a AND 0xff \<noteq> 0xff"

definition f32_rounded :: "real \<Rightarrow> ar_f32 \<Rightarrow> bool" where
  "f32_rounded x r \<longleftrightarrow> f32_finite r \<and>
     (\<forall>f. f32_finite f \<longrightarrow> \<bar>f32_val r - x\<bar> \<le> \<bar>f32_val f - x\<bar> \<and>
        (\<bar>f32_val r - x\<bar> = \<bar>f32_val f - x\<bar> \<longrightarrow> f32_val f = f32_val r \<or> even (unat r)))"

text \<open>The range in which a result is a normal number: neither overflow nor underflow.\<close>

definition f32_in_range :: "real \<Rightarrow> bool" where
  "f32_in_range x \<longleftrightarrow> x = 0 \<or> (2 powi (- 126) \<le> \<bar>x\<bar> \<and> \<bar>x\<bar> < 2 powi 127)"

lemma sgn_of_simps [simp]: "sgn_of True = - 1" "sgn_of False = 1"
  by (simp_all add: sgn_of_def)

lemma abs_sgn_of [simp]: "\<bar>sgn_of s\<bar> = 1"
  by (simp add: sgn_of_def)

lemma sgn_of_xor: "sgn_of (s = (\<not> t)) = sgn_of s * sgn_of t"
  by (simp add: sgn_of_def)

section \<open>Unpacking what was packed\<close>

lemma unpack_sig_less: "unat (up_sig (ar_f32_unpack a)) < 2 ^ 24"
proof -
  have "unat a mod 2 ^ 23 < 2 ^ 24"
    using mod_less_divisor [of "2 ^ 23" "unat a"] by simp
  then have "unat (ucast (a AND 0x7fffff) :: u64) < 2 ^ 24"
    by (simp add: unat_ucast_up mask_literals unat_and_mask)
  moreover have "unat (ucast (ar_isp_f32_mant a) :: u64) < 2 ^ 24"
    using f32_mant_bounds [of a] by (simp add: unat_ucast_up)
  ultimately show ?thesis
    by (simp add: ar_f32_unpack_def Let_def ar_isp_f32_mant_def)
qed

lemma bit_or_exp: "bit (w OR 2 ^ k) n \<longleftrightarrow> bit w n \<or> n = k \<and> k < LENGTH('a)" for w :: "'a::len word"
  by (auto simp: bit_simps)

lemma bit_pack_bits:
  assumes "n < 32" and B: "word_of_int (e + 127 + 23) = (B :: u32)"
  shows "bit (ar_f32_pack_bits s m e) n \<longleftrightarrow>
    (if n < 23 then bit m n else if n < 31 then bit B (n - 23) else s \<or> bit B 8)"
proof -
  define p :: u32 where "p = push_bit 23 B OR ucast (take_bit 23 m)"
  have eq: "ar_f32_pack_bits s m e = (if s then p OR 2 ^ 31 else p)"
    unfolding ar_f32_pack_bits_def Let_def B mask_literals and_mask_eq_take_bit p_def by simp
  have p: "bit p n \<longleftrightarrow> (if n < 23 then bit m n else bit B (n - 23))"
    using assms(1) by (auto simp: p_def bit_simps)
  have q: "bit (p OR 2 ^ 31) n \<longleftrightarrow> bit p n \<or> n = 31"
    unfolding bit_or_exp by simp
  have "n = 31 \<or> n < 31" using assms(1) by linarith
  then show ?thesis
    unfolding eq by (cases s) (auto simp only: q p if_True if_False, auto)
qed

lemma exp_word:
  assumes "0 \<le> b" "b < 256" and B: "B = (word_of_int b :: u32)"
  shows "uint B = b" and "n \<ge> 8 \<Longrightarrow> \<not> bit B n"
proof -
  show u: "uint B = b"
    using assms by (simp add: uint_word_of_int)
  assume n: "n \<ge> 8"
  have "unat B < 2 ^ 8" using u assms(1,2) by (simp add: unat_eq_nat_uint)
  then have "take_bit 8 B = B"
    by (intro word_eq_unatI) (simp add: unat_take_bit)
  with n show "\<not> bit B n"
    by (metis bit_take_bit_iff not_le)
qed

lemma unpack_pack_bits:
  assumes m: "2 ^ 23 \<le> unat m" "unat m < 2 ^ 24" and e: "1 \<le> e + 150" "e + 150 \<le> 254"
  shows "ar_f32_unpack (ar_f32_pack_bits s m e) = \<lparr>up_sig = m, up_exp = e, up_sign = s\<rparr>"
    and "f32_finite (ar_f32_pack_bits s m e)"
    and "even (unat (ar_f32_pack_bits s m e)) \<longleftrightarrow> even (unat m)"
proof -
  let ?P = "ar_f32_pack_bits s m e"
  define B :: u32 where "B = word_of_int (e + 127 + 23)"
  have B: "uint B = e + 150" and nb: "\<not> bit B n" if "n \<ge> 8" for n
    using e exp_word [of "e + 127 + 23" B, OF _ _ B_def] that by auto
  note P = bit_pack_bits [OF _ B_def [symmetric], of _ s m]
  have ex: "drop_bit 23 ?P AND mask 8 = B"
  proof (rule bit_word_eqI)
    fix n assume "n < LENGTH(32)"
    then show "bit (drop_bit 23 ?P AND mask 8) n = bit B n"
      using P [of "23 + n"] nb [of n] by (cases "n < 8") (auto simp: bit_simps)
  qed
  then have ue: "uint (drop_bit 23 ?P AND 0xff) = e + 150"
    using B [of 8] by (simp add: mask_literals)
  have sg: "(drop_bit 31 ?P AND 1 \<noteq> 0) = s"
    using P [of 31] nb [of 8] by (simp only: and_one_nonzero) (simp add: bit_drop_bit_eq)
  have lo: "take_bit 23 ?P = ucast (take_bit 23 m)"
    by (rule bit_word_eqI) (auto simp: bit_simps P)
  have "unat (ar_isp_f32_mant ?P) = unat (take_bit 23 ?P) + 2 ^ 23"
    by (simp add: unat_f32_mant unat_take_bit)
  also have "unat (take_bit 23 ?P) = unat m mod 2 ^ 23"
    unfolding lo unat_ucast_mod unat_take_bit by (simp add: mod_mod_cancel)
  also have "unat m mod 2 ^ 23 + 2 ^ 23 = unat m"
    using m by (simp add: mod_if [of "unat m" "2 ^ 23"] mod_nat_eqI [of "unat m - 2 ^ 23"])
  finally have mant: "ucast ((?P AND 0x7fffff) OR 0x800000) = m"
    by (intro word_eq_unatI) (simp add: unat_ucast_up ar_isp_f32_mant_def)
  show "ar_f32_unpack ?P = \<lparr>up_sig = m, up_exp = e, up_sign = s\<rparr>"
    using e by (simp add: ar_f32_unpack_def Let_def ue sg mant)
  show "f32_finite ?P"
    unfolding f32_finite_def using ue e by auto
  show "even (unat ?P) \<longleftrightarrow> even (unat m)"
    using P [of 0] odd_unat_iff [of ?P] odd_unat_iff [of m] by auto
qed

section \<open>Rounding\<close>

text \<open>The rounding step of \<open>ar_f32_round_pack\<close> on natural numbers.\<close>

definition rne :: "nat \<Rightarrow> nat \<Rightarrow> bool \<Rightarrow> nat" where
  "rne m n sticky =
     (let q = m div 2 ^ n; r = m mod 2 ^ n; h = 2 ^ (n - 1)
      in if r > h \<or> (r = h \<and> (sticky \<or> odd q)) then q + 1 else q)"

lemma unat_low_mask:
  "n < 64 \<Longrightarrow> unat (s AND (push_bit n 1 - 1)) = unat (s :: u64) mod 2 ^ n"
proof -
  assume "n < 64"
  have "push_bit n (1 :: u64) - 1 = mask n"
    by (simp add: mask_eq_exp_minus_1 push_bit_eq_mult)
  then show ?thesis by (simp add: and_mask_eq_take_bit unat_take_bit)
qed

lemma unat_push_one: "n < 64 \<Longrightarrow> unat (push_bit n 1 :: u64) = 2 ^ n"
  using power_strict_increasing [of n 64 "2::nat"] by (simp only: unat_push_bit) simp

lemma unat_round_up:
  assumes n: "0 < n" "n < 64"
  shows "unat (ar_f32_round_up s n sticky) = rne (unat s) n sticky"
proof -
  define q where "q = drop_bit n s"
  have q: "unat q = unat s div 2 ^ n" by (simp add: q_def unat_drop_bit)
  have "unat q < 2 ^ 63"
  proof -
    have "unat s div 2 ^ n \<le> unat s div 2 ^ 1"
      using n by (intro div_le_mono2 power_increasing) auto
    then show ?thesis using unat_less_length [of s] q by simp
  qed
  then have q1: "unat (q + 1) = unat q + 1" by (simp add: unat_word_ariths)
  have odd: "q AND 1 \<noteq> 0 \<longleftrightarrow> odd (unat s div 2 ^ n)"
    by (simp only: and_one_nonzero odd_unat_iff [symmetric] q)
  have h: "unat (push_bit (n - 1) 1 :: u64) = 2 ^ (n - 1)" using n by (intro unat_push_one) simp
  show ?thesis
    unfolding ar_f32_round_up_def rne_def Let_def q_def [symmetric] odd
    by (simp only: word_less_nat_alt word_unat_eq_iff unat_low_mask n h) (simp add: q1 q)
qed

lemma rne_nearest:
  fixes m :: nat
  assumes n: "0 < n" and d: "0 \<le> d" "d < (1::real)" and sticky: "sticky \<longleftrightarrow> d \<noteq> 0"
  defines "x \<equiv> (real m + d) / 2 ^ n"
  shows "\<bar>real (rne m n sticky) - x\<bar> \<le> 1 / 2"
    and "\<bar>real (rne m n sticky) - x\<bar> = 1 / 2 \<Longrightarrow> even (rne m n sticky)"
proof -
  define q r h where "q = m div 2 ^ n" and "r = m mod 2 ^ n" and "h = (2::nat) ^ (n - 1)"
  have P: "(2::nat) ^ n = 2 * h" using n by (simp add: h_def flip: power_Suc)
  have r: "r < 2 * h" unfolding r_def P [symmetric] by simp
  have hpos: "0 < h" by (simp add: h_def)
  have m: "m = q * (2 * h) + r" unfolding q_def r_def P [symmetric] by (simp only: div_mult_mod_eq)
  have x: "x = real q + (real r + d) / (2 * real h)"
    using hpos P by (simp add: x_def m field_simps flip: of_nat_power) (metis P of_nat_mult of_nat_numeral of_nat_power)
  have R: "rne m n sticky = (if r > h \<or> (r = h \<and> (sticky \<or> odd q)) then q + 1 else q)"
    by (simp add: rne_def Let_def q_def r_def h_def)
  have r': "real r + 1 \<le> 2 * real h" using r by linarith
  consider (gt) "h < r" "real h + 1 \<le> real r" | (eq) "r = h" | (lt) "r < h" "real r + 1 \<le> real h"
    by linarith
  note c = this
  show "\<bar>real (rne m n sticky) - x\<bar> \<le> 1 / 2"
    using c
  proof cases
    case gt then show ?thesis using r' d hpos unfolding R x by (simp add: field_simps abs_le_iff)
  next
    case eq then show ?thesis using r' d hpos sticky unfolding R x by (auto simp: field_simps abs_le_iff)
  next
    case lt then show ?thesis using r' d hpos unfolding R x by (simp add: field_simps abs_le_iff)
  qed
  assume tie: "\<bar>real (rne m n sticky) - x\<bar> = 1 / 2"
  show "even (rne m n sticky)"
    using c
  proof cases
    case gt
    have "real q + 1 - x = 1 - (real r + d) / (2 * real h)" by (simp add: x)
    moreover have "1 / 2 < (real r + d) / (2 * real h)" "(real r + d) / (2 * real h) < 1"
      using gt r' d hpos by (simp_all add: field_simps)
    moreover have "\<bar>real q + 1 - x\<bar> = 1 / 2" using tie gt by (simp add: R add.commute)
    ultimately have False by linarith
    then show ?thesis ..
  next
    case eq
    show ?thesis
    proof (cases sticky)
      case True
      then have "0 < d" using d sticky by simp
      then have "0 < d / (2 * real h)" "d / (2 * real h) < 1 / 2"
        using d hpos r' eq by (simp_all add: field_simps)
      moreover have "real q + 1 - x = 1 / 2 - d / (2 * real h)"
        using eq hpos by (simp add: x field_simps)
      moreover have "\<bar>real q + 1 - x\<bar> = 1 / 2"
        using tie unfolding R using eq True by (simp add: add.commute)
      ultimately have False by linarith
      then show ?thesis ..
    next
      case False
      then show ?thesis unfolding R using eq by simp
    qed
  next
    case lt
    have "real q - x = - ((real r + d) / (2 * real h))" by (simp add: x)
    moreover have "0 \<le> (real r + d) / (2 * real h)" "(real r + d) / (2 * real h) < 1 / 2"
      using lt d hpos by (simp_all add: field_simps)
    moreover have "\<bar>real q - x\<bar> = 1 / 2" using tie lt by (simp add: R)
    ultimately have False by linarith
    then show ?thesis ..
  qed
qed

text \<open>A nearest integer is as near as any number of the form \<open>k * 2^j\<close> with 24-bit \<open>k\<close>.\<close>

lemma near_int:
  assumes "\<bar>real R - x\<bar> \<le> 1 / 2" and tie: "\<bar>real R - x\<bar> = 1 / 2 \<Longrightarrow> even R"
  shows "\<bar>real R - x\<bar> \<le> \<bar>real F - x\<bar> \<and> (\<bar>real R - x\<bar> = \<bar>real F - x\<bar> \<longrightarrow> F = R \<or> even R)"
proof (cases "F = R")
  case False
  then have d: "1 \<le> \<bar>real F - real R\<bar>" by linarith
  have "\<bar>real R - x\<bar> \<le> \<bar>real F - x\<bar>"
    using d assms(1) by linarith
  moreover have "even R" if "\<bar>real R - x\<bar> = \<bar>real F - x\<bar>"
    using that d assms(1) by (intro tie) linarith
  ultimately show ?thesis by blast
qed auto

lemma near_float:
  fixes k :: nat and j :: int
  assumes R: "\<bar>real R - x\<bar> \<le> 1 / 2" and tie: "\<bar>real R - x\<bar> = 1 / 2 \<Longrightarrow> even R"
    and x: "2 ^ 23 \<le> x" and k: "k < 2 ^ 24"
  defines "f \<equiv> real k * 2 powi j"
  shows "\<bar>real R - x\<bar> \<le> \<bar>sgn_of s * f - x\<bar> \<and>
    (\<bar>real R - x\<bar> = \<bar>sgn_of s * f - x\<bar> \<longrightarrow> sgn_of s * f = real R \<or> even R)"
proof (cases "s \<and> f \<noteq> 0")
  case True
  have "0 \<le> f" by (simp add: f_def)
  with True R x show ?thesis by auto
next
  case False
  then have sf: "sgn_of s * f = f" by (auto simp: sgn_of_def)
  show ?thesis
  proof (cases "0 \<le> j")
    case True
    then have "f = real (k * 2 ^ nat j)" by (simp add: f_def power_int_def)
    then show ?thesis using near_int [OF R tie, of "k * 2 ^ nat j"] sf by auto
  next
    case False
    then have "(2::real) powi j \<le> 2 powi (- 1)" by (intro power_int_increasing) auto
    then have "f \<le> real k * (1 / 2)"
      unfolding f_def by (intro mult_left_mono) (auto simp: power_int_minus)
    with k have f: "f < 2 ^ 23" by simp
    have "\<bar>real R - x\<bar> \<le> \<bar>real (2 ^ 23) - x\<bar>" using near_int [OF R tie] by blast
    with x f show ?thesis unfolding sf by auto
  qed
qed

lemma f32_val_unpack:
  "f32_val f = sgn_of (up_sign (ar_f32_unpack f)) *
     (real (unat (up_sig (ar_f32_unpack f))) * 2 powi up_exp (ar_f32_unpack f))"
  by (simp add: f32_val_def up_val_def)

text \<open>The nearest multiple of the unit \<open>2^E\<close> is the nearest float.\<close>

lemma rounded_scaled:
  assumes r: "f32_finite r" "f32_val r = sgn_of s * (real R * 2 powi E)" "even R \<Longrightarrow> even (unat r)"
    and R: "\<bar>real R - x\<bar> \<le> 1 / 2" "\<bar>real R - x\<bar> = 1 / 2 \<Longrightarrow> even R" and x: "2 ^ 23 \<le> x"
  shows "f32_rounded (sgn_of s * (x * 2 powi E)) r"
  unfolding f32_rounded_def
proof (intro conjI allI impI r(1))
  fix f assume "f32_finite f"
  let ?u = "ar_f32_unpack f" and ?U = "(2::real) powi E" and ?X = "sgn_of s * (x * 2 powi E)"
  let ?t = "up_sign ?u \<noteq> s" and ?g = "real (unat (up_sig ?u)) * 2 powi (up_exp ?u - E)"
  have U: "0 < ?U" by simp
  have f: "f32_val f = sgn_of s * (sgn_of ?t * ?g * ?U)"
    by (simp add: f32_val_unpack sgn_of_def power_int_diff)
  have dist: "\<bar>f32_val r - ?X\<bar> = \<bar>real R - x\<bar> * ?U" "\<bar>f32_val f - ?X\<bar> = \<bar>sgn_of ?t * ?g - x\<bar> * ?U"
    using U by (simp_all add: r(2) f abs_mult flip: right_diff_distrib left_diff_distrib)
  note near = near_float [OF R x unpack_sig_less [of f], of ?t "up_exp ?u - E"]
  show "\<bar>f32_val r - ?X\<bar> \<le> \<bar>f32_val f - ?X\<bar>"
    using near U by (simp add: dist)
  assume "\<bar>f32_val r - ?X\<bar> = \<bar>f32_val f - ?X\<bar>"
  then have "\<bar>real R - x\<bar> = \<bar>sgn_of ?t * ?g - x\<bar>" using U by (simp add: dist)
  with near have "sgn_of ?t * ?g = real R \<or> even R" by blast
  then show "f32_val f = f32_val r \<or> even (unat r)"
    using r by (auto simp: f)
qed

lemma rounded_exact: "f32_finite r \<Longrightarrow> f32_val r = x \<Longrightarrow> f32_rounded x r"
  by (simp add: f32_rounded_def)

lemma pack_val:
  "2 ^ 23 \<le> unat m \<Longrightarrow> unat m < 2 ^ 24 \<Longrightarrow> 1 \<le> e + 150 \<Longrightarrow> e + 150 \<le> 254 \<Longrightarrow>
    f32_val (ar_f32_pack_bits s m e) = sgn_of s * (real (unat m) * 2 powi e)"
  by (simp add: f32_val_unpack unpack_pack_bits)

lemma power_int_less_iff: "(2::real) powi a < 2 powi b \<longleftrightarrow> a < b"
  using power_int_strict_increasing [of a b "2::real"] power_int_increasing [of b a "2::real"]
  by (cases "a < b") auto

lemma fls64_bounds:
  assumes "m \<noteq> 0"
  shows "2 powi (int (fls64 m) - 1) \<le> real (unat m)" "real (unat m) + 1 \<le> 2 powi int (fls64 m)"
proof -
  have pos: "0 < unat m" using assms by (simp add: unat_gt_0)
  then have L: "0 < fls64 m" by (simp add: fls64_def bit_length_pos_iff)
  then have p: "(2::real) powi (int (fls64 m) - 1) = 2 ^ (fls64 m - 1)"
    by (simp add: power_int_def nat_diff_distrib)
  have lo: "real (2 ^ (fls64 m - 1)) \<le> real (unat m)"
    using bit_length_lower [OF pos] unfolding fls64_def by (simp only: of_nat_le_iff)
  have hi: "real (unat m + 1) \<le> real (2 ^ fls64 m)"
    using bit_length_upper [of "unat m"] unfolding fls64_def by (simp only: of_nat_le_iff Suc_eq_plus1 [symmetric] Suc_le_eq)
  show "2 powi (int (fls64 m) - 1) \<le> real (unat m)" using lo by (simp add: p)
  show "real (unat m) + 1 \<le> 2 powi int (fls64 m)" using hi by simp
qed

lemma round_pack_nearest:
  assumes m: "m \<noteq> 0" and d: "0 \<le> d" "d < (1::real)" and sticky: "sticky \<longleftrightarrow> d \<noteq> 0"
    and big: "sticky \<Longrightarrow> 24 < fls64 m"
    and range: "f32_in_range ((real (unat m) + d) * 2 powi e)"
  shows "f32_rounded (sgn_of s * ((real (unat m) + d) * 2 powi e)) (ar_f32_round_pack s m e sticky)"
proof -
  define sh where "sh = int (fls64 m) - 24"
  define E where "E = e + sh"
  define x where "x = (real (unat m) + d) * 2 powi (- sh)"
  let ?X = "(real (unat m) + d) * 2 powi e"
  have X: "?X = x * 2 powi E"
    by (simp add: x_def E_def power_int_add power_int_minus)
  note b = fls64_bounds [OF m]
  have p: "(2::real) powi (- sh) * 2 powi (int (fls64 m) - 1) = 2 ^ 23"
    "(2::real) powi (- sh) * 2 powi int (fls64 m) = 2 ^ 24"
    by (simp_all add: sh_def flip: power_int_add del: power_int_of_nat)
  have "2 powi (- sh) * 2 powi (int (fls64 m) - 1) \<le> 2 powi (- sh) * (real (unat m) + d)"
    using b d by (intro mult_left_mono) auto
  then have x1: "2 ^ 23 \<le> x" unfolding p x_def by (simp add: mult.commute)
  have "2 powi (- sh) * (real (unat m) + d) < 2 powi (- sh) * 2 powi int (fls64 m)"
    using b d by (intro mult_strict_left_mono) auto
  then have x2: "x < 2 ^ 24" unfolding p x_def by (simp add: mult.commute)
  have "0 < unat m" using m by (simp add: unat_gt_0)
  then have Xpos: "0 < ?X" using d by (intro mult_pos_pos add_pos_nonneg) simp_all
  with range have r: "2 powi (- 126) \<le> ?X" "?X < 2 powi 127" by (auto simp: f32_in_range_def)
  have "2 powi (- 126) < 2 ^ 24 * (2::real) powi E"
    using r x2 unfolding X by (metis le_less_trans mult_strict_right_mono zero_less_power_int zero_less_numeral)
  also have "\<dots> = 2 powi (24 + E)" by (simp add: power_int_add)
  finally have "- 126 < 24 + E" by (simp only: power_int_less_iff)
  then have E1: "1 \<le> E + 150" by simp
  have "2 powi (23 + E) = 2 ^ 23 * (2::real) powi E" by (simp add: power_int_add)
  also have "\<dots> \<le> ?X" unfolding X using x1 by (intro mult_right_mono) auto
  also have "\<dots> < 2 powi 127" by (rule r)
  finally have "23 + E < 127" by (simp only: power_int_less_iff)
  then have E2: "E + 150 \<le> 253" by simp
  show ?thesis
  proof (cases "0 < sh")
    case True
    define n where "n = nat sh"
    have n: "0 < n" "n < 64" "sh = int n" using True fls64_le [of m] by (auto simp: n_def sh_def)
    define R where "R = rne (unat m) n sticky"
    have m': "unat (ar_f32_round_up m n sticky) = R" by (simp add: R_def unat_round_up n)
    have xn: "x = (real (unat m) + d) / 2 ^ n" by (simp add: x_def n power_int_minus divide_inverse)
    have R: "\<bar>real R - x\<bar> \<le> 1 / 2" "\<bar>real R - x\<bar> = 1 / 2 \<Longrightarrow> even R"
      using rne_nearest [OF n(1) d sticky, of "unat m"] unfolding R_def xn by auto
    have "8388608 \<le> x" "x < 16777216" using x1 x2 by simp_all
    then have "8388608 < real R + 1" "real R < 16777217" using R(1) by linarith+
    then have R': "2 ^ 23 \<le> R" "R \<le> 2 ^ 24" by simp_all
    have rp: "ar_f32_round_pack s m e sticky =
        (let m' = ar_f32_round_up m n sticky
         in if drop_bit 24 m' \<noteq> 0 then ar_f32_pack_bits s (drop_bit 1 m') (E + 1)
            else ar_f32_pack_bits s m' E)"
      using m True by (simp add: ar_f32_round_pack_def Let_def E_def n_def sh_def)
    have top: "drop_bit 24 (ar_f32_round_up m n sticky) \<noteq> 0 \<longleftrightarrow> R = 2 ^ 24"
      using R' by (auto simp: word_unat_eq_iff unat_drop_bit m' div_eq_0_iff)
    show ?thesis
    proof (cases "R = 2 ^ 24")
      case True
      define h where "h = drop_bit 1 (ar_f32_round_up m n sticky)"
      have h: "unat h = 2 ^ 23" by (simp add: h_def unat_drop_bit m' True)
      have r: "ar_f32_round_pack s m e sticky = ar_f32_pack_bits s h (E + 1)"
        using top True by (simp add: rp Let_def h_def)
      show ?thesis unfolding X r using E1 E2 True
        by (intro rounded_scaled [OF _ _ _ R x1])
           (simp_all add: unpack_pack_bits pack_val h power_int_add)
    next
      case False
      have r: "ar_f32_round_pack s m e sticky = ar_f32_pack_bits s (ar_f32_round_up m n sticky) E"
        using top False by (simp add: rp Let_def)
      show ?thesis unfolding X r using E1 E2 False R'
        by (intro rounded_scaled [OF _ _ _ R x1]) (simp_all add: unpack_pack_bits pack_val m')
    qed
  next
    case False
    then have nst: "\<not> sticky" "d = 0" using big sticky by (auto simp: sh_def)
    define n where "n = nat (- sh)"
    have "0 < fls64 m" using m by (simp add: fls64_def bit_length_pos_iff unat_gt_0)
    then have n: "sh = - int n" "n \<le> 23" using False by (auto simp: n_def sh_def)
    have rx: "real (unat m * 2 ^ n) = x" by (simp add: x_def n(1) nst)
    have "real (unat m * 2 ^ n) < real (2 ^ 24)" unfolding rx using x2 by simp
    then have up: "unat m * 2 ^ n < 2 ^ 24" by (simp only: of_nat_less_iff)
    have u: "unat (push_bit n m) = unat m * 2 ^ n"
      using up by (simp add: unat_push_bit)
    have "real (2 ^ 23) \<le> real (unat m * 2 ^ n)" unfolding rx using x1 by simp
    then have lo: "2 ^ 23 \<le> unat m * 2 ^ n" by (simp only: of_nat_le_iff)
    have r: "ar_f32_round_pack s m e sticky = ar_f32_pack_bits s (push_bit n m) E"
      using m False by (auto simp: ar_f32_round_pack_def Let_def E_def n_def sh_def)
    have "f32_val (ar_f32_pack_bits s (push_bit n m) E) = sgn_of s * (real (unat m * 2 ^ n) * 2 powi E)"
      using E1 E2 up lo u pack_val [of "push_bit n m" E s] by simp
    then show ?thesis unfolding r X rx using E1 E2 up lo u
      by (intro rounded_exact) (simp_all add: unpack_pack_bits)
  qed
qed

end
