(* ===== verification/Isp_Float_Correct.thy ===== *)
theory Isp_Float_Correct
  imports Isp_Rounding
begin

text \<open>
  Every operation of \<open>ar-isp-softfloat.h\<close> is the correctly rounded one on results in the
  normal range, the conversion to \<open>s32\<close> is truncation with saturation, and non-negative
  bit patterns are ordered like their values.
\<close>

section \<open>Products and quotients\<close>

lemma in_range_sgn [simp]: "f32_in_range (sgn_of s * x) \<longleftrightarrow> f32_in_range x"
  by (simp add: f32_in_range_def sgn_of_def)

lemma rounded_zero: "f32_rounded 0 0" "f32_rounded 0 0x80000000"
  by (rule rounded_exact; simp add: f32_finite_def f32_val_unpack ar_f32_unpack_def Let_def)+

lemma round_pack_exact:
  assumes "m \<noteq> 0" "f32_in_range (real (unat m) * 2 powi e)"
  shows "f32_rounded (sgn_of s * (real (unat m) * 2 powi e)) (ar_f32_round_pack s m e False)"
  using round_pack_nearest [of m 0 False e s] assms by simp

lemma sig_mult: "unat (up_sig (ar_f32_unpack a) * up_sig (ar_f32_unpack b)) =
    unat (up_sig (ar_f32_unpack a)) * unat (up_sig (ar_f32_unpack b))"
  and sig_mult_less: "unat (up_sig (ar_f32_unpack a) * up_sig (ar_f32_unpack b)) < 2 ^ 48"
proof -
  have "unat (up_sig (ar_f32_unpack a)) * unat (up_sig (ar_f32_unpack b)) < 2 ^ 24 * 2 ^ 24"
    by (intro mult_strict_mono unpack_sig_less) auto
  then show "unat (up_sig (ar_f32_unpack a) * up_sig (ar_f32_unpack b)) =
      unat (up_sig (ar_f32_unpack a)) * unat (up_sig (ar_f32_unpack b))"
    and "unat (up_sig (ar_f32_unpack a) * up_sig (ar_f32_unpack b)) < 2 ^ 48"
    by (simp_all add: unat_mult_small)
qed

lemma mul_rounded:
  assumes "f32_in_range (f32_val a * f32_val b)"
  shows "f32_rounded (f32_val a * f32_val b) (ar_f32_mul a b)"
proof -
  let ?x = "ar_f32_unpack a" and ?y = "ar_f32_unpack b"
  have v: "f32_val a * f32_val b = sgn_of (up_sign ?x \<noteq> up_sign ?y) *
      (real (unat (up_sig ?x * up_sig ?y)) * 2 powi (up_exp ?x + up_exp ?y))"
    by (simp add: f32_val_unpack sgn_of_xor sig_mult power_int_add)
  show ?thesis
  proof (cases "up_sig ?x = 0 \<or> up_sig ?y = 0")
    case True
    then show ?thesis unfolding v using rounded_zero by (auto simp: ar_f32_mul_def Let_def)
  next
    case False
    then have nz: "up_sig ?x * up_sig ?y \<noteq> 0"
      using sig_mult [of a b] by (auto simp: word_unat_eq_iff)
    have "ar_f32_mul a b = ar_f32_round_pack (up_sign ?x \<noteq> up_sign ?y) (up_sig ?x * up_sig ?y)
        (up_exp ?x + up_exp ?y) False"
      using False by (simp add: ar_f32_mul_def Let_def)
    then show ?thesis
      using assms round_pack_exact [OF nz] unfolding v by simp
  qed
qed

text \<open>Both significands are normalised: the domain the header names, or a zero.\<close>

definition f32_normal :: "ar_f32 \<Rightarrow> bool" where
  "f32_normal a \<longleftrightarrow> drop_bit 23 a AND 0xff \<noteq> 0"

lemma normal_sig: "f32_normal a \<Longrightarrow> 2 ^ 23 \<le> unat (up_sig (ar_f32_unpack a))"
  using f32_mant_bounds [of a]
  by (auto simp: f32_normal_def ar_f32_unpack_def Let_def ar_isp_f32_mant_def unat_ucast_up
      uint_0_iff)

lemma div_rounded:
  assumes a: "f32_normal a" and b: "f32_normal b" and r: "f32_in_range (f32_val a / f32_val b)"
  shows "f32_rounded (f32_val a / f32_val b) (ar_f32_div a b)"
proof -
  let ?x = "ar_f32_unpack a" and ?y = "ar_f32_unpack b"
  define X Y where "X = unat (up_sig ?x)" and "Y = unat (up_sig ?y)"
  have XY: "2 ^ 23 \<le> X" "X < 2 ^ 24" "2 ^ 23 \<le> Y" "Y < 2 ^ 24"
    using normal_sig [OF a] normal_sig [OF b] unpack_sig_less [of a] unpack_sig_less [of b]
    by (simp_all add: X_def Y_def)
  define q where "q = push_bit 30 (up_sig ?x) div up_sig ?y"
  have n: "unat (push_bit 30 (up_sig ?x)) = X * 2 ^ 30"
    using XY by (simp add: unat_push_bit X_def [symmetric])
  have q: "unat q = X * 2 ^ 30 div Y" by (simp add: q_def unat_div n Y_def)
  have rem: "unat (push_bit 30 (up_sig ?x) mod up_sig ?y) = X * 2 ^ 30 mod Y"
    by (simp add: unat_mod n Y_def)
  define d where "d = real (X * 2 ^ 30 mod Y) / real Y"
  have Y0: "0 < Y" using XY by simp
  have d: "0 \<le> d" "d < 1" using Y0 by (simp_all add: d_def)
  have quot: "real (unat q) + d = real (X * 2 ^ 30) / real Y"
    unfolding q d_def using Y0
    by (simp add: add_divide_distrib field_simps flip: of_nat_mult of_nat_add)
  have "2 ^ 29 * Y \<le> 2 ^ 23 * 2 ^ 30" using XY by simp
  also have "\<dots> \<le> X * 2 ^ 30" using XY by simp
  finally have big: "2 ^ 29 \<le> unat q" unfolding q using Y0 by (simp add: less_eq_div_iff_mult_less_eq)
  then have fls: "24 < fls64 q"
    using bit_length_le_iff [of "unat q" 24] by (simp add: fls64_def not_le [symmetric])
  have q0: "q \<noteq> 0" using big by auto
  let ?E = "up_exp ?x - up_exp ?y - 30" and ?s = "up_sign ?x \<noteq> up_sign ?y"
  have v: "f32_val a / f32_val b = sgn_of ?s * ((real (unat q) + d) * 2 powi ?E)"
    unfolding quot using Y0
    by (simp add: f32_val_unpack sgn_of_def power_int_diff X_def [symmetric] Y_def [symmetric])
  have nz: "up_sig ?x \<noteq> 0" "up_sig ?y \<noteq> 0"
    using XY by (auto simp: X_def Y_def)
  have st: "(push_bit 30 (up_sig ?x) mod up_sig ?y \<noteq> 0) \<longleftrightarrow> d \<noteq> 0"
    using Y0 by (simp add: word_unat_eq_iff rem d_def)
  have "ar_f32_div a b = ar_f32_round_pack ?s q ?E (push_bit 30 (up_sig ?x) mod up_sig ?y \<noteq> 0)"
    using nz by (simp add: ar_f32_div_def Let_def q_def)
  then show ?thesis
    using r round_pack_nearest [OF q0 d st] fls unfolding v by simp
qed

section \<open>Sums\<close>

lemma norm_facts:
  assumes nz: "up_sig v \<noteq> 0" and small: "unat (up_sig v) < 2 ^ 62"
  shows "2 ^ 62 \<le> unat (up_sig (ar_f32_norm v))" "unat (up_sig (ar_f32_norm v)) < 2 ^ 63"
    "even (unat (up_sig (ar_f32_norm v)))" "up_sign (ar_f32_norm v) = up_sign v"
    "up_val (ar_f32_norm v) = up_val v" "up_sig (ar_f32_norm v) \<noteq> 0"
proof -
  define M L n where "M = unat (up_sig v)" and "L = fls64 (up_sig v)" and "n = 63 - L"
  have M: "0 < M" "M < 2 ^ 62" using nz small by (simp_all add: M_def unat_gt_0)
  then have L: "0 < L" "L \<le> 62" "2 ^ (L - 1) \<le> M" "M < 2 ^ L"
    using bit_length_lower [of M] bit_length_upper [of M] bit_length_le_iff [of M 62]
    by (simp_all add: L_def M_def fls64_def bit_length_pos_iff)
  then have n: "0 < n" "n + L = 63" "n + (L - 1) = 62" by (auto simp: n_def)
  have w: "ar_f32_norm v = v\<lparr>up_sig := push_bit n (up_sig v), up_exp := up_exp v - int n\<rparr>"
    using nz L(2) by (simp add: ar_f32_norm_def Let_def n_def of_nat_diff nat_diff_distrib flip: L_def)
  have p: "(2::nat) ^ (L - 1) * 2 ^ n = 2 ^ 62" "(2::nat) ^ L * 2 ^ n = 2 ^ 63"
    using n by (simp_all only: power_add [symmetric] add.commute)
  have lo: "2 ^ 62 \<le> M * 2 ^ n" using mult_le_mono1 [OF L(3), of "2 ^ n"] unfolding p .
  have hi: "M * 2 ^ n < 2 ^ 63" using mult_strict_right_mono [OF L(4), of "2 ^ n"] unfolding p by simp
  have u: "unat (push_bit n (up_sig v)) = M * 2 ^ n"
    using hi by (simp add: unat_push_bit M_def)
  show "2 ^ 62 \<le> unat (up_sig (ar_f32_norm v))" "unat (up_sig (ar_f32_norm v)) < 2 ^ 63"
    using lo hi by (simp_all add: w u)
  show "even (unat (up_sig (ar_f32_norm v)))" using n(1) by (simp add: w u)
  show "up_sign (ar_f32_norm v) = up_sign v" by (simp add: w)
  show "up_val (ar_f32_norm v) = up_val v"
    by (simp add: up_val_def w u M_def power_int_diff)
  show "up_sig (ar_f32_norm v) \<noteq> 0" using lo u by (auto simp: w)
qed

lemma shift_down_facts:
  assumes Y: "2 ^ 62 \<le> unat y" "unat y < 2 ^ 63" and ev: "even (unat y)" and d: "0 < d"
    and sd: "ar_f32_shift_down y d = (ys, st)"
  obtains t where "0 \<le> t" "t < 1" "st \<longleftrightarrow> t \<noteq> 0" "unat ys < 2 ^ 62" "st \<Longrightarrow> unat ys < 2 ^ 61"
    "real (unat y) * 2 powi (- d) = real (unat ys) + t"
proof (cases "d > 63")
  case True
  have "(2::real) powi (- d) \<le> 2 powi (- 63)" using True by (intro power_int_increasing) auto
  then have "real (unat y) * 2 powi (- d) \<le> real (unat y) * 2 powi (- 63)"
    by (intro mult_left_mono) auto
  also have "\<dots> < 1" using Y(2) by (simp add: power_int_minus divide_simps)
  finally have "real (unat y) * 2 powi (- d) < 1" .
  moreover have "unat y \<noteq> 0" using Y(1) by auto
  ultimately show ?thesis
    using sd True by (intro that [of "real (unat y) * 2 powi (- d)"]) (auto simp: ar_f32_shift_down_def)
next
  case False
  define n where "n = nat d"
  have n: "0 < n" "n < 64" "d = int n" using d False by (auto simp: n_def)
  have sd': "ys = drop_bit n y" "st \<longleftrightarrow> y AND (2 ^ n - 1) \<noteq> 0"
    using sd False by (auto simp: ar_f32_shift_down_def n_def push_bit_eq_mult)
  have ys: "unat ys = unat y div 2 ^ n"
    and st: "st \<longleftrightarrow> unat y mod 2 ^ n \<noteq> 0"
    using sd' by (auto simp: unat_drop_bit word_unat_eq_iff unat_low_mask [OF n(2), unfolded push_bit_eq_mult mult_1])
  show ?thesis
  proof (rule that [of "real (unat y mod 2 ^ n) / 2 ^ n"])
    show "real (unat y mod 2 ^ n) / 2 ^ n < 1"
      by (simp add: divide_simps)
    have "unat y div 2 ^ n \<le> unat y div 2 ^ 1"
      using n by (intro div_le_mono2 power_increasing) auto
    then show "unat ys < 2 ^ 62" using Y ys by simp
    assume st
    then have "n \<noteq> 1" using ev st by (auto simp: even_iff_mod_2_eq_zero)
    then have "unat y div 2 ^ n \<le> unat y div 2 ^ 2"
      using n by (intro div_le_mono2 power_increasing) auto
    then show "unat ys < 2 ^ 61" using Y ys by simp
  next
    have "real (unat y) = real (unat y div 2 ^ n) * 2 ^ n + real (unat y mod 2 ^ n)"
      using arg_cong [OF div_mult_mod_eq [of "unat y" "2 ^ n"], of real, symmetric]
      by (simp only: of_nat_add of_nat_mult of_nat_power of_nat_numeral)
    then show "real (unat y) * 2 powi (- d) = real (unat ys) + real (unat y mod 2 ^ n) / 2 ^ n"
      unfolding n(3) ys by (simp add: power_int_minus divide_inverse distrib_right mult.assoc)
  qed (simp_all add: st)
qed

text \<open>The two additions of an aligned pair: the larger significand, and the shifted one.\<close>

lemma big_fls: "2 ^ 60 \<le> unat m \<Longrightarrow> 24 < fls64 m \<and> m \<noteq> 0"
  using bit_length_le_iff [of "unat m" 24] by (auto simp: fls64_def not_le [symmetric])

lemma aligned_same:
  assumes X: "2 ^ 62 \<le> unat x" "unat x < 2 ^ 63" and y: "unat y < 2 ^ 63"
    and t: "0 \<le> t" "t < 1" "st \<longleftrightarrow> t \<noteq> 0"
    and r: "f32_in_range ((real (unat x) + (real (unat y) + t)) * 2 powi e)"
  shows "x + y \<noteq> 0 \<and> f32_rounded (sgn_of s * ((real (unat x) + (real (unat y) + t)) * 2 powi e))
    (ar_f32_round_pack s (x + y) e st)"
proof -
  have u: "unat (x + y) = unat x + unat y" using X y by (intro unat_add_small) simp
  have b: "24 < fls64 (x + y) \<and> x + y \<noteq> 0" using X by (intro big_fls) (simp add: u)
  show ?thesis using b round_pack_nearest [OF _ t, of "x + y" e s] r by (simp add: u add.assoc)
qed

lemma aligned_diff:
  assumes X: "2 ^ 62 \<le> unat x" "unat x < 2 ^ 63" and y: "unat y < 2 ^ 62" "st \<Longrightarrow> unat y < 2 ^ 61"
    and t: "0 \<le> t" "t < 1" "st \<longleftrightarrow> t \<noteq> 0"
    and r: "f32_in_range ((real (unat x) - (real (unat y) + t)) * 2 powi e)"
  defines "m \<equiv> (if st \<and> x - y \<noteq> 0 then x - y - 1 else x - y)"
  shows "y < x \<and> m \<noteq> 0 \<and> f32_rounded (sgn_of s * ((real (unat x) - (real (unat y) + t)) * 2 powi e))
    (ar_f32_round_pack s m e st)"
proof -
  have lt: "y < x" using X y by (simp add: word_less_nat_alt)
  have u: "unat (x - y) = unat x - unat y" using X y by (intro unat_le_minus) simp
  have nz: "x - y \<noteq> 0" using lt by auto
  show ?thesis
  proof (cases st)
    case True
    then have m: "m = x - y - 1" using nz by (simp add: m_def)
    have um: "unat m = unat x - unat y - 1" unfolding m using u X y True
      by (subst unat_le_minus) auto
    then have um': "real (unat m) + (1 - t) = real (unat x) - (real (unat y) + t)"
      using X y True by (simp add: of_nat_diff)
    have b: "24 < fls64 m \<and> m \<noteq> 0" using X y True by (intro big_fls) (simp add: um)
    show ?thesis
      using b lt round_pack_nearest [of m "1 - t" st e s] r t True unfolding um' by auto
  next
    case False
    then have m: "m = x - y" "t = 0" using t by (auto simp: m_def)
    have "real (unat m) = real (unat x) - (real (unat y) + t)"
      using X y by (simp add: u m of_nat_diff)
    then show ?thesis
      using nz lt round_pack_exact [of m e s] r False by (simp add: m)
  qed
qed

definition up_normed :: "ar_f32_up \<Rightarrow> bool" where
  "up_normed v \<longleftrightarrow> 2 ^ 62 \<le> unat (up_sig v) \<and> unat (up_sig v) < 2 ^ 63 \<and> even (unat (up_sig v))"

lemma up_normedD: "up_normed v \<Longrightarrow> 2 ^ 62 \<le> unat (up_sig v)" "up_normed v \<Longrightarrow> unat (up_sig v) < 2 ^ 63"
  by (simp_all add: up_normed_def)

lemma add_shifted:
  assumes x: "up_normed x" and y: "up_normed y" and d: "up_exp y < up_exp x"
    and sd: "ar_f32_shift_down (up_sig y) (up_exp x - up_exp y) = (ys, st)"
    and r: "f32_in_range (up_val x + up_val y)"
  shows "up_sign x = up_sign y \<Longrightarrow> up_sig x + ys \<noteq> 0 \<and>
      f32_rounded (up_val x + up_val y) (ar_f32_round_pack (up_sign x) (up_sig x + ys) (up_exp x) st)"
    and "up_sign x \<noteq> up_sign y \<Longrightarrow> m = (if st \<and> up_sig x - ys \<noteq> 0 then up_sig x - ys - 1 else up_sig x - ys) \<Longrightarrow>
      ys < up_sig x \<and> m \<noteq> 0 \<and>
      f32_rounded (up_val x + up_val y) (ar_f32_round_pack (up_sign x) m (up_exp x) st)"
proof -
  from y have y': "2 ^ 62 \<le> unat (up_sig y)" "unat (up_sig y) < 2 ^ 63" "even (unat (up_sig y))"
    by (simp_all add: up_normed_def)
  from d have "0 < up_exp x - up_exp y" by simp
  from shift_down_facts [OF y' this sd] obtain t where t: "0 \<le> t" "t < 1" "st \<longleftrightarrow> t \<noteq> 0"
    and ys: "unat ys < 2 ^ 62" "st \<Longrightarrow> unat ys < 2 ^ 61"
    and v: "real (unat (up_sig y)) * 2 powi (- (up_exp x - up_exp y)) = real (unat ys) + t" by blast
  have "(2::real) powi up_exp y = 2 powi (- (up_exp x - up_exp y)) * 2 powi up_exp x"
    by (simp flip: power_int_add)
  then have vy: "up_val y = sgn_of (up_sign y) * ((real (unat ys) + t) * 2 powi up_exp x)"
    unfolding v [symmetric] by (simp add: up_val_def)
  note X = up_normedD [OF x]
  show "up_sig x + ys \<noteq> 0 \<and>
      f32_rounded (up_val x + up_val y) (ar_f32_round_pack (up_sign x) (up_sig x + ys) (up_exp x) st)"
    if same: "up_sign x = up_sign y"
  proof -
    have sum: "up_val x + up_val y = sgn_of (up_sign x) *
        ((real (unat (up_sig x)) + (real (unat ys) + t)) * 2 powi up_exp x)"
      using same by (simp add: vy) (simp add: up_val_def algebra_simps)
    have "unat ys < 2 ^ 63" using ys by simp
    then show ?thesis using aligned_same [OF X _ t] r unfolding sum by simp
  qed
  show "ys < up_sig x \<and> m \<noteq> 0 \<and>
      f32_rounded (up_val x + up_val y) (ar_f32_round_pack (up_sign x) m (up_exp x) st)"
    if diff: "up_sign x \<noteq> up_sign y"
      and m: "m = (if st \<and> up_sig x - ys \<noteq> 0 then up_sig x - ys - 1 else up_sig x - ys)"
  proof -
    have sum: "up_val x + up_val y = sgn_of (up_sign x) *
        ((real (unat (up_sig x)) - (real (unat ys) + t)) * 2 powi up_exp x)"
      using diff by (simp add: vy sgn_of_def) (auto simp add: up_val_def sgn_of_def algebra_simps)
    show ?thesis using aligned_diff [OF X ys t] r unfolding sum m by simp
  qed
qed

lemma add_level:
  assumes x: "up_normed x" and y: "up_normed y" and d: "up_exp x = up_exp y"
    and r: "f32_in_range (up_val x + up_val y)"
  shows "up_sign x = up_sign y \<Longrightarrow> up_sig x + up_sig y \<noteq> 0 \<and>
      f32_rounded (up_val x + up_val y) (ar_f32_round_pack (up_sign x) (up_sig x + up_sig y) (up_exp x) False)"
    and "up_sign x \<noteq> up_sign y \<Longrightarrow> up_sig y < up_sig x \<Longrightarrow>
      f32_rounded (up_val x + up_val y) (ar_f32_round_pack (up_sign x) (up_sig x - up_sig y) (up_exp x) False)"
    and "up_sign x \<noteq> up_sign y \<Longrightarrow> up_sig x = up_sig y \<Longrightarrow> up_val x + up_val y = 0"
proof -
  note X = up_normedD [OF x] and Y = up_normedD [OF y]
  show "up_sig x + up_sig y \<noteq> 0 \<and>
      f32_rounded (up_val x + up_val y) (ar_f32_round_pack (up_sign x) (up_sig x + up_sig y) (up_exp x) False)"
    if same: "up_sign x = up_sign y"
  proof -
    have sum: "up_val x + up_val y = sgn_of (up_sign x) *
        ((real (unat (up_sig x)) + (real (unat (up_sig y)) + 0)) * 2 powi up_exp x)"
      using same d by (simp add: up_val_def algebra_simps)
    show ?thesis using aligned_same [OF X Y(2), of 0 False] r unfolding sum by simp
  qed
  show "f32_rounded (up_val x + up_val y) (ar_f32_round_pack (up_sign x) (up_sig x - up_sig y) (up_exp x) False)"
    if diff: "up_sign x \<noteq> up_sign y" and lt: "up_sig y < up_sig x"
  proof -
    from lt have le: "unat (up_sig y) \<le> unat (up_sig x)" by (simp add: word_less_nat_alt)
    have sum: "up_val x + up_val y = sgn_of (up_sign x) *
        (real (unat (up_sig x - up_sig y)) * 2 powi up_exp x)"
      using diff d le by (auto simp: up_val_def sgn_of_def unat_le_minus of_nat_diff algebra_simps)
    have "up_sig x - up_sig y \<noteq> 0" using lt by auto
    from round_pack_exact [OF this] r show ?thesis unfolding sum by simp
  qed
  show "up_val x + up_val y = 0" if "up_sign x \<noteq> up_sign y" and "up_sig x = up_sig y"
    using that d by (auto simp: up_val_def sgn_of_def)
qed

lemma add_normed:
  assumes x: "up_normed x" and y: "up_normed y" and r: "f32_in_range (up_val x + up_val y)"
  shows "f32_rounded (up_val x + up_val y)
    (let d = up_exp x - up_exp y;
            (xs, ys, e, sticky) =
              (if d > 0 then
                 let (ys, st) = ar_f32_shift_down (up_sig y) d in (up_sig x, ys, up_exp x, st)
               else if d < 0 then
                 let (xs, st) = ar_f32_shift_down (up_sig x) (- d) in (xs, up_sig y, up_exp y, st)
               else (up_sig x, up_sig y, up_exp x, False));
            (s, m) =
              (if up_sign x = up_sign y then (up_sign x, xs + ys)
               else if xs \<ge> ys then
                 (up_sign x, if sticky \<and> xs - ys \<noteq> 0 then xs - ys - 1 else xs - ys)
               else (up_sign y, if sticky \<and> ys - xs \<noteq> 0 then ys - xs - 1 else ys - xs))
        in if m = 0 then 0 else ar_f32_round_pack s m e sticky)"
proof -
  consider (gt) "up_exp y < up_exp x" | (lt) "up_exp x < up_exp y" | (eq) "up_exp x = up_exp y"
    by linarith
  then show ?thesis
  proof cases
    case gt
    obtain ys st where sd: "ar_f32_shift_down (up_sig y) (up_exp x - up_exp y) = (ys, st)"
      by fastforce
    note A = add_shifted [OF x y gt sd r]
    show ?thesis
    proof (cases "up_sign x = up_sign y")
      case True
      with A(1) gt sd show ?thesis by (simp add: Let_def)
    next
      case False
      with A(2) [OF False refl] gt sd show ?thesis by (auto simp: Let_def)
    qed
  next
    case lt
    obtain xs st where sd: "ar_f32_shift_down (up_sig x) (up_exp y - up_exp x) = (xs, st)"
      by fastforce
    have r': "f32_in_range (up_val y + up_val x)" using r by (simp add: add.commute)
    note A = add_shifted [OF y x lt sd r', unfolded add.commute [of "up_val y"]]
    show ?thesis
    proof (cases "up_sign x = up_sign y")
      case True
      with A(1) lt sd show ?thesis by (simp add: Let_def add.commute)
    next
      case False
      then have ne: "up_sign y \<noteq> up_sign x" by simp
      from A(2) [OF ne refl] False lt sd show ?thesis by (auto simp: Let_def not_le)
    qed
  next
    case eq
    have r': "f32_in_range (up_val y + up_val x)" using r by (simp add: add.commute)
    note A = add_level [OF x y eq r]
      and B = add_level [OF y x eq [symmetric] r', unfolded add.commute [of "up_val y"]]
    show ?thesis
    proof (cases "up_sign x = up_sign y")
      case True
      with A(1) eq show ?thesis by (simp add: Let_def)
    next
      case False
      then have ne: "up_sign y \<noteq> up_sign x" by simp
      consider "up_sig y < up_sig x" | "up_sig x < up_sig y" | "up_sig x = up_sig y" by fastforce
      then show ?thesis
      proof cases
        case 1 with A(2) False eq show ?thesis by (auto simp: Let_def less_imp_le)
      next
        case 2 with B(2) [OF ne] False eq show ?thesis by (auto simp: Let_def not_le)
      next
        case 3 with A(3) False eq rounded_zero(1) show ?thesis by (simp add: Let_def)
      qed
    qed
  qed
qed

lemma add_up_rounded:
  assumes x: "unat (up_sig x) < 2 ^ 62" and y: "unat (up_sig y) < 2 ^ 62"
    and r: "f32_in_range (up_val x + up_val y)"
  shows "f32_rounded (up_val x + up_val y) (ar_f32_add_up x y)"
proof -
  consider (z) "up_sig x = 0" "up_sig y = 0" | (zx) "up_sig x = 0" "up_sig y \<noteq> 0"
    | (zy) "up_sig x \<noteq> 0" "up_sig y = 0" | (nz) "up_sig x \<noteq> 0" "up_sig y \<noteq> 0" by blast
  then show ?thesis
  proof cases
    case z
    then show ?thesis using rounded_zero by (simp add: ar_f32_add_up_def up_val_def)
  next
    case zx
    then show ?thesis using round_pack_exact [OF zx(2)] r by (simp add: ar_f32_add_up_def up_val_def)
  next
    case zy
    then show ?thesis using round_pack_exact [OF zy(1)] r by (simp add: ar_f32_add_up_def up_val_def)
  next
    case nz
    note X = norm_facts [OF nz(1) x] and Y = norm_facts [OF nz(2) y]
    have n: "up_normed (ar_f32_norm x)" "up_normed (ar_f32_norm y)"
      using X Y by (simp_all add: up_normed_def)
    have "f32_in_range (up_val (ar_f32_norm x) + up_val (ar_f32_norm y))"
      using r by (simp only: X(5) Y(5))
    from add_normed [OF n this] show ?thesis
      using nz unfolding X(4,5) Y(4,5) ar_f32_add_up_def Let_def by simp
  qed
qed

lemma add_rounded:
  "f32_in_range (f32_val a + f32_val b) \<Longrightarrow> f32_rounded (f32_val a + f32_val b) (ar_f32_add a b)"
  using unpack_sig_less [of a] unpack_sig_less [of b]
  by (simp add: ar_f32_add_def f32_val_def add_up_rounded)

lemma unpack_flip:
  "ar_f32_unpack (b XOR 0x80000000) = (ar_f32_unpack b)\<lparr>up_sign := \<not> up_sign (ar_f32_unpack b)\<rparr>"
proof -
  have b: "bit (b XOR 0x80000000) n \<longleftrightarrow> (if n = 31 then \<not> bit b 31 else bit b n)" if "n < 32" for n
  proof -
    have "(0x80000000 :: u32) = 2 ^ 31" by simp
    then have "bit (0x80000000 :: u32) n \<longleftrightarrow> n = 31"
      using that by (simp only: bit_exp_iff) auto
    then show ?thesis using that by (auto simp: bit_xor_iff)
  qed
  define c where "c = b XOR 0x80000000"
  note b = b [folded c_def]
  have m: "c AND mask 23 = b AND mask 23"
    by (rule bit_word_eqI) (use b in \<open>auto simp: bit_and_iff bit_mask_iff\<close>)
  have e: "drop_bit 23 c AND mask 8 = drop_bit 23 b AND mask 8"
    by (rule bit_word_eqI) (use b in \<open>auto simp: bit_and_iff bit_mask_iff bit_drop_bit_eq\<close>)
  have s: "(drop_bit 31 c AND 1 \<noteq> 0) = (\<not> (drop_bit 31 b AND 1 \<noteq> 0))"
    using b [of 31] by (simp only: and_one_nonzero) (simp add: bit_drop_bit_eq)
  show ?thesis
    unfolding c_def [symmetric] ar_f32_unpack_def Let_def mask_literals m e
    by simp (use s in blast)
qed

lemma val_flip: "f32_val (b XOR 0x80000000) = - f32_val b"
  by (simp add: f32_val_unpack unpack_flip sgn_of_def)

lemma sub_rounded:
  "f32_in_range (f32_val a - f32_val b) \<Longrightarrow> f32_rounded (f32_val a - f32_val b) (ar_f32_sub a b)"
  using add_rounded [of a "b XOR 0x80000000"] by (simp add: ar_f32_sub_def val_flip)

lemma fma_rounded:
  assumes "f32_in_range (f32_val a * f32_val b + f32_val c)"
  shows "f32_rounded (f32_val a * f32_val b + f32_val c) (ar_f32_fma a b c)"
proof -
  let ?x = "ar_f32_unpack a" and ?y = "ar_f32_unpack b"
  define p where "p = \<lparr>up_sig = up_sig ?x * up_sig ?y, up_exp = up_exp ?x + up_exp ?y,
    up_sign = (up_sign ?x \<noteq> up_sign ?y)\<rparr>"
  have v: "up_val p = f32_val a * f32_val b"
    by (simp add: p_def up_val_def f32_val_unpack sgn_of_xor sig_mult power_int_add)
  have f: "ar_f32_fma a b c = ar_f32_add_up p (ar_f32_unpack c)"
    by (simp add: ar_f32_fma_def Let_def p_def)
  have "unat (up_sig p) < 2 ^ 62" using sig_mult_less [of a b] by (simp add: p_def)
  then show ?thesis
    using add_up_rounded [of p "ar_f32_unpack c"] unpack_sig_less [of c] assms
    unfolding f by (simp add: v f32_val_def)
qed

section \<open>Conversions\<close>

lemma sint_bounds: "- (2 ^ 31) \<le> sint (v :: s32) \<and> sint v < 2 ^ 31"
  using sint_range_size [of v] by (simp add: word_size)

lemma unat_of_int_64: "0 \<le> k \<Longrightarrow> k < 2 ^ 64 \<Longrightarrow> unat (word_of_int k :: u64) = nat k"
  by (simp add: unat_eq_nat_uint uint_word_of_int)

lemma unat_scast_64: "0 \<le> sint (v :: s32) \<Longrightarrow> unat (scast v :: u64) = nat (sint v)"
  "sint (v :: s32) < 0 \<Longrightarrow> unat (- (scast v :: u64)) = nat (- sint v)"
proof -
  have s: "(scast v :: u64) = word_of_int (sint v)" by (rule scast_eq)
  have n: "- (scast v :: u64) = word_of_int (- sint v)" by (simp add: s)
  show "unat (scast v :: u64) = nat (sint v)" if "0 \<le> sint v"
    using that sint_bounds [of v] unfolding s by (intro unat_of_int_64) auto
  show "unat (- (scast v :: u64)) = nat (- sint v)" if "sint v < 0"
    using that sint_bounds [of v] unfolding n by (intro unat_of_int_64) auto
qed

lemma in_range_int:
  assumes "1 \<le> \<bar>i :: int\<bar>" "\<bar>i\<bar> \<le> 2 ^ 31" shows "f32_in_range (real_of_int i)"
proof -
  have "(2::real) powi (- 126) \<le> 1" by (simp add: power_int_minus divide_simps)
  moreover have "(1::real) \<le> \<bar>real_of_int i\<bar>" using assms by linarith
  moreover have "\<bar>real_of_int i\<bar> \<le> 2 ^ 31"
    using assms(2) of_int_le_iff [of "\<bar>i\<bar>" "2 ^ 31", where 'a = real] by simp
  moreover have "(2::real) ^ 31 < 2 powi 127" by simp
  ultimately have "2 powi (- 126) \<le> \<bar>real_of_int i\<bar>" "\<bar>real_of_int i\<bar> < 2 powi 127"
    by (blast intro: order.trans, blast intro: le_less_trans)
  then show ?thesis by (simp only: f32_in_range_def simp_thms)
qed

lemma from_s32_rounded: "f32_rounded (real_of_int (sint v)) (ar_f32_from_s32 v)"
proof -
  define s mag where "s = (sint v < 0)" and "mag = (if s then - (scast v :: u64) else scast v)"
  have mag: "int (unat mag) = \<bar>sint v\<bar>"
    using unat_scast_64 [of v] by (auto simp: mag_def s_def)
  have v: "real_of_int (sint v) = sgn_of s * (real (unat mag) * 2 powi 0)"
  proof -
    have "real (unat mag) = \<bar>real_of_int (sint v)\<bar>"
      using arg_cong [OF mag, of real_of_int] by simp
    then show ?thesis by (auto simp: s_def sgn_of_def)
  qed
  have f: "ar_f32_from_s32 v = (if mag = 0 then 0 else ar_f32_round_pack s mag 0 False)"
    by (simp add: ar_f32_from_s32_def Let_def mag_def s_def)
  show ?thesis
  proof (cases "mag = 0")
    case True
    then show ?thesis unfolding v f using rounded_zero by simp
  next
    case False
    then have "unat mag \<noteq> 0" by (simp add: unat_eq_0)
    then have "1 \<le> \<bar>sint v\<bar>" "\<bar>sint v\<bar> \<le> 2 ^ 31" using mag sint_bounds [of v] by auto
    then have "f32_in_range (sgn_of s * (real (unat mag) * 2 powi 0))"
      unfolding v [symmetric] by (rule in_range_int)
    then show ?thesis unfolding v f using False round_pack_exact [OF False, of 0 s] by simp
  qed
qed

text \<open>Every integer below \<open>2^24\<close> in magnitude is a binary32 number, so \<open>scvtf\<close> is exact on it.\<close>

lemma small_int_float:
  assumes M: "0 < M" "M \<le> 2 ^ 24"
  obtains f where "f32_finite f" "f32_val f = sgn_of s * real M"
proof (cases "M = 2 ^ 24")
  case True
  show ?thesis
    by (rule that [of "ar_f32_pack_bits s (2 ^ 23) 1"])
       (simp_all add: unpack_pack_bits pack_val True)
next
  case False
  define n where "n = 24 - bit_length M"
  define m where "m = (of_nat (M * 2 ^ n) :: u64)"
  have L: "0 < bit_length M" "bit_length M \<le> 24"
    using M False by (simp_all add: bit_length_pos_iff bit_length_le_iff)
  have p: "(2::nat) ^ (bit_length M - 1) * 2 ^ n = 2 ^ 23" "(2::nat) ^ bit_length M * 2 ^ n = 2 ^ 24"
    using L by (simp_all add: n_def flip: power_add)
  have lo: "2 ^ 23 \<le> M * 2 ^ n"
    using mult_le_mono1 [OF bit_length_lower [OF M(1)], of "2 ^ n"] unfolding p .
  have hi: "M * 2 ^ n < 2 ^ 24"
    using mult_strict_right_mono [OF bit_length_upper [of M], of "2 ^ n"] unfolding p by simp
  have u: "unat m = M * 2 ^ n" unfolding m_def using hi by (intro unat_of_nat_small) simp
  have n: "n < 24" using L by (simp add: n_def)
  show ?thesis
  proof (rule that [of "ar_f32_pack_bits s m (- int n)"])
    show "f32_finite (ar_f32_pack_bits s m (- int n))"
      using lo hi n by (intro unpack_pack_bits) (simp_all add: u)
    have "f32_val (ar_f32_pack_bits s m (- int n)) = sgn_of s * (real (M * 2 ^ n) * 2 powi (- int n))"
      using lo hi n by (subst pack_val) (simp_all add: u)
    also have "real (M * 2 ^ n) * 2 powi (- int n) = real M" by (simp add: power_int_minus)
    finally show "f32_val (ar_f32_pack_bits s m (- int n)) = sgn_of s * real M" .
  qed
qed

lemma rounded_value: "f32_rounded x r \<Longrightarrow> f32_finite f \<Longrightarrow> f32_val f = x \<Longrightarrow> f32_val r = x"
  by (fastforce simp: f32_rounded_def)

lemma from_s32_exact:
  assumes "\<bar>sint v\<bar> \<le> 2 ^ 24"
  shows "f32_val (ar_f32_from_s32 v) = real_of_int (sint v)"
proof (cases "sint v = 0")
  case True
  then have "f32_val 0 = real_of_int (sint v)"
    by (simp add: f32_val_unpack ar_f32_unpack_def Let_def)
  moreover have "f32_finite 0" by (simp add: f32_finite_def)
  ultimately show ?thesis by (intro rounded_value [OF from_s32_rounded])
next
  case False
  then obtain f where "f32_finite f" "f32_val f = sgn_of (sint v < 0) * real (nat \<bar>sint v\<bar>)"
    using assms small_int_float [of "nat \<bar>sint v\<bar>"] by (metis nat_le_iff of_nat_numeral of_nat_power zero_less_abs_iff zero_less_nat_eq)
  then show ?thesis
    by (intro rounded_value [OF from_s32_rounded, of f]) (auto simp: sgn_of_def)
qed

text \<open>\<open>fcvtzs\<close> truncates the value toward zero and saturates.\<close>

definition trunc_real :: "real \<Rightarrow> int" where
  "trunc_real x = (if x < 0 then - \<lfloor>- x\<rfloor> else \<lfloor>x\<rfloor>)"

definition clamp_s32 :: "int \<Rightarrow> int" where
  "clamp_s32 i = max (- (2 ^ 31)) (min (2 ^ 31 - 1) i)"

lemma floor_shift_down: "\<lfloor>real m * 2 powi (- int n)\<rfloor> = int (m div 2 ^ n)"
  using floor_divide_of_nat_eq [of m "2 ^ n", where 'a = real]
  by (simp add: power_int_minus divide_inverse)

lemma trunc_sgn: "0 \<le> x \<Longrightarrow> trunc_real (sgn_of s * x) = (if s then - \<lfloor>x\<rfloor> else \<lfloor>x\<rfloor>)"
  by (auto simp: trunc_real_def sgn_of_def)

lemma s32_of_mag:
  assumes "unat (mag :: u64) \<le> 0x7fffffff"
  shows "sint (ucast mag :: s32) = int (unat mag)" "sint (- (ucast mag :: s32)) = - int (unat mag)"
proof -
  have u: "(ucast mag :: s32) = word_of_int (int (unat mag))"
    by (simp add: unsigned_ucast_eq of_nat_unat ucast_eq)
  have n: "- (ucast mag :: s32) = word_of_int (- int (unat mag))" by (simp add: u)
  have k: "sint (word_of_int k :: s32) = k" if "- (2 ^ 31) \<le> k" "k < 2 ^ 31" for k
    using that by (simp add: sint_sbintrunc' signed_take_bit_int_eq_self)
  show "sint (ucast mag :: s32) = int (unat mag)" unfolding u by (rule k) (use assms in auto)
  show "sint (- (ucast mag :: s32)) = - int (unat mag)" unfolding n by (rule k) (use assms in auto)
qed

lemma to_s32_trunc: "sint (ar_f32_to_s32_trunc a) = clamp_s32 (trunc_real (f32_val a))"
proof -
  define s M E where "s = up_sign (ar_f32_unpack a)" and "M = unat (up_sig (ar_f32_unpack a))"
    and "E = up_exp (ar_f32_unpack a)"
  have M: "M < 2 ^ 24" using unpack_sig_less [of a] by (simp add: M_def)
  have sz: "up_sig (ar_f32_unpack a) = 0 \<longleftrightarrow> M = 0" by (simp add: M_def unat_eq_0)
  have v: "trunc_real (f32_val a) = (if s then - \<lfloor>real M * 2 powi E\<rfloor> else \<lfloor>real M * 2 powi E\<rfloor>)"
    unfolding f32_val_unpack by (subst trunc_sgn) (simp_all add: s_def M_def E_def)
  have sat: "sint S32_MAX = 2 ^ 31 - 1" "sint S32_MIN = - (2 ^ 31)"
    by (simp_all add: S32_MAX_def S32_MIN_def)
  show ?thesis
  proof (cases "M = 0")
    case True
    then show ?thesis by (simp add: ar_f32_to_s32_trunc_def Let_def sz v clamp_s32_def)
  next
    case nz: False
    define mag where "mag = (if E \<ge> 0 then push_bit (nat E) (up_sig (ar_f32_unpack a))
      else drop_bit (nat (- E)) (up_sig (ar_f32_unpack a)))"
    have f: "ar_f32_to_s32_trunc a = (if E > 40 then (if s then S32_MIN else S32_MAX)
        else if E < - 63 then 0
        else if mag > 0x7fffffff then (if s then S32_MIN else S32_MAX)
        else if s then - ucast mag else ucast mag)"
      using nz sz by (auto simp: ar_f32_to_s32_trunc_def Let_def s_def E_def mag_def)
    consider (big) "E > 40" | (up) "0 \<le> E" "E \<le> 40" | (down) "E < 0" "- 63 \<le> E" | (tiny) "E < - 63"
      by linarith
    then show ?thesis
    proof cases
      case big
      have "(2::real) ^ 41 = 2 powi 41" by simp
      also have "\<dots> \<le> 2 powi E" using big by (intro power_int_increasing) auto
      also have "\<dots> \<le> real M * 2 powi E"
        using mult_right_mono [of 1 "real M" "2 powi E"] nz by simp
      finally obtain k where k: "\<lfloor>real M * 2 powi E\<rfloor> = k" "2 ^ 41 \<le> k" by (simp add: le_floor_iff)
      show ?thesis using big k(2) by (simp add: f v k(1) sat clamp_s32_def)
    next
      case tiny
      have "real M < 2 ^ 24" using M of_nat_less_iff [of M "2 ^ 24", where 'a = real] by simp
      moreover have "(2::real) powi E \<le> 2 powi (- 63)" using tiny by (intro power_int_increasing) auto
      ultimately have "real M * 2 powi E < 2 ^ 24 * 2 powi (- 63)" by (intro mult_less_le_imp_less) auto
      also have "\<dots> < (1::real)" by (simp add: power_int_minus)
      finally have "\<lfloor>real M * 2 powi E\<rfloor> = 0" by (simp add: floor_eq_iff)
      then show ?thesis using tiny by (simp add: f v clamp_s32_def)
    next
      case up
      define n where "n = nat E"
      have n: "E = int n" "n \<le> 40" using up by (auto simp: n_def)
      have "M * 2 ^ n < 2 ^ 24 * 2 ^ 40"
        using M n(2) by (intro mult_less_le_imp_less power_increasing) auto
      then have mag: "unat mag = M * 2 ^ n" by (simp add: mag_def n unat_push_bit M_def)
      have fl: "\<lfloor>real M * 2 powi E\<rfloor> = int (unat mag)"
        unfolding mag n(1) using floor_of_nat [of "M * 2 ^ n", where 'a = real] by simp
      show ?thesis using up s32_of_mag [of mag]
        by (auto simp: f v fl sat clamp_s32_def word_less_nat_alt not_less)
    next
      case down
      define n where "n = nat (- E)"
      have n: "E = - int n" using down by (auto simp: n_def)
      have mag: "unat mag = M div 2 ^ n" using down by (simp add: mag_def n unat_drop_bit M_def)
      have fl: "\<lfloor>real M * 2 powi E\<rfloor> = int (unat mag)"
        unfolding mag n by (rule floor_shift_down)
      show ?thesis using down s32_of_mag [of mag]
        by (auto simp: f v fl sat clamp_s32_def word_less_nat_alt not_less)
    qed
  qed
qed

section \<open>The fields as arithmetic\<close>

lemma uint_field: "uint (drop_bit 23 a AND 0xff) = int (unat (a :: u32) div 2 ^ 23 mod 256)"
proof -
  have "unat (drop_bit 23 a AND mask 8) = unat a div 2 ^ 23 mod 2 ^ 8"
    by (simp only: unat_and_mask unat_drop_bit)
  then show ?thesis by (simp add: mask_literals uint_nat)
qed

lemma unpack_fields:
  fixes a :: ar_f32
  defines "B \<equiv> unat a div 2 ^ 23 mod 256" and "m \<equiv> unat a mod 2 ^ 23"
  shows "unat (up_sig (ar_f32_unpack a)) = (if B = 0 then m else m + 2 ^ 23)"
    and "up_exp (ar_f32_unpack a) = (if B = 0 then 1 else int B) - 150"
    and "up_sign (ar_f32_unpack a) \<longleftrightarrow> 2 ^ 31 \<le> unat a"
proof -
  have b: "uint (drop_bit 23 a AND 0xff) = int B" by (simp only: uint_field B_def)
  have "unat (ucast (ar_isp_f32_mant a) :: u64) = m + 2 ^ 23"
    by (simp add: unat_ucast_up unat_f32_mant m_def)
  moreover have "unat (ucast (a AND mask 23) :: u64) = m"
    by (simp add: unat_ucast_up unat_and_mask m_def)
  ultimately show "unat (up_sig (ar_f32_unpack a)) = (if B = 0 then m else m + 2 ^ 23)"
    unfolding ar_f32_unpack_def Let_def b ar_isp_f32_mant_def unfolding mask_literals by simp
  show "up_exp (ar_f32_unpack a) = (if B = 0 then 1 else int B) - 150"
    unfolding ar_f32_unpack_def Let_def b by simp
  have "unat a div 2 ^ 31 < 2" using unat_less_length [of a] by simp
  then have "unat a div 2 ^ 31 = 0 \<or> unat a div 2 ^ 31 = 1" by linarith
  then have "odd (unat a div 2 ^ 31) \<longleftrightarrow> 2 ^ 31 \<le> unat a"
    by (auto simp: div_eq_0_iff)
  then have "bit (drop_bit 31 a) 0 \<longleftrightarrow> 2 ^ 31 \<le> unat a"
    by (simp only: odd_unat_iff [symmetric] unat_drop_bit)
  then show "up_sign (ar_f32_unpack a) \<longleftrightarrow> 2 ^ 31 \<le> unat a"
    unfolding ar_f32_unpack_def Let_def by (simp add: and_one_nonzero)
qed

text \<open>The value of a non-negative pattern, as a function of the pattern read as a number.\<close>

definition pattern_val :: "nat \<Rightarrow> real" where
  "pattern_val N = (let B = N div 2 ^ 23; m = N mod 2 ^ 23
     in if B = 0 then real m * 2 powi (- 149) else (real m + 2 ^ 23) * 2 powi (int B - 150))"

lemma val_pattern: "unat a < 2 ^ 31 \<Longrightarrow> f32_val a = pattern_val (unat a)"
  by (simp add: f32_val_unpack unpack_fields pattern_val_def Let_def)

lemma pattern_val_step: "pattern_val N < pattern_val (Suc N)"
proof (cases "Suc N mod 2 ^ 23 = 0")
  case False
  then have "Suc N mod 2 ^ 23 = Suc (N mod 2 ^ 23)" "Suc N div 2 ^ 23 = N div 2 ^ 23"
    by (simp_all add: mod_Suc div_Suc split: if_splits)
  then show ?thesis by (simp add: pattern_val_def Let_def)
next
  case True
  then have m: "Suc (N mod 2 ^ 23) = 2 ^ 23" "Suc N div 2 ^ 23 = Suc (N div 2 ^ 23)"
    by (auto simp: mod_Suc div_Suc split: if_splits)
  define B m where "B = N div 2 ^ 23" and "m = N mod 2 ^ 23"
  have mm: "real m + 1 = 2 ^ 23"
    using arg_cong [OF m(1), of real] by (simp add: m_def)
  have "pattern_val (Suc N) = 2 ^ 23 * 2 powi (int B + 1 - 150)"
    using True m(2) by (simp add: pattern_val_def Let_def B_def)
  moreover have "pattern_val N = (if B = 0 then real m * 2 powi (- 149) else (real m + 2 ^ 23) * 2 powi (int B - 150))"
    by (simp add: pattern_val_def Let_def B_def m_def)
  moreover have "(2::real) powi (int B + 1 - 150) = 2 * 2 powi (int B - 150)"
    using power_int_add_1 [of "2::real" "int B - 150"] by (simp add: algebra_simps)
  ultimately show ?thesis using mm by auto
qed

theorem pattern_order:
  assumes "unat a < 2 ^ 31" "unat b < 2 ^ 31"
  shows "a \<le> b \<longleftrightarrow> f32_val a \<le> f32_val b"
proof -
  have "strict_mono pattern_val" by (simp add: strict_mono_Suc_iff pattern_val_step)
  then show ?thesis
    by (simp add: val_pattern [OF assms(1)] val_pattern [OF assms(2)] strict_mono_less_eq word_le_nat_alt)
qed

lemma pattern_val_nonneg: "0 \<le> pattern_val N"
  by (simp add: pattern_val_def Let_def)

text \<open>\<open>ar_f32_scale_down\<close> is exact while the exponent field does not run out.\<close>

lemma scale_down_exact:
  assumes B: "n < unat a div 2 ^ 23 mod 256"
  shows "f32_val (ar_f32_scale_down a n) = f32_val a / 2 ^ n"
proof -
  define Q where "Q = unat a div 2 ^ 23"
  have n: "n < 256" "n < Q mod 256" "n \<le> Q"
    using B mod_less_divisor [of 256 Q] mod_less_eq_dividend [of Q 256] unfolding Q_def by simp_all
  have nz: "a AND 0x7f800000 \<noteq> 0"
  proof
    assume "a AND 0x7f800000 = 0"
    moreover have "drop_bit 23 (a AND 0x7f800000) = drop_bit 23 a AND (0xff :: u32)" by simp
    ultimately have "drop_bit 23 a AND (0xff :: u32) = 0" by (metis drop_bit_of_0)
    then have "uint (drop_bit 23 a AND (0xff :: u32)) = 0" by simp
    then show False using n unfolding uint_field Q_def by simp
  qed
  have p: "unat (push_bit 23 (of_nat n) :: u32) = n * 2 ^ 23"
    using n(1) by (simp add: unat_push_bit unat_of_nat_small)
  have le: "n * 2 ^ 23 \<le> unat a"
    using n(3) unfolding Q_def by (simp add: less_eq_div_iff_mult_less_eq)
  have r: "unat (ar_f32_scale_down a n) = unat a - n * 2 ^ 23"
    using nz le by (simp add: ar_f32_scale_down_def unat_le_minus p)
  have m: "unat (ar_f32_scale_down a n) mod 2 ^ 23 = unat a mod 2 ^ 23"
    using le unfolding r by (metis le_add_diff_inverse2 mod_mult_self1)
  have d: "unat (ar_f32_scale_down a n) div 2 ^ 23 = Q - n"
  proof -
    obtain c where c: "unat a = n * 2 ^ 23 + c" using le le_Suc_ex by blast
    show ?thesis unfolding r Q_def c by simp
  qed
  have "Q < 512" unfolding Q_def using unat_less_length [of a] by simp
  have Q: "(Q - n) mod 256 = Q mod 256 - n \<and> (256 \<le> Q - n \<longleftrightarrow> 256 \<le> Q)"
  proof (cases "Q < 256")
    case True
    then show ?thesis by simp
  next
    case False
    with \<open>Q < 512\<close> obtain c where c: "Q = c + 256" "c < 256" by (metis add.commute le_Suc_ex nat_add_left_cancel_less not_less numeral_Bit0)
    with n(2) obtain k where "c = n + k" by (auto dest: less_imp_add_positive)
    then show ?thesis using c by simp
  qed
  note Q = conjunct1 [OF Q] conjunct2 [OF Q]
  have sgn: "2 ^ 31 \<le> unat w \<longleftrightarrow> 256 \<le> unat w div 2 ^ 23" for w :: u32
    by (simp add: less_eq_div_iff_mult_less_eq)
  have s: "up_sign (ar_f32_unpack (ar_f32_scale_down a n)) = up_sign (ar_f32_unpack a)"
    unfolding unpack_fields(3) sgn d Q(2) unfolding Q_def ..
  have e: "up_exp (ar_f32_unpack (ar_f32_scale_down a n)) = up_exp (ar_f32_unpack a) - int n"
    using n(2) unfolding unpack_fields(2) d Q(1) unfolding Q_def [symmetric] by (simp add: of_nat_diff)
  have g: "unat (up_sig (ar_f32_unpack (ar_f32_scale_down a n))) = unat (up_sig (ar_f32_unpack a))"
    using n(2) unfolding unpack_fields(1) d Q(1) m unfolding Q_def [symmetric] by simp
  show ?thesis unfolding f32_val_unpack s e g by (simp add: power_int_diff)
qed

section \<open>Properties\<close>

text \<open>C1: Addition, subtraction, multiplication and the fused multiply-add of \<open>ar-isp-softfloat.h\<close>
  are correctly rounded, for every pair of bit patterns whose exact result lies in the normal
  range (or is zero): the returned pattern is finite, no finite binary32 number is nearer to
  the exact result, and a different equally near one only loses to an even significand.  The
  fused form rounds once.\<close>

theorem ar_f32_arith_correct:
  "(f32_in_range (f32_val a + f32_val b) \<longrightarrow> f32_rounded (f32_val a + f32_val b) (ar_f32_add a b)) \<and>
   (f32_in_range (f32_val a - f32_val b) \<longrightarrow> f32_rounded (f32_val a - f32_val b) (ar_f32_sub a b)) \<and>
   (f32_in_range (f32_val a * f32_val b) \<longrightarrow> f32_rounded (f32_val a * f32_val b) (ar_f32_mul a b)) \<and>
   (f32_in_range (f32_val a * f32_val b + f32_val c) \<longrightarrow>
      f32_rounded (f32_val a * f32_val b + f32_val c) (ar_f32_fma a b c))"
  by (simp add: add_rounded sub_rounded mul_rounded fma_rounded)

lemma val_examples: "f32_val 0x3f800000 = 1" "f32_val 0x40000000 = 2" "f32_val 0x40400000 = 3"
  by (simp_all add: f32_val_unpack ar_f32_unpack_def power_int_minus)

lemma in_range_numeral: "1 \<le> \<bar>x\<bar> \<Longrightarrow> \<bar>x\<bar> \<le> 2 ^ 31 \<Longrightarrow> f32_in_range x"
proof -
  assume a: "1 \<le> \<bar>x\<bar>" "\<bar>x\<bar> \<le> 2 ^ 31"
  have "(2::real) powi (- 126) \<le> 1" "(2::real) ^ 31 < 2 powi 127" by (simp_all add: power_int_minus)
  then have "2 powi (- 126) \<le> \<bar>x\<bar>" "\<bar>x\<bar> < 2 powi 127"
    using a by (blast intro: order.trans, blast intro: le_less_trans)
  then show ?thesis by (simp only: f32_in_range_def simp_thms)
qed

theorem ar_f32_arith_correct_witness:
  "f32_rounded 3 (ar_f32_add 0x3f800000 0x40000000) \<and> f32_rounded (- 1) (ar_f32_sub 0x3f800000 0x40000000) \<and>
   f32_rounded 2 (ar_f32_mul 0x3f800000 0x40000000) \<and> f32_rounded 5 (ar_f32_fma 0x3f800000 0x40000000 0x40400000)"
  using ar_f32_arith_correct [of "0x3f800000" "0x40000000" "0x40400000"]
  by (simp add: val_examples in_range_numeral)

text \<open>Division is correctly rounded for normal operands whose quotient is in the normal
  range: the thirty extra quotient bits and the sticky remainder are enough.\<close>

theorem ar_f32_div_correct:
  "f32_normal a \<Longrightarrow> f32_normal b \<Longrightarrow> f32_in_range (f32_val a / f32_val b) \<Longrightarrow>
    f32_rounded (f32_val a / f32_val b) (ar_f32_div a b)"
  by (rule div_rounded)

theorem ar_f32_div_correct_witness: "f32_rounded (3 / 2) (ar_f32_div 0x40400000 0x40000000)"
  using ar_f32_div_correct [of "0x40400000" "0x40000000"]
  by (simp add: val_examples in_range_numeral f32_normal_def)

text \<open>The conversions: \<open>scvtf\<close> is correctly rounded and exact up to \<open>2^24\<close> in magnitude,
  and \<open>fcvtzs\<close> truncates toward zero and saturates at the \<open>s32\<close> range for every bit pattern.\<close>

theorem ar_f32_conversions_correct:
  "f32_rounded (real_of_int (sint v)) (ar_f32_from_s32 v) \<and>
   (\<bar>sint v\<bar> \<le> 2 ^ 24 \<longrightarrow> f32_val (ar_f32_from_s32 v) = real_of_int (sint v)) \<and>
   sint (ar_f32_to_s32_trunc a) = clamp_s32 (trunc_real (f32_val a))"
  by (simp add: from_s32_rounded from_s32_exact to_s32_trunc)

theorem ar_f32_conversions_correct_witness:
  "f32_val (ar_f32_from_s32 (- 75)) = - 75 \<and> sint (ar_f32_to_s32_trunc 0x3f800000) = 1"
  using ar_f32_conversions_correct [of "- 75" "0x3f800000"]
  by (simp add: val_examples clamp_s32_def trunc_real_def)

end
