(* ===== verification/Isp_Ladder.thy ===== *)
theory Isp_Ladder
  imports Isp_Float_Correct
begin

text \<open>
  \<open>ar-isp-ladder.h\<close>: the gain-keyed band ladders of the tuning file.  A blob is a \<open>mem\<close>, a
  pointer into it a displacement; band numbers and offsets are 32-bit words as in C, turned
  into displacements by \<open>unat\<close>.  The locale \<open>band_walk\<close> is the contract of every band
  selection of the ISP: the first band whose high edge is not below the abscissa, or the
  last one.  It is interpreted here on the integer and the binary32 walk, and in \<open>Isp_Cm\<close> on
  the two row selections of the colour stages.
\<close>

section \<open>Definitions\<close>

text \<open>The constants of \<open>ar-isp-ladder.h\<close>.\<close>

abbreviation AR_ISP_TUNING_SIZE :: nat where "AR_ISP_TUNING_SIZE \<equiv> 0xd6c58"
abbreviation AR_ISP_LADDER_HDR_INTERP :: nat where "AR_ISP_LADDER_HDR_INTERP \<equiv> 4"
abbreviation AR_ISP_LADDER_T_ONE :: u32 where "AR_ISP_LADDER_T_ONE \<equiv> 0x1000000"

text \<open>One stage's ladder, as blob offsets.\<close>

record ar_isp_ladder =
  lad_hdr :: u32
  lad_bands :: u32
  lad_payload :: u32
  lad_stride :: u32
  lad_count_off :: u16
  lad_max_bands :: u16

text \<open>A band edge from an IEEE-754 single, as unsigned Q16 truncated toward zero.\<close>

definition ar_isp_f32_q16 :: "u32 \<Rightarrow> u32" where
  "ar_isp_f32_q16 bits =
     (let m = ar_isp_f32_mant bits; shift = (23 - 16) - ar_isp_f32_exp bits
      in if bits AND 0x80000000 \<noteq> 0 then 0
         else if shift \<ge> 32 then 0
         else if shift < - 8 then 0xffffffff
         else if shift \<le> 0 then push_bit (nat (- shift)) m
         else drop_bit (nat shift) m)"

definition ar_isp_ladder_lo :: "mem \<Rightarrow> nat \<Rightarrow> u32 \<Rightarrow> u32" where
  "ar_isp_ladder_lo m bands band = ar_isp_f32_q16 (ar_isp_get_le32 m (bands + unat (band * 8)))"

definition ar_isp_ladder_hi :: "mem \<Rightarrow> nat \<Rightarrow> u32 \<Rightarrow> u32" where
  "ar_isp_ladder_hi m bands band = ar_isp_f32_q16 (ar_isp_get_le32 m (bands + unat (band * 8) + 4))"

text \<open>\<open>from*(1-t) + to*t\<close>, one Q24 sum before the shift; the signed form divides instead.\<close>

definition ar_isp_ladder_blend :: "u32 \<Rightarrow> u32 \<Rightarrow> u32 \<Rightarrow> u32" where
  "ar_isp_ladder_blend from to t =
     ucast (drop_bit 24 (ucast from * ucast (AR_ISP_LADDER_T_ONE - t) + ucast to * ucast t :: u64))"

definition ar_isp_ladder_blend_s32 :: "s32 \<Rightarrow> s32 \<Rightarrow> u32 \<Rightarrow> s32" where
  "ar_isp_ladder_blend_s32 from to t =
     (let sum = scast from * ucast (AR_ISP_LADDER_T_ONE - t) + scast to * ucast t :: s64
      in word_of_int (c_div (sint sum) (uint AR_ISP_LADDER_T_ONE)))"

text \<open>The loop of every walk: the first band below the last that \<open>stop\<close>s, or the last.\<close>

function band_loop :: "(u32 \<Rightarrow> bool) \<Rightarrow> u32 \<Rightarrow> u32 \<Rightarrow> u32" where
  "band_loop stop count band =
     (if band + 1 < count then (if stop band then band else band_loop stop count (band + 1))
      else band)"
  by auto

termination
proof (relation "measure (\<lambda>(_, count, band). unat (count - 1 - band))")
  fix stop :: "u32 \<Rightarrow> bool" and count band :: u32
  assume lt: "band + 1 < count"
  then have nz: "count - 1 - band \<noteq> 0" by (auto simp: algebra_simps)
  have "unat (count - 1 - (band + 1)) = unat (count - 1 - band - 1)" by (simp add: algebra_simps)
  also have "\<dots> = unat (count - 1 - band) - 1"
    using nz by (subst unat_le_minus) (simp_all add: Suc_le_eq unat_gt_0)
  finally show "((stop, count, band + 1), stop, count, band) \<in> measure (\<lambda>(_, count, band). unat (count - 1 - band))"
    using nz by (simp add: unat_gt_0)
qed simp

declare band_loop.simps [simp del]

text \<open>The fraction of the gap between \<open>prev_hi\<close> and \<open>lo\<close>, in Q24.\<close>

definition gap_fraction :: "u32 \<Rightarrow> u32 \<Rightarrow> u32 \<Rightarrow> u32" where
  "gap_fraction g lo prev_hi =
     (if g < lo \<and> lo > prev_hi
      then ucast (push_bit 24 (ucast (g - prev_hi)) div ucast (lo - prev_hi) :: u64) else 0)"

definition ar_isp_ladder_walk :: "mem \<Rightarrow> nat \<Rightarrow> u32 \<Rightarrow> u32 \<Rightarrow> u32 \<Rightarrow> u32 \<times> u32" where
  "ar_isp_ladder_walk m bands count interp gain_q16 =
     (let band = band_loop (\<lambda>b. gain_q16 \<le> ar_isp_ladder_hi m bands b) count 0;
          t = (if interp \<noteq> 0 \<and> band > 0
               then gap_fraction gain_q16 (ar_isp_ladder_lo m bands band)
                      (ar_isp_ladder_hi m bands (band - 1))
               else 0)
      in (band, t))"

text \<open>A count outside the allocated band array falls back to the allocation.\<close>

definition ladder_count :: "ar_isp_ladder \<Rightarrow> mem \<Rightarrow> u32" where
  "ladder_count l m =
     (let count = ar_isp_get_le32 m (unat (lad_hdr l) + unat (lad_count_off l))
      in if count < 1 \<or> count > ucast (lad_max_bands l) then ucast (lad_max_bands l) else count)"

definition ar_isp_ladder_select :: "ar_isp_ladder \<Rightarrow> mem \<Rightarrow> u32 \<Rightarrow> u32 \<times> u32" where
  "ar_isp_ladder_select l m gain_q16 =
     ar_isp_ladder_walk m (unat (lad_bands l)) (ladder_count l m)
       (ar_isp_get_le32 m (unat (lad_hdr l) + AR_ISP_LADDER_HDR_INTERP)) gain_q16"

text \<open>The vendor's arithmetic, in binary32.\<close>

record ar_isp_ladder_frac =
  frac_t :: ar_f32
  frac_omt :: ar_f32

definition ar_isp_ladder_edge :: "mem \<Rightarrow> nat \<Rightarrow> u32 \<Rightarrow> nat \<Rightarrow> ar_f32" where
  "ar_isp_ladder_edge m bands band half = ar_isp_get_le32 m (bands + unat (band * 8) + half)"

definition ladder_gain_f32 :: "u32 \<Rightarrow> ar_f32" where
  "ladder_gain_f32 gain_q16 = ar_f32_scale_down (ar_f32_from_s32 gain_q16) 16"

definition ar_isp_ladder_walk_f32 ::
  "mem \<Rightarrow> nat \<Rightarrow> u32 \<Rightarrow> u32 \<Rightarrow> u32 \<Rightarrow> u32 \<times> ar_isp_ladder_frac" where
  "ar_isp_ladder_walk_f32 m bands count interp gain_q16 =
     (let gain = ladder_gain_f32 gain_q16;
          band = band_loop (\<lambda>b. gain \<le> ar_isp_ladder_edge m bands b 4) count 0;
          lo = ar_isp_ladder_edge m bands band 0;
          prev_hi = ar_isp_ladder_edge m bands (band - 1) 4
      in if interp \<noteq> 0 \<and> band > 0 \<and> gain < lo \<and> lo > prev_hi
         then let t = ar_f32_div (ar_f32_sub gain prev_hi) (ar_f32_sub lo prev_hi)
              in (band, \<lparr>frac_t = t, frac_omt = ar_f32_sub (ar_f32_from_s32 1) t\<rparr>)
         else (band, \<lparr>frac_t = 0, frac_omt = 0\<rparr>))"

definition ar_isp_ladder_select_f32 ::
  "ar_isp_ladder \<Rightarrow> mem \<Rightarrow> u32 \<Rightarrow> u32 \<times> ar_isp_ladder_frac" where
  "ar_isp_ladder_select_f32 l m gain_q16 =
     ar_isp_ladder_walk_f32 m (unat (lad_bands l)) (ladder_count l m)
       (ar_isp_get_le32 m (unat (lad_hdr l) + AR_ISP_LADDER_HDR_INTERP)) gain_q16"

definition ar_isp_ladder_blend_f32 :: "s32 \<Rightarrow> s32 \<Rightarrow> ar_isp_ladder_frac \<Rightarrow> s32" where
  "ar_isp_ladder_blend_f32 from to fr =
     ar_f32_to_s32_trunc (ar_f32_fma (frac_omt fr) (ar_f32_from_s32 from)
       (ar_f32_mul (frac_t fr) (ar_f32_from_s32 to)))"

text \<open>One payload word at the selected band, blended into the band above it.\<close>

definition ar_isp_ladder_read_word_f32 ::
  "ar_isp_ladder \<Rightarrow> mem \<Rightarrow> nat \<Rightarrow> u32 \<Rightarrow> u32 \<Rightarrow> ar_isp_ladder_frac \<Rightarrow> u32" where
  "ar_isp_ladder_read_word_f32 l m payload band off fr =
     (let w = ar_isp_get_le32 m (payload + unat (band * lad_stride l) + unat off)
      in if frac_t fr \<noteq> 0
         then ar_isp_ladder_blend_f32
                (ar_isp_get_le32 m (payload + unat ((band - 1) * lad_stride l) + unat off)) w fr
         else w)"

definition ar_isp_ladder_read_word ::
  "ar_isp_ladder \<Rightarrow> mem \<Rightarrow> nat \<Rightarrow> u32 \<Rightarrow> u32 \<Rightarrow> u32 \<Rightarrow> u32" where
  "ar_isp_ladder_read_word l m payload band off t =
     (let w = ar_isp_get_le32 m (payload + unat (band * lad_stride l) + unat off)
      in if t \<noteq> 0
         then ar_isp_ladder_blend_s32
                (ar_isp_get_le32 m (payload + unat ((band - 1) * lad_stride l) + unat off)) w t
         else w)"

section \<open>The band walk\<close>

lemma word_plus_one: "band + 1 < (count :: u32) \<Longrightarrow> band < count \<Longrightarrow> unat (band + 1) = unat band + 1"
  using unat_less_length [of count] by (intro trans [OF unat_add_small]) (auto simp: word_less_nat_alt)

lemma band_loop_range: "band < count \<Longrightarrow> band_loop stop count band < count"
proof (induction stop count band rule: band_loop.induct)
  case (1 stop count band)
  then show ?case by (subst band_loop.simps) auto
qed

lemma band_loop_stops:
  "band < count \<Longrightarrow> band_loop stop count band + 1 < count \<Longrightarrow> stop (band_loop stop count band)"
proof (induction stop count band rule: band_loop.induct)
  case (1 stop count band)
  then show ?case by (subst band_loop.simps, subst (asm) (3) band_loop.simps) (auto split: if_splits)
qed

lemma band_loop_before:
  "band < count \<Longrightarrow> band \<le> b \<Longrightarrow> b < band_loop stop count band \<Longrightarrow> \<not> stop b"
proof (induction stop count band rule: band_loop.induct)
  case (1 stop count band)
  show ?case
  proof (cases "band + 1 < count \<and> \<not> stop band")
    case True
    with 1 have b: "b < band_loop stop count (band + 1)" by (simp add: band_loop.simps [of stop count band])
    show ?thesis
    proof (cases "b = band")
      case False
      with 1(3) have "band + 1 \<le> b"
        using word_plus_one [of band count] True 1(2) by (auto simp: word_le_nat_alt word_unat_eq_iff)
      with 1 True b show ?thesis by blast
    qed (use True in simp)
  next
    case False
    with 1(3,4) show ?thesis by (subst (asm) band_loop.simps) (auto split: if_splits)
  qed
qed

lemma band_loop_one: "band_loop stop 1 0 = 0"
  by (simp add: band_loop.simps)

text \<open>
  The contract of a band selection over \<open>edge\<close>, the high edge of each band, where \<open>pick\<close>
  is the band chosen for a count and an abscissa.
\<close>

locale band_walk =
  fixes edge :: "'s \<Rightarrow> u32 \<Rightarrow> 'k::linorder" and pick :: "'s \<Rightarrow> u32 \<Rightarrow> 'k \<Rightarrow> u32"
  assumes pick_range: "0 < count \<Longrightarrow> pick s count g < count"
    and pick_reaches: "0 < count \<Longrightarrow> pick s count g + 1 < count \<Longrightarrow> g \<le> edge s (pick s count g)"
    and pick_passes: "0 < count \<Longrightarrow> b < pick s count g \<Longrightarrow> edge s b < g"
begin

lemma pick_first:
  assumes c: "0 < count" and b: "b < count" "g \<le> edge s b"
  shows "pick s count g \<le> b"
proof (rule ccontr)
  assume "\<not> pick s count g \<le> b"
  then have "edge s b < g" using pick_passes [OF c] by simp
  with b show False by simp
qed

lemma pick_mono:
  assumes c: "0 < count" and g: "g \<le> g'"
  shows "pick s count g \<le> pick s count g'"
proof (cases "pick s count g' + 1 < count")
  case True
  then have "g \<le> edge s (pick s count g')" using pick_reaches [OF c True] g by simp
  with c show ?thesis by (intro pick_first pick_range)
next
  case False
  have lt: "unat (pick s count g') < unat count"
    using pick_range [OF c] by (simp add: word_less_nat_alt)
  then have "unat (pick s count g' + 1) = unat (pick s count g') + 1"
    using unat_less_length [of count] by (intro trans [OF unat_add_small]) auto
  with False have "unat count \<le> unat (pick s count g') + 1"
    by (simp add: word_less_nat_alt)
  moreover have "unat (pick s count g) < unat count"
    using pick_range [OF c] by (simp add: word_less_nat_alt)
  ultimately show ?thesis by (simp add: word_le_nat_alt)
qed

lemma pick_prev: "0 < count \<Longrightarrow> 0 < pick s count g \<Longrightarrow> edge s (pick s count g - 1) < g"
  by (rule pick_passes, assumption) (rule pred_less)

end

definition walk_pick :: "mem \<times> nat \<Rightarrow> u32 \<Rightarrow> u32 \<Rightarrow> u32" where
  "walk_pick s count g = fst (ar_isp_ladder_walk (fst s) (snd s) count 0 g)"

definition walk_pick_f32 :: "mem \<times> nat \<Rightarrow> u32 \<Rightarrow> ar_f32 \<Rightarrow> u32" where
  "walk_pick_f32 s count gain = band_loop (\<lambda>b. gain \<le> ar_isp_ladder_edge (fst s) (snd s) b 4) count 0"

lemmas band_loop_facts = band_loop_range band_loop_stops band_loop_before

interpretation q16: band_walk "\<lambda>s. ar_isp_ladder_hi (fst s) (snd s)" walk_pick
  by unfold_locales
     (use band_loop_facts in \<open>fastforce simp: walk_pick_def ar_isp_ladder_walk_def Let_def\<close>)+

interpretation f32w: band_walk "\<lambda>s b. ar_isp_ladder_edge (fst s) (snd s) b 4" walk_pick_f32
  by unfold_locales (use band_loop_facts in \<open>fastforce simp: walk_pick_f32_def\<close>)+

section \<open>Fixed point from binary32\<close>

lemma sign_clear: "bits AND 0x80000000 \<noteq> 0 \<longleftrightarrow> 2 ^ 31 \<le> unat (bits :: u32)"
proof -
  have e: "(0x80000000 :: u32) = 2 ^ 31" by simp
  have "bits AND 0x80000000 \<noteq> 0 \<longleftrightarrow> bit bits 31"
    unfolding e by (metis and_exp_eq_0_iff_not_bit)
  also have "\<dots> \<longleftrightarrow> odd (unat (drop_bit 31 bits))"
    by (simp add: odd_unat_iff bit_drop_bit_eq)
  also have "\<dots> \<longleftrightarrow> 2 ^ 31 \<le> unat bits"
  proof -
    have "unat bits div 2 ^ 31 < 2" using unat_less_length [of bits] by simp
    then have "unat bits div 2 ^ 31 = 0 \<or> unat bits div 2 ^ 31 = 1" by linarith
    then show ?thesis unfolding unat_drop_bit by (auto simp: div_eq_0_iff)
  qed
  finally show ?thesis .
qed

lemma f32_exp_field: "ar_isp_f32_exp bits = int (unat bits div 2 ^ 23 mod 256) - 127"
  by (simp only: ar_isp_f32_exp_def uint_field)

lemma fixed_point_floor:
  assumes nonneg: "unat bits < 2 ^ 31" and k: "k \<le> 100"
  defines "sh \<equiv> 23 - int k - ar_isp_f32_exp bits"
  shows "nat \<lfloor>f32_val bits * 2 ^ k\<rfloor> =
    (if sh \<le> 0 then unat (ar_isp_f32_mant bits) * 2 ^ nat (- sh)
     else unat (ar_isp_f32_mant bits) div 2 ^ nat sh)"
proof -
  define B m where "B = unat bits div 2 ^ 23 mod 256" and "m = unat bits mod 2 ^ 23"
  have m: "m < 2 ^ 23" by (simp add: m_def)
  have M: "unat (ar_isp_f32_mant bits) = m + 2 ^ 23" by (simp add: unat_f32_mant m_def)
  have sh: "sh = 150 - int k - int B" unfolding sh_def f32_exp_field by (simp add: B_def)
  have s: "\<not> up_sign (ar_f32_unpack bits)" using nonneg by (simp add: unpack_fields)
  show ?thesis
  proof (cases "B = 0")
    case True
    have "f32_val bits = real m * 2 powi (- 149)"
      using s True unfolding f32_val_unpack unpack_fields(1,2) by (simp add: B_def m_def)
    then have "f32_val bits * 2 ^ k = real m * 2 powi (int k - 149)"
      by (simp add: power_int_diff)
    also have "\<dots> \<le> 2 ^ 23 * 2 powi (- 49)"
      using m k by (intro mult_mono power_int_increasing) auto
    also have "\<dots> < (1::real)" by (simp add: power_int_minus)
    finally have "f32_val bits * 2 ^ k < 1" .
    moreover have "0 \<le> f32_val bits" using s by (simp add: f32_val_unpack)
    ultimately have l: "\<lfloor>f32_val bits * 2 ^ k\<rfloor> = 0" by (simp add: floor_eq_iff)
    have "(2::nat) ^ 50 \<le> 2 ^ nat sh" using True sh k by (intro power_increasing) auto
    then have "m + 2 ^ 23 < 2 ^ nat sh" using m by simp
    then show ?thesis using True sh k unfolding l M by simp
  next
    case False
    have "f32_val bits = real (m + 2 ^ 23) * 2 powi (int B - 150)"
      using s False unfolding f32_val_unpack unpack_fields(1,2) by (simp add: B_def m_def)
    then have v: "f32_val bits * 2 ^ k = real (m + 2 ^ 23) * 2 powi (- sh)"
      unfolding sh by (simp add: power_int_diff power_int_add)
    show ?thesis
    proof (cases "sh \<le> 0")
      case True
      define n where "n = nat (- sh)"
      have "real (m + 2 ^ 23) * 2 powi (- sh) = real ((m + 2 ^ 23) * 2 ^ n)"
        using True by (simp add: n_def power_int_def)
      then have "\<lfloor>f32_val bits * 2 ^ k\<rfloor> = int ((m + 2 ^ 23) * 2 ^ n)"
        unfolding v by (simp only: floor_of_nat)
      then show ?thesis unfolding M using True by (simp only: nat_int n_def if_True)
    next
      case False
      define n where "n = nat sh"
      have n: "sh = int n" using False by (simp add: n_def)
      have "\<lfloor>f32_val bits * 2 ^ k\<rfloor> = int ((m + 2 ^ 23) div 2 ^ n)"
        unfolding v n by (rule floor_shift_down)
      then show ?thesis unfolding M using False by (simp only: nat_int n_def if_False)
    qed
  qed
qed

text \<open>The Q16 edge is the floor of the value times 65536, saturated.\<close>

lemma f32_q16_floor:
  "unat (ar_isp_f32_q16 bits) =
    (if 2 ^ 31 \<le> unat bits then 0 else min (2 ^ 32 - 1) (nat \<lfloor>f32_val bits * 2 ^ 16\<rfloor>))"
proof (cases "2 ^ 31 \<le> unat bits")
  case True
  then show ?thesis using sign_clear [of bits] by (simp add: ar_isp_f32_q16_def Let_def)
next
  case False
  define M sh where "M = unat (ar_isp_f32_mant bits)" and "sh = 7 - ar_isp_f32_exp bits"
  have M: "2 ^ 23 \<le> M" "M < 2 ^ 24" using f32_mant_bounds [of bits] by (simp_all add: M_def)
  have fl: "nat \<lfloor>f32_val bits * 2 ^ 16\<rfloor> = (if sh \<le> 0 then M * 2 ^ nat (- sh) else M div 2 ^ nat sh)"
    using fixed_point_floor [of bits 16] False by (simp add: M_def sh_def)
  have q: "ar_isp_f32_q16 bits =
      (if sh \<ge> 32 then 0 else if sh < - 8 then 0xffffffff
       else if sh \<le> 0 then push_bit (nat (- sh)) (ar_isp_f32_mant bits)
       else drop_bit (nat sh) (ar_isp_f32_mant bits))"
    using False sign_clear [of bits] by (simp add: ar_isp_f32_q16_def Let_def sh_def)
  consider (z) "32 \<le> sh" | (sat) "sh < - 8" | (up) "- 8 \<le> sh" "sh \<le> 0" | (down) "0 < sh" "sh < 32"
    by linarith
  then show ?thesis
  proof cases
    case z
    have "(2::nat) ^ 32 \<le> 2 ^ nat sh" using z by (intro power_increasing) auto
    then show ?thesis using False z M unfolding fl q by simp
  next
    case sat
    have "(2::nat) ^ 9 \<le> 2 ^ nat (- sh)" using sat by (intro power_increasing) auto
    then have "2 ^ 23 * 2 ^ 9 \<le> M * 2 ^ nat (- sh)" using M by (intro mult_le_mono)
    then show ?thesis using False sat unfolding fl q by simp
  next
    case up
    have "(2::nat) ^ nat (- sh) \<le> 2 ^ 8" using up by (intro power_increasing) auto
    then have "M * 2 ^ nat (- sh) < 2 ^ 24 * 2 ^ 8" using M by (intro mult_less_le_imp_less) auto
    then have "M * 2 ^ nat (- sh) < 2 ^ 32" by simp
    then show ?thesis using False up unfolding fl q by (simp add: unat_push_bit M_def [symmetric])
  next
    case down
    have "M div 2 ^ nat sh < 2 ^ 32"
      by (rule le_less_trans [OF div_le_dividend]) (use M in simp)
    then show ?thesis using False down unfolding fl q by (simp add: unat_drop_bit M_def [symmetric])
  qed
qed

section \<open>The gap fraction and the blends\<close>

lemma gap_fraction_value:
  assumes "prev < g" "g < lo"
  shows "unat (gap_fraction g lo prev) = (unat g - unat prev) * 2 ^ 24 div (unat lo - unat prev)"
    and "unat (gap_fraction g lo prev) < 2 ^ 24"
proof -
  have lt: "unat prev < unat g" "unat g < unat lo"
    using assms by (simp_all add: word_less_nat_alt)
  define n d where "n = unat g - unat prev" and "d = unat lo - unat prev"
  have nd: "n < d" "d < 2 ^ 32" using lt unat_less_length [of lo] by (auto simp: n_def d_def)
  have u: "unat (g - prev) = n" "unat (lo - prev) = d"
    using lt by (auto simp: n_def d_def intro!: unat_le_minus)
  have "unat (push_bit 24 (ucast (g - prev)) :: u64) = n * 2 ^ 24"
    using nd by (simp add: unat_push_bit unat_ucast_up u)
  then have q: "unat (push_bit 24 (ucast (g - prev)) div ucast (lo - prev) :: u64) = n * 2 ^ 24 div d"
    by (simp add: unat_div unat_ucast_up u)
  have lt24: "n * 2 ^ 24 div d < 2 ^ 24"
    using nd by (simp add: div_less_iff_less_mult)
  have lp: "prev < lo" using assms by simp
  have v: "unat (gap_fraction g lo prev) = n * 2 ^ 24 div d"
    using assms lp lt24 by (simp add: gap_fraction_def unat_ucast_mod q)
  show "unat (gap_fraction g lo prev) = (unat g - unat prev) * 2 ^ 24 div (unat lo - unat prev)"
    by (simp only: v n_def d_def)
  show "unat (gap_fraction g lo prev) < 2 ^ 24" unfolding v by (rule lt24)
qed

lemma gap_fraction_zero: "\<not> g < lo \<Longrightarrow> gap_fraction g lo prev = 0"
  by (simp add: gap_fraction_def)

lemma gap_fraction_less: "prev < g \<Longrightarrow> unat (gap_fraction g lo prev) < 2 ^ 24"
  using gap_fraction_value(2) [of prev g lo] by (cases "g < lo") (simp_all add: gap_fraction_zero)

lemma blend_value:
  assumes t: "unat t \<le> 2 ^ 24"
  shows "unat (ar_isp_ladder_blend a b t) = (unat a * (2 ^ 24 - unat t) + unat b * unat t) div 2 ^ 24"
    and "min (unat a) (unat b) \<le> unat (ar_isp_ladder_blend a b t)"
    and "unat (ar_isp_ladder_blend a b t) \<le> max (unat a) (unat b)"
proof -
  define A B T where "A = unat a" and "B = unat b" and "T = unat t"
  define S where "S = A * (2 ^ 24 - T) + B * T"
  have AB: "A < 2 ^ 32" "B < 2 ^ 32" using unat_less_length [of a] unat_less_length [of b] by (simp_all add: A_def B_def)
  have T: "T \<le> 2 ^ 24" using t by (simp add: T_def)
  have split: "x * (2 ^ 24 - T) + x * T = x * 2 ^ 24" for x :: nat
    using T by (simp add: distrib_left [symmetric])
  have hi: "S \<le> max A B * 2 ^ 24"
    unfolding split [symmetric] S_def by (intro add_mono mult_le_mono1) auto
  have lo: "min A B * 2 ^ 24 \<le> S"
    unfolding split [symmetric] S_def by (intro add_mono mult_le_mono1) auto
  have "max A B * 2 ^ 24 < 2 ^ 32 * 2 ^ 24" using AB by simp
  also have "(2::nat) ^ 32 * 2 ^ 24 = 2 ^ 56" by simp
  finally have S: "S < 2 ^ 56" by (rule le_less_trans [OF hi])
  have t': "unat (AR_ISP_LADDER_T_ONE - t) = 2 ^ 24 - T"
    using T by (subst unat_le_minus) (simp_all add: T_def)
  have p: "A * (2 ^ 24 - T) < 2 ^ 56" "B * T < 2 ^ 56" using S by (simp_all add: S_def)
  have m1: "unat (ucast a * ucast (AR_ISP_LADDER_T_ONE - t) :: u64) = A * (2 ^ 24 - T)"
    using p by (subst unat_mult_small) (simp_all add: unat_ucast_up t' A_def)
  have m2: "unat (ucast b * ucast t :: u64) = B * T"
    using p by (subst unat_mult_small) (simp_all add: unat_ucast_up B_def T_def)
  have sum: "unat (ucast a * ucast (AR_ISP_LADDER_T_ONE - t) + ucast b * ucast t :: u64) = S"
    using S by (subst unat_add_small) (simp_all add: m1 m2 S_def)
  have hi': "S div 2 ^ 24 \<le> max A B" using div_le_mono [OF hi, of "2 ^ 24"] by simp
  then have "S div 2 ^ 24 < 2 ^ 32" using AB by simp
  then have v: "unat (ar_isp_ladder_blend a b t) = S div 2 ^ 24"
    by (simp add: ar_isp_ladder_blend_def unat_ucast_mod unat_drop_bit sum)
  then show "unat (ar_isp_ladder_blend a b t) = (unat a * (2 ^ 24 - unat t) + unat b * unat t) div 2 ^ 24"
    by (simp only: S_def A_def B_def T_def)
  show "unat (ar_isp_ladder_blend a b t) \<le> max (unat a) (unat b)"
    using hi' by (simp only: v A_def B_def)
  show "min (unat a) (unat b) \<le> unat (ar_isp_ladder_blend a b t)"
    using div_le_mono [OF lo, of "2 ^ 24"] by (simp add: v A_def B_def)
qed

lemma sint_word_of_int_64: "- (2 ^ 63) \<le> k \<Longrightarrow> k < 2 ^ 63 \<Longrightarrow> sint (word_of_int k :: s64) = k"
  by (simp add: sint_sbintrunc' signed_take_bit_int_eq_self)

lemma sint_word_of_int_32: "- (2 ^ 31) \<le> k \<Longrightarrow> k < 2 ^ 31 \<Longrightarrow> sint (word_of_int k :: s32) = k"
  by (simp add: sint_sbintrunc' signed_take_bit_int_eq_self)

lemma blend_s32_value:
  assumes t: "unat t \<le> 2 ^ 24"
  shows "sint (ar_isp_ladder_blend_s32 a b t) = c_div (sint a * (2 ^ 24 - uint t) + sint b * uint t) (2 ^ 24)"
    and "min (sint a) (sint b) \<le> sint (ar_isp_ladder_blend_s32 a b t)"
    and "sint (ar_isp_ladder_blend_s32 a b t) \<le> max (sint a) (sint b)"
proof -
  define A B T where "A = sint a" and "B = sint b" and "T = uint t"
  define S where "S = A * (2 ^ 24 - T) + B * T"
  have AB: "- (2 ^ 31) \<le> A" "A < 2 ^ 31" "- (2 ^ 31) \<le> B" "B < 2 ^ 31"
    using sint_bounds [of a] sint_bounds [of b] by (simp_all add: A_def B_def)
  have T: "0 \<le> T" "T \<le> 2 ^ 24" using t by (simp_all add: T_def uint_nat)
  have split: "x * (2 ^ 24 - T) + x * T = x * 2 ^ 24" for x :: int
    by (simp add: algebra_simps)
  have hi: "S \<le> max A B * 2 ^ 24"
    unfolding split [symmetric] S_def using T by (intro add_mono mult_right_mono) auto
  have lo: "min A B * 2 ^ 24 \<le> S"
    unfolding split [symmetric] S_def using T by (intro add_mono mult_right_mono) auto
  have S: "- (2 ^ 63) \<le> S" "S < 2 ^ 63" using hi lo AB by auto
  have t': "uint (AR_ISP_LADDER_T_ONE - t) = 2 ^ 24 - T"
    using t unat_le_minus [of t AR_ISP_LADDER_T_ONE] by (simp add: uint_nat T_def of_nat_diff)
  have "(scast a * ucast (AR_ISP_LADDER_T_ONE - t) + scast b * ucast t :: s64) = word_of_int S"
    unfolding scast_eq ucast_eq t' by (simp add: S_def A_def B_def T_def)
  then have sum: "sint (scast a * ucast (AR_ISP_LADDER_T_ONE - t) + scast b * ucast t :: s64) = S"
    using sint_word_of_int_64 [OF S] by simp
  have c: "min A B \<le> c_div S (2 ^ 24)" "c_div S (2 ^ 24) \<le> max A B"
    using c_div_mono [OF lo, of "2 ^ 24"] c_div_mono [OF hi, of "2 ^ 24"] by (simp_all only: c_div_mult)
       simp_all
  have v: "sint (ar_isp_ladder_blend_s32 a b t) = c_div S (2 ^ 24)"
    using c AB by (simp add: ar_isp_ladder_blend_s32_def Let_def sum sint_word_of_int_32)
  then show "sint (ar_isp_ladder_blend_s32 a b t) = c_div (sint a * (2 ^ 24 - uint t) + sint b * uint t) (2 ^ 24)"
    by (simp only: S_def A_def B_def T_def)
  show "min (sint a) (sint b) \<le> sint (ar_isp_ladder_blend_s32 a b t)"
    and "sint (ar_isp_ladder_blend_s32 a b t) \<le> max (sint a) (sint b)"
    using c by (simp_all only: v A_def B_def)
qed

section \<open>What a selection returns\<close>

lemma walk_fst: "fst (ar_isp_ladder_walk m bands count interp g) = walk_pick (m, bands) count g"
  by (simp add: ar_isp_ladder_walk_def walk_pick_def Let_def)

lemma walk_cases:
  assumes c: "0 < count" and w: "ar_isp_ladder_walk m bands count interp g = (band, t)"
  shows "band = walk_pick (m, bands) count g" "band < count" "unat t < 2 ^ 24" "t \<noteq> 0 \<Longrightarrow> 0 < band"
    and "t = (if interp \<noteq> 0 \<and> 0 < band \<and> g < ar_isp_ladder_lo m bands band
      then gap_fraction g (ar_isp_ladder_lo m bands band) (ar_isp_ladder_hi m bands (band - 1)) else 0)"
proof -
  show b: "band = walk_pick (m, bands) count g" using walk_fst [of m bands count interp g] w by simp
  show "band < count" unfolding b by (rule q16.pick_range [OF c])
  have t: "t = (if interp \<noteq> 0 \<and> 0 < band
      then gap_fraction g (ar_isp_ladder_lo m bands band) (ar_isp_ladder_hi m bands (band - 1)) else 0)"
    using w by (auto simp: ar_isp_ladder_walk_def Let_def)
  then show "t \<noteq> 0 \<Longrightarrow> 0 < band" by (simp split: if_splits)
  show "t = (if interp \<noteq> 0 \<and> 0 < band \<and> g < ar_isp_ladder_lo m bands band
      then gap_fraction g (ar_isp_ladder_lo m bands band) (ar_isp_ladder_hi m bands (band - 1)) else 0)"
    using t by (simp add: gap_fraction_zero)
  show "unat t < 2 ^ 24"
  proof (cases "0 < band")
    case True
    then have "ar_isp_ladder_hi m bands (band - 1) < g"
      using q16.pick_prev [OF c, of "(m, bands)" g] by (simp add: b)
    with t show ?thesis using gap_fraction_less by simp
  qed (use t in simp)
qed

lemma walk_f32_cases:
  assumes c: "0 < count" and w: "ar_isp_ladder_walk_f32 m bands count interp g = (band, fr)"
  shows "band = walk_pick_f32 (m, bands) count (ladder_gain_f32 g)" "band < count"
    "frac_t fr \<noteq> 0 \<Longrightarrow> 0 < band"
proof -
  show b: "band = walk_pick_f32 (m, bands) count (ladder_gain_f32 g)"
    and "frac_t fr \<noteq> 0 \<Longrightarrow> 0 < band"
    using w by (auto simp: ar_isp_ladder_walk_f32_def walk_pick_f32_def Let_def split: if_splits)
  show "band < count" unfolding b by (rule f32w.pick_range [OF c])
qed

lemma ladder_count_bounds:
  "0 < lad_max_bands l \<Longrightarrow> 0 < ladder_count l m \<and> unat (ladder_count l m) \<le> unat (lad_max_bands l)"
proof -
  assume pos: "0 < lad_max_bands l"
  have u: "unat (ucast (lad_max_bands l) :: u32) = unat (lad_max_bands l)"
    by (simp add: unat_ucast_up)
  then show ?thesis using pos
    by (auto simp: ladder_count_def Let_def word_le_nat_alt word_less_nat_alt not_less)
qed

text \<open>A ladder whose header, band array and payload records lie inside the tuning file.\<close>

definition ladder_fits :: "ar_isp_ladder \<Rightarrow> bool" where
  "ladder_fits l \<longleftrightarrow> 0 < lad_max_bands l
     \<and> unat (lad_hdr l) + unat (lad_count_off l) + 4 \<le> AR_ISP_TUNING_SIZE
     \<and> unat (lad_hdr l) + AR_ISP_LADDER_HDR_INTERP + 4 \<le> AR_ISP_TUNING_SIZE
     \<and> unat (lad_bands l) + unat (lad_max_bands l) * 8 \<le> AR_ISP_TUNING_SIZE
     \<and> unat (lad_payload l) + unat (lad_max_bands l) * unat (lad_stride l) \<le> AR_ISP_TUNING_SIZE"

lemma band_loop_cong:
  "band < count \<Longrightarrow> (\<And>b. b < count \<Longrightarrow> stop b = stop' b) \<Longrightarrow>
    band_loop stop count band = band_loop stop' count band"
proof (induction stop count band rule: band_loop.induct)
  case (1 stop count band)
  then show ?case
    by (subst (1 2) band_loop.simps) (simp cong: if_cong)
qed

lemma band_mult:
  assumes "b < count" "unat count \<le> n" "n * k \<le> AR_ISP_TUNING_SIZE" "k = unat w"
  shows "unat (b * w :: u32) = unat b * k" "unat b * k + k \<le> n * k"
proof -
  have lt: "unat b + 1 \<le> n" using assms(1,2) by (simp add: word_less_nat_alt)
  then have "(unat b + 1) * k \<le> n * k" by (rule mult_le_mono1)
  then show le: "unat b * k + k \<le> n * k" by simp
  then have "unat b * unat w < 2 ^ LENGTH(32)" using assms(3,4) by simp
  then show "unat (b * w) = unat b * k" using assms(4) by (simp add: unat_mult_small)
qed

lemma edges_agree:
  assumes ag: "agree AR_ISP_TUNING_SIZE m m'" and b: "b < count" "unat count \<le> n"
    and fit: "bands + n * 8 \<le> AR_ISP_TUNING_SIZE"
  shows "ar_isp_ladder_hi m bands b = ar_isp_ladder_hi m' bands b"
    and "ar_isp_ladder_lo m bands b = ar_isp_ladder_lo m' bands b"
    and "half \<le> 4 \<Longrightarrow> ar_isp_ladder_edge m bands b half = ar_isp_ladder_edge m' bands b half"
proof -
  have "n * 8 \<le> AR_ISP_TUNING_SIZE" using fit by simp
  note mult = band_mult [OF b this, of 8]
  then have u: "unat (b * 8) = unat b * 8" "unat b * 8 + 8 \<le> n * 8" by simp_all
  have in_buf: "bands + unat (b * 8) + 8 \<le> AR_ISP_TUNING_SIZE" using u fit by simp
  show "ar_isp_ladder_hi m bands b = ar_isp_ladder_hi m' bands b"
    unfolding ar_isp_ladder_hi_def using in_buf
    by (intro arg_cong [where f = ar_isp_f32_q16] agree_le32 [OF ag]) simp
  show "ar_isp_ladder_lo m bands b = ar_isp_ladder_lo m' bands b"
    unfolding ar_isp_ladder_lo_def using in_buf
    by (intro arg_cong [where f = ar_isp_f32_q16] agree_le32 [OF ag]) simp
  show "half \<le> 4 \<Longrightarrow> ar_isp_ladder_edge m bands b half = ar_isp_ladder_edge m' bands b half"
    unfolding ar_isp_ladder_edge_def using in_buf by (intro agree_le32 [OF ag]) simp
qed

lemma walk_agree:
  assumes ag: "agree AR_ISP_TUNING_SIZE m m'" and c: "0 < count" "unat count \<le> n"
    and fit: "bands + n * 8 \<le> AR_ISP_TUNING_SIZE"
  shows "ar_isp_ladder_walk m bands count interp g = ar_isp_ladder_walk m' bands count interp g"
    and "ar_isp_ladder_walk_f32 m bands count interp g = ar_isp_ladder_walk_f32 m' bands count interp g"
proof -
  note E = edges_agree [OF ag _ c(2) fit]
  have p: "band_loop (\<lambda>b. g \<le> ar_isp_ladder_hi m bands b) count 0 =
      band_loop (\<lambda>b. g \<le> ar_isp_ladder_hi m' bands b) count 0" for g
    using c(1) by (intro band_loop_cong) (simp_all add: E)
  have q: "band_loop (\<lambda>b. g \<le> ar_isp_ladder_edge m bands b 4) count 0 =
      band_loop (\<lambda>b. g \<le> ar_isp_ladder_edge m' bands b 4) count 0" for g
    using c(1) by (intro band_loop_cong) (simp_all add: E(3))
  have lt: "band_loop stop count 0 < count" for stop using band_loop_range [OF c(1)] .
  then have prev: "0 < band_loop stop count 0 \<Longrightarrow> band_loop stop count 0 - 1 < count" for stop
    using pred_less less_trans by blast
  show "ar_isp_ladder_walk m bands count interp g = ar_isp_ladder_walk m' bands count interp g"
    using E [OF lt] E [OF prev] unfolding ar_isp_ladder_walk_def Let_def p by simp
  show "ar_isp_ladder_walk_f32 m bands count interp g = ar_isp_ladder_walk_f32 m' bands count interp g"
    using E(3) [OF lt] E(3) [OF prev] unfolding ar_isp_ladder_walk_f32_def Let_def q
    by (cases "0 < band_loop (\<lambda>b. ladder_gain_f32 g \<le> ar_isp_ladder_edge m' bands b 4) count 0") simp_all
qed

lemma ladder_count_agree:
  "ladder_fits l \<Longrightarrow> agree AR_ISP_TUNING_SIZE m m' \<Longrightarrow> ladder_count l m = ladder_count l m'"
  using agree_le32 [of AR_ISP_TUNING_SIZE m m' "unat (lad_hdr l) + unat (lad_count_off l)"]
  by (simp add: ladder_count_def ladder_fits_def)

lemma select_agree:
  assumes fit: "ladder_fits l" and ag: "agree AR_ISP_TUNING_SIZE m m'"
  shows "ar_isp_ladder_select l m g = ar_isp_ladder_select l m' g"
    and "ar_isp_ladder_select_f32 l m g = ar_isp_ladder_select_f32 l m' g"
proof -
  have c: "0 < ladder_count l m'" "unat (ladder_count l m') \<le> unat (lad_max_bands l)"
    using fit ladder_count_bounds by (auto simp: ladder_fits_def)
  have b: "unat (lad_bands l) + unat (lad_max_bands l) * 8 \<le> AR_ISP_TUNING_SIZE"
    using fit by (simp add: ladder_fits_def)
  have i: "ar_isp_get_le32 m (unat (lad_hdr l) + AR_ISP_LADDER_HDR_INTERP) =
      ar_isp_get_le32 m' (unat (lad_hdr l) + AR_ISP_LADDER_HDR_INTERP)"
    using fit by (intro agree_le32 [OF ag]) (simp add: ladder_fits_def)
  show "ar_isp_ladder_select l m g = ar_isp_ladder_select l m' g"
    unfolding ar_isp_ladder_select_def ladder_count_agree [OF fit ag] i by (rule walk_agree [OF ag c b])
  show "ar_isp_ladder_select_f32 l m g = ar_isp_ladder_select_f32 l m' g"
    unfolding ar_isp_ladder_select_f32_def ladder_count_agree [OF fit ag] i by (rule walk_agree [OF ag c b])
qed

lemma select_cases:
  assumes fit: "ladder_fits l" and w: "ar_isp_ladder_select l m g = (band, t)"
  shows "unat band < unat (lad_max_bands l)" "unat t < 2 ^ 24" "t \<noteq> 0 \<Longrightarrow> 0 < band"
proof -
  have c: "0 < ladder_count l m" "unat (ladder_count l m) \<le> unat (lad_max_bands l)"
    using fit ladder_count_bounds by (auto simp: ladder_fits_def)
  note W = walk_cases [OF c(1) w [unfolded ar_isp_ladder_select_def]]
  show "unat band < unat (lad_max_bands l)" using W(2) c(2) by (simp add: word_less_nat_alt)
  show "unat t < 2 ^ 24" "t \<noteq> 0 \<Longrightarrow> 0 < band" using W by blast+
qed

lemma select_f32_cases:
  assumes fit: "ladder_fits l" and w: "ar_isp_ladder_select_f32 l m g = (band, fr)"
  shows "unat band < unat (lad_max_bands l)" "frac_t fr \<noteq> 0 \<Longrightarrow> 0 < band"
proof -
  have c: "0 < ladder_count l m" "unat (ladder_count l m) \<le> unat (lad_max_bands l)"
    using fit ladder_count_bounds by (auto simp: ladder_fits_def)
  note W = walk_f32_cases [OF c(1) w [unfolded ar_isp_ladder_select_f32_def]]
  show "unat band < unat (lad_max_bands l)" using W(2) c(2) by (simp add: word_less_nat_alt)
  show "frac_t fr \<noteq> 0 \<Longrightarrow> 0 < band" using W by blast
qed

text \<open>A payload word of a band inside the allocation is inside the tuning file.\<close>

lemma payload_agree:
  assumes fit: "ladder_fits l" and ag: "agree AR_ISP_TUNING_SIZE m m'"
    and b: "unat b < unat (lad_max_bands l)" and off: "off + 4 \<le> unat (lad_stride l)"
  shows "ar_isp_get_le32 m (unat (lad_payload l) + unat (b * lad_stride l) + off) =
    ar_isp_get_le32 m' (unat (lad_payload l) + unat (b * lad_stride l) + off)"
proof (rule agree_le32 [OF ag])
  let ?n = "unat (lad_max_bands l)"
  have f: "unat (lad_payload l) + ?n * unat (lad_stride l) \<le> AR_ISP_TUNING_SIZE"
    using fit by (simp add: ladder_fits_def)
  have "b < ucast (lad_max_bands l)" using b by (simp add: word_less_nat_alt unat_ucast_up)
  note B = band_mult [OF this _ _ refl, of ?n "lad_stride l"]
  have "unat (b * lad_stride l) = unat b * unat (lad_stride l)"
    "unat b * unat (lad_stride l) + unat (lad_stride l) \<le> ?n * unat (lad_stride l)"
    using B f by (simp_all add: unat_ucast_up)
  with f off show "unat (lad_payload l) + unat (b * lad_stride l) + off + 4 \<le> AR_ISP_TUNING_SIZE"
    by linarith
qed

lemma prev_band: "unat b < n \<Longrightarrow> 0 < b \<Longrightarrow> unat (b - 1) < n" for b :: u32
  by (simp add: unat_pred)

lemma read_word_agree:
  assumes fit: "ladder_fits l" and ag: "agree AR_ISP_TUNING_SIZE m m'"
    and b: "unat b < unat (lad_max_bands l)" and off: "unat off + 4 \<le> unat (lad_stride l)"
  shows "(t \<noteq> 0 \<Longrightarrow> 0 < b) \<Longrightarrow> ar_isp_ladder_read_word l m (unat (lad_payload l)) b off t =
      ar_isp_ladder_read_word l m' (unat (lad_payload l)) b off t"
    and "(frac_t fr \<noteq> 0 \<Longrightarrow> 0 < b) \<Longrightarrow>
      ar_isp_ladder_read_word_f32 l m (unat (lad_payload l)) b off fr =
      ar_isp_ladder_read_word_f32 l m' (unat (lad_payload l)) b off fr"
  using payload_agree [OF fit ag b off] payload_agree [OF fit ag prev_band [OF b] off]
  by (simp_all add: ar_isp_ladder_read_word_def ar_isp_ladder_read_word_f32_def Let_def)

text \<open>The binary32 gain abscissa: exact for a Q16 gain up to \<open>256.0\<close>.\<close>

lemma ladder_gain_value:
  assumes g: "0 < unat g" "unat g \<le> 2 ^ 24"
  shows "f32_val (ladder_gain_f32 g) = real (unat g) / 2 ^ 16" "unat (ladder_gain_f32 g) < 2 ^ 31"
proof -
  define a where "a = ar_f32_from_s32 g"
  have "sint (word_of_int (uint g) :: s32) = uint g"
    by (rule sint_word_of_int_32) (use g in \<open>simp_all add: uint_nat\<close>)
  then have "sint g = uint g" by (simp only: word_of_int_uint)
  then have sg: "sint g = int (unat g)" by (simp only: uint_nat)
  have v: "f32_val a = real (unat g)" using from_s32_exact [of g] g(2) by (simp add: a_def sg)
  define B where "B = unat a div 2 ^ 23 mod 256"
  have "16 < B"
  proof (rule ccontr)
    assume "\<not> 16 < B"
    then have e: "up_exp (ar_f32_unpack a) \<le> - 100" unfolding unpack_fields(2) by (auto simp: B_def)
    have "f32_val a \<le> real (unat (up_sig (ar_f32_unpack a))) * 2 powi up_exp (ar_f32_unpack a)"
      by (simp add: f32_val_unpack sgn_of_def)
    also have "\<dots> \<le> 2 ^ 24 * 2 powi (- 100)"
      using e unpack_sig_less [of a] by (intro mult_mono power_int_increasing) auto
    also have "\<dots> < (1::real)" by (simp add: power_int_minus)
    finally show False using g(1) by (simp add: v)
  qed
  then have s: "f32_val (ladder_gain_f32 g) = f32_val a / 2 ^ 16"
    unfolding ladder_gain_f32_def a_def [symmetric] B_def by (rule scale_down_exact)
  then show "f32_val (ladder_gain_f32 g) = real (unat g) / 2 ^ 16" by (simp only: v)
  then have "0 < f32_val (ladder_gain_f32 g)" using g(1) by simp
  moreover have "up_sign (ar_f32_unpack r) \<Longrightarrow> f32_val r \<le> 0" for r
    by (simp add: f32_val_unpack)
  ultimately have "\<not> up_sign (ar_f32_unpack (ladder_gain_f32 g))"
    using linorder_not_less by blast
  then show "unat (ladder_gain_f32 g) < 2 ^ 31" by (simp add: unpack_fields(3))
qed

section \<open>Properties\<close>

text \<open>C2: The binary32 band selection orders real values although it compares bit patterns: for a
  gain up to \<open>256.0\<close> and non-negative edges, every band below the selected one has its high
  edge below the gain, the selected band reaches the gain unless it is the last, the selection
  is inside the band array, and a blend is only asked for above band 0.\<close>

theorem ladder_walk_f32_selects:
  assumes w: "ar_isp_ladder_walk_f32 m bands count interp g = (band, fr)"
    and g: "0 < unat g" "unat g \<le> 2 ^ 24" and c: "0 < count"
    and nonneg: "\<And>b. b < count \<Longrightarrow> unat (ar_isp_ladder_edge m bands b 4) < 2 ^ 31"
  shows "band < count \<and>
    (b < band \<longrightarrow> f32_val (ar_isp_ladder_edge m bands b 4) < real (unat g) / 2 ^ 16) \<and>
    (band + 1 < count \<longrightarrow> real (unat g) / 2 ^ 16 \<le> f32_val (ar_isp_ladder_edge m bands band 4)) \<and>
    (frac_t fr \<noteq> 0 \<longrightarrow> 0 < band)"
proof -
  note W = walk_f32_cases [OF c w] and G = ladder_gain_value [OF g]
  have before: "f32_val (ar_isp_ladder_edge m bands b 4) < real (unat g) / 2 ^ 16" if "b < band"
  proof -
    have "ar_isp_ladder_edge m bands b 4 < ladder_gain_f32 g"
      using f32w.pick_passes [OF c, of b "(m, bands)" "ladder_gain_f32 g"] that W(1) by simp
    then show ?thesis
      using pattern_order [OF G(2) nonneg, of b] less_trans [OF that W(2)] G(1) by (simp add: not_le [symmetric])
  qed
  moreover have "real (unat g) / 2 ^ 16 \<le> f32_val (ar_isp_ladder_edge m bands band 4)" if "band + 1 < count"
    using f32w.pick_reaches [OF c, of "(m, bands)" "ladder_gain_f32 g"] that W
      pattern_order [OF G(2) nonneg [OF W(2)]] G(1) by simp
  ultimately show ?thesis using W by blast
qed

definition two_bands :: mem where
  "two_bands = ar_isp_put_le32 (ar_isp_put_le32 (ar_isp_put_le32 (ar_isp_put_le32 (\<lambda>_. 0) 0 0x3f800000) 4 0x3f800000)
     8 0x40000000) 12 0x40000000"

lemma two_bands_edges: "ar_isp_ladder_edge two_bands 0 0 4 = 0x3f800000" "ar_isp_ladder_edge two_bands 0 1 4 = 0x40000000"
  by (simp_all add: two_bands_def ar_isp_ladder_edge_def mem_simps)

theorem ladder_walk_f32_selects_witness:
  "\<exists>band fr. ar_isp_ladder_walk_f32 two_bands 0 2 0 0x18000 = (band, fr) \<and> band < 2"
proof -
  obtain band fr where w: "ar_isp_ladder_walk_f32 two_bands 0 2 0 0x18000 = (band, fr)" by fastforce
  have n: "unat (ar_isp_ladder_edge two_bands 0 b 4) < 2 ^ 31" if "b < 2" for b
  proof -
    have "unat b = 0 \<or> unat b = 1" using that unfolding word_less_nat_alt by auto
    then have "b = 0 \<or> b = 1" by (auto simp: word_unat_eq_iff)
    then show ?thesis using two_bands_edges by auto
  qed
  from ladder_walk_f32_selects [OF w _ _ _ n] w show ?thesis by auto
qed

text \<open>The integer band selection: the first band whose high edge is not below the gain (or the
  last); the fraction is the gap fraction in Q24, below one, and zero inside a band; the two
  integer blends are the exact weighted mean rounded toward zero and stay between the records
  they blend.\<close>

theorem ladder_walk_blend_correct:
  assumes c: "0 < count" and w: "ar_isp_ladder_walk m bands count interp g = (band, t)"
  shows "band < count \<and> (b < band \<longrightarrow> ar_isp_ladder_hi m bands b < g) \<and>
    (band + 1 < count \<longrightarrow> g \<le> ar_isp_ladder_hi m bands band) \<and>
    unat t = (if interp \<noteq> 0 \<and> 0 < band \<and> g < ar_isp_ladder_lo m bands band
      then (unat g - unat (ar_isp_ladder_hi m bands (band - 1))) * 2 ^ 24
        div (unat (ar_isp_ladder_lo m bands band) - unat (ar_isp_ladder_hi m bands (band - 1))) else 0) \<and>
    unat t < 2 ^ 24 \<and>
    unat (ar_isp_ladder_blend u v t) = (unat u * (2 ^ 24 - unat t) + unat v * unat t) div 2 ^ 24 \<and>
    unat (ar_isp_ladder_blend u v t) \<in> {min (unat u) (unat v)..max (unat u) (unat v)} \<and>
    sint (ar_isp_ladder_blend_s32 x y t) = c_div (sint x * (2 ^ 24 - uint t) + sint y * uint t) (2 ^ 24) \<and>
    sint (ar_isp_ladder_blend_s32 x y t) \<in> {min (sint x) (sint y)..max (sint x) (sint y)}"
proof -
  note W = walk_cases [OF c w]
  have le: "unat t \<le> 2 ^ 24" using W(3) by simp
  have t: "unat t = (if interp \<noteq> 0 \<and> 0 < band \<and> g < ar_isp_ladder_lo m bands band
      then (unat g - unat (ar_isp_ladder_hi m bands (band - 1))) * 2 ^ 24
        div (unat (ar_isp_ladder_lo m bands band) - unat (ar_isp_ladder_hi m bands (band - 1))) else 0)"
    using W(5) gap_fraction_value(1) [of "ar_isp_ladder_hi m bands (band - 1)" g "ar_isp_ladder_lo m bands band"]
      q16.pick_prev [OF c, of "(m, bands)" g] by (auto simp: W(1))
  have p: "b < band \<longrightarrow> ar_isp_ladder_hi m bands b < g"
    "band + 1 < count \<longrightarrow> g \<le> ar_isp_ladder_hi m bands band"
    using q16.pick_passes [OF c, of b "(m, bands)" g] q16.pick_reaches [OF c, of "(m, bands)" g] by (auto simp: W(1))
  show ?thesis
    unfolding atLeastAtMost_iff
    by (intro conjI t p W(2,3) blend_value [OF le] blend_s32_value [OF le])
qed

theorem ladder_walk_blend_correct_witness:
  "\<exists>band t. ar_isp_ladder_walk two_bands 0 2 1 0x18000 = (band, t) \<and> unat t < 2 ^ 24"
proof -
  obtain band t where w: "ar_isp_ladder_walk two_bands 0 2 1 0x18000 = (band, t)" by fastforce
  have "0 < (2 :: u32)" by simp
  note C = ladder_walk_blend_correct [OF this w]
  have "unat t < 2 ^ 24"
    by (rule C [THEN conjunct2, THEN conjunct2, THEN conjunct2, THEN conjunct2, THEN conjunct1])
  with w show ?thesis by blast
qed

text \<open>A larger gain never selects a lower band, for the integer and for the binary32 walk.\<close>

theorem ladder_band_monotone:
  assumes "0 < count" "g \<le> g'" "a \<le> a'"
  shows "fst (ar_isp_ladder_walk m bands count interp g) \<le> fst (ar_isp_ladder_walk m bands count interp g') \<and>
    walk_pick_f32 (m, bands) count a \<le> walk_pick_f32 (m, bands) count a'"
  unfolding walk_fst using assms by (intro conjI q16.pick_mono f32w.pick_mono)

theorem ladder_band_monotone_witness:
  "fst (ar_isp_ladder_walk two_bands 0 2 1 0x8000) \<le> fst (ar_isp_ladder_walk two_bands 0 2 1 0x18000)"
  by (rule conjunct1 [OF ladder_band_monotone [where a = 1 and a' = 1]]) simp_all

text \<open>The fused binary32 blend is not the exact one: at \<open>t = 17/35\<close> rounded to binary32, blending
  75 into 75 gives 74, while the integer blend of equal records is the record.\<close>

theorem blend_75_into_75:
  "ar_isp_ladder_blend_f32 75 75 \<lparr>frac_t = ar_f32_div (ar_f32_from_s32 17) (ar_f32_from_s32 35),
      frac_omt = ar_f32_sub (ar_f32_from_s32 1) (ar_f32_div (ar_f32_from_s32 17) (ar_f32_from_s32 35))\<rparr> = 74"
proof -
  note ev = ar_f32_round_pack_def ar_f32_pack_bits_def Let_def fls64_def bit_length.simps ar_f32_unpack_def
    ar_f32_round_up_def
  have i: "ar_f32_from_s32 17 = 0x41880000" "ar_f32_from_s32 35 = 0x420c0000"
    "ar_f32_from_s32 75 = 0x42960000" "ar_f32_from_s32 1 = 0x3f800000"
    by (simp_all add: ar_f32_from_s32_def ev)
  have t: "ar_f32_div 0x41880000 0x420c0000 = 0x3ef8af8b"
    by (simp add: ar_f32_div_def ev)
  have o: "ar_f32_sub 0x3f800000 0x3ef8af8b = 0x3f03a83a"
    by (simp add: ar_f32_sub_def ar_f32_add_def ar_f32_add_up_def ar_f32_norm_def ar_f32_shift_down_def ev)
  have p: "ar_f32_mul 0x3ef8af8b 0x42960000 = 0x4211b6db"
    by (simp add: ar_f32_mul_def ev)
  have f: "ar_f32_fma 0x3f03a83a 0x42960000 0x4211b6db = 0x4295ffff"
    by (simp add: ar_f32_fma_def ar_f32_add_up_def ar_f32_norm_def ar_f32_shift_down_def ev)
  have "ar_f32_to_s32_trunc 0x4295ffff = 74" by (simp add: ar_f32_to_s32_trunc_def ev)
  then show ?thesis by (simp add: ar_isp_ladder_blend_f32_def i t o p f)
qed

end
