(* ===== verification/Isp_Fields.thy ===== *)
theory Isp_Fields
  imports Isp_Ladder
begin

text \<open>
  Bit fields of register words, shared by the stages that pack a tuning-file record into a
  register bank: a field read-modify-written into a word, a word built as the disjunction of
  shifted fields, and tables of fields.  A bank of registers is a map from register index to
  word.  The lemmas give every bit of a packed word, hence what each field reads back as and
  that the bits outside the fields keep their value.
\<close>

type_synonym regs = "nat \<Rightarrow> u32"

text \<open>\<open>r &= ~(mask << shift); r |= (v & mask) << shift\<close>\<close>

definition set_field :: "u32 \<Rightarrow> nat \<Rightarrow> nat \<Rightarrow> u32 \<Rightarrow> u32" where
  "set_field v shift width r = (r AND NOT (push_bit shift (mask width))) OR push_bit shift (v AND mask width)"

definition get_field :: "nat \<Rightarrow> nat \<Rightarrow> u32 \<Rightarrow> u32" where
  "get_field shift width r = drop_bit shift r AND mask width"

lemma bit_set_field:
  "n < 32 \<Longrightarrow> bit (set_field v shift width r) n =
    (if shift \<le> n \<and> n < shift + width then bit v (n - shift) else bit r n)"
  by (auto simp: set_field_def bit_simps)

lemma bit_get_field: "n < 32 \<Longrightarrow> bit (get_field shift width r) n = (n < width \<and> bit r (n + shift))"
  by (auto simp: get_field_def bit_simps add.commute dest: bit_imp_le_length)

lemma get_set_field: "shift + width \<le> 32 \<Longrightarrow> get_field shift width (set_field v shift width r) = v AND mask width"
  by (rule bit_word_eqI) (auto simp: bit_get_field bit_set_field bit_simps)

lemma get_set_other:
  "s + w \<le> shift \<or> shift + width \<le> s \<Longrightarrow> s + w \<le> 32 \<Longrightarrow>
    get_field s w (set_field v shift width r) = get_field s w r"
  by (rule bit_word_eqI) (auto simp: bit_get_field bit_set_field)

subsection \<open>Tables of fields\<close>

text \<open>A field with its value: register, shift, width, value.\<close>

type_synonym field = "nat \<times> nat \<times> nat \<times> u32"

definition put_field :: "field \<Rightarrow> regs \<Rightarrow> regs" where
  "put_field f R = (case f of (reg, s, w, v) \<Rightarrow> R(reg := set_field v s w (R reg)))"

definition field_at :: "nat \<Rightarrow> nat \<Rightarrow> field \<Rightarrow> bool" where
  "field_at reg n f \<longleftrightarrow> (case f of (r, s, w, v) \<Rightarrow> r = reg \<and> s \<le> n \<and> n < s + w)"

definition apart :: "field \<Rightarrow> field \<Rightarrow> bool" where
  "apart f g \<longleftrightarrow> (case f of (r, s, w, v) \<Rightarrow> case g of (r', s', w', v') \<Rightarrow> r \<noteq> r' \<or> s + w \<le> s' \<or> s' + w' \<le> s)"

lemma bit_put_field:
  "n < 32 \<Longrightarrow> bit (put_field (r, s, w, v) R reg) n =
    (if field_at reg n (r, s, w, v) then bit v (n - s) else bit (R reg) n)"
  by (auto simp: put_field_def field_at_def bit_set_field)

lemma fold_fields_frame:
  "n < 32 \<Longrightarrow> (\<And>f. f \<in> set fs \<Longrightarrow> \<not> field_at reg n f) \<Longrightarrow> bit (fold put_field fs R reg) n = bit (R reg) n"
proof (induction fs arbitrary: R)
  case (Cons f fs)
  obtain r s w v where f: "f = (r, s, w, v)" by (cases f)
  show ?case using Cons bit_put_field [OF Cons.prems(1), of r s w v R reg] by (simp add: f)
qed simp

lemma fold_fields_value:
  assumes "sorted_wrt apart fs" "(r, s, w, v) \<in> set fs" "s + w \<le> 32"
  shows "get_field s w (fold put_field fs R r) = v AND mask w"
  using assms
proof (induction fs arbitrary: R)
  case (Cons f fs)
  show ?case
  proof (cases "(r, s, w, v) \<in> set fs")
    case True
    then show ?thesis using Cons by simp
  next
    case False
    then have f: "f = (r, s, w, v)" using Cons.prems by simp
    have "\<not> field_at r n g" if "g \<in> set fs" "s \<le> n" "n < s + w" for g n
      using Cons.prems(1) that by (auto simp: f apart_def field_at_def split: prod.splits)
    then have "bit (fold put_field fs (put_field f R) r) n = bit (put_field f R r) n" if "s \<le> n" "n < s + w" for n
      using that Cons.prems(3) by (intro fold_fields_frame) auto
    then have "get_field s w (fold put_field fs (put_field f R) r) = get_field s w (put_field f R r)"
      using Cons.prems(3) by (intro bit_word_eqI) (auto simp: bit_get_field)
    moreover have "put_field f R r = set_field v s w (R r)" by (simp add: f put_field_def)
    ultimately show ?thesis using Cons.prems(3) by (simp add: get_set_field)
  qed
qed simp

text \<open>A register's fields only see that register, and writing them again changes nothing.\<close>

lemma fold_fields_local: "R reg = R' reg \<Longrightarrow> fold put_field fs R reg = fold put_field fs R' reg"
proof (induction fs arbitrary: R R')
  case (Cons f fs)
  have "put_field f R reg = put_field f R' reg" using Cons.prems by (cases f) (auto simp: put_field_def)
  then show ?case unfolding fold_Cons comp_apply by (rule Cons.IH)
qed simp

lemma fold_fields_again:
  assumes "sorted_wrt apart fs" "\<And>r s w v. (r, s, w, v) \<in> set fs \<Longrightarrow> s + w \<le> 32"
  shows "fold put_field fs (fold put_field fs R) reg = fold put_field fs R reg"
proof (rule bit_word_eqI)
  fix n assume "n < LENGTH(32)"
  then have n: "n < 32" by simp
  show "bit (fold put_field fs (fold put_field fs R) reg) n = bit (fold put_field fs R reg) n"
  proof (cases "\<exists>f \<in> set fs. field_at reg n f")
    case True
    then obtain s w v where f: "(reg, s, w, v) \<in> set fs" "s \<le> n" "n < s + w" by (auto simp: field_at_def)
    have v: "get_field s w (fold put_field fs D reg) = v AND mask w" for D
      by (rule fold_fields_value [OF assms(1) f(1) assms(2) [OF f(1)]])
    have "bit (fold put_field fs D reg) n = bit (get_field s w (fold put_field fs D reg)) (n - s)" for D
      using f(2,3) n by (simp add: bit_get_field less_diff_conv2)
    then show ?thesis unfolding v by simp
  next
    case False
    then show ?thesis using n by (intro fold_fields_frame) auto
  qed
qed

lemma sorted_wrt_map_apart:
  assumes "\<And>f. f \<in> set fs \<Longrightarrow> (case h f of (r, s, w, v) \<Rightarrow> (r, s, w)) = key f"
    and "sorted_wrt (\<lambda>f g. case key f of (r, s, w) \<Rightarrow> case key g of (r', s', w') \<Rightarrow> r \<noteq> r' \<or> s + w \<le> s' \<or> s' + w' \<le> s) fs"
  shows "sorted_wrt apart (map h fs)"
  using assms
proof (induction fs)
  case (Cons f fs)
  have "apart (h f) (h g)" if "g \<in> set fs" for g
  proof -
    obtain r s w v r' s' w' v' where h: "h f = (r, s, w, v)" "h g = (r', s', w', v')"
      by (cases "h f", cases "h g") blast
    then have "key f = (r, s, w)" "key g = (r', s', w')"
      using Cons.prems(1) [of f] Cons.prems(1) [of g] that by simp_all
    then show ?thesis using Cons.prems(2) that h by (auto simp: apart_def)
  qed
  then show ?case using Cons by (simp add: sorted_wrt_map)
qed simp

subsection \<open>Words packed at a fixed step\<close>

text \<open>\<open>out |= (v_i & mask) << (i * step)\<close> for \<open>i < n\<close>.\<close>

definition pack_steps :: "(nat \<Rightarrow> u32) \<Rightarrow> nat \<Rightarrow> u32 \<Rightarrow> nat \<Rightarrow> u32" where
  "pack_steps v n msk step = foldl (\<lambda>out i. out OR push_bit (i * step) (v i AND msk)) 0 [0..<n]"

lemma bit_pack_steps:
  "k < 32 \<Longrightarrow> bit (pack_steps v n msk step) k \<longleftrightarrow> (\<exists>i<n. i * step \<le> k \<and> bit (v i AND msk) (k - i * step))"
proof (induction n)
  case (Suc n)
  have "pack_steps v (Suc n) msk step = pack_steps v n msk step OR push_bit (n * step) (v n AND msk)"
    by (simp add: pack_steps_def)
  then show ?case using Suc by (auto simp: bit_simps less_Suc_eq)
qed (simp add: pack_steps_def)

lemma pack_steps_field:
  assumes "i < n" "w \<le> step" "i * step + w \<le> 32"
  shows "get_field (i * step) w (pack_steps v n (mask w) step) = v i AND mask w"
proof (rule bit_word_eqI)
  fix k assume k: "k < LENGTH(32)"
  have "j = i" if j: "j < n" "j * step \<le> k + i * step" "k < w" "k + i * step - j * step < w" for j
  proof (rule ccontr)
    assume "j \<noteq> i"
    then consider "j + 1 \<le> i" | "i + 1 \<le> j" by linarith
    then show False
    proof cases
      case 1
      then have "(j + 1) * step \<le> i * step" by (rule mult_right_mono) simp
      then show ?thesis using j assms(2) by simp
    next
      case 2
      then have "(i + 1) * step \<le> j * step" by (rule mult_right_mono) simp
      then show ?thesis using j assms(2) by simp
    qed
  qed
  then have same: "j = i" if "j < n" "j * step \<le> k + i * step" "k < w" "bit (v j AND mask w) (k + i * step - j * step)" for j
    using that by (auto simp: bit_simps)
  show "bit (get_field (i * step) w (pack_steps v n (mask w) step)) k = bit (v i AND mask w) k"
  proof (cases "k < w")
    case True
    have lt: "k + i * step < 32" using True assms(3) by simp
    have "bit (get_field (i * step) w (pack_steps v n (mask w) step)) k \<longleftrightarrow>
        (\<exists>j<n. j * step \<le> k + i * step \<and> bit (v j AND mask w) (k + i * step - j * step))"
      using k True lt by (simp add: bit_get_field bit_pack_steps)
    also have "\<dots> \<longleftrightarrow> bit (v i AND mask w) k"
      using same True assms(1) by (metis diff_add_inverse2 le_add2)
    finally show ?thesis .
  qed (use k in \<open>auto simp: bit_get_field bit_simps\<close>)
qed

text \<open>A word whose bits are all below a limit, and disjunctions of such words.\<close>

definition bits_in :: "u32 \<Rightarrow> u32 \<Rightarrow> bool" where
  "bits_in msk r \<longleftrightarrow> (r AND (NOT msk)) = 0"

lemma bits_in_iff: "bits_in msk r \<longleftrightarrow> (\<forall>n<32. bit r n \<longrightarrow> bit msk n)"
  by (auto simp: bits_in_def bit_eq_iff bit_simps)

lemma bits_in_or: "bits_in msk a \<Longrightarrow> bits_in msk b \<Longrightarrow> bits_in msk (a OR b)"
  by (auto simp: bits_in_iff bit_simps)

lemma bits_in_push: "bits_in (push_bit s (mask w)) (push_bit s (v AND mask w))"
  by (auto simp: bits_in_iff bit_simps)

lemma bits_in_mono: "bits_in m a \<Longrightarrow> (m AND (NOT m')) = 0 \<Longrightarrow> bits_in m' a"
  by (auto simp: bits_in_iff bit_eq_iff bit_simps)

section \<open>The word of a ladder at an abscissa\<close>

text \<open>What every stage builds its fields from: the payload word at a displacement of the record
  the abscissa selects, blended into the record above it in a gap.\<close>

definition ladder_word :: "ar_isp_ladder \<Rightarrow> mem \<Rightarrow> u32 \<Rightarrow> u32 \<Rightarrow> u32" where
  "ladder_word l m g off =
     (case ar_isp_ladder_select_f32 l m g of (band, fr) \<Rightarrow>
        ar_isp_ladder_read_word_f32 l m (unat (lad_payload l)) band off fr)"

lemma ladder_word_agree:
  "ladder_fits l \<Longrightarrow> agree AR_ISP_TUNING_SIZE m m' \<Longrightarrow> unat off + 4 \<le> unat (lad_stride l) \<Longrightarrow>
    ladder_word l m g off = ladder_word l m' g off"
  using select_agree(2) [of l m m' g] select_f32_cases [of l m' g] read_word_agree(2) [of l m m']
  by (auto simp: ladder_word_def split: prod.split)

lemma select_f32_band:
  "ladder_fits l \<Longrightarrow> ar_isp_ladder_select_f32 l m g = (band, fr) \<Longrightarrow>
    ladder_word l m g off = ar_isp_ladder_read_word_f32 l m (unat (lad_payload l)) band off fr"
  by (simp add: ladder_word_def)

subsection \<open>Fields of disjunctions\<close>

lemma get_field_or: "get_field s w (a OR b) = get_field s w a OR get_field s w b"
  by (rule bit_word_eqI) (auto simp: bit_get_field bit_simps)

lemma get_field_same: "s + w \<le> 32 \<Longrightarrow> get_field s w (push_bit s (v AND mask w)) = v AND mask w"
  by (rule bit_word_eqI) (auto simp: bit_get_field bit_simps)

lemma get_field_other: "s' + w' \<le> s \<or> s + w \<le> s' \<Longrightarrow> get_field s w (push_bit s' (v AND mask w')) = 0"
  by (rule bit_word_eqI) (auto simp: bit_get_field bit_simps)

lemma get_field_0: "get_field s w (v AND mask w') = get_field s w (push_bit 0 (v AND mask w'))"
  by simp

lemma bits_in_field: "(push_bit s (mask w) AND (NOT msk)) = 0 \<Longrightarrow> bits_in msk (push_bit s (v AND mask w))"
  by (rule bits_in_mono [OF bits_in_push])

lemma bits_in_field0: "(mask w AND (NOT msk)) = 0 \<Longrightarrow> bits_in msk (v AND mask w)"
  using bits_in_field [of 0 w msk v] by simp

lemma bits_in_all: "bits_in 0xffffffff v"
proof -
  have "(0xffffffff :: u32) = - 1" by simp
  then show ?thesis by (simp only: bits_in_def) simp
qed

lemma push_one_minus: "push_bit w 1 - 1 = (mask w :: u32)"
  by (simp add: mask_eq_exp_minus_1 push_bit_of_1)

lemma four_bytes:
  "get_field 0 8 ((a AND mask 8) OR push_bit 8 (b AND mask 8) OR push_bit 16 (c AND mask 8) OR push_bit 24 (d AND mask 8)) = a AND mask 8"
  "get_field 8 8 ((a AND mask 8) OR push_bit 8 (b AND mask 8) OR push_bit 16 (c AND mask 8) OR push_bit 24 (d AND mask 8)) = b AND mask 8"
  "get_field 16 8 ((a AND mask 8) OR push_bit 8 (b AND mask 8) OR push_bit 16 (c AND mask 8) OR push_bit 24 (d AND mask 8)) = c AND mask 8"
  "get_field 24 8 ((a AND mask 8) OR push_bit 8 (b AND mask 8) OR push_bit 16 (c AND mask 8) OR push_bit 24 (d AND mask 8)) = d AND mask 8"
  by (rule bit_word_eqI; auto simp: bit_get_field bit_simps)+

lemma four_bytes_down:
  "push_bit 24 a OR push_bit 16 b OR push_bit 8 c OR d = d OR push_bit 8 c OR push_bit 16 b OR push_bit 24 (a :: u32)"
  by (simp only: or.assoc or.commute or.left_commute)

end
