(* ===== verification/Isp_Rnr.thy ===== *)
theory Isp_Rnr
  imports Isp_Fields
begin

text \<open>
  \<open>ar-isp-rnr.h\<close>: the thirty-four registers of the rnr bank built from the tuning file.  Twelve
  carry a pair of payload words in their halves, twenty-two pack runs of 12-, 8- and 5-bit
  fields.
\<close>

section \<open>Definitions\<close>

definition ar_isp_rnr_ladder :: ar_isp_ladder where
  "ar_isp_rnr_ladder = \<lparr>lad_hdr = 0x79d8, lad_bands = 0x79ec, lad_payload = 0x7a6c, lad_stride = 0x160,
     lad_count_off = 0xc, lad_max_bands = 0xc\<rparr>"

abbreviation AR_ISP_RNR_BLOB_PAYLOAD :: nat where "AR_ISP_RNR_BLOB_PAYLOAD \<equiv> 0x7a6c"
abbreviation AR_ISP_RNR_BLOB_STRIDE :: u32 where "AR_ISP_RNR_BLOB_STRIDE \<equiv> 0x160"

definition ar_isp_rnr_from_blob :: "mem \<Rightarrow> u32 \<Rightarrow> u32 list" where
  "ar_isp_rnr_from_blob blob gain_q16 =
     (case ar_isp_ladder_select_f32 ar_isp_rnr_ladder blob gain_q16 of (band, fr) \<Rightarrow>
        map (\<lambda>reg.
          let cur = AR_ISP_RNR_BLOB_PAYLOAD + unat (band * AR_ISP_RNR_BLOB_STRIDE);
              lo = ar_isp_get_le32 blob (cur + (2 + reg) * 4);
              hi = ar_isp_get_le32 blob (cur + (14 + reg) * 4);
              prev = AR_ISP_RNR_BLOB_PAYLOAD + unat ((band - 1) * AR_ISP_RNR_BLOB_STRIDE);
              lo' = (if frac_t fr \<noteq> 0
                     then ar_isp_ladder_blend_f32 (ar_isp_get_le32 blob (prev + (2 + reg) * 4)) lo fr else lo);
              hi' = (if frac_t fr \<noteq> 0
                     then ar_isp_ladder_blend_f32 (ar_isp_get_le32 blob (prev + (14 + reg) * 4)) hi fr else hi)
          in push_bit 16 hi' OR (lo' AND 0xffff)) [0..<12])"

definition ar_isp_rnr_pack ::
  "mem \<Rightarrow> u32 \<Rightarrow> ar_isp_ladder_frac \<Rightarrow> nat \<Rightarrow> nat \<Rightarrow> u32 \<Rightarrow> nat \<Rightarrow> u32" where
  "ar_isp_rnr_pack blob band fr word n msk step =
     foldl (\<lambda>out i.
       let rec = AR_ISP_RNR_BLOB_PAYLOAD + unat (band * AR_ISP_RNR_BLOB_STRIDE);
           v = ar_isp_get_le32 blob (rec + (word + i) * 4);
           prev = AR_ISP_RNR_BLOB_PAYLOAD + unat ((band - 1) * AR_ISP_RNR_BLOB_STRIDE);
           v' = (if frac_t fr \<noteq> 0
                 then ar_isp_ladder_blend_f32 (ar_isp_get_le32 blob (prev + (word + i) * 4)) v fr else v)
       in out OR push_bit (i * step) (v' AND msk)) 0 [0..<n]"

definition ar_isp_rnr_tail_from_blob :: "mem \<Rightarrow> u32 \<Rightarrow> u32 list" where
  "ar_isp_rnr_tail_from_blob blob gain_q16 =
     (case ar_isp_ladder_select_f32 ar_isp_rnr_ladder blob gain_q16 of (band, fr) \<Rightarrow>
        let pack = ar_isp_rnr_pack blob band fr
        in concat (map (\<lambda>i. let word = 26 + i * 7 in
                 [pack word 2 0xfff 16, pack (word + 2) 1 0xfff 0, pack (word + 3) 4 0x1f 8]) [0..<4]) @
           concat (map (\<lambda>i. let word = 26 + 4 * 7 + i * 17 in
                 [pack word 4 0xff 8, pack (word + 4) 4 0xff 8, pack (word + 8) 3 0x1f 8,
                  pack (word + 11) 3 0x1f 8, pack (word + 14) 3 0x1f 8]) [0..<2]))"

section \<open>The fields\<close>

lemma rnr_fits: "ladder_fits ar_isp_rnr_ladder"
  by (simp add: ladder_fits_def ar_isp_rnr_ladder_def)

text \<open>The payload word the fields of one register are taken from.\<close>

definition rnr_word :: "mem \<Rightarrow> u32 \<Rightarrow> nat \<Rightarrow> u32" where
  "rnr_word blob g k = ladder_word ar_isp_rnr_ladder blob g (of_nat (k * 4))"

lemma unat_word_off: "k < 88 \<Longrightarrow> unat (of_nat (k * 4) :: u32) = k * 4"
  by (rule unat_of_nat_small) simp

lemma rnr_read:
  assumes "ar_isp_ladder_select_f32 ar_isp_rnr_ladder blob g = (band, fr)" "k < 88"
  shows "(if frac_t fr \<noteq> 0
      then ar_isp_ladder_blend_f32
        (ar_isp_get_le32 blob (AR_ISP_RNR_BLOB_PAYLOAD + unat ((band - 1) * AR_ISP_RNR_BLOB_STRIDE) + k * 4))
        (ar_isp_get_le32 blob (AR_ISP_RNR_BLOB_PAYLOAD + unat (band * AR_ISP_RNR_BLOB_STRIDE) + k * 4)) fr
      else ar_isp_get_le32 blob (AR_ISP_RNR_BLOB_PAYLOAD + unat (band * AR_ISP_RNR_BLOB_STRIDE) + k * 4)) =
    rnr_word blob g k"
  unfolding rnr_word_def select_f32_band [OF rnr_fits assms(1)] ar_isp_ladder_read_word_f32_def Let_def
    unat_word_off [OF assms(2)]
  by (simp add: ar_isp_rnr_ladder_def)

lemma rnr_from_blob_word:
  "ar_isp_rnr_from_blob blob g =
    map (\<lambda>reg. push_bit 16 (rnr_word blob g (14 + reg)) OR (rnr_word blob g (2 + reg) AND 0xffff)) [0..<12]"
proof -
  obtain band fr where s: "ar_isp_ladder_select_f32 ar_isp_rnr_ladder blob g = (band, fr)" by fastforce
  show ?thesis
    unfolding ar_isp_rnr_from_blob_def s prod.case Let_def
    by (intro map_cong refl) (subst (1 2) rnr_read [OF s]; simp)
qed

lemma rnr_pack_steps:
  assumes "ar_isp_ladder_select_f32 ar_isp_rnr_ladder blob g = (band, fr)" "word + n \<le> 88"
  shows "ar_isp_rnr_pack blob band fr word n msk step = pack_steps (\<lambda>i. rnr_word blob g (word + i)) n msk step"
  unfolding ar_isp_rnr_pack_def pack_steps_def Let_def
  by (intro foldl_cong refl) (subst rnr_read [OF assms(1)]; use assms(2) in simp)

text \<open>The tail as a list of packed runs: first word, count, width, step.\<close>

definition rnr_tail_runs :: "(nat \<times> nat \<times> nat \<times> nat) list" where
  "rnr_tail_runs = concat (map (\<lambda>i. [(26 + i * 7, 2, 12, 16), (28 + i * 7, 1, 12, 0), (29 + i * 7, 4, 5, 8)]) [0..<4]) @
     concat (map (\<lambda>i. [(54 + i * 17, 4, 8, 8), (58 + i * 17, 4, 8, 8), (62 + i * 17, 3, 5, 8),
       (65 + i * 17, 3, 5, 8), (68 + i * 17, 3, 5, 8)]) [0..<2])"

lemma rnr_tail_runs_val: "rnr_tail_runs =
  [(26, 2, 12, 16), (28, 1, 12, 0), (29, 4, 5, 8), (33, 2, 12, 16), (35, 1, 12, 0), (36, 4, 5, 8),
   (40, 2, 12, 16), (42, 1, 12, 0), (43, 4, 5, 8), (47, 2, 12, 16), (49, 1, 12, 0), (50, 4, 5, 8),
   (54, 4, 8, 8), (58, 4, 8, 8), (62, 3, 5, 8), (65, 3, 5, 8), (68, 3, 5, 8),
   (71, 4, 8, 8), (75, 4, 8, 8), (79, 3, 5, 8), (82, 3, 5, 8), (85, 3, 5, 8)]"
  by (simp add: rnr_tail_runs_def upt_conv_Cons)

lemma rnr_tail_length: "length rnr_tail_runs = 22"
  by (simp add: rnr_tail_runs_val)

lemma mask_values: "(0xfff :: u32) = mask 12" "(0x1f :: u32) = mask 5" "(0xff :: u32) = mask 8" "(0xffff :: u32) = mask 16"
  by (simp_all add: mask_eq_exp_minus_1)

lemma rnr_tail_word:
  "ar_isp_rnr_tail_from_blob blob g =
    map (\<lambda>(word, n, w, step). pack_steps (\<lambda>i. rnr_word blob g (word + i)) n (mask w) step) rnr_tail_runs"
proof -
  obtain band fr where s: "ar_isp_ladder_select_f32 ar_isp_rnr_ladder blob g = (band, fr)" by fastforce
  show ?thesis
    unfolding ar_isp_rnr_tail_from_blob_def s prod.case Let_def rnr_tail_runs_val
    by (simp add: upt_conv_Cons rnr_pack_steps [OF s] mask_values)
qed

text \<open>Every field of the thirty-four rnr registers carries exactly the low bits of one payload
  word of the selected record: the ladder registers in their two halves, the tail registers at
  the packer's steps, words 2 to 87 each used once.\<close>

theorem rnr_registers_carry_record:
  "length (ar_isp_rnr_from_blob blob g) = 12 \<and> length (ar_isp_rnr_tail_from_blob blob g) = 22 \<and>
   (\<forall>reg. reg < 12 \<longrightarrow> get_field 0 16 (ar_isp_rnr_from_blob blob g ! reg) = rnr_word blob g (2 + reg) AND mask 16 \<and>
      get_field 16 16 (ar_isp_rnr_from_blob blob g ! reg) = rnr_word blob g (14 + reg) AND mask 16) \<and>
   (\<forall>reg i. reg < 22 \<longrightarrow> (case rnr_tail_runs ! reg of (word, n, w, step) \<Rightarrow>
      i < n \<longrightarrow> get_field (i * step) w (ar_isp_rnr_tail_from_blob blob g ! reg) = rnr_word blob g (word + i) AND mask w)) \<and>
   concat (map (\<lambda>(word, n, w, step). [word..<word + n]) rnr_tail_runs) = [26..<88]"
proof (intro conjI allI impI)
  fix reg :: nat assume r: "reg < 12"
  have "ar_isp_rnr_from_blob blob g ! reg =
      push_bit 16 (rnr_word blob g (14 + reg)) OR (rnr_word blob g (2 + reg) AND 0xffff)"
    using r by (simp add: rnr_from_blob_word)
  then show "get_field 0 16 (ar_isp_rnr_from_blob blob g ! reg) = rnr_word blob g (2 + reg) AND mask 16"
    "get_field 16 16 (ar_isp_rnr_from_blob blob g ! reg) = rnr_word blob g (14 + reg) AND mask 16"
    by (auto intro!: bit_word_eqI simp: bit_get_field mask_values bit_simps)
next
  fix reg i :: nat assume r: "reg < 22"
  obtain word n w step where run: "rnr_tail_runs ! reg = (word, n, w, step)" by (cases "rnr_tail_runs ! reg")
  have "(word, n, w, step) \<in> set rnr_tail_runs"
    using r run nth_mem [of reg rnr_tail_runs] by (simp add: rnr_tail_runs_val)
  then have ok: "i < n \<Longrightarrow> (w \<le> step \<or> n = 1) \<and> (n - 1) * step + w \<le> 32" by (auto simp: rnr_tail_runs_val)
  have tl: "ar_isp_rnr_tail_from_blob blob g ! reg = pack_steps (\<lambda>i. rnr_word blob g (word + i)) n (mask w) step"
    using r run unfolding rnr_tail_word by (subst nth_map) (simp_all add: rnr_tail_length)
  have "get_field (i * step) w (pack_steps (\<lambda>i. rnr_word blob g (word + i)) n (mask w) step) = rnr_word blob g (word + i) AND mask w"
    if i: "i < n"
  proof (cases "n = 1")
    case True
    then show ?thesis using i
      by (auto intro!: bit_word_eqI simp: pack_steps_def bit_get_field bit_simps)
  next
    case False
    have "i * step \<le> (n - 1) * step" using i by (intro mult_right_mono) simp_all
    then have "i * step + w \<le> 32" "w \<le> step" using ok [OF i] False by linarith+
    then show ?thesis using pack_steps_field [OF i] by blast
  qed
  then show "case rnr_tail_runs ! reg of (word, n, w, step) \<Rightarrow>
      i < n \<longrightarrow> get_field (i * step) w (ar_isp_rnr_tail_from_blob blob g ! reg) = rnr_word blob g (word + i) AND mask w"
    by (simp add: run tl)
qed (simp_all add: rnr_from_blob_word rnr_tail_word rnr_tail_runs_val upt_conv_Cons)

theorem rnr_registers_carry_record_witness:
  "get_field 16 16 (ar_isp_rnr_from_blob (\<lambda>_. 1) 0x10000 ! 11) = rnr_word (\<lambda>_. 1) 0x10000 (14 + 11) AND mask 16"
  using rnr_registers_carry_record [where blob = "\<lambda>_. 1" and g = "0x10000", THEN conjunct2, THEN conjunct2, THEN conjunct1]
  by simp

lemma rnr_word_agree: "agree AR_ISP_TUNING_SIZE m m' \<Longrightarrow> k < 88 \<Longrightarrow> rnr_word m g k = rnr_word m' g k"
  unfolding rnr_word_def
  by (rule ladder_word_agree [OF rnr_fits], assumption, simp only: unat_word_off) (simp add: ar_isp_rnr_ladder_def)

lemma rnr_agree:
  assumes "agree AR_ISP_TUNING_SIZE m m'"
  shows "ar_isp_rnr_from_blob m g = ar_isp_rnr_from_blob m' g"
    "ar_isp_rnr_tail_from_blob m g = ar_isp_rnr_tail_from_blob m' g"
proof -
  show "ar_isp_rnr_from_blob m g = ar_isp_rnr_from_blob m' g"
    using rnr_word_agree [OF assms] by (simp add: rnr_from_blob_word)
  have "pack_steps (\<lambda>i. rnr_word m g (word + i)) n msk step = pack_steps (\<lambda>i. rnr_word m' g (word + i)) n msk step"
    if "word + n \<le> 88" for word n msk step
    unfolding pack_steps_def using that
    by (intro foldl_cong refl) (simp add: rnr_word_agree [OF assms])
  then show "ar_isp_rnr_tail_from_blob m g = ar_isp_rnr_tail_from_blob m' g"
    unfolding rnr_tail_word rnr_tail_runs_val by simp
qed

end
