(* ===== verification/Isp_Lnr.thy ===== *)
theory Isp_Lnr
  imports Isp_Fields
begin

text \<open>
  \<open>ar-isp-lnr.h\<close>: the lnr bank, a table of bit fields read-modify-written into eighty-six
  registers, and a byte-packed curve in the last forty-eight.  The lemmas show that the
  fields of the table and the curve do not overlap, so every field ends up with the bits of
  its own payload word and every other bit of the bank keeps its value.
\<close>

section \<open>Definitions\<close>

definition ar_isp_lnr_ladder :: ar_isp_ladder where
  "ar_isp_lnr_ladder = \<lparr>lad_hdr = 0x89e88, lad_bands = 0x89e98, lad_payload = 0x89f18, lad_stride = 0x428,
     lad_count_off = 0x8, lad_max_bands = 0xb\<rparr>"

text \<open>\<open>struct ar_isp_lnr_field\<close>: register, payload offset, shift, width.\<close>

type_synonym ar_isp_lnr_field = "nat \<times> u32 \<times> nat \<times> nat"

definition ar_isp_lnr_fields :: "ar_isp_lnr_field list" where
  "ar_isp_lnr_fields = [
     (0, 0x000, 2, 1), (0, 0x004, 6, 1), (0, 0x008, 8, 1), (0, 0x00c, 9, 1), (0, 0x010, 12, 1),
     (0, 0x014, 24, 8), (1, 0x018, 0, 13), (1, 0x028, 16, 13), (2, 0x038, 0, 13), (2, 0x048, 16, 13),
     (3, 0x01c, 0, 13), (3, 0x02c, 16, 13), (4, 0x03c, 0, 13), (4, 0x04c, 16, 13), (5, 0x020, 0, 13),
     (5, 0x030, 16, 13), (6, 0x040, 0, 13), (6, 0x050, 16, 13), (7, 0x024, 0, 13), (7, 0x034, 16, 13),
     (8, 0x044, 0, 13), (8, 0x054, 16, 13), (9, 0x058, 0, 13), (9, 0x068, 16, 13), (10, 0x078, 0, 13),
     (10, 0x05c, 16, 13), (11, 0x06c, 0, 13), (11, 0x07c, 16, 13), (12, 0x060, 0, 13), (12, 0x070, 16, 13),
     (13, 0x080, 0, 13), (13, 0x064, 16, 13), (14, 0x074, 0, 13), (14, 0x084, 16, 13), (15, 0x210, 0, 8),
     (15, 0x214, 8, 8), (16, 0x218, 0, 8), (16, 0x21c, 8, 8), (17, 0x220, 0, 8), (17, 0x224, 8, 8),
     (20, 0x090, 0, 10), (20, 0x094, 16, 10), (21, 0x098, 0, 10), (21, 0x09c, 10, 10), (22, 0x0a0, 0, 10),
     (22, 0x0a4, 10, 10), (23, 0x0a8, 0, 10), (23, 0x0ac, 10, 10), (24, 0x0b0, 0, 10), (24, 0x0b4, 10, 10),
     (25, 0x0b8, 0, 10), (26, 0x0bc, 0, 16), (26, 0x0c0, 16, 16), (27, 0x0c4, 0, 16), (27, 0x0c8, 16, 16),
     (28, 0x0cc, 0, 16), (29, 0x0d0, 0, 10), (29, 0x0d4, 10, 10), (30, 0x0d8, 0, 10), (30, 0x0dc, 10, 10),
     (31, 0x0e0, 0, 10), (31, 0x0e4, 10, 10), (32, 0x0e8, 0, 10), (32, 0x0ec, 10, 10), (33, 0x0f0, 0, 10),
     (34, 0x0f4, 0, 16), (34, 0x0f8, 16, 16), (35, 0x0fc, 0, 16), (35, 0x100, 16, 16), (36, 0x104, 0, 16),
     (37, 0x108, 0, 10), (37, 0x10c, 16, 10)]"

definition ar_isp_lnr_pack_field ::
  "regs \<Rightarrow> mem \<Rightarrow> nat \<Rightarrow> u32 \<Rightarrow> ar_isp_ladder_frac \<Rightarrow> nat \<Rightarrow> u32 \<Rightarrow> nat \<Rightarrow> nat \<Rightarrow> regs" where
  "ar_isp_lnr_pack_field dst blob payload band fr reg off shift width =
     (let msk = (if width = 32 then 0xffffffff else push_bit width 1 - 1);
          field = ar_isp_ladder_read_word_f32 ar_isp_lnr_ladder blob payload band off fr;
          dst1 = dst(reg := dst reg AND NOT (push_bit shift msk))
      in dst1(reg := dst1 reg OR push_bit shift (field AND msk)))"

definition ar_isp_lnr_from_blob :: "regs \<Rightarrow> mem \<Rightarrow> u32 \<Rightarrow> regs" where
  "ar_isp_lnr_from_blob dst blob gain_q16 =
     (case ar_isp_ladder_select_f32 ar_isp_lnr_ladder blob gain_q16 of (band, fr) \<Rightarrow>
        let put = (\<lambda>reg off shift width d. ar_isp_lnr_pack_field d blob 0x89f18 band fr reg off shift width);
            dst1 = fold (\<lambda>(reg, off, shift, width). put reg off shift width) ar_isp_lnr_fields dst
        in fold (\<lambda>i d.
             let reg = 38 + i;
                 off = (if i < 16 then 0x110 + of_nat i * 16 else 0x228 + (of_nat i - 16) * 16)
             in put reg (off + 12) 24 8 (put reg (off + 8) 16 8 (put reg (off + 4) 8 8 (put reg off 0 8 d))))
           [0..<48] dst1)"

section \<open>The bank as one table of fields\<close>

lemma lnr_fits: "ladder_fits ar_isp_lnr_ladder"
  by (simp add: ladder_fits_def ar_isp_lnr_ladder_def)

lemma lnr_pack_field:
  "width \<le> 32 \<Longrightarrow> ar_isp_lnr_pack_field dst blob payload band fr reg off shift width =
    put_field (reg, shift, width, ar_isp_ladder_read_word_f32 ar_isp_lnr_ladder blob payload band off fr) dst"
proof -
  assume "width \<le> 32"
  have m: "(if width = 32 then 0xffffffff else push_bit width 1 - 1) = (mask width :: u32)"
    by (simp add: mask_eq_exp_minus_1 push_bit_of_1)
  show ?thesis unfolding ar_isp_lnr_pack_field_def m by (simp add: put_field_def set_field_def Let_def)
qed

text \<open>The curve's byte \<open>k\<close> of register \<open>38 + i\<close>.\<close>

definition lnr_curve_off :: "nat \<Rightarrow> u32" where
  "lnr_curve_off i = (if i < 16 then 0x110 + of_nat i * 16 else 0x228 + (of_nat i - 16) * 16)"

definition lnr_curve :: "ar_isp_lnr_field list" where
  "lnr_curve = concat (map (\<lambda>i. [(38 + i, lnr_curve_off i, 0, 8), (38 + i, lnr_curve_off i + 4, 8, 8),
     (38 + i, lnr_curve_off i + 8, 16, 8), (38 + i, lnr_curve_off i + 12, 24, 8)]) [0..<48])"

definition lnr_table :: "ar_isp_lnr_field list" where
  "lnr_table = ar_isp_lnr_fields @ lnr_curve"

definition lnr_value :: "mem \<Rightarrow> u32 \<Rightarrow> ar_isp_lnr_field \<Rightarrow> field" where
  "lnr_value blob g f = (case f of (reg, off, s, w) \<Rightarrow> (reg, s, w, ladder_word ar_isp_lnr_ladder blob g off))"

lemma lnr_fold:
  "ar_isp_lnr_from_blob dst blob g = fold put_field (map (lnr_value blob g) lnr_table) dst"
proof -
  obtain band fr where s: "ar_isp_ladder_select_f32 ar_isp_lnr_ladder blob g = (band, fr)" by fastforce
  have pay: "unat (lad_payload ar_isp_lnr_ladder) = 0x89f18" by (simp add: ar_isp_lnr_ladder_def)
  have put: "ar_isp_lnr_pack_field d blob 0x89f18 band fr reg off s w = put_field (lnr_value blob g (reg, off, s, w)) d"
    if "w \<le> 32" for d reg off s w
    using that by (simp add: lnr_pack_field lnr_value_def select_f32_band [OF lnr_fits s] pay)
  have "(\<lambda>(reg, off, s, w) d. ar_isp_lnr_pack_field d blob 0x89f18 band fr reg off s w) f d = put_field (lnr_value blob g f) d"
    if "f \<in> set ar_isp_lnr_fields" for f d
    using that put by (cases f) (auto simp: ar_isp_lnr_fields_def)
  then have one: "fold (\<lambda>(reg, off, s, w) d. ar_isp_lnr_pack_field d blob 0x89f18 band fr reg off s w) ar_isp_lnr_fields dst =
      fold put_field (map (lnr_value blob g) ar_isp_lnr_fields) dst"
    unfolding fold_map comp_def by (intro fold_cong) (auto simp: fun_eq_iff)
  have two: "fold (\<lambda>i d. put_field (lnr_value blob g (38 + i, lnr_curve_off i + 12, 24, 8))
        (put_field (lnr_value blob g (38 + i, lnr_curve_off i + 8, 16, 8))
          (put_field (lnr_value blob g (38 + i, lnr_curve_off i + 4, 8, 8))
            (put_field (lnr_value blob g (38 + i, lnr_curve_off i, 0, 8)) d)))) is d =
      fold put_field (map (lnr_value blob g) (concat (map (\<lambda>i. [(38 + i, lnr_curve_off i, 0, 8), (38 + i, lnr_curve_off i + 4, 8, 8),
        (38 + i, lnr_curve_off i + 8, 16, 8), (38 + i, lnr_curve_off i + 12, 24, 8)]) is))) d" for "is" d
    by (induction "is" arbitrary: d) simp_all
  show ?thesis
    unfolding ar_isp_lnr_from_blob_def s prod.case Let_def
    by (simp add: put lnr_table_def one lnr_curve_def two flip: lnr_curve_off_def)
qed

text \<open>No two fields of the table share a bit.\<close>

lemma lnr_fields_apart: "sorted_wrt (\<lambda>(r, _, s, w) (r', _, s', w'). r \<noteq> r' \<or> s + w \<le> s' \<or> s' + w' \<le> s) ar_isp_lnr_fields"
  by (simp add: ar_isp_lnr_fields_def)

lemma lnr_fields_regs: "list_all (\<lambda>(r, off, s, w). r < 38 \<and> r \<noteq> 18 \<and> r \<noteq> 19 \<and> s + w \<le> 32 \<and> unat off + 4 \<le> 0x428) ar_isp_lnr_fields"
  by (simp add: ar_isp_lnr_fields_def)

definition lnr_apart :: "ar_isp_lnr_field \<Rightarrow> ar_isp_lnr_field \<Rightarrow> bool" where
  "lnr_apart f g \<longleftrightarrow> (case f of (r, _, s, w) \<Rightarrow> case g of (r', _, s', w') \<Rightarrow> r \<noteq> r' \<or> s + w \<le> s' \<or> s' + w' \<le> s)"

lemma lnr_curve_apart:
  "sorted_wrt lnr_apart (concat (map (\<lambda>i. [(38 + i, f0 i, 0, 8), (38 + i, f1 i, 8, 8), (38 + i, f2 i, 16, 8), (38 + i, f3 i, 24, 8)]) [0..<n]))"
  by (induction n) (auto simp: sorted_wrt_append lnr_apart_def)

lemma lnr_fields_reg: "(r, off, s, w) \<in> set ar_isp_lnr_fields \<Longrightarrow>
    r < 38 \<and> r \<noteq> 18 \<and> r \<noteq> 19 \<and> s + w \<le> 32 \<and> unat off + 4 \<le> 0x428"
  using bspec [OF lnr_fields_regs [unfolded list_all_iff]] by fastforce

lemma lnr_curve_reg_upto:
  "(r, off, s, w) \<in> set (concat (map (\<lambda>i. [(38 + i, f0 i, 0, 8), (38 + i, f1 i, 8, 8), (38 + i, f2 i, 16, 8), (38 + i, f3 i, 24, 8)]) [0..<n])) \<Longrightarrow>
    \<exists>i<n. r = 38 + i \<and> s + w \<le> (32::nat) \<and> off \<in> {f0 i, f1 i, f2 i, f3 i}"
  by auto

lemma lnr_curve_reg: "(r, off, s, w) \<in> set lnr_curve \<Longrightarrow>
    \<exists>i<48. r = 38 + i \<and> s + w \<le> 32 \<and> off \<in> {lnr_curve_off i, lnr_curve_off i + 4, lnr_curve_off i + 8, lnr_curve_off i + 12}"
  unfolding lnr_curve_def by (rule lnr_curve_reg_upto)

lemma lnr_table_apart: "sorted_wrt lnr_apart lnr_table"
proof -
  have "lnr_apart = (\<lambda>(r, _, s, w) (r', _, s', w'). r \<noteq> r' \<or> s + w \<le> s' \<or> s' + w' \<le> s)"
    by (simp add: fun_eq_iff lnr_apart_def)
  then have one: "sorted_wrt lnr_apart ar_isp_lnr_fields" using lnr_fields_apart by simp
  have "lnr_apart f g" if fg: "f \<in> set ar_isp_lnr_fields" "g \<in> set lnr_curve" for f g
  proof -
    obtain r off s w r' off' s' w' where e: "f = (r, off, s, w)" "g = (r', off', s', w')" by (cases f, cases g) blast
    have "r < 38" using fg(1) lnr_fields_reg unfolding e by blast
    moreover have "38 \<le> r'" using lnr_curve_reg [of r' off' s' w'] fg(2) unfolding e by auto
    ultimately show ?thesis by (simp add: lnr_apart_def e)
  qed
  moreover have "sorted_wrt lnr_apart lnr_curve" unfolding lnr_curve_def by (rule lnr_curve_apart)
  ultimately show ?thesis using one unfolding lnr_table_def sorted_wrt_append by blast
qed

lemma lnr_values_apart: "sorted_wrt apart (map (lnr_value blob g) lnr_table)"
proof -
  have "(\<lambda>x y. apart (lnr_value blob g x) (lnr_value blob g y)) = lnr_apart"
    by (simp add: fun_eq_iff apart_def lnr_apart_def lnr_value_def split: prod.split)
  then show ?thesis using lnr_table_apart by (simp add: sorted_wrt_map)
qed

lemma curve_off_bound: "i < 48 \<Longrightarrow> unat (lnr_curve_off i) + 16 \<le> 0x428"
proof -
  assume i: "i < 48"
  define k where "k = (if i < 16 then 0x110 + i * 16 else 0x228 + (i - 16) * 16)"
  have k: "k + 16 \<le> 0x428" using i by (auto simp: k_def)
  have "lnr_curve_off i = of_nat k" by (simp add: lnr_curve_off_def k_def of_nat_diff)
  then show ?thesis using k by (simp add: unat_of_nat_small)
qed

lemma lnr_table_in: "(r, off, s, w) \<in> set lnr_table \<Longrightarrow>
    s + w \<le> 32 \<and> unat off + 4 \<le> 0x428 \<and> r < 86 \<and> r \<noteq> 18 \<and> r \<noteq> 19"
proof -
  assume f: "(r, off, s, w) \<in> set lnr_table"
  show ?thesis
  proof (cases "(r, off, s, w) \<in> set ar_isp_lnr_fields")
    case True
    then show ?thesis using lnr_fields_reg [of r off s w] by auto
  next
    case False
    then have "(r, off, s, w) \<in> set lnr_curve" using f by (simp add: lnr_table_def)
    then obtain i where i: "i < 48" "r = 38 + i" "s + w \<le> 32"
      "off \<in> {lnr_curve_off i, lnr_curve_off i + 4, lnr_curve_off i + 8, lnr_curve_off i + 12}"
      using lnr_curve_reg by blast
    note b = curve_off_bound [OF i(1)]
    have "unat (lnr_curve_off i + c) = unat (lnr_curve_off i) + unat c" if "unat c \<le> 12" for c
      using b that by (intro unat_add_small) simp
    then have "unat off + 4 \<le> 0x428" using i(4) b by auto
    then show ?thesis using i by simp
  qed
qed

text \<open>The lnr bank is read-modify-written field by field: each of the table's and the curve's
  274 fields ends up with the low bits of the payload word it names, and every bit of every register
  that no field covers, all of registers 18 and 19 among them, keeps the value it had.\<close>

theorem lnr_fields_written_rest_kept:
  "((reg, off, s, w) \<in> set lnr_table \<longrightarrow>
      get_field s w (ar_isp_lnr_from_blob dst blob g reg) = ladder_word ar_isp_lnr_ladder blob g off AND mask w) \<and>
   (n < 32 \<longrightarrow> (\<forall>(r, _, s, w)\<in>set lnr_table. \<not> (r = reg \<and> s \<le> n \<and> n < s + w)) \<longrightarrow>
      bit (ar_isp_lnr_from_blob dst blob g reg) n = bit (dst reg) n) \<and>
   ar_isp_lnr_from_blob dst blob g 18 = dst 18 \<and> ar_isp_lnr_from_blob dst blob g 19 = dst 19"
proof -
  note ap = lnr_values_apart [of blob g]
  have "get_field s w (ar_isp_lnr_from_blob dst blob g reg) = ladder_word ar_isp_lnr_ladder blob g off AND mask w"
    if f: "(reg, off, s, w) \<in> set lnr_table"
  proof -
    have "lnr_value blob g (reg, off, s, w) \<in> set (map (lnr_value blob g) lnr_table)" using f by simp
    then show ?thesis
      unfolding lnr_fold using lnr_table_in [OF f] by (intro fold_fields_value [OF ap]) (simp_all add: lnr_value_def)
  qed
  moreover have frame: "bit (ar_isp_lnr_from_blob dst blob g reg) n = bit (dst reg) n"
    if "n < 32" "\<forall>(r, _, s, w)\<in>set lnr_table. \<not> (r = reg \<and> s \<le> n \<and> n < s + w)" for n reg
    unfolding lnr_fold using that by (intro fold_fields_frame) (auto simp: field_at_def lnr_value_def)
  moreover have "ar_isp_lnr_from_blob dst blob g k = dst k" if "k = 18 \<or> k = 19" for k
    using that lnr_table_in by (intro bit_word_eqI frame) auto
  ultimately show ?thesis by blast
qed

theorem lnr_fields_written_rest_kept_witness:
  "get_field 2 1 (ar_isp_lnr_from_blob (\<lambda>_. 0) (\<lambda>_. 1) 0x10000 0) = ladder_word ar_isp_lnr_ladder (\<lambda>_. 1) 0x10000 0 AND mask 1"
proof -
  have "(0, 0, 2, 1) \<in> set lnr_table" by (simp add: lnr_table_def ar_isp_lnr_fields_def)
  then show ?thesis using lnr_fields_written_rest_kept [where dst = "\<lambda>_. 0" and blob = "\<lambda>_. 1" and g = "0x10000", THEN conjunct1] by blast
qed

lemma lnr_agree:
  assumes "agree AR_ISP_TUNING_SIZE m m'" shows "ar_isp_lnr_from_blob dst m g = ar_isp_lnr_from_blob dst m' g"
proof -
  have "lnr_value m g f = lnr_value m' g f" if "f \<in> set lnr_table" for f
  proof -
    obtain r off s w where f: "f = (r, off, s, w)" by (cases f)
    have "unat off + 4 \<le> unat (lad_stride ar_isp_lnr_ladder)"
      using lnr_table_in [of r off s w] that by (simp add: f ar_isp_lnr_ladder_def)
    then show ?thesis by (simp add: lnr_value_def f ladder_word_agree [OF lnr_fits assms])
  qed
  then show ?thesis unfolding lnr_fold by (intro arg_cong2 [where f = "\<lambda>a b. fold put_field a b"] map_cong refl)
qed

end
