(* ===== verification/Isp_De3d.thy ===== *)
theory Isp_De3d
  imports Isp_Fields
begin

text \<open>
  \<open>ar-isp-de3d.h\<close>: the de3d bank.  Fifty-one registers packed from the selected tuning record, each
  with the mask of the bits the ladder owns; the apply path read-modify-writes under that mask.
  \<open>F\<close> blends a field between bands, \<open>V\<close> takes it from the band's own record, \<open>S\<close> is a knee slope.
\<close>

section \<open>Definitions\<close>

definition ar_isp_de3d_verbatim :: ar_isp_ladder_frac where
  "ar_isp_de3d_verbatim = \<lparr>frac_t = 0, frac_omt = 0\<rparr>"

definition ar_isp_de3d_ladder :: ar_isp_ladder where
  "ar_isp_de3d_ladder = \<lparr>lad_hdr = 0x9631c, lad_bands = 0x9632c, lad_payload = 0x963ac, lad_stride = 0x2f8,
     lad_count_off = 0x8, lad_max_bands = 0xc\<rparr>"

abbreviation AR_ISP_DE3D_BLOB_PAYLOAD :: nat where "AR_ISP_DE3D_BLOB_PAYLOAD \<equiv> 0x963ac"

text \<open>Bank offset and mask of each register.\<close>

definition ar_isp_de3d_regs :: "(nat \<times> u32) list" where
  "ar_isp_de3d_regs = [
     (0x00, 0xc), (0x10, 0xffffffff), (0x14, 0xffffffff), (0x18, 0xffffffff), (0x1c, 0x3fff),
     (0x20, 0x1ff00ff), (0x28, 0x1ff), (0x2c, 0xffffffff), (0x30, 0xff), (0x4c, 0x3fff),
     (0x90, 0x3c010077), (0x94, 0xffffff), (0x9c, 0xffffff), (0xa0, 0xffffffff), (0xa4, 0x3ff1fff),
     (0xa8, 0x3ff0fff), (0xac, 0x1ff), (0xb0, 0xffffffff), (0xb4, 0xff), (0xbc, 0xffffffff),
     (0xc0, 0xffffffff), (0xc4, 0xffffffff), (0xc8, 0xffffffff), (0xcc, 0xffffffff), (0xd0, 0xffffffff),
     (0xd4, 0xffffffff), (0xd8, 0xffffffff), (0xdc, 0xffffffff), (0xe0, 0xffffffff), (0xe4, 0xffffffff),
     (0xe8, 0xffffffff), (0xec, 0xffffffff), (0xf0, 0xffffffff), (0xf4, 0xffffffff), (0xf8, 0xffffffff),
     (0xfc, 0xffffffff), (0x100, 0xffffffff), (0x104, 0xffffffff), (0x108, 0xffffffff), (0x10c, 0xffffffff),
     (0x110, 0xffffffff), (0x114, 0xffffffff), (0x118, 0xffffffff), (0x11c, 0xffffffff), (0x120, 0xffffffff),
     (0x124, 0xffffffff), (0x128, 0xffffffff), (0x12c, 0xffffffff), (0x130, 0xffffffff), (0x134, 0xffffffff),
     (0x138, 0xffffffff)]"

definition ar_isp_de3d_field :: "mem \<Rightarrow> u32 \<Rightarrow> ar_isp_ladder_frac \<Rightarrow> u32 \<Rightarrow> nat \<Rightarrow> u32" where
  "ar_isp_de3d_field blob band fr off width =
     ar_isp_ladder_read_word_f32 ar_isp_de3d_ladder blob AR_ISP_DE3D_BLOB_PAYLOAD band off fr AND (push_bit width 1 - 1)"

definition ar_isp_de3d_slope :: "mem \<Rightarrow> u32 \<Rightarrow> ar_isp_ladder_frac \<Rightarrow> u32 \<Rightarrow> u32 \<Rightarrow> u32" where
  "ar_isp_de3d_slope blob band fr hi_off lo_off =
     (let span = ar_isp_ladder_read_word_f32 ar_isp_de3d_ladder blob AR_ISP_DE3D_BLOB_PAYLOAD band hi_off fr -
                 ar_isp_ladder_read_word_f32 ar_isp_de3d_ladder blob AR_ISP_DE3D_BLOB_PAYLOAD band lo_off fr
      in if span = 0 then 0 else word_of_int (c_div 65532 (sint span)) AND 0xffff)"

definition ar_isp_de3d_strength :: "u32 \<Rightarrow> int \<Rightarrow> u32 \<Rightarrow> u32" where
  "ar_isp_de3d_strength v strength cl =
     (if strength = 50 then v
      else let t = (if strength < 50 then strength * uint v
                    else 50 * uint cl - (100 - strength) * (uint cl - uint v))
           in word_of_int (c_div t 50))"

definition ar_isp_de3d_from_blob :: "mem \<Rightarrow> u32 \<Rightarrow> u32 list" where
  "ar_isp_de3d_from_blob blob gain_q16 =
     (case ar_isp_ladder_select_f32 ar_isp_de3d_ladder blob gain_q16 of (band, fr) \<Rightarrow>
        let asym0 = ar_isp_get_le32 blob (AR_ISP_DE3D_BLOB_PAYLOAD + unat (band * 0x2f8) + 0x90);
            asym1 = (if frac_t fr \<noteq> 0
                     then ar_isp_ladder_blend_f32
                       (ar_isp_get_le32 blob (AR_ISP_DE3D_BLOB_PAYLOAD + unat ((band - 1) * 0x2f8) + 0x8c)) asym0 fr
                     else asym0);
            asym = asym1 AND 0xff;
            F = ar_isp_de3d_field blob band fr;
            V = ar_isp_de3d_field blob band ar_isp_de3d_verbatim;
            S = ar_isp_de3d_slope blob band fr
        in [
           push_bit 3 (V 0x04 1) OR push_bit 2 (V 0x08 1),
           push_bit 16 (S 0x18 0x14) OR push_bit 8 (F 0x14 8) OR F 0x18 8,
           push_bit 24 (F 0x1c 8) OR push_bit 16 (F 0x20 8) OR push_bit 8 (F 0x24 8) OR F 0x28 8,
           push_bit 16 (S 0x30 0x2c) OR push_bit 8 (F 0x2c 8) OR F 0x30 8,
           F 0x34 14,
           push_bit 16 (F 0x38 9) OR F 0x40 8,
           F 0x44 9,
           push_bit 24 (F 0x48 8) OR push_bit 16 (F 0x4c 8) OR push_bit 8 (F 0x50 8) OR F 0x54 8,
           F 0x58 8,
           F 0x5c 14,
           push_bit 26 (F 0xc8 1) OR push_bit 27 (F 0xcc 1) OR push_bit 28 (F 0xd0 1) OR push_bit 29 (F 0xd4 1) OR push_bit 4 (F 0xd8 3) OR F 0xdc 3 OR push_bit 16 (1),
           push_bit 16 (F 0x6c 8) OR push_bit 8 (F 0x70 8) OR F 0x74 8,
           V 0x7c 1 OR push_bit 1 (V 0x80 1) OR push_bit 2 (V 0x84 1) OR push_bit 3 (V 0x88 1) OR push_bit 4 (V 0x2e0 1) OR push_bit 5 (V 0x2e4 1) OR push_bit 6 (V 0x2e8 1) OR push_bit 7 (V 0x2ec 1) OR push_bit 8 (F 0x2f0 8) OR push_bit 16 (F 0x2f4 8),
           F 0x8c 8 OR push_bit 8 (asym) OR push_bit 16 (F 0x94 8) OR push_bit 24 (F 0x98 8),
           F 0x9c 13 OR push_bit 16 (F 0xa0 10),
           F 0xa4 12 OR push_bit 16 (F 0xa8 10),
           F 0xac 9,
           push_bit 24 (F 0xb0 8) OR push_bit 16 (F 0xb4 8) OR push_bit 8 (F 0xb8 8) OR F 0xbc 8,
           F 0xc0 8] @
           map (\<lambda>i. let base = 0xe0 + of_nat i * 16
                in push_bit 24 (F base 8) OR push_bit 16 (F (base + 4) 8) OR push_bit 8 (F (base + 8) 8) OR F (base + 12) 8)
             [0..<32])"

section \<open>Every register stays under its mask\<close>

lemma de3d_fits: "ladder_fits ar_isp_de3d_ladder"
  by (simp add: ladder_fits_def ar_isp_de3d_ladder_def)

lemma de3d_field_mask: "ar_isp_de3d_field blob band fr off w =
    ar_isp_ladder_read_word_f32 ar_isp_de3d_ladder blob AR_ISP_DE3D_BLOB_PAYLOAD band off fr AND mask w"
  unfolding ar_isp_de3d_field_def push_one_minus ..

lemma de3d_slope_mask: "\<exists>v. ar_isp_de3d_slope blob band fr hi lo = v AND mask 16"
  by (auto simp: ar_isp_de3d_slope_def Let_def mask_eq_exp_minus_1 intro: exI [of _ 0])

lemma bits_in_de3d:
  "(push_bit s (mask w) AND (NOT msk)) = 0 \<Longrightarrow> bits_in msk (push_bit s (ar_isp_de3d_field blob band fr off w))"
  "(mask w AND (NOT msk)) = 0 \<Longrightarrow> bits_in msk (ar_isp_de3d_field blob band fr off w)"
  "(push_bit s (mask 16) AND (NOT msk)) = 0 \<Longrightarrow> bits_in msk (push_bit s (ar_isp_de3d_slope blob band fr hi lo))"
  using bits_in_field bits_in_field0 de3d_slope_mask [of blob band fr hi lo] by (auto simp: de3d_field_mask)

lemma bits_in_byte: "(push_bit s 0xff AND (NOT msk)) = 0 \<Longrightarrow> bits_in msk (push_bit s (v AND 0xff))"
  using bits_in_field [of s 8 msk v] by (simp add: mask_eq_exp_minus_1)

lemma bits_in_const: "(c AND (NOT msk)) = 0 \<Longrightarrow> bits_in msk c"
  by (simp add: bits_in_def)

lemma de3d_length: "length (ar_isp_de3d_from_blob blob g) = 51"
  by (simp add: ar_isp_de3d_from_blob_def Let_def split: prod.split)

lemma de3d_masks: "map snd ar_isp_de3d_regs =
    [0xc, 0xffffffff, 0xffffffff, 0xffffffff, 0x3fff, 0x1ff00ff, 0x1ff, 0xffffffff, 0xff, 0x3fff, 0x3c010077, 0xffffff,
     0xffffff, 0xffffffff, 0x3ff1fff, 0x3ff0fff, 0x1ff, 0xffffffff, 0xff] @ replicate 32 0xffffffff"
  by (simp add: ar_isp_de3d_regs_def eval_nat_numeral)

lemma list_all2_replicate: "(\<And>x. P c x) \<Longrightarrow> length xs = n \<Longrightarrow> list_all2 P (replicate n c) xs"
  by (simp add: list_all2_conv_all_nth)

lemma de3d_bits_in: "list_all2 bits_in (map snd ar_isp_de3d_regs) (ar_isp_de3d_from_blob blob g)"
proof -
  obtain band fr where s: "ar_isp_ladder_select_f32 ar_isp_de3d_ladder blob g = (band, fr)" by fastforce
  show ?thesis
    unfolding de3d_masks ar_isp_de3d_from_blob_def s prod.case Let_def
  proof (rule list_all2_appendI)
    show "list_all2 bits_in (replicate 32 0xffffffff)
      (map (\<lambda>i. push_bit 24 (ar_isp_de3d_field blob band fr (0xe0 + of_nat i * 16) 8) OR
          push_bit 16 (ar_isp_de3d_field blob band fr (0xe0 + of_nat i * 16 + 4) 8) OR
          push_bit 8 (ar_isp_de3d_field blob band fr (0xe0 + of_nat i * 16 + 8) 8) OR
          ar_isp_de3d_field blob band fr (0xe0 + of_nat i * 16 + 12) 8) [0..<32])"
      by (rule list_all2_replicate) (simp_all only: bits_in_all length_map length_upt)
  qed ((rule list.rel_intros bits_in_all bits_in_or)
      | (rule bits_in_de3d, simp add: mask_eq_exp_minus_1) | (rule bits_in_byte, simp) | (rule bits_in_const, simp))+
qed

lemma de3d_field_word:
  assumes "ar_isp_ladder_select_f32 ar_isp_de3d_ladder blob g = (band, fr)"
  shows "ar_isp_de3d_field blob band fr off w = ladder_word ar_isp_de3d_ladder blob g off AND mask w"
  unfolding de3d_field_mask select_f32_band [OF de3d_fits assms] by (simp add: ar_isp_de3d_ladder_def)

lemma de3d_curve_reg:
  assumes "ar_isp_ladder_select_f32 ar_isp_de3d_ladder blob g = (band, fr)" "i < 32"
  shows "ar_isp_de3d_from_blob blob g ! (19 + i) =
    (let b = 0xe0 + of_nat i * 16; F = \<lambda>off. ladder_word ar_isp_de3d_ladder blob g off AND mask 8
     in push_bit 24 (F b) OR push_bit 16 (F (b + 4)) OR push_bit 8 (F (b + 8)) OR F (b + 12))"
  unfolding ar_isp_de3d_from_blob_def assms(1) prod.case Let_def nth_append
  using assms(2) by (simp add: de3d_field_word [OF assms(1)] del: upt_rec_numeral)

lemma de3d_curve_byte:
  assumes s: "ar_isp_ladder_select_f32 ar_isp_de3d_ladder blob g = (band, fr)" and i: "i < 32" and k: "k < 4"
  shows "get_field (24 - 8 * k) 8 (ar_isp_de3d_from_blob blob g ! (19 + i)) =
      ladder_word ar_isp_de3d_ladder blob g (0xe0 + of_nat i * 16 + of_nat (4 * k)) AND mask 8"
proof -
  define W where "W = ladder_word ar_isp_de3d_ladder blob g"
  have r: "ar_isp_de3d_from_blob blob g ! (19 + i) =
      (W (0xe0 + of_nat i * 16 + 12) AND mask 8) OR push_bit 8 (W (0xe0 + of_nat i * 16 + 8) AND mask 8) OR
      push_bit 16 (W (0xe0 + of_nat i * 16 + 4) AND mask 8) OR push_bit 24 (W (0xe0 + of_nat i * 16) AND mask 8)"
    unfolding de3d_curve_reg [OF s i] Let_def W_def by (rule four_bytes_down)
  have "k = 0 \<or> k = 1 \<or> k = 2 \<or> k = 3" using k by linarith
  then show ?thesis
    unfolding r W_def [symmetric] using four_bytes by (elim disjE) simp_all
qed

lemma de3d_asym:
  assumes s: "ar_isp_ladder_select_f32 ar_isp_de3d_ladder blob g = (band, fr)"
  shows "get_field 8 8 (ar_isp_de3d_from_blob blob g ! 13) = mask 8 AND
        (if frac_t fr = 0 then ar_isp_get_le32 blob (AR_ISP_DE3D_BLOB_PAYLOAD + unat (band * 0x2f8) + 0x90)
         else ar_isp_ladder_blend_f32
                (ar_isp_get_le32 blob (AR_ISP_DE3D_BLOB_PAYLOAD + unat ((band - 1) * 0x2f8) + 0x8c))
                (ar_isp_get_le32 blob (AR_ISP_DE3D_BLOB_PAYLOAD + unat (band * 0x2f8) + 0x90)) fr)"
proof -
  define A where "A = (if frac_t fr \<noteq> 0
         then ar_isp_ladder_blend_f32
                (ar_isp_get_le32 blob (AR_ISP_DE3D_BLOB_PAYLOAD + unat ((band - 1) * 0x2f8) + 0x8c))
                (ar_isp_get_le32 blob (AR_ISP_DE3D_BLOB_PAYLOAD + unat (band * 0x2f8) + 0x90)) fr
         else ar_isp_get_le32 blob (AR_ISP_DE3D_BLOB_PAYLOAD + unat (band * 0x2f8) + 0x90))"
  have c: "(0xff :: u32) = mask 8" by (simp add: mask_eq_exp_minus_1)
  have "\<exists>a c d. ar_isp_de3d_from_blob blob g ! 13 =
      (a AND mask 8) OR push_bit 8 (A AND mask 8) OR push_bit 16 (c AND mask 8) OR push_bit 24 (d AND mask 8)"
    unfolding ar_isp_de3d_from_blob_def s prod.case Let_def A_def [symmetric] de3d_field_mask c
    by (simp only: nth_append length_Cons list.size nth_Cons_numeral nth_Cons' ) (simp, blast)
  then obtain a c d where e: "ar_isp_de3d_from_blob blob g ! 13 =
      (a AND mask 8) OR push_bit 8 (A AND mask 8) OR push_bit 16 (c AND mask 8) OR push_bit 24 (d AND mask 8)" by blast
  have "get_field 8 8 (ar_isp_de3d_from_blob blob g ! 13) = A AND mask 8" unfolding e by (rule four_bytes(2))
  then show ?thesis by (cases "frac_t fr = 0") (simp_all add: A_def and.commute)
qed

text \<open>Each of the fifty-one de3d registers sets only bits under its own mask, so the apply path
  loses none and disturbs no neighbour; the curve registers carry the four bytes of their four
  payload words; and register 13 carries the record's one asymmetric field, the lower record's
  0x8c blended into the upper record's 0x90.\<close>

theorem de3d_registers_under_masks:
  "length (ar_isp_de3d_from_blob blob g) = length ar_isp_de3d_regs \<and>
   (i < 51 \<longrightarrow> (ar_isp_de3d_from_blob blob g ! i AND (NOT (snd (ar_isp_de3d_regs ! i)))) = 0) \<and>
   (i < 32 \<longrightarrow> k < 4 \<longrightarrow> get_field (24 - 8 * k) 8 (ar_isp_de3d_from_blob blob g ! (19 + i)) =
      ladder_word ar_isp_de3d_ladder blob g (0xe0 + of_nat i * 16 + of_nat (4 * k)) AND mask 8) \<and>
   (ar_isp_ladder_select_f32 ar_isp_de3d_ladder blob g = (band, fr) \<longrightarrow>
      get_field 8 8 (ar_isp_de3d_from_blob blob g ! 13) = mask 8 AND
        (if frac_t fr = 0 then ar_isp_get_le32 blob (AR_ISP_DE3D_BLOB_PAYLOAD + unat (band * 0x2f8) + 0x90)
         else ar_isp_ladder_blend_f32
                (ar_isp_get_le32 blob (AR_ISP_DE3D_BLOB_PAYLOAD + unat ((band - 1) * 0x2f8) + 0x8c))
                (ar_isp_get_le32 blob (AR_ISP_DE3D_BLOB_PAYLOAD + unat (band * 0x2f8) + 0x90)) fr))"
proof (intro conjI impI)
  show len: "length (ar_isp_de3d_from_blob blob g) = length ar_isp_de3d_regs"
    using list_all2_lengthD [OF de3d_bits_in] by simp
  show "(ar_isp_de3d_from_blob blob g ! i AND (NOT (snd (ar_isp_de3d_regs ! i)))) = 0" if "i < 51"
    using list_all2_nthD2 [OF de3d_bits_in, of i blob g] that len by (simp add: de3d_length bits_in_def)
next
  assume i: "i < 32" and k: "k < 4"
  obtain band fr where s: "ar_isp_ladder_select_f32 ar_isp_de3d_ladder blob g = (band, fr)" by fastforce
  show "get_field (24 - 8 * k) 8 (ar_isp_de3d_from_blob blob g ! (19 + i)) =
      ladder_word ar_isp_de3d_ladder blob g (0xe0 + of_nat i * 16 + of_nat (4 * k)) AND mask 8"
    by (rule de3d_curve_byte [OF s i k])
qed (rule de3d_asym)

theorem de3d_registers_under_masks_witness:
  "(ar_isp_de3d_from_blob (\<lambda>_. 1) 0x10000 ! 5 AND (NOT (snd (ar_isp_de3d_regs ! 5)))) = 0"
  using de3d_registers_under_masks [where blob = "\<lambda>_. 1" and g = "0x10000" and i = 5, THEN conjunct2, THEN conjunct1]
  by simp

section \<open>Reads stay in the file\<close>

lemma de3d_read_agree:
  assumes ag: "agree AR_ISP_TUNING_SIZE m m'" and b: "unat band < 0xc" and fr: "frac_t fr \<noteq> 0 \<Longrightarrow> 0 < band"
    and off: "unat off + 4 \<le> 0x2f8"
  shows "ar_isp_ladder_read_word_f32 ar_isp_de3d_ladder m AR_ISP_DE3D_BLOB_PAYLOAD band off fr =
    ar_isp_ladder_read_word_f32 ar_isp_de3d_ladder m' AR_ISP_DE3D_BLOB_PAYLOAD band off fr"
  using read_word_agree(2) [OF de3d_fits ag, of band off fr] b fr off by (simp add: ar_isp_de3d_ladder_def)

lemma de3d_agree:
  assumes ag: "agree AR_ISP_TUNING_SIZE m m'"
  shows "ar_isp_de3d_from_blob m g = ar_isp_de3d_from_blob m' g"
proof -
  obtain band fr where s': "ar_isp_ladder_select_f32 ar_isp_de3d_ladder m' g = (band, fr)" by fastforce
  then have s: "ar_isp_ladder_select_f32 ar_isp_de3d_ladder m g = (band, fr)"
    using select_agree(2) [OF de3d_fits ag] by simp
  have b: "unat band < 0xc" and fr: "frac_t fr \<noteq> 0 \<Longrightarrow> 0 < band"
    using select_f32_cases [OF de3d_fits s] by (simp_all add: ar_isp_de3d_ladder_def)
  note read = de3d_read_agree [OF ag b]
  have F: "ar_isp_de3d_field m band fr off w = ar_isp_de3d_field m' band fr off w"
    and V: "ar_isp_de3d_field m band ar_isp_de3d_verbatim off w = ar_isp_de3d_field m' band ar_isp_de3d_verbatim off w"
    if "unat off + 4 \<le> 0x2f8" for off w
    unfolding ar_isp_de3d_field_def using read [of fr off] read [of ar_isp_de3d_verbatim off] fr that
    by (simp_all add: ar_isp_de3d_verbatim_def)
  have S: "ar_isp_de3d_slope m band fr hi lo = ar_isp_de3d_slope m' band fr hi lo"
    if "unat hi + 4 \<le> 0x2f8" "unat lo + 4 \<le> 0x2f8" for hi lo
    unfolding ar_isp_de3d_slope_def using read [of fr hi] read [of fr lo] fr that by simp
  have pay: "unat (lad_payload ar_isp_de3d_ladder) = AR_ISP_DE3D_BLOB_PAYLOAD" "lad_stride ar_isp_de3d_ladder = 0x2f8"
    "unat (lad_max_bands ar_isp_de3d_ladder) = 0xc" by (simp_all add: ar_isp_de3d_ladder_def)
  have A: "ar_isp_get_le32 m (AR_ISP_DE3D_BLOB_PAYLOAD + unat (band * 0x2f8) + 0x90) =
      ar_isp_get_le32 m' (AR_ISP_DE3D_BLOB_PAYLOAD + unat (band * 0x2f8) + 0x90)"
    using payload_agree [OF de3d_fits ag, of band "0x90"] b by (simp add: pay)
  have A': "frac_t fr \<noteq> 0 \<Longrightarrow> ar_isp_get_le32 m (AR_ISP_DE3D_BLOB_PAYLOAD + unat ((band - 1) * 0x2f8) + 0x8c) =
      ar_isp_get_le32 m' (AR_ISP_DE3D_BLOB_PAYLOAD + unat ((band - 1) * 0x2f8) + 0x8c)"
    using payload_agree [OF de3d_fits ag, of "band - 1" "0x8c"] prev_band [OF b fr] by (simp only: pay) simp
  have curve: "unat (0xe0 + of_nat i * 16 + c :: u32) + 4 \<le> 0x2f8" if "i < 32" "unat c \<le> 12" for i c
  proof -
    define k where "k = 0xe0 + i * 16"
    have k: "k < 2 ^ LENGTH(32)" using that by (simp add: k_def)
    have e: "(0xe0 + of_nat i * 16 :: u32) = of_nat k" by (simp add: k_def)
    have "unat (0xe0 + of_nat i * 16 :: u32) = 0xe0 + i * 16"
      unfolding e unat_of_nat_small [OF k] by (simp add: k_def)
    then show ?thesis using that by (subst unat_add_small) simp_all
  qed
  have asym: "(if frac_t fr \<noteq> 0
         then ar_isp_ladder_blend_f32
                (ar_isp_get_le32 m (AR_ISP_DE3D_BLOB_PAYLOAD + unat ((band - 1) * 0x2f8) + 0x8c))
                (ar_isp_get_le32 m (AR_ISP_DE3D_BLOB_PAYLOAD + unat (band * 0x2f8) + 0x90)) fr
         else ar_isp_get_le32 m (AR_ISP_DE3D_BLOB_PAYLOAD + unat (band * 0x2f8) + 0x90)) =
       (if frac_t fr \<noteq> 0
         then ar_isp_ladder_blend_f32
                (ar_isp_get_le32 m' (AR_ISP_DE3D_BLOB_PAYLOAD + unat ((band - 1) * 0x2f8) + 0x8c))
                (ar_isp_get_le32 m' (AR_ISP_DE3D_BLOB_PAYLOAD + unat (band * 0x2f8) + 0x90)) fr
         else ar_isp_get_le32 m' (AR_ISP_DE3D_BLOB_PAYLOAD + unat (band * 0x2f8) + 0x90))"
    unfolding A using A' by (intro if_cong refl arg_cong [where f = "\<lambda>x. ar_isp_ladder_blend_f32 x _ fr"])
  show ?thesis
    unfolding ar_isp_de3d_from_blob_def s s' prod.case Let_def asym
  proof (rule arg_cong2 [where f = append])
    show "map (\<lambda>i. push_bit 24 (ar_isp_de3d_field m band fr (0xe0 + of_nat i * 16) 8) OR
          push_bit 16 (ar_isp_de3d_field m band fr (0xe0 + of_nat i * 16 + 4) 8) OR
          push_bit 8 (ar_isp_de3d_field m band fr (0xe0 + of_nat i * 16 + 8) 8) OR
          ar_isp_de3d_field m band fr (0xe0 + of_nat i * 16 + 12) 8) [0..<32] =
        map (\<lambda>i. push_bit 24 (ar_isp_de3d_field m' band fr (0xe0 + of_nat i * 16) 8) OR
          push_bit 16 (ar_isp_de3d_field m' band fr (0xe0 + of_nat i * 16 + 4) 8) OR
          push_bit 8 (ar_isp_de3d_field m' band fr (0xe0 + of_nat i * 16 + 8) 8) OR
          ar_isp_de3d_field m' band fr (0xe0 + of_nat i * 16 + 12) 8) [0..<32]"
    proof (rule map_cong [OF refl])
      fix i assume "i \<in> set [0..<32 :: nat]"
      then have i: "i < 32" by (simp only: set_upt atLeastLessThan_iff)
      have "unat (0xe0 + of_nat i * 16 :: u32) + 4 \<le> 0x2f8" using curve [OF i, of 0] by simp
      moreover have "unat (0xe0 + of_nat i * 16 + 4 :: u32) + 4 \<le> 0x2f8" "unat (0xe0 + of_nat i * 16 + 8 :: u32) + 4 \<le> 0x2f8"
        "unat (0xe0 + of_nat i * 16 + 12 :: u32) + 4 \<le> 0x2f8" by (rule curve [OF i]; simp)+
      ultimately show "push_bit 24 (ar_isp_de3d_field m band fr (0xe0 + of_nat i * 16) 8) OR
          push_bit 16 (ar_isp_de3d_field m band fr (0xe0 + of_nat i * 16 + 4) 8) OR
          push_bit 8 (ar_isp_de3d_field m band fr (0xe0 + of_nat i * 16 + 8) 8) OR
          ar_isp_de3d_field m band fr (0xe0 + of_nat i * 16 + 12) 8 =
        push_bit 24 (ar_isp_de3d_field m' band fr (0xe0 + of_nat i * 16) 8) OR
          push_bit 16 (ar_isp_de3d_field m' band fr (0xe0 + of_nat i * 16 + 4) 8) OR
          push_bit 8 (ar_isp_de3d_field m' band fr (0xe0 + of_nat i * 16 + 8) 8) OR
          ar_isp_de3d_field m' band fr (0xe0 + of_nat i * 16 + 12) 8"
        by (simp only: F)
    qed
  qed (simp add: F V S)
qed

section \<open>The user strength\<close>

definition strength_num :: "int \<Rightarrow> int \<Rightarrow> int \<Rightarrow> int" where
  "strength_num v p c = (if p < 50 then p * v else 50 * c - (100 - p) * (c - v))"

lemma strength_num_mono:
  assumes "0 \<le> v" "v \<le> c" "p \<le> q" shows "strength_num v p c \<le> strength_num v q c"
proof -
  have "p * v \<le> q * v" using assms by (simp add: mult_right_mono)
  moreover have "(100 - q) * (c - v) \<le> (100 - p) * (c - v)" using assms by (intro mult_right_mono) simp_all
  moreover have "p * v \<le> 50 * v" if "p < 50" using that assms by (intro mult_right_mono) simp_all
  moreover have "(100 - q) * (c - v) \<le> 50 * (c - v)" if "50 \<le> q" using that assms by (intro mult_right_mono) simp_all
  ultimately show ?thesis using assms by (auto simp: strength_num_def algebra_simps)
qed

lemma strength_num_range:
  assumes "0 \<le> v" "v \<le> c" "0 \<le> p" "p \<le> 100" shows "0 \<le> strength_num v p c" "strength_num v p c \<le> 50 * c"
  using strength_num_mono [OF assms(1,2,3)] strength_num_mono [OF assms(1,2,4)] by (simp_all add: strength_num_def)

lemma strength_value:
  assumes "v \<le> cl" "0 \<le> p" "p \<le> 100"
  shows "uint (ar_isp_de3d_strength v p cl) = strength_num (uint v) p (uint cl) div 50"
proof -
  have le: "uint v \<le> uint cl" using assms(1) by (simp add: word_le_def)
  note R = strength_num_range [OF uint_ge_0 le assms(2,3)]
  have "strength_num (uint v) p (uint cl) div 50 \<le> (50 * uint cl) div 50" by (rule zdiv_mono1 [OF R(2)]) simp
  then have b: "0 \<le> strength_num (uint v) p (uint cl) div 50" "strength_num (uint v) p (uint cl) div 50 < 2 ^ 32"
    using R(1) uint_lt2p [of cl] by (simp_all add: pos_imp_zdiv_nonneg_iff)
  show ?thesis
  proof (cases "p = 50")
    case True
    then show ?thesis by (simp add: ar_isp_de3d_strength_def strength_num_def)
  next
    case False
    then have "ar_isp_de3d_strength v p cl = word_of_int (strength_num (uint v) p (uint cl) div 50)"
      using R(1) by (simp add: ar_isp_de3d_strength_def strength_num_def c_div_pos Let_def split: if_splits)
    then show ?thesis using b by (simp add: uint_word_of_int)
  qed
qed

text \<open>The user strength law on the scale 0 to 100: it is the identity at 50, 0 at 0, the ceiling
  at 100, never exceeds the ceiling, and never decreases when the strength grows.\<close>

theorem de3d_strength_law:
  assumes "v \<le> cl" and "0 \<le> p" "p \<le> q" "q \<le> 100"
  shows "ar_isp_de3d_strength v 50 cl = v \<and> ar_isp_de3d_strength v 0 cl = 0 \<and> ar_isp_de3d_strength v 100 cl = cl \<and>
    ar_isp_de3d_strength v p cl \<le> ar_isp_de3d_strength v q cl \<and> ar_isp_de3d_strength v q cl \<le> cl"
proof -
  have le: "0 \<le> uint v" "uint v \<le> uint cl" using assms(1) by (simp_all add: word_le_def)
  have val: "uint (ar_isp_de3d_strength v r cl) = strength_num (uint v) r (uint cl) div 50" if "0 \<le> r" "r \<le> 100" for r
    by (rule strength_value [OF assms(1) that])
  have mono: "ar_isp_de3d_strength v r cl \<le> ar_isp_de3d_strength v s cl" if "0 \<le> r" "r \<le> s" "s \<le> 100" for r s
    unfolding word_le_def using that by (simp add: val zdiv_mono1 [OF strength_num_mono [OF le]])
  have z: "uint (ar_isp_de3d_strength v 0 cl) = 0" and f: "uint (ar_isp_de3d_strength v 100 cl) = uint cl"
    by (simp_all add: val strength_num_def)
  have ends: "ar_isp_de3d_strength v 0 cl = 0" "ar_isp_de3d_strength v 100 cl = cl"
    by (simp_all only: word_uint_eq_iff z f unsigned_0)
  have "ar_isp_de3d_strength v q cl \<le> ar_isp_de3d_strength v 100 cl" using assms(2-4) by (intro mono) simp_all
  then show ?thesis using ends mono [OF assms(2-4)] by (simp add: ar_isp_de3d_strength_def)
qed

theorem de3d_strength_law_witness: "ar_isp_de3d_strength 60 20 200 \<le> ar_isp_de3d_strength 60 80 200"
  using de3d_strength_law [of 60 200 20 80] by simp

end
