(* ===== verification/Isp_De3d_Geom.thy ===== *)
theory Isp_De3d_Geom
  imports Isp_Fields
begin

text \<open>
  \<open>ar-isp-de3d-geom.h\<close>: the thirteen de3d registers computed from the frame geometry and the
  sensor line length, in 32-bit unsigned arithmetic.
\<close>

section \<open>Definitions\<close>

definition AR_ISP_DE3D_CEIL :: "u32 \<Rightarrow> u32 \<Rightarrow> u32" where
  "AR_ISP_DE3D_CEIL a b = (a + b - 1) div b"

definition AR_ISP_DE3D_ALIGN256 :: "u32 \<Rightarrow> u32" where
  "AR_ISP_DE3D_ALIGN256 v = (v + 0xff) AND (NOT 0xff)"

text \<open>Bank offset and mask of each register.\<close>

definition ar_isp_de3d_geom_regs :: "(nat \<times> u32) list" where
  "ar_isp_de3d_geom_regs =
     [(0x24, 0x9fff0000), (0x38, 0x1001ffff), (0x40, 0x8011ffff), (0x48, 0x1fff1fff), (0x54, 0xffff0f07),
      (0x5c, 0xffffffff), (0x64, 0xffffffff), (0x68, 0x0000003f), (0x74, 0x00003f01), (0x78, 0x80f00000),
      (0x7c, 0x00000001), (0x84, 0xffffffff), (0x8c, 0xffffffff)]"

definition ar_isp_de3d_geom_pack :: "u32 \<Rightarrow> u32 \<Rightarrow> u32 \<Rightarrow> u32 \<Rightarrow> u32 list" where
  "ar_isp_de3d_geom_pack width height hts mode =
     (let tiles = AR_ISP_DE3D_CEIL width 20;
          stride = AR_ISP_DE3D_ALIGN256 (tiles * 16);
          stride2 = AR_ISP_DE3D_ALIGN256 (AR_ISP_DE3D_CEIL width 8);
          blank = hts - width;
          delay = blank + (blank * 5) div 100 + 200;
          blocks = AR_ISP_DE3D_CEIL width 16
      in [push_bit 16 delay,
          push_bit 28 1 OR push_bit 16 1 OR (stride AND 0xffff),
          push_bit 31 1 OR push_bit 20 1 OR push_bit 16 1 OR (stride AND 0xffff),
          push_bit 16 delay OR 50,
          push_bit 24 (blocks - 1) OR push_bit 16 (width div 2 - 7 * blocks - 1) OR 4,
          stride,
          stride,
          AR_ISP_DE3D_CEIL width 320,
          push_bit 8 ((20 - width mod 20) mod 20),
          push_bit 31 1 OR push_bit 23 1,
          mode AND 1,
          stride2,
          stride2])"

section \<open>Values\<close>

lemma ceil_value: "0 < unat b \<Longrightarrow> unat a + unat b < 2 ^ 32 \<Longrightarrow> unat (AR_ISP_DE3D_CEIL a b) = (unat a + unat b - 1) div unat b"
proof -
  assume h: "0 < unat b" "unat a + unat b < 2 ^ 32"
  have s: "unat (a + b) = unat a + unat b" using h(2) by (intro unat_add_small) simp
  then have "unat (a + b - 1) = unat a + unat b - 1" using h(1) by (subst unat_pred) (simp_all add: word_less_nat_alt)
  then show ?thesis by (simp add: AR_ISP_DE3D_CEIL_def unat_div_distrib)
qed

lemma align256_value: "unat v + 255 < 2 ^ 32 \<Longrightarrow> unat (AR_ISP_DE3D_ALIGN256 v) = align_up (unat v) 256"
proof -
  assume "unat v + 255 < 2 ^ 32"
  then have s: "unat (v + 0xff) = unat v + 255" by (subst unat_add_small) simp_all
  define x where "x = v + 0xff"
  have "AR_ISP_DE3D_ALIGN256 v = x AND (NOT (mask 8))" by (simp add: AR_ISP_DE3D_ALIGN256_def x_def mask_eq_exp_minus_1)
  also have "\<dots> = push_bit 8 (drop_bit 8 x)" by (intro bit_word_eqI) (auto simp: bit_simps)
  also have "unat \<dots> = (unat v + 255) div 256 * 256"
    using unat_less_length [of x] s by (simp add: c_arith x_def)
  finally show ?thesis by (simp add: align_up_def)
qed

lemma bits_in_small: "unat v < 2 ^ w \<Longrightarrow> (push_bit s (mask w) AND (NOT msk)) = 0 \<Longrightarrow> bits_in msk (push_bit s v)"
  using bits_in_field [of s w msk v] by (simp add: and_mask_small)

text \<open>For a padded width of 129 to 4096 pixels and a line length not below it, every one of the
  thirteen registers sets only bits under its own mask, the two strides are the least multiples of
  256 that hold the line's tiles (sixteen bytes per 20 pixels) and its blocks of eight, and the
  line delay is the blanking with its five percent and 200 added.  At 1928 pixels and a line
  length of 2200 the registers are the vendor's.\<close>

theorem de3d_geometry_registers:
  assumes "129 \<le> unat width" "unat width \<le> 4096" and "unat width \<le> unat hts" "unat hts \<le> 7000"
  shows "list_all2 (\<lambda>r v. (v AND (NOT (snd r))) = 0) ar_isp_de3d_geom_regs (ar_isp_de3d_geom_pack width height hts mode) \<and>
    unat (ar_isp_de3d_geom_pack width height hts mode ! 5) = align_up (16 * ((unat width + 19) div 20)) 256 \<and>
    unat (ar_isp_de3d_geom_pack width height hts mode ! 11) = align_up ((unat width + 7) div 8) 256 \<and>
    unat (drop_bit 16 (ar_isp_de3d_geom_pack width height hts mode ! 0)) =
      (unat hts - unat width) + (unat hts - unat width) * 5 div 100 + 200 \<and>
    ar_isp_de3d_geom_pack 1928 1080 2200 1 =
      [0x01e50000, 0x10010700, 0x80110700, 0x01e50032, 0x78740004, 0x700, 0x700, 7, 0xc00, 0x80800000, 1, 0x100, 0x100]"
proof -
  define w where "w = unat width"
  have w: "129 \<le> w" "w \<le> 4096" using assms by (simp_all add: w_def)
  define blank where "blank = hts - width"
  have bl: "unat blank = unat hts - w" using assms(3) by (simp add: blank_def w_def unat_le_minus)
  define delay where "delay = blank + (blank * 5) div 100 + 200"
  have b5: "unat (blank * 5) = unat blank * 5" using bl assms by (subst unat_mult_small) simp_all
  have dsum: "unat blank + unat blank * 5 div 100 \<le> 7000 + 350" using bl assms(4) by simp
  have q: "unat (blank * 5 div 100) = unat blank * 5 div 100" by (simp add: unat_div_distrib b5)
  have s1: "unat (blank + blank * 5 div 100) = unat blank + unat blank * 5 div 100"
    using dsum by (subst unat_add_small) (simp_all add: q)
  have delay: "unat delay = unat blank + unat blank * 5 div 100 + 200"
    unfolding delay_def using dsum by (subst unat_add_small) (simp_all add: s1)
  then have dlt: "unat delay < 2 ^ 13" using dsum by simp
  have tiles: "unat (AR_ISP_DE3D_CEIL width 20) = (w + 19) div 20"
    using w by (subst ceil_value) (simp_all add: w_def)
  define blocks where "blocks = AR_ISP_DE3D_CEIL width 16"
  have blocks: "unat blocks = (w + 15) div 16"
    using w unfolding blocks_def by (subst ceil_value) (simp_all add: w_def)
  have t16: "unat (AR_ISP_DE3D_CEIL width 20 * 16) = 16 * ((w + 19) div 20)"
    using w by (subst unat_mult_small) (simp_all add: tiles)
  have stride: "unat (AR_ISP_DE3D_ALIGN256 (AR_ISP_DE3D_CEIL width 20 * 16)) = align_up (16 * ((w + 19) div 20)) 256"
    using w by (subst align256_value) (simp_all add: t16)
  have c8: "unat (AR_ISP_DE3D_CEIL width 8) = (w + 7) div 8" using w by (subst ceil_value) (simp_all add: w_def)
  have stride2: "unat (AR_ISP_DE3D_ALIGN256 (AR_ISP_DE3D_CEIL width 8)) = align_up ((w + 7) div 8) 256"
    using w by (subst align256_value) (simp_all add: c8)
  have b1: "unat (blocks - 1) < 2 ^ 8" using w blocks by (subst unat_pred) (simp_all add: word_less_nat_alt)
  define resid where "resid = width div 2 - 7 * blocks - 1"
  have half: "unat (width div 2) = w div 2" by (simp add: unat_div_distrib w_def)
  have seven: "unat (7 * blocks) = 7 * ((w + 15) div 16)" using w blocks by (subst unat_mult_small) simp_all
  have le7: "7 * ((w + 15) div 16) + 1 \<le> w div 2" "w div 2 - 7 * ((w + 15) div 16) - 1 < 256"
  proof -
    define q where "q = (w + 15) div 16"
    define h where "h = w div 2"
    have "16 * q \<le> w + 15" "w \<le> 16 * q" "w \<le> 2 * h + 1" "2 * h \<le> w" unfolding q_def h_def by linarith+
    then have "7 * q + 1 \<le> h" "h - 7 * q - 1 < 256" using w by linarith+
    then show "7 * ((w + 15) div 16) + 1 \<le> w div 2" "w div 2 - 7 * ((w + 15) div 16) - 1 < 256"
      by (simp_all add: q_def h_def)
  qed
  have "unat (width div 2 - 7 * blocks) = w div 2 - 7 * ((w + 15) div 16)"
    using le7 by (subst unat_le_minus) (simp_all add: half seven)
  then have "unat resid = w div 2 - 7 * ((w + 15) div 16) - 1"
    unfolding resid_def using le7(1) by (subst unat_pred) (simp_all add: word_less_nat_alt)
  then have r1: "unat resid < 2 ^ 8" using le7(2) by simp
  have c320: "unat (AR_ISP_DE3D_CEIL width 320) < 2 ^ 6" using w by (subst ceil_value) (simp_all add: w_def)
  have pad: "unat ((20 - width mod 20) mod 20) < 2 ^ 5"
    using mod_less_divisor [of 20 "unat (20 - width mod 20)"] by (simp add: unat_mod_distrib)
  define stride16 where "stride16 = AR_ISP_DE3D_ALIGN256 (AR_ISP_DE3D_CEIL width 20 * 16)"
  define str2 where "str2 = AR_ISP_DE3D_ALIGN256 (AR_ISP_DE3D_CEIL width 8)"
  have pack: "ar_isp_de3d_geom_pack width height hts mode =
      [push_bit 16 delay, push_bit 28 1 OR push_bit 16 1 OR (stride16 AND 0xffff),
       push_bit 31 1 OR push_bit 20 1 OR push_bit 16 1 OR (stride16 AND 0xffff), push_bit 16 delay OR 50,
       push_bit 24 (blocks - 1) OR push_bit 16 resid OR 4, stride16, stride16, AR_ISP_DE3D_CEIL width 320,
       push_bit 8 ((20 - width mod 20) mod 20), push_bit 31 1 OR push_bit 23 1, mode AND 1, str2, str2]"
    unfolding ar_isp_de3d_geom_pack_def Let_def delay_def resid_def blocks_def blank_def stride16_def str2_def ..
  have const: "(c AND (NOT msk)) = 0 \<Longrightarrow> bits_in msk c" for c msk :: u32 by (simp add: bits_in_def)
  have st: "bits_in msk (v AND 0xffff)" if "(0xffff AND (NOT msk)) = 0" for v msk :: u32
    using bits_in_field0 [of 16 msk v] that by (simp add: mask_eq_exp_minus_1)
  have all: "bits_in 0xffffffff v" for v by (rule bits_in_all)
  have "list_all2 bits_in (map snd ar_isp_de3d_geom_regs) (ar_isp_de3d_geom_pack width height hts mode)"
    unfolding pack ar_isp_de3d_geom_regs_def list.map snd_conv
  proof (intro list.rel_intros)
    show "bits_in 0x9fff0000 (push_bit 16 delay)" by (rule bits_in_small [OF dlt]) (simp add: mask_eq_exp_minus_1)
    show "bits_in 0x1001ffff (push_bit 28 1 OR push_bit 16 1 OR (stride16 AND 0xffff))"
      by (intro bits_in_or st const) simp_all
    show "bits_in 0x8011ffff (push_bit 31 1 OR push_bit 20 1 OR push_bit 16 1 OR (stride16 AND 0xffff))"
      by (intro bits_in_or st const) simp_all
    show "bits_in 0x1fff1fff (push_bit 16 delay OR 50)"
      by (intro bits_in_or bits_in_small [OF dlt] const) (simp_all add: mask_eq_exp_minus_1)
    show "bits_in 0xffff0f07 (push_bit 24 (blocks - 1) OR push_bit 16 resid OR 4)"
      by (intro bits_in_or bits_in_small [OF b1] bits_in_small [OF r1] const) (simp_all add: mask_eq_exp_minus_1)
    show "bits_in 0x3f (AR_ISP_DE3D_CEIL width 320)"
      using bits_in_small [OF c320, of 0 "0x3f"] by (simp add: mask_eq_exp_minus_1)
    show "bits_in 0x3f01 (push_bit 8 ((20 - width mod 20) mod 20))"
      by (rule bits_in_small [OF pad]) (simp add: mask_eq_exp_minus_1)
    show "bits_in 0x80f00000 (push_bit 31 1 OR push_bit 23 1)" by (rule const) simp
    have "mode AND 1 = mode AND mask 1" by simp
    then show "bits_in 1 (mode AND 1)" using bits_in_field0 [of 1 1 mode] by simp
  qed (rule all)+
  then have "list_all2 (\<lambda>r v. (v AND (NOT (snd r))) = 0) ar_isp_de3d_geom_regs (ar_isp_de3d_geom_pack width height hts mode)"
    by (simp only: list_all2_map1 bits_in_def)
  moreover have "drop_bit 16 (push_bit 16 delay) = delay"
    by (rule bit_word_eqI) (use high_bit_less [OF dlt] in \<open>fastforce simp: bit_simps\<close>)
  then have "unat (drop_bit 16 (ar_isp_de3d_geom_pack width height hts mode ! 0)) = unat delay" by (simp add: pack)
  moreover have "ar_isp_de3d_geom_pack 1928 1080 2200 1 =
      [0x01e50000, 0x10010700, 0x80110700, 0x01e50032, 0x78740004, 0x700, 0x700, 7, 0xc00, 0x80800000, 1, 0x100, 0x100]"
    by (simp add: ar_isp_de3d_geom_pack_def Let_def AR_ISP_DE3D_CEIL_def AR_ISP_DE3D_ALIGN256_def)
  ultimately show ?thesis using stride stride2 delay bl by (simp add: pack w_def stride16_def str2_def)
qed

theorem de3d_geometry_registers_witness:
  "unat (ar_isp_de3d_geom_pack 1928 1080 2200 1 ! 5) = align_up (16 * ((1928 + 19) div 20)) 256"
  using de3d_geometry_registers [of 1928 2200 1080 1] by (simp add: align_up_def)

end
