(* ===== verification/Isp_Cfa.thy ===== *)
theory Isp_Cfa
  imports Isp_Fields
begin

text \<open>
  \<open>ar-isp-cfa.h\<close>: forty-one registers fed by the forty-one words of the selected record, in four
  runs; two words take a blend operand from another word of the record.
\<close>

section \<open>Definitions\<close>

definition ar_isp_cfa_ladder :: ar_isp_ladder where
  "ar_isp_cfa_ladder = \<lparr>lad_hdr = 0x24548, lad_bands = 0x24558, lad_payload = 0x245d8, lad_stride = 0xa4,
     lad_count_off = 0x8, lad_max_bands = 0x5\<rparr>"

text \<open>\<open>struct ar_isp_cfa_run\<close>: register offset, word offset, count.\<close>

record ar_isp_cfa_run =
  cfa_reg :: nat
  cfa_word :: nat
  cfa_count :: nat

definition ar_isp_cfa_runs :: "ar_isp_cfa_run list" where
  "ar_isp_cfa_runs =
     [\<lparr>cfa_reg = 0x00, cfa_word = 0x00, cfa_count = 4\<rparr>,
      \<lparr>cfa_reg = 0x3c, cfa_word = 0x10, cfa_count = 7\<rparr>,
      \<lparr>cfa_reg = 0x5c, cfa_word = 0x2c, cfa_count = 19\<rparr>,
      \<lparr>cfa_reg = 0xac, cfa_word = 0x78, cfa_count = 11\<rparr>]"

definition ar_isp_cfa_low_source :: "nat \<Rightarrow> nat" where
  "ar_isp_cfa_low_source word = (if word = 6 then 4 else if word = 28 then 26 else word)"

definition ar_isp_cfa_high_source :: "nat \<Rightarrow> nat" where
  "ar_isp_cfa_high_source word = (if word = 28 then 26 else word)"

definition ar_isp_cfa_word :: "mem \<Rightarrow> u32 \<Rightarrow> nat \<Rightarrow> ar_isp_ladder_frac \<Rightarrow> u32" where
  "ar_isp_cfa_word blob band word fr =
     (if frac_t fr = 0 then ar_isp_get_le32 blob (0x245d8 + unat (band * 0xa4) + word * 4)
      else let lo = ar_f32_from_s32 (ar_isp_get_le32 blob
                      (0x245d8 + unat ((band - 1) * 0xa4) + ar_isp_cfa_low_source word * 4));
               hi = ar_f32_from_s32 (ar_isp_get_le32 blob
                      (0x245d8 + unat (band * 0xa4) + ar_isp_cfa_high_source word * 4))
           in ar_f32_to_s32_trunc (ar_f32_fma (frac_omt fr) lo (ar_f32_mul (frac_t fr) hi)))"

definition ar_isp_cfa_from_blob :: "mem \<Rightarrow> u32 \<Rightarrow> u32 list" where
  "ar_isp_cfa_from_blob blob gain_q16 =
     (case ar_isp_ladder_select_f32 ar_isp_cfa_ladder blob gain_q16 of (band, fr) \<Rightarrow>
        concat (map (\<lambda>run. map (\<lambda>k. ar_isp_cfa_word blob band (cfa_word run div 4 + k) fr) [0..<cfa_count run])
          ar_isp_cfa_runs))"

section \<open>The record in the bank\<close>

lemma cfa_fits: "ladder_fits ar_isp_cfa_ladder"
  by (simp add: ladder_fits_def ar_isp_cfa_ladder_def)

lemma cfa_run_words: "concat (map (\<lambda>run. map (\<lambda>k. cfa_word run div 4 + k) [0..<cfa_count run]) ar_isp_cfa_runs) = [0..<41]"
  by (simp add: ar_isp_cfa_runs_def upt_conv_Cons)

lemma cfa_from_blob_words:
  assumes "ar_isp_ladder_select_f32 ar_isp_cfa_ladder blob g = (band, fr)"
  shows "ar_isp_cfa_from_blob blob g = map (\<lambda>k. ar_isp_cfa_word blob band k fr) [0..<41]"
proof -
  have "ar_isp_cfa_from_blob blob g =
      map (\<lambda>k. ar_isp_cfa_word blob band k fr)
        (concat (map (\<lambda>run. map (\<lambda>k. cfa_word run div 4 + k) [0..<cfa_count run]) ar_isp_cfa_runs))"
    by (simp add: ar_isp_cfa_from_blob_def assms map_concat comp_def)
  then show ?thesis by (simp only: cfa_run_words)
qed

lemma cfa_plain_word:
  assumes s: "ar_isp_ladder_select_f32 ar_isp_cfa_ladder blob g = (band, fr)" and k: "k < 41" "k \<noteq> 6" "k \<noteq> 28"
  shows "ar_isp_cfa_word blob band k fr = ladder_word ar_isp_cfa_ladder blob g (of_nat (k * 4))"
proof -
  have u: "unat (of_nat (k * 4) :: u32) = k * 4" using k by (intro unat_of_nat_small) simp
  have l: "lad_stride ar_isp_cfa_ladder = 0xa4" "unat (lad_payload ar_isp_cfa_ladder) = 0x245d8"
    by (simp_all add: ar_isp_cfa_ladder_def)
  show ?thesis
    unfolding select_f32_band [OF cfa_fits s] ar_isp_ladder_read_word_f32_def u l
    using k by (simp add: ar_isp_cfa_word_def ar_isp_ladder_blend_f32_def ar_isp_cfa_low_source_def
      ar_isp_cfa_high_source_def Let_def)
qed

text \<open>The four runs walk the record's 41 words once each, in order, onto registers that never
  collide.  Inside a band the record reaches the bank verbatim; in a gap every word is the shared
  blend of its two records except words 6 and 28, which blend the record's words 4 and 26.\<close>

theorem cfa_record_reaches_bank:
  assumes "ar_isp_ladder_select_f32 ar_isp_cfa_ladder blob g = (band, fr)"
  shows "length (ar_isp_cfa_from_blob blob g) = 41 \<and>
    distinct (concat (map (\<lambda>run. map (\<lambda>k. cfa_reg run + 4 * k) [0..<cfa_count run]) ar_isp_cfa_runs)) \<and>
    (frac_t fr = 0 \<longrightarrow> ar_isp_cfa_from_blob blob g =
       map (\<lambda>k. ar_isp_get_le32 blob (0x245d8 + unat (band * 0xa4) + k * 4)) [0..<41]) \<and>
    (k < 41 \<longrightarrow> k \<noteq> 6 \<longrightarrow> k \<noteq> 28 \<longrightarrow>
       ar_isp_cfa_from_blob blob g ! k = ladder_word ar_isp_cfa_ladder blob g (of_nat (k * 4))) \<and>
    (frac_t fr \<noteq> 0 \<longrightarrow>
       ar_isp_cfa_from_blob blob g ! 6 = ar_isp_ladder_blend_f32
         (ar_isp_get_le32 blob (0x245d8 + unat ((band - 1) * 0xa4) + 4 * 4))
         (ar_isp_get_le32 blob (0x245d8 + unat (band * 0xa4) + 6 * 4)) fr \<and>
       ar_isp_cfa_from_blob blob g ! 28 = ar_isp_cfa_from_blob blob g ! 26)"
proof (intro conjI impI)
  note W = cfa_from_blob_words [OF assms]
  show "length (ar_isp_cfa_from_blob blob g) = 41" by (simp add: W)
  show "distinct (concat (map (\<lambda>run. map (\<lambda>k. cfa_reg run + 4 * k) [0..<cfa_count run]) ar_isp_cfa_runs))"
    by (simp add: ar_isp_cfa_runs_def upt_conv_Cons)
  show "ar_isp_cfa_from_blob blob g = map (\<lambda>k. ar_isp_get_le32 blob (0x245d8 + unat (band * 0xa4) + k * 4)) [0..<41]"
    if "frac_t fr = 0" unfolding W using that by (simp only: ar_isp_cfa_word_def if_True simp_thms)
  have nth: "ar_isp_cfa_from_blob blob g ! j = ar_isp_cfa_word blob band j fr" if "j < 41" for j
    unfolding W using that by (simp del: upt_rec_numeral)
  show "ar_isp_cfa_from_blob blob g ! k = ladder_word ar_isp_cfa_ladder blob g (of_nat (k * 4))"
    if "k < 41" "k \<noteq> 6" "k \<noteq> 28" unfolding nth [OF that(1)] by (rule cfa_plain_word [OF assms that])
  assume "frac_t fr \<noteq> 0"
  then show "ar_isp_cfa_from_blob blob g ! 6 = ar_isp_ladder_blend_f32
      (ar_isp_get_le32 blob (0x245d8 + unat ((band - 1) * 0xa4) + 4 * 4))
      (ar_isp_get_le32 blob (0x245d8 + unat (band * 0xa4) + 6 * 4)) fr"
    "ar_isp_cfa_from_blob blob g ! 28 = ar_isp_cfa_from_blob blob g ! 26"
    by (simp_all add: nth ar_isp_cfa_word_def ar_isp_ladder_blend_f32_def ar_isp_cfa_low_source_def
      ar_isp_cfa_high_source_def Let_def)
qed

theorem cfa_record_reaches_bank_witness: "ar_isp_cfa_from_blob (\<lambda>_. 0) 0x10000 = replicate 41 0"
proof -
  obtain band fr where s: "ar_isp_ladder_select_f32 ar_isp_cfa_ladder (\<lambda>_. 0) 0x10000 = (band, fr)" by fastforce
  have z: "ar_isp_get_le32 (\<lambda>_. 0) i = 0" for i by (simp add: ar_isp_get_le32_def)
  have "frac_t fr = 0"
    using s by (auto simp: ar_isp_ladder_select_f32_def ar_isp_ladder_walk_f32_def z Let_def)
  then have "ar_isp_cfa_from_blob (\<lambda>_. 0) 0x10000 = map (\<lambda>k. 0) [0..<41]"
    using cfa_record_reaches_bank [OF s] by (simp add: z)
  then show ?thesis by (simp only: map_replicate_const length_upt diff_zero)
qed

lemma cfa_agree:
  assumes ag: "agree AR_ISP_TUNING_SIZE m m'"
  shows "ar_isp_cfa_from_blob m g = ar_isp_cfa_from_blob m' g"
proof -
  obtain band fr where s': "ar_isp_ladder_select_f32 ar_isp_cfa_ladder m' g = (band, fr)" by fastforce
  then have s: "ar_isp_ladder_select_f32 ar_isp_cfa_ladder m g = (band, fr)"
    using select_agree(2) [OF cfa_fits ag] by simp
  have b: "unat band < 5" and fr: "frac_t fr \<noteq> 0 \<Longrightarrow> 0 < band"
    using select_f32_cases [OF cfa_fits s] by (simp_all add: ar_isp_cfa_ladder_def)
  have l: "lad_stride ar_isp_cfa_ladder = 0xa4" "unat (lad_payload ar_isp_cfa_ladder) = 0x245d8"
    "unat (lad_max_bands ar_isp_cfa_ladder) = 5" by (simp_all add: ar_isp_cfa_ladder_def)
  have r: "ar_isp_get_le32 m (0x245d8 + unat (c * 0xa4) + k * 4) = ar_isp_get_le32 m' (0x245d8 + unat (c * 0xa4) + k * 4)"
    if "unat c < 5" "k < 41" for c :: u32 and k
    using payload_agree [OF cfa_fits ag, of c "k * 4"] that unfolding l by simp
  have src: "k < 41 \<Longrightarrow> ar_isp_cfa_low_source k < 41 \<and> ar_isp_cfa_high_source k < 41" for k
    by (simp add: ar_isp_cfa_low_source_def ar_isp_cfa_high_source_def)
  have "ar_isp_cfa_word m band k fr = ar_isp_cfa_word m' band k fr" if "k < 41" for k
    using r [OF b that] r [OF b, of "ar_isp_cfa_high_source k"] r [OF prev_band [OF b fr], of "ar_isp_cfa_low_source k"]
      src [OF that] by (simp add: ar_isp_cfa_word_def)
  then show ?thesis unfolding cfa_from_blob_words [OF s] cfa_from_blob_words [OF s']
    by (intro map_cong refl) (simp only: set_upt atLeastLessThan_iff)
qed

end
