(* ===== verification/Isp_Cnf.thy ===== *)
theory Isp_Cnf
  imports Isp_Fields
begin

text \<open>
  \<open>ar-isp-cnf.h\<close>: the cnf strength, its reciprocal-square normalisation and the six static
  registers.  The normalisation loop walks the shift down from 30 to 9.
\<close>

section \<open>Definitions\<close>

definition ar_isp_cnf_strength_from_blob :: "mem \<Rightarrow> u32 \<Rightarrow> u32" where
  "ar_isp_cnf_strength_from_blob blob gain_q16 =
     (let (band, t_q24) = ar_isp_ladder_walk blob 0x8e1dc 0xb 1 gain_q16;
          v0 = ar_isp_get_le32 blob (0x8e25c + unat (band * 0x80c) + 4);
          v1 = (if t_q24 \<noteq> 0
                then ar_isp_ladder_blend_s32 (ar_isp_get_le32 blob (0x8e25c + unat ((band - 1) * 0x80c) + 4)) v0 t_q24
                else v0);
          v2 = (if sint v1 < 1 then 1 else v1)
      in if sint v2 > 6 then 6 else v2)"

definition ar_isp_cnf_pack :: "u32 \<Rightarrow> u32" where
  "ar_isp_cnf_pack strength = push_bit 1 (strength AND 0xf) OR 0x20"

definition ar_isp_cnf_norm_quot :: "u32 \<Rightarrow> nat \<Rightarrow> u32" where
  "ar_isp_cnf_norm_quot square shift =
     ucast ((push_bit shift 1 * 2 + ucast square :: u64) div ucast (2 * square))"

fun cnf_norm_loop :: "u32 \<Rightarrow> nat \<Rightarrow> u32 \<times> nat" where
  "cnf_norm_loop square shift =
     (let quot = ar_isp_cnf_norm_quot square shift
      in if quot > 0xffe \<and> shift > 9 then cnf_norm_loop square (shift - 1) else (quot, shift))"

declare cnf_norm_loop.simps [simp del]

definition ar_isp_cnf_normalise :: "u32 \<Rightarrow> u32 \<times> nat" where
  "ar_isp_cnf_normalise v0 = (let v = (if v0 < 1 then 1 else v0) in cnf_norm_loop (v * v) 30)"

definition ar_isp_cnf_norm_pack :: "u32 \<Rightarrow> u32" where
  "ar_isp_cnf_norm_pack v =
     (let (quot, shift) = ar_isp_cnf_normalise v in (quot AND 0xfff) OR push_bit 12 (of_nat shift))"

record ar_isp_cnf_static =
  cnf_lo :: nat
  cnf_hi :: nat
  hi_mask :: u32

definition ar_isp_cnf_statics :: "ar_isp_cnf_static list" where
  "ar_isp_cnf_statics =
     [\<lparr>cnf_lo = 0x8e1a8 + 0x00, cnf_hi = 0x8e1a8 + 0x0c, hi_mask = 0x003ff800\<rparr>,
      \<lparr>cnf_lo = 0x8e1a8 + 0x18, cnf_hi = 0x8e1a8 + 0x24, hi_mask = 0x000ff800\<rparr>,
      \<lparr>cnf_lo = 0x8e1a8 + 0x04, cnf_hi = 0x8e1a8 + 0x10, hi_mask = 0x003ff800\<rparr>,
      \<lparr>cnf_lo = 0x8e1a8 + 0x1c, cnf_hi = 0x8e1a8 + 0x28, hi_mask = 0x000ff800\<rparr>,
      \<lparr>cnf_lo = 0x8e1a8 + 0x08, cnf_hi = 0x8e1a8 + 0x14, hi_mask = 0x003ff800\<rparr>,
      \<lparr>cnf_lo = 0x8e1a8 + 0x20, cnf_hi = 0x8e1a8 + 0x2c, hi_mask = 0x000ff800\<rparr>]"

text \<open>The value and the mask of the bits it owns.\<close>

definition ar_isp_cnf_static_pack :: "mem \<Rightarrow> nat \<Rightarrow> u32 \<times> u32" where
  "ar_isp_cnf_static_pack blob i =
     (let e = ar_isp_cnf_statics ! i;
          lo = ar_isp_get_le32 blob (cnf_lo e) AND 0x7ff;
          hi = push_bit 11 (ar_isp_get_le32 blob (cnf_hi e))
      in (lo OR (hi AND hi_mask e), 0x7ff OR hi_mask e))"

section \<open>The normalisation\<close>

lemma norm_quot_value:
  assumes "0 < unat sq" "unat sq < 2 ^ 30" "shift \<le> 30"
  shows "unat (ar_isp_cnf_norm_quot sq shift) = (2 * 2 ^ shift + unat sq) div (2 * unat sq)"
proof -
  have p: "(2 :: nat) ^ shift \<le> 2 ^ 30" using assms(3) by (intro power_increasing) simp_all
  have u: "unat (ucast sq :: u64) = unat sq" by (simp add: unat_ucast_up)
  have d: "unat (ucast (2 * sq) :: u64) = 2 * unat sq"
    using assms(2) by (subst unat_ucast_up) (simp_all add: unat_mult_small)
  have "unat (push_bit shift 1 :: u64) = 2 ^ shift"
    using p by (simp only: unat_push_bit unsigned_1) simp
  then have "unat (push_bit shift 1 * 2 :: u64) = 2 ^ shift * 2" using p by (subst unat_mult_small) simp_all
  then have s: "unat (push_bit shift 1 * 2 + ucast sq :: u64) = 2 ^ shift * 2 + unat sq"
    using p assms(2) by (subst unat_add_small) (simp_all add: u)
  have "2 * 2 ^ shift + unat sq < 2 ^ 32" using p assms(2) by simp
  then have "(2 * 2 ^ shift + unat sq) div (2 * unat sq) < 2 ^ 32" by (rule le_less_trans [OF div_le_dividend])
  moreover have "unat ((push_bit shift 1 * 2 + ucast sq :: u64) div ucast (2 * sq)) = (2 ^ shift * 2 + unat sq) div (2 * unat sq)"
    by (simp only: unat_div_distrib s d)
  ultimately show ?thesis
    unfolding ar_isp_cnf_norm_quot_def by (simp only: unat_ucast_mod) (simp add: mult.commute)
qed

lemma norm_loop_result:
  assumes "cnf_norm_loop sq n = (quot, shift)" "9 \<le> n"
  shows "9 \<le> shift \<and> shift \<le> n \<and> quot = ar_isp_cnf_norm_quot sq shift \<and> (quot \<le> 0xffe \<or> shift = 9) \<and>
    (\<forall>s. shift < s \<and> s \<le> n \<longrightarrow> ar_isp_cnf_norm_quot sq s > 0xffe)"
  using assms
proof (induction sq n rule: cnf_norm_loop.induct)
  case (1 sq n)
  show ?case
  proof (cases "ar_isp_cnf_norm_quot sq n > 0xffe \<and> n > 9")
    case True
    then have "cnf_norm_loop sq (n - 1) = (quot, shift)"
      using 1(2) by (subst (asm) cnf_norm_loop.simps) (simp add: Let_def)
    moreover have "9 \<le> n - 1" using True by linarith
    ultimately have I: "9 \<le> shift \<and> shift \<le> n - 1 \<and> quot = ar_isp_cnf_norm_quot sq shift \<and>
        (quot \<le> 0xffe \<or> shift = 9) \<and> (\<forall>s. shift < s \<and> s \<le> n - 1 \<longrightarrow> ar_isp_cnf_norm_quot sq s > 0xffe)" by (rule 1(1) [OF refl True])
    moreover have "ar_isp_cnf_norm_quot sq s > 0xffe" if "shift < s" "s \<le> n" for s
      using I True that by (cases "s = n") auto
    ultimately show ?thesis by auto
  next
    case False
    have "(ar_isp_cnf_norm_quot sq n, n) = (quot, shift)"
      using 1(2) unfolding cnf_norm_loop.simps [of sq n] Let_def if_not_P [OF False] .
    then have e: "quot = ar_isp_cnf_norm_quot sq n" "shift = n" by blast+
    show ?thesis unfolding e using False 1(3) by (auto simp: not_less)
  qed
qed

lemma cnf_strength_range: "1 \<le> unat (ar_isp_cnf_strength_from_blob blob g) \<and> unat (ar_isp_cnf_strength_from_blob blob g) \<le> 6"
proof -
  have "1 \<le> unat v \<and> unat v \<le> 6" if "1 \<le> sint v" "sint v \<le> 6" for v :: s32
  proof -
    have "sint v = uint v" using that uint_sint [of v] by (simp add: take_bit_eq_mod)
    then have "int (unat v) = sint v" by (simp add: uint_nat)
    then show ?thesis using that by linarith
  qed
  then show ?thesis
    by (simp add: ar_isp_cnf_strength_from_blob_def Let_def split: prod.split)
qed

text \<open>C22: The cnf strength read from any file is 1 to 6, and the normalisation of a value below
  2^15 ends with the largest shift from 9 to 30 whose quotient \<open>2^shift / v^2\<close>, rounded half up,
  fits the 12-bit field; the packed register gives back quotient and shift.\<close>

theorem cnf_normalisation_correct:
  assumes "1 \<le> unat v" "unat v < 2 ^ 15" and "ar_isp_cnf_normalise v = (quot, shift)"
  shows "1 \<le> unat (ar_isp_cnf_strength_from_blob blob g) \<and> unat (ar_isp_cnf_strength_from_blob blob g) \<le> 6 \<and>
    9 \<le> shift \<and> shift \<le> 30 \<and> unat quot = (2 * 2 ^ shift + (unat v)\<^sup>2) div (2 * (unat v)\<^sup>2) \<and>
    (unat quot \<le> 0xffe \<or> shift = 9) \<and>
    (shift < s \<longrightarrow> s \<le> 30 \<longrightarrow> 0xffe < (2 * 2 ^ s + (unat v)\<^sup>2) div (2 * (unat v)\<^sup>2)) \<and>
    get_field 0 12 (ar_isp_cnf_norm_pack v) = quot AND mask 12 \<and> get_field 12 5 (ar_isp_cnf_norm_pack v) = of_nat shift"
proof -
  have lt: "unat v * unat v < 2 ^ 15 * 2 ^ 15" using assms(1,2) by (intro mult_strict_mono) simp_all
  then have sq: "unat (v * v) = (unat v)\<^sup>2" by (subst unat_mult_small) (simp_all add: power2_eq_square)
  have b: "0 < unat (v * v)" "unat (v * v) < 2 ^ 30" using lt assms(1) by (simp_all add: sq power2_eq_square)
  have "\<not> v < 1" using assms(1) by (simp add: word_less_nat_alt)
  then have "cnf_norm_loop (v * v) 30 = (quot, shift)" using assms(3) by (simp add: ar_isp_cnf_normalise_def)
  note L = norm_loop_result [OF this]
  then have sh: "9 \<le> shift" "shift \<le> 30" and q: "quot = ar_isp_cnf_norm_quot (v * v) shift"
    and small: "quot \<le> 0xffe \<or> shift = 9" by fastforce+
  have big: "0xffe < (2 * 2 ^ s + (unat v)\<^sup>2) div (2 * (unat v)\<^sup>2)" if "shift < s" "s \<le> 30" for s
    using L that norm_quot_value [OF b that(2)] by (auto simp: word_less_nat_alt sq)
  have pack: "ar_isp_cnf_norm_pack v = (quot AND mask 12) OR push_bit 12 (of_nat shift AND mask 20)"
  proof -
    have "unat (of_nat shift :: u32) < 2 ^ 20" using sh by (simp add: unat_of_nat_small)
    then have "of_nat shift AND mask 20 = (of_nat shift :: u32)" by (rule and_mask_small)
    then show ?thesis using assms(3) by (simp add: ar_isp_cnf_norm_pack_def mask_eq_exp_minus_1)
  qed
  have m: "(of_nat shift :: u32) AND mask 5 = of_nat shift"
    using sh by (intro and_mask_small) (simp add: unat_of_nat_small)
  have "get_field 0 12 (ar_isp_cnf_norm_pack v) = quot AND mask 12"
    unfolding pack by (rule bit_word_eqI) (auto simp: bit_get_field bit_simps)
  moreover have "get_field 12 5 (ar_isp_cnf_norm_pack v) = of_nat shift AND mask 5"
    unfolding pack by (rule bit_word_eqI) (auto simp: bit_get_field bit_simps)
  moreover have "unat quot = (2 * 2 ^ shift + (unat v)\<^sup>2) div (2 * (unat v)\<^sup>2)"
    using norm_quot_value [OF b sh(2)] by (simp add: q sq)
  moreover have "unat quot \<le> 0xffe \<or> shift = 9" using small by (simp add: word_le_nat_alt)
  ultimately show ?thesis using cnf_strength_range [of blob g] sh big m by simp
qed

lemma normalise_3: "ar_isp_cnf_normalise 3 = (3641, 15)"
  by (simp add: ar_isp_cnf_normalise_def cnf_norm_loop.simps ar_isp_cnf_norm_quot_def Let_def)

theorem cnf_normalisation_correct_witness: "get_field 12 5 (ar_isp_cnf_norm_pack 3) = 15"
  using cnf_normalisation_correct [OF _ _ normalise_3] by simp

lemma cnf_agree:
  assumes ag: "agree AR_ISP_TUNING_SIZE m m'"
  shows "ar_isp_cnf_strength_from_blob m g = ar_isp_cnf_strength_from_blob m' g"
    and "i < 6 \<Longrightarrow> ar_isp_cnf_static_pack m i = ar_isp_cnf_static_pack m' i"
proof -
  have w: "ar_isp_ladder_walk m 0x8e1dc 0xb 1 g = ar_isp_ladder_walk m' 0x8e1dc 0xb 1 g"
    by (rule walk_agree(1) [OF ag, of _ 11]) simp_all
  obtain band t where bt: "ar_isp_ladder_walk m' 0x8e1dc 0xb 1 g = (band, t)" by fastforce
  note C = walk_cases [OF _ bt, simplified]
  have b: "unat band < 11" using C(2) by (simp add: word_less_nat_alt)
  have r: "ar_isp_get_le32 m (0x8e25c + unat (c * 0x80c) + 4) = ar_isp_get_le32 m' (0x8e25c + unat (c * 0x80c) + 4)"
    if "unat c < 11" for c :: u32
  proof -
    have "unat (c * 0x80c) = unat c * 0x80c" using that by (subst unat_mult_small) simp_all
    then show ?thesis using that by (intro agree_le32 [OF ag]) simp
  qed
  have "t \<noteq> 0 \<Longrightarrow> unat (band - 1) < 11" using C(4) prev_band [OF b] by simp
  then show "ar_isp_cnf_strength_from_blob m g = ar_isp_cnf_strength_from_blob m' g"
    unfolding ar_isp_cnf_strength_from_blob_def w bt Let_def prod.case
    using r [OF b] r [of "band - 1"] by (cases "t = 0") (simp_all only: simp_thms if_True if_False)
  assume "i < 6"
  then have "i = 0 \<or> i = 1 \<or> i = 2 \<or> i = 3 \<or> i = 4 \<or> i = 5" by linarith
  then have "cnf_lo (ar_isp_cnf_statics ! i) + 4 \<le> AR_ISP_TUNING_SIZE \<and> cnf_hi (ar_isp_cnf_statics ! i) + 4 \<le> AR_ISP_TUNING_SIZE"
    by (elim disjE) (simp_all add: ar_isp_cnf_statics_def)
  then show "ar_isp_cnf_static_pack m i = ar_isp_cnf_static_pack m' i"
    using agree_le32 [OF ag] by (simp add: ar_isp_cnf_static_pack_def Let_def)
qed

end
