(* ===== verification/Isp_Cm.thy ===== *)
theory Isp_Cm
  imports Isp_Ladder
begin

text \<open>
  \<open>ar-isp-cm.h\<close> and \<open>ar-isp-cm2.h\<close>: the colour rows keyed on the auto-exposure trigger.  Both
  row selections are band walks over a Q8 axis; a row index and column index are 32-bit
  words, record offsets wrap as \<open>u32\<close>.
\<close>

section \<open>Definitions\<close>

definition ar_isp_cm_f32_q8 :: "u32 \<Rightarrow> u32" where
  "ar_isp_cm_f32_q8 bits =
     (let m = ar_isp_f32_mant bits; shift = (23 - 8) - ar_isp_f32_exp bits
      in if bits AND 0x80000000 \<noteq> 0 then 0
         else if shift \<ge> 32 then 0
         else if shift < - 16 then 0xffffffff
         else if shift \<le> 0 then push_bit (nat (- shift)) m
         else drop_bit (nat shift) m)"

definition ar_isp_cm_gain_q16 :: "mem \<Rightarrow> u32 \<Rightarrow> u32 \<Rightarrow> u32" where
  "ar_isp_cm_gain_q16 m row ct = ar_isp_f32_q16 (ar_isp_get_le32 m (unat (0x89d70 + row * 56 + ct * 8 :: u32)))"

text \<open>The edges of a row of an axis: \<open>axis + row*8\<close> and \<open>axis + row*8 + 4\<close>.\<close>

definition cm_axis_lo :: "nat \<Rightarrow> mem \<Rightarrow> u32 \<Rightarrow> u32" where
  "cm_axis_lo axis m row = ar_isp_cm_f32_q8 (ar_isp_get_le32 m (axis + unat (row * 8)))"

definition cm_axis_hi :: "nat \<Rightarrow> mem \<Rightarrow> u32 \<Rightarrow> u32" where
  "cm_axis_hi axis m row = ar_isp_cm_f32_q8 (ar_isp_get_le32 m (axis + unat (row * 8) + 4))"

definition cm_axis_prev_hi :: "nat \<Rightarrow> mem \<Rightarrow> u32 \<Rightarrow> u32" where
  "cm_axis_prev_hi axis m row = ar_isp_cm_f32_q8 (ar_isp_get_le32 m (axis + unat (row * 8) - 4))"

definition clamp_count :: "u32 \<Rightarrow> u32 \<Rightarrow> u32" where
  "clamp_count count n = (if count < 1 \<or> count > n then n else count)"

definition ar_isp_cm_select :: "mem \<Rightarrow> u32 \<Rightarrow> u32 \<times> u32" where
  "ar_isp_cm_select m trigger_q8 =
     (let count = clamp_count (ar_isp_get_le32 m (0x89cfc + 8)) 5;
          interp = ar_isp_get_le32 m (0x89cfc + 4);
          row = band_loop (\<lambda>r. trigger_q8 \<le> cm_axis_hi 0x89d10 m r) count 0;
          t = (if interp \<noteq> 0 \<and> row > 0
               then gap_fraction trigger_q8 (cm_axis_lo 0x89d10 m row) (cm_axis_prev_hi 0x89d10 m row)
               else 0)
      in (row, t))"

definition ar_isp_cm_gain_field_from_blob :: "mem \<Rightarrow> u32 \<Rightarrow> u32 \<Rightarrow> u32" where
  "ar_isp_cm_gain_field_from_blob m trigger_q8 ct0 =
     (let count = clamp_count (ar_isp_get_le32 m (0x89cfc + 0xc)) 7;
          ct = (if ct0 \<ge> count then 0 else ct0);
          (row, t) = ar_isp_cm_select m trigger_q8;
          g = ar_isp_cm_gain_q16 m row ct;
          g' = (if t \<noteq> 0 then ar_isp_ladder_blend (ar_isp_cm_gain_q16 m (row - 1) ct) g t else g)
      in drop_bit 11 g' AND 0x7f)"

text \<open>\<open>ar-isp-cm2.h\<close>\<close>

record ar_isp_cm2_row =
  gain_field :: u32
  lo1 :: u32
  hi1 :: u32
  lo2 :: u32
  hi2 :: u32
  recip1 :: u32
  recip2 :: u32

definition ar_isp_cm2_gain_q16 :: "mem \<Rightarrow> u32 \<Rightarrow> u32 \<Rightarrow> u32" where
  "ar_isp_cm2_gain_q16 m row ct = ar_isp_f32_q16 (ar_isp_get_le32 m (unat (0xa1378 + row * 168 + ct * 24 :: u32)))"

definition ar_isp_cm2_bound :: "mem \<Rightarrow> u32 \<Rightarrow> u32 \<Rightarrow> u32 \<Rightarrow> s32" where
  "ar_isp_cm2_bound m row ct slot =
     ar_isp_get_le32 m (unat (0xa1378 + row * 168 + ct * 24 + 8 + slot * 4 :: u32))"

definition ar_isp_cm2_select :: "mem \<Rightarrow> u32 \<Rightarrow> u32 \<times> u32" where
  "ar_isp_cm2_select m trigger_q8 =
     (let count = clamp_count (ar_isp_get_le32 m (0xa1304 + 8)) 5;
          interp = ar_isp_get_le32 m (0xa1304 + 4);
          row = band_loop (\<lambda>r. trigger_q8 \<le> cm_axis_hi 0xa1318 m r) count 0;
          t = (if interp \<noteq> 0 \<and> row > 0
               then gap_fraction trigger_q8 (cm_axis_lo 0xa1318 m row) (cm_axis_prev_hi 0xa1318 m row)
               else 0)
      in (row, t))"

definition ar_isp_cm2_blend_bound :: "mem \<Rightarrow> u32 \<Rightarrow> u32 \<Rightarrow> u32 \<Rightarrow> u32 \<Rightarrow> s32" where
  "ar_isp_cm2_blend_bound m row ct slot t =
     (let v = ar_isp_cm2_bound m row ct slot
      in if t \<noteq> 0 then ar_isp_ladder_blend_s32 (ar_isp_cm2_bound m (row - 1) ct slot) v t else v)"

definition cm2_recip :: "u32 \<Rightarrow> u32 \<Rightarrow> u32" where
  "cm2_recip lo hi = (let width = hi - lo in if width \<noteq> 0 then 1024 div width else 0)"

definition ar_isp_cm2_from_blob :: "mem \<Rightarrow> u32 \<Rightarrow> u32 \<Rightarrow> ar_isp_cm2_row" where
  "ar_isp_cm2_from_blob m trigger_q8 ct0 =
     (let count = clamp_count (ar_isp_get_le32 m (0xa1304 + 0xc)) 1;
          ct = (if ct0 \<ge> count then 0 else ct0);
          (row, t) = ar_isp_cm2_select m trigger_q8;
          g = ar_isp_cm2_gain_q16 m row ct;
          g' = (if t \<noteq> 0 then ar_isp_ladder_blend (ar_isp_cm2_gain_q16 m (row - 1) ct) g t else g);
          l1 = ar_isp_cm2_blend_bound m row ct 0 t; h1 = ar_isp_cm2_blend_bound m row ct 1 t;
          l2 = ar_isp_cm2_blend_bound m row ct 2 t; h2 = ar_isp_cm2_blend_bound m row ct 3 t
      in \<lparr>gain_field = drop_bit 11 g' AND 0x7f, lo1 = l1, hi1 = h1, lo2 = l2, hi2 = h2,
          recip1 = cm2_recip l1 h1, recip2 = cm2_recip l2 h2\<rparr>)"

section \<open>The row selections are band walks\<close>

definition cm_pick :: "nat \<Rightarrow> mem \<Rightarrow> u32 \<Rightarrow> u32 \<Rightarrow> u32" where
  "cm_pick axis m count trigger = band_loop (\<lambda>r. trigger \<le> cm_axis_hi axis m r) count 0"

interpretation cm_rows: band_walk "cm_axis_hi axis" "cm_pick axis" for axis
  by unfold_locales (use band_loop_facts in \<open>fastforce simp: cm_pick_def\<close>)+

lemma clamp_count_bounds: "0 < n \<Longrightarrow> 0 < clamp_count c n \<and> clamp_count c n \<le> n"
  by (auto simp: clamp_count_def not_less word_le_nat_alt word_less_nat_alt)

lemma axis_prev_hi:
  assumes r: "0 < row" "row < 5"
  shows "cm_axis_prev_hi axis m row = cm_axis_hi axis m (row - 1)"
proof -
  have u: "unat row < 5" "0 < unat row" using r by (simp_all add: word_less_nat_alt)
  have "unat (row * 8) = unat row * 8" using u by (intro trans [OF unat_mult_small]) simp_all
  moreover have "unat ((row - 1) * 8) = (unat row - 1) * 8"
    using u by (intro trans [OF unat_mult_small]) (simp_all add: unat_pred [OF r(1)])
  ultimately have "axis + unat (row * 8) - 4 = axis + unat ((row - 1) * 8) + 4" using u by simp
  then show ?thesis by (simp add: cm_axis_prev_hi_def cm_axis_hi_def)
qed

text \<open>Both selections are the same function of the axis and the header.\<close>

definition axis_select :: "nat \<Rightarrow> nat \<Rightarrow> mem \<Rightarrow> u32 \<Rightarrow> u32 \<times> u32" where
  "axis_select hdr axis m trigger =
     (let row = cm_pick axis m (clamp_count (ar_isp_get_le32 m (hdr + 8)) 5) trigger
      in (row, if ar_isp_get_le32 m (hdr + 4) \<noteq> 0 \<and> row > 0
               then gap_fraction trigger (cm_axis_lo axis m row) (cm_axis_prev_hi axis m row) else 0))"

lemma select_axis:
  "ar_isp_cm_select = axis_select 0x89cfc 0x89d10" "ar_isp_cm2_select = axis_select 0xa1304 0xa1318"
  by (simp_all add: fun_eq_iff ar_isp_cm_select_def ar_isp_cm2_select_def axis_select_def cm_pick_def Let_def)

lemma axis_select_cases:
  assumes s: "axis_select hdr axis m trigger = (row, t)"
  shows "row < 5" "unat t < 2 ^ 24" "t \<noteq> 0 \<Longrightarrow> 0 < row"
proof -
  define c where "c = clamp_count (ar_isp_get_le32 m (hdr + 8)) 5"
  have c: "0 < c" "c \<le> 5" using clamp_count_bounds [of 5] by (simp_all add: c_def)
  have row: "row = cm_pick axis m c trigger" using s by (simp add: axis_select_def c_def Let_def)
  show r: "row < 5" unfolding row using cm_rows.pick_range [OF c(1)] c(2) by (rule less_le_trans)
  have t: "t = (if ar_isp_get_le32 m (hdr + 4) \<noteq> 0 \<and> row > 0
      then gap_fraction trigger (cm_axis_lo axis m row) (cm_axis_prev_hi axis m row) else 0)"
    using s by (auto simp: axis_select_def Let_def)
  then show "t \<noteq> 0 \<Longrightarrow> 0 < row" by (simp split: if_splits)
  show "unat t < 2 ^ 24"
  proof (cases "0 < row")
    case True
    then have "cm_axis_prev_hi axis m row < trigger"
      using cm_rows.pick_prev [OF c(1), of axis m trigger] unfolding axis_prev_hi [OF True r]
      by (simp add: row)
    then show ?thesis using t gap_fraction_less by simp
  qed (use t in simp)
qed

lemma axis_agree:
  assumes ag: "agree AR_ISP_TUNING_SIZE m m'" and fit: "axis + 40 \<le> AR_ISP_TUNING_SIZE"
    and r: "row < 5"
  shows "cm_axis_hi axis m row = cm_axis_hi axis m' row" "cm_axis_lo axis m row = cm_axis_lo axis m' row"
proof -
  have u: "unat row < 5" using r by (simp add: word_less_nat_alt)
  have "unat (row * 8) = unat row * 8" using u by (intro trans [OF unat_mult_small]) simp_all
  with u have b: "axis + unat (row * 8) + 8 \<le> AR_ISP_TUNING_SIZE" using fit by simp
  show "cm_axis_hi axis m row = cm_axis_hi axis m' row" "cm_axis_lo axis m row = cm_axis_lo axis m' row"
    unfolding cm_axis_hi_def cm_axis_lo_def using b
    by (auto intro!: arg_cong [where f = ar_isp_cm_f32_q8] agree_le32 [OF ag])
qed

lemma axis_select_agree:
  assumes ag: "agree AR_ISP_TUNING_SIZE m m'" and fit: "axis + 40 \<le> AR_ISP_TUNING_SIZE" "hdr + 12 \<le> AR_ISP_TUNING_SIZE"
  shows "axis_select hdr axis m trigger = axis_select hdr axis m' trigger"
proof -
  define c where "c = clamp_count (ar_isp_get_le32 m (hdr + 8)) 5"
  have h: "ar_isp_get_le32 m (hdr + 8) = ar_isp_get_le32 m' (hdr + 8)"
    "ar_isp_get_le32 m (hdr + 4) = ar_isp_get_le32 m' (hdr + 4)"
    using fit by (auto intro!: agree_le32 [OF ag])
  have c: "0 < c" "c \<le> 5" using clamp_count_bounds [of 5] by (simp_all add: c_def)
  have lt5: "b < c \<Longrightarrow> b < 5" for b by (rule order.strict_trans2 [OF _ c(2)])
  have p: "cm_pick axis m c trigger = cm_pick axis m' c trigger"
    unfolding cm_pick_def using c(1) by (intro band_loop_cong) (simp_all add: axis_agree(1) [OF ag fit(1) lt5])
  define row where "row = cm_pick axis m' c trigger"
  have r: "row < 5" unfolding row_def by (rule lt5) (rule cm_rows.pick_range [OF c(1)])
  have g: "0 < row \<Longrightarrow> cm_axis_prev_hi axis m row = cm_axis_prev_hi axis m' row"
    using axis_agree(1) [OF ag fit(1), of "row - 1"] r pred_less [of row]
    by (simp add: axis_prev_hi)
  have "axis_select hdr axis m trigger = (row, if ar_isp_get_le32 m' (hdr + 4) \<noteq> 0 \<and> row > 0
      then gap_fraction trigger (cm_axis_lo axis m row) (cm_axis_prev_hi axis m row) else 0)"
    by (simp only: axis_select_def Let_def h(2) c_def [symmetric] p row_def)
  moreover have "axis_select hdr axis m' trigger = (row, if ar_isp_get_le32 m' (hdr + 4) \<noteq> 0 \<and> row > 0
      then gap_fraction trigger (cm_axis_lo axis m' row) (cm_axis_prev_hi axis m' row) else 0)"
    by (simp only: axis_select_def Let_def c_def h(1) row_def)
  ultimately show ?thesis using g axis_agree(2) [OF ag fit(1) r] by simp
qed

section \<open>What the packers produce\<close>

lemma table_word:
  fixes row ct :: u32
  assumes r: "row < 5" and c: "unat ct * cw + slot < rw" and cw: "cw < 64" and rw: "rw \<le> 168"
    and base: "base \<le> 0xd0000" and sl: "slot < 64"
  shows "unat (of_nat base + row * of_nat rw + ct * of_nat cw + of_nat slot :: u32) =
    base + unat row * rw + (unat ct * cw + slot)"
proof -
  have r': "unat row \<le> 4" using r by (simp add: word_less_nat_alt)
  have p: "unat row * rw \<le> 4 * 168" using r' rw by (intro mult_le_mono)
  have w: "unat (of_nat rw :: u32) = rw" "unat (of_nat cw :: u32) = cw" "unat (of_nat base :: u32) = base"
    "unat (of_nat slot :: u32) = slot"
    using rw cw base sl by (auto intro!: unat_of_nat_small)
  have m1: "unat (row * of_nat rw) = unat row * rw"
    using p by (intro trans [OF unat_mult_small]) (simp_all add: w)
  have m2: "unat (ct * of_nat cw) = unat ct * cw"
    using c rw by (intro trans [OF unat_mult_small]) (simp_all add: w)
  have a1: "unat (of_nat base + row * of_nat rw) = base + unat row * rw"
    using p base by (intro trans [OF unat_add_small]) (simp_all add: w m1)
  have a2: "unat (of_nat base + row * of_nat rw + ct * of_nat cw) = base + unat row * rw + unat ct * cw"
    using p base c rw by (intro trans [OF unat_add_small]) (simp_all add: a1 m2)
  show ?thesis
    using p base c rw by (intro trans [OF unat_add_small]) (simp_all add: a2 w)
qed

lemma cm_gain_agree:
  assumes ag: "agree AR_ISP_TUNING_SIZE m m'" and r: "row < 5" and c: "ct < 7"
  shows "ar_isp_cm_gain_q16 m row ct = ar_isp_cm_gain_q16 m' row ct"
proof -
  have c': "unat ct * 8 + 0 < 56" using c by (simp add: word_less_nat_alt)
  have u: "unat (0x89d70 + row * 56 + ct * 8 :: u32) = 0x89d70 + unat row * 56 + unat ct * 8"
    using table_word [where base = "0x89d70", OF r c'] by simp
  have "unat row \<le> 4" using r by (simp add: word_less_nat_alt)
  then show ?thesis unfolding ar_isp_cm_gain_q16_def u using c'
    by (intro arg_cong [where f = ar_isp_f32_q16] agree_le32 [OF ag]) simp
qed

lemma cm2_gain_agree:
  assumes ag: "agree AR_ISP_TUNING_SIZE m m'" and r: "row < 5"
  shows "ar_isp_cm2_gain_q16 m row 0 = ar_isp_cm2_gain_q16 m' row 0"
    and "slot < 4 \<Longrightarrow> ar_isp_cm2_bound m row 0 slot = ar_isp_cm2_bound m' row 0 slot"
proof -
  have r': "unat row \<le> 4" using r by (simp add: word_less_nat_alt)
  have u: "unat (0xa1378 + row * 168 + 0 * 24 :: u32) = 0xa1378 + unat row * 168"
    using table_word [where ct = 0 and cw = 0 and slot = 0 and rw = 168 and base = "0xa1378", OF r] by simp
  show "ar_isp_cm2_gain_q16 m row 0 = ar_isp_cm2_gain_q16 m' row 0"
    unfolding ar_isp_cm2_gain_q16_def u using r'
    by (intro arg_cong [where f = ar_isp_f32_q16] agree_le32 [OF ag]) simp
  assume s: "slot < 4"
  then have s': "unat slot * 4 + 8 < 168" "unat slot < 4" by (simp_all add: word_less_nat_alt)
  have v: "unat (0xa1378 + row * 168 + slot * 4 + 8 :: u32) = 0xa1378 + unat row * 168 + (unat slot * 4 + 8)"
    using table_word [where base = "0xa1378", OF r s'(1)] by simp
  have e: "0xa1378 + row * 168 + 0 * 24 + 8 + slot * 4 = 0xa1378 + row * 168 + slot * 4 + 8"
    by (simp add: algebra_simps)
  show "ar_isp_cm2_bound m row 0 slot = ar_isp_cm2_bound m' row 0 slot"
    unfolding ar_isp_cm2_bound_def e v using r' s'
    by (intro agree_le32 [OF ag]) simp
qed

lemma cm_gain_field_agree:
  assumes ag: "agree AR_ISP_TUNING_SIZE m m'"
  shows "ar_isp_cm_gain_field_from_blob m trigger ct = ar_isp_cm_gain_field_from_blob m' trigger ct"
proof -
  define c where "c = clamp_count (ar_isp_get_le32 m (0x89cfc + 0xc)) 7"
  have c': "c = clamp_count (ar_isp_get_le32 m' (0x89cfc + 0xc)) 7"
    unfolding c_def by (rule arg_cong [where f = "\<lambda>x. clamp_count x 7"], rule agree_le32 [OF ag]) simp
  define k where "k = (if ct \<ge> c then 0 else ct)"
  have "c \<le> 7" using clamp_count_bounds [of 7] by (simp add: c_def)
  then have k: "k < 7" by (auto simp: k_def not_le)
  have s: "ar_isp_cm_select m trigger = ar_isp_cm_select m' trigger"
    unfolding select_axis by (rule axis_select_agree [OF ag]) simp_all
  obtain row t where rt: "axis_select 0x89cfc 0x89d10 m' trigger = (row, t)" by fastforce
  note R = axis_select_cases [OF rt]
  have prev: "t \<noteq> 0 \<Longrightarrow> row - 1 < 5" using R(1,3) pred_less less_trans by blast
  show ?thesis
    unfolding ar_isp_cm_gain_field_from_blob_def Let_def c_def [symmetric] c' [symmetric]
      k_def [symmetric] s
    unfolding select_axis rt
    using cm_gain_agree [OF ag R(1) k] cm_gain_agree [OF ag prev k] by simp
qed

lemma cm2_row_agree:
  assumes ag: "agree AR_ISP_TUNING_SIZE m m'"
  shows "ar_isp_cm2_from_blob m trigger ct = ar_isp_cm2_from_blob m' trigger ct"
proof -
  have one: "clamp_count x 1 = 1" for x :: u32
    by (simp add: clamp_count_def) (metis word_less_1 leI less_le_not_le antisym_conv3)
  have k: "(if ct \<ge> (1 :: u32) then 0 else ct) = 0"
    by (metis leI word_less_1)
  have s: "ar_isp_cm2_select m trigger = ar_isp_cm2_select m' trigger"
    unfolding select_axis by (rule axis_select_agree [OF ag]) simp_all
  obtain row t where rt: "axis_select 0xa1304 0xa1318 m' trigger = (row, t)" by fastforce
  note R = axis_select_cases [OF rt]
  have prev: "t \<noteq> 0 \<Longrightarrow> row - 1 < 5" using R(1,3) pred_less less_trans by blast
  have b: "ar_isp_cm2_blend_bound m row 0 slot t = ar_isp_cm2_blend_bound m' row 0 slot t" if "slot < 4" for slot
    using cm2_gain_agree(2) [OF ag R(1) that] cm2_gain_agree(2) [OF ag prev that]
    by (simp add: ar_isp_cm2_blend_bound_def Let_def)
  show ?thesis
    unfolding ar_isp_cm2_from_blob_def one k s Let_def
    unfolding select_axis rt
    using cm2_gain_agree(1) [OF ag R(1)] cm2_gain_agree(1) [OF ag prev] b by simp
qed

lemma cm_gain_field_range: "unat (ar_isp_cm_gain_field_from_blob m trigger ct) < 128"
proof -
  have "unat (w AND mask 7) < 128" for w :: u32 by (simp add: unat_and_mask)
  then show ?thesis
    by (simp add: ar_isp_cm_gain_field_from_blob_def Let_def mask_literals split: prod.split)
qed

section \<open>Properties\<close>

text \<open>The Q8 reading of an axis edge is the floor of 256 times its value while that fits 32 bits,
  and saturates once it needs more than 40; between the two it keeps the low 32 bits instead
  of saturating, so an edge of \<open>2^24\<close> reads as 0.\<close>

theorem cm_f32_q8_value:
  "unat (ar_isp_cm_f32_q8 bits) =
    (let N = nat \<lfloor>f32_val bits * 2 ^ 8\<rfloor>
     in if 2 ^ 31 \<le> unat bits then 0 else if 2 ^ 40 \<le> N then 2 ^ 32 - 1 else N mod 2 ^ 32) \<and>
   ar_isp_cm_f32_q8 0x4b800000 = 0 \<and> f32_val 0x4b800000 = 2 ^ 24"
proof (intro conjI)
  show "ar_isp_cm_f32_q8 0x4b800000 = 0" "f32_val 0x4b800000 = 2 ^ 24"
    by (simp_all add: ar_isp_cm_f32_q8_def ar_isp_f32_mant_def ar_isp_f32_exp_def Let_def f32_val_unpack
        ar_f32_unpack_def)
  show "unat (ar_isp_cm_f32_q8 bits) =
    (let N = nat \<lfloor>f32_val bits * 2 ^ 8\<rfloor>
     in if 2 ^ 31 \<le> unat bits then 0 else if 2 ^ 40 \<le> N then 2 ^ 32 - 1 else N mod 2 ^ 32)"
  proof (cases "2 ^ 31 \<le> unat bits")
    case True
    then show ?thesis using sign_clear [of bits] by (simp add: ar_isp_cm_f32_q8_def Let_def)
  next
    case False
    define M sh where "M = unat (ar_isp_f32_mant bits)" and "sh = 15 - ar_isp_f32_exp bits"
    have M: "2 ^ 23 \<le> M" "M < 2 ^ 24" using f32_mant_bounds [of bits] by (simp_all add: M_def)
    have fl: "nat \<lfloor>f32_val bits * 2 ^ 8\<rfloor> = (if sh \<le> 0 then M * 2 ^ nat (- sh) else M div 2 ^ nat sh)"
      using fixed_point_floor [of bits 8] False by (simp add: M_def sh_def)
    have q: "ar_isp_cm_f32_q8 bits =
        (if sh \<ge> 32 then 0 else if sh < - 16 then 0xffffffff
         else if sh \<le> 0 then push_bit (nat (- sh)) (ar_isp_f32_mant bits)
         else drop_bit (nat sh) (ar_isp_f32_mant bits))"
      using False sign_clear [of bits] by (simp add: ar_isp_cm_f32_q8_def Let_def sh_def)
    consider (z) "32 \<le> sh" | (sat) "sh < - 16" | (up) "- 16 \<le> sh" "sh \<le> 0" | (down) "0 < sh" "sh < 32"
      by linarith
    then show ?thesis
    proof cases
      case z
      have "(2::nat) ^ 32 \<le> 2 ^ nat sh" using z by (intro power_increasing) auto
      then show ?thesis using False z M unfolding fl q by simp
    next
      case sat
      have "(2::nat) ^ 17 \<le> 2 ^ nat (- sh)" using sat by (intro power_increasing) auto
      then have "2 ^ 23 * 2 ^ 17 \<le> M * 2 ^ nat (- sh)" using M by (intro mult_le_mono)
      then show ?thesis using False sat unfolding fl q by simp
    next
      case up
      have "(2::nat) ^ nat (- sh) \<le> 2 ^ 16" using up by (intro power_increasing) auto
      then have "M * 2 ^ nat (- sh) < 2 ^ 24 * 2 ^ 16" using M by (intro mult_less_le_imp_less) auto
      then have "M * 2 ^ nat (- sh) < 2 ^ 40" by simp
      then show ?thesis using False up unfolding fl q by (simp add: unat_push_bit M_def [symmetric])
    next
      case down
      have "M div 2 ^ nat sh < 2 ^ 32"
        by (rule le_less_trans [OF div_le_dividend]) (use M in simp)
      then show ?thesis using False down unfolding fl q by (simp add: unat_drop_bit M_def [symmetric])
    qed
  qed
qed

text \<open>The colour rows never read outside the tuning file: for every trigger and column, and
  whatever counts and interpolate flags a corrupt file holds, two files that agree on the
  \<open>0xd6c58\<close> bytes of the tuning give the same gain field and the same cm2 row.\<close>

theorem cm_rows_stay_in_file:
  "agree AR_ISP_TUNING_SIZE m m' \<Longrightarrow>
    ar_isp_cm_gain_field_from_blob m trigger ct = ar_isp_cm_gain_field_from_blob m' trigger ct \<and>
    ar_isp_cm2_from_blob m trigger ct = ar_isp_cm2_from_blob m' trigger ct"
  by (simp add: cm_gain_field_agree cm2_row_agree)

theorem cm_rows_stay_in_file_witness:
  "ar_isp_cm2_from_blob (\<lambda>_. 0) 100 0 = ar_isp_cm2_from_blob (\<lambda>i. if i < AR_ISP_TUNING_SIZE then 0 else 255) 100 0"
  using cm_rows_stay_in_file [OF agree_example] by blast

text \<open>The row selections of both colour stages pick the first row whose high edge is not below
  the trigger (or the last of at most five), ask for a blend only above row 0 and with a
  fraction below one, and the packed gain field fits its seven bits.\<close>

theorem cm_select_correct:
  assumes "ar_isp_cm_select m trigger = (row, t)" and "ar_isp_cm2_select m trigger = (row2, t2)"
  shows "row < 5 \<and> (r < row \<longrightarrow> cm_axis_hi 0x89d10 m r < trigger) \<and> unat t < 2 ^ 24 \<and> (t \<noteq> 0 \<longrightarrow> 0 < row) \<and>
    row2 < 5 \<and> (r < row2 \<longrightarrow> cm_axis_hi 0xa1318 m r < trigger) \<and> unat t2 < 2 ^ 24 \<and> (t2 \<noteq> 0 \<longrightarrow> 0 < row2) \<and>
    unat (ar_isp_cm_gain_field_from_blob m trigger ct) < 128"
proof -
  have pass: "r < row \<longrightarrow> cm_axis_hi axis m r < trigger" if "axis_select hdr axis m trigger = (row, t)" for hdr axis row t
    using cm_rows.pick_passes [of "clamp_count (ar_isp_get_le32 m (hdr + 8)) 5" r axis m trigger]
      clamp_count_bounds [of 5 "ar_isp_get_le32 m (hdr + 8)"] that
    by (auto simp: axis_select_def Let_def)
  note C = assms [unfolded select_axis]
  show ?thesis
    using axis_select_cases [OF C(1)] axis_select_cases [OF C(2)] pass [OF C(1)] pass [OF C(2)]
      cm_gain_field_range [of m trigger ct] by blast
qed

theorem cm_select_correct_witness:
  "\<exists>row t. ar_isp_cm_select (\<lambda>_. 0) 100 = (row, t) \<and> row < 5 \<and> unat t < 2 ^ 24"
proof -
  obtain row t row2 t2 where s: "ar_isp_cm_select (\<lambda>_. 0) 100 = (row, t)" "ar_isp_cm2_select (\<lambda>_. 0) 100 = (row2, t2)"
    by fastforce
  from cm_select_correct [OF s] s show ?thesis by blast
qed

end
