(* ===== verification/Isp_Codec.thy ===== *)
theory Isp_Codec
  imports Isp_Fields
begin

text \<open>
  \<open>ar-isp-codec.h\<close>: the packed pages of the ISP's coefficient tables.  A page is a byte buffer, a
  loop over records a \<open>fold\<close>, a C array of samples a list.  The lemmas read the packed pages
  back: every sample comes back from its record, the redundant overlap fields agree with the
  samples they repeat, and every byte of a page is written.
\<close>

section \<open>Definitions\<close>

definition ar_isp_tone_blend :: "u32 \<Rightarrow> u32 \<Rightarrow> u32 \<Rightarrow> u32" where
  "ar_isp_tone_blend low high t_q12 =
     (if t_q12 = 0 then low else drop_bit 12 (low * (0x1000 - t_q12) + high * t_q12))"

definition ar_isp_gamma_pack_page :: "mem \<Rightarrow> nat \<Rightarrow> u16 list \<Rightarrow> u16 \<Rightarrow> mem" where
  "ar_isp_gamma_pack_page dst0 base samples tail =
     fold (\<lambda>i dst.
       let s0 = ucast (samples ! (4 * i + 0)) AND 0xfff;
           s1 = ucast (samples ! (4 * i + 1)) AND 0xfff;
           s2 = ucast (samples ! (4 * i + 2)) AND 0xfff;
           s3 = ucast (samples ! (4 * i + 3)) AND 0xfff;
           nxt = (if i + 1 < 128 then ucast (samples ! (4 * (i + 1))) AND 0xfff else ucast tail AND 0xfff);
           rec = base + i * 16;
           d0 = ar_isp_put_le32 dst (rec + 0) (s0 OR push_bit 12 s1 OR push_bit 24 (s1 AND 0xff));
           d1 = ar_isp_put_le32 d0 (rec + 4) ((drop_bit 8 s1 AND 0xf) OR push_bit 4 s2 OR push_bit 16 s2 OR
                  push_bit 28 (s3 AND 0xf));
           d2 = ar_isp_put_le32 d1 (rec + 8) (drop_bit 4 s3 OR push_bit 8 s3 OR push_bit 20 nxt)
       in ar_isp_put_le32 d2 (rec + 12) 0) [0..<128] dst0"

text \<open>The monotonic clamp.\<close>

definition gamma_clamp :: "u16 list \<Rightarrow> nat \<Rightarrow> u16 list" where
  "gamma_clamp samples n =
     fold (\<lambda>i s. if s ! i < s ! (i - 1) then s[i := s ! (i - 1)] else s) [1..<n] samples"

definition gamma_samples :: "mem \<Rightarrow> nat \<Rightarrow> nat \<Rightarrow> u32 \<Rightarrow> u16 list" where
  "gamma_samples blob curve other t_q12 =
     map (\<lambda>i. let pos = i * 8 * 4
          in ucast (ar_isp_tone_blend (ar_isp_get_le32 blob (curve + pos)) (ar_isp_get_le32 blob (other + pos)) t_q12
               AND 0xfff)) [0..<512]"

definition ar_isp_gamma_from_blob :: "mem \<Rightarrow> nat \<Rightarrow> mem \<Rightarrow> u32 \<Rightarrow> u32 \<Rightarrow> u32 \<Rightarrow> mem" where
  "ar_isp_gamma_from_blob dst base blob low high t_q12 =
     (let curve = 0x26b90 + unat (low * 0x4000);
          other = 0x26b90 + unat (high * 0x4000);
          samples = gamma_clamp (gamma_samples blob curve other t_q12) 512;
          tail0 = ucast (ar_isp_tone_blend (ar_isp_get_le32 blob (curve + (4096 - 1) * 4))
                    (ar_isp_get_le32 blob (other + (4096 - 1) * 4)) t_q12 AND 0xfff);
          tail = (if tail0 < samples ! 511 then samples ! 511 else tail0)
      in ar_isp_gamma_pack_page dst base samples tail)"

definition ar_isp_drc_pack_bank :: "mem \<Rightarrow> nat \<Rightarrow> u32 list \<Rightarrow> mem" where
  "ar_isp_drc_pack_bank dst0 base samples =
     fold (\<lambda>i dst.
       let s0 = (samples ! (2 * i + 0)) AND 0xfffff;
           s1 = (samples ! (2 * i + 1)) AND 0xfffff;
           s2 = (samples ! (2 * i + 2)) AND 0xfffff;
           rec = base + i * 16;
           d0 = ar_isp_put_le32 dst (rec + 0) (s0 OR push_bit 20 s1);
           d1 = ar_isp_put_le32 d0 (rec + 4) (drop_bit 12 s1 OR push_bit 8 s1 OR push_bit 28 s2);
           d2 = ar_isp_put_le16 d1 (rec + 8) (ucast (drop_bit 4 s2));
           d3 = ar_isp_put_le16 d2 (rec + 10) 0
       in ar_isp_put_le32 d3 (rec + 12) 0) [0..<128] dst0"

definition drc_samples :: "mem \<Rightarrow> nat \<Rightarrow> nat \<Rightarrow> u32 \<Rightarrow> u32 list" where
  "drc_samples blob bank other t_q12 =
     map (\<lambda>i. ar_isp_tone_blend (ar_isp_get_le32 blob (bank + i * 4)) (ar_isp_get_le32 blob (other + i * 4)) t_q12)
       [0..<257]"

definition ar_isp_drc_from_blob :: "mem \<Rightarrow> nat \<Rightarrow> mem \<Rightarrow> u32 \<Rightarrow> u32 \<Rightarrow> u32 \<Rightarrow> mem" where
  "ar_isp_drc_from_blob dst0 base blob low high t_q12 =
     fold (\<lambda>b dst.
       let bank = 0x17b1c + unat (low * 0xc8c) + b * 0x404;
           other = 0x17b1c + unat (high * 0xc8c) + b * 0x404
       in ar_isp_drc_pack_bank dst (base + b * 0x800) (drc_samples blob bank other t_q12)) [0..<2] dst0"

definition ar_isp_f32_scale :: "u32 \<Rightarrow> u16" where
  "ar_isp_f32_scale bits =
     (let m = ar_isp_f32_mant bits; shift = (23 - 11) - ar_isp_f32_exp bits
      in if bits AND 0x80000000 \<noteq> 0 then 0
         else if shift \<ge> 32 then 0
         else if shift \<le> 0 then 0xffff
         else let scaled = drop_bit (nat shift) m in if scaled > 0xffff then 0xffff else ucast scaled)"

definition ar_isp_lsc_from_blob :: "mem \<Rightarrow> nat \<Rightarrow> mem \<Rightarrow> mem" where
  "ar_isp_lsc_from_blob dst0 base blob =
     fold (\<lambda>i dst.
       let x = ar_isp_f32_scale (ar_isp_get_le32 blob (0x929c + i * 4));
           y = ar_isp_f32_scale (ar_isp_get_le32 blob (0x910c + i * 4));
           rec = base + (i div 2) * 16 + (i mod 2) * 6
       in ar_isp_put_le16 (ar_isp_put_le16 (ar_isp_put_le16 dst (rec + 0) x) (rec + 2) x) (rec + 4) y) [0..<100]
     (fold (\<lambda>k dst. ar_isp_put_le32 dst (base + 4 * k) 0) [0..<0x340 div 4] dst0)"

definition ar_isp_compander_fill :: "mem \<Rightarrow> nat \<Rightarrow> u32 list \<Rightarrow> u32 list \<Rightarrow> mem" where
  "ar_isp_compander_fill dst0 base head mid =
     (let d1 = fold (\<lambda>i dst. ar_isp_put_le32 dst (base + i * 4) (head ! i)) [0..<0x900 div 4] dst0;
          d2 = fold (\<lambda>k dst. ar_isp_put_le32 dst (base + 0x900 + 4 * k) 0) [0..<(0x1000 - 0x900) div 4] d1;
          d3 = fold (\<lambda>i dst. ar_isp_put_le32 dst (base + 0x1000 + i * 4) (mid ! i)) [0..<0x800 div 4] d2
      in fold (\<lambda>k dst.
           let i = 0x1800 + 16 * k
           in ar_isp_put_le32 (ar_isp_put_le32 (ar_isp_put_le32 (ar_isp_put_le32 dst (base + i + 0) 0x00000100)
                (base + i + 4) 0x00010000) (base + i + 8) 0) (base + i + 12) 0) [0..<(0x7800 - 0x1800) div 16] d3)"

section \<open>The blend\<close>

lemma tone_blend_value:
  assumes "unat low \<le> 0xfffff" "unat high \<le> 0xfffff" "unat t \<le> 4096"
  shows "unat (ar_isp_tone_blend low high t) = (unat low * (4096 - unat t) + unat high * unat t) div 4096"
proof -
  have c: "unat (0x1000 - t) = 4096 - unat t" using assms(3) by (subst unat_le_minus) simp_all
  have "unat low * (4096 - unat t) \<le> 0xfffff * (4096 - unat t)" "unat high * unat t \<le> 0xfffff * unat t"
    using assms by (intro mult_right_mono; simp)+
  then have "unat low * (4096 - unat t) + unat high * unat t \<le> 0xfffff * (4096 - unat t) + 0xfffff * unat t"
    by (rule add_mono)
  also have "\<dots> = 0xfffff * 4096" using assms(3) by (simp flip: add_mult_distrib2)
  finally have s: "unat low * (4096 - unat t) + unat high * unat t \<le> 0xfffff * 4096" .
  have p: "unat (low * (0x1000 - t)) = unat low * (4096 - unat t)" "unat (high * t) = unat high * unat t"
    using s by (subst unat_mult_small; simp add: c)+
  have "unat (low * (0x1000 - t) + high * t) = unat low * (4096 - unat t) + unat high * unat t"
    using s by (subst unat_add_small) (simp_all add: p)
  then show ?thesis by (cases "t = 0") (simp_all add: ar_isp_tone_blend_def c_arith)
qed

lemma convex_div:
  assumes "t \<le> n" "0 < (n :: nat)" shows "min a b \<le> (a * (n - t) + b * t) div n" "(a * (n - t) + b * t) div n \<le> max a b"
proof -
  have e: "c * (n - t) + c * t = c * n" for c using assms(1) by (simp add: diff_mult_distrib2)
  have "min a b * (n - t) + min a b * t \<le> a * (n - t) + b * t" by (intro add_mono mult_right_mono) simp_all
  then show "min a b \<le> (a * (n - t) + b * t) div n" using assms(2) by (simp only: e less_eq_div_iff_mult_less_eq)
  have "a * (n - t) + b * t \<le> max a b * (n - t) + max a b * t" by (intro add_mono mult_right_mono) simp_all
  then have "(a * (n - t) + b * t) div n \<le> max a b * n div n" by (simp only: e div_le_mono)
  then show "(a * (n - t) + b * t) div n \<le> max a b" using assms(2) by simp
qed

section \<open>The gamma page\<close>

definition gamma_sample :: "mem \<Rightarrow> nat \<Rightarrow> nat \<Rightarrow> u32" where
  "gamma_sample page base j =
     (let rec = base + j div 4 * 16; k = j mod 4
      in if k = 0 then ar_isp_get_le32 page rec AND 0xfff
         else if k = 1 then drop_bit 12 (ar_isp_get_le32 page rec) AND 0xfff
         else if k = 2 then drop_bit 16 (ar_isp_get_le32 page (rec + 4)) AND 0xfff
         else drop_bit 8 (ar_isp_get_le32 page (rec + 8)) AND 0xfff)"

text \<open>The three words of one record.\<close>

definition gamma_words :: "u32 \<Rightarrow> u32 \<Rightarrow> u32 \<Rightarrow> u32 \<Rightarrow> u32 \<Rightarrow> u32 \<times> u32 \<times> u32" where
  "gamma_words s0 s1 s2 s3 nxt =
     (s0 OR push_bit 12 s1 OR push_bit 24 (s1 AND 0xff),
      (drop_bit 8 s1 AND 0xf) OR push_bit 4 s2 OR push_bit 16 s2 OR push_bit 28 (s3 AND 0xf),
      drop_bit 4 s3 OR push_bit 8 s3 OR push_bit 20 nxt)"

lemma codec_masks: "(0xfff :: u32) = mask 12" "(0xff :: u32) = mask 8" "(0xf :: u32) = mask 4" "(0xfffff :: u32) = mask 20"
  by (simp_all add: mask_eq_exp_minus_1)

lemma gamma_words_read:
  assumes "gamma_words (a AND mask 12) (b AND mask 12) (c AND mask 12) (d AND mask 12) (e AND mask 12) = (w0, w1, w2)"
  shows "w0 AND mask 12 = a AND mask 12" "drop_bit 12 w0 AND mask 12 = b AND mask 12"
    "drop_bit 16 w1 AND mask 12 = c AND mask 12" "drop_bit 8 w2 AND mask 12 = d AND mask 12"
    "drop_bit 20 w2 = e AND mask 12"
    "drop_bit 24 w0 = b AND mask 8" "w1 AND mask 4 = drop_bit 8 b AND mask 4" "drop_bit 4 w1 AND mask 12 = c AND mask 12"
    "drop_bit 28 w1 = d AND mask 4" "w2 AND mask 8 = drop_bit 4 d AND mask 8"
  using assms unfolding gamma_words_def codec_masks
  by (auto intro!: bit_word_eqI simp: bit_simps)

subsection \<open>Pages of sixteen-byte records\<close>

definition put_record :: "nat \<Rightarrow> u32 \<times> u32 \<times> u32 \<times> u32 \<Rightarrow> mem \<Rightarrow> mem" where
  "put_record pos ws m = (case ws of (w0, w1, w2, w3) \<Rightarrow>
     ar_isp_put_le32 (ar_isp_put_le32 (ar_isp_put_le32 (ar_isp_put_le32 m pos w0) (pos + 4) w1) (pos + 8) w2) (pos + 12) w3)"

lemma put_record_out: "p < pos \<or> pos + 16 \<le> p \<Longrightarrow> put_record pos ws m p = m p"
  by (auto simp: put_record_def put_le32_other split: prod.split)

lemma put_le32_in: "pos \<le> p \<Longrightarrow> p < pos + 4 \<Longrightarrow> ar_isp_put_le32 m pos v p = ar_isp_put_le32 m' pos v p"
proof -
  assume "pos \<le> p" "p < pos + 4"
  then have "p = pos \<or> p = pos + 1 \<or> p = pos + 2 \<or> p = pos + 3" by linarith
  then show ?thesis by (elim disjE) (simp_all add: ar_isp_put_le32_def)
qed

lemma put_record_in:
  assumes "pos \<le> p" "p < pos + 16" shows "put_record pos ws m p = put_record pos ws m' p"
proof -
  obtain w0 w1 w2 w3 where ws: "ws = (w0, w1, w2, w3)" by (cases ws)
  consider "p < pos + 4" | "pos + 4 \<le> p" "p < pos + 4 + 4" | "pos + 8 \<le> p" "p < pos + 8 + 4"
    | "pos + 12 \<le> p" "p < pos + 12 + 4" using assms by linarith
  then show ?thesis
    by cases (use assms in \<open>simp_all add: put_record_def ws put_le32_other\<close>, (rule put_le32_in; simp)+)
qed

lemma get_put_record:
  "ar_isp_get_le32 (put_record pos (w0, w1, w2, w3) m) pos = w0"
  "ar_isp_get_le32 (put_record pos (w0, w1, w2, w3) m) (pos + 4) = w1"
  "ar_isp_get_le32 (put_record pos (w0, w1, w2, w3) m) (pos + 8) = w2"
  "ar_isp_get_le32 (put_record pos (w0, w1, w2, w3) m) (pos + 12) = w3"
  by (simp_all add: put_record_def mem_simps)

lemma record_regions: "i \<noteq> j \<Longrightarrow> {base + 16 * i ..< base + 16 * i + 16} \<inter> {base + 16 * j ..< base + 16 * j + 16 :: nat} = {}"
proof -
  assume "i \<noteq> j"
  then have "16 * i + 16 \<le> 16 * j \<or> 16 * j + 16 \<le> 16 * i" by linarith
  then show ?thesis by auto
qed

lemma page_words:
  assumes "j < n" "q + 4 \<le> 16"
  shows "ar_isp_get_le32 (fold (\<lambda>i. put_record (base + 16 * i) (ws i)) [0..<n] m) (base + 16 * j + q) =
    ar_isp_get_le32 (put_record (base + 16 * j) (ws j) m) (base + 16 * j + q)"
proof (rule get_le32_cong)
  fix p assume p: "base + 16 * j + q \<le> p" "p < base + 16 * j + q + 4"
  show "fold (\<lambda>i. put_record (base + 16 * i) (ws i)) [0..<n] m p = put_record (base + 16 * j) (ws j) m p"
    by (rule fold_regions(1) [where R = "\<lambda>i. {base + 16 * i ..< base + 16 * i + 16}"])
       (use assms p record_regions in \<open>auto intro: put_record_out put_record_in\<close>)
qed

lemma page_frame:
  "p < base \<or> base + 16 * n \<le> p \<Longrightarrow> fold (\<lambda>i. put_record (base + 16 * i) (ws i)) [0..<n] m p = m p"
proof (rule fold_regions(2) [where R = "\<lambda>i. {base + 16 * i ..< base + 16 * i + 16}"])
  fix j assume o: "p < base \<or> base + 16 * n \<le> p" and "j \<in> set [0..<n]"
  then have "16 * j + 16 \<le> 16 * n" by auto
  then show "p \<notin> {base + 16 * j..<base + 16 * j + 16}" using o by auto
qed (use record_regions in \<open>auto intro: put_record_out put_record_in\<close>)

definition gamma_record :: "u16 list \<Rightarrow> u16 \<Rightarrow> nat \<Rightarrow> u32 \<times> u32 \<times> u32 \<times> u32" where
  "gamma_record samples tail i =
     (case gamma_words (ucast (samples ! (4 * i)) AND mask 12) (ucast (samples ! (4 * i + 1)) AND mask 12)
        (ucast (samples ! (4 * i + 2)) AND mask 12) (ucast (samples ! (4 * i + 3)) AND mask 12)
        (ucast (if i + 1 < 128 then samples ! (4 * (i + 1)) else tail) AND mask 12) of (w0, w1, w2) \<Rightarrow> (w0, w1, w2, 0))"

lemma gamma_page_records:
  "ar_isp_gamma_pack_page dst base samples tail =
    fold (\<lambda>i. put_record (base + 16 * i) (gamma_record samples tail i)) [0..<128] dst"
  unfolding ar_isp_gamma_pack_page_def
  by (intro fold_cong refl ext)
     (simp add: put_record_def gamma_record_def gamma_words_def Let_def codec_masks mult.commute del: upt_rec_numeral)

lemma gamma_page_sample:
  assumes "j < 512"
  shows "gamma_sample (ar_isp_gamma_pack_page dst base samples tail) base j = ucast (samples ! j) AND mask 12"
proof -
  define i where "i = j div 4"
  have i: "i < 128" using assms by (simp add: i_def)
  define page where "page = ar_isp_gamma_pack_page dst base samples tail"
  obtain w0 w1 w2 where r: "gamma_record samples tail i = (w0, w1, w2, 0)"
    and w: "gamma_words (ucast (samples ! (4 * i)) AND mask 12) (ucast (samples ! (4 * i + 1)) AND mask 12)
        (ucast (samples ! (4 * i + 2)) AND mask 12) (ucast (samples ! (4 * i + 3)) AND mask 12)
        (ucast (if i + 1 < 128 then samples ! (4 * (i + 1)) else tail) AND mask 12) = (w0, w1, w2)"
    by (cases "gamma_words (ucast (samples ! (4 * i)) AND mask 12) (ucast (samples ! (4 * i + 1)) AND mask 12)
        (ucast (samples ! (4 * i + 2)) AND mask 12) (ucast (samples ! (4 * i + 3)) AND mask 12)
        (ucast (if i + 1 < 128 then samples ! (4 * (i + 1)) else tail) AND mask 12)") (simp add: gamma_record_def)
  have g: "ar_isp_get_le32 page (base + i * 16) = w0" "ar_isp_get_le32 page (base + i * 16 + 4) = w1"
    "ar_isp_get_le32 page (base + i * 16 + 8) = w2"
    using page_words [OF i, of 0 base] page_words [OF i, of 4 base] page_words [OF i, of 8 base]
    by (simp_all add: page_def gamma_page_records r get_put_record mult.commute del: upt_rec_numeral)
  have jd: "j div 4 = i" by (simp add: i_def)
  have gs: "gamma_sample page base j = (if j mod 4 = 0 then w0 AND mask 12 else if j mod 4 = 1 then drop_bit 12 w0 AND mask 12
      else if j mod 4 = 2 then drop_bit 16 w1 AND mask 12 else drop_bit 8 w2 AND mask 12)"
    unfolding gamma_sample_def Let_def jd g codec_masks ..
  have "j = 4 * i + j mod 4" by (simp add: i_def)
  then have sj: "samples ! j = samples ! (4 * i + j mod 4)" by (rule arg_cong)
  have "j mod 4 < 4" by simp
  then consider "j mod 4 = 0" | "j mod 4 = 1" | "j mod 4 = 2" | "j mod 4 = 3" by linarith
  then show ?thesis
    unfolding page_def [symmetric] gs gamma_words_read [OF w] sj by cases simp_all
qed

subsection \<open>The monotonic clamp\<close>

definition run_max :: "u16 list \<Rightarrow> nat \<Rightarrow> u16" where
  "run_max s i = Max (set (take (Suc i) s))"

lemma run_max_Suc: "Suc i < length s \<Longrightarrow> run_max s (Suc i) = max (run_max s i) (s ! Suc i)"
  by (simp add: run_max_def take_Suc_conv_app_nth [of "Suc i"] Max_insert2 max.commute)
    (subst Max_insert, auto simp: max.commute)

lemma gamma_clamp_result:
  "0 < n \<Longrightarrow> n \<le> length s \<Longrightarrow> length (gamma_clamp s n) = length s \<and>
    (\<forall>i<length s. gamma_clamp s n ! i = (if i < n then run_max s i else s ! i))"
proof (induction n)
  case (Suc n)
  show ?case
  proof (cases "n = 0")
    case True
    have "s ! 0 = run_max s 0" using Suc.prems by (cases s) (simp_all add: run_max_def)
    then show ?thesis using True by (simp add: gamma_clamp_def less_Suc_eq)
  next
    case False
    define t where "t = gamma_clamp s n"
    have I: "length t = length s" "\<And>i. i < length s \<Longrightarrow> t ! i = (if i < n then run_max s i else s ! i)"
      using Suc.IH False Suc.prems by (simp_all add: t_def)
    have step: "gamma_clamp s (Suc n) = (if t ! n < t ! (n - 1) then t[n := t ! (n - 1)] else t)"
      using False by (simp add: gamma_clamp_def t_def)
    have prev: "t ! (n - 1) = run_max s (n - 1)" "t ! n = s ! n" using I(2) False Suc.prems by simp_all
    have nn: "n - 1 < length s" "Suc (n - 1) = n" using False Suc.prems by simp_all
    have "run_max s n = max (run_max s (n - 1)) (s ! n)"
      using run_max_Suc [of "n - 1" s] nn Suc.prems by simp
    then have "gamma_clamp s (Suc n) = t[n := run_max s n]"
      unfolding step prev using prev(2) list_update_id [of t n] by (auto simp: max_def not_less)
    then show ?thesis using I Suc.prems by (auto simp: nth_list_update less_Suc_eq)
  qed
qed simp

lemma run_max_mono: "i \<le> j \<Longrightarrow> j < length s \<Longrightarrow> run_max s i \<le> run_max s j"
  unfolding run_max_def by (intro Max_mono) (auto intro: set_take_subset_set_take [THEN subsetD])

lemma run_max_in: "j < length s \<Longrightarrow> run_max s j \<in> set s"
proof -
  assume "j < length s"
  then have "run_max s j \<in> set (take (Suc j) s)" unfolding run_max_def by (intro Max_in) auto
  then show ?thesis using in_set_takeD by fast
qed

lemma gamma_samples_range: "x \<in> set (gamma_samples blob c d t) \<Longrightarrow> ucast x AND mask 12 = (ucast x :: u32)"
proof -
  assume "x \<in> set (gamma_samples blob c d t)"
  then obtain y :: u32 where x: "x = ucast (y AND 0xfff)" by (auto simp: gamma_samples_def Let_def simp del: upt_rec_numeral)
  show ?thesis unfolding x codec_masks by (rule bit_word_eqI) (auto simp: bit_simps)
qed

lemma ucast_mono16: "a \<le> b \<Longrightarrow> (ucast (a :: u16) :: u32) \<le> ucast b"
  by (simp add: word_le_nat_alt unat_ucast_up)

text \<open>C21: The gamma page built from the tuning file: sample \<open>j\<close> of the page is the running maximum
  of the decimated blend of the two curves, so the transfer curve never falls, the forward
  field of every record is the first sample of the next one, the last one is not below the last
  sample, and nothing outside the page is written.\<close>

theorem gamma_page_is_monotone_curve:
  fixes low high t :: u32
  assumes "page = ar_isp_gamma_from_blob dst base blob low high t"
    and "S = gamma_samples blob (0x26b90 + unat (low * 0x4000)) (0x26b90 + unat (high * 0x4000)) t"
    and "j < 512"
  shows "gamma_sample page base j = ucast (run_max S j) \<and>
    (i \<le> j \<longrightarrow> gamma_sample page base i \<le> gamma_sample page base j) \<and>
    (k < 127 \<longrightarrow> drop_bit 20 (ar_isp_get_le32 page (base + 16 * k + 8)) = gamma_sample page base (4 * (k + 1))) \<and>
    gamma_sample page base 511 \<le> drop_bit 20 (ar_isp_get_le32 page (base + 16 * 127 + 8)) \<and>
    (p < base \<or> base + 0x800 \<le> p \<longrightarrow> page p = dst p)"
proof -
  have len: "length S = 512" by (simp add: assms(2) gamma_samples_def)
  define C where "C = gamma_clamp S 512"
  have C: "C ! i = run_max S i" if "i < 512" for i using gamma_clamp_result [of 512 S] len that by (simp add: C_def)
  define tail0 :: u16 where "tail0 = ucast (ar_isp_tone_blend (ar_isp_get_le32 blob (0x26b90 + unat (low * 0x4000) + (4096 - 1) * 4))
      (ar_isp_get_le32 blob (0x26b90 + unat (high * 0x4000) + (4096 - 1) * 4)) t AND 0xfff)"
  define tail where "tail = (if tail0 < C ! 511 then C ! 511 else tail0)"
  have page: "page = ar_isp_gamma_pack_page dst base C tail"
    by (simp only: assms ar_isp_gamma_from_blob_def Let_def C_def tail_def tail0_def)
  have rng: "ucast (run_max S i) AND mask 12 = (ucast (run_max S i) :: u32)" if "i < 512" for i
    using gamma_samples_range run_max_in [of i S] len that unfolding assms(2) by simp
  have val: "gamma_sample page base i = ucast (run_max S i)" if "i < 512" for i
    unfolding page gamma_page_sample [OF that] C [OF that] by (rule rng [OF that])
  have t0: "ucast tail0 AND mask 12 = (ucast tail0 :: u32)"
    unfolding tail0_def codec_masks by (rule bit_word_eqI) (auto simp: bit_simps)
  have tail: "ucast tail AND mask 12 = (ucast tail :: u32)" using t0 rng C by (simp add: tail_def)
  have fwd: "drop_bit 20 (ar_isp_get_le32 page (base + 16 * k + 8)) =
      ucast (if k + 1 < 128 then C ! (4 * (k + 1)) else tail) AND mask 12" if k: "k < 128" for k
  proof -
    obtain w0 w1 w2 where w: "gamma_words (ucast (C ! (4 * k)) AND mask 12) (ucast (C ! (4 * k + 1)) AND mask 12)
        (ucast (C ! (4 * k + 2)) AND mask 12) (ucast (C ! (4 * k + 3)) AND mask 12)
        (ucast (if k + 1 < 128 then C ! (4 * (k + 1)) else tail) AND mask 12) = (w0, w1, w2)" by (rule prod_cases3)
    have "gamma_record C tail k = (w0, w1, w2, 0)" unfolding gamma_record_def w by simp
    then have "ar_isp_get_le32 page (base + 16 * k + 8) = w2"
      using page_words [OF k, of 8 base] by (simp add: page gamma_page_records get_put_record del: upt_rec_numeral)
    then show ?thesis using gamma_words_read(5) [OF w] by simp
  qed
  have mono: "i \<le> j \<longrightarrow> gamma_sample page base i \<le> gamma_sample page base j"
  proof
    assume "i \<le> j"
    then show "gamma_sample page base i \<le> gamma_sample page base j"
      using assms(3) len by (simp add: val ucast_mono16 run_max_mono)
  qed
  have "drop_bit 20 (ar_isp_get_le32 page (base + 16 * k + 8)) = gamma_sample page base (4 * (k + 1))" if "k < 127"
    using fwd [of k] that by (simp add: val C rng)
  moreover have "gamma_sample page base 511 \<le> drop_bit 20 (ar_isp_get_le32 page (base + 16 * 127 + 8))"
  proof -
    have "drop_bit 20 (ar_isp_get_le32 page (base + 16 * 127 + 8)) = ucast tail" using fwd [of 127] tail by simp
    moreover have "run_max S 511 \<le> tail" using C [of 511] by (auto simp: tail_def)
    ultimately show ?thesis by (simp add: val ucast_mono16)
  qed
  moreover have "p < base \<or> base + 0x800 \<le> p \<Longrightarrow> page p = dst p"
    unfolding page gamma_page_records by (rule page_frame) simp
  ultimately show ?thesis using val [OF assms(3)] mono by blast
qed

theorem gamma_page_is_monotone_curve_witness:
  "gamma_sample (ar_isp_gamma_from_blob (\<lambda>_. 0) 0 (\<lambda>_. 7) 1 2 9) 0 10 \<le> gamma_sample (ar_isp_gamma_from_blob (\<lambda>_. 0) 0 (\<lambda>_. 7) 1 2 9) 0 200"
  using gamma_page_is_monotone_curve [OF refl refl, where j = 200 and i = 10 and dst = "\<lambda>_. 0" and base = 0
    and blob = "\<lambda>_. 7" and low = 1 and high = 2 and t = 9, THEN conjunct2, THEN conjunct1] by simp

section \<open>The DRC banks\<close>

definition drc_record :: "u32 list \<Rightarrow> nat \<Rightarrow> u32 \<times> u32 \<times> u32 \<times> u32" where
  "drc_record samples i =
     (let s0 = (samples ! (2 * i)) AND mask 20; s1 = (samples ! (2 * i + 1)) AND mask 20;
          s2 = (samples ! (2 * i + 2)) AND mask 20
      in (s0 OR push_bit 20 s1, drop_bit 12 s1 OR push_bit 8 s1 OR push_bit 28 s2,
          ucast (ucast (drop_bit 4 s2) :: u16), 0))"

lemma put_le16_pair: "ar_isp_put_le16 (ar_isp_put_le16 m pos a) (pos + 2) 0 = ar_isp_put_le32 m pos (ucast a)"
proof -
  have u: "(ucast (ucast a :: u32) :: u8) = ucast a" "(ucast (drop_bit 8 (ucast a :: u32)) :: u8) = ucast (drop_bit 8 a)"
    "(ucast (drop_bit 16 (ucast a :: u32)) :: u8) = 0" "(ucast (drop_bit 24 (ucast a :: u32)) :: u8) = 0"
    by (rule bit_word_eqI; auto simp: bit_simps dest: bit_imp_le_length)+
  show ?thesis by (rule ext) (simp add: ar_isp_put_le16_def ar_isp_put_le32_def u)
qed

lemma put_le16_pair_at: "ar_isp_put_le16 (ar_isp_put_le16 m (q + 8) a) (q + 10) 0 = ar_isp_put_le32 m (q + 8) (ucast a)"
proof -
  have e: "q + 8 + 2 = q + 10" by simp
  show ?thesis using put_le16_pair [of m "q + 8" a] unfolding e .
qed

lemma drc_bank_records:
  "ar_isp_drc_pack_bank dst base samples = fold (\<lambda>i. put_record (base + 16 * i) (drc_record samples i)) [0..<128] dst"
  unfolding ar_isp_drc_pack_bank_def
  by (intro fold_cong refl ext)
     (simp add: put_record_def drc_record_def Let_def codec_masks mult.commute put_le16_pair_at del: upt_rec_numeral)

text \<open>The three samples of record \<open>i\<close>, and the second copy of the middle one.\<close>

definition drc_decode :: "mem \<Rightarrow> nat \<Rightarrow> nat \<Rightarrow> u32 list" where
  "drc_decode page base i =
     (let w0 = ar_isp_get_le32 page (base + 16 * i); w1 = ar_isp_get_le32 page (base + 16 * i + 4);
          h = ar_isp_get_le32 page (base + 16 * i + 8)
      in [w0 AND mask 20, drop_bit 20 w0 OR push_bit 12 (w1 AND mask 8), drop_bit 28 w1 OR push_bit 4 (h AND mask 16),
          drop_bit 8 w1 AND mask 20])"

lemma drc_bank_decode:
  assumes "i < 128"
  shows "drc_decode (ar_isp_drc_pack_bank dst base samples) base i =
    [(samples ! (2 * i)) AND mask 20, (samples ! (2 * i + 1)) AND mask 20, (samples ! (2 * i + 2)) AND mask 20,
     (samples ! (2 * i + 1)) AND mask 20]"
proof -
  define a b c where "a = samples ! (2 * i)" and "b = samples ! (2 * i + 1)" and "c = samples ! (2 * i + 2)"
  have r: "drc_record samples i = ((a AND mask 20) OR push_bit 20 (b AND mask 20),
      drop_bit 12 (b AND mask 20) OR push_bit 8 (b AND mask 20) OR push_bit 28 (c AND mask 20),
      ucast (ucast (drop_bit 4 (c AND mask 20)) :: u16), 0)"
    unfolding drc_record_def Let_def a_def b_def c_def ..
  have g: "ar_isp_get_le32 (ar_isp_drc_pack_bank dst base samples) (base + 16 * i) = (a AND mask 20) OR push_bit 20 (b AND mask 20)"
    "ar_isp_get_le32 (ar_isp_drc_pack_bank dst base samples) (base + 16 * i + 4) =
      drop_bit 12 (b AND mask 20) OR push_bit 8 (b AND mask 20) OR push_bit 28 (c AND mask 20)"
    "ar_isp_get_le32 (ar_isp_drc_pack_bank dst base samples) (base + 16 * i + 8) = ucast (ucast (drop_bit 4 (c AND mask 20)) :: u16)"
    using page_words [OF assms, of 0 base] page_words [OF assms, of 4 base] page_words [OF assms, of 8 base]
    by (simp_all only: drc_bank_records r get_put_record add_0_right)
  have "((a AND mask 20) OR push_bit 20 (b AND mask 20)) AND mask 20 = a AND mask 20"
    by (rule bit_word_eqI) (auto simp: bit_simps)
  moreover have "drop_bit 20 ((a AND mask 20) OR push_bit 20 (b AND mask 20)) OR
       push_bit 12 ((drop_bit 12 (b AND mask 20) OR push_bit 8 (b AND mask 20) OR push_bit 28 (c AND mask 20)) AND mask 8) = b AND mask 20"
    by (rule bit_word_eqI, case_tac "n < 12") (auto simp: bit_simps)
  moreover have "drop_bit 28 (drop_bit 12 (b AND mask 20) OR push_bit 8 (b AND mask 20) OR push_bit 28 (c AND mask 20)) OR
       push_bit 4 (ucast (ucast (drop_bit 4 (c AND mask 20)) :: u16) AND mask 16) = c AND mask 20"
    by (rule bit_word_eqI, case_tac "n < 4") (auto simp: bit_simps)
  moreover have "drop_bit 8 (drop_bit 12 (b AND mask 20) OR push_bit 8 (b AND mask 20) OR push_bit 28 (c AND mask 20)) AND mask 20 = b AND mask 20"
    by (rule bit_word_eqI) (auto simp: bit_simps)
  ultimately show ?thesis unfolding drc_decode_def Let_def g by (simp only: a_def b_def c_def)
qed

lemma drc_decode_cong:
  assumes "\<And>p. base \<le> p \<Longrightarrow> p < base + 0x800 \<Longrightarrow> m p = m' p" "i < 128"
  shows "drc_decode m base i = drc_decode m' base i"
proof -
  have "ar_isp_get_le32 m (base + 16 * i + q) = ar_isp_get_le32 m' (base + 16 * i + q)" if "q + 4 \<le> 16" for q
    by (rule get_le32_cong) (use assms that in simp)
  from this [of 0] this [of 4] this [of 8] show ?thesis by (simp add: drc_decode_def)
qed

text \<open>Both banks of the DRC page decode to the blended profile: record \<open>i\<close> of bank \<open>b\<close> holds
  samples \<open>2i\<close>, \<open>2i+1\<close> and \<open>2i+2\<close> in twenty bits each, with the second copy of the middle one
  equal to the first, consecutive records share their border sample, and nothing outside the
  page's first half is written.\<close>

theorem drc_page_roundtrip:
  fixes low high t :: u32
  assumes "page = ar_isp_drc_from_blob dst base blob low high t" and "b < 2" "i < 128"
    and "S = drc_samples blob (0x17b1c + unat (low * 0xc8c) + b * 0x404) (0x17b1c + unat (high * 0xc8c) + b * 0x404) t"
  shows "drc_decode page (base + b * 0x800) i =
      [(S ! (2 * i)) AND mask 20, (S ! (2 * i + 1)) AND mask 20, (S ! (2 * i + 2)) AND mask 20, (S ! (2 * i + 1)) AND mask 20] \<and>
    (i + 1 < 128 \<longrightarrow> drc_decode page (base + b * 0x800) i ! 2 = drc_decode page (base + b * 0x800) (i + 1) ! 0) \<and>
    (p < base \<or> base + 0x1000 \<le> p \<longrightarrow> page p = dst p)"
proof -
  define smp where "smp b = drc_samples blob (0x17b1c + unat (low * 0xc8c) + b * 0x404) (0x17b1c + unat (high * 0xc8c) + b * 0x404) t" for b
  have page: "page = ar_isp_drc_pack_bank (ar_isp_drc_pack_bank dst base (smp 0)) (base + 0x800) (smp 1)"
    unfolding assms(1) ar_isp_drc_from_blob_def smp_def by (simp add: numeral_2_eq_2)
  have frame: "ar_isp_drc_pack_bank m q s p = m p" if "p < q \<or> q + 0x800 \<le> p" for m q s p
    unfolding drc_bank_records by (rule page_frame) (use that in simp)
  have dec: "drc_decode page (base + b * 0x800) k = [(S ! (2 * k)) AND mask 20, (S ! (2 * k + 1)) AND mask 20,
      (S ! (2 * k + 2)) AND mask 20, (S ! (2 * k + 1)) AND mask 20]" if k: "k < 128" for k
  proof (cases "b = 0")
    case True
    have "drc_decode page base k = drc_decode (ar_isp_drc_pack_bank dst base (smp 0)) base k"
      by (rule drc_decode_cong [OF _ k]) (simp add: page frame)
    then show ?thesis using drc_bank_decode [OF k] True by (simp add: assms(4) smp_def)
  next
    case False
    then have "b = 1" using assms(2) by simp
    then show ?thesis using drc_bank_decode [OF k] by (simp add: page assms(4) smp_def)
  qed
  moreover have "p < base \<or> base + 0x1000 \<le> p \<Longrightarrow> page p = dst p"
    unfolding page using frame [of p base dst "smp 0"]
      frame [of p "base + 0x800" "ar_isp_drc_pack_bank dst base (smp 0)" "smp 1"] by auto
  ultimately show ?thesis using assms(3) by simp
qed

theorem drc_page_roundtrip_witness:
  "drc_decode (ar_isp_drc_from_blob (\<lambda>_. 0) 0 (\<lambda>_. 1) 0 1 7) 0 3 ! 2 = drc_decode (ar_isp_drc_from_blob (\<lambda>_. 0) 0 (\<lambda>_. 1) 0 1 7) 0 4 ! 0"
  using drc_page_roundtrip [OF refl _ _ refl, where b = 0 and i = 3 and dst = "\<lambda>_. 0" and base = 0
    and blob = "\<lambda>_. 1" and low = 0 and high = 1 and t = 7, THEN conjunct2, THEN conjunct1] by simp

section \<open>The lens-shading grid\<close>

lemma f32_scale_floor:
  "unat (ar_isp_f32_scale bits) = (if 2 ^ 31 \<le> unat bits then 0 else min 0xffff (nat \<lfloor>f32_val bits * 2 ^ 11\<rfloor>))"
proof (cases "2 ^ 31 \<le> unat bits")
  case True
  then show ?thesis using sign_clear [of bits] by (simp add: ar_isp_f32_scale_def Let_def)
next
  case False
  define M sh where "M = unat (ar_isp_f32_mant bits)" and "sh = 12 - ar_isp_f32_exp bits"
  have M: "2 ^ 23 \<le> M" "M < 2 ^ 24" using f32_mant_bounds [of bits] by (simp_all add: M_def)
  have fl: "nat \<lfloor>f32_val bits * 2 ^ 11\<rfloor> = (if sh \<le> 0 then M * 2 ^ nat (- sh) else M div 2 ^ nat sh)"
    using fixed_point_floor [of bits 11] False by (simp add: M_def sh_def)
  have q: "ar_isp_f32_scale bits =
      (if sh \<ge> 32 then 0 else if sh \<le> 0 then 0xffff
       else if drop_bit (nat sh) (ar_isp_f32_mant bits) > 0xffff then 0xffff
       else ucast (drop_bit (nat sh) (ar_isp_f32_mant bits)))"
    using False sign_clear [of bits] by (simp add: ar_isp_f32_scale_def Let_def sh_def)
  consider (z) "32 \<le> sh" | (sat) "sh \<le> 0" | (down) "0 < sh" "sh < 32" by linarith
  then show ?thesis
  proof cases
    case z
    have "(2::nat) ^ 32 \<le> 2 ^ nat sh" using z by (intro power_increasing) auto
    then show ?thesis using False z M unfolding fl q by simp
  next
    case sat
    have "2 ^ 23 * 1 \<le> M * 2 ^ nat (- sh)" using M by (intro mult_le_mono) simp_all
    then show ?thesis using False sat unfolding fl q by simp
  next
    case down
    have d: "unat (drop_bit (nat sh) (ar_isp_f32_mant bits)) = M div 2 ^ nat sh" by (simp add: unat_drop_bit M_def)
    show ?thesis using False down unfolding fl q
      by (simp add: word_less_nat_alt d unat_ucast_mod min_def)
  qed
qed

definition lsc_step :: "mem \<Rightarrow> nat \<Rightarrow> nat \<Rightarrow> mem \<Rightarrow> mem" where
  "lsc_step blob base i dst =
     (let x = ar_isp_f32_scale (ar_isp_get_le32 blob (0x929c + i * 4));
          y = ar_isp_f32_scale (ar_isp_get_le32 blob (0x910c + i * 4));
          rec = base + (i div 2) * 16 + (i mod 2) * 6
      in ar_isp_put_le16 (ar_isp_put_le16 (ar_isp_put_le16 dst rec x) (rec + 2) x) (rec + 4) y)"

definition lsc_at :: "nat \<Rightarrow> nat \<Rightarrow> nat" where
  "lsc_at base i = base + (i div 2) * 16 + (i mod 2) * 6"

lemma lsc_region: "i \<noteq> j \<Longrightarrow> {lsc_at base i ..< lsc_at base i + 6} \<inter> {lsc_at base j ..< lsc_at base j + 6} = {}"
proof -
  assume "i \<noteq> j"
  then have "i div 2 * 2 + i mod 2 \<noteq> j div 2 * 2 + j mod 2" by simp
  moreover have "i mod 2 \<le> 1" "j mod 2 \<le> 1" by auto
  ultimately have "lsc_at base i + 6 \<le> lsc_at base j \<or> lsc_at base j + 6 \<le> lsc_at base i"
    unfolding lsc_at_def by arith
  then show ?thesis by auto
qed

lemma put_le16_in: "pos \<le> p \<Longrightarrow> p < pos + 2 \<Longrightarrow> ar_isp_put_le16 m pos v p = ar_isp_put_le16 m' pos v p"
  by (auto simp: ar_isp_put_le16_def less_Suc_eq)

lemma lsc_step_out: "p \<notin> {lsc_at base i ..< lsc_at base i + 6} \<Longrightarrow> lsc_step blob base i m p = m p"
  by (auto simp: lsc_step_def lsc_at_def Let_def put_le16_other)

lemma lsc_step_in:
  assumes "p \<in> {lsc_at base i ..< lsc_at base i + 6}" shows "lsc_step blob base i m p = lsc_step blob base i m' p"
proof -
  define q where "q = lsc_at base i"
  have p: "q \<le> p" "p < q + 6" using assms by (simp_all add: q_def)
  consider "p < q + 2" | "q + 2 \<le> p" "p < q + 2 + 2" | "q + 4 \<le> p" "p < q + 4 + 2" using p by linarith
  then show ?thesis
    unfolding lsc_step_def Let_def lsc_at_def [symmetric] q_def [symmetric]
    by cases (use p in \<open>simp_all add: put_le16_other\<close>, (rule put_le16_in; simp)+)
qed

lemma zero_fold: "fold (\<lambda>k dst. ar_isp_put_le32 dst (base + 4 * k) 0) [0..<n] m p =
    (if base \<le> p \<and> p < base + 4 * n then 0 else m p)"
proof (induction n)
  case (Suc n)
  consider "p = base + 4 * n" | "p = base + 4 * n + 1" | "p = base + 4 * n + 2" | "p = base + 4 * n + 3"
    | "p < base + 4 * n" | "base + 4 * n + 4 \<le> p" by linarith
  then show ?case using Suc by cases (simp_all add: ar_isp_put_le32_def)
qed auto

text \<open>The lens-shading region: grid point \<open>i\<close> sits in record \<open>i div 2\<close> at byte 0 or 6 as the
  triplet (x, x, y), each the floor of 2048 times its tuning value, saturated at 0xffff and 0 for
  a negative one; every other byte of the 0x340 is zero and no byte outside is written.\<close>

theorem lsc_grid_layout:
  assumes "page = ar_isp_lsc_from_blob dst base blob" and "i < 100"
  shows "ar_isp_get_le16 page (lsc_at base i) = ar_isp_f32_scale (ar_isp_get_le32 blob (0x929c + i * 4)) \<and>
    ar_isp_get_le16 page (lsc_at base i + 2) = ar_isp_f32_scale (ar_isp_get_le32 blob (0x929c + i * 4)) \<and>
    ar_isp_get_le16 page (lsc_at base i + 4) = ar_isp_f32_scale (ar_isp_get_le32 blob (0x910c + i * 4)) \<and>
    unat (ar_isp_f32_scale bits) = (if 2 ^ 31 \<le> unat bits then 0 else min 0xffff (nat \<lfloor>f32_val bits * 2 ^ 11\<rfloor>)) \<and>
    (base \<le> p \<longrightarrow> p < base + 0x340 \<longrightarrow> (\<forall>k<100. p \<notin> {lsc_at base k ..< lsc_at base k + 6}) \<longrightarrow> page p = 0) \<and>
    (p < base \<or> base + 0x340 \<le> p \<longrightarrow> page p = dst p)"
proof -
  define z where "z = fold (\<lambda>k dst. ar_isp_put_le32 dst (base + 4 * k) 0) [0..<0x340 div 4] dst"
  have page: "page = fold (lsc_step blob base) [0..<100] z"
    unfolding assms(1) ar_isp_lsc_from_blob_def z_def
    by (intro fold_cong refl ext) (simp add: lsc_step_def Let_def del: upt_rec_numeral)
  have zp: "z q = (if base \<le> q \<and> q < base + 0x340 then 0 else dst q)" for q unfolding z_def zero_fold by simp
  let ?R = "\<lambda>i. {lsc_at base i ..< lsc_at base i + 6}"
  have inr: "page q = lsc_step blob base i z q" if "q \<in> ?R i" for q
    unfolding page
    by (rule fold_regions(1) [where R = ?R])
       (use that assms(2) lsc_step_out lsc_step_in lsc_region in \<open>simp_all only: set_upt atLeastLessThan_iff\<close>, auto)
  have outr: "page q = z q" if "\<And>k. k < 100 \<Longrightarrow> q \<notin> ?R k" for q
    unfolding page
    by (rule fold_regions(2) [where R = ?R])
       (use that lsc_step_out lsc_step_in lsc_region in \<open>simp_all only: set_upt atLeastLessThan_iff\<close>, auto)
  have rd: "ar_isp_get_le16 page (lsc_at base i + k) = ar_isp_get_le16 (lsc_step blob base i z) (lsc_at base i + k)" if "k + 2 \<le> 6" for k
    by (rule get_le16_cong) (use that inr in simp)
  have g: "ar_isp_get_le16 page (lsc_at base i) = ar_isp_f32_scale (ar_isp_get_le32 blob (0x929c + i * 4))"
    "ar_isp_get_le16 page (lsc_at base i + 2) = ar_isp_f32_scale (ar_isp_get_le32 blob (0x929c + i * 4))"
    "ar_isp_get_le16 page (lsc_at base i + 4) = ar_isp_f32_scale (ar_isp_get_le32 blob (0x910c + i * 4))"
    using rd [of 0] rd [of 2] rd [of 4]
    unfolding lsc_step_def Let_def lsc_at_def [symmetric] by (simp_all add: mem_simps)
  have far: "q \<notin> ?R k" if "k < 100" "q < base \<or> base + 0x340 \<le> q" for q k
  proof -
    have "k div 2 \<le> 49" "k mod 2 \<le> 1" using that(1) by auto
    then show ?thesis using that(2) by (auto simp: lsc_at_def)
  qed
  have "page p = 0" if "base \<le> p" "p < base + 0x340" "\<forall>k<100. p \<notin> ?R k"
    using outr [of p] that zp [of p] by simp
  moreover have "page p = dst p" if "p < base \<or> base + 0x340 \<le> p"
    using outr [OF far [OF _ that]] zp [of p] that by auto
  ultimately show ?thesis using g f32_scale_floor [of bits] by blast
qed

theorem lsc_grid_layout_witness:
  "ar_isp_get_le16 (ar_isp_lsc_from_blob (\<lambda>_. 1) 0 (\<lambda>_. 0x3f)) (lsc_at 0 3) = ar_isp_f32_scale (ar_isp_get_le32 (\<lambda>_. 0x3f) (0x929c + 3 * 4))"
  using lsc_grid_layout [OF refl, where i = 3 and dst = "\<lambda>_. 1" and base = 0 and blob = "\<lambda>_. 0x3f", THEN conjunct1] by simp

lemma lsc_agree:
  assumes ag: "agree AR_ISP_TUNING_SIZE m m'" shows "ar_isp_lsc_from_blob dst base m = ar_isp_lsc_from_blob dst base m'"
proof -
  have "ar_isp_get_le32 m (0x929c + i * 4) = ar_isp_get_le32 m' (0x929c + i * 4)"
    "ar_isp_get_le32 m (0x910c + i * 4) = ar_isp_get_le32 m' (0x910c + i * 4)" if "i < 100" for i
    using that by (intro agree_le32 [OF ag]; simp)+
  then show ?thesis unfolding ar_isp_lsc_from_blob_def Let_def
    by (intro fold_cong refl ext) (simp only: set_upt atLeastLessThan_iff)
qed

section \<open>The compander page\<close>

lemma words_fold:
  shows "k < n \<Longrightarrow> ar_isp_get_le32 (fold (\<lambda>i m. ar_isp_put_le32 m (q + i * 4) (v i)) [0..<n] m) (q + k * 4) = v k"
    and "p < q \<or> q + n * 4 \<le> p \<Longrightarrow> fold (\<lambda>i m. ar_isp_put_le32 m (q + i * 4) (v i)) [0..<n] m p = m p"
proof (induction n)
  case (Suc n)
  { case 1 then show ?case using Suc(1) by (cases "k = n") (auto simp: mem_simps) }
  { case 2 then show ?case using Suc(2) by (auto simp: put_le32_other) }
qed simp_all

text \<open>The compander page: sub-table A and the middle table are copied word for word, zeros lie
  between them, and the rest is the identity record repeated to the end of the page.\<close>

lemma compander_page:
  assumes "page = ar_isp_compander_fill dst base head mid"
  shows "k < 576 \<Longrightarrow> ar_isp_get_le32 page (base + k * 4) = head ! k"
    and "k < 448 \<Longrightarrow> ar_isp_get_le32 page (base + 0x900 + k * 4) = 0"
    and "k < 512 \<Longrightarrow> ar_isp_get_le32 page (base + 0x1000 + k * 4) = mid ! k"
    and "k < 1536 \<Longrightarrow> ar_isp_get_le32 page (base + 0x1800 + 16 * k) = 0x100"
    and "k < 1536 \<Longrightarrow> ar_isp_get_le32 page (base + 0x1800 + 16 * k + 4) = 0x10000"
    and "p < base \<or> base + 0x7800 \<le> p \<Longrightarrow> page p = dst p"
proof -
  define d1 where "d1 = fold (\<lambda>i m. ar_isp_put_le32 m (base + i * 4) (head ! i)) [0..<576] dst"
  define d2 where "d2 = fold (\<lambda>i m. ar_isp_put_le32 m (base + 0x900 + i * 4) ((\<lambda>_. 0) i)) [0..<448] d1"
  define d3 where "d3 = fold (\<lambda>i m. ar_isp_put_le32 m (base + 0x1000 + i * 4) (mid ! i)) [0..<512] d2"
  have page: "page = fold (\<lambda>i. put_record (base + 0x1800 + 16 * i) ((\<lambda>_. (0x100, 0x10000, 0, 0)) i)) [0..<1536] d3"
    unfolding assms ar_isp_compander_fill_def d1_def d2_def d3_def put_record_def
    by (simp add: Let_def mult.commute add.assoc del: upt_rec_numeral)
  have low: "ar_isp_get_le32 page q = ar_isp_get_le32 d3 q" if "q + 4 \<le> base + 0x1800" for q
    unfolding page by (rule get_le32_cong) (use that in \<open>intro page_frame\<close>, simp)
  have f3: "ar_isp_get_le32 d3 q = ar_isp_get_le32 d2 q" if "q + 4 \<le> base + 0x1000" for q
    unfolding d3_def by (rule get_le32_cong) (use that in \<open>intro words_fold(2)\<close>, simp)
  have f2: "ar_isp_get_le32 d2 q = ar_isp_get_le32 d1 q" if "q + 4 \<le> base + 0x900" for q
    unfolding d2_def by (rule get_le32_cong) (use that in \<open>intro words_fold(2)\<close>, simp)
  show "k < 576 \<Longrightarrow> ar_isp_get_le32 page (base + k * 4) = head ! k"
    by (simp add: low f3 f2) (simp add: d1_def words_fold(1) del: upt_rec_numeral)
  show "k < 448 \<Longrightarrow> ar_isp_get_le32 page (base + 0x900 + k * 4) = 0"
    by (simp add: low f3) (simp add: d2_def words_fold(1) del: upt_rec_numeral)
  show "k < 512 \<Longrightarrow> ar_isp_get_le32 page (base + 0x1000 + k * 4) = mid ! k"
    by (simp add: low) (simp add: d3_def words_fold(1) del: upt_rec_numeral)
  show "k < 1536 \<Longrightarrow> ar_isp_get_le32 page (base + 0x1800 + 16 * k) = 0x100"
    "k < 1536 \<Longrightarrow> ar_isp_get_le32 page (base + 0x1800 + 16 * k + 4) = 0x10000"
    using page_words [of k 1536 0 "base + 0x1800" "\<lambda>_. (0x100, 0x10000, 0, 0)" d3]
      page_words [of k 1536 4 "base + 0x1800" "\<lambda>_. (0x100, 0x10000, 0, 0)" d3]
    by (simp_all only: page get_put_record add_0_right)
  show "page p = dst p" if "p < base \<or> base + 0x7800 \<le> p"
  proof -
    have "page p = d3 p" unfolding page by (rule page_frame) (use that in auto)
    also have "\<dots> = d2 p" unfolding d3_def by (rule words_fold(2)) (use that in auto)
    also have "\<dots> = d1 p" unfolding d2_def by (rule words_fold(2)) (use that in auto)
    also have "\<dots> = dst p" unfolding d1_def by (rule words_fold(2)) (use that in auto)
    finally show ?thesis .
  qed
qed

end
