(* ===== verification/Isp_Tone.thy ===== *)
theory Isp_Tone
  imports Isp_Codec
begin

text \<open>
  \<open>ar-isp-tone.h\<close>: the selector of the gamma and DRC pages.  The loop over the band table is a
  recursion on the band number that carries \<open>prev_hi\<close>; the lemmas show that it finds the first
  band whose high edge is not below the scalar, that a blend is only asked for in a gap, with a
  weight below one, and that the two pages built through it read the tuning file only.
\<close>

section \<open>Definitions\<close>

record ar_isp_tone_pick =
  tp_low :: u32
  tp_high :: u32
  tp_t_q12 :: u32

definition tone_lo :: "mem \<Rightarrow> nat \<Rightarrow> u32 \<Rightarrow> u32" where
  "tone_lo blob bands_off i = drop_bit 8 (ar_isp_f32_q16 (ar_isp_get_le32 blob (bands_off + unat (i * 8))))"

definition tone_hi :: "mem \<Rightarrow> nat \<Rightarrow> u32 \<Rightarrow> u32" where
  "tone_hi blob bands_off i = drop_bit 8 (ar_isp_f32_q16 (ar_isp_get_le32 blob (bands_off + unat (i * 8) + 4)))"

text \<open>The body taken when the scalar is not above band \<open>i\<close>.\<close>

definition tone_pick_at :: "u32 \<Rightarrow> u32 \<Rightarrow> u32 \<Rightarrow> u32 \<Rightarrow> ar_isp_tone_pick" where
  "tone_pick_at i lo prev_hi scalar_q8 =
     (if scalar_q8 \<ge> lo \<or> i = 0 then \<lparr>tp_low = i, tp_high = i, tp_t_q12 = 0\<rparr>
      else \<lparr>tp_low = i - 1, tp_high = i,
            tp_t_q12 = ucast (push_bit 12 (ucast (scalar_q8 - prev_hi)) div ucast (lo - prev_hi) :: u64)\<rparr>)"

function tone_loop :: "mem \<Rightarrow> nat \<Rightarrow> u32 \<Rightarrow> u32 \<Rightarrow> u32 \<Rightarrow> u32 \<Rightarrow> ar_isp_tone_pick" where
  "tone_loop blob bands_off count scalar_q8 i prev_hi =
     (if i < count
      then if scalar_q8 \<le> tone_hi blob bands_off i
           then tone_pick_at i (tone_lo blob bands_off i) prev_hi scalar_q8
           else tone_loop blob bands_off count scalar_q8 (i + 1) (tone_hi blob bands_off i)
      else \<lparr>tp_low = count - 1, tp_high = count - 1, tp_t_q12 = 0\<rparr>)"
  by auto

termination
proof (relation "measure (\<lambda>(_, _, count, _, i, _). unat count - unat i)")
  fix blob :: mem and bands_off :: nat and count g i prev hi :: u32
  assume "i < count"
  then have "unat (i + 1) = unat i + 1" "unat i < unat count"
    using unat_less_length [of count] by (simp_all add: unat_add_small word_less_nat_alt)
  then show "((blob, bands_off, count, g, i + 1, tone_hi blob bands_off i), blob, bands_off, count, g, i, prev)
      \<in> measure (\<lambda>(_, _, count, _, i, _). unat count - unat i)" by simp
qed simp

declare tone_loop.simps [simp del]

definition ar_isp_tone_select :: "mem \<Rightarrow> nat \<Rightarrow> u32 \<Rightarrow> u32 \<Rightarrow> ar_isp_tone_pick" where
  "ar_isp_tone_select blob bands_off count scalar_q8 = tone_loop blob bands_off count scalar_q8 0 0"

definition ar_isp_tone_pick_gamma :: "mem \<Rightarrow> u32 \<Rightarrow> ar_isp_tone_pick" where
  "ar_isp_tone_pick_gamma blob scalar_q8 =
     (let count0 = ar_isp_get_le32 blob 0x26b04;
          count = (if count0 < 1 \<or> count0 > 5 then 5 else count0)
      in ar_isp_tone_select blob 0x26b0c count scalar_q8)"

definition ar_isp_tone_pick_drc :: "mem \<Rightarrow> u32 \<Rightarrow> ar_isp_tone_pick" where
  "ar_isp_tone_pick_drc blob scalar_q8 =
     (let count0 = ar_isp_get_le32 blob 0x17a90;
          count = (if count0 < 1 \<or> count0 > 6 then 6 else count0)
      in ar_isp_tone_select blob 0x17a9c count scalar_q8)"

section \<open>The selection\<close>

text \<open>What a pick of \<open>count\<close> bands promises for the scalar \<open>g\<close>.\<close>

definition tone_picked :: "(u32 \<Rightarrow> u32) \<Rightarrow> (u32 \<Rightarrow> u32) \<Rightarrow> u32 \<Rightarrow> u32 \<Rightarrow> ar_isp_tone_pick \<Rightarrow> bool" where
  "tone_picked lo hi count g p \<longleftrightarrow>
     tp_low p < count \<and> tp_high p < count \<and> unat (tp_t_q12 p) < 4096 \<and>
     (\<forall>b<tp_high p. hi b < g) \<and> (g \<le> hi (tp_high p) \<or> tp_high p = count - 1 \<and> tp_t_q12 p = 0) \<and>
     (tp_low p = tp_high p \<and> tp_t_q12 p = 0 \<or>
      tp_high p = tp_low p + 1 \<and> hi (tp_low p) < g \<and> g < lo (tp_high p) \<and>
      unat (tp_t_q12 p) = (unat g - unat (hi (tp_low p))) * 4096 div (unat (lo (tp_high p)) - unat (hi (tp_low p))))"

lemma tone_weight:
  fixes g p l :: u32
  assumes "p < g" "g < l"
  shows "unat (ucast (push_bit 12 (ucast (g - p)) div ucast (l - p) :: u64) :: u32) =
      (unat g - unat p) * 4096 div (unat l - unat p)"
    "(unat g - unat p) * 4096 div (unat l - unat p) < 4096"
proof -
  have lt: "unat p < unat g" "unat g < unat l" using assms by (simp_all add: word_less_nat_alt)
  have u: "unat (g - p) = unat g - unat p" "unat (l - p) = unat l - unat p"
    using lt by (simp_all add: unat_le_minus)
  have b: "unat g - unat p < 2 ^ 32" using unat_less_length [of g] by simp
  show q: "(unat g - unat p) * 4096 div (unat l - unat p) < 4096"
    using lt by (intro div_less_iff_less_mult [THEN iffD2]) auto
  have "unat (push_bit 12 (ucast (g - p)) div ucast (l - p) :: u64) = (unat g - unat p) * 4096 div (unat l - unat p)"
    using b by (simp add: unat_div unat_push_bit unat_ucast_up u)
  then show "unat (ucast (push_bit 12 (ucast (g - p)) div ucast (l - p) :: u64) :: u32) =
      (unat g - unat p) * 4096 div (unat l - unat p)"
    using q by (simp add: unat_ucast_mod)
qed

lemma tone_loop_picks:
  assumes "0 < count" "i \<le> count" "\<And>b. b < i \<Longrightarrow> tone_hi blob off b < g"
    "0 < i \<Longrightarrow> prev = tone_hi blob off (i - 1)"
  shows "tone_picked (tone_lo blob off) (tone_hi blob off) count g (tone_loop blob off count g i prev)"
  using assms
proof (induction blob off count g i prev rule: tone_loop.induct)
  case (1 blob off count g i prev)
  show ?case
  proof (cases "i < count")
    case False
    then have i: "i = count" using "1.prems"(2) by simp
    have "b < count - 1 \<Longrightarrow> b < count" for b using pred_less [OF "1.prems"(1)] by (rule less_trans [rotated])
    then show ?thesis
      using "1.prems" False pred_less [OF "1.prems"(1)] i by (subst tone_loop.simps) (auto simp: tone_picked_def)
  next
    case True
    show ?thesis
    proof (cases "g \<le> tone_hi blob off i")
      case False
      have u: "unat (i + 1) = unat i + 1" using True unat_less_length [of count]
        by (simp add: unat_add_small word_less_nat_alt)
      have le: "i + 1 \<le> count" using True u by (simp add: word_le_nat_alt word_less_nat_alt)
      have "tone_hi blob off b < g" if "b < i + 1" for b
      proof (cases "b = i")
        case True
        then show ?thesis using False by simp
      next
        case False
        then have "unat b < unat i" using that u by (auto simp: word_less_nat_alt less_Suc_eq word_unat_eq_iff)
        then show ?thesis by (intro "1.prems"(3)) (simp add: word_less_nat_alt)
      qed
      then show ?thesis
        using "1.IH" [OF True False "1.prems"(1) le] True False by (subst tone_loop.simps) simp
    next
      case stop: True
      have pick: "tone_loop blob off count g i prev = tone_pick_at i (tone_lo blob off i) prev g"
        using True stop by (subst tone_loop.simps) simp
      show ?thesis
      proof (cases "g \<ge> tone_lo blob off i \<or> i = 0")
        case here: True
        then show ?thesis using True stop "1.prems"(3) unfolding pick tone_picked_def tone_pick_at_def by simp
      next
        case False
        then have i: "0 < i" "g < tone_lo blob off i" by (auto simp: word_neq_0_conv)
        have p: "prev = tone_hi blob off (i - 1)" "tone_hi blob off (i - 1) < g"
          using "1.prems"(3,4) i(1) pred_less [OF i(1)] by auto
        have "i - 1 < count" using pred_less [OF i(1)] True by simp
        then show ?thesis
          using False True stop "1.prems"(3) i p tone_weight [OF p(2) i(2)]
          unfolding pick tone_picked_def tone_pick_at_def by simp
      qed
    qed
  qed
qed

lemma tone_select_picks:
  "0 < count \<Longrightarrow> tone_picked (tone_lo blob off) (tone_hi blob off) count g (ar_isp_tone_select blob off count g)"
  unfolding ar_isp_tone_select_def by (rule tone_loop_picks) auto

text \<open>The numbers of bands the two headers allow.\<close>

definition tone_count :: "mem \<Rightarrow> nat \<Rightarrow> u32 \<Rightarrow> u32" where
  "tone_count blob at_count n = (let c = ar_isp_get_le32 blob at_count in if c < 1 \<or> c > n then n else c)"

lemma tone_count_bounds: "0 < n \<Longrightarrow> 0 < tone_count blob off n \<and> tone_count blob off n \<le> n"
  by (auto simp: tone_count_def Let_def not_less word_gt_0 simp flip: word_neq_0_conv)

lemma tone_selection_facts:
  "tp_low (ar_isp_tone_pick_gamma blob g) < 5" "tp_high (ar_isp_tone_pick_gamma blob g) < 5"
  "tp_low (ar_isp_tone_pick_drc blob g) < 6" "tp_high (ar_isp_tone_pick_drc blob g) < 6"
  "unat (tp_t_q12 (ar_isp_tone_pick_gamma blob g)) < 4096" "unat (tp_t_q12 (ar_isp_tone_pick_drc blob g)) < 4096"
proof -
  have "tone_picked (tone_lo blob 0x26b0c) (tone_hi blob 0x26b0c) (tone_count blob 0x26b04 5) g (ar_isp_tone_pick_gamma blob g)"
    using tone_select_picks [of "tone_count blob 0x26b04 5" blob "0x26b0c" g] tone_count_bounds [of 5 blob "0x26b04"]
    by (simp add: ar_isp_tone_pick_gamma_def tone_count_def Let_def)
  moreover have "tone_picked (tone_lo blob 0x17a9c) (tone_hi blob 0x17a9c) (tone_count blob 0x17a90 6) g (ar_isp_tone_pick_drc blob g)"
    using tone_select_picks [of "tone_count blob 0x17a90 6" blob "0x17a9c" g] tone_count_bounds [of 6 blob "0x17a90"]
    by (simp add: ar_isp_tone_pick_drc_def tone_count_def Let_def)
  moreover have "tone_count blob 0x26b04 5 \<le> 5" "tone_count blob 0x17a90 6 \<le> 6"
    using tone_count_bounds [of 5] tone_count_bounds [of 6] by simp_all
  ultimately show "tp_low (ar_isp_tone_pick_gamma blob g) < 5" "tp_high (ar_isp_tone_pick_gamma blob g) < 5"
    "tp_low (ar_isp_tone_pick_drc blob g) < 6" "tp_high (ar_isp_tone_pick_drc blob g) < 6"
    "unat (tp_t_q12 (ar_isp_tone_pick_gamma blob g)) < 4096" "unat (tp_t_q12 (ar_isp_tone_pick_drc blob g)) < 4096"
    unfolding tone_picked_def by (auto intro: less_le_trans)
qed

text \<open>The tone selection: the chosen band is the first whose high edge is not below the scalar,
  or the last one; inside a band (and past the last) there is no blend; in a gap the two bands are
  the neighbours of the gap and the weight is the floor of 4096 times the fraction of the gap, less
  than 4096, so the division never divides by zero and the blend's factor \<open>4096 - t\<close> never wraps.
  Both stages pick existing curves: band numbers below 5 for gamma and below 6 for DRC.\<close>

theorem tone_selection_correct:
  "(0 < count \<longrightarrow> tone_picked (tone_lo blob off) (tone_hi blob off) count g (ar_isp_tone_select blob off count g)) \<and>
   tp_low (ar_isp_tone_pick_gamma blob g) < 5 \<and> tp_high (ar_isp_tone_pick_gamma blob g) < 5 \<and>
   tp_low (ar_isp_tone_pick_drc blob g) < 6 \<and> tp_high (ar_isp_tone_pick_drc blob g) < 6 \<and>
   unat (tp_t_q12 (ar_isp_tone_pick_gamma blob g)) < 4096 \<and> unat (tp_t_q12 (ar_isp_tone_pick_drc blob g)) < 4096"
  using tone_select_picks tone_selection_facts by blast

theorem tone_selection_correct_witness:
  "tone_picked (tone_lo (\<lambda>_. 0x40) 0) (tone_hi (\<lambda>_. 0x40) 0) 5 100 (ar_isp_tone_select (\<lambda>_. 0x40) 0 5 100)"
  using tone_selection_correct [where count = 5 and blob = "\<lambda>_. 0x40" and off = 0 and g = 100, THEN conjunct1] by simp

section \<open>The selected pages read the tuning file\<close>

lemma tone_loop_agree:
  assumes "agree AR_ISP_TUNING_SIZE m m'" "unat count \<le> n" "off + n * 8 \<le> AR_ISP_TUNING_SIZE"
  shows "tone_loop m off count g i prev = tone_loop m' off count g i prev"
  using assms
proof (induction m off count g i prev rule: tone_loop.induct)
  case (1 m off count g i prev)
  show ?case
  proof (cases "i < count")
    case True
    have "tone_hi m off i = tone_hi m' off i" "tone_lo m off i = tone_lo m' off i"
      using edges_agree(1,2) [OF "1.prems"(1) True "1.prems"(2,3)]
      by (simp_all add: tone_hi_def tone_lo_def ar_isp_ladder_hi_def ar_isp_ladder_lo_def)
    then show ?thesis using "1.IH" [OF True] "1.prems" True
      by (subst (1 2) tone_loop.simps) (cases "g \<le> tone_hi m off i"; simp)
  qed (subst (1 2) tone_loop.simps, simp)
qed

lemma tone_picks_agree:
  assumes ag: "agree AR_ISP_TUNING_SIZE m m'"
  shows "ar_isp_tone_pick_gamma m g = ar_isp_tone_pick_gamma m' g" "ar_isp_tone_pick_drc m g = ar_isp_tone_pick_drc m' g"
proof -
  have c: "ar_isp_get_le32 m 0x26b04 = ar_isp_get_le32 m' 0x26b04" "ar_isp_get_le32 m 0x17a90 = ar_isp_get_le32 m' 0x17a90"
    by (rule agree_le32 [OF ag]; simp)+
  show "ar_isp_tone_pick_gamma m g = ar_isp_tone_pick_gamma m' g"
    using tone_count_bounds [of 5 m' "0x26b04"] unfolding ar_isp_tone_pick_gamma_def Let_def c ar_isp_tone_select_def
    by (intro tone_loop_agree [OF ag, of _ 5]) (simp_all add: tone_count_def Let_def word_le_nat_alt)
  show "ar_isp_tone_pick_drc m g = ar_isp_tone_pick_drc m' g"
    using tone_count_bounds [of 6 m' "0x17a90"] unfolding ar_isp_tone_pick_drc_def Let_def c ar_isp_tone_select_def
    by (intro tone_loop_agree [OF ag, of _ 6]) (simp_all add: tone_count_def Let_def word_le_nat_alt)
qed

text \<open>The page a scalar selects, as \<open>ar-isp-main.c\<close> composes the selector and the packer.\<close>

abbreviation gamma_page_for :: "mem \<Rightarrow> nat \<Rightarrow> mem \<Rightarrow> u32 \<Rightarrow> mem" where
  "gamma_page_for dst base blob g \<equiv> (let p = ar_isp_tone_pick_gamma blob g
     in ar_isp_gamma_from_blob dst base blob (tp_low p) (tp_high p) (tp_t_q12 p))"

abbreviation drc_page_for :: "mem \<Rightarrow> nat \<Rightarrow> mem \<Rightarrow> u32 \<Rightarrow> mem" where
  "drc_page_for dst base blob g \<equiv> (let p = ar_isp_tone_pick_drc blob g
     in ar_isp_drc_from_blob dst base blob (tp_low p) (tp_high p) (tp_t_q12 p))"

lemma curve_at: "c < n \<Longrightarrow> unat n * unat k < 2 ^ 32 \<Longrightarrow> unat (c * k) + unat k \<le> unat n * unat (k :: u32)" for c n :: u32
proof -
  assume "c < n" "unat n * unat k < 2 ^ 32"
  then have s: "Suc (unat c) * unat k \<le> unat n * unat k" by (intro mult_le_mono1) (simp add: word_less_nat_alt Suc_le_eq)
  then have "unat (c * k) = unat c * unat k"
    using \<open>unat n * unat k < 2 ^ 32\<close> by (intro unat_mult_small) simp
  then show ?thesis using s by simp
qed

lemma gamma_cong:
  assumes "\<And>q. q + 4 \<le> 0x4000 \<Longrightarrow> ar_isp_get_le32 m (0x26b90 + unat (low * 0x4000) + q) = ar_isp_get_le32 m' (0x26b90 + unat (low * 0x4000) + q)"
    and "\<And>q. q + 4 \<le> 0x4000 \<Longrightarrow> ar_isp_get_le32 m (0x26b90 + unat (high * 0x4000) + q) = ar_isp_get_le32 m' (0x26b90 + unat (high * 0x4000) + q)"
  shows "ar_isp_gamma_from_blob dst base m low high t = ar_isp_gamma_from_blob dst base m' low high t"
proof -
  have "gamma_samples m (0x26b90 + unat (low * 0x4000)) (0x26b90 + unat (high * 0x4000)) t =
      gamma_samples m' (0x26b90 + unat (low * 0x4000)) (0x26b90 + unat (high * 0x4000)) t"
    unfolding gamma_samples_def Let_def
    by (intro map_cong refl) (use assms in \<open>simp del: upt_rec_numeral\<close>)
  then show ?thesis using assms [of "(4096 - 1) * 4"] by (simp add: ar_isp_gamma_from_blob_def Let_def)
qed

lemma drc_cong:
  assumes "\<And>b i. b < 2 \<Longrightarrow> i < 257 \<Longrightarrow> ar_isp_get_le32 m (0x17b1c + unat (low * 0xc8c) + b * 0x404 + i * 4) =
      ar_isp_get_le32 m' (0x17b1c + unat (low * 0xc8c) + b * 0x404 + i * 4)"
    and "\<And>b i. b < 2 \<Longrightarrow> i < 257 \<Longrightarrow> ar_isp_get_le32 m (0x17b1c + unat (high * 0xc8c) + b * 0x404 + i * 4) =
      ar_isp_get_le32 m' (0x17b1c + unat (high * 0xc8c) + b * 0x404 + i * 4)"
  shows "ar_isp_drc_from_blob dst base m low high t = ar_isp_drc_from_blob dst base m' low high t"
proof -
  have "drc_samples m (0x17b1c + unat (low * 0xc8c) + b * 0x404) (0x17b1c + unat (high * 0xc8c) + b * 0x404) t =
      drc_samples m' (0x17b1c + unat (low * 0xc8c) + b * 0x404) (0x17b1c + unat (high * 0xc8c) + b * 0x404) t" if "b < 2" for b
    unfolding drc_samples_def by (intro map_cong refl) (use assms that in \<open>simp del: upt_rec_numeral\<close>)
  then show ?thesis unfolding ar_isp_drc_from_blob_def Let_def
    by (intro fold_cong refl ext) (simp only: set_upt atLeastLessThan_iff)
qed

lemma tone_pages_agree:
  assumes ag: "agree AR_ISP_TUNING_SIZE m m'"
  shows "gamma_page_for dst base m g = gamma_page_for dst base m' g" "drc_page_for dst base m g = drc_page_for dst base m' g"
proof -
  note T = tone_selection_facts [of m' g]
  have gm: "ar_isp_get_le32 m (0x26b90 + unat (c * 0x4000) + q) = ar_isp_get_le32 m' (0x26b90 + unat (c * 0x4000) + q)"
    if "c < 5" "q + 4 \<le> 0x4000" for c :: u32 and q
    by (rule agree_le32 [OF ag]) (use that curve_at [of c 5 "0x4000"] in simp)
  show "gamma_page_for dst base m g = gamma_page_for dst base m' g"
    unfolding tone_picks_agree(1) [OF ag] Let_def
    by (rule gamma_cong) (use gm T in auto)
  have dm: "ar_isp_get_le32 m (0x17b1c + unat (c * 0xc8c) + b * 0x404 + i * 4) =
      ar_isp_get_le32 m' (0x17b1c + unat (c * 0xc8c) + b * 0x404 + i * 4)"
    if "c < 6" "b < 2" "i < 257" for c :: u32 and b i
  proof (rule agree_le32 [OF ag])
    have "b * 0x404 \<le> 0x404" "i * 4 \<le> 1024" using that by simp_all
    then show "0x17b1c + unat (c * 0xc8c) + b * 0x404 + i * 4 + 4 \<le> AR_ISP_TUNING_SIZE"
      using curve_at [of c 6 "0xc8c"] that(1) by simp
  qed
  show "drc_page_for dst base m g = drc_page_for dst base m' g"
    unfolding tone_picks_agree(2) [OF ag] Let_def
    by (rule drc_cong) (use dm T in auto)
qed

end
