(* ===== verification/Isp_Colour.thy ===== *)
theory Isp_Colour
  imports Isp_Codec
begin

text \<open>
  \<open>ar-isp-colour.h\<close> and \<open>ar-isp-blc.h\<close>: the colour correction matrix, a 3x3 matrix of binary32
  coefficients packed as sign and Q8 magnitude, and the black level, a blend of two calibration
  entries.  The lemmas read the packed banks back and give the value of each field.
\<close>

section \<open>Colour correction\<close>

text \<open>The clamped magnitude.\<close>

definition q8sm_mag :: "u32 \<Rightarrow> u32" where
  "q8sm_mag bits =
     (let m = ar_isp_f32_mant bits; shift = (23 - 8) - ar_isp_f32_exp bits;
          mag = (if shift \<ge> 32 then 0 else if shift \<le> 0 then 0x7fff else drop_bit (nat shift) m)
      in if mag > 0x7fff then 0x7fff else mag)"

definition ar_isp_f32_q8sm :: "u32 \<Rightarrow> u16" where
  "ar_isp_f32_q8sm bits =
     (if bits AND NOT 0x80000000 = 0 then 0
      else if bits AND 0x80000000 \<noteq> 0 then ucast (0x8000 OR q8sm_mag bits) else ucast (q8sm_mag bits))"

definition ar_isp_ccm_pack :: "mem \<Rightarrow> nat \<Rightarrow> u32 list \<Rightarrow> mem" where
  "ar_isp_ccm_pack dst0 base bits =
     fold (\<lambda>row dst.
       let a = ar_isp_f32_q8sm (bits ! (3 * row + 0));
           b = ar_isp_f32_q8sm (bits ! (3 * row + 1));
           c = ar_isp_f32_q8sm (bits ! (3 * row + 2))
       in ar_isp_put_le32 (ar_isp_put_le32 dst (base + 8 * row) (ucast a OR push_bit 16 (ucast b)))
            (base + 8 * row + 4) (ucast c)) [0..<3] dst0"

definition ar_isp_ccm_from_blob :: "mem \<Rightarrow> nat \<Rightarrow> mem \<Rightarrow> u32 \<Rightarrow> mem" where
  "ar_isp_ccm_from_blob dst base blob bank =
     (let src = 0x25470 + unat (bank * 0x24)
      in ar_isp_ccm_pack dst base (map (\<lambda>i. ar_isp_get_le32 blob (src + i * 4)) [0..<9]))"

lemma bit_sign: "n < 32 \<Longrightarrow> bit (0x80000000 :: u32) n \<longleftrightarrow> n = 31"
proof -
  have "(0x80000000 :: u32) = push_bit 31 1" by (simp add: push_bit_eq_mult)
  then show "n < 32 \<Longrightarrow> ?thesis" by (simp only: bit_push_bit_iff) (auto simp: bit_1_iff)
qed

text \<open>The magnitude of a coefficient does not see the sign.\<close>

definition f32_magnitude :: "u32 \<Rightarrow> u32" where
  "f32_magnitude bits = bits AND NOT 0x80000000"

lemma f32_magnitude_mask: "f32_magnitude bits = bits AND mask 31"
  unfolding f32_magnitude_def
proof (rule bit_word_eqI)
  fix n assume "n < LENGTH(32)"
  then show "bit (bits AND NOT 0x80000000) n = bit (bits AND mask 31) n"
    using bit_sign [of n] by (auto simp: bit_simps)
qed

lemma f32_magnitude_facts:
  "unat (f32_magnitude bits) < 2 ^ 31" "ar_isp_f32_mant (f32_magnitude bits) = ar_isp_f32_mant bits"
  "ar_isp_f32_exp (f32_magnitude bits) = ar_isp_f32_exp bits"
proof -
  have l: "(0x7fffff :: u32) = mask 23" "(0xff :: u32) = mask 8" by (simp_all add: mask_eq_exp_minus_1)
  show "unat (f32_magnitude bits) < 2 ^ 31" by (simp add: f32_magnitude_mask unat_and_mask)
  have "f32_magnitude bits AND mask 23 = bits AND mask 23"
    unfolding f32_magnitude_mask by (rule bit_word_eqI) (auto simp: bit_simps)
  then show "ar_isp_f32_mant (f32_magnitude bits) = ar_isp_f32_mant bits" unfolding ar_isp_f32_mant_def l by simp
  have "drop_bit 23 (f32_magnitude bits) AND mask 8 = drop_bit 23 bits AND mask 8"
    unfolding f32_magnitude_mask by (rule bit_word_eqI) (auto simp: bit_simps)
  then show "ar_isp_f32_exp (f32_magnitude bits) = ar_isp_f32_exp bits" unfolding ar_isp_f32_exp_def l by simp
qed

definition q8_magnitude :: "u32 \<Rightarrow> nat" where
  "q8_magnitude bits = min 0x7fff (nat \<lfloor>f32_val (f32_magnitude bits) * 2 ^ 8\<rfloor>)"

lemma q8sm_magnitude: "unat (q8sm_mag bits) = q8_magnitude bits"
proof -
  define shift where "shift = 15 - ar_isp_f32_exp bits"
  define mag0 where "mag0 = (if shift \<ge> 32 then 0 else if shift \<le> 0 then 0x7fff else drop_bit (nat shift) (ar_isp_f32_mant bits))"
  define M where "M = unat (ar_isp_f32_mant bits)"
  have M: "2 ^ 23 \<le> M" "M < 2 ^ 24" using f32_mant_bounds [of bits] by (simp_all add: M_def)
  have q: "q8sm_mag bits = (if mag0 > 0x7fff then 0x7fff else mag0)"
    by (simp add: q8sm_mag_def mag0_def shift_def Let_def)
  have fl: "nat \<lfloor>f32_val (f32_magnitude bits) * 2 ^ 8\<rfloor> =
      (if shift \<le> 0 then M * 2 ^ nat (- shift) else M div 2 ^ nat shift)"
    using fixed_point_floor [of "f32_magnitude bits" 8] f32_magnitude_facts [of bits] by (simp add: M_def shift_def)
  consider (z) "32 \<le> shift" | (sat) "shift \<le> 0" | (down) "0 < shift" "shift < 32" by linarith
  then show ?thesis
  proof cases
    case z
    have "(2::nat) ^ 32 \<le> 2 ^ nat shift" using z by (intro power_increasing) auto
    then show ?thesis using z M unfolding q q8_magnitude_def fl mag0_def by simp
  next
    case sat
    have "2 ^ 23 * 1 \<le> M * 2 ^ nat (- shift)" using M by (intro mult_le_mono) simp_all
    then show ?thesis using sat unfolding q q8_magnitude_def fl mag0_def by simp
  next
    case down
    have d: "unat (drop_bit (nat shift) (ar_isp_f32_mant bits)) = M div 2 ^ nat shift" by (simp add: unat_drop_bit M_def)
    show ?thesis using down unfolding q q8_magnitude_def fl mag0_def by (simp add: word_less_nat_alt d min_def)
  qed
qed

lemma q8sm_mag_small: "unat (q8sm_mag bits) \<le> 0x7fff"
  by (simp add: q8sm_magnitude q8_magnitude_def)

text \<open>A coefficient as sign bit and magnitude.\<close>

lemma q8sm_fields:
  assumes "f32_magnitude bits \<noteq> 0"
  shows "unat (take_bit 15 (ar_isp_f32_q8sm bits)) = q8_magnitude bits"
    "bit (ar_isp_f32_q8sm bits) 15 \<longleftrightarrow> bit bits 31"
proof -
  have b: "n < 15" if "bit (q8sm_mag bits) n" for n
    by (rule high_bit_less [OF _ that]) (use q8sm_mag_small [of bits] in simp)
  have h: "bit (0x8000 :: u32) n \<longleftrightarrow> n = 15" if "n < 32" for n
  proof -
    have "(0x8000 :: u32) = push_bit 15 1" by (simp add: push_bit_eq_mult)
    then show ?thesis using that by (simp only: bit_push_bit_iff) (auto simp: bit_1_iff)
  qed
  have h15: "n < 15 \<Longrightarrow> \<not> bit (0x8000 :: u32) n" for n using h [of n] by simp
  have hi: "\<not> bit (0x8000 :: int) n" if "n < 15" for n
  proof -
    have "(0x8000 :: int) = push_bit 15 1" by (simp add: push_bit_eq_mult)
    then show ?thesis using that by (simp only: bit_push_bit_iff) (auto simp: bit_1_iff)
  qed
  have sg: "bits AND 0x80000000 \<noteq> 0 \<longleftrightarrow> bit bits 31"
  proof -
    have "bit (bits AND 0x80000000) n \<longleftrightarrow> n = 31 \<and> bit bits 31" if "n < 32" for n
      using bit_sign [OF that] by (auto simp: bit_simps)
    note B = this
    show ?thesis
    proof (cases "bit bits 31")
      case True
      then have "bits AND 0x80000000 \<noteq> 0" using B [of 31] by (cases "bits AND 0x80000000 = 0") simp_all
      then show ?thesis using True by simp
    next
      case False
      then have "bits AND 0x80000000 = 0" using B by (intro bit_word_eqI) simp
      then show ?thesis using False by simp
    qed
  qed
  have t: "take_bit 15 (ar_isp_f32_q8sm bits) = ucast (q8sm_mag bits)"
    using assms b unfolding ar_isp_f32_q8sm_def f32_magnitude_def [symmetric]
    by (intro bit_word_eqI) (auto simp: bit_simps h15 hi)
  show "unat (take_bit 15 (ar_isp_f32_q8sm bits)) = q8_magnitude bits"
    unfolding t using q8sm_mag_small [of bits] by (simp add: unat_ucast_mod q8sm_magnitude)
  show "bit (ar_isp_f32_q8sm bits) 15 \<longleftrightarrow> bit bits 31"
    using assms b [of 15] sg unfolding ar_isp_f32_q8sm_def f32_magnitude_def [symmetric]
    by (auto simp: bit_simps h)
qed

lemma q8sm_zero: "f32_magnitude bits = 0 \<Longrightarrow> ar_isp_f32_q8sm bits = 0"
  by (simp add: ar_isp_f32_q8sm_def f32_magnitude_def)

lemma pair_halves:
  "(ucast (a :: u16) OR push_bit 16 (ucast (b :: u16)) :: u32) AND mask 16 = ucast a"
  "drop_bit 16 (ucast (a :: u16) OR push_bit 16 (ucast (b :: u16)) :: u32) = ucast b"
  by (rule bit_word_eqI; auto simp: bit_simps dest: bit_imp_le_length)+

text \<open>The colour matrix bank built from the tuning file: row \<open>r\<close> puts its first two
  coefficients in the halves of one word and its third alone in the next, nothing outside the
  twenty-four bytes is written, and every coefficient is a sign bit over the floor of 256 times
  its absolute value, saturated at 0x7fff (zero, of either sign, is 0).\<close>

theorem ccm_bank_packs_matrix:
  fixes bank :: u32
  assumes "page = ar_isp_ccm_from_blob dst base blob bank"
    and "c = (\<lambda>i. ar_isp_get_le32 blob (0x25470 + unat (bank * 0x24) + i * 4))"
  shows "(row < 3 \<longrightarrow>
      ar_isp_get_le32 page (base + 8 * row) AND mask 16 = ucast (ar_isp_f32_q8sm (c (3 * row))) \<and>
      drop_bit 16 (ar_isp_get_le32 page (base + 8 * row)) = ucast (ar_isp_f32_q8sm (c (3 * row + 1))) \<and>
      ar_isp_get_le32 page (base + 8 * row + 4) = ucast (ar_isp_f32_q8sm (c (3 * row + 2)))) \<and>
    (p < base \<or> base + 24 \<le> p \<longrightarrow> page p = dst p) \<and>
    (f32_magnitude v = 0 \<longrightarrow> ar_isp_f32_q8sm v = 0) \<and>
    (f32_magnitude v \<noteq> 0 \<longrightarrow> unat (take_bit 15 (ar_isp_f32_q8sm v)) = q8_magnitude v \<and>
       (bit (ar_isp_f32_q8sm v) 15 \<longleftrightarrow> bit v 31))"
proof -
  have page: "page = ar_isp_ccm_pack dst base (map c [0..<9])" by (simp add: assms ar_isp_ccm_from_blob_def Let_def)
  have rd: "ar_isp_get_le32 page (base + 8 * row) =
      ucast (ar_isp_f32_q8sm (c (3 * row))) OR push_bit 16 (ucast (ar_isp_f32_q8sm (c (3 * row + 1)))) \<and>
      ar_isp_get_le32 page (base + 8 * row + 4) = ucast (ar_isp_f32_q8sm (c (3 * row + 2)))" if "row < 3"
  proof -
    from that consider "row = 0" | "row = 1" | "row = 2" by linarith
    then show ?thesis
      by cases (simp_all add: page ar_isp_ccm_pack_def mem_simps numeral_3_eq_3 upt_conv_Cons)
  qed
  have "page p = dst p" if "p < base \<or> base + 24 \<le> p"
    using that unfolding page ar_isp_ccm_pack_def
    by (auto simp: put_le32_other numeral_3_eq_3 upt_conv_Cons)
  then show ?thesis using rd pair_halves q8sm_fields [of v] q8sm_zero [of v] by simp
qed

theorem ccm_bank_packs_matrix_witness:
  "ar_isp_get_le32 (ar_isp_ccm_from_blob (\<lambda>_. 1) 0 (\<lambda>_. 0x3f) 2) 12 = ucast (ar_isp_f32_q8sm (ar_isp_get_le32 (\<lambda>_. 0x3f) (0x25470 + unat (2 * 0x24 :: u32) + (3 * 1 + 2) * 4)))"
  using ccm_bank_packs_matrix [OF refl refl, where row = 1 and dst = "\<lambda>_. 1" and base = 0 and blob = "\<lambda>_. 0x3f" and bank = 2, THEN conjunct1]
  by simp

lemma ccm_agree: "agree AR_ISP_TUNING_SIZE m m' \<Longrightarrow> bank < 4 \<Longrightarrow>
    ar_isp_ccm_from_blob dst base m bank = ar_isp_ccm_from_blob dst base m' bank"
proof -
  assume ag: "agree AR_ISP_TUNING_SIZE m m'" and b: "bank < 4"
  have "unat bank < 4" using b by (simp add: word_less_nat_alt)
  then have "unat (bank * 0x24) = unat bank * 0x24" by (subst unat_mult_small) simp_all
  then have "unat (bank * 0x24) \<le> 0x6c" using \<open>unat bank < 4\<close> by simp
  then have "map (\<lambda>i. ar_isp_get_le32 m (0x25470 + unat (bank * 0x24) + i * 4)) [0..<9] =
      map (\<lambda>i. ar_isp_get_le32 m' (0x25470 + unat (bank * 0x24) + i * 4)) [0..<9]"
    by (intro map_cong refl agree_le32 [OF ag]) simp
  then show ?thesis by (simp only: ar_isp_ccm_from_blob_def Let_def)
qed

end
