(* ===== verification/Isp_Blc.thy ===== *)
theory Isp_Blc
  imports Isp_Codec
begin

text \<open>
  \<open>ar-isp-blc.h\<close>: black level correction.  Two calibration entries are blended channel by channel
  into the sixteen registers of the bank; the blend weight is the low entry's, in Q16.
\<close>

section \<open>Definitions\<close>

record ar_isp_blc_entry_t =
  blc_scale :: "u32 list"
  blc_level :: "u32 list"

definition ar_isp_blc_entry :: "mem \<Rightarrow> u32 \<Rightarrow> ar_isp_blc_entry_t" where
  "ar_isp_blc_entry blob index =
     (let entry = 0xb4 + unat (index * 0x20)
      in \<lparr>blc_scale = map (\<lambda>i. ar_isp_get_le32 blob (entry + 4 * i)) [0..<4],
          blc_level = map (\<lambda>i. ar_isp_get_le32 blob (entry + 0x10 + 4 * i)) [0..<4]\<rparr>)"

definition ar_isp_blc_mix :: "u32 \<Rightarrow> u32 \<Rightarrow> u32 \<Rightarrow> u32" where
  "ar_isp_blc_mix lo hi blend =
     (let sum = ucast lo * ucast blend + ucast hi * ucast (65536 - blend) :: u64
      in ucast (sum div 65536))"

definition ar_isp_blc_fill :: "mem \<Rightarrow> nat \<Rightarrow> ar_isp_blc_entry_t \<Rightarrow> ar_isp_blc_entry_t \<Rightarrow> u32 \<Rightarrow> mem" where
  "ar_isp_blc_fill block0 base lo hi blend =
     fold (\<lambda>i block.
       let scale = push_bit 6 (ar_isp_blc_mix (blc_scale lo ! i) (blc_scale hi ! i) blend);
           level = ar_isp_blc_mix (blc_level lo ! i) (blc_level hi ! i) blend
       in ar_isp_put_le32 (ar_isp_put_le32 (ar_isp_put_le32 (ar_isp_put_le32 block
            (base + 0x00 + 4 * i) scale) (base + 0x10 + 4 * i) scale)
            (base + 0x20 + 4 * i) level) (base + 0x30 + 4 * i) level) [0..<4] block0"

section \<open>The blend and the bank\<close>

lemma blc_mix_value:
  assumes "unat blend \<le> 65536"
  shows "unat (ar_isp_blc_mix lo hi blend) = (unat hi * (65536 - unat blend) + unat lo * unat blend) div 65536"
proof -
  have c: "unat (65536 - blend) = 65536 - unat blend" using assms by (subst unat_le_minus) simp_all
  have l: "unat lo < 2 ^ 32" "unat hi < 2 ^ 32" using unat_less_length [of lo] unat_less_length [of hi] by simp_all
  have "unat hi * (65536 - unat blend) \<le> (2 ^ 32 - 1) * (65536 - unat blend)"
    "unat lo * unat blend \<le> (2 ^ 32 - 1) * unat blend"
    using l by (intro mult_le_mono1; simp)+
  then have "unat hi * (65536 - unat blend) + unat lo * unat blend \<le> (2 ^ 32 - 1) * (65536 - unat blend) + (2 ^ 32 - 1) * unat blend"
    by (rule add_mono)
  also have "\<dots> = (2 ^ 32 - 1) * 65536" using assms by (simp flip: add_mult_distrib2)
  finally have s: "unat hi * (65536 - unat blend) + unat lo * unat blend \<le> (2 ^ 32 - 1) * 65536" .
  then have p: "unat lo * unat blend \<le> (2 ^ 32 - 1) * 65536" "unat hi * (65536 - unat blend) \<le> (2 ^ 32 - 1) * 65536"
    by linarith+
  have m: "unat (ucast lo * ucast blend :: u64) = unat lo * unat blend"
    "unat (ucast hi * ucast (65536 - blend) :: u64) = unat hi * (65536 - unat blend)"
    using p by (subst unat_mult_small; simp add: unat_ucast_up c)+
  have a: "unat (ucast lo * ucast blend + ucast hi * ucast (65536 - blend) :: u64) =
      unat hi * (65536 - unat blend) + unat lo * unat blend"
    using s by (subst add.commute, subst unat_add_small) (simp_all add: m)
  have "(unat hi * (65536 - unat blend) + unat lo * unat blend) div 65536 \<le> (2 ^ 32 - 1) * 65536 div 65536"
    using s by (rule div_le_mono)
  then have "(unat hi * (65536 - unat blend) + unat lo * unat blend) div 65536 < 2 ^ 32" by simp
  then show ?thesis unfolding ar_isp_blc_mix_def Let_def unat_ucast_mod unat_div a by simp
qed

lemma blc_entry_nth:
  "i < 4 \<Longrightarrow> blc_scale (ar_isp_blc_entry blob index) ! i = ar_isp_get_le32 blob (0xb4 + unat (index * 0x20) + 4 * i)"
  "i < 4 \<Longrightarrow> blc_level (ar_isp_blc_entry blob index) ! i = ar_isp_get_le32 blob (0xb4 + unat (index * 0x20) + 0x10 + 4 * i)"
  by (simp_all add: ar_isp_blc_entry_def Let_def del: upt_rec_numeral)

text \<open>The loop over the four lanes, for any values.\<close>

definition lanes :: "(nat \<Rightarrow> u32) \<Rightarrow> (nat \<Rightarrow> u32) \<Rightarrow> nat \<Rightarrow> nat \<Rightarrow> mem \<Rightarrow> mem" where
  "lanes s l base n = fold (\<lambda>i b. ar_isp_put_le32 (ar_isp_put_le32 (ar_isp_put_le32 (ar_isp_put_le32 b
     (base + 4 * i) (s i)) (base + 0x10 + 4 * i) (s i)) (base + 0x20 + 4 * i) (l i)) (base + 0x30 + 4 * i) (l i)) [0..<n]"

lemma lanes_read:
  assumes "n \<le> 4" "k < n"
  shows "ar_isp_get_le32 (lanes s l base n m) (base + 4 * k) = s k"
    "ar_isp_get_le32 (lanes s l base n m) (base + 0x10 + 4 * k) = s k"
    "ar_isp_get_le32 (lanes s l base n m) (base + 0x20 + 4 * k) = l k"
    "ar_isp_get_le32 (lanes s l base n m) (base + 0x30 + 4 * k) = l k"
  using assms
proof (induction n)
  case (Suc n)
  have st: "lanes s l base (Suc n) m = ar_isp_put_le32 (ar_isp_put_le32 (ar_isp_put_le32 (ar_isp_put_le32 (lanes s l base n m)
     (base + 4 * n) (s n)) (base + 0x10 + 4 * n) (s n)) (base + 0x20 + 4 * n) (l n)) (base + 0x30 + 4 * n) (l n)"
    by (simp add: lanes_def)
  have k: "k = n \<or> k < n" "n \<le> 3" if "k < Suc n" "Suc n \<le> 4" using that by auto
  { case 1 then show ?case using Suc(1) k unfolding st by (cases "k = n") (auto simp: mem_simps) }
  { case 2 then show ?case using Suc(2) k unfolding st by (cases "k = n") (auto simp: mem_simps) }
  { case 3 then show ?case using Suc(3) k unfolding st by (cases "k = n") (auto simp: mem_simps) }
  { case 4 then show ?case using Suc(4) k unfolding st by (cases "k = n") (auto simp: mem_simps) }
qed simp_all

lemma lanes_frame: "n \<le> 4 \<Longrightarrow> p < base \<or> base + 0x40 \<le> p \<Longrightarrow> lanes s l base n m p = m p"
  by (induction n) (auto simp: lanes_def put_le32_other)

text \<open>The black-level bank: each channel's level is the weighted mean of the two entries, floored,
  between them for every weight up to 65536, the low entry itself at 65536 and the high one at 0;
  each scale register is the scale's mean shifted left by 6 (modulo the register width); the two
  alternate lanes repeat lanes 0 and 2, and only the 64 bytes of the block are written.\<close>

theorem blc_bank_is_the_blend:
  assumes "unat blend \<le> 65536" "i < 4"
    and "page = ar_isp_blc_fill dst base (ar_isp_blc_entry blob a) (ar_isp_blc_entry blob b) blend"
    and "lo = unat (ar_isp_get_le32 blob (0xb4 + unat (a * 0x20) + 0x10 + 4 * i))"
    and "hi = unat (ar_isp_get_le32 blob (0xb4 + unat (b * 0x20) + 0x10 + 4 * i))"
    and "level = unat (ar_isp_get_le32 page (base + 0x20 + 4 * i))"
  shows "level = (hi * (65536 - unat blend) + lo * unat blend) div 65536 \<and>
    min lo hi \<le> level \<and> level \<le> max lo hi \<and> (blend = 65536 \<longrightarrow> level = lo) \<and> (blend = 0 \<longrightarrow> level = hi) \<and>
    unat (ar_isp_get_le32 page (base + 4 * i)) =
      (unat (ar_isp_get_le32 blob (0xb4 + unat (b * 0x20) + 4 * i)) * (65536 - unat blend) +
       unat (ar_isp_get_le32 blob (0xb4 + unat (a * 0x20) + 4 * i)) * unat blend) div 65536 * 64 mod 2 ^ 32 \<and>
    ar_isp_get_le32 page (base + 0x10 + 4 * i) = ar_isp_get_le32 page (base + 4 * i) \<and>
    ar_isp_get_le32 page (base + 0x30 + 4 * i) = ar_isp_get_le32 page (base + 0x20 + 4 * i) \<and>
    (p < base \<or> base + 0x40 \<le> p \<longrightarrow> page p = dst p)"
proof -
  define l h where "l = ar_isp_blc_entry blob a" and "h = ar_isp_blc_entry blob b"
  have page: "page = ar_isp_blc_fill dst base l h blend" by (simp add: assms(3) l_def h_def)
  have L: "page = lanes (\<lambda>i. push_bit 6 (ar_isp_blc_mix (blc_scale l ! i) (blc_scale h ! i) blend))
      (\<lambda>i. ar_isp_blc_mix (blc_level l ! i) (blc_level h ! i) blend) base 4 dst"
    unfolding page ar_isp_blc_fill_def lanes_def by (simp only: Let_def add_0_right)
  have rd: "ar_isp_get_le32 page (base + 4 * i) = push_bit 6 (ar_isp_blc_mix (blc_scale l ! i) (blc_scale h ! i) blend)"
    "ar_isp_get_le32 page (base + 0x10 + 4 * i) = push_bit 6 (ar_isp_blc_mix (blc_scale l ! i) (blc_scale h ! i) blend)"
    "ar_isp_get_le32 page (base + 0x20 + 4 * i) = ar_isp_blc_mix (blc_level l ! i) (blc_level h ! i) blend"
    "ar_isp_get_le32 page (base + 0x30 + 4 * i) = ar_isp_blc_mix (blc_level l ! i) (blc_level h ! i) blend"
    unfolding L by (rule lanes_read [OF order_refl assms(2)])+
  have fr: "page p = dst p" if "p < base \<or> base + 0x40 \<le> p"
    unfolding L by (rule lanes_frame [OF order_refl that])
  have lv: "level = (hi * (65536 - unat blend) + lo * unat blend) div 65536"
    unfolding assms(4-6) rd blc_mix_value [OF assms(1)] l_def h_def blc_entry_nth [OF assms(2)] ..
  have sc: "unat (ar_isp_get_le32 page (base + 4 * i)) =
      (unat (ar_isp_get_le32 blob (0xb4 + unat (b * 0x20) + 4 * i)) * (65536 - unat blend) +
       unat (ar_isp_get_le32 blob (0xb4 + unat (a * 0x20) + 4 * i)) * unat blend) div 65536 * 64 mod 2 ^ 32"
    unfolding rd unat_push_bit blc_mix_value [OF assms(1)] l_def h_def blc_entry_nth [OF assms(2)]
    by (simp add: mult.commute)
  show ?thesis
    using lv sc fr rd convex_div [OF assms(1), of hi lo] by (auto simp: min.commute max.commute)
qed

theorem blc_bank_is_the_blend_witness:
  "unat (ar_isp_get_le32 (ar_isp_blc_fill (\<lambda>_. 0) 0 (ar_isp_blc_entry (\<lambda>_. 1) 0) (ar_isp_blc_entry (\<lambda>_. 1) 3) 65536) (0 + 0x20 + 4 * 2))
    = unat (ar_isp_get_le32 (\<lambda>_. 1) (0xb4 + unat (0 * 0x20 :: u32) + 0x10 + 4 * 2))"
  using blc_bank_is_the_blend [of 65536 2, OF _ _ refl refl refl refl, where dst = "\<lambda>_. 0" and base = 0 and a = 0 and b = 3
    and blob = "\<lambda>_. 1", THEN conjunct2, THEN conjunct2, THEN conjunct2, THEN conjunct1] by simp

lemma blc_agree: "agree AR_ISP_TUNING_SIZE m m' \<Longrightarrow> index < 5 \<Longrightarrow> ar_isp_blc_entry m index = ar_isp_blc_entry m' index"
proof -
  assume ag: "agree AR_ISP_TUNING_SIZE m m'" and i: "index < 5"
  have "unat index < 5" using i by (simp add: word_less_nat_alt)
  then have "unat (index * 0x20) \<le> 0x80" by (subst unat_mult_small) simp_all
  then show ?thesis unfolding ar_isp_blc_entry_def Let_def
    by (intro ar_isp_blc_entry_t.equality; simp del: upt_rec_numeral add: agree_le32 [OF ag])
qed

end
