(* ===== verification/Isp_Stats.thy ===== *)
theory Isp_Stats
  imports Isp_Codec
begin

text \<open>
  \<open>ar-isp-stats.h\<close> and \<open>ar-isp-ltm.h\<close>: the indexing of the hardware's statistics buffers and of
  the local-tone-mapping page.  The lemmas show that every index in the documented ranges reads
  inside the buffer and that no two of them read the same word, and give the identity page.
\<close>

section \<open>Definitions\<close>

definition ar_isp_rro_sum :: "mem \<Rightarrow> u32 \<Rightarrow> u32 \<Rightarrow> u32 \<Rightarrow> u32" where
  "ar_isp_rro_sum buf col row channel =
     ar_isp_get_le32 buf (unat (col * 0x200) + 0x100 + unat ((row * 4 + channel) * 4))"

definition ar_isp_rro_count :: "mem \<Rightarrow> u32 \<Rightarrow> u32" where
  "ar_isp_rro_count buf col = ar_isp_get_le32 buf (unat (col * 0x200))"

definition ar_isp_rro_mean :: "mem \<Rightarrow> u32 \<Rightarrow> u32 \<Rightarrow> u32 \<Rightarrow> u32" where
  "ar_isp_rro_mean buf col row channel =
     (let count = ar_isp_rro_count buf col
      in if count = 0 then 0 else ar_isp_rro_sum buf col row channel div count)"

definition ar_isp_hist_bin :: "mem \<Rightarrow> u32 \<Rightarrow> u32 \<Rightarrow> u32" where
  "ar_isp_hist_bin buf lane bin = ar_isp_get_le32 buf (unat ((bin * 4 + lane) * 4))"

definition ar_isp_ltm_sample :: "mem \<Rightarrow> nat \<Rightarrow> nat \<Rightarrow> u16" where
  "ar_isp_ltm_sample page tile sample = ar_isp_get_le16 page (tile * 0x100 + sample * 2)"

definition ar_isp_ltm_put_sample :: "mem \<Rightarrow> nat \<Rightarrow> nat \<Rightarrow> u16 \<Rightarrow> mem" where
  "ar_isp_ltm_put_sample page tile sample value = ar_isp_put_le16 page (tile * 0x100 + sample * 2) value"

definition ar_isp_ltm_fill_identity :: "mem \<Rightarrow> mem" where
  "ar_isp_ltm_fill_identity page0 =
     fold (\<lambda>tile. fold (\<lambda>i page. ar_isp_ltm_put_sample page tile i (of_nat (i * 0x3ff div (128 - 1)))) [0..<128])
       [0..<64] page0"

section \<open>Statistics\<close>

lemma rro_index: "unat col < 36 \<Longrightarrow> unat row < 16 \<Longrightarrow> unat ch < 4 \<Longrightarrow>
    unat (col * 0x200) = unat col * 0x200 \<and> unat ((row * 4 + ch) * 4) = (unat row * 4 + unat ch) * 4"
  for col row ch :: u32
proof -
  assume b: "unat col < 36" "unat row < 16" "unat ch < 4"
  have r: "unat (row * 4 + ch) = unat row * 4 + unat ch"
    using b by (subst unat_add_small; subst unat_mult_small) simp_all
  have "unat (col * 0x200) = unat col * 0x200" using b by (subst unat_mult_small) simp_all
  moreover have "unat ((row * 4 + ch) * 4) = unat (row * 4 + ch) * 4" using b r by (subst unat_mult_small) simp_all
  ultimately show ?thesis unfolding r by blast
qed

lemma hist_index: "unat lane < 4 \<Longrightarrow> unat bin < 128 \<Longrightarrow> unat ((bin * 4 + lane) * 4) = (unat bin * 4 + unat lane) * 4"
  for lane bin :: u32
proof -
  assume b: "unat lane < 4" "unat bin < 128"
  have r: "unat (bin * 4 + lane) = unat bin * 4 + unat lane"
    using b by (subst unat_add_small; subst unat_mult_small) simp_all
  have "unat ((bin * 4 + lane) * 4) = unat (bin * 4 + lane) * 4" using b r by (subst unat_mult_small) simp_all
  then show ?thesis unfolding r .
qed

text \<open>The words of the two buffers, as a grid: column, row and channel, or bin and lane.\<close>

definition rro_grid :: "(nat \<Rightarrow> nat \<Rightarrow> nat \<Rightarrow> u32) \<Rightarrow> (nat \<Rightarrow> u32) \<Rightarrow> mem \<Rightarrow> bool" where
  "rro_grid zsum zcount buf \<longleftrightarrow>
     (\<forall>c<36. ar_isp_get_le32 buf (c * 0x200) = zcount c \<and>
        (\<forall>r<16. \<forall>k<4. ar_isp_get_le32 buf (c * 0x200 + 0x100 + (r * 4 + k) * 4) = zsum c r k))"

text \<open>The RRO and histogram accessors: on a buffer that holds a grid of sums and counts at the
  hardware's layout, \<open>ar_isp_rro_sum\<close> and \<open>ar_isp_rro_count\<close> return the entry asked for, for every
  column, row and channel of the 36 x 16 x 4 grid, the mean is their quotient, zero (and no division)
  for a zero count and at most the largest sum; every read stays inside the 0x4800 bytes of the buffer,
  and every histogram read inside the 0x800 written bytes.\<close>

theorem rro_accessors_read_grid:
  fixes col row ch lane bin :: u32
  assumes "unat col < 36" "unat row < 16" "unat ch < 4" "unat lane < 4" "unat bin < 128"
    and "rro_grid zsum zcount buf"
  shows "ar_isp_rro_sum buf col row ch = zsum (unat col) (unat row) (unat ch) \<and>
    ar_isp_rro_count buf col = zcount (unat col) \<and>
    unat (ar_isp_rro_mean buf col row ch) = unat (zsum (unat col) (unat row) (unat ch)) div unat (zcount (unat col)) \<and>
    (agree 0x4800 buf buf' \<longrightarrow> ar_isp_rro_mean buf' col row ch = ar_isp_rro_mean buf col row ch) \<and>
    (agree 0x800 buf buf' \<longrightarrow> ar_isp_hist_bin buf' lane bin = ar_isp_hist_bin buf lane bin)"
proof -
  note I = rro_index [OF assms(1-3)] and H = hist_index [OF assms(4,5)]
  have s: "ar_isp_rro_sum buf col row ch = zsum (unat col) (unat row) (unat ch)"
    and c: "ar_isp_rro_count buf col = zcount (unat col)"
    using assms(1-3,6) I by (simp_all add: rro_grid_def ar_isp_rro_sum_def ar_isp_rro_count_def)
  have m: "unat (ar_isp_rro_mean buf col row ch) = unat (zsum (unat col) (unat row) (unat ch)) div unat (zcount (unat col))"
    by (simp add: ar_isp_rro_mean_def s c Let_def unat_div)
  have "ar_isp_rro_mean buf' col row ch = ar_isp_rro_mean buf col row ch" if a: "agree 0x4800 buf buf'"
  proof -
    have "ar_isp_rro_sum buf col row ch = ar_isp_rro_sum buf' col row ch" "ar_isp_rro_count buf col = ar_isp_rro_count buf' col"
      unfolding ar_isp_rro_sum_def ar_isp_rro_count_def using assms(1-3) I by (intro agree_le32 [OF a]; simp)+
    then show ?thesis by (simp add: ar_isp_rro_mean_def Let_def)
  qed
  moreover have "ar_isp_hist_bin buf' lane bin = ar_isp_hist_bin buf lane bin" if a: "agree 0x800 buf buf'"
    using assms(4,5) unfolding ar_isp_hist_bin_def H by (intro agree_le32 [OF a, symmetric]) simp
  ultimately show ?thesis using s c m by simp
qed

theorem rro_accessors_read_grid_witness:
  "ar_isp_rro_mean (\<lambda>_. 1) 35 15 3 = 1"
proof -
  have "rro_grid (\<lambda>_ _ _. 0x01010101) (\<lambda>_. 0x01010101) (\<lambda>_. 1)"
    by (simp add: rro_grid_def ar_isp_get_le32_def)
  from rro_accessors_read_grid [of 35 15 3 0 0, OF _ _ _ _ _ this] show ?thesis by (simp add: word_unat_eq_iff)
qed

section \<open>The identity page\<close>

definition ltm_ramp :: "nat \<Rightarrow> u16" where
  "ltm_ramp i = of_nat (i * 0x3ff div (128 - 1))"

lemma fold_rows: "fold (\<lambda>t. fold (\<lambda>i. f (t * n + i)) [0..<n]) [0..<r] m = fold f [0..<r * n] m"
proof (induction r)
  case (Suc r)
  have "[0..<Suc r * n] = [0..<r * n] @ map (\<lambda>i. r * n + i) [0..<n]"
    by (simp add: map_add_upt add.commute) (metis add.commute le_add1 upt_add_eq_append zero_le)
  then show ?case using Suc by (simp add: fold_map comp_def)
qed simp

lemma ltm_fill_flat: "ar_isp_ltm_fill_identity page = fold (\<lambda>k m. ar_isp_put_le16 m (2 * k) (ltm_ramp (k mod 128))) [0..<8192] page"
proof -
  have "ar_isp_ltm_fill_identity page =
      fold (\<lambda>t. fold (\<lambda>i. (\<lambda>k m. ar_isp_put_le16 m (2 * k) (ltm_ramp (k mod 128))) (t * 128 + i)) [0..<128]) [0..<64] page"
    unfolding ar_isp_ltm_fill_identity_def
  proof (intro fold_cong refl ext)
    fix t i m p assume "i \<in> set [0..<128]"
    then have "(t * 128 + i) mod 128 = i" by simp
    then show "ar_isp_ltm_put_sample m t i (of_nat (i * 1023 div (128 - 1))) p = ar_isp_put_le16 m (2 * (t * 128 + i)) (ltm_ramp ((t * 128 + i) mod 128)) p"
      by (simp add: ar_isp_ltm_put_sample_def ltm_ramp_def mult.commute)
  qed
  also have "\<dots> = fold (\<lambda>k m. ar_isp_put_le16 m (2 * k) (ltm_ramp (k mod 128))) [0..<64 * 128] page"
    by (rule fold_rows)
  finally show ?thesis by simp
qed

lemma halfword_fold:
  shows "k < n \<Longrightarrow> ar_isp_get_le16 (fold (\<lambda>k m. ar_isp_put_le16 m (2 * k) (v k)) [0..<n] page) (2 * k) = v k"
    and "2 * n \<le> p \<Longrightarrow> fold (\<lambda>k m. ar_isp_put_le16 m (2 * k) (v k)) [0..<n] page p = page p"
proof (induction n)
  case (Suc n)
  { case 1 then show ?case using Suc(1) by (cases "k = n") (auto simp: mem_simps) }
  { case 2 then show ?case using Suc(2) by (simp add: put_le16_other) }
qed simp_all

text \<open>The identity tone page: every tile's curve is the ramp \<open>i * 1023 / 127\<close>, from 0 to exactly
  0x3ff without ever falling, all tiles are alike, and no byte from 0x4000 on is written; a stored
  sample reads back.\<close>

theorem ltm_identity_page:
  assumes "t < 64" "i < 128" "page = ar_isp_ltm_fill_identity page0"
  shows "unat (ar_isp_ltm_sample page t i) = i * 0x3ff div 127 \<and>
    ar_isp_ltm_sample page t i \<le> 0x3ff \<and> ar_isp_ltm_sample page t 0 = 0 \<and> ar_isp_ltm_sample page t 127 = 0x3ff \<and>
    (j \<le> i \<longrightarrow> ar_isp_ltm_sample page t j \<le> ar_isp_ltm_sample page t i) \<and>
    (0x4000 \<le> p \<longrightarrow> page p = page0 p) \<and>
    ar_isp_ltm_sample (ar_isp_ltm_put_sample page t i v) t i = v"
proof -
  have s: "ar_isp_ltm_sample page t k = ltm_ramp k" if "k < 128" for k :: nat
  proof -
    have "t * 0x100 + k * 2 = 2 * (t * 128 + k)" "t * 128 + k < 8192" "(t * 128 + k) mod 128 = k" using assms(1) that by simp_all
    then show ?thesis
      using halfword_fold(1) [of "t * 128 + k" 8192 "\<lambda>k. ltm_ramp (k mod 128)" page0]
      by (simp only: ar_isp_ltm_sample_def assms(3) ltm_fill_flat)
  qed
  have u: "unat (ltm_ramp k) = k * 0x3ff div 127" if "k < 128" for k :: nat
  proof -
    have "k * 0x3ff div 127 \<le> 127 * 0x3ff div 127" using that by (intro div_le_mono) simp
    then show ?thesis unfolding ltm_ramp_def by (subst unat_of_nat_small) simp_all
  qed
  have le: "k * 0x3ff div 127 \<le> 0x3ff" if "k < 128" for k :: nat
    using div_le_mono [of "k * 0x3ff" "127 * 0x3ff" 127] that by simp
  have mono: "j \<le> i \<Longrightarrow> j * 0x3ff div 127 \<le> i * 0x3ff div 127" by (intro div_le_mono) simp
  have "page p = page0 p" if "0x4000 \<le> p"
    using halfword_fold(2) [of 8192 p] that by (simp only: assms(3) ltm_fill_flat)
  moreover have "ar_isp_ltm_sample (ar_isp_ltm_put_sample page t i v) t i = v"
    by (simp add: ar_isp_ltm_sample_def ar_isp_ltm_put_sample_def get_put_le16)
  ultimately show ?thesis
    using s u le [OF assms(2)] mono assms(2) by (auto simp: word_le_nat_alt word_unat_eq_iff)
qed

theorem ltm_identity_page_witness:
  "ar_isp_ltm_sample (ar_isp_ltm_fill_identity (\<lambda>_. 0)) 63 127 = 0x3ff"
  using ltm_identity_page [of 63 127, OF _ _ refl, THEN conjunct2, THEN conjunct2, THEN conjunct2, THEN conjunct1] by simp

end
