(* ===== verification/Isp_Banks.thy ===== *)
theory Isp_Banks
  imports Isp_Rnr Isp_Lnr Isp_De3d Isp_De3d_Geom Isp_Cfa Isp_Cnf Isp_Cm Isp_Tone Isp_Colour Isp_Blc Isp_Stats
begin

text \<open>
  The stages together: every register bank and coefficient page that is computed from the tuning
  file is a function of the file's 0xd6c58 bytes only.
\<close>

text \<open>C20: No stage reads outside the tuning file: for every gain and scalar, whatever the file holds
  (its band counts and edges included), the rnr, lnr, de3d, cfa and cnf registers, the gamma and DRC
  pages picked by the tone selector, the lens-shading grid, the four colour matrices and the five
  black-level entries are the same for two buffers that agree on the 0xd6c58 bytes of the file.\<close>

theorem stages_stay_in_file:
  assumes ag: "agree AR_ISP_TUNING_SIZE m m'"
  shows "ar_isp_rnr_from_blob m g = ar_isp_rnr_from_blob m' g \<and>
    ar_isp_rnr_tail_from_blob m g = ar_isp_rnr_tail_from_blob m' g \<and>
    ar_isp_lnr_from_blob regs m g = ar_isp_lnr_from_blob regs m' g \<and>
    ar_isp_de3d_from_blob m g = ar_isp_de3d_from_blob m' g \<and>
    ar_isp_cfa_from_blob m g = ar_isp_cfa_from_blob m' g \<and>
    ar_isp_cnf_strength_from_blob m g = ar_isp_cnf_strength_from_blob m' g \<and>
    (i < 6 \<longrightarrow> ar_isp_cnf_static_pack m i = ar_isp_cnf_static_pack m' i) \<and>
    gamma_page_for dst base m g = gamma_page_for dst base m' g \<and>
    drc_page_for dst base m g = drc_page_for dst base m' g \<and>
    ar_isp_lsc_from_blob dst base m = ar_isp_lsc_from_blob dst base m' \<and>
    (bank < 4 \<longrightarrow> ar_isp_ccm_from_blob dst base m bank = ar_isp_ccm_from_blob dst base m' bank) \<and>
    (index < 5 \<longrightarrow> ar_isp_blc_entry m index = ar_isp_blc_entry m' index)"
  using rnr_agree [OF ag] lnr_agree [OF ag] de3d_agree [OF ag] cfa_agree [OF ag] cnf_agree [OF ag]
    tone_pages_agree [OF ag] lsc_agree [OF ag] ccm_agree [OF ag] blc_agree [OF ag]
  by blast

theorem stages_stay_in_file_witness:
  "ar_isp_de3d_from_blob (\<lambda>_. 0) 0x10000 = ar_isp_de3d_from_blob (\<lambda>i. if i < AR_ISP_TUNING_SIZE then 0 else 255) 0x10000"
  using stages_stay_in_file [OF agree_example, of "0x10000"] by blast

end
