(* ===== verification/Isp_Stages.thy ===== *)
theory Isp_Stages
  imports Isp_Banks
begin

text \<open>
  The register stages of \<open>ar-isp-tables.c\<close>: each recomputes its bank from the tuning file at the
  stage's module parameter and writes it to the block, in full or under a mask, and
  \<open>ar_isp_ladders_show\<close>, the parity oracle, reads the banks back and compares them with a fresh
  recomputation.  The block's registers are a map from byte offset to word; a register reads back what was
  written to it.  Every stage is shown to be a list of masked writes whose offsets are all
  different, from which the properties of the whole pass follow.
\<close>

section \<open>Registers and parameters\<close>

text \<open>The module parameters of the two files of the driver.\<close>

record isp_params =
  p_tables :: bool
  p_hdr :: bool
  p_lsc :: bool
  p_stats :: bool
  p_pingpong :: bool
  p_seed :: bool
  p_gamma_curve :: int
  p_drc_profile :: int
  p_tone_scalar :: int
  p_compander :: bool
  p_hdr_lsc :: bool
  p_ccm :: bool
  p_ccm_bank :: u32
  p_de3d :: bool
  p_dpc :: bool
  p_ltm :: bool
  p_csc :: int
  p_rnr_gain :: int
  p_lnr_gain :: int
  p_de3d_gain :: int
  p_de3d_strength :: int
  p_de3d_strength9 :: int
  p_cfa_gain :: int
  p_cnf_gain :: int
  p_cm_trigger :: int
  p_cm2_trigger :: int
  p_trim :: bool
  p_gib :: bool
  p_gates :: bool
  p_use_irq :: bool
  p_setup_entries :: nat

text \<open>The defaults of the source: every stage on, the ladders at gain 1.0 and the colour stages at the trigger scalar 291.\<close>

definition isp_defaults :: isp_params where
  "isp_defaults = \<lparr>p_tables = True, p_hdr = True, p_lsc = True, p_stats = True, p_pingpong = True, p_seed = True,
     p_gamma_curve = 3, p_drc_profile = 4, p_tone_scalar = -1, p_compander = True, p_hdr_lsc = True, p_ccm = True,
     p_ccm_bank = 0, p_de3d = True, p_dpc = True, p_ltm = True, p_csc = 0, p_rnr_gain = 256, p_lnr_gain = 256,
     p_de3d_gain = 256, p_de3d_strength = 50, p_de3d_strength9 = 50, p_cfa_gain = 256, p_cnf_gain = 256,
     p_cm_trigger = 291 * 256, p_cm2_trigger = 291 * 256, p_trim = True, p_gib = True, p_gates = False, p_use_irq = True,
     p_setup_entries = 1475\<rparr>"

type_synonym isp_reg = "nat \<times> u32"

definition ar_isp_apply :: "isp_reg list \<Rightarrow> regs \<Rightarrow> regs" where
  "ar_isp_apply tbl R = fold (\<lambda>(off, v) R. R(off := v)) tbl R"

definition ar_isp_rmw :: "nat \<Rightarrow> u32 \<Rightarrow> u32 \<Rightarrow> regs \<Rightarrow> regs" where
  "ar_isp_rmw off msk val R = R(off := (R off AND NOT msk) OR (val AND msk))"

text \<open>\<open>(u32)gain << 8\<close>\<close>

definition gain_q16 :: "int \<Rightarrow> u32" where
  "gain_q16 g = push_bit 8 (word_of_int g)"

text \<open>The registers of a run of \<open>n\<close> words from \<open>base\<close> on.\<close>

definition write_run :: "nat \<Rightarrow> u32 list \<Rightarrow> regs \<Rightarrow> regs" where
  "write_run base ws R = fold (\<lambda>i R. R(base + i * 4 := ws ! i)) [0..<length ws] R"

section \<open>The stages\<close>

definition ar_isp_rnr_apply :: "isp_params \<Rightarrow> mem option \<Rightarrow> regs \<Rightarrow> regs" where
  "ar_isp_rnr_apply p tuning R =
     (if p_rnr_gain p < 0 then R
      else case tuning of
        None \<Rightarrow> R
      | Some blob \<Rightarrow>
          if ar_isp_get_le32 blob (0x79d8 + 0) \<noteq> 1 then R
          else let bank = ar_isp_rnr_from_blob blob (gain_q16 (p_rnr_gain p));
                   tail = ar_isp_rnr_tail_from_blob blob (gain_q16 (p_rnr_gain p))
               in write_run (0x1800 + 0x38) tail (write_run (0x1800 + 0x08) bank R))"

definition ar_isp_lnr_apply :: "isp_params \<Rightarrow> mem option \<Rightarrow> regs \<Rightarrow> regs" where
  "ar_isp_lnr_apply p tuning R =
     (if p_lnr_gain p < 0 then R
      else case tuning of
        None \<Rightarrow> R
      | Some blob \<Rightarrow>
          if ar_isp_get_le32 blob (0x89e88 + 0) \<noteq> 1 then R
          else let bank = ar_isp_lnr_from_blob (\<lambda>i. R (0x3cc8 + i * 4)) blob (gain_q16 (p_lnr_gain p))
               in fold (\<lambda>i R. if i = (0x3d10 - 0x3cc8) div 4 then R else R(0x3cc8 + i * 4 := bank i)) [0..<86] R)"

text \<open>The two user strengths, applied to the words 4 and 5 of the bank.\<close>

definition de3d_user_strength :: "isp_params \<Rightarrow> u32 list \<Rightarrow> u32 list" where
  "de3d_user_strength p bank =
     (let bank1 = (if 0 \<le> p_de3d_strength p \<and> p_de3d_strength p \<le> 100 \<and> p_de3d_strength p \<noteq> 50
                   then bank[4 := ar_isp_de3d_strength (bank ! 4 AND 0x3fff) (p_de3d_strength p) 200 AND 0x3fff]
                   else bank)
      in if 0 \<le> p_de3d_strength9 p \<and> p_de3d_strength9 p \<le> 100 \<and> p_de3d_strength9 p \<noteq> 50
         then let f = ar_isp_de3d_strength (drop_bit 16 (bank1 ! 5) AND 0x1ff) (p_de3d_strength9 p) 120 AND 0x1ff
              in bank1[5 := (bank1 ! 5 AND NOT (push_bit 16 0x1ff)) OR push_bit 16 f]
         else bank1)"

definition ar_isp_de3d_apply :: "isp_params \<Rightarrow> mem option \<Rightarrow> regs \<Rightarrow> regs" where
  "ar_isp_de3d_apply p tuning R =
     (if p_de3d_gain p < 0 then R
      else case tuning of
        None \<Rightarrow> R
      | Some blob \<Rightarrow>
          if ar_isp_get_le32 blob (0x9631c + 0) \<noteq> 1 then R
          else let bank = de3d_user_strength p (ar_isp_de3d_from_blob blob (gain_q16 (p_de3d_gain p)))
               in fold (\<lambda>i R. ar_isp_rmw (0x2e00 + fst (ar_isp_de3d_regs ! i)) (snd (ar_isp_de3d_regs ! i)) (bank ! i) R) [0..<51] R)"

text \<open>The registers the four runs of the cfa bank go to, in order.\<close>

definition cfa_offsets :: "nat list" where
  "cfa_offsets = concat (map (\<lambda>run. map (\<lambda>k. 0x0800 + cfa_reg run + k * 4) [0..<cfa_count run]) ar_isp_cfa_runs)"

abbreviation AR_ISP_CFA_HEAD_MASK :: u32 where "AR_ISP_CFA_HEAD_MASK \<equiv> 0x0000ffff"

definition ar_isp_cfa_apply :: "isp_params \<Rightarrow> mem option \<Rightarrow> regs \<Rightarrow> regs" where
  "ar_isp_cfa_apply p tuning R =
     (if p_cfa_gain p < 0 then R
      else case tuning of
        None \<Rightarrow> R
      | Some blob \<Rightarrow>
          if ar_isp_get_le32 blob (0x24548 + 0) \<noteq> 1 then R
          else fold (\<lambda>(off, v) R. if off = 0x0800 then ar_isp_rmw off AR_ISP_CFA_HEAD_MASK v R else R(off := v))
                 (zip cfa_offsets (ar_isp_cfa_from_blob blob (gain_q16 (p_cfa_gain p)))) R)"

abbreviation AR_ISP_CNF_STRENGTH_MASK :: u32 where "AR_ISP_CNF_STRENGTH_MASK \<equiv> 0x000000fe"
abbreviation AR_ISP_CNF_NORM_MASK :: u32 where "AR_ISP_CNF_NORM_MASK \<equiv> 0x0003ffff"
abbreviation AR_ISP_CNF_NORM_B_MASK :: u32 where "AR_ISP_CNF_NORM_B_MASK \<equiv> 0x0001ffff"
abbreviation AR_ISP_CNF_NORM_A_BIT :: u32 where "AR_ISP_CNF_NORM_A_BIT \<equiv> 0x00020000"

definition ar_isp_cnf_apply :: "isp_params \<Rightarrow> mem option \<Rightarrow> regs \<Rightarrow> regs" where
  "ar_isp_cnf_apply p tuning R =
     (if p_cnf_gain p < 0 then R
      else case tuning of
        None \<Rightarrow> R
      | Some blob \<Rightarrow>
          let strength = ar_isp_cnf_strength_from_blob blob (gain_q16 (p_cnf_gain p));
              R1 = ar_isp_rmw 0x3c64 AR_ISP_CNF_STRENGTH_MASK (ar_isp_cnf_pack strength) R;
              R2 = ar_isp_rmw 0x3c84 AR_ISP_CNF_NORM_MASK (ar_isp_cnf_norm_pack strength OR AR_ISP_CNF_NORM_A_BIT) R1;
              R3 = ar_isp_rmw 0x3c88 AR_ISP_CNF_NORM_B_MASK (ar_isp_cnf_norm_pack 2) R2
          in fold (\<lambda>i R. case ar_isp_cnf_static_pack blob i of (val, msk) \<Rightarrow> ar_isp_rmw (0x3c8c + i * 4) msk val R) [0..<6] R3)"

abbreviation AR_ISP_CM_GAIN_MASK :: u32 where "AR_ISP_CM_GAIN_MASK \<equiv> 0x0000007f"

definition ar_isp_cm_apply :: "isp_params \<Rightarrow> mem option \<Rightarrow> regs \<Rightarrow> regs" where
  "ar_isp_cm_apply p tuning R =
     (if p_cm_trigger p < 0 then R
      else case tuning of
        None \<Rightarrow> R
      | Some blob \<Rightarrow>
          if ar_isp_get_le32 blob 0x89cfc \<noteq> 1 then R
          else ar_isp_rmw 0x483c AR_ISP_CM_GAIN_MASK (ar_isp_cm_gain_field_from_blob blob (word_of_int (p_cm_trigger p)) 0) R)"

definition ar_isp_cm2_apply :: "isp_params \<Rightarrow> mem option \<Rightarrow> regs \<Rightarrow> regs" where
  "ar_isp_cm2_apply p tuning R =
     (if p_cm2_trigger p < 0 then R
      else case tuning of
        None \<Rightarrow> R
      | Some blob \<Rightarrow>
          if ar_isp_get_le32 blob 0xa1304 \<noteq> 1 then R
          else let row = ar_isp_cm2_from_blob blob (word_of_int (p_cm2_trigger p)) 0;
                   R1 = ar_isp_rmw 0x4804 AR_ISP_CM_GAIN_MASK (gain_field row) R
               in R1(0x481c := lo1 row, 0x4820 := hi1 row, 0x4824 := lo2 row, 0x4828 := hi2 row,
                     0x482c := recip1 row, 0x4830 := recip2 row))"

definition ar_isp_ladders_apply :: "isp_params \<Rightarrow> mem option \<Rightarrow> regs \<Rightarrow> regs" where
  "ar_isp_ladders_apply p tuning R0 =
     (let R1 = ar_isp_rnr_apply p tuning R0; R2 = ar_isp_lnr_apply p tuning R1; R3 = ar_isp_de3d_apply p tuning R2;
          R4 = ar_isp_cfa_apply p tuning R3; R5 = ar_isp_cnf_apply p tuning R4; R6 = ar_isp_cm_apply p tuning R5
      in ar_isp_cm2_apply p tuning R6)"

text \<open>The geometry registers of de3d, from the block's own frame size register.\<close>

definition ar_isp_de3d_geom_apply :: "regs \<Rightarrow> regs" where
  "ar_isp_de3d_geom_apply R =
     (let frame = R (0x2e00 + 0x04);
          width = drop_bit 16 frame;
          height = frame AND 0x1fff
      in if width = 0 \<or> height = 0 then R
         else let bank = ar_isp_de3d_geom_pack width height (1100 * 2) 1
              in fold (\<lambda>i R. ar_isp_rmw (0x2e00 + fst (ar_isp_de3d_geom_regs ! i)) (snd (ar_isp_de3d_geom_regs ! i)) (bank ! i) R)
                   [0..<13] R)"

text \<open>The colour-space matrices and the fixed colour-correction blocks.\<close>

definition ar_isp_csc_matrices :: "(string \<times> u32 list) list" where
  "ar_isp_csc_matrices =
     [(''bt601_full'', [0x02590132, 0x00000074, 0x815280ad, 0x02000200, 0x81ad0200, 0x02008052]),
      (''bt709_full'', [0x02dc00da, 0x00000049, 0x81938077, 0x020b020b, 0x81db020b, 0x020b8030]),
      (''bt601_limited'', [0x02040107, 0x00000064, 0x81298097, 0x01c101c1, 0x817801c1, 0x01c18048]),
      (''bt709_limited'', [0x027400bb, 0x0000003f, 0x815a8067, 0x01c101c1, 0x819801c1, 0x01c18028])]"

definition ar_isp_rgb2yuv_apply :: "isp_params \<Rightarrow> regs \<Rightarrow> regs" where
  "ar_isp_rgb2yuv_apply p R =
     (if p_csc p < 0 then R
      else if p_csc p \<ge> int (length ar_isp_csc_matrices) then R
      else let m = snd (ar_isp_csc_matrices ! nat (p_csc p))
           in fold (\<lambda>i R. R(0x3c00 + i * 4 := m ! i)) [0..<6] R)"

definition ar_isp_ccm1_init :: "u32 list" where
  "ar_isp_ccm1_init =
     [0x00000100, 0x00000000, 0x01000000, 0x00000000, 0x00000000, 0x00000100, 0x00000000, 0x00000000,
      0x00000100, 0x00000000, 0x01000000, 0x00000000, 0x00000000, 0x00000100, 0x00000000, 0x00000000,
      0x00000000, 0x00000000, 0x00000000, 0x00000000]"

definition ar_isp_ccm2_init :: "u32 list" where
  "ar_isp_ccm2_init =
     [0x80f7020c, 0x00008017, 0x01978051, 0x00008048, 0x80868003, 0x00000187, 0x00000000, 0x00000000,
      0x80f7020c, 0x00008017, 0x01978051, 0x00008048, 0x80868003, 0x00000187, 0x00000000, 0x00000000,
      0x00000000, 0x00000000, 0x00000000, 0x00000000]"

text \<open>An out-of-range bank number is reset in the parameter itself, so the parameters are a result.\<close>

definition ar_isp_ccm_apply :: "isp_params \<Rightarrow> mem option \<Rightarrow> regs \<Rightarrow> regs \<times> isp_params" where
  "ar_isp_ccm_apply p tuning R =
     (if \<not> p_ccm p then (R, p)
      else let R1 = write_run 0x3400 ar_isp_ccm1_init R;
               R2 = write_run 0x3800 ar_isp_ccm2_init R1
           in case tuning of
             None \<Rightarrow> (R2, p)
           | Some blob \<Rightarrow>
               if ar_isp_get_le32 blob 0x253fc \<noteq> 1 then (R2, p)
               else let p1 = (if p_ccm_bank p \<ge> 4 then p\<lparr>p_ccm_bank := 0\<rparr> else p);
                        packed = ar_isp_ccm_from_blob (\<lambda>_. 0) 0 blob (p_ccm_bank p1)
                    in (fold (\<lambda>i R. R(0x3400 + i * 4 := ar_isp_get_le32 packed (i * 4))) [0..<6] R2, p1))"

definition ar_isp_dpc_payload :: "isp_reg list" where
  "ar_isp_dpc_payload =
    [(0x0c00, 0x0), (0x0c04, 0x780), (0x0c08, 0x438), (0x0c0c, 0x0), (0x0c10, 0x1), (0x0c14, 0x40), (0x0c18, 0x0),
     (0x0c1c, 0x3e8), (0x0c20, 0x578), (0x0c24, 0x640), (0x0c28, 0x3e8), (0x0c2c, 0xc8), (0x0c30, 0x320), (0x0c34, 0xbb8),
     (0x0c38, 0xc8), (0x0c3c, 0x190), (0x0c40, 0x3e8), (0x0c44, 0xc8), (0x0c48, 0x320), (0x0c4c, 0x33), (0x0c50, 0x20),
     (0x0c54, 0x40), (0x0c58, 0x80), (0x0c5c, 0x100), (0x0c60, 0x200), (0x0c64, 0x0), (0x0c68, 0x20), (0x0c6c, 0x60),
     (0x0c70, 0xa0), (0x0c74, 0xe0), (0x0c78, 0x0), (0x0c7c, 0x0), (0x0c80, 0x0), (0x0c84, 0x0), (0x0c88, 0x0),
     (0x0c8c, 0x0), (0x0c90, 0x0), (0x0c94, 0x0), (0x0c98, 0x0), (0x0c9c, 0x0), (0x0ca0, 0x0), (0x0ca4, 0x0),
     (0x0ca8, 0x0), (0x0cac, 0x0), (0x0cb0, 0x0), (0x0cb4, 0x0), (0x0cb8, 0x0), (0x0cbc, 0x0), (0x0cc0, 0x0),
     (0x0cc4, 0x0), (0x0cc8, 0x0), (0x0ccc, 0x0), (0x0cd0, 0x0), (0x0cd4, 0x0), (0x0cd8, 0x0), (0x0cdc, 0x0),
     (0x0ce0, 0x0), (0x0ce4, 0x0), (0x0ce8, 0x0), (0x0cec, 0x0), (0x0cf0, 0x0), (0x0cf4, 0x0), (0x0cf8, 0x0),
     (0x0cfc, 0x0), (0x0d00, 0x0), (0x0d04, 0x0), (0x0d08, 0xff)]"

definition ar_isp_dpc_apply :: "isp_params \<Rightarrow> regs \<Rightarrow> regs" where
  "ar_isp_dpc_apply p R = (if p_dpc p then ar_isp_apply ar_isp_dpc_payload R else R)"

section \<open>The parity oracle\<close>

text \<open>One line of the report: a comparison (stage, register, what it holds, what a recomputation asks for,
  the mask the stage writes under), or why a stage contributes none.\<close>

datatype skip_why = Parameter_off | Gate_clear

datatype ladder_line = Cmp string nat u32 u32 u32 | Skip string skip_why

definition ar_isp_ladder_cmp :: "ladder_line \<Rightarrow> bool" where
  "ar_isp_ladder_cmp l = (case l of Cmp st off live want msk \<Rightarrow> (live XOR want) AND msk = 0 | Skip st why \<Rightarrow> True)"

text \<open>A stage that is switched off, one whose tuning gate is clear, and one that is compared.\<close>

definition ladder_stage :: "string \<Rightarrow> int \<Rightarrow> bool \<Rightarrow> ladder_line list \<Rightarrow> ladder_line list" where
  "ladder_stage st par gate ls =
     (if par < 0 then [Skip st Parameter_off] else if \<not> gate then [Skip st Gate_clear] else ls)"

definition rnr_lines :: "isp_params \<Rightarrow> mem \<Rightarrow> regs \<Rightarrow> ladder_line list" where
  "rnr_lines p blob R =
     (let bank = ar_isp_rnr_from_blob blob (gain_q16 (p_rnr_gain p));
          tail = ar_isp_rnr_tail_from_blob blob (gain_q16 (p_rnr_gain p))
      in map (\<lambda>i. let off = 0x1800 + 0x08 + i * 4 in Cmp ''rnr'' off (R off) (bank ! i) 0xffffffff) [0..<12] @
         map (\<lambda>i. let off = 0x1800 + 0x38 + i * 4 in Cmp ''rnr'' off (R off) (tail ! i) 0xffffffff) [0..<22])"

definition lnr_lines :: "isp_params \<Rightarrow> mem \<Rightarrow> regs \<Rightarrow> ladder_line list" where
  "lnr_lines p blob R =
     (let live = (\<lambda>i. R (0x3cc8 + i * 4));
          bank = ar_isp_lnr_from_blob live blob (gain_q16 (p_lnr_gain p))
      in map (\<lambda>i. Cmp ''lnr'' (0x3cc8 + i * 4) (live i) (bank i) 0xffffffff) (filter (\<lambda>i. i \<noteq> (0x3d10 - 0x3cc8) div 4) [0..<86]))"

definition de3d_lines :: "isp_params \<Rightarrow> mem \<Rightarrow> regs \<Rightarrow> ladder_line list" where
  "de3d_lines p blob R =
     (let bank = ar_isp_de3d_from_blob blob (gain_q16 (p_de3d_gain p))
      in map (\<lambda>i. let off = 0x2e00 + fst (ar_isp_de3d_regs ! i) in Cmp ''de3d'' off (R off) (bank ! i) (snd (ar_isp_de3d_regs ! i))) [0..<51])"

definition cfa_lines :: "isp_params \<Rightarrow> mem \<Rightarrow> regs \<Rightarrow> ladder_line list" where
  "cfa_lines p blob R =
     map (\<lambda>(off, v). Cmp ''cfa'' off (R off) v (if off = 0x0800 then AR_ISP_CFA_HEAD_MASK else 0xffffffff))
       (zip cfa_offsets (ar_isp_cfa_from_blob blob (gain_q16 (p_cfa_gain p))))"

definition cnf_lines :: "isp_params \<Rightarrow> mem \<Rightarrow> regs \<Rightarrow> ladder_line list" where
  "cnf_lines p blob R =
     (let strength = ar_isp_cnf_strength_from_blob blob (gain_q16 (p_cnf_gain p))
      in [Cmp ''cnf'' 0x3c64 (R 0x3c64) (ar_isp_cnf_pack strength) AR_ISP_CNF_STRENGTH_MASK,
          Cmp ''cnf'' 0x3c84 (R 0x3c84) (ar_isp_cnf_norm_pack strength OR AR_ISP_CNF_NORM_A_BIT) AR_ISP_CNF_NORM_MASK,
          Cmp ''cnf'' 0x3c88 (R 0x3c88) (ar_isp_cnf_norm_pack 2) AR_ISP_CNF_NORM_B_MASK])"

definition cm_lines :: "isp_params \<Rightarrow> mem \<Rightarrow> regs \<Rightarrow> ladder_line list" where
  "cm_lines p blob R =
     [Cmp ''cm'' 0x483c (R 0x483c) (ar_isp_cm_gain_field_from_blob blob (word_of_int (p_cm_trigger p)) 0) AR_ISP_CM_GAIN_MASK]"

abbreviation AR_ISP_CM2_RECIP_MASK :: u32 where "AR_ISP_CM2_RECIP_MASK \<equiv> 0x000003ff"

definition cm2_lines :: "isp_params \<Rightarrow> mem \<Rightarrow> regs \<Rightarrow> ladder_line list" where
  "cm2_lines p blob R =
     (let row = ar_isp_cm2_from_blob blob (word_of_int (p_cm2_trigger p)) 0
      in Cmp ''cm2'' 0x4804 (R 0x4804) (gain_field row) AR_ISP_CM_GAIN_MASK #
         map (\<lambda>(off, v, msk). Cmp ''cm2'' off (R off) v msk)
           [(0x481c, lo1 row, 0xffffffff), (0x4820, hi1 row, 0xffffffff), (0x4824, lo2 row, 0xffffffff),
            (0x4828, hi2 row, 0xffffffff), (0x482c, recip1 row, AR_ISP_CM2_RECIP_MASK), (0x4830, recip2 row, AR_ISP_CM2_RECIP_MASK)])"

text \<open>The report and its count of mismatches.\<close>

definition ladder_report :: "isp_params \<Rightarrow> mem \<Rightarrow> regs \<Rightarrow> ladder_line list" where
  "ladder_report p blob R =
     ladder_stage ''rnr'' (p_rnr_gain p) (ar_isp_get_le32 blob (0x79d8 + 0) = 1) (rnr_lines p blob R) @
     ladder_stage ''lnr'' (p_lnr_gain p) (ar_isp_get_le32 blob (0x89e88 + 0) = 1) (lnr_lines p blob R) @
     ladder_stage ''de3d'' (p_de3d_gain p) (ar_isp_get_le32 blob (0x9631c + 0) = 1) (de3d_lines p blob R) @
     ladder_stage ''cfa'' (p_cfa_gain p) (ar_isp_get_le32 blob (0x24548 + 0) = 1) (cfa_lines p blob R) @
     ladder_stage ''cnf'' (p_cnf_gain p) True (cnf_lines p blob R) @
     ladder_stage ''cm'' (p_cm_trigger p) (ar_isp_get_le32 blob 0x89cfc = 1) (cm_lines p blob R) @
     ladder_stage ''cm2'' (p_cm2_trigger p) (ar_isp_get_le32 blob 0xa1304 = 1) (cm2_lines p blob R)"

definition ar_isp_ladders_show :: "isp_params \<Rightarrow> mem option \<Rightarrow> regs \<Rightarrow> ladder_line list \<times> nat" where
  "ar_isp_ladders_show p tuning R =
     (case tuning of
        None \<Rightarrow> ([], 0)
      | Some blob \<Rightarrow>
          let ls = ladder_report p blob R in (ls, length (filter (\<lambda>l. \<not> ar_isp_ladder_cmp l) ls)))"

section \<open>Masked writes\<close>

text \<open>A write of some bits of a register: offset, mask, value.\<close>

type_synonym mwrite = "nat \<times> u32 \<times> u32"

definition mput :: "mwrite \<Rightarrow> regs \<Rightarrow> regs" where
  "mput w R = (case w of (off, msk, v) \<Rightarrow> ar_isp_rmw off msk v R)"

definition mrun :: "mwrite list \<Rightarrow> regs \<Rightarrow> regs" where
  "mrun ws R = fold mput ws R"

lemma mrun_simps [simp]: "mrun [] R = R" "mrun (w # ws) R = mrun ws (mput w R)" "mrun (ws @ vs) R = mrun vs (mrun ws R)"
  by (simp_all add: mrun_def)

lemma all_ones: "(0xffffffff :: u32) = -1"
  by simp

lemma full_write: "R(off := v) = mput (off, 0xffffffff, v) R"
  unfolding mput_def ar_isp_rmw_def all_ones by simp

lemma mput_step: "mput (off, msk, v) = ar_isp_rmw off msk v"
  by (simp add: fun_eq_iff mput_def)

lemma mput_other: "fst w \<noteq> off \<Longrightarrow> mput w R off = R off"
  by (cases w) (simp add: mput_def ar_isp_rmw_def)

lemma mput_bits: "n < 32 \<Longrightarrow> bit (mput (o', m, v) R off) n = (if o' = off \<and> bit m n then bit v n else bit (R off) n)"
  by (auto simp: mput_def ar_isp_rmw_def bit_simps)

lemma mrun_other: "off \<notin> fst ` set ws \<Longrightarrow> mrun ws R off = R off"
proof (induction ws arbitrary: R)
  case (Cons w ws)
  then show ?case using mput_other [of w off R] by auto
qed simp

text \<open>With one write per register, each register ends up with its own write.\<close>

lemma mrun_at:
  "distinct (map fst ws) \<Longrightarrow> (off, msk, v) \<in> set ws \<Longrightarrow> mrun ws R off = (R off AND NOT msk) OR (v AND msk)"
proof (induction ws arbitrary: R)
  case (Cons w ws)
  show ?case
  proof (cases "w = (off, msk, v)")
    case True
    then have "off \<notin> fst ` set ws" using Cons.prems(1) by simp
    then have "mrun ws (mput w R) off = mput w R off" by (rule mrun_other)
    then show ?thesis using True by (simp add: mput_def ar_isp_rmw_def)
  next
    case False
    then have i: "(off, msk, v) \<in> set ws" using Cons.prems(2) by simp
    then have "off \<in> fst ` set ws" by force
    then have "fst w \<noteq> off" using Cons.prems(1) by auto
    then have "mput w R off = R off" by (rule mput_other)
    moreover have "mrun ws (mput w R) off = (mput w R off AND NOT msk) OR (v AND msk)"
      by (rule Cons.IH) (use Cons.prems(1) i in simp_all)
    ultimately show ?thesis by simp
  qed
qed simp

lemma mrun_masked: "distinct (map fst ws) \<Longrightarrow> (off, msk, v) \<in> set ws \<Longrightarrow> mrun ws R off AND msk = v AND msk"
  unfolding mrun_at by (rule bit_word_eqI) (auto simp: bit_simps)

lemma mrun_outside:
  assumes "distinct (map fst ws)" "\<And>m v. (off, m, v) \<in> set ws \<Longrightarrow> m AND k = 0"
  shows "mrun ws R off AND k = R off AND k"
proof (cases "off \<in> fst ` set ws")
  case True
  then obtain m v where w: "(off, m, v) \<in> set ws" by force
  have "\<not> (bit m n \<and> bit k n)" for n using assms(2) [OF w] bit_imp_le_length [of m n] by (auto simp: bit_eq_iff bit_simps)
  then show ?thesis unfolding mrun_at [OF assms(1) w] by (intro bit_word_eqI) (auto simp: bit_simps)
qed (simp add: mrun_other)

lemma mrun_twice:
  assumes "distinct (map fst ws)" "\<And>off m v. (off, m, v) \<in> set ws \<Longrightarrow> R off AND m = v AND m"
  shows "mrun ws R = R"
proof
  fix off
  show "mrun ws R off = R off"
  proof (cases "off \<in> fst ` set ws")
    case True
    then obtain m v where w: "(off, m, v) \<in> set ws" by force
    show ?thesis unfolding mrun_at [OF assms(1) w] assms(2) [OF w, symmetric] by (rule bit_word_eqI) (auto simp: bit_simps)
  qed (simp add: mrun_other)
qed

lemma write_run_mrun: "write_run base ws R = mrun (map (\<lambda>i. (base + i * 4, 0xffffffff, ws ! i)) [0..<length ws]) R"
  unfolding write_run_def mrun_def fold_map by (intro fold_cong refl) (simp add: fun_eq_iff full_write [symmetric])

section \<open>The stages as masked writes\<close>

definition rnr_writes :: "isp_params \<Rightarrow> mem \<Rightarrow> mwrite list" where
  "rnr_writes p blob =
     map (\<lambda>i. (0x1808 + i * 4, 0xffffffff, ar_isp_rnr_from_blob blob (gain_q16 (p_rnr_gain p)) ! i)) [0..<12] @
     map (\<lambda>i. (0x1838 + i * 4, 0xffffffff, ar_isp_rnr_tail_from_blob blob (gain_q16 (p_rnr_gain p)) ! i)) [0..<22]"

definition lnr_writes :: "isp_params \<Rightarrow> mem \<Rightarrow> regs \<Rightarrow> mwrite list" where
  "lnr_writes p blob R =
     map (\<lambda>i. (0x3cc8 + i * 4, 0xffffffff, ar_isp_lnr_from_blob (\<lambda>i. R (0x3cc8 + i * 4)) blob (gain_q16 (p_lnr_gain p)) i))
       (filter (\<lambda>i. i \<noteq> 18) [0..<86])"

definition de3d_writes :: "isp_params \<Rightarrow> mem \<Rightarrow> mwrite list" where
  "de3d_writes p blob =
     map (\<lambda>i. (0x2e00 + fst (ar_isp_de3d_regs ! i), snd (ar_isp_de3d_regs ! i),
        de3d_user_strength p (ar_isp_de3d_from_blob blob (gain_q16 (p_de3d_gain p))) ! i)) [0..<51]"

definition cfa_writes :: "isp_params \<Rightarrow> mem \<Rightarrow> mwrite list" where
  "cfa_writes p blob =
     map (\<lambda>(off, v). (off, if off = 0x0800 then AR_ISP_CFA_HEAD_MASK else 0xffffffff, v))
       (zip cfa_offsets (ar_isp_cfa_from_blob blob (gain_q16 (p_cfa_gain p))))"

definition cnf_writes :: "isp_params \<Rightarrow> mem \<Rightarrow> mwrite list" where
  "cnf_writes p blob =
     (let strength = ar_isp_cnf_strength_from_blob blob (gain_q16 (p_cnf_gain p))
      in [(0x3c64, AR_ISP_CNF_STRENGTH_MASK, ar_isp_cnf_pack strength),
          (0x3c84, AR_ISP_CNF_NORM_MASK, ar_isp_cnf_norm_pack strength OR AR_ISP_CNF_NORM_A_BIT),
          (0x3c88, AR_ISP_CNF_NORM_B_MASK, ar_isp_cnf_norm_pack 2)] @
         map (\<lambda>i. (0x3c8c + i * 4, snd (ar_isp_cnf_static_pack blob i), fst (ar_isp_cnf_static_pack blob i))) [0..<6])"

definition cm_writes :: "isp_params \<Rightarrow> mem \<Rightarrow> mwrite list" where
  "cm_writes p blob = [(0x483c, AR_ISP_CM_GAIN_MASK, ar_isp_cm_gain_field_from_blob blob (word_of_int (p_cm_trigger p)) 0)]"

definition cm2_writes :: "isp_params \<Rightarrow> mem \<Rightarrow> mwrite list" where
  "cm2_writes p blob =
     (let row = ar_isp_cm2_from_blob blob (word_of_int (p_cm2_trigger p)) 0
      in [(0x4804, AR_ISP_CM_GAIN_MASK, gain_field row), (0x481c, 0xffffffff, lo1 row), (0x4820, 0xffffffff, hi1 row),
          (0x4824, 0xffffffff, lo2 row), (0x4828, 0xffffffff, hi2 row), (0x482c, 0xffffffff, recip1 row),
          (0x4830, 0xffffffff, recip2 row)])"

text \<open>A stage runs when its parameter is not negative and its tuning gate is one.\<close>

definition on_when :: "int \<Rightarrow> bool \<Rightarrow> mwrite list \<Rightarrow> mwrite list" where
  "on_when par gate ws = (if par < 0 \<or> \<not> gate then [] else ws)"

lemmas stage_apply_defs = ar_isp_rnr_apply_def ar_isp_lnr_apply_def ar_isp_de3d_apply_def ar_isp_cfa_apply_def
  ar_isp_cnf_apply_def ar_isp_cm_apply_def ar_isp_cm2_apply_def

lemma rnr_lengths: "length (ar_isp_rnr_from_blob blob g) = 12" "length (ar_isp_rnr_tail_from_blob blob g) = 22"
  by (simp_all add: ar_isp_rnr_from_blob_def ar_isp_rnr_tail_from_blob_def Let_def upt_conv_Cons split: prod.split)

lemma rnr_runs: "ar_isp_rnr_apply p (Some blob) R = mrun (on_when (p_rnr_gain p) (ar_isp_get_le32 blob 0x79d8 = 1) (rnr_writes p blob)) R"
  by (simp add: ar_isp_rnr_apply_def on_when_def rnr_writes_def write_run_mrun rnr_lengths del: upt_rec_numeral)

lemma lnr_runs: "ar_isp_lnr_apply p (Some blob) R = mrun (on_when (p_lnr_gain p) (ar_isp_get_le32 blob 0x89e88 = 1) (lnr_writes p blob R)) R"
proof -
  have f: "fold (\<lambda>i R. if i = 18 then R else R(0x3cc8 + i * 4 := b i)) is R =
      mrun (map (\<lambda>i. (0x3cc8 + i * 4, 0xffffffff, b i)) (filter (\<lambda>i. i \<noteq> 18) is)) R" for b "is" R
    by (induction "is" arbitrary: R) (simp_all add: full_write [symmetric])
  show ?thesis by (simp add: ar_isp_lnr_apply_def on_when_def lnr_writes_def f del: upt_rec_numeral)
qed

lemma de3d_runs: "ar_isp_de3d_apply p (Some blob) R = mrun (on_when (p_de3d_gain p) (ar_isp_get_le32 blob 0x9631c = 1) (de3d_writes p blob)) R"
  by (simp add: ar_isp_de3d_apply_def on_when_def de3d_writes_def mrun_def fold_map mput_step comp_def del: upt_rec_numeral)

lemma cfa_runs: "ar_isp_cfa_apply p (Some blob) R = mrun (on_when (p_cfa_gain p) (ar_isp_get_le32 blob 0x24548 = 1) (cfa_writes p blob)) R"
proof -
  have f: "fold (\<lambda>(off, v) R. if off = 0x0800 then ar_isp_rmw off AR_ISP_CFA_HEAD_MASK v R else R(off := v)) xs R =
      mrun (map (\<lambda>(off, v). (off, if off = 0x0800 then AR_ISP_CFA_HEAD_MASK else 0xffffffff, v)) xs) R" for xs R
    by (induction xs arbitrary: R) (auto simp: full_write mput_step)
  show ?thesis by (simp add: ar_isp_cfa_apply_def on_when_def cfa_writes_def f)
qed

lemma cnf_runs: "ar_isp_cnf_apply p (Some blob) R = mrun (on_when (p_cnf_gain p) True (cnf_writes p blob)) R"
  by (simp add: ar_isp_cnf_apply_def on_when_def cnf_writes_def mrun_def fold_map mput_step comp_def case_prod_beta Let_def
      del: upt_rec_numeral)

lemma cm_runs: "ar_isp_cm_apply p (Some blob) R = mrun (on_when (p_cm_trigger p) (ar_isp_get_le32 blob 0x89cfc = 1) (cm_writes p blob)) R"
  by (simp add: ar_isp_cm_apply_def on_when_def cm_writes_def mput_step)

lemma cm2_runs: "ar_isp_cm2_apply p (Some blob) R = mrun (on_when (p_cm2_trigger p) (ar_isp_get_le32 blob 0xa1304 = 1) (cm2_writes p blob)) R"
  by (simp add: ar_isp_cm2_apply_def on_when_def cm2_writes_def Let_def mput_step full_write)

section \<open>The whole pass\<close>

definition ladder_writes :: "isp_params \<Rightarrow> mem \<Rightarrow> regs \<Rightarrow> mwrite list" where
  "ladder_writes p blob R =
     on_when (p_rnr_gain p) (ar_isp_get_le32 blob 0x79d8 = 1) (rnr_writes p blob) @
     on_when (p_lnr_gain p) (ar_isp_get_le32 blob 0x89e88 = 1) (lnr_writes p blob R) @
     on_when (p_de3d_gain p) (ar_isp_get_le32 blob 0x9631c = 1) (de3d_writes p blob) @
     on_when (p_cfa_gain p) (ar_isp_get_le32 blob 0x24548 = 1) (cfa_writes p blob) @
     on_when (p_cnf_gain p) True (cnf_writes p blob) @
     on_when (p_cm_trigger p) (ar_isp_get_le32 blob 0x89cfc = 1) (cm_writes p blob) @
     on_when (p_cm2_trigger p) (ar_isp_get_le32 blob 0xa1304 = 1) (cm2_writes p blob)"

text \<open>Every stage writes each of its registers once, and the stages' ranges do not meet.\<close>

definition in_range :: "nat \<Rightarrow> nat \<Rightarrow> mwrite list \<Rightarrow> bool" where
  "in_range lo hi ws \<longleftrightarrow> distinct (map fst ws) \<and> (\<forall>off \<in> set (map fst ws). lo \<le> off \<and> off < hi)"

definition avoids :: "nat \<Rightarrow> nat \<Rightarrow> mwrite list \<Rightarrow> bool" where
  "avoids lo hi ws \<longleftrightarrow> (\<forall>off \<in> set (map fst ws). off < lo \<or> hi \<le> off)"

lemma in_range_on: "in_range lo hi ws \<Longrightarrow> in_range lo hi (on_when par gate ws)"
  by (simp add: in_range_def on_when_def)

lemma avoids_append: "avoids lo hi ws \<Longrightarrow> avoids lo hi vs \<Longrightarrow> avoids lo hi (ws @ vs)"
  by (auto simp: avoids_def)

lemma avoids_range: "in_range lo' hi' ws \<Longrightarrow> hi' \<le> lo \<or> hi \<le> lo' \<Longrightarrow> avoids lo hi ws"
  by (fastforce simp: avoids_def in_range_def)

lemma in_range_append:
  "in_range lo hi ws \<Longrightarrow> distinct (map fst vs) \<Longrightarrow> avoids lo hi vs \<Longrightarrow> distinct (map fst (ws @ vs))"
  by (fastforce simp: in_range_def avoids_def)

lemma in_range_distinct: "in_range lo hi ws \<Longrightarrow> distinct (map fst ws)"
  by (simp add: in_range_def)

lemma in_range_map:
  assumes "map fst ws = map (\<lambda>i. base + i * 4) is" "distinct is" "\<And>i. i \<in> set is \<Longrightarrow> lo \<le> base + i * 4 \<and> base + i * 4 < hi"
  shows "in_range lo hi ws"
  unfolding in_range_def assms(1) distinct_map using assms(2,3) by (auto simp: inj_on_def)

lemma rnr_range: "in_range 0x1808 0x1890 (rnr_writes p blob)"
proof (rule in_range_map)
  show "map fst (rnr_writes p blob) = map (\<lambda>i. 0x1808 + i * 4) [0..<34]"
    by (simp add: rnr_writes_def upt_conv_Cons)
qed auto

lemma lnr_range: "in_range 0x3cc8 0x3e20 (lnr_writes p blob R)"
proof (rule in_range_map)
  show "map fst (lnr_writes p blob R) = map (\<lambda>i. 0x3cc8 + i * 4) (filter (\<lambda>i. i \<noteq> 18) [0..<86])"
    by (simp add: lnr_writes_def comp_def del: upt_rec_numeral)
qed (auto simp del: upt_rec_numeral)

lemma de3d_offsets: "map fst (de3d_writes p blob) = map (\<lambda>(off, m). 0x2e00 + off) ar_isp_de3d_regs"
proof -
  have "length ar_isp_de3d_regs = 51" by (simp add: ar_isp_de3d_regs_def)
  then show ?thesis
    by (intro nth_equalityI) (simp_all add: de3d_writes_def case_prod_beta del: upt_rec_numeral)
qed

lemma de3d_range: "in_range 0x2e00 0x2f40 (de3d_writes p blob)"
  unfolding in_range_def de3d_offsets by (simp add: ar_isp_de3d_regs_def)

lemma cfa_length: "length (ar_isp_cfa_from_blob blob g) = 41"
  by (simp add: ar_isp_cfa_from_blob_def ar_isp_cfa_runs_def del: upt_rec_numeral split: prod.split)

lemma cfa_offsets_length: "length cfa_offsets = 41"
  by (simp add: cfa_offsets_def ar_isp_cfa_runs_def del: upt_rec_numeral)

lemma cfa_offsets_range: "distinct cfa_offsets \<and> (\<forall>off \<in> set cfa_offsets. 0x800 \<le> off \<and> off < 0x900)"
  by (simp add: cfa_offsets_def ar_isp_cfa_runs_def upt_conv_Cons)

lemma cfa_fst: "map fst (cfa_writes p blob) = cfa_offsets"
proof -
  have "fst \<circ> (\<lambda>(off, v). (off, f off, v)) = fst" for f :: "nat \<Rightarrow> u32" by (simp add: fun_eq_iff)
  then have "map fst (cfa_writes p blob) = map fst (zip cfa_offsets (ar_isp_cfa_from_blob blob (gain_q16 (p_cfa_gain p))))"
    unfolding cfa_writes_def map_map by metis
  then show ?thesis by (simp add: cfa_length cfa_offsets_length)
qed

lemma cfa_range: "in_range 0x800 0x900 (cfa_writes p blob)"
  unfolding in_range_def cfa_fst by (rule cfa_offsets_range)

lemma cnf_range: "in_range 0x3c64 0x3ca8 (cnf_writes p blob)"
  by (simp add: in_range_def cnf_writes_def Let_def upt_conv_Cons)

lemma cm_range: "in_range 0x483c 0x4840 (cm_writes p blob)"
  by (simp add: in_range_def cm_writes_def)

lemma cm2_range: "in_range 0x4804 0x4834 (cm2_writes p blob)"
  by (simp add: in_range_def cm2_writes_def Let_def)

lemmas stage_ranges = rnr_range [THEN in_range_on] lnr_range [THEN in_range_on] de3d_range [THEN in_range_on]
  cfa_range [THEN in_range_on] cnf_range [THEN in_range_on] cm_range [THEN in_range_on] cm2_range [THEN in_range_on]

lemmas stage_avoids = stage_ranges [THEN avoids_range]

lemma ladder_writes_distinct: "distinct (map fst (ladder_writes p blob R))"
  unfolding ladder_writes_def
  by (intro in_range_append [OF stage_ranges(1)] in_range_append [OF stage_ranges(2)] in_range_append [OF stage_ranges(3)]
      in_range_append [OF stage_ranges(4)] in_range_append [OF stage_ranges(5)] in_range_append [OF stage_ranges(6)]
      in_range_distinct [OF stage_ranges(7)] avoids_append; rule stage_avoids; simp)

lemma lnr_writes_cong:
  assumes "\<And>off. 0x3cc8 \<le> off \<Longrightarrow> off < 0x3e20 \<Longrightarrow> R off = R' off"
  shows "lnr_writes p blob R = lnr_writes p blob R'" "lnr_lines p blob R = lnr_lines p blob R'"
proof -
  have l: "ar_isp_lnr_from_blob (\<lambda>i. R (0x3cc8 + i * 4)) blob g i = ar_isp_lnr_from_blob (\<lambda>i. R' (0x3cc8 + i * 4)) blob g i" if "i < 86" for g i
    unfolding lnr_fold by (rule fold_fields_local) (use that assms in simp)
  have r: "R (0x3cc8 + i * 4) = R' (0x3cc8 + i * 4)" if "i < 86" for i using that assms by simp
  show "lnr_writes p blob R = lnr_writes p blob R'" unfolding lnr_writes_def using l by (auto simp del: upt_rec_numeral)
  show "lnr_lines p blob R = lnr_lines p blob R'" unfolding lnr_lines_def Let_def using l r by (auto simp del: upt_rec_numeral)
qed

lemma ladders_run: "ar_isp_ladders_apply p (Some blob) R = mrun (ladder_writes p blob R) R"
proof -
  let ?R1 = "mrun (on_when (p_rnr_gain p) (ar_isp_get_le32 blob 0x79d8 = 1) (rnr_writes p blob)) R"
  have "?R1 off = R off" if "0x3cc8 \<le> off" for off
    by (rule mrun_other) (use stage_ranges(1) [of "p_rnr_gain p" "ar_isp_get_le32 blob 0x79d8 = 1" p blob] that in \<open>auto simp: in_range_def\<close>)
  then have l: "lnr_writes p blob ?R1 = lnr_writes p blob R" by (intro lnr_writes_cong) simp
  show ?thesis
    unfolding ar_isp_ladders_apply_def Let_def rnr_runs lnr_runs de3d_runs cfa_runs cnf_runs cm_runs cm2_runs l
    by (simp add: ladder_writes_def)
qed

lemma ladders_no_file: "ar_isp_ladders_apply p None R = R"
  by (simp add: ar_isp_ladders_apply_def stage_apply_defs)

text \<open>Packing the lnr bank again changes nothing.\<close>

lemma lnr_again: "ar_isp_lnr_from_blob (ar_isp_lnr_from_blob d blob g) blob g reg = ar_isp_lnr_from_blob d blob g reg"
  unfolding lnr_fold by (rule fold_fields_again [OF lnr_values_apart]) (auto simp: lnr_value_def dest: lnr_table_in)

lemma lnr_after:
  assumes "i < 86" "i \<noteq> 18" "\<And>j. j < 86 \<Longrightarrow> j \<noteq> 18 \<Longrightarrow> R' (0x3cc8 + j * 4) = ar_isp_lnr_from_blob (\<lambda>k. R (0x3cc8 + k * 4)) blob g j"
  shows "ar_isp_lnr_from_blob (\<lambda>k. R' (0x3cc8 + k * 4)) blob g i = R' (0x3cc8 + i * 4)"
proof -
  let ?d = "ar_isp_lnr_from_blob (\<lambda>k. R (0x3cc8 + k * 4)) blob g"
  have "ar_isp_lnr_from_blob (\<lambda>k. R' (0x3cc8 + k * 4)) blob g i = ar_isp_lnr_from_blob ?d blob g i"
    unfolding lnr_fold by (rule fold_fields_local) (use assms in \<open>simp add: lnr_fold\<close>)
  then show ?thesis using lnr_again assms by simp
qed

text \<open>What the registers hold after the pass: every write of it, and nothing else changed.\<close>

lemma ladders_hold:
  assumes "(off, msk, v) \<in> set (ladder_writes p blob R)"
  shows "ar_isp_ladders_apply p (Some blob) R off AND msk = v AND msk"
  unfolding ladders_run by (rule mrun_masked [OF ladder_writes_distinct assms])

lemma full_hold:
  "(off, 0xffffffff, v) \<in> set (ladder_writes p blob R) \<Longrightarrow> ar_isp_ladders_apply p (Some blob) R off = v"
  using ladders_hold unfolding all_ones by fastforce

lemma cmp_ok: "live AND m = v AND m \<Longrightarrow> ar_isp_ladder_cmp (Cmp st off live v m)"
  by (auto simp: ar_isp_ladder_cmp_def bit_eq_iff bit_simps)

lemma cmp_ok_narrow: "live = v \<Longrightarrow> ar_isp_ladder_cmp (Cmp st off live v m)"
  by (rule cmp_ok) simp

lemma line_ok:
  assumes "(off, m0, v) \<in> set (ladder_writes p blob R)" "m0 = m \<or> m0 = 0xffffffff"
  shows "ar_isp_ladder_cmp (Cmp st off (ar_isp_ladders_apply p (Some blob) R off) v m)"
  using assms(2)
proof
  assume "m0 = m"
  then show ?thesis using ladders_hold [OF assms(1)] by (intro cmp_ok) simp
next
  assume "m0 = 0xffffffff"
  then show ?thesis using full_hold assms(1) by (intro cmp_ok_narrow) blast
qed

lemma stage_ok:
  assumes "\<And>l. 0 \<le> par \<Longrightarrow> gate \<Longrightarrow> l \<in> set ls \<Longrightarrow> ar_isp_ladder_cmp l" "l \<in> set (ladder_stage st par gate ls)"
  shows "ar_isp_ladder_cmp l"
  using assms by (auto simp: ladder_stage_def ar_isp_ladder_cmp_def split: if_splits)

lemma on_active: "0 \<le> par \<Longrightarrow> gate \<Longrightarrow> on_when par gate ws = ws"
  by (simp add: on_when_def)

lemma active_writes:
  "0 \<le> p_rnr_gain p \<Longrightarrow> ar_isp_get_le32 blob 0x79d8 = 1 \<Longrightarrow> set (rnr_writes p blob) \<subseteq> set (ladder_writes p blob R)"
  "0 \<le> p_lnr_gain p \<Longrightarrow> ar_isp_get_le32 blob 0x89e88 = 1 \<Longrightarrow> set (lnr_writes p blob R) \<subseteq> set (ladder_writes p blob R)"
  "0 \<le> p_de3d_gain p \<Longrightarrow> ar_isp_get_le32 blob 0x9631c = 1 \<Longrightarrow> set (de3d_writes p blob) \<subseteq> set (ladder_writes p blob R)"
  "0 \<le> p_cfa_gain p \<Longrightarrow> ar_isp_get_le32 blob 0x24548 = 1 \<Longrightarrow> set (cfa_writes p blob) \<subseteq> set (ladder_writes p blob R)"
  "0 \<le> p_cnf_gain p \<Longrightarrow> set (cnf_writes p blob) \<subseteq> set (ladder_writes p blob R)"
  "0 \<le> p_cm_trigger p \<Longrightarrow> ar_isp_get_le32 blob 0x89cfc = 1 \<Longrightarrow> set (cm_writes p blob) \<subseteq> set (ladder_writes p blob R)"
  "0 \<le> p_cm2_trigger p \<Longrightarrow> ar_isp_get_le32 blob 0xa1304 = 1 \<Longrightarrow> set (cm2_writes p blob) \<subseteq> set (ladder_writes p blob R)"
  unfolding ladder_writes_def by (auto simp: on_active)

text \<open>A user strength of 50, or one out of range, leaves the bank alone.\<close>

definition strength_neutral :: "isp_params \<Rightarrow> bool" where
  "strength_neutral p \<longleftrightarrow> (p_de3d_strength p < 0 \<or> 100 < p_de3d_strength p \<or> p_de3d_strength p = 50) \<and>
     (p_de3d_strength9 p < 0 \<or> 100 < p_de3d_strength9 p \<or> p_de3d_strength9 p = 50)"

lemma neutral_bank: "strength_neutral p \<Longrightarrow> de3d_user_strength p b = b"
  by (auto simp: strength_neutral_def de3d_user_strength_def)

lemma rnr_lines_ok:
  assumes R': "R' = ar_isp_ladders_apply p (Some blob) R" and "0 \<le> p_rnr_gain p" "ar_isp_get_le32 blob 0x79d8 = 1" "l \<in> set (rnr_lines p blob R')"
  shows "ar_isp_ladder_cmp l"
proof -
  note w = active_writes(1) [OF assms(2,3), THEN subsetD, THEN line_ok]
  show ?thesis
    using assms(4) unfolding R' rnr_lines_def Let_def
    by (auto simp del: upt_rec_numeral intro!: w simp: rnr_writes_def)
qed

lemma lnr_lines_ok:
  assumes R': "R' = ar_isp_ladders_apply p (Some blob) R" and "0 \<le> p_lnr_gain p" "ar_isp_get_le32 blob 0x89e88 = 1" "l \<in> set (lnr_lines p blob R')"
  shows "ar_isp_ladder_cmp l"
proof -
  note w = active_writes(2) [OF assms(2,3), THEN subsetD, THEN full_hold]
  have h: "R' (0x3cc8 + j * 4) = ar_isp_lnr_from_blob (\<lambda>k. R (0x3cc8 + k * 4)) blob (gain_q16 (p_lnr_gain p)) j"
    if "j < 86" "j \<noteq> 18" for j
    unfolding R' by (rule w) (use that in \<open>auto simp: lnr_writes_def simp del: upt_rec_numeral\<close>)
  show ?thesis
    using assms(4) lnr_after [OF _ _ h] unfolding lnr_lines_def Let_def
    by (auto simp del: upt_rec_numeral intro!: cmp_ok_narrow)
qed

lemma de3d_lines_ok:
  assumes R': "R' = ar_isp_ladders_apply p (Some blob) R" and "0 \<le> p_de3d_gain p" "ar_isp_get_le32 blob 0x9631c = 1" "strength_neutral p" "l \<in> set (de3d_lines p blob R')"
  shows "ar_isp_ladder_cmp l"
proof -
  note w = active_writes(3) [OF assms(2,3), THEN subsetD, THEN line_ok]
  show ?thesis
    using assms(5) unfolding R' de3d_lines_def Let_def
    by (auto simp del: upt_rec_numeral intro!: w simp: de3d_writes_def neutral_bank [OF assms(4)])
qed

lemma cfa_lines_ok:
  assumes R': "R' = ar_isp_ladders_apply p (Some blob) R" and "0 \<le> p_cfa_gain p" "ar_isp_get_le32 blob 0x24548 = 1" "l \<in> set (cfa_lines p blob R')"
  shows "ar_isp_ladder_cmp l"
proof -
  note w = active_writes(4) [OF assms(2,3), THEN subsetD, THEN line_ok]
  obtain off v where l: "l = Cmp ''cfa'' off (R' off) v (if off = 0x0800 then AR_ISP_CFA_HEAD_MASK else 0xffffffff)"
    "(off, v) \<in> set (zip cfa_offsets (ar_isp_cfa_from_blob blob (gain_q16 (p_cfa_gain p))))"
    using assms(4) unfolding cfa_lines_def by auto
  have "(off, if off = 0x0800 then AR_ISP_CFA_HEAD_MASK else 0xffffffff, v) \<in> set (cfa_writes p blob)"
    using l(2) unfolding cfa_writes_def by force
  then show ?thesis unfolding l(1) R' by (rule w) simp
qed

lemma cnf_lines_ok:
  assumes R': "R' = ar_isp_ladders_apply p (Some blob) R" and a: "0 \<le> p_cnf_gain p" and l: "l \<in> set (cnf_lines p blob R')"
  shows "ar_isp_ladder_cmp l"
proof -
  note w = active_writes(5) [OF a, THEN subsetD, THEN line_ok]
  show ?thesis
    using l unfolding R' cnf_lines_def Let_def by (auto intro!: w simp: cnf_writes_def Let_def)
qed

lemma cm_lines_ok:
  assumes R': "R' = ar_isp_ladders_apply p (Some blob) R" and "0 \<le> p_cm_trigger p" "ar_isp_get_le32 blob 0x89cfc = 1" "l \<in> set (cm_lines p blob R')"
  shows "ar_isp_ladder_cmp l"
  using assms(4) active_writes(6) [OF assms(2,3), THEN subsetD, THEN line_ok] unfolding R' cm_lines_def
  by (auto simp: cm_writes_def)

lemma cm2_lines_ok:
  assumes R': "R' = ar_isp_ladders_apply p (Some blob) R" and "0 \<le> p_cm2_trigger p" "ar_isp_get_le32 blob 0xa1304 = 1" "l \<in> set (cm2_lines p blob R')"
  shows "ar_isp_ladder_cmp l"
proof -
  note w = active_writes(7) [OF assms(2,3), THEN subsetD, THEN line_ok]
  show ?thesis
    using assms(4) unfolding R' cm2_lines_def Let_def by (auto intro!: w simp: cm2_writes_def Let_def)
qed


lemma report_ok:
  assumes "strength_neutral p" "l \<in> set (ladder_report p blob (ar_isp_ladders_apply p (Some blob) R))"
  shows "ar_isp_ladder_cmp l"
  using assms(2) unfolding ladder_report_def set_append add_0_right
  by (elim UnE) (erule stage_ok [rotated],
    (erule (2) rnr_lines_ok [OF refl] lnr_lines_ok [OF refl] de3d_lines_ok [OF refl _ _ assms(1)] cfa_lines_ok [OF refl]
      cm_lines_ok [OF refl] cm2_lines_ok [OF refl] | erule (1) cnf_lines_ok [OF refl]))+

section \<open>The pass twice, and what it owns\<close>

lemma ladders_again: "ar_isp_ladders_apply p t (ar_isp_ladders_apply p t R) = ar_isp_ladders_apply p t R"
proof (cases t)
  case None
  then show ?thesis by (simp add: ladders_no_file)
next
  case (Some blob)
  define R' where "R' = ar_isp_ladders_apply p (Some blob) R"
  have "R' off AND msk = v AND msk" if w: "(off, msk, v) \<in> set (ladder_writes p blob R')" for off msk v
  proof (cases "(off, msk, v) \<in> set (ladder_writes p blob R)")
    case True
    then show ?thesis unfolding R'_def by (rule ladders_hold)
  next
    case False
    then have l: "(off, msk, v) \<in> set (on_when (p_lnr_gain p) (ar_isp_get_le32 blob 0x89e88 = 1) (lnr_writes p blob R'))"
      using w unfolding ladder_writes_def by auto
    then have on: "0 \<le> p_lnr_gain p" "ar_isp_get_le32 blob 0x89e88 = 1" by (auto simp: on_when_def split: if_splits)
    obtain i where i: "i < 86" "i \<noteq> 18" "off = 0x3cc8 + i * 4"
      "v = ar_isp_lnr_from_blob (\<lambda>k. R' (0x3cc8 + k * 4)) blob (gain_q16 (p_lnr_gain p)) i"
      using l unfolding on_active [OF on] lnr_writes_def by (auto simp del: upt_rec_numeral)
    have "R' (0x3cc8 + j * 4) = ar_isp_lnr_from_blob (\<lambda>k. R (0x3cc8 + k * 4)) blob (gain_q16 (p_lnr_gain p)) j"
      if "j < 86" "j \<noteq> 18" for j
      unfolding R'_def by (rule full_hold, rule subsetD [OF active_writes(2) [OF on]])
        (use that in \<open>auto simp: lnr_writes_def simp del: upt_rec_numeral\<close>)
    from lnr_after [OF i(1,2) this] show ?thesis unfolding i(3,4) by simp
  qed
  then have "mrun (ladder_writes p blob R') R' = R'" by (rule mrun_twice [OF ladder_writes_distinct])
  then show ?thesis unfolding Some ladders_run [of p blob "ar_isp_ladders_apply p (Some blob) R"] R'_def .
qed

text \<open>The bits of each register the pass owns.\<close>

definition ladder_masks :: "(nat \<times> u32) list" where
  "ladder_masks =
     map (\<lambda>i. (0x1808 + i * 4, 0xffffffff)) [0..<34] @
     map (\<lambda>i. (0x3cc8 + i * 4, 0xffffffff)) (filter (\<lambda>i. i \<noteq> 18) [0..<86]) @
     map (\<lambda>(off, m). (0x2e00 + off, m)) ar_isp_de3d_regs @
     map (\<lambda>off. (off, if off = 0x0800 then AR_ISP_CFA_HEAD_MASK else 0xffffffff)) cfa_offsets @
     [(0x3c64, AR_ISP_CNF_STRENGTH_MASK), (0x3c84, AR_ISP_CNF_NORM_MASK), (0x3c88, AR_ISP_CNF_NORM_B_MASK),
      (0x3c8c, 0x003fffff), (0x3c90, 0x000fffff), (0x3c94, 0x003fffff), (0x3c98, 0x000fffff), (0x3c9c, 0x003fffff),
      (0x3ca0, 0x000fffff), (0x483c, AR_ISP_CM_GAIN_MASK), (0x4804, AR_ISP_CM_GAIN_MASK), (0x481c, 0xffffffff),
      (0x4820, 0xffffffff), (0x4824, 0xffffffff), (0x4828, 0xffffffff), (0x482c, 0xffffffff), (0x4830, 0xffffffff)]"

definition ladder_owned :: "nat \<Rightarrow> u32" where
  "ladder_owned off = foldr (OR) (map snd (filter (\<lambda>(o', m). o' = off) ladder_masks)) 0"

lemma foldr_or_bit: "m \<in> set ms \<Longrightarrow> bit m n \<Longrightarrow> bit (foldr (OR) ms (0 :: u32)) n"
  by (induction ms) (auto simp: bit_simps)

lemma owned_covers: "(off, m) \<in> set ladder_masks \<Longrightarrow> m AND NOT (ladder_owned off) = 0"
proof -
  assume "(off, m) \<in> set ladder_masks"
  then have "m \<in> set (map snd (filter (\<lambda>(o', m). o' = off) ladder_masks))" by force
  then have "bit (ladder_owned off) n" if "bit m n" for n unfolding ladder_owned_def using that by (rule foldr_or_bit)
  then show ?thesis by (intro bit_word_eqI) (auto simp: bit_simps)
qed

definition mw_mask :: "mwrite \<Rightarrow> nat \<times> u32" where
  "mw_mask w = (case w of (off, m, v) \<Rightarrow> (off, m))"

lemma ladder_masks_parts:
  "(\<lambda>i. (0x1808 + i * 4, 0xffffffff)) ` {..<34} \<subseteq> set ladder_masks"
  "(\<lambda>i. (0x3cc8 + i * 4, 0xffffffff)) ` {i. i < 86 \<and> i \<noteq> 18} \<subseteq> set ladder_masks"
  "(\<lambda>(off, m). (0x2e00 + off, m)) ` set ar_isp_de3d_regs \<subseteq> set ladder_masks"
  "(\<lambda>off. (off, if off = 0x0800 then AR_ISP_CFA_HEAD_MASK else 0xffffffff)) ` set cfa_offsets \<subseteq> set ladder_masks"
  unfolding ladder_masks_def set_append set_map set_filter set_upt by (blast | (rule subsetI, elim imageE, simp))+

lemma ladder_masks_tail:
  "{(0x3c64, AR_ISP_CNF_STRENGTH_MASK), (0x3c84, AR_ISP_CNF_NORM_MASK), (0x3c88, AR_ISP_CNF_NORM_B_MASK),
    (0x3c8c, 0x003fffff), (0x3c90, 0x000fffff), (0x3c94, 0x003fffff), (0x3c98, 0x000fffff), (0x3c9c, 0x003fffff),
    (0x3ca0, 0x000fffff), (0x483c, AR_ISP_CM_GAIN_MASK), (0x4804, AR_ISP_CM_GAIN_MASK), (0x481c, 0xffffffff),
    (0x4820, 0xffffffff), (0x4824, 0xffffffff), (0x4828, 0xffffffff), (0x482c, 0xffffffff), (0x4830, 0xffffffff)} \<subseteq> set ladder_masks"
  unfolding ladder_masks_def set_append by (simp only: list.set) blast

lemma rnr_masks: "mw_mask ` set (rnr_writes p blob) \<subseteq> set ladder_masks"
proof -
  have "map mw_mask (rnr_writes p blob) = map (\<lambda>i. (0x1808 + i * 4, 0xffffffff)) [0..<34]"
    by (simp add: rnr_writes_def mw_mask_def upt_conv_Cons)
  then have "mw_mask ` set (rnr_writes p blob) = (\<lambda>i. (0x1808 + i * 4, 0xffffffff)) ` {..<34}"
    unfolding set_map [symmetric] by (simp only: set_map set_upt atLeast0LessThan)
  then show ?thesis using ladder_masks_parts(1) by (simp only:)
qed

lemma lnr_masks: "mw_mask ` set (lnr_writes p blob R) \<subseteq> set ladder_masks"
proof -
  have "mw_mask ` set (lnr_writes p blob R) = (\<lambda>i. (0x3cc8 + i * 4, 0xffffffff)) ` {i. i < 86 \<and> i \<noteq> 18}"
    unfolding lnr_writes_def set_map set_filter set_upt image_image by (auto simp: mw_mask_def)
  then show ?thesis using ladder_masks_parts(2) by (simp only:)
qed

lemma de3d_wmasks: "mw_mask ` set (de3d_writes p blob) \<subseteq> set ladder_masks"
proof -
  have l: "length ar_isp_de3d_regs = 51" by (simp add: ar_isp_de3d_regs_def)
  have "map mw_mask (de3d_writes p blob) = map (\<lambda>(off, m). (0x2e00 + off, m)) ar_isp_de3d_regs"
    by (intro nth_equalityI) (simp_all add: de3d_writes_def mw_mask_def case_prod_beta l del: upt_rec_numeral)
  then have "mw_mask ` set (de3d_writes p blob) = (\<lambda>(off, m). (0x2e00 + off, m)) ` set ar_isp_de3d_regs"
    unfolding set_map [symmetric] by (simp only:)
  then show ?thesis using ladder_masks_parts(3) by (simp only:)
qed

lemma cfa_masks: "mw_mask ` set (cfa_writes p blob) \<subseteq> set ladder_masks"
proof -
  have "mw_mask w \<in> (\<lambda>off. (off, if off = 0x0800 then AR_ISP_CFA_HEAD_MASK else 0xffffffff)) ` set cfa_offsets"
    if w: "w \<in> set (cfa_writes p blob)" for w
  proof -
    have "fst w \<in> set (map fst (cfa_writes p blob))" using w by simp
    then have "fst w \<in> set cfa_offsets" unfolding cfa_fst .
    moreover have "mw_mask w = (fst w, if fst w = 0x0800 then AR_ISP_CFA_HEAD_MASK else 0xffffffff)"
      using w unfolding cfa_writes_def mw_mask_def by (auto split: prod.splits)
    ultimately show ?thesis by (rule image_eqI [rotated])
  qed
  then show ?thesis using ladder_masks_parts(4) by blast
qed

lemma small_masks:
  "mw_mask ` set (cnf_writes p blob) \<subseteq> set ladder_masks" "mw_mask ` set (cm_writes p blob) \<subseteq> set ladder_masks"
  "mw_mask ` set (cm2_writes p blob) \<subseteq> set ladder_masks"
proof -
  have "mw_mask ` set (cnf_writes p blob) \<subseteq> {(0x3c64, AR_ISP_CNF_STRENGTH_MASK), (0x3c84, AR_ISP_CNF_NORM_MASK),
      (0x3c88, AR_ISP_CNF_NORM_B_MASK), (0x3c8c, 0x003fffff), (0x3c90, 0x000fffff), (0x3c94, 0x003fffff), (0x3c98, 0x000fffff),
      (0x3c9c, 0x003fffff), (0x3ca0, 0x000fffff)}"
    by (simp add: cnf_writes_def mw_mask_def Let_def ar_isp_cnf_static_pack_def ar_isp_cnf_statics_def upt_conv_Cons)
  then show "mw_mask ` set (cnf_writes p blob) \<subseteq> set ladder_masks" using ladder_masks_tail by blast
  have "mw_mask ` set (cm_writes p blob) = {(0x483c, AR_ISP_CM_GAIN_MASK)}" by (simp add: cm_writes_def mw_mask_def)
  then show "mw_mask ` set (cm_writes p blob) \<subseteq> set ladder_masks" using ladder_masks_tail by blast
  have "mw_mask ` set (cm2_writes p blob) = {(0x4804, AR_ISP_CM_GAIN_MASK), (0x481c, 0xffffffff), (0x4820, 0xffffffff),
      (0x4824, 0xffffffff), (0x4828, 0xffffffff), (0x482c, 0xffffffff), (0x4830, 0xffffffff)}"
    by (simp add: cm2_writes_def mw_mask_def Let_def)
  then show "mw_mask ` set (cm2_writes p blob) \<subseteq> set ladder_masks" using ladder_masks_tail by blast
qed

lemmas stage_masks = rnr_masks lnr_masks de3d_wmasks cfa_masks small_masks

lemma ladder_masks_cover: "mw_mask ` set (ladder_writes p blob R) \<subseteq> set ladder_masks"
proof -
  have o: "mw_mask ` set ws \<subseteq> M \<Longrightarrow> mw_mask ` set (on_when par gate ws) \<subseteq> M" for M ws par gate by (simp add: on_when_def)
  show ?thesis
    unfolding ladder_writes_def set_append image_Un Un_subset_iff by (intro conjI o stage_masks)
qed

text \<open>The gain-keyed pass owns a fixed set of register bits: whatever the tuning file and the parameters say,
  a bit outside the masks of the seven stages (the skipped lnr register, the foreign halves of shared
  words, every other register of the block) is left as it was.\<close>

theorem ladders_touch_only_their_bits:
  "ar_isp_ladders_apply p t R off AND NOT (ladder_owned off) = R off AND NOT (ladder_owned off)"
proof (cases t)
  case None
  then show ?thesis by (simp add: ladders_no_file)
next
  case (Some blob)
  show ?thesis
    unfolding Some ladders_run
  proof (rule mrun_outside [OF ladder_writes_distinct])
    fix m v assume "(off, m, v) \<in> set (ladder_writes p blob R)"
    then have "mw_mask (off, m, v) \<in> set ladder_masks" using ladder_masks_cover [of p blob R] by blast
    then show "m AND NOT (ladder_owned off) = 0" by (intro owned_covers) (simp add: mw_mask_def)
  qed
qed

text \<open>What the report reads, and the geometry pass, which writes none of it.\<close>

definition ladder_reads :: "nat set" where
  "ladder_reads = {0x1808..<0x1890} \<union> {0x3cc8..<0x3e20} \<union> (\<lambda>(off, m). 0x2e00 + off) ` set ar_isp_de3d_regs \<union> set cfa_offsets \<union>
     {0x3c64, 0x3c84, 0x3c88, 0x483c} \<union> {0x4804..<0x4834}"

lemma report_cong:
  assumes "\<And>off. off \<in> ladder_reads \<Longrightarrow> R off = R' off"
  shows "ladder_report p blob R = ladder_report p blob R'"
proof -
  note a = assms [unfolded ladder_reads_def]
  have l: "length ar_isp_de3d_regs = 51" by (simp add: ar_isp_de3d_regs_def)
  have "rnr_lines p blob R = rnr_lines p blob R'" unfolding rnr_lines_def Let_def using a by (auto simp del: upt_rec_numeral)
  moreover have "lnr_lines p blob R = lnr_lines p blob R'" by (rule lnr_writes_cong) (use a in simp)
  moreover have "de3d_lines p blob R = de3d_lines p blob R'"
  proof -
    have "R (0x2e00 + fst (ar_isp_de3d_regs ! i)) = R' (0x2e00 + fst (ar_isp_de3d_regs ! i))" if "i < 51" for i
    proof (rule a)
      have "ar_isp_de3d_regs ! i \<in> set ar_isp_de3d_regs" using that l by simp
      then show "0x2e00 + fst (ar_isp_de3d_regs ! i) \<in> {0x1808..<0x1890} \<union> {0x3cc8..<0x3e20} \<union> (\<lambda>(off, m). 0x2e00 + off) ` set ar_isp_de3d_regs \<union>
          set cfa_offsets \<union> {0x3c64, 0x3c84, 0x3c88, 0x483c} \<union> {0x4804..<0x4834}"
        by (intro UnI1 [OF UnI1] UnI1 [OF UnI2]) (force simp: case_prod_beta image_iff)
    qed
    then show ?thesis unfolding de3d_lines_def Let_def by (auto simp del: upt_rec_numeral)
  qed
  moreover have "cfa_lines p blob R = cfa_lines p blob R'"
  proof -
    have "R off = R' off" if "(off, v) \<in> set (zip cfa_offsets xs)" for off v xs using a set_zip_leftD [OF that] by blast
    then show ?thesis unfolding cfa_lines_def by (intro map_cong refl) auto
  qed
  moreover have "cnf_lines p blob R = cnf_lines p blob R'" "cm_lines p blob R = cm_lines p blob R'" "cm2_lines p blob R = cm2_lines p blob R'"
    unfolding cnf_lines_def cm_lines_def cm2_lines_def Let_def using a by simp_all
  ultimately show ?thesis unfolding ladder_report_def by simp
qed

lemma show_cong: "(\<And>off. off \<in> ladder_reads \<Longrightarrow> R off = R' off) \<Longrightarrow> ar_isp_ladders_show p t R = ar_isp_ladders_show p t R'"
  unfolding ar_isp_ladders_show_def by (simp add: report_cong [of R R'] split: option.split)

lemma geom_other:
  assumes "off \<notin> (\<lambda>(off, m). 0x2e00 + off) ` set ar_isp_de3d_geom_regs"
  shows "ar_isp_de3d_geom_apply R off = R off"
proof -
  have l: "length ar_isp_de3d_geom_regs = 13" by (simp add: ar_isp_de3d_geom_regs_def)
  have "0x2e00 + fst (ar_isp_de3d_geom_regs ! i) \<noteq> off" if "i < 13" for i
    using assms nth_mem [of i ar_isp_de3d_geom_regs] that l by (force simp: case_prod_beta image_iff)
  then have "fold (\<lambda>i R. ar_isp_rmw (0x2e00 + fst (ar_isp_de3d_geom_regs ! i)) (m i) (v i) R) is R off = R off"
    if "set is \<subseteq> {..<13}" for m v R "is"
    using that by (induction "is" arbitrary: R) (auto simp: ar_isp_rmw_def)
  then show ?thesis unfolding ar_isp_de3d_geom_apply_def Let_def by (simp del: upt_rec_numeral) (simp add: subset_eq)
qed

lemma geom_apart: "off \<in> ladder_reads \<Longrightarrow> off \<notin> (\<lambda>(off, m). 0x2e00 + off) ` set ar_isp_de3d_geom_regs"
proof -
  have g: "(\<lambda>(off, m). 0x2e00 + off) ` set ar_isp_de3d_geom_regs \<subseteq> {0x2e00..<0x2f00}"
    by (simp add: ar_isp_de3d_geom_regs_def)
  have d: "(\<lambda>(off, m). 0x2e00 + off) ` set ar_isp_de3d_geom_regs \<inter> (\<lambda>(off, m). 0x2e00 + off) ` set ar_isp_de3d_regs = {}"
    by (simp add: ar_isp_de3d_geom_regs_def ar_isp_de3d_regs_def)
  show "off \<in> ladder_reads \<Longrightarrow> off \<notin> (\<lambda>(off, m). 0x2e00 + off) ` set ar_isp_de3d_geom_regs"
    unfolding ladder_reads_def using g d cfa_offsets_range by fastforce
qed

text \<open>C40: The parity oracle agrees with the appliers: after the gain-keyed pass, and after the geometry pass that follows
  it, the report finds no mismatch, for every tuning file, every parameter and whatever the
  registers held, as long as the two user strengths are neutral; and the pass run again changes
  no register.\<close>

theorem ladders_oracle_agrees:
  assumes "strength_neutral p"
  shows "snd (ar_isp_ladders_show p t (ar_isp_ladders_apply p t R)) = 0 \<and>
    snd (ar_isp_ladders_show p t (ar_isp_de3d_geom_apply (ar_isp_ladders_apply p t R))) = 0 \<and>
    ar_isp_ladders_apply p t (ar_isp_ladders_apply p t R) = ar_isp_ladders_apply p t R"
proof -
  have "snd (ar_isp_ladders_show p t (ar_isp_ladders_apply p t R)) = 0"
    using report_ok [OF assms] by (auto simp: ar_isp_ladders_show_def Let_def filter_empty_conv split: option.split)
  moreover have "ar_isp_ladders_show p t (ar_isp_de3d_geom_apply (ar_isp_ladders_apply p t R)) =
      ar_isp_ladders_show p t (ar_isp_ladders_apply p t R)"
    by (rule show_cong) (simp add: geom_other geom_apart)
  ultimately show ?thesis using ladders_again by simp
qed

text \<open>The defaults of the driver.\<close>

lemma ladders_oracle_agrees_witness:
  "snd (ar_isp_ladders_show isp_defaults (Some (\<lambda>_. 1)) (ar_isp_ladders_apply isp_defaults (Some (\<lambda>_. 1)) (\<lambda>_. 0xdeadbeef))) = 0"
proof -
  have "strength_neutral isp_defaults" by (simp add: strength_neutral_def isp_defaults_def)
  from ladders_oracle_agrees [OF this] show ?thesis by simp
qed

end
