(* ===== verification/Isp_Carried.thy ===== *)
theory Isp_Carried
  imports Isp_Codec
begin

text \<open>
  The coefficient data the driver carries because no tuning file holds it: the second gamma page
  (\<open>ar-isp-gamma-page1.h\<close>), the constant half of the DRC page (\<open>ar-isp-drc-tail.h\<close>) and the two
  regions of the compander page with content (\<open>ar-isp-compander.h\<close>), each as the list of its words.
\<close>

abbreviation AR_ISP_GAMMA_PAGE1_TAIL :: u16 where "AR_ISP_GAMMA_PAGE1_TAIL \<equiv> 4095"

definition ar_isp_gamma_page1 :: "u16 list" where
  "ar_isp_gamma_page1 =
     [0, 35, 71, 107, 143, 179, 215, 251, 287, 323, 346, 380, 411, 442, 471, 498,
      525, 551, 577, 601, 625, 648, 670, 692, 714, 735, 755, 775, 795, 814, 833, 852,
      870, 888, 906, 923, 940, 957, 974, 990, 1007, 1022, 1038, 1054, 1069, 1084, 1099, 1114,
      1129, 1143, 1157, 1171, 1185, 1199, 1213, 1227, 1240, 1253, 1266, 1279, 1292, 1305, 1318, 1330,
      1343, 1355, 1368, 1380, 1392, 1404, 1416, 1427, 1439, 1451, 1462, 1474, 1485, 1496, 1508, 1519,
      1530, 1541, 1551, 1562, 1573, 1584, 1594, 1605, 1615, 1626, 1636, 1646, 1657, 1667, 1677, 1687,
      1697, 1707, 1717, 1727, 1736, 1746, 1756, 1765, 1775, 1784, 1794, 1803, 1813, 1822, 1831, 1840,
      1850, 1859, 1868, 1877, 1886, 1895, 1904, 1913, 1921, 1930, 1939, 1948, 1956, 1965, 1974, 1982,
      1991, 1999, 2008, 2016, 2024, 2033, 2041, 2049, 2058, 2066, 2074, 2082, 2090, 2098, 2106, 2114,
      2122, 2130, 2138, 2146, 2154, 2162, 2170, 2178, 2185, 2193, 2201, 2208, 2216, 2224, 2231, 2239,
      2246, 2254, 2262, 2269, 2276, 2284, 2291, 2299, 2306, 2313, 2321, 2328, 2335, 2342, 2350, 2357,
      2364, 2371, 2378, 2385, 2392, 2399, 2406, 2413, 2420, 2427, 2434, 2441, 2448, 2455, 2462, 2469,
      2476, 2482, 2489, 2496, 2503, 2510, 2516, 2523, 2530, 2536, 2543, 2550, 2556, 2563, 2569, 2576,
      2582, 2589, 2595, 2602, 2608, 2615, 2621, 2628, 2634, 2641, 2647, 2653, 2660, 2666, 2672, 2679,
      2685, 2691, 2697, 2704, 2710, 2716, 2722, 2728, 2735, 2741, 2747, 2753, 2759, 2765, 2771, 2777,
      2783, 2789, 2795, 2801, 2807, 2813, 2819, 2825, 2831, 2837, 2843, 2849, 2855, 2861, 2867, 2872,
      2878, 2884, 2890, 2896, 2901, 2907, 2913, 2919, 2924, 2930, 2936, 2942, 2947, 2953, 2959, 2964,
      2970, 2976, 2981, 2987, 2992, 2998, 3004, 3009, 3015, 3020, 3026, 3031, 3037, 3042, 3048, 3053,
      3059, 3064, 3070, 3075, 3081, 3086, 3091, 3097, 3102, 3108, 3113, 3118, 3124, 3129, 3134, 3140,
      3145, 3150, 3156, 3161, 3166, 3171, 3177, 3182, 3187, 3192, 3198, 3203, 3208, 3213, 3218, 3224,
      3229, 3234, 3239, 3244, 3249, 3255, 3260, 3265, 3270, 3275, 3280, 3285, 3290, 3295, 3300, 3305,
      3310, 3315, 3320, 3325, 3330, 3335, 3340, 3345, 3350, 3355, 3360, 3365, 3370, 3375, 3380, 3385,
      3390, 3395, 3400, 3404, 3409, 3414, 3419, 3424, 3429, 3434, 3438, 3443, 3448, 3453, 3458, 3462,
      3467, 3472, 3477, 3482, 3486, 3491, 3496, 3501, 3505, 3510, 3515, 3519, 3524, 3529, 3533, 3538,
      3543, 3548, 3552, 3557, 3562, 3566, 3571, 3575, 3580, 3585, 3589, 3594, 3598, 3603, 3608, 3612,
      3617, 3621, 3626, 3631, 3635, 3640, 3644, 3649, 3653, 3658, 3662, 3667, 3671, 3676, 3680, 3685,
      3689, 3694, 3698, 3703, 3707, 3711, 3716, 3720, 3725, 3729, 3734, 3738, 3742, 3747, 3751, 3756,
      3760, 3764, 3769, 3773, 3778, 3782, 3786, 3791, 3795, 3799, 3804, 3808, 3812, 3817, 3821, 3825,
      3829, 3834, 3838, 3842, 3847, 3851, 3855, 3859, 3864, 3868, 3872, 3876, 3881, 3885, 3889, 3893,
      3898, 3902, 3906, 3910, 3914, 3919, 3923, 3927, 3931, 3935, 3939, 3944, 3948, 3952, 3956, 3960,
      3964, 3969, 3973, 3977, 3981, 3985, 3989, 3993, 3997, 4001, 4006, 4010, 4014, 4018, 4022, 4026,
      4030, 4034, 4038, 4042, 4046, 4050, 4054, 4058, 4062, 4066, 4070, 4074, 4078, 4082, 4087, 4091]"

definition ar_isp_drc_tail_bank0 :: "u32 list" where
  "ar_isp_drc_tail_bank0 =
     [0xff000, 0x17766, 0x173e4, 0x17139, 0x16efd, 0x16d08, 0x16b45, 0x169a9, 0x1682a, 0x166c5, 0x16574, 0x16434,
      0x16304, 0x161e1, 0x160ca, 0x15fbe, 0x15ebb, 0x15dc1, 0x15ccf, 0x15be4, 0x15b00, 0x15a22, 0x1594a, 0x15877,
      0x157a9, 0x156e0, 0x1561c, 0x1555b, 0x1549f, 0x153e6, 0x15330, 0x1527f, 0x151d0, 0x15124, 0x1507b, 0x14fd5,
      0x14f32, 0x14e91, 0x14df3, 0x14d57, 0x14cbe, 0x14c26, 0x14b91, 0x14afd, 0x14a6c, 0x149dd, 0x1494f, 0x148c3,
      0x14839, 0x147b0, 0x14729, 0x146a4, 0x14620, 0x1459e, 0x1451d, 0x1449d, 0x1441f, 0x143a2, 0x14326, 0x142ac,
      0x14232, 0x141ba, 0x14144, 0x140ce, 0x14059, 0x13fe6, 0x13f73, 0x13f02, 0x13e91, 0x13e21, 0x13db3, 0x13d45,
      0x13cd9, 0x13c6d, 0x13c02, 0x13b98, 0x13b2e, 0x13ac6, 0x13a5e, 0x139f8, 0x13991, 0x1392c, 0x138c8, 0x13864,
      0x13801, 0x1379e, 0x1373d, 0x136dc, 0x1367c, 0x1361c, 0x135bd, 0x1355f, 0x13501, 0x134a4, 0x13447, 0x133eb,
      0x13390, 0x13335, 0x132db, 0x13281, 0x13228, 0x131d0, 0x13178, 0x13121, 0x130ca, 0x13073, 0x1301d, 0x12fc8,
      0x12f73, 0x12f1f, 0x12ecb, 0x12e77, 0x12e24, 0x12dd2, 0x12d7f, 0x12d2e, 0x12cdd, 0x12c8c, 0x12c3b, 0x12bec,
      0x12b9c, 0x12b4d, 0x12afe, 0x12ab0, 0x12a62, 0x12a15, 0x129c7, 0x1297b, 0x1292e, 0x128e2, 0x12897, 0x1284b,
      0x12801, 0x127b6, 0x1276c, 0x12722, 0x126d9, 0x1268f, 0x12647, 0x125fe, 0x125b6, 0x1256e, 0x12527, 0x124e0,
      0x12499, 0x12452, 0x1240c, 0x123c6, 0x12380, 0x1233b, 0x122f6, 0x122b1, 0x1226d, 0x12229, 0x121e5, 0x121a1,
      0x1215e, 0x1211b, 0x120d8, 0x12095, 0x12053, 0x12011, 0x11fd0, 0x11f8e, 0x11f4d, 0x11f0c, 0x11ecb, 0x11e8b,
      0x11e4b, 0x11e0b, 0x11dcb, 0x11d8c, 0x11d4d, 0x11d0e, 0x11ccf, 0x11c90, 0x11c52, 0x11c14, 0x11bd6, 0x11b99,
      0x11b5b, 0x11b1e, 0x11ae1, 0x11aa5, 0x11a68, 0x11a2c, 0x119f0, 0x119b4, 0x11978, 0x1193d, 0x11902, 0x118c7,
      0x1188c, 0x11851, 0x11817, 0x117dd, 0x117a3, 0x11769, 0x1172f, 0x116f6, 0x116bd, 0x11683, 0x1164b, 0x11612,
      0x115d9, 0x115a1, 0x11569, 0x11531, 0x114f9, 0x114c2, 0x1148a, 0x11453, 0x1141c, 0x113e5, 0x113ae, 0x11378,
      0x11341, 0x1130b, 0x112d5, 0x1129f, 0x11269, 0x11234, 0x111fe, 0x111c9, 0x11194, 0x1115f, 0x1112a, 0x110f6,
      0x110c1, 0x1108d, 0x11059, 0x11025, 0x10ff1, 0x10fbd, 0x10f8a, 0x10f56, 0x10f23, 0x10ef0, 0x10ebd, 0x10e8a,
      0x10e58, 0x10e25, 0x10df3, 0x10dc0, 0x10d8e, 0x10d5c, 0x10d2b, 0x10cf9, 0x10cc7, 0x10c96, 0x10c65, 0x10c33,
      0x10c02, 0x10bd2, 0x10ba1, 0x10b70, 0x10b40]"

definition ar_isp_drc_tail_bank1 :: "u32 list" where
  "ar_isp_drc_tail_bank1 =
     [0xff000, 0x10b2e, 0xe4d1, 0xcbca, 0xb8d1, 0xa990, 0x9cda, 0x9200, 0x8892, 0x8044, 0x78df, 0x723b,
      0x6c39, 0x66c2, 0x61c1, 0x5d28, 0x58e9, 0x54fb, 0x5153, 0x4dec, 0x4abe, 0x47c3, 0x44f7, 0x4256,
      0x3fdc, 0x3d86, 0x3b50, 0x3938, 0x373c, 0x355a, 0x3390, 0x31dc, 0x303d, 0x2eb2, 0x2d38, 0x2bcf,
      0x2a76, 0x292c, 0x27f0, 0x26c1, 0x259e, 0x2488, 0x237c, 0x227b, 0x2183, 0x2095, 0x1fb0, 0x1ed4,
      0x1dff, 0x1d32, 0x1c6c, 0x1bae, 0x1af6, 0x1a44, 0x1998, 0x18f2, 0x1851, 0x17b6, 0x171f, 0x168e,
      0x1601, 0x1578, 0x14f4, 0x1473, 0x13f7, 0x137e, 0x1309, 0x1297, 0x1229, 0x11be, 0x1156, 0x10f1,
      0x108e, 0x102f, 0xfd2, 0xf78, 0xf20, 0xeca, 0xe77, 0xe26, 0xdd7, 0xd8a, 0xd3f, 0xcf6,
      0xcaf, 0xc6a, 0xc27, 0xbe5, 0xba5, 0xb66, 0xb29, 0xaee, 0xab4, 0xa7b, 0xa43, 0xa0d,
      0x9d9, 0x9a5, 0x973, 0x942, 0x912, 0x8e3, 0x8b5, 0x888, 0x85c, 0x831, 0x807, 0x7de,
      0x7b6, 0x78f, 0x769, 0x743, 0x71f, 0x6fb, 0x6d7, 0x6b5, 0x693, 0x672, 0x652, 0x632,
      0x613, 0x5f5, 0x5d7, 0x5ba, 0x59e, 0x582, 0x566, 0x54b, 0x531, 0x517, 0x4fe, 0x4e5,
      0x4cd, 0x4b5, 0x49e, 0x487, 0x470, 0x45a, 0x444, 0x42f, 0x41a, 0x406, 0x3f2, 0x3de,
      0x3cb, 0x3b8, 0x3a5, 0x393, 0x381, 0x36f, 0x35e, 0x34d, 0x33c, 0x32c, 0x31c, 0x30c,
      0x2fc, 0x2ed, 0x2de, 0x2cf, 0x2c1, 0x2b2, 0x2a4, 0x297, 0x289, 0x27c, 0x26f, 0x262,
      0x255, 0x249, 0x23d, 0x231, 0x225, 0x219, 0x20e, 0x203, 0x1f8, 0x1ed, 0x1e2, 0x1d8,
      0x1cd, 0x1c3, 0x1b9, 0x1af, 0x1a5, 0x19c, 0x193, 0x189, 0x180, 0x177, 0x16e, 0x166,
      0x15d, 0x155, 0x14d, 0x144, 0x13c, 0x134, 0x12d, 0x125, 0x11e, 0x116, 0x10f, 0x108,
      0x100, 0xfa, 0xf3, 0xec, 0xe5, 0xdf, 0xd8, 0xd2, 0xcb, 0xc5, 0xbf, 0xb9,
      0xb3, 0xad, 0xa8, 0xa2, 0x9c, 0x97, 0x91, 0x8c, 0x87, 0x82, 0x7c, 0x77,
      0x72, 0x6d, 0x69, 0x64, 0x5f, 0x5a, 0x56, 0x51, 0x4d, 0x49, 0x44, 0x40,
      0x3c, 0x38, 0x33, 0x2f, 0x2b, 0x27, 0x24, 0x20, 0x1c, 0x18, 0x15, 0x11,
      0xd, 0xa, 0x6, 0x3, 0x0]"

definition ar_isp_compander_head :: "u32 list" where
  "ar_isp_compander_head =
     [0x73200000, 0x42073220, 0x40e6, 0x0, 0x45040e64, 0xb4745047, 0x4da3, 0x0, 0x274da3b, 0x25402754,
      0x5a61, 0x0, 0xbfe5a612, 0xa60bfe60, 0x671e, 0x0, 0x7d5671ea, 0x16d7d56d, 0x73dc, 0x0,
      0x3ac73dc1, 0x87a3ac7a, 0x8099, 0x0, 0xf8480998, 0xf86f8486, 0x8d56, 0x0, 0xb5b8d56f, 0x693b5b93,
      0x9a14, 0x0, 0x7329a146, 0xea0732a0, 0xa6d1, 0x0, 0x309a6d1e, 0x5ad309ad, 0xb38f, 0x0,
      0xee0b38f5, 0xcb9ee0b9, 0xc04c, 0x0, 0xab8c04cc, 0x3c6ab8c6, 0xcd0a, 0x0, 0x68fcd0a3, 0xad368fd3,
      0xd9c7, 0x0, 0x266d9c7a, 0x2e0266e0, 0xe685, 0x0, 0xe3de6852, 0x9ece3dec, 0xf342, 0x0,
      0xa14f3429, 0xff9a14f9, 0xffff, 0x0, 0x0, 0x0, 0x0, 0x0, 0x0, 0x0,
      0x0, 0x0, 0x0, 0x0, 0x0, 0x0, 0x0, 0x0, 0x0, 0x0,
      0x0, 0x0, 0x0, 0x0, 0x0, 0x0, 0x0, 0x0, 0x0, 0x0,
      0x0, 0x0, 0x0, 0x0, 0x0, 0x0, 0x0, 0x0, 0x0, 0x0,
      0x0, 0x0, 0x0, 0x0, 0x0, 0x0, 0x0, 0x0, 0x0, 0x0,
      0x0, 0x0, 0x0, 0x0, 0x0, 0x0, 0x0, 0x0, 0x0, 0x0,
      0x0, 0x0, 0x0, 0x0, 0x0, 0x0, 0x0, 0x0, 0x0, 0x0,
      0x0, 0x0, 0x0, 0x0, 0x0, 0x0, 0x0, 0x0, 0x0, 0x0,
      0x0, 0x0, 0x0, 0x0, 0x0, 0x0, 0x0, 0x0, 0x0, 0x0,
      0x0, 0x0, 0x0, 0x0, 0x0, 0x0, 0x0, 0x0, 0x0, 0x0,
      0x0, 0x0, 0x0, 0x0, 0x0, 0x0, 0x0, 0x0, 0x0, 0x0,
      0x0, 0x0, 0x0, 0x0, 0x0, 0x0, 0x0, 0x0, 0x0, 0x0,
      0x0, 0x0, 0x0, 0x0, 0x0, 0x0, 0x0, 0x0, 0x0, 0x0,
      0x0, 0x0, 0x0, 0x0, 0x0, 0x0, 0x0, 0x0, 0x0, 0x0,
      0x0, 0x0, 0x0, 0x0, 0x0, 0x0, 0x0, 0x0, 0x0, 0x0,
      0x0, 0x0, 0x0, 0x0, 0x0, 0x0, 0x0, 0x0, 0x0, 0x0,
      0x0, 0x0, 0x0, 0x0, 0x0, 0x0, 0x0, 0x0, 0x0, 0x0,
      0x0, 0x0, 0x0, 0x0, 0x0, 0x0, 0x0, 0x0, 0x0, 0x0,
      0x0, 0x0, 0x0, 0x0, 0x0, 0x0, 0x0, 0x0, 0x0, 0x0,
      0x0, 0x0, 0x0, 0x0, 0x0, 0x0, 0x7f20000, 0xb3c07f2, 0xdc20b3c, 0xfe30dc2,
      0x11c40fe3, 0x137611c4, 0x15051376, 0x16781505, 0x17d51678, 0x191f17d5, 0x1a59191f, 0x1b851a59, 0x1ca51b85, 0x1db91ca5,
      0x1ec51db9, 0x1fc71ec5, 0x20c11fc7, 0x21b420c1, 0x22a121b4, 0x238722a1, 0x24682387, 0x25432468, 0x261a2543, 0x26eb261a,
      0x27b926eb, 0x288227b9, 0x29482882, 0x2a0a2948, 0x2ac82a0a, 0x2b832ac8, 0x2c3b2b83, 0x2cf12c3b, 0x2da32cf1, 0x2e522da3,
      0x2f002e52, 0x2faa2f00, 0x30532faa, 0x30f93053, 0x319d30f9, 0x323e319d, 0x32de323e, 0x337c32de, 0x3418337c, 0x34b23418,
      0x354b34b2, 0x35e1354b, 0x367735e1, 0x370a3677, 0x379c370a, 0x382d379c, 0x38bc382d, 0x394938bc, 0x39d63949, 0x3a6139d6,
      0x3aea3a61, 0x3b733aea, 0x3bfa3b73, 0x3c803bfa, 0x3d053c80, 0x3d893d05, 0x3e0c3d89, 0x3e8e3e0c, 0x3f0e3e8e, 0x3f8e3f0e,
      0x40403f8e, 0x42b54040, 0x451342b5, 0x475d4513, 0x4995475d, 0x4bbc4995, 0x4dd44bbc, 0x4fde4dd4, 0x51db4fde, 0x53cc51db,
      0x55b153cc, 0x578c55b1, 0x595e578c, 0x5b26595e, 0x5ce55b26, 0x5e9c5ce5, 0x604b5e9c, 0x61f2604b, 0x639361f2, 0x652d6393,
      0x66c1652d, 0x684e66c1, 0x69d6684e, 0x6b5869d6, 0x6cd56b58, 0x6e4c6cd5, 0x6fbf6e4c, 0x712d6fbf, 0x7296712d, 0x73fb7296,
      0x755c73fb, 0x76b8755c, 0x781176b8, 0x79667811, 0x7ab77966, 0x7c057ab7, 0x7d4f7c05, 0x7e967d4f, 0x7fd97e96, 0x81197fd9,
      0x82578119, 0x83918257, 0x84c88391, 0x85fd84c8, 0x872f85fd, 0x885e872f, 0x898a885e, 0x8ab4898a, 0x8bdb8ab4, 0x8d008bdb,
      0x8e238d00, 0x8f448e23, 0x90628f44, 0x917e9062, 0x9297917e, 0x93af9297, 0x94c593af, 0x95d894c5, 0x96ea95d8, 0x97fa96ea,
      0x990897fa, 0x9a149908, 0x9b1e9a14, 0x9c269b1e, 0x9d2d9c26, 0x9e329d2d, 0x9f359e32, 0xa0379f35, 0xa137a037, 0xa235a137,
      0xa332a235, 0xa42ea332, 0xa528a42e, 0xa620a528, 0xa717a620, 0xa80da717, 0xa901a80d, 0xa9f4a901, 0xaae5a9f4, 0xabd5aae5,
      0xacc4abd5, 0xadb2acc4, 0xae9eadb2, 0xaf89ae9e, 0xb073af89, 0xb15bb073, 0xb243b15b, 0xb329b243, 0xb40eb329, 0xb4f2b40e,
      0xb5d5b4f2, 0xb6b7b5d5, 0xb797b6b7, 0xb877b797, 0xb956b877, 0xba33b956, 0xbb10ba33, 0xbbebbb10, 0xbcc6bbeb, 0xbd9fbcc6,
      0xbe78bd9f, 0xbf4fbe78, 0xc026bf4f, 0xc0fcc026, 0xc1d0c0fc, 0xc2a4c1d0, 0xc377c2a4, 0xc449c377, 0xc51bc449, 0xc5ebc51b,
      0xc6bac5eb, 0xc789c6ba, 0xc857c789, 0xc924c857, 0xc9f0c924, 0xcabbc9f0, 0xcb86cabb, 0xcc50cb86, 0xcd19cc50, 0xcde1cd19,
      0xcea9cde1, 0xcf6fcea9, 0xd035cf6f, 0xd0fbd035, 0xd1bfd0fb, 0xd283d1bf, 0xd346d283, 0xd409d346, 0xd4cad409, 0xd58bd4ca,
      0xd64cd58b, 0xd70bd64c, 0xd7cad70b, 0xd889d7ca, 0xd947d889, 0xda04d947, 0xdac0da04, 0xdb7cdac0, 0xdc37db7c, 0xdcf2dc37,
      0xddacdcf2, 0xde65ddac, 0xdf1ede65, 0xdfd6df1e, 0xe08ddfd6, 0xe144e08d, 0xe1fbe144, 0xe2b1e1fb, 0xe366e2b1, 0xe41ae366,
      0xe4cfe41a, 0xe582e4cf, 0xe635e582, 0xe6e8e635, 0xe79ae6e8, 0xe84be79a, 0xe8fce84b, 0xe9ace8fc, 0xea5ce9ac, 0xeb0cea5c,
      0xebbaeb0c, 0xec69ebba, 0xed16ec69, 0xedc4ed16, 0xee71edc4, 0xef1dee71, 0xefc9ef1d, 0xf074efc9, 0xf11ff074, 0xf1caf11f,
      0xf274f1ca, 0xf31df274, 0xf3c6f31d, 0xf46ff3c6, 0xf517f46f, 0xf5bef517, 0xf666f5be, 0xf70cf666, 0xf7b3f70c, 0xf859f7b3,
      0xf8fef859, 0xf9a3f8fe, 0xfa48f9a3, 0xfaecfa48, 0xfb90faec, 0xfc33fb90, 0xfcd6fc33, 0xfd79fcd6, 0xfe1bfd79, 0xfebdfe1b,
      0xff5efebd, 0xffffff5e, 0x8000000, 0x10000800, 0x18001000, 0x20001800, 0x28002000, 0x30002800, 0x38003000, 0x40003800,
      0x48004000, 0x50004800, 0x58005000, 0x60005800, 0x68006000, 0x70006800, 0x78007000, 0x80007800, 0x88008000, 0x90008800,
      0x98009000, 0xa0009800, 0xa800a000, 0xb000a800, 0xb800b000, 0xc000b800, 0xc800c000, 0xd000c800, 0xd800d000, 0xe000d800,
      0xe800e000, 0xf000e800, 0xf800f000, 0xfb00f800, 0x0, 0x0, 0x0, 0x0, 0x0, 0x0,
      0x0, 0x0, 0x0, 0x0, 0x0, 0x0, 0x0, 0x0, 0x0, 0x0,
      0x0, 0x0, 0x0, 0x0, 0x0, 0x0, 0x0, 0x0, 0x0, 0x0,
      0x0, 0x0, 0x0, 0x0, 0x0, 0x0]"

definition ar_isp_compander_mid :: "u32 list" where
  "ar_isp_compander_mid =
     [0x8000001, 0xf0008000, 0xf, 0x0, 0x17e000ff, 0xe0017e00, 0x1f, 0x0, 0x27d001fe, 0xc0027d00,
      0x2f, 0x0, 0x37b002fc, 0x37b00, 0x40, 0x0, 0x51000400, 0x51000, 0x64, 0x0,
      0x79000640, 0x79000, 0x90, 0x0, 0xa9000900, 0xa9000, 0xc4, 0x0, 0xe1000c40, 0xe1000,
      0x100, 0x0, 0x21001000, 0x121001, 0x144, 0x0, 0x69001440, 0x169001, 0x190, 0x0,
      0xb9001900, 0x1b9001, 0x1e4, 0x0, 0x11001e40, 0x211002, 0x240, 0x0, 0x71002400, 0x271002,
      0x2a4, 0x0, 0xd9002a40, 0x2d9002, 0x310, 0x0, 0x49003100, 0x349003, 0x384, 0x0,
      0xc1003840, 0x3c1003, 0x400, 0x0, 0x41104000, 0x10441104, 0x484, 0x0, 0xc9104841, 0x104c9104,
      0x510, 0x0, 0x59105101, 0x10559105, 0x5a4, 0x0, 0xf1105a41, 0x105f1105, 0x640, 0x0,
      0x91106401, 0x10691106, 0x6e4, 0x0, 0x39106e41, 0x10739107, 0x790, 0x0, 0xe9107901, 0x107e9107,
      0x844, 0x0, 0xa1108441, 0x108a1108, 0x900, 0x0, 0x61109001, 0x10961109, 0x9c4, 0x0,
      0x29109c41, 0x10a2910a, 0xa90, 0x0, 0xf910a901, 0x10af910a, 0xb64, 0x0, 0xd110b641, 0x10bd110b,
      0xc40, 0x0, 0xb120c401, 0x20cb120c, 0xd24, 0x0, 0x9920d242, 0x20d9920d, 0xe10, 0x0,
      0x8920e102, 0x20e8920e, 0xf04, 0x0, 0x8120f042, 0x20f8120f, 0x1000, 0x0, 0x81210002, 0x21081210,
      0x1104, 0x0, 0x89211042, 0x21189211, 0x1210, 0x0, 0x99212102, 0x21299212, 0x1324, 0x0,
      0xb1213242, 0x213b1213, 0x1440, 0x0, 0xd1314402, 0x314d1314, 0x1564, 0x0, 0xf9315643, 0x315f9315,
      0x1690, 0x0, 0x29316903, 0x31729317, 0x17c4, 0x0, 0x61317c43, 0x31861318, 0x1900, 0x0,
      0xa1319003, 0x319a1319, 0x1a44, 0x0, 0xe931a443, 0x31ae931a, 0x1b90, 0x0, 0x3931b903, 0x31c3931c,
      0x1ce4, 0x0, 0x9141ce43, 0x41d9141d, 0x1e40, 0x0, 0xf141e404, 0x41ef141e, 0x1fa4, 0x0,
      0x5941fa44, 0x42059420, 0x2110, 0x0, 0xc9421104, 0x421c9421, 0x2284, 0x0, 0x41422844, 0x42341423,
      0x2400, 0x0, 0xc1424004, 0x524c1424, 0x2584, 0x0, 0x49525845, 0x52649526, 0x2710, 0x0,
      0xd9527105, 0x527d9527, 0x28a4, 0x0, 0x71528a45, 0x52971529, 0x2a40, 0x0, 0x1152a405, 0x52b1152b,
      0x2be4, 0x0, 0xb952be45, 0x62cb952c, 0x2d90, 0x0, 0x6962d906, 0x62e6962e, 0x2f44, 0x0,
      0x2162f446, 0x63021630, 0x3100, 0x0, 0xe1631006, 0x631e1631, 0x32c4, 0x0, 0xa9632c46, 0x633a9633,
      0x3490, 0x0, 0x79634906, 0x73579635, 0x3664, 0x0, 0x51736647, 0x73751737, 0x3840, 0x0,
      0x31738407, 0x73931739, 0x3a24, 0x0, 0x1973a247, 0x73b1973b, 0x3c10, 0x0, 0x973c107, 0x83d0973d,
      0x3e04, 0x0, 0x183e048, 0x83f0183f, 0x4000, 0x0, 0x1840008, 0x84101841, 0x4204, 0x0,
      0x9842048, 0x84309843, 0x4410, 0x0, 0x19844108, 0x84519845, 0x4624, 0x0, 0x31946248, 0x94731947,
      0x4840, 0x0, 0x51948409, 0x94951949, 0x4a64, 0x0, 0x7994a649, 0x94b7994b, 0x4c90, 0x0,
      0xa994c909, 0xa4da994d, 0x4ec4, 0x0, 0xe1a4ec4a, 0xa4fe1a4f, 0x5100, 0x0, 0x21a5100a, 0xa5221a52,
      0x5344, 0x0, 0x69a5344a, 0xa5469a54, 0x5590, 0x0, 0xb9b5590a, 0xb56b9b56, 0x57e4, 0x0,
      0x11b57e4b, 0xb5911b59, 0x5a40, 0x0, 0x71b5a40b, 0xb5b71b5b, 0x5ca4, 0x0, 0xd9b5ca4b, 0xc5dd9b5d,
      0x5f10, 0x0, 0x49c5f10c, 0xc6049c60, 0x6184, 0x0, 0xc1c6184c, 0xc62c1c62, 0x6400, 0x0,
      0x41c6400c, 0xc6541c65, 0x6684, 0x0, 0xc9d6684c, 0xd67c9d67, 0x6910, 0x0, 0x59d6910d, 0xd6a59d6a,
      0x6ba4, 0x0, 0xf1d6ba4d, 0xd6cf1d6c, 0x6e40, 0x0, 0x91e6e40d, 0xe6f91e6f, 0x70e4, 0x0,
      0x39e70e4e, 0xe7239e72, 0x7390, 0x0, 0xe9e7390e, 0xe74e9e74, 0x7644, 0x0, 0xa1e7644e, 0xf77a1e77,
      0x7900, 0x0, 0x61f7900f, 0xf7a61f7a, 0x7bc4, 0x0, 0x29f7bc4f, 0xf7d29f7d, 0x7e90, 0x0,
      0xf9f7e90f, 0x7ff9f7f, 0x8165, 0x0, 0xd2081650, 0x82d2082, 0x8441, 0x0, 0xb2084410, 0x85b2085,
      0x8725, 0x0, 0x9a187250, 0x1889a188, 0x8a11, 0x0, 0x8a18a111, 0x18b8a18b, 0x8d05, 0x0,
      0x8218d051, 0x18e8218e, 0x9001, 0x0, 0x82290011, 0x29182291, 0x9305, 0x0, 0x8a293052, 0x2948a294,
      0x9611, 0x0, 0x9a296112, 0x3979a297, 0x9925, 0x0, 0xb2399253, 0x39ab239a, 0x9c41, 0x0,
      0xd239c413, 0x39dd239d, 0x9f65, 0x0, 0xfa39f653, 0x4a0fa3a0, 0xa291, 0x0, 0x2a4a2914, 0x4a42a4a4,
      0xa5c5, 0x0, 0x624a5c54, 0x4a7624a7, 0xa901, 0x0, 0xa25a9014, 0x5aaa25aa, 0xac45, 0x0,
      0xea5ac455, 0x5adea5ad, 0xaf91, 0x0, 0x3a5af915, 0x6b13a5b1, 0xb2e5, 0x0, 0x926b2e56, 0x6b4926b4,
      0xb641, 0x0, 0xf26b6416, 0x6b7f26b7, 0xb9a5, 0x0, 0x5a7b9a56, 0x7bb5a7bb, 0xbd11, 0x0,
      0xca7bd117, 0x7beca7be, 0xc085, 0x0, 0x428c0857, 0x8c2428c2, 0xc401, 0x0, 0xc28c4018, 0x8c5c28c5,
      0xc785, 0x0, 0x4a8c7858, 0x9c94a8c9, 0xcb11, 0x0, 0xda9cb119, 0x9ccda9cc, 0xcea5, 0x0,
      0x729cea59, 0x9d0729d0, 0xd241, 0x0, 0x12ad2419, 0xad412ad4, 0xd5e5, 0x0, 0xbaad5e5a, 0xad7baad7,
      0xd991, 0x0, 0x6abd991a, 0xbdb6abdb, 0xdd45, 0x0, 0x22bdd45b, 0xbdf22bdf, 0xe101, 0x0,
      0xe2be101b, 0xce2e2be2, 0xe4c5, 0x0, 0xaace4c5c, 0xce6aace6, 0xe891, 0x0, 0x7ace891c, 0xdea7acea,
      0xec65, 0x0, 0x52dec65d, 0xdee52dee, 0xf041, 0x0, 0x730f041d, 0x6f5730f5, 0xfab2, 0x0,
      0xffffab26, 0xefffffff, 0xf811, 0x0, 0xaef811e, 0xffa0aefa, 0xfc05, 0x0, 0x2ffc05f, 0xffe02ffe,
      0xffff, 0x0]"

lemma carried_lengths:
  "length ar_isp_gamma_page1 = 512" "length ar_isp_drc_tail_bank0 = 257" "length ar_isp_drc_tail_bank1 = 257"
  "length ar_isp_compander_head = 0x900 div 4" "length ar_isp_compander_mid = 0x800 div 4"
  by (simp_all add: ar_isp_gamma_page1_def ar_isp_drc_tail_bank0_def ar_isp_drc_tail_bank1_def
      ar_isp_compander_head_def ar_isp_compander_mid_def)

end
