(* ===== verification/Isp_Pages.thy ===== *)
theory Isp_Pages
  imports Isp_Stages Isp_Carried
begin

text \<open>
  The buffers of \<open>ar-isp-tables.c\<close>: allocation, the fills from the tuning file, the publication of their
  addresses to the descriptor registers, the tone re-latch, the double-buffered tone-mapping page and
  the statistics halves.  The driver state is a record; the coherent buffers are a map from buffer to
  its memory and bus address; \<open>isp_trace\<close> records, in order, the fills, barriers, register writes and
  allocations the code makes, over which the ordering and balance properties are stated.
\<close>

section \<open>State\<close>

datatype isp_buf = Gamma | Drc | Tone | Lsc | Hdr_lsc | Rro | Rro_face | Hist | Ltm_page | Ltm_stats | De3d0 | De3d1 | De3d2

text \<open>A coherent allocation: its memory and its bus address.\<close>

record coherent =
  co_mem :: mem
  co_dma :: u64

datatype isp_event =
    Filled isp_buf | Barrier | Wrote nat u32
  | Alloc isp_buf nat u64 | Freed isp_buf nat u64 | Pool_get | Pool_put | Fw_get | Fw_put
  | Irq_request | Irq_free | Clk_on | Clk_off

record ar_isp =
  isp_io :: regs
  isp_trace :: "isp_event list"
  isp_tuning :: "mem option"
  isp_bufs :: "isp_buf \<Rightarrow> coherent option"
  last_gamma :: ar_isp_tone_pick
  last_drc :: ar_isp_tone_pick
  ltm_page_half :: nat
  stats_cur :: nat
  stats_done :: nat
  stats_valid :: bool
  stats_flips :: u32
  configured :: bool
  irq_line :: int
  irq_requested :: bool
  irq_events :: u32
  irq_stats_events :: u32
  irq_seen0 :: u32
  irq_seen1 :: u32

abbreviation AR_ISP_GAMMA_SIZE :: nat where "AR_ISP_GAMMA_SIZE \<equiv> 0x4000"
abbreviation AR_ISP_GAMMA_PAGE :: nat where "AR_ISP_GAMMA_PAGE \<equiv> 0x800"
abbreviation AR_ISP_DRC_SIZE :: nat where "AR_ISP_DRC_SIZE \<equiv> 0x2000"
abbreviation AR_ISP_DRC_BANK :: nat where "AR_ISP_DRC_BANK \<equiv> 0x800"
abbreviation AR_ISP_LSC_SIZE :: nat where "AR_ISP_LSC_SIZE \<equiv> 0x680"
abbreviation AR_ISP_HDR_COMPANDER :: nat where "AR_ISP_HDR_COMPANDER \<equiv> 0xa00"
abbreviation AR_ISP_TONE_ALLOC :: nat where "AR_ISP_TONE_ALLOC \<equiv> 0xa00 + 0xf000"
abbreviation AR_ISP_RRO_SIZE :: nat where "AR_ISP_RRO_SIZE \<equiv> 36 * 0x200"
abbreviation AR_ISP_HIST_SIZE :: nat where "AR_ISP_HIST_SIZE \<equiv> 0x1000"
abbreviation AR_ISP_LTM_PAGE_SIZE :: nat where "AR_ISP_LTM_PAGE_SIZE \<equiv> 0x4000"
abbreviation AR_ISP_LTM_STATS_SIZE :: nat where "AR_ISP_LTM_STATS_SIZE \<equiv> 0x80000"
abbreviation AR_ISP_TUNING_BYTES :: nat where "AR_ISP_TUNING_BYTES \<equiv> 0xd6c58"

text \<open>The size each buffer is allocated and freed with (two halves for the statistics and the page).\<close>

fun isp_buf_size :: "isp_buf \<Rightarrow> nat" where
  "isp_buf_size Gamma = AR_ISP_GAMMA_SIZE"
| "isp_buf_size Drc = AR_ISP_DRC_SIZE"
| "isp_buf_size Tone = AR_ISP_TONE_ALLOC"
| "isp_buf_size Lsc = AR_ISP_LSC_SIZE"
| "isp_buf_size Hdr_lsc = AR_ISP_LSC_SIZE"
| "isp_buf_size Rro = AR_ISP_RRO_SIZE * 2"
| "isp_buf_size Rro_face = AR_ISP_RRO_SIZE * 2"
| "isp_buf_size Hist = AR_ISP_HIST_SIZE * 2"
| "isp_buf_size Ltm_page = AR_ISP_LTM_PAGE_SIZE * 2"
| "isp_buf_size Ltm_stats = AR_ISP_LTM_STATS_SIZE"
| "isp_buf_size De3d0 = 0x1d9000"
| "isp_buf_size De3d1 = 0x0ed000"
| "isp_buf_size De3d2 = 0x009000"

definition log_event :: "isp_event \<Rightarrow> ar_isp \<Rightarrow> ar_isp" where
  "log_event e s = s\<lparr>isp_trace := isp_trace s @ [e]\<rparr>"

definition isp_writel :: "nat \<Rightarrow> u32 \<Rightarrow> ar_isp \<Rightarrow> ar_isp" where
  "isp_writel off v s = log_event (Wrote off v) (s\<lparr>isp_io := (isp_io s)(off := v)\<rparr>)"

definition lower_32_bits :: "u64 \<Rightarrow> u32" where
  "lower_32_bits a = ucast a"

text \<open>A fill of a buffer that exists.\<close>

definition put_buf :: "isp_buf \<Rightarrow> mem \<Rightarrow> ar_isp \<Rightarrow> ar_isp" where
  "put_buf b m s =
     (case isp_bufs s b of
        None \<Rightarrow> s
      | Some c \<Rightarrow> log_event (Filled b) (s\<lparr>isp_bufs := (isp_bufs s)(b \<mapsto> c\<lparr>co_mem := m\<rparr>)\<rparr>))"

definition memset0 :: "nat \<Rightarrow> mem \<Rightarrow> mem" where
  "memset0 n m = (\<lambda>i. if i < n then 0 else m i)"

section \<open>The tone selection\<close>

definition ar_isp_tone_none :: ar_isp_tone_pick where
  "ar_isp_tone_none = \<lparr>tp_low = 0xffffffff, tp_high = 0xffffffff, tp_t_q12 = 0xffffffff\<rparr>"

text \<open>\<open>None\<close> where the C function returns false.\<close>

definition ar_isp_tone_gamma_pick :: "isp_params \<Rightarrow> mem \<Rightarrow> ar_isp_tone_pick option" where
  "ar_isp_tone_gamma_pick p blob =
     (if p_tone_scalar p \<ge> 0 then Some (ar_isp_tone_pick_gamma blob (word_of_int (p_tone_scalar p)))
      else if p_gamma_curve p < 0 \<or> p_gamma_curve p \<ge> 5 then None
      else Some \<lparr>tp_low = word_of_int (p_gamma_curve p), tp_high = word_of_int (p_gamma_curve p), tp_t_q12 = 0\<rparr>)"

definition ar_isp_tone_drc_pick :: "isp_params \<Rightarrow> mem \<Rightarrow> ar_isp_tone_pick option" where
  "ar_isp_tone_drc_pick p blob =
     (if p_tone_scalar p \<ge> 0 then Some (ar_isp_tone_pick_drc blob (word_of_int (p_tone_scalar p)))
      else if p_drc_profile p < 0 \<or> p_drc_profile p \<ge> 6 then None
      else Some \<lparr>tp_low = word_of_int (p_drc_profile p), tp_high = word_of_int (p_drc_profile p), tp_t_q12 = 0\<rparr>)"

definition ar_isp_tone_changed :: "ar_isp \<Rightarrow> ar_isp_tone_pick \<Rightarrow> ar_isp_tone_pick \<Rightarrow> bool \<Rightarrow> bool" where
  "ar_isp_tone_changed s g d force \<longleftrightarrow> force \<or> last_gamma s \<noteq> g \<or> last_drc s \<noteq> d"

text \<open>Both pages of gamma, and the four banks of DRC, for a selection.\<close>

definition build_gamma :: "mem \<Rightarrow> ar_isp_tone_pick \<Rightarrow> mem \<Rightarrow> mem" where
  "build_gamma blob pick page =
     ar_isp_gamma_pack_page (ar_isp_gamma_from_blob page 0 blob (tp_low pick) (tp_high pick) (tp_t_q12 pick))
       AR_ISP_GAMMA_PAGE ar_isp_gamma_page1 AR_ISP_GAMMA_PAGE1_TAIL"

definition build_drc :: "mem \<Rightarrow> ar_isp_tone_pick \<Rightarrow> mem \<Rightarrow> mem" where
  "build_drc blob pick page =
     ar_isp_drc_pack_bank
       (ar_isp_drc_pack_bank (ar_isp_drc_from_blob page 0 blob (tp_low pick) (tp_high pick) (tp_t_q12 pick))
          (2 * AR_ISP_DRC_BANK) ar_isp_drc_tail_bank0)
       (3 * AR_ISP_DRC_BANK) ar_isp_drc_tail_bank1"

section \<open>Fills\<close>

text \<open>The vendor's pages in DRAM, as \<open>memremap\<close> maps them: \<open>None\<close> when the mapping fails.\<close>

type_synonym vendor_mem = "u64 \<Rightarrow> mem option"

definition ar_isp_seed_from_vendor :: "vendor_mem \<Rightarrow> mem \<Rightarrow> u64 \<Rightarrow> nat \<Rightarrow> mem \<times> bool" where
  "ar_isp_seed_from_vendor vendor dst phys n =
     (case vendor phys of None \<Rightarrow> (dst, False) | Some src \<Rightarrow> ((\<lambda>i. if i < n then src i else dst i), True))"

record ar_isp_fill_status =
  gamma_built :: bool
  gamma_seeded :: bool
  drc_built :: bool
  drc_seeded :: bool
  tone_built :: bool
  lsc_built :: bool
  lsc_seeded :: bool
  hdr_lsc_seeded :: bool

definition no_fill :: ar_isp_fill_status where
  "no_fill = \<lparr>gamma_built = False, gamma_seeded = False, drc_built = False, drc_seeded = False, tone_built = False,
     lsc_built = False, lsc_seeded = False, hdr_lsc_seeded = False\<rparr>"

text \<open>The seed, or the zeroing, a fill starts from.\<close>

definition fill_base :: "isp_params \<Rightarrow> vendor_mem \<Rightarrow> mem \<Rightarrow> u64 \<Rightarrow> nat \<Rightarrow> mem \<times> bool" where
  "fill_base p vendor page phys n = (if p_seed p then ar_isp_seed_from_vendor vendor page phys n else (memset0 n page, False))"

definition ar_isp_fill_gamma :: "isp_params \<Rightarrow> vendor_mem \<Rightarrow> mem option \<Rightarrow> ar_isp \<times> ar_isp_fill_status \<Rightarrow> ar_isp \<times> ar_isp_fill_status" where
  "ar_isp_fill_gamma p vendor blob x =
     (case x of (s, st) \<Rightarrow>
      case isp_bufs s Gamma of
        None \<Rightarrow> (s, st)
      | Some c \<Rightarrow>
          let (page, seeded) = fill_base p vendor (co_mem c) 0x2b2ec600 AR_ISP_GAMMA_SIZE;
              s1 = put_buf Gamma page s;
              st1 = st\<lparr>gamma_seeded := seeded\<rparr>
          in case Option.bind blob (ar_isp_tone_gamma_pick p) of
               None \<Rightarrow> (s1, st1)
             | Some pick \<Rightarrow> (put_buf Gamma (build_gamma (the blob) pick page) s1\<lparr>last_gamma := pick\<rparr>, st1\<lparr>gamma_built := True\<rparr>))"

definition ar_isp_fill_drc :: "isp_params \<Rightarrow> vendor_mem \<Rightarrow> mem option \<Rightarrow> ar_isp \<times> ar_isp_fill_status \<Rightarrow> ar_isp \<times> ar_isp_fill_status" where
  "ar_isp_fill_drc p vendor blob x =
     (case x of (s, st) \<Rightarrow>
      case isp_bufs s Drc of
        None \<Rightarrow> (s, st)
      | Some c \<Rightarrow>
          let (page, seeded) = fill_base p vendor (co_mem c) 0x2b2e9200 AR_ISP_DRC_SIZE;
              s1 = put_buf Drc page s;
              st1 = st\<lparr>drc_seeded := seeded\<rparr>
          in case Option.bind blob (ar_isp_tone_drc_pick p) of
               None \<Rightarrow> (s1, st1)
             | Some pick \<Rightarrow> (put_buf Drc (build_drc (the blob) pick page) s1\<lparr>last_drc := pick\<rparr>, st1\<lparr>drc_built := True\<rparr>))"

definition ar_isp_fill_tone :: "ar_isp \<times> ar_isp_fill_status \<Rightarrow> ar_isp \<times> ar_isp_fill_status" where
  "ar_isp_fill_tone x =
     (case x of (s, st) \<Rightarrow>
      case isp_bufs s Tone of
        None \<Rightarrow> (s, st)
      | Some c \<Rightarrow>
          (put_buf Tone (ar_isp_compander_fill (memset0 AR_ISP_TONE_ALLOC (co_mem c)) AR_ISP_HDR_COMPANDER
             ar_isp_compander_head ar_isp_compander_mid) s, st\<lparr>tone_built := True\<rparr>))"

text \<open>The identity page, in both halves.\<close>

definition ltm_identity_half :: "mem \<Rightarrow> mem" where
  "ltm_identity_half m =
     fold (\<lambda>i. fold (\<lambda>j. \<lambda>page. ar_isp_put_le16 page (2 * (i * 0x100 div 2 + j)) (of_nat (j * 1003 div (128 - 1)))) [0..<128]) [0..<64] m"

definition ar_isp_fill_ltm :: "ar_isp \<Rightarrow> ar_isp" where
  "ar_isp_fill_ltm s =
     (let s1 = (case isp_bufs s Ltm_page of
                  None \<Rightarrow> s
                | Some c \<Rightarrow>
                    let m = ltm_identity_half (memset0 (AR_ISP_LTM_PAGE_SIZE * 2) (co_mem c))
                    in put_buf Ltm_page (\<lambda>i. if AR_ISP_LTM_PAGE_SIZE \<le> i \<and> i < 2 * AR_ISP_LTM_PAGE_SIZE
                                            then m (i - AR_ISP_LTM_PAGE_SIZE) else m i) s)
      in case isp_bufs s1 Ltm_stats of
           None \<Rightarrow> s1
         | Some c \<Rightarrow> put_buf Ltm_stats (memset0 AR_ISP_LTM_STATS_SIZE (co_mem c)) s1)"

definition ar_isp_fill_lsc :: "isp_params \<Rightarrow> vendor_mem \<Rightarrow> mem option \<Rightarrow> ar_isp \<times> ar_isp_fill_status \<Rightarrow> ar_isp \<times> ar_isp_fill_status" where
  "ar_isp_fill_lsc p vendor blob x =
     (case x of (s, st) \<Rightarrow>
      case isp_bufs s Lsc of
        None \<Rightarrow> (s, st)
      | Some c \<Rightarrow>
          let (page, seeded) = fill_base p vendor (co_mem c) 0x2b2e8600 AR_ISP_LSC_SIZE;
              s1 = put_buf Lsc page s;
              st1 = st\<lparr>lsc_seeded := seeded\<rparr>
          in case blob of
               None \<Rightarrow> (s1, st1)
             | Some b \<Rightarrow> (put_buf Lsc (ar_isp_lsc_from_blob page 0 b) s1, st1\<lparr>lsc_built := True\<rparr>))"

definition ar_isp_fill_hdr_lsc :: "isp_params \<Rightarrow> vendor_mem \<Rightarrow> ar_isp \<times> ar_isp_fill_status \<Rightarrow> ar_isp \<times> ar_isp_fill_status" where
  "ar_isp_fill_hdr_lsc p vendor x =
     (case x of (s, st) \<Rightarrow>
      case isp_bufs s Hdr_lsc of
        None \<Rightarrow> (s, st)
      | Some c \<Rightarrow>
          let (page, seeded) = fill_base p vendor (co_mem c) 0x2b2e8c00 AR_ISP_LSC_SIZE
          in (put_buf Hdr_lsc page s, st\<lparr>hdr_lsc_seeded := seeded\<rparr>))"

section \<open>Publications\<close>

abbreviation AR_ISP_TABLE_COMMIT_ENABLE :: u32 where "AR_ISP_TABLE_COMMIT_ENABLE \<equiv> 0x00010000"

text \<open>Gamma has three descriptors; \<open>when_buf\<close> is the early return of a publication whose buffer is missing.\<close>

definition when_buf :: "isp_buf \<Rightarrow> (coherent \<Rightarrow> ar_isp \<Rightarrow> ar_isp) \<Rightarrow> ar_isp \<Rightarrow> ar_isp" where
  "when_buf b f s = (case isp_bufs s b of None \<Rightarrow> s | Some c \<Rightarrow> f c s)"

definition ar_isp_publish_gamma :: "ar_isp \<Rightarrow> ar_isp" where
  "ar_isp_publish_gamma = when_buf Gamma (\<lambda>c s.
     let addr = lower_32_bits (co_dma c); s1 = isp_writel 0x0030 addr s; s2 = isp_writel 0x0040 addr s1; s3 = isp_writel 0x0050 addr s2
     in isp_writel 0x0014 (AR_ISP_TABLE_COMMIT_ENABLE OR 0x0000000e) s3)"

definition ar_isp_publish_drc :: "ar_isp \<Rightarrow> ar_isp" where
  "ar_isp_publish_drc = when_buf Drc (\<lambda>c s.
     isp_writel 0x0014 (AR_ISP_TABLE_COMMIT_ENABLE OR 0x00000010) (isp_writel 0x0060 (lower_32_bits (co_dma c)) s))"

definition ar_isp_publish_tone :: "isp_params \<Rightarrow> ar_isp \<Rightarrow> ar_isp" where
  "ar_isp_publish_tone p = when_buf Tone (\<lambda>c s.
     let s1 = isp_writel 0x0020 (lower_32_bits (co_dma c + of_nat AR_ISP_HDR_COMPANDER)) s;
         s2 = isp_writel 0x0014 (AR_ISP_TABLE_COMMIT_ENABLE OR 0x00000001) s1
     in if \<not> p_hdr p then s2
        else isp_writel 0x1c60 1 (isp_writel 0x1c6c (lower_32_bits (co_dma c)) s2))"

definition ar_isp_publish_lsc :: "ar_isp \<Rightarrow> ar_isp" where
  "ar_isp_publish_lsc = when_buf Lsc (\<lambda>c s. isp_writel 0x4c3c 1 (isp_writel 0x4c34 (lower_32_bits (co_dma c)) s))"

definition ar_isp_publish_hdr_lsc :: "ar_isp \<Rightarrow> ar_isp" where
  "ar_isp_publish_hdr_lsc = when_buf Hdr_lsc (\<lambda>c s. isp_writel 0x1e40 1 (isp_writel 0x1e38 (lower_32_bits (co_dma c)) s))"

definition ar_isp_stats_arm :: "nat \<Rightarrow> ar_isp \<Rightarrow> ar_isp" where
  "ar_isp_stats_arm half s =
     (let s1 = when_buf Rro (\<lambda>c s.
                 let a = lower_32_bits (co_dma c + of_nat (half * AR_ISP_RRO_SIZE)) in isp_writel 0x6474 a (isp_writel 0x6440 a s)) s;
          s2 = when_buf Rro_face (\<lambda>c. isp_writel 0x6508 (lower_32_bits (co_dma c + of_nat (half * AR_ISP_RRO_SIZE)))) s1
      in when_buf Hist (\<lambda>c. isp_writel 0x600c (lower_32_bits (co_dma c + of_nat (half * AR_ISP_HIST_SIZE)))) s2)"

text \<open>The half a consumer may read, as the displacement it starts at.\<close>

definition ar_isp_stats_ready :: "isp_params \<Rightarrow> ar_isp \<Rightarrow> isp_buf \<Rightarrow> nat \<Rightarrow> nat option" where
  "ar_isp_stats_ready p s b n =
     (case isp_bufs s b of
        None \<Rightarrow> None
      | Some c \<Rightarrow> if \<not> p_pingpong p then Some 0 else if \<not> stats_valid s then None else Some (stats_done s * n))"

definition ar_isp_stats_publish :: "ar_isp \<Rightarrow> ar_isp" where
  "ar_isp_stats_publish s =
     (let s1 = ar_isp_stats_arm 0 (s\<lparr>stats_cur := 0, stats_done := 0, stats_valid := False\<rparr>);
          s2 = when_buf Ltm_page (\<lambda>c s. isp_writel 0x2808 (lower_32_bits (co_dma c + of_nat (ltm_page_half s * AR_ISP_LTM_PAGE_SIZE))) s) s1;
          s3 = when_buf Ltm_stats (\<lambda>c. isp_writel 0x280c (lower_32_bits (co_dma c))) s2
      in isp_writel 0x2834 4 s3)"

definition ar_isp_de3d_publish :: "ar_isp \<Rightarrow> ar_isp" where
  "ar_isp_de3d_publish =
     fold (\<lambda>(b, ra, rb). when_buf b (\<lambda>c s. isp_writel rb (lower_32_bits (co_dma c)) (isp_writel ra (lower_32_bits (co_dma c)) s)))
       [(De3d0, 0x2e3c, 0x2e58), (De3d1, 0x2e44, 0x2e60), (De3d2, 0x2e80, 0x2e88)]"

section \<open>The tone re-latch, the tone-mapping page and the whole pass\<close>

definition ar_isp_tone_apply :: "isp_params \<Rightarrow> bool \<Rightarrow> ar_isp \<Rightarrow> ar_isp" where
  "ar_isp_tone_apply p force s =
     (case isp_tuning s of
        None \<Rightarrow> s
      | Some blob \<Rightarrow>
          if \<not> p_tables p then s
          else
            let want_gamma = (case isp_bufs s Gamma of None \<Rightarrow> None | Some c \<Rightarrow> ar_isp_tone_gamma_pick p blob);
                want_drc = (case isp_bufs s Drc of None \<Rightarrow> None | Some c \<Rightarrow> ar_isp_tone_drc_pick p blob);
                gamma = (case want_gamma of None \<Rightarrow> ar_isp_tone_none | Some g \<Rightarrow> g);
                drc = (case want_drc of None \<Rightarrow> ar_isp_tone_none | Some d \<Rightarrow> d)
            in if \<not> ar_isp_tone_changed s gamma drc force then s
               else
                 let s1 = (if want_gamma = None then s else put_buf Gamma (build_gamma blob gamma (co_mem (the (isp_bufs s Gamma)))) s);
                     s2 = (if want_drc = None then s1 else put_buf Drc (build_drc blob drc (co_mem (the (isp_bufs s Drc)))) s1);
                     s3 = log_event Barrier (s2\<lparr>last_gamma := gamma, last_drc := drc\<rparr>);
                     s4 = (if want_gamma = None then s3 else ar_isp_publish_gamma s3)
                 in if want_drc = None then s4 else ar_isp_publish_drc s4)"

definition ar_isp_ltm_page_publish :: "mem \<Rightarrow> ar_isp \<Rightarrow> errno + ar_isp" where
  "ar_isp_ltm_page_publish page s =
     (case isp_bufs s Ltm_page of
        None \<Rightarrow> Inl ENODEV
      | Some c \<Rightarrow>
          let nxt = ltm_page_half s XOR 1;
              m = (\<lambda>i. if nxt * AR_ISP_LTM_PAGE_SIZE \<le> i \<and> i < (nxt + 1) * AR_ISP_LTM_PAGE_SIZE
                       then page (i - nxt * AR_ISP_LTM_PAGE_SIZE) else co_mem c i);
              s1 = put_buf Ltm_page m s;
              s2 = isp_writel 0x2808 (lower_32_bits (co_dma c + of_nat (nxt * AR_ISP_LTM_PAGE_SIZE))) s1
          in Inr (s2\<lparr>ltm_page_half := nxt\<rparr>))"

definition ar_isp_tables_apply :: "isp_params \<Rightarrow> vendor_mem \<Rightarrow> ar_isp \<Rightarrow> ar_isp" where
  "ar_isp_tables_apply p vendor s =
     (if \<not> p_tables p then s
      else
        let blob = isp_tuning s;
            x0 = (s\<lparr>last_gamma := ar_isp_tone_none, last_drc := ar_isp_tone_none\<rparr>, no_fill);
            x1 = ar_isp_fill_gamma p vendor blob x0;
            x2 = ar_isp_fill_drc p vendor blob x1;
            (s3, st3) = ar_isp_fill_tone x2;
            x4 = (ar_isp_fill_ltm s3, st3);
            x5 = ar_isp_fill_lsc p vendor blob x4;
            (s6, st6) = ar_isp_fill_hdr_lsc p vendor x5;
            s7 = log_event Barrier s6;
            s8 = ar_isp_publish_tone p (ar_isp_publish_drc (ar_isp_publish_gamma s7));
            s9 = ar_isp_publish_hdr_lsc (ar_isp_publish_lsc s8)
        in ar_isp_de3d_publish (ar_isp_stats_publish s9))"

section \<open>Allocation and release\<close>

text \<open>What the platform answers while the driver prepares: the DMA mask, the memory pool, each
  allocation, and the tuning file with its size.\<close>

record prep_env =
  pe_mask :: bool
  pe_pool :: bool
  pe_alloc :: "isp_buf \<Rightarrow> coherent option"
  pe_firmware :: "(mem \<times> nat) option"

definition ar_isp_alloc :: "prep_env \<Rightarrow> isp_buf \<Rightarrow> ar_isp \<Rightarrow> ar_isp" where
  "ar_isp_alloc env b s =
     (case pe_alloc env b of
        None \<Rightarrow> s\<lparr>isp_bufs := (isp_bufs s)(b := None)\<rparr>
      | Some c \<Rightarrow> log_event (Alloc b (isp_buf_size b) (co_dma c)) (s\<lparr>isp_bufs := (isp_bufs s)(b \<mapsto> c)\<rparr>))"

text \<open>The buffers the parameters ask for, in the order they are allocated.\<close>

definition wanted_bufs :: "isp_params \<Rightarrow> isp_buf list" where
  "wanted_bufs p =
     [Gamma, Drc] @ (if p_compander p then [Tone] else []) @ (if p_lsc p then [Lsc] else []) @
     (if p_hdr_lsc p then [Hdr_lsc] else []) @ (if p_stats p then [Rro, Rro_face, Hist] else []) @
     (if p_ltm p then [Ltm_page, Ltm_stats] else []) @ (if p_de3d p then [De3d0, De3d1, De3d2] else [])"

definition ar_isp_tables_prepare :: "isp_params \<Rightarrow> prep_env \<Rightarrow> ar_isp \<Rightarrow> ar_isp" where
  "ar_isp_tables_prepare p env s =
     (let s0 = s\<lparr>last_gamma := ar_isp_tone_none, last_drc := ar_isp_tone_none\<rparr>
      in if \<not> pe_mask env then s0
         else if \<not> pe_pool env then s0
         else let s1 = fold (ar_isp_alloc env) (wanted_bufs p) (log_event Pool_get s0)
              in case pe_firmware env of
                   None \<Rightarrow> s1\<lparr>isp_tuning := None\<rparr>
                 | Some (blob, n) \<Rightarrow>
                     let s2 = log_event Fw_get s1
                     in if n \<noteq> AR_ISP_TUNING_BYTES then log_event Fw_put s2\<lparr>isp_tuning := None\<rparr>
                        else s2\<lparr>isp_tuning := Some blob\<rparr>)"

definition ar_isp_free :: "isp_buf \<Rightarrow> ar_isp \<Rightarrow> ar_isp" where
  "ar_isp_free b s = (case isp_bufs s b of None \<Rightarrow> s | Some c \<Rightarrow> log_event (Freed b (isp_buf_size b) (co_dma c)) s)"

definition ar_isp_tables_release :: "ar_isp \<Rightarrow> ar_isp" where
  "ar_isp_tables_release s =
     (let s1 = fold ar_isp_free [Gamma, Drc, Tone, Lsc, Hdr_lsc, Rro, Rro_face, Hist, Ltm_page, Ltm_stats, De3d0, De3d1, De3d2] s;
          s2 = (if isp_tuning s1 = None then s1 else log_event Fw_put s1)
      in log_event Pool_put s2)"

text \<open>The zeroed structure of a fresh probe.\<close>

definition isp_zeroed :: ar_isp where
  "isp_zeroed = \<lparr>isp_io = (\<lambda>_. 0), isp_trace = [], isp_tuning = None, isp_bufs = (\<lambda>_. None),
     last_gamma = \<lparr>tp_low = 0, tp_high = 0, tp_t_q12 = 0\<rparr>, last_drc = \<lparr>tp_low = 0, tp_high = 0, tp_t_q12 = 0\<rparr>,
     ltm_page_half = 0, stats_cur = 0, stats_done = 0, stats_valid = False, stats_flips = 0, configured = False,
     irq_line = 0, irq_requested = False, irq_events = 0, irq_stats_events = 0, irq_seen0 = 0, irq_seen1 = 0\<rparr>"

section \<open>Overlays\<close>

text \<open>A fill that writes fixed bytes at fixed places: run again, it changes nothing.\<close>

definition overlay :: "(mem \<Rightarrow> mem) \<Rightarrow> bool" where
  "overlay f \<longleftrightarrow> (\<exists>W v. \<forall>m i. f m i = (if i \<in> W then v i else m i))"

lemma overlayI: "(\<And>m i. f m i = (if i \<in> W then v i else m i)) \<Longrightarrow> overlay f"
  unfolding overlay_def by blast

lemma overlay_idem: "overlay f \<Longrightarrow> f (f m) = f m"
  unfolding overlay_def by (auto simp: fun_eq_iff)

lemma overlay_comp:
  assumes "overlay f" "overlay g" shows "overlay (\<lambda>m. g (f m))"
proof -
  obtain W v V w where f: "\<And>m i. f m i = (if i \<in> W then v i else m i)" and g: "\<And>m i. g m i = (if i \<in> V then w i else m i)"
    using assms unfolding overlay_def by auto
  show ?thesis by (rule overlayI [where W = "W \<union> V" and v = "\<lambda>i. if i \<in> V then w i else v i"]) (simp add: f g)
qed

lemma overlay_id: "overlay (\<lambda>m. m)"
  by (rule overlayI [where W = "{}"]) simp

lemma overlay_fold: "(\<And>x. x \<in> set xs \<Longrightarrow> overlay (f x)) \<Longrightarrow> overlay (fold f xs)"
proof (induction xs)
  case Nil
  then show ?case using overlay_id by (simp add: id_def)
next
  case (Cons x xs)
  have "overlay (\<lambda>m. fold f xs (f x m))" by (rule overlay_comp) (simp_all add: Cons)
  then show ?case by (simp add: comp_def)
qed

lemma overlay_put: "overlay (\<lambda>m. ar_isp_put_le32 m i v)" "overlay (\<lambda>m. ar_isp_put_le16 m i w)"
  by (rule overlayI [where W = "{i, i + 1, i + 2, i + 3}" and v = "ar_isp_put_le32 (\<lambda>_. 0) i v"], simp add: ar_isp_put_le32_def)
     (rule overlayI [where W = "{i, i + 1}" and v = "ar_isp_put_le16 (\<lambda>_. 0) i w"], simp add: ar_isp_put_le16_def)

lemma overlay_then: "overlay f \<Longrightarrow> overlay (\<lambda>m. ar_isp_put_le32 (f m) i v)" "overlay f \<Longrightarrow> overlay (\<lambda>m. ar_isp_put_le16 (f m) i w)"
  using overlay_comp [OF _ overlay_put(1)] overlay_comp [OF _ overlay_put(2)] by blast+

lemma overlay_pack: "overlay (\<lambda>m. ar_isp_gamma_pack_page m b xs t)" "overlay (\<lambda>m. ar_isp_drc_pack_bank m b ys)"
  unfolding ar_isp_gamma_pack_page_def ar_isp_drc_pack_bank_def Let_def
  by (intro overlay_fold overlay_then overlay_put)+

lemma overlay_build: "overlay (build_gamma blob pick)" "overlay (build_drc blob pick)"
proof -
  have "overlay (\<lambda>m. ar_isp_gamma_from_blob m 0 blob l h t)" for l h t
    unfolding ar_isp_gamma_from_blob_def Let_def by (rule overlay_pack)
  from overlay_comp [OF this overlay_pack(1)] show "overlay (build_gamma blob pick)" by (simp add: build_gamma_def [abs_def])
  have "overlay (\<lambda>m. ar_isp_drc_from_blob m 0 blob l h t)" for l h t
    unfolding ar_isp_drc_from_blob_def Let_def by (intro overlay_fold overlay_pack)
  from overlay_comp [OF overlay_comp [OF this overlay_pack(2)] overlay_pack(2)]
  show "overlay (build_drc blob pick)" by (simp add: build_drc_def [abs_def])
qed

lemmas build_again = overlay_build [THEN overlay_idem]

section \<open>Register writes as lists\<close>

text \<open>A run of register writes, logged; every publication is one, determined by the buffers.\<close>

definition write_list :: "isp_reg list \<Rightarrow> ar_isp \<Rightarrow> ar_isp" where
  "write_list ws s = s\<lparr>isp_io := ar_isp_apply ws (isp_io s), isp_trace := isp_trace s @ map (\<lambda>(off, v). Wrote off v) ws\<rparr>"

lemma write_list_simps:
  "write_list [] s = s" "isp_writel off v s = write_list [(off, v)] s" "write_list vs (write_list ws s) = write_list (ws @ vs) s"
  by (simp_all add: write_list_def isp_writel_def log_event_def ar_isp_apply_def)

lemma write_list_keeps [simp]:
  "isp_bufs (write_list ws s) = isp_bufs s" "isp_tuning (write_list ws s) = isp_tuning s" "last_gamma (write_list ws s) = last_gamma s"
  "last_drc (write_list ws s) = last_drc s" "ltm_page_half (write_list ws s) = ltm_page_half s" "stats_cur (write_list ws s) = stats_cur s"
  "stats_done (write_list ws s) = stats_done s" "stats_valid (write_list ws s) = stats_valid s" "stats_flips (write_list ws s) = stats_flips s"
  "isp_io (write_list ws s) = ar_isp_apply ws (isp_io s)" "isp_trace (write_list ws s) = isp_trace s @ map (\<lambda>(off, v). Wrote off v) ws"
  by (simp_all add: write_list_def)

lemma apply_other: "off \<notin> fst ` set ws \<Longrightarrow> ar_isp_apply ws R off = R off"
  unfolding ar_isp_apply_def by (induction ws arbitrary: R) auto

lemma apply_append: "ar_isp_apply (ws @ vs) R = ar_isp_apply vs (ar_isp_apply ws R)"
  by (simp add: ar_isp_apply_def)

lemma apply_value:
  assumes "(off, v) \<in> set ws" "\<And>v'. (off, v') \<in> set ws \<Longrightarrow> v' = v"
  shows "ar_isp_apply ws R off = v"
  using assms
proof (induction ws rule: rev_induct)
  case (snoc w ws)
  show ?case
  proof (cases "fst w = off")
    case True
    then have "snd w = v" using snoc.prems(2) [of "snd w"] by (cases w) simp
    then show ?thesis using True by (simp add: apply_append) (simp add: ar_isp_apply_def case_prod_beta)
  next
    case False
    then have i: "(off, v) \<in> set ws" using snoc.prems(1) by auto
    have "ar_isp_apply ws R off = v" by (rule snoc.IH [OF i]) (simp add: snoc.prems(2))
    then show ?thesis using False by (simp add: apply_append) (simp add: ar_isp_apply_def case_prod_beta)
  qed
qed simp

text \<open>The writes of each publication.\<close>

definition buf_writes :: "(isp_buf \<Rightarrow> coherent option) \<Rightarrow> isp_buf \<Rightarrow> (coherent \<Rightarrow> isp_reg list) \<Rightarrow> isp_reg list" where
  "buf_writes B b f = (case B b of None \<Rightarrow> [] | Some c \<Rightarrow> f c)"

lemma in_buf_writes: "x \<in> set (buf_writes B b f) \<longleftrightarrow> (\<exists>c. B b = Some c \<and> x \<in> set (f c))"
  by (cases "B b") (simp_all add: buf_writes_def)

lemma when_buf_writes: "(\<And>c s. f c s = write_list (g c) s) \<Longrightarrow> when_buf b f s = write_list (buf_writes (isp_bufs s) b g) s"
  by (simp add: when_buf_def buf_writes_def write_list_simps split: option.split)

definition gamma_writes :: "coherent \<Rightarrow> isp_reg list" where
  "gamma_writes c = (let a = lower_32_bits (co_dma c) in [(0x30, a), (0x40, a), (0x50, a), (0x14, AR_ISP_TABLE_COMMIT_ENABLE OR 0xe)])"

definition drc_writes :: "coherent \<Rightarrow> isp_reg list" where
  "drc_writes c = [(0x60, lower_32_bits (co_dma c)), (0x14, AR_ISP_TABLE_COMMIT_ENABLE OR 0x10)]"

definition tone_writes :: "isp_params \<Rightarrow> coherent \<Rightarrow> isp_reg list" where
  "tone_writes p c =
     [(0x20, lower_32_bits (co_dma c + of_nat AR_ISP_HDR_COMPANDER)), (0x14, AR_ISP_TABLE_COMMIT_ENABLE OR 1)] @
     (if p_hdr p then [(0x1c6c, lower_32_bits (co_dma c)), (0x1c60, 1)] else [])"

definition lsc_writes :: "coherent \<Rightarrow> isp_reg list" where
  "lsc_writes c = [(0x4c34, lower_32_bits (co_dma c)), (0x4c3c, 1)]"

definition hdr_lsc_writes :: "coherent \<Rightarrow> isp_reg list" where
  "hdr_lsc_writes c = [(0x1e38, lower_32_bits (co_dma c)), (0x1e40, 1)]"

definition arm_writes :: "(isp_buf \<Rightarrow> coherent option) \<Rightarrow> nat \<Rightarrow> isp_reg list" where
  "arm_writes B half =
     buf_writes B Rro (\<lambda>c. let a = lower_32_bits (co_dma c + of_nat (half * AR_ISP_RRO_SIZE)) in [(0x6440, a), (0x6474, a)]) @
     buf_writes B Rro_face (\<lambda>c. [(0x6508, lower_32_bits (co_dma c + of_nat (half * AR_ISP_RRO_SIZE)))]) @
     buf_writes B Hist (\<lambda>c. [(0x600c, lower_32_bits (co_dma c + of_nat (half * AR_ISP_HIST_SIZE)))])"

definition stats_writes :: "(isp_buf \<Rightarrow> coherent option) \<Rightarrow> nat \<Rightarrow> isp_reg list" where
  "stats_writes B half =
     arm_writes B 0 @
     buf_writes B Ltm_page (\<lambda>c. [(0x2808, lower_32_bits (co_dma c + of_nat (half * AR_ISP_LTM_PAGE_SIZE)))]) @
     buf_writes B Ltm_stats (\<lambda>c. [(0x280c, lower_32_bits (co_dma c))]) @ [(0x2834, 4)]"

definition de3d_buf_writes :: "(isp_buf \<Rightarrow> coherent option) \<Rightarrow> isp_reg list" where
  "de3d_buf_writes B =
     buf_writes B De3d0 (\<lambda>c. let a = lower_32_bits (co_dma c) in [(0x2e3c, a), (0x2e58, a)]) @
     buf_writes B De3d1 (\<lambda>c. let a = lower_32_bits (co_dma c) in [(0x2e44, a), (0x2e60, a)]) @
     buf_writes B De3d2 (\<lambda>c. let a = lower_32_bits (co_dma c) in [(0x2e80, a), (0x2e88, a)])"

lemma publish_writes:
  "ar_isp_publish_gamma s = write_list (buf_writes (isp_bufs s) Gamma gamma_writes) s"
  "ar_isp_publish_drc s = write_list (buf_writes (isp_bufs s) Drc drc_writes) s"
  "ar_isp_publish_tone p s = write_list (buf_writes (isp_bufs s) Tone (tone_writes p)) s"
  "ar_isp_publish_lsc s = write_list (buf_writes (isp_bufs s) Lsc lsc_writes) s"
  "ar_isp_publish_hdr_lsc s = write_list (buf_writes (isp_bufs s) Hdr_lsc hdr_lsc_writes) s"
  unfolding ar_isp_publish_gamma_def ar_isp_publish_drc_def ar_isp_publish_tone_def ar_isp_publish_lsc_def ar_isp_publish_hdr_lsc_def
  by (intro when_buf_writes;
      simp add: write_list_simps gamma_writes_def drc_writes_def tone_writes_def lsc_writes_def hdr_lsc_writes_def Let_def)+

lemma stats_arm_writes: "ar_isp_stats_arm half s = write_list (arm_writes (isp_bufs s) half) s"
proof -
  have r: "when_buf Rro (\<lambda>c s. let a = lower_32_bits (co_dma c + of_nat (half * AR_ISP_RRO_SIZE)) in isp_writel 0x6474 a (isp_writel 0x6440 a s)) s =
      write_list (buf_writes (isp_bufs s) Rro (\<lambda>c. let a = lower_32_bits (co_dma c + of_nat (half * AR_ISP_RRO_SIZE)) in [(0x6440, a), (0x6474, a)])) s"
    for s by (rule when_buf_writes) (simp add: write_list_simps Let_def)
  have one: "when_buf b (\<lambda>c. isp_writel off (v c)) s = write_list (buf_writes (isp_bufs s) b (\<lambda>c. [(off, v c)])) s" for b off v s
    by (rule when_buf_writes) (simp add: write_list_simps)
  show ?thesis unfolding ar_isp_stats_arm_def Let_def r [unfolded Let_def] one
    by (simp add: write_list_simps arm_writes_def Let_def)
qed

lemma stats_publish_writes:
  "ar_isp_stats_publish s = write_list (stats_writes (isp_bufs s) (ltm_page_half s)) (s\<lparr>stats_cur := 0, stats_done := 0, stats_valid := False\<rparr>)"
  unfolding ar_isp_stats_publish_def Let_def stats_arm_writes
  by (simp add: when_buf_def stats_writes_def buf_writes_def write_list_simps split: option.split)

lemma de3d_publish_writes: "ar_isp_de3d_publish s = write_list (de3d_buf_writes (isp_bufs s)) s"
  by (simp add: ar_isp_de3d_publish_def when_buf_def de3d_buf_writes_def buf_writes_def Let_def write_list_simps split: option.split)

section \<open>What a fill may change\<close>

definition same_dma :: "(isp_buf \<Rightarrow> coherent option) \<Rightarrow> (isp_buf \<Rightarrow> coherent option) \<Rightarrow> bool" where
  "same_dma B B' \<longleftrightarrow> (\<forall>b. map_option co_dma (B' b) = map_option co_dma (B b))"

lemma same_dma_refl [simp]: "same_dma B B"
  by (simp add: same_dma_def)

lemma same_dma_trans: "same_dma B B' \<Longrightarrow> same_dma B' B'' \<Longrightarrow> same_dma B B''"
  by (simp add: same_dma_def)

lemma same_dma_None: "same_dma B B' \<Longrightarrow> B' b = None \<longleftrightarrow> B b = None"
  unfolding same_dma_def by (metis map_option_is_None)

lemma same_dma_Some: "same_dma B B' \<Longrightarrow> B b = Some c \<Longrightarrow> \<exists>c'. B' b = Some c' \<and> co_dma c' = co_dma c"
  unfolding same_dma_def by (metis map_option_eq_Some option.map(2))

lemma buf_writes_cong:
  assumes "same_dma B B'" "\<And>c c'. co_dma c = co_dma c' \<Longrightarrow> f c = f c'"
  shows "buf_writes B' b f = buf_writes B b f"
proof (cases "B b")
  case None
  then have "B' b = None" using same_dma_None [OF assms(1)] by blast
  then show ?thesis using None by (simp add: buf_writes_def)
next
  case (Some c)
  then obtain c' where "B' b = Some c'" "co_dma c' = co_dma c" using same_dma_Some [OF assms(1)] by blast
  then show ?thesis using Some assms(2) [of c c'] by (simp add: buf_writes_def)
qed

text \<open>The fields no fill changes.\<close>

definition isp_rest :: "ar_isp \<Rightarrow> ar_isp" where
  "isp_rest s = s\<lparr>isp_bufs := \<lambda>_. None, isp_trace := [], last_gamma := ar_isp_tone_none, last_drc := ar_isp_tone_none\<rparr>"

lemma isp_rest_fields:
  assumes "isp_rest s' = isp_rest s"
  shows "isp_io s' = isp_io s" "isp_tuning s' = isp_tuning s" "ltm_page_half s' = ltm_page_half s" "stats_cur s' = stats_cur s"
    "stats_done s' = stats_done s" "stats_valid s' = stats_valid s" "stats_flips s' = stats_flips s"
proof -
  have r: "isp_io (isp_rest x) = isp_io x" "isp_tuning (isp_rest x) = isp_tuning x" "ltm_page_half (isp_rest x) = ltm_page_half x"
    "stats_cur (isp_rest x) = stats_cur x" "stats_done (isp_rest x) = stats_done x" "stats_valid (isp_rest x) = stats_valid x"
    "stats_flips (isp_rest x) = stats_flips x" for x
    by (simp_all add: isp_rest_def)
  show "isp_io s' = isp_io s" "isp_tuning s' = isp_tuning s" "ltm_page_half s' = ltm_page_half s" "stats_cur s' = stats_cur s"
    "stats_done s' = stats_done s" "stats_valid s' = stats_valid s" "stats_flips s' = stats_flips s"
    using r [of s] r [of s'] assms by simp_all
qed

definition fills_only :: "isp_buf set \<Rightarrow> ar_isp \<Rightarrow> ar_isp \<Rightarrow> bool" where
  "fills_only S s s' \<longleftrightarrow>
     (\<exists>bs. set bs \<subseteq> S \<and> isp_trace s' = isp_trace s @ map Filled bs) \<and> isp_rest s' = isp_rest s \<and>
     same_dma (isp_bufs s) (isp_bufs s') \<and> (\<forall>b. b \<notin> S \<longrightarrow> isp_bufs s' b = isp_bufs s b) \<and>
     (Gamma \<notin> S \<longrightarrow> last_gamma s' = last_gamma s) \<and> (Drc \<notin> S \<longrightarrow> last_drc s' = last_drc s)"

lemma fills_onlyI:
  assumes "isp_trace s' = isp_trace s @ map Filled bs" "set bs \<subseteq> S" "isp_rest s' = isp_rest s"
    "same_dma (isp_bufs s) (isp_bufs s')" "\<And>b. b \<notin> S \<Longrightarrow> isp_bufs s' b = isp_bufs s b"
    "Gamma \<notin> S \<Longrightarrow> last_gamma s' = last_gamma s" "Drc \<notin> S \<Longrightarrow> last_drc s' = last_drc s"
  shows "fills_only S s s'"
  unfolding fills_only_def using assms by blast

lemma fills_only_refl [simp]: "fills_only S s s"
  by (rule fills_onlyI [where bs = "[]"]) simp_all

lemma fills_only_trans:
  assumes "fills_only S s t" "fills_only T t u" shows "fills_only (S \<union> T) s u"
proof -
  obtain bs cs where b: "set bs \<subseteq> S" "isp_trace t = isp_trace s @ map Filled bs"
    and c: "set cs \<subseteq> T" "isp_trace u = isp_trace t @ map Filled cs"
    using assms unfolding fills_only_def by blast
  show ?thesis
  proof (rule fills_onlyI [where bs = "bs @ cs"])
    show "same_dma (isp_bufs s) (isp_bufs u)" using assms same_dma_trans unfolding fills_only_def by blast
  qed (use assms b c in \<open>auto simp: fills_only_def\<close>)
qed

lemma fills_only_mono: "fills_only S s t \<Longrightarrow> S \<subseteq> T \<Longrightarrow> fills_only T s t"
  using fills_only_trans [of S s t T t] by (simp add: Un_absorb1)

lemma put_buf_fills: "fills_only {b} s (put_buf b m s)"
proof (cases "isp_bufs s b")
  case None
  then show ?thesis by (simp add: put_buf_def)
next
  case (Some c)
  show ?thesis
    by (rule fills_onlyI [where bs = "[b]"])
       (use Some in \<open>auto simp: put_buf_def log_event_def same_dma_def isp_rest_def\<close>)
qed

lemma put_buf_at: "isp_bufs s b = Some c \<Longrightarrow> isp_bufs (put_buf b m s) b = Some (c\<lparr>co_mem := m\<rparr>)"
  by (simp add: put_buf_def log_event_def)

lemma put_buf_keeps [simp]:
  "isp_tuning (put_buf b m s) = isp_tuning s" "last_gamma (put_buf b m s) = last_gamma s" "last_drc (put_buf b m s) = last_drc s"
  "isp_io (put_buf b m s) = isp_io s" "b' \<noteq> b \<Longrightarrow> isp_bufs (put_buf b m s) b' = isp_bufs s b'"
  "ltm_page_half (put_buf b m s) = ltm_page_half s" "stats_cur (put_buf b m s) = stats_cur s" "stats_done (put_buf b m s) = stats_done s"
  "stats_valid (put_buf b m s) = stats_valid s" "stats_flips (put_buf b m s) = stats_flips s"
  by (simp_all add: put_buf_def log_event_def split: option.split)

lemma fills_only_last:
  "fills_only S s t \<Longrightarrow> Gamma \<in> S \<Longrightarrow> fills_only S s (t\<lparr>last_gamma := g\<rparr>)"
  "fills_only S s t \<Longrightarrow> Drc \<in> S \<Longrightarrow> fills_only S s (t\<lparr>last_drc := d\<rparr>)"
  by (auto simp: fills_only_def isp_rest_def)

lemma put_fills: "fills_only S s t \<Longrightarrow> b \<in> S \<Longrightarrow> fills_only S s (put_buf b m t)"
  using fills_only_trans [of S s t "{b}"] put_buf_fills [of b t m] by (simp add: insert_absorb)

lemmas fill_rules = put_fills fills_only_last fills_only_refl

lemma fill_fills:
  "fills_only {Gamma} s (fst (ar_isp_fill_gamma p v blob (s, st)))"
  "fills_only {Drc} s (fst (ar_isp_fill_drc p v blob (s, st)))"
  "fills_only {Tone} s (fst (ar_isp_fill_tone (s, st)))"
  "fills_only {Ltm_page, Ltm_stats} s (ar_isp_fill_ltm s)"
  "fills_only {Lsc} s (fst (ar_isp_fill_lsc p v blob (s, st)))"
  "fills_only {Hdr_lsc} s (fst (ar_isp_fill_hdr_lsc p v (s, st)))"
  unfolding ar_isp_fill_gamma_def ar_isp_fill_drc_def ar_isp_fill_tone_def ar_isp_fill_ltm_def ar_isp_fill_lsc_def
    ar_isp_fill_hdr_lsc_def Let_def
  by (auto split: option.split prod.split intro!: fill_rules)

text \<open>Every fill of the pass, in order.\<close>

definition fill_all :: "isp_params \<Rightarrow> vendor_mem \<Rightarrow> ar_isp \<Rightarrow> ar_isp" where
  "fill_all p v s =
     (let blob = isp_tuning s;
          x2 = ar_isp_fill_drc p v blob (ar_isp_fill_gamma p v blob (s\<lparr>last_gamma := ar_isp_tone_none, last_drc := ar_isp_tone_none\<rparr>, no_fill));
          x3 = ar_isp_fill_tone x2;
          x5 = ar_isp_fill_lsc p v blob (ar_isp_fill_ltm (fst x3), snd x3)
      in fst (ar_isp_fill_hdr_lsc p v x5))"

lemma fill_all_fills: "fills_only UNIV s (fill_all p v s)"
proof -
  define blob where "blob = isp_tuning s"
  define s0 where "s0 = s\<lparr>last_gamma := ar_isp_tone_none, last_drc := ar_isp_tone_none\<rparr>"
  define x1 where "x1 = ar_isp_fill_gamma p v blob (s0, no_fill)"
  define x2 where "x2 = ar_isp_fill_drc p v blob x1"
  define x3 where "x3 = ar_isp_fill_tone x2"
  define x5 where "x5 = ar_isp_fill_lsc p v blob (ar_isp_fill_ltm (fst x3), snd x3)"
  have 0: "fills_only UNIV s s0" unfolding s0_def by (intro fill_rules) simp_all
  have 1: "fills_only UNIV s0 (fst x1)" unfolding x1_def by (rule fills_only_mono [OF fill_fills(1)]) simp
  have 2: "fills_only UNIV (fst x1) (fst x2)" unfolding x2_def using fill_fills(2) [of "fst x1" p v blob "snd x1"] fills_only_mono by simp
  have 3: "fills_only UNIV (fst x2) (fst x3)" unfolding x3_def using fill_fills(3) [of "fst x2" "snd x2"] fills_only_mono by simp
  have 4: "fills_only UNIV (fst x3) (ar_isp_fill_ltm (fst x3))" by (rule fills_only_mono [OF fill_fills(4)]) simp
  have 5: "fills_only UNIV (ar_isp_fill_ltm (fst x3)) (fst x5)" unfolding x5_def by (rule fills_only_mono [OF fill_fills(5)]) simp
  have 6: "fills_only UNIV (fst x5) (fill_all p v s)"
    unfolding fill_all_def Let_def x5_def x3_def x2_def x1_def s0_def blob_def
    using fill_fills(6) [of "fst x5" p v "snd x5"] fills_only_mono
    by (metis (no_types, lifting) subset_UNIV prod.collapse x5_def x3_def x2_def x1_def s0_def blob_def)
  show ?thesis
    using fills_only_trans [OF fills_only_trans [OF fills_only_trans [OF fills_only_trans [OF fills_only_trans [OF fills_only_trans [OF 0 1] 2] 3] 4] 5] 6]
    by simp
qed

text \<open>The writes that follow the barrier.\<close>

definition table_writes :: "isp_params \<Rightarrow> (isp_buf \<Rightarrow> coherent option) \<Rightarrow> nat \<Rightarrow> isp_reg list" where
  "table_writes p B half =
     buf_writes B Gamma gamma_writes @ buf_writes B Drc drc_writes @ buf_writes B Tone (tone_writes p) @
     buf_writes B Lsc lsc_writes @ buf_writes B Hdr_lsc hdr_lsc_writes @ stats_writes B half @ de3d_buf_writes B"

definition reset_stats :: "ar_isp \<Rightarrow> ar_isp" where
  "reset_stats s = s\<lparr>stats_cur := 0, stats_done := 0, stats_valid := False\<rparr>"

lemma reset_write: "reset_stats (write_list ws s) = write_list ws (reset_stats s)"
  by (simp add: reset_stats_def write_list_def)

lemma reset_stats_keeps [simp]:
  "isp_bufs (reset_stats s) = isp_bufs s" "isp_io (reset_stats s) = isp_io s" "isp_trace (reset_stats s) = isp_trace s"
  "isp_tuning (reset_stats s) = isp_tuning s" "last_gamma (reset_stats s) = last_gamma s" "last_drc (reset_stats s) = last_drc s"
  "ltm_page_half (reset_stats s) = ltm_page_half s" "stats_cur (reset_stats s) = 0" "\<not> stats_valid (reset_stats s)"
  by (simp_all add: reset_stats_def)

lemma log_event_keeps [simp]:
  "isp_bufs (log_event e s) = isp_bufs s" "isp_io (log_event e s) = isp_io s" "isp_trace (log_event e s) = isp_trace s @ [e]"
  "isp_tuning (log_event e s) = isp_tuning s" "last_gamma (log_event e s) = last_gamma s" "last_drc (log_event e s) = last_drc s"
  "ltm_page_half (log_event e s) = ltm_page_half s" "stats_cur (log_event e s) = stats_cur s" "stats_done (log_event e s) = stats_done s"
  "stats_valid (log_event e s) = stats_valid s" "stats_flips (log_event e s) = stats_flips s"
  by (simp_all add: log_event_def)

lemma tables_apply_form:
  assumes "p_tables p"
  shows "ar_isp_tables_apply p v s =
    write_list (table_writes p (isp_bufs (fill_all p v s)) (ltm_page_half s)) (reset_stats (log_event Barrier (fill_all p v s)))"
proof -
  have h: "ltm_page_half (fill_all p v s) = ltm_page_half s"
    using fill_all_fills isp_rest_fields(3) unfolding fills_only_def by blast
  have pub: "ar_isp_de3d_publish (ar_isp_stats_publish (ar_isp_publish_hdr_lsc (ar_isp_publish_lsc (ar_isp_publish_tone p
        (ar_isp_publish_drc (ar_isp_publish_gamma (log_event Barrier t))))))) =
      write_list (table_writes p (isp_bufs t) (ltm_page_half t)) (reset_stats (log_event Barrier t))" for t
    unfolding publish_writes stats_publish_writes de3d_publish_writes table_writes_def
    by (simp add: write_list_simps reset_write reset_stats_def [symmetric])
  have "ar_isp_tables_apply p v s = ar_isp_de3d_publish (ar_isp_stats_publish (ar_isp_publish_hdr_lsc (ar_isp_publish_lsc (ar_isp_publish_tone p
        (ar_isp_publish_drc (ar_isp_publish_gamma (log_event Barrier (fill_all p v s))))))))"
    using assms by (simp add: ar_isp_tables_apply_def fill_all_def Let_def case_prod_beta)
  then show ?thesis unfolding pub h .
qed

section \<open>Descriptors\<close>

text \<open>Every address register the block fetches from or writes through: register, buffer, displacement, for the
  statistics half and page half in use.\<close>

definition isp_descriptors :: "isp_params \<Rightarrow> nat \<Rightarrow> nat \<Rightarrow> (nat \<times> isp_buf \<times> nat) list" where
  "isp_descriptors p cur half =
     [(0x30, Gamma, 0), (0x40, Gamma, 0), (0x50, Gamma, 0), (0x60, Drc, 0), (0x20, Tone, AR_ISP_HDR_COMPANDER)] @
     (if p_hdr p then [(0x1c6c, Tone, 0)] else []) @
     [(0x4c34, Lsc, 0), (0x1e38, Hdr_lsc, 0), (0x6440, Rro, cur * AR_ISP_RRO_SIZE), (0x6474, Rro, cur * AR_ISP_RRO_SIZE),
      (0x6508, Rro_face, cur * AR_ISP_RRO_SIZE), (0x600c, Hist, cur * AR_ISP_HIST_SIZE), (0x2808, Ltm_page, half * AR_ISP_LTM_PAGE_SIZE),
      (0x280c, Ltm_stats, 0), (0x2e3c, De3d0, 0), (0x2e58, De3d0, 0), (0x2e44, De3d1, 0), (0x2e60, De3d1, 0), (0x2e80, De3d2, 0),
      (0x2e88, De3d2, 0)]"

text \<open>The descriptors of the buffers the driver has name them.\<close>

definition names_own :: "isp_params \<Rightarrow> ar_isp \<Rightarrow> bool" where
  "names_own p s \<longleftrightarrow>
     (\<forall>(off, b, d) \<in> set (isp_descriptors p (stats_cur s) (ltm_page_half s)).
        \<forall>c. isp_bufs s b = Some c \<longrightarrow> isp_io s off = lower_32_bits (co_dma c + of_nat d))"

lemmas pub_defs = gamma_writes_def drc_writes_def tone_writes_def lsc_writes_def hdr_lsc_writes_def arm_writes_def stats_writes_def
  de3d_buf_writes_def

lemma in_table_writes:
  "x \<in> set (table_writes p B half) \<longleftrightarrow>
     (\<exists>c. B Gamma = Some c \<and> x \<in> set (gamma_writes c)) \<or> (\<exists>c. B Drc = Some c \<and> x \<in> set (drc_writes c)) \<or>
     (\<exists>c. B Tone = Some c \<and> x \<in> set (tone_writes p c)) \<or> (\<exists>c. B Lsc = Some c \<and> x \<in> set (lsc_writes c)) \<or>
     (\<exists>c. B Hdr_lsc = Some c \<and> x \<in> set (hdr_lsc_writes c)) \<or> x \<in> set (stats_writes B half) \<or> x \<in> set (de3d_buf_writes B)"
  by (simp add: table_writes_def in_buf_writes)

lemma table_writes_at:
  assumes "(off, b, d) \<in> set (isp_descriptors p 0 half)" "B b = Some c"
  shows "(off, lower_32_bits (co_dma c + of_nat d)) \<in> set (table_writes p B half)"
    "(off, v) \<in> set (table_writes p B half) \<Longrightarrow> v = lower_32_bits (co_dma c + of_nat d)"
proof -
  note m = in_table_writes pub_defs in_buf_writes Let_def
  show "(off, lower_32_bits (co_dma c + of_nat d)) \<in> set (table_writes p B half)"
    using assms unfolding isp_descriptors_def
    by (simp split: if_splits; elim disjE conjE; simp add: m)
  show "v = lower_32_bits (co_dma c + of_nat d)" if "(off, v) \<in> set (table_writes p B half)"
    using assms that unfolding isp_descriptors_def
    by (simp split: if_splits; elim disjE conjE; simp add: m split: if_splits)
qed

lemma names_ownI:
  assumes "stats_cur s = 0" "\<And>off b d c. (off, b, d) \<in> set (isp_descriptors p 0 (ltm_page_half s)) \<Longrightarrow> isp_bufs s b = Some c \<Longrightarrow>
      isp_io s off = lower_32_bits (co_dma c + of_nat d)"
  shows "names_own p s"
  unfolding names_own_def using assms by auto

lemma table_writes_value:
  "(off, b, d) \<in> set (isp_descriptors p 0 half) \<Longrightarrow> B b = Some c \<Longrightarrow>
    ar_isp_apply (table_writes p B half) R off = lower_32_bits (co_dma c + of_nat d)"
  by (rule apply_value [OF table_writes_at(1) table_writes_at(2)])


text \<open>A machine that hands out every buffer.\<close>

definition example_env :: prep_env where
  "example_env = \<lparr>pe_mask = True, pe_pool = True, pe_alloc = (\<lambda>b. Some \<lparr>co_mem = \<lambda>_. 0, co_dma = of_nat (0x2c000000 + isp_buf_size b)\<rparr>),
     pe_firmware = Some (\<lambda>_. 1, AR_ISP_TUNING_BYTES)\<rparr>"

definition example_isp :: ar_isp where
  "example_isp = ar_isp_tables_prepare isp_defaults example_env isp_zeroed"


section \<open>The recorded selection\<close>

text \<open>A recorded selection describes the page: the buffer exists, and building it again from the tuning file
  would change no byte of it.\<close>

definition page_recorded :: "(mem \<Rightarrow> ar_isp_tone_pick \<Rightarrow> mem \<Rightarrow> mem) \<Rightarrow> isp_buf \<Rightarrow> ar_isp_tone_pick \<Rightarrow> ar_isp \<Rightarrow> bool" where
  "page_recorded build b pick s \<longleftrightarrow>
     (pick \<noteq> ar_isp_tone_none \<longrightarrow>
      (\<exists>blob c. isp_tuning s = Some blob \<and> isp_bufs s b = Some c \<and> build blob pick (co_mem c) = co_mem c))"

definition pages_recorded :: "ar_isp \<Rightarrow> bool" where
  "pages_recorded s \<longleftrightarrow> page_recorded build_gamma Gamma (last_gamma s) s \<and> page_recorded build_drc Drc (last_drc s) s"

lemma recorded_none [simp]: "page_recorded build b ar_isp_tone_none s"
  by (simp add: page_recorded_def)

lemma recorded_cong:
  "isp_tuning s' = isp_tuning s \<Longrightarrow> isp_bufs s' b = isp_bufs s b \<Longrightarrow> page_recorded build b pick s' = page_recorded build b pick s"
  by (simp add: page_recorded_def)

lemma fill_gamma_recorded:
  assumes "last_gamma s = ar_isp_tone_none"
  shows "page_recorded build_gamma Gamma (last_gamma (fst (ar_isp_fill_gamma p v (isp_tuning s) (s, st)))) (fst (ar_isp_fill_gamma p v (isp_tuning s) (s, st)))"
  using assms unfolding ar_isp_fill_gamma_def Let_def
  by (auto split: option.split prod.split simp: page_recorded_def put_buf_at build_again Option.bind_eq_Some_conv)

lemma fill_drc_recorded:
  assumes "last_drc s = ar_isp_tone_none"
  shows "page_recorded build_drc Drc (last_drc (fst (ar_isp_fill_drc p v (isp_tuning s) (s, st)))) (fst (ar_isp_fill_drc p v (isp_tuning s) (s, st)))"
  using assms unfolding ar_isp_fill_drc_def Let_def
  by (auto split: option.split prod.split simp: page_recorded_def put_buf_at build_again Option.bind_eq_Some_conv)

lemma fills_only_tuning: "fills_only S s t \<Longrightarrow> isp_tuning t = isp_tuning s"
  unfolding fills_only_def using isp_rest_fields(2) by blast

lemma fills_keep_recorded:
  assumes "fills_only S s t"
  shows "Gamma \<notin> S \<Longrightarrow> page_recorded build_gamma Gamma (last_gamma t) t = page_recorded build_gamma Gamma (last_gamma s) s"
    "Drc \<notin> S \<Longrightarrow> page_recorded build_drc Drc (last_drc t) t = page_recorded build_drc Drc (last_drc s) s"
  using assms fills_only_tuning [OF assms] by (simp_all add: fills_only_def page_recorded_def)

lemma fill_all_recorded: "pages_recorded (fill_all p v s)"
proof -
  define s0 where "s0 = s\<lparr>last_gamma := ar_isp_tone_none, last_drc := ar_isp_tone_none\<rparr>"
  define x1 where "x1 = ar_isp_fill_gamma p v (isp_tuning s) (s0, no_fill)"
  define x2 where "x2 = ar_isp_fill_drc p v (isp_tuning s) x1"
  define x3 where "x3 = ar_isp_fill_tone x2"
  define x5 where "x5 = ar_isp_fill_lsc p v (isp_tuning s) (ar_isp_fill_ltm (fst x3), snd x3)"
  have t0: "isp_tuning s = isp_tuning s0" by (simp add: s0_def)
  have f1: "fills_only {Gamma} s0 (fst x1)" unfolding x1_def by (rule fill_fills(1))
  have t1: "isp_tuning s = isp_tuning (fst x1)" using fills_only_tuning [OF f1] t0 by simp
  have g1: "page_recorded build_gamma Gamma (last_gamma (fst x1)) (fst x1)"
    unfolding x1_def t0 by (rule fill_gamma_recorded) (simp add: s0_def)
  have d1: "last_drc (fst x1) = ar_isp_tone_none" using f1 by (simp add: fills_only_def s0_def)
  have f2: "fills_only {Drc} (fst x1) (fst x2)" unfolding x2_def using fill_fills(2) [of "fst x1" p v "isp_tuning s" "snd x1"] by simp
  have g2: "page_recorded build_gamma Gamma (last_gamma (fst x2)) (fst x2)" using fills_keep_recorded(1) [OF f2] g1 by simp
  have d2: "page_recorded build_drc Drc (last_drc (fst x2)) (fst x2)"
    unfolding x2_def t1 using fill_drc_recorded [OF d1, of p v "snd x1"] by simp
  have f3: "fills_only {Tone} (fst x2) (fst x3)" unfolding x3_def using fill_fills(3) [of "fst x2" "snd x2"] by simp
  have f5: "fills_only {Lsc} (ar_isp_fill_ltm (fst x3)) (fst x5)" unfolding x5_def by (rule fill_fills(5))
  have f6: "fills_only {Hdr_lsc} (fst x5) (fst (ar_isp_fill_hdr_lsc p v x5))" using fill_fills(6) [of "fst x5" p v "snd x5"] by simp
  have f: "fills_only {Tone, Ltm_page, Ltm_stats, Lsc, Hdr_lsc} (fst x2) (fst (ar_isp_fill_hdr_lsc p v x5))"
    by (rule fills_only_mono [OF fills_only_trans [OF fills_only_trans [OF fills_only_trans [OF f3 fill_fills(4)] f5] f6]]) auto
  have e: "fill_all p v s = fst (ar_isp_fill_hdr_lsc p v x5)"
    by (simp add: fill_all_def Let_def x5_def x3_def x2_def x1_def s0_def)
  show ?thesis unfolding pages_recorded_def e using fills_keep_recorded [OF f] g2 d2 by simp
qed

lemma write_recorded: "pages_recorded (write_list ws s) = pages_recorded s" "pages_recorded (reset_stats s) = pages_recorded s"
  "pages_recorded (log_event e s) = pages_recorded s"
  by (simp_all add: pages_recorded_def page_recorded_def)

lemma tables_apply_recorded: "pages_recorded s \<Longrightarrow> pages_recorded (ar_isp_tables_apply p v s)"
proof (cases "p_tables p")
  case True
  show ?thesis unfolding tables_apply_form [OF True] write_recorded by (rule fill_all_recorded)
qed (simp add: ar_isp_tables_apply_def)

text \<open>A selection is never the sentinel.\<close>

lemma picks_real: "ar_isp_tone_gamma_pick p blob = Some g \<Longrightarrow> g \<noteq> ar_isp_tone_none"
  "ar_isp_tone_drc_pick p blob = Some g \<Longrightarrow> g \<noteq> ar_isp_tone_none"
proof -
  have n: "\<not> (0xffffffff :: u32) < 5" "\<not> (0xffffffff :: u32) < 6" "(0xffffffff :: u32) \<noteq> 0" by simp_all
  show "ar_isp_tone_gamma_pick p blob = Some g \<Longrightarrow> g \<noteq> ar_isp_tone_none"
    using tone_selection_facts(1) [of blob "word_of_int (p_tone_scalar p)"] n
    by (auto simp: ar_isp_tone_gamma_pick_def ar_isp_tone_none_def split: if_splits)
  show "ar_isp_tone_drc_pick p blob = Some g \<Longrightarrow> g \<noteq> ar_isp_tone_none"
    using tone_selection_facts(3) [of blob "word_of_int (p_tone_scalar p)"] n
    by (auto simp: ar_isp_tone_drc_pick_def ar_isp_tone_none_def split: if_splits)
qed

text \<open>The re-latch with its two decisions named.\<close>

definition want_gamma :: "isp_params \<Rightarrow> mem \<Rightarrow> ar_isp \<Rightarrow> ar_isp_tone_pick option" where
  "want_gamma p blob s = (case isp_bufs s Gamma of None \<Rightarrow> None | Some c \<Rightarrow> ar_isp_tone_gamma_pick p blob)"

definition want_drc :: "isp_params \<Rightarrow> mem \<Rightarrow> ar_isp \<Rightarrow> ar_isp_tone_pick option" where
  "want_drc p blob s = (case isp_bufs s Drc of None \<Rightarrow> None | Some c \<Rightarrow> ar_isp_tone_drc_pick p blob)"

definition pick_or_none :: "ar_isp_tone_pick option \<Rightarrow> ar_isp_tone_pick" where
  "pick_or_none w = (case w of None \<Rightarrow> ar_isp_tone_none | Some g \<Rightarrow> g)"

definition rebuild :: "(mem \<Rightarrow> ar_isp_tone_pick \<Rightarrow> mem \<Rightarrow> mem) \<Rightarrow> isp_buf \<Rightarrow> mem \<Rightarrow> ar_isp_tone_pick option \<Rightarrow> ar_isp \<Rightarrow> ar_isp" where
  "rebuild build b blob w s = (case w of None \<Rightarrow> s | Some g \<Rightarrow> put_buf b (build blob g (co_mem (the (isp_bufs s b)))) s)"

definition tone_rebuilt :: "isp_params \<Rightarrow> mem \<Rightarrow> ar_isp \<Rightarrow> ar_isp" where
  "tone_rebuilt p blob s =
     (rebuild build_drc Drc blob (want_drc p blob s) (rebuild build_gamma Gamma blob (want_gamma p blob s) s))
       \<lparr>last_gamma := pick_or_none (want_gamma p blob s), last_drc := pick_or_none (want_drc p blob s)\<rparr>"

definition tone_writes_of :: "isp_params \<Rightarrow> mem \<Rightarrow> ar_isp \<Rightarrow> isp_reg list" where
  "tone_writes_of p blob s =
     (if want_gamma p blob s = None then [] else buf_writes (isp_bufs s) Gamma gamma_writes) @
     (if want_drc p blob s = None then [] else buf_writes (isp_bufs s) Drc drc_writes)"

lemma rebuild_fills: "fills_only {b} s (rebuild build b blob w s)"
  by (auto simp: rebuild_def put_buf_fills split: option.split)

lemma tone_rebuilt_fills: "fills_only {Gamma, Drc} s (tone_rebuilt p blob s)"
  unfolding tone_rebuilt_def
  by (intro fill_rules(2,3) fills_only_mono [OF fills_only_trans [OF rebuild_fills rebuild_fills]]) auto

lemma gamma_drc_writes_dma: "co_dma c = co_dma c' \<Longrightarrow> gamma_writes c = gamma_writes c'" "co_dma c = co_dma c' \<Longrightarrow> drc_writes c = drc_writes c'"
  by (simp_all add: gamma_writes_def drc_writes_def)

lemma tone_apply_form:
  "ar_isp_tone_apply p force s =
     (case isp_tuning s of
        None \<Rightarrow> s
      | Some blob \<Rightarrow>
          if p_tables p \<and> ar_isp_tone_changed s (pick_or_none (want_gamma p blob s)) (pick_or_none (want_drc p blob s)) force
          then write_list (tone_writes_of p blob s) (log_event Barrier (tone_rebuilt p blob s)) else s)"
proof (cases "isp_tuning s")
  case (Some blob)
  let ?r = "tone_rebuilt p blob s"
  have f: "same_dma (isp_bufs s) (isp_bufs ?r)" using tone_rebuilt_fills unfolding fills_only_def by blast
  have b: "buf_writes (isp_bufs ?r) Gamma gamma_writes = buf_writes (isp_bufs s) Gamma gamma_writes"
    "buf_writes (isp_bufs ?r) Drc drc_writes = buf_writes (isp_bufs s) Drc drc_writes"
    by (rule buf_writes_cong [OF f gamma_drc_writes_dma(1)], assumption) (rule buf_writes_cong [OF f gamma_drc_writes_dma(2)], assumption)
  have pub: "(if want_drc p blob s = None then (if want_gamma p blob s = None then log_event Barrier ?r else ar_isp_publish_gamma (log_event Barrier ?r))
      else ar_isp_publish_drc (if want_gamma p blob s = None then log_event Barrier ?r else ar_isp_publish_gamma (log_event Barrier ?r))) =
      write_list (tone_writes_of p blob s) (log_event Barrier ?r)"
    by (simp add: publish_writes tone_writes_of_def write_list_simps b)
  have g: "isp_bufs (rebuild build_gamma Gamma blob w s) Drc = isp_bufs s Drc" for w by (simp add: rebuild_def split: option.split)
  show ?thesis
    unfolding ar_isp_tone_apply_def Some option.case
    apply (simp add: pub [symmetric] want_gamma_def [symmetric] want_drc_def [symmetric] pick_or_none_def [symmetric] Let_def)
    apply (simp add: tone_rebuilt_def rebuild_def pick_or_none_def g split: option.split)
    done
qed (simp add: ar_isp_tone_apply_def)

lemma rebuild_at: "isp_bufs s b = Some c \<Longrightarrow> isp_bufs (rebuild build b blob (Some g) s) b = Some (c\<lparr>co_mem := build blob g (co_mem c)\<rparr>)"
  by (simp add: rebuild_def put_buf_at)

lemma wants_real:
  "want_gamma p blob s = Some g \<Longrightarrow> g \<noteq> ar_isp_tone_none \<and> (\<exists>c. isp_bufs s Gamma = Some c)"
  "want_drc p blob s = Some d \<Longrightarrow> d \<noteq> ar_isp_tone_none \<and> (\<exists>c. isp_bufs s Drc = Some c)"
  using picks_real by (auto simp: want_gamma_def want_drc_def split: option.splits)

lemma tone_rebuilt_bufs:
  "isp_bufs (tone_rebuilt p blob s) Gamma = (case want_gamma p blob s of None \<Rightarrow> isp_bufs s Gamma
     | Some g \<Rightarrow> map_option (\<lambda>c. c\<lparr>co_mem := build_gamma blob g (co_mem c)\<rparr>) (isp_bufs s Gamma))"
  "isp_bufs (tone_rebuilt p blob s) Drc = (case want_drc p blob s of None \<Rightarrow> isp_bufs s Drc
     | Some d \<Rightarrow> map_option (\<lambda>c. c\<lparr>co_mem := build_drc blob d (co_mem c)\<rparr>) (isp_bufs s Drc))"
  "isp_tuning (tone_rebuilt p blob s) = isp_tuning s"
  "last_gamma (tone_rebuilt p blob s) = pick_or_none (want_gamma p blob s)" "last_drc (tone_rebuilt p blob s) = pick_or_none (want_drc p blob s)"
  using wants_real [of p blob s] by (auto simp: tone_rebuilt_def rebuild_def put_buf_at split: option.split)

lemma tone_rebuilt_recorded:
  assumes "isp_tuning s = Some blob" shows "pages_recorded (tone_rebuilt p blob s)"
  unfolding pages_recorded_def page_recorded_def tone_rebuilt_bufs assms
  using wants_real [of p blob s] by (auto simp: pick_or_none_def build_again split: option.splits)

text \<open>When the record says the selection has not moved, building again changes nothing.\<close>

lemma rebuild_same:
  assumes r: "pages_recorded s" and t: "isp_tuning s = Some blob"
    and l: "last_gamma s = pick_or_none (want_gamma p blob s)" "last_drc s = pick_or_none (want_drc p blob s)"
  shows "isp_bufs (tone_rebuilt p blob s) = isp_bufs s"
proof
  have g: "isp_bufs (tone_rebuilt p blob s) Gamma = isp_bufs s Gamma"
    using r l(1) t wants_real(1) [of p blob s] unfolding pages_recorded_def page_recorded_def tone_rebuilt_bufs
    by (auto simp: pick_or_none_def split: option.splits)
  have d: "isp_bufs (tone_rebuilt p blob s) Drc = isp_bufs s Drc"
    using r l(2) t wants_real(2) [of p blob s] unfolding pages_recorded_def page_recorded_def tone_rebuilt_bufs
    by (auto simp: pick_or_none_def split: option.splits)
  show "isp_bufs (tone_rebuilt p blob s) b = isp_bufs s b" for b
    using g d tone_rebuilt_fills [of s p blob] unfolding fills_only_def by (cases "b = Gamma \<or> b = Drc") auto
qed

lemma prepare_tone_none: "last_gamma (ar_isp_tables_prepare p env s) = ar_isp_tone_none" "last_drc (ar_isp_tables_prepare p env s) = ar_isp_tone_none"
proof -
  have f: "last_gamma (fold (ar_isp_alloc env) bs t) = last_gamma t" "last_drc (fold (ar_isp_alloc env) bs t) = last_drc t" for bs t
    by (induction bs arbitrary: t) (simp_all add: ar_isp_alloc_def split: option.split)
  show "last_gamma (ar_isp_tables_prepare p env s) = ar_isp_tone_none" "last_drc (ar_isp_tables_prepare p env s) = ar_isp_tone_none"
    by (simp_all add: ar_isp_tables_prepare_def Let_def f split: option.split prod.split)
qed

lemma tone_apply_recorded: "pages_recorded s \<Longrightarrow> pages_recorded (ar_isp_tone_apply p force s)"
  unfolding tone_apply_form using write_recorded tone_rebuilt_recorded by (simp split: option.split)



section \<open>The double-buffered tone-mapping page\<close>

text \<open>A half of the page buffer.\<close>

definition ltm_half :: "ar_isp \<Rightarrow> nat \<Rightarrow> u8 list option" where
  "ltm_half s h = map_option (\<lambda>c. map (\<lambda>i. co_mem c (h * AR_ISP_LTM_PAGE_SIZE + i)) [0..<AR_ISP_LTM_PAGE_SIZE]) (isp_bufs s Ltm_page)"

lemma half_xor: "h < 2 \<Longrightarrow> h XOR 1 = 1 - h" for h :: nat
  by (auto simp: less_2_cases_iff)

lemma ltm_publish_form:
  assumes "isp_bufs s Ltm_page = Some c" "h = ltm_page_half s XOR 1"
  shows "ar_isp_ltm_page_publish page s =
    Inr ((write_list [(0x2808, lower_32_bits (co_dma c + of_nat (h * AR_ISP_LTM_PAGE_SIZE)))]
      (put_buf Ltm_page (\<lambda>i. if h * AR_ISP_LTM_PAGE_SIZE \<le> i \<and> i < (h + 1) * AR_ISP_LTM_PAGE_SIZE
         then page (i - h * AR_ISP_LTM_PAGE_SIZE) else co_mem c i) s)) \<lparr>ltm_page_half := h\<rparr>)"
  unfolding ar_isp_ltm_page_publish_def Let_def assms(1) option.case assms(2) [symmetric] write_list_simps ..

text \<open>The publication stores the page in the half the descriptor does not name, leaves the other half alone, and then
  names the new one.\<close>

lemma ltm_publish_halves:
  assumes c: "isp_bufs s Ltm_page = Some c" and h: "ltm_page_half s < 2"
  obtains s' where "ar_isp_ltm_page_publish page s = Inr s'" "ltm_page_half s' = 1 - ltm_page_half s"
    "ltm_half s' (1 - ltm_page_half s) = Some (map page [0..<AR_ISP_LTM_PAGE_SIZE])"
    "ltm_half s' (ltm_page_half s) = ltm_half s (ltm_page_half s)"
    "isp_io s' = (isp_io s)(0x2808 := lower_32_bits (co_dma c + of_nat ((1 - ltm_page_half s) * AR_ISP_LTM_PAGE_SIZE)))"
    "isp_trace s' = isp_trace s @ [Filled Ltm_page, Wrote 0x2808 (lower_32_bits (co_dma c + of_nat ((1 - ltm_page_half s) * AR_ISP_LTM_PAGE_SIZE)))]"
    "map_option co_dma (isp_bufs s' Ltm_page) = Some (co_dma c)" "\<And>b. b \<noteq> Ltm_page \<Longrightarrow> isp_bufs s' b = isp_bufs s b"
    "isp_rest s' = isp_rest (s\<lparr>isp_io := isp_io s', ltm_page_half := ltm_page_half s'\<rparr>)"
    "last_gamma s' = last_gamma s" "last_drc s' = last_drc s"
proof -
  let ?s = "(write_list [(0x2808, lower_32_bits (co_dma c + of_nat ((1 - ltm_page_half s) * AR_ISP_LTM_PAGE_SIZE)))]
      (put_buf Ltm_page (\<lambda>i. if (1 - ltm_page_half s) * AR_ISP_LTM_PAGE_SIZE \<le> i \<and> i < (1 - ltm_page_half s + 1) * AR_ISP_LTM_PAGE_SIZE
         then page (i - (1 - ltm_page_half s) * AR_ISP_LTM_PAGE_SIZE) else co_mem c i) s)) \<lparr>ltm_page_half := 1 - ltm_page_half s\<rparr>"
  have p: "ar_isp_ltm_page_publish page s = Inr ?s" by (rule ltm_publish_form [OF c half_xor [OF h, symmetric]])
  have b: "isp_bufs ?s Ltm_page = Some (c\<lparr>co_mem := \<lambda>i. if (1 - ltm_page_half s) * AR_ISP_LTM_PAGE_SIZE \<le> i \<and> i < (1 - ltm_page_half s + 1) * AR_ISP_LTM_PAGE_SIZE
         then page (i - (1 - ltm_page_half s) * AR_ISP_LTM_PAGE_SIZE) else co_mem c i\<rparr>)"
    using c by (simp add: put_buf_at)
  show ?thesis
  proof (rule that [OF p])
    show "ltm_half ?s (1 - ltm_page_half s) = Some (map page [0..<AR_ISP_LTM_PAGE_SIZE])"
      unfolding ltm_half_def b by (simp del: upt_rec_numeral)
    have "ltm_page_half s = 0 \<or> ltm_page_half s = 1" using h by auto
    then show "ltm_half ?s (ltm_page_half s) = ltm_half s (ltm_page_half s)"
      unfolding ltm_half_def b c by (elim disjE) (simp_all del: upt_rec_numeral)
    show "isp_rest ?s = isp_rest (s\<lparr>isp_io := isp_io ?s, ltm_page_half := ltm_page_half ?s\<rparr>)"
      using c by (simp add: isp_rest_def write_list_def put_buf_def log_event_def)
    show "isp_trace ?s = isp_trace s @ [Filled Ltm_page, Wrote 0x2808 (lower_32_bits (co_dma c + of_nat ((1 - ltm_page_half s) * AR_ISP_LTM_PAGE_SIZE)))]"
      using c by (simp add: put_buf_def)
  qed (use b in \<open>simp_all add: ar_isp_apply_def\<close>)
qed

section \<open>Allocation and release balance\<close>

definition allocated :: "isp_event list \<Rightarrow> (isp_buf \<times> nat \<times> u64) list" where
  "allocated tr = concat (map (\<lambda>e. case e of Alloc b n d \<Rightarrow> [(b, n, d)] | _ \<Rightarrow> []) tr)"

definition freed :: "isp_event list \<Rightarrow> (isp_buf \<times> nat \<times> u64) list" where
  "freed tr = concat (map (\<lambda>e. case e of Freed b n d \<Rightarrow> [(b, n, d)] | _ \<Rightarrow> []) tr)"

lemma ledger_simps [simp]:
  "allocated [] = []" "freed [] = []" "allocated (xs @ ys) = allocated xs @ allocated ys" "freed (xs @ ys) = freed xs @ freed ys"
  "allocated (e # xs) = (case e of Alloc b n d \<Rightarrow> [(b, n, d)] | _ \<Rightarrow> []) @ allocated xs"
  "freed (e # xs) = (case e of Freed b n d \<Rightarrow> [(b, n, d)] | _ \<Rightarrow> []) @ freed xs"
  by (simp_all add: allocated_def freed_def)

lemma ledger_maps [simp]:
  "allocated (map Filled bs) = []" "freed (map Filled bs) = []"
  "allocated (map (\<lambda>(off, v). Wrote off v) ws) = []" "freed (map (\<lambda>(off, v). Wrote off v) ws) = []"
  by (induction bs, simp_all) (induction ws, auto)+

abbreviation all_bufs :: "isp_buf list" where
  "all_bufs \<equiv> [Gamma, Drc, Tone, Lsc, Hdr_lsc, Rro, Rro_face, Hist, Ltm_page, Ltm_stats, De3d0, De3d1, De3d2]"

text \<open>What the buffers that exist amount to, in the order of release.\<close>

definition held :: "(isp_buf \<Rightarrow> coherent option) \<Rightarrow> isp_buf list \<Rightarrow> (isp_buf \<times> nat \<times> u64) list" where
  "held B bs = concat (map (\<lambda>b. case B b of None \<Rightarrow> [] | Some c \<Rightarrow> [(b, isp_buf_size b, co_dma c)]) bs)"

lemma held_cong: "same_dma B B' \<Longrightarrow> held B' bs = held B bs"
proof (induction bs)
  case (Cons b bs)
  then show ?case using same_dma_None [OF Cons.prems, of b] same_dma_Some [OF Cons.prems, of b] by (cases "B b") (auto simp: held_def)
qed (simp add: held_def)

lemma alloc_fold:
  assumes "distinct bs" "\<forall>b \<in> set bs. isp_bufs s b = None"
  shows "allocated (isp_trace (fold (ar_isp_alloc env) bs s)) = allocated (isp_trace s) @ held (isp_bufs (fold (ar_isp_alloc env) bs s)) bs"
    "freed (isp_trace (fold (ar_isp_alloc env) bs s)) = freed (isp_trace s)"
    "\<And>b. b \<notin> set bs \<Longrightarrow> isp_bufs (fold (ar_isp_alloc env) bs s) b = isp_bufs s b"
    "count_list (isp_trace (fold (ar_isp_alloc env) bs s)) Fw_get = count_list (isp_trace s) Fw_get"
    "count_list (isp_trace (fold (ar_isp_alloc env) bs s)) Fw_put = count_list (isp_trace s) Fw_put"
    "isp_tuning (fold (ar_isp_alloc env) bs s) = isp_tuning s"
  using assms
proof (induction bs arbitrary: s)
  case Nil
  { case 1 then show ?case by (simp add: held_def) }
  { case 2 then show ?case by simp }
  { case 3 then show ?case by simp }
  { case 4 then show ?case by simp }
  { case 5 then show ?case by simp }
  { case 6 then show ?case by simp }
next
  case (Cons b bs)
  have t: "isp_bufs (ar_isp_alloc env b s) b' = isp_bufs s b'" if "b' \<noteq> b" for b' s using that by (simp add: ar_isp_alloc_def split: option.split)
  have h: "allocated (isp_trace (ar_isp_alloc env b s)) = allocated (isp_trace s) @ held (isp_bufs (ar_isp_alloc env b s)) [b]"
    "freed (isp_trace (ar_isp_alloc env b s)) = freed (isp_trace s)" "isp_tuning (ar_isp_alloc env b s) = isp_tuning s"
    "count_list (isp_trace (ar_isp_alloc env b s)) Fw_get = count_list (isp_trace s) Fw_get"
    "count_list (isp_trace (ar_isp_alloc env b s)) Fw_put = count_list (isp_trace s) Fw_put" for s
    by (simp_all add: ar_isp_alloc_def held_def split: option.split)
  have n: "distinct bs" "\<forall>b' \<in> set bs. isp_bufs (ar_isp_alloc env b s) b' = None"
    if "distinct (b # bs)" "\<forall>b' \<in> set (b # bs). isp_bufs s b' = None" for s
  proof -
    show "distinct bs" using that by simp
    show "\<forall>b' \<in> set bs. isp_bufs (ar_isp_alloc env b s) b' = None"
    proof
      fix b' assume "b' \<in> set bs"
      then show "isp_bufs (ar_isp_alloc env b s) b' = None" using that t [of b' s] by (cases "b' = b") auto
    qed
  qed
  have k: "isp_bufs (fold (ar_isp_alloc env) bs (ar_isp_alloc env b s)) b = isp_bufs (ar_isp_alloc env b s) b"
    if "distinct (b # bs)" "\<forall>b' \<in> set (b # bs). isp_bufs s b' = None" for s
    by (subst Cons.IH(3) [OF _ n [OF that]]) (use that in simp_all)
  { case 1 then show ?case using Cons.IH(1) [OF n [OF 1]] k [OF 1] h(1) by (simp add: held_def) }
  { case 2 then show ?case using Cons.IH(2) [OF n [OF 2]] h by simp }
  { case 3 then show ?case using Cons.IH(3) [OF _ n [OF 3(2,3)]] t by simp }
  { case 4 then show ?case using Cons.IH(4) [OF n [OF 4]] h by simp }
  { case 5 then show ?case using Cons.IH(5) [OF n [OF 5]] h by simp }
  { case 6 then show ?case using Cons.IH(6) [OF n [OF 6]] h by simp }
qed

text \<open>The books are in order: what was allocated is what exists, nothing is freed, the tuning file is held once.\<close>

definition ledger_ok :: "ar_isp \<Rightarrow> bool" where
  "ledger_ok s \<longleftrightarrow> allocated (isp_trace s) = held (isp_bufs s) all_bufs \<and> freed (isp_trace s) = [] \<and>
     count_list (isp_trace s) Fw_get = count_list (isp_trace s) Fw_put + (if isp_tuning s = None then 0 else 1)"

text \<open>Events that allocate and release nothing.\<close>

definition quiet :: "isp_event list \<Rightarrow> bool" where
  "quiet es \<longleftrightarrow> (\<forall>e \<in> set es. case e of Filled b \<Rightarrow> True | Barrier \<Rightarrow> True | Wrote off v \<Rightarrow> True | _ \<Rightarrow> False)"

lemma quiet_simps [simp]: "quiet []" "quiet (xs @ ys) \<longleftrightarrow> quiet xs \<and> quiet ys" "quiet (map Filled bs)" "quiet (map (\<lambda>(off, v). Wrote off v) ws)"
  "quiet [Barrier]" "quiet [Filled b]" "quiet [Wrote off v]"
  by (auto simp: quiet_def)

lemma quiet_ledger: "quiet es \<Longrightarrow> allocated es = [] \<and> freed es = [] \<and> count_list es Fw_get = 0 \<and> count_list es Fw_put = 0"
  by (induction es) (auto simp: quiet_def split: isp_event.splits)

lemma ledger_step:
  assumes "ledger_ok s" "isp_trace s' = isp_trace s @ es" "quiet es" "same_dma (isp_bufs s) (isp_bufs s')" "isp_tuning s' = isp_tuning s"
  shows "ledger_ok s'"
  using assms(1) quiet_ledger [OF assms(3)] unfolding ledger_ok_def assms(2,5) held_cong [OF assms(4)] by (simp add: count_list_append)

lemma wanted_filter: "wanted_bufs p = filter (\<lambda>b. b \<in> set (wanted_bufs p)) all_bufs"
  unfolding wanted_bufs_def by (simp split: if_split)

lemma held_filter: "(\<And>b. b \<in> set bs \<Longrightarrow> \<not> P b \<Longrightarrow> B b = None) \<Longrightarrow> held B (filter P bs) = held B bs"
  by (induction bs) (auto simp: held_def)

lemma prepare_ledger:
  assumes "isp_bufs z = (\<lambda>_. None)" "isp_tuning z = None"
    "allocated (isp_trace z) = [] \<and> freed (isp_trace z) = [] \<and> count_list (isp_trace z) Fw_get = 0 \<and> count_list (isp_trace z) Fw_put = 0"
  shows "ledger_ok (ar_isp_tables_prepare p env z)"
proof -
  have d: "distinct (wanted_bufs p)" unfolding wanted_bufs_def by (simp split: if_split) auto
  note q = assms(3)
  define s0 where "s0 = log_event Pool_get (z\<lparr>last_gamma := ar_isp_tone_none, last_drc := ar_isp_tone_none\<rparr>)"
  have n: "\<forall>b \<in> set (wanted_bufs p). isp_bufs s0 b = None" by (simp add: s0_def assms)
  note f = alloc_fold [where env = env, OF d n]
  let ?t = "fold (ar_isp_alloc env) (wanted_bufs p) s0"
  have "held (isp_bufs ?t) (wanted_bufs p) = held (isp_bufs ?t) all_bufs"
    by (subst wanted_filter, rule held_filter) (use alloc_fold(3) [where env = env, OF d n] in \<open>simp add: s0_def assms\<close>)
  then have a: "allocated (isp_trace ?t) = held (isp_bufs ?t) all_bufs" using f(1) q by (simp add: s0_def)
  have c: "count_list (isp_trace ?t) Fw_get = 0" "count_list (isp_trace ?t) Fw_put = 0" "freed (isp_trace ?t) = []"
    using f(2,4,5) q by (simp_all add: s0_def count_list_append)
  have k: "ledger_ok (z\<lparr>last_gamma := ar_isp_tone_none, last_drc := ar_isp_tone_none\<rparr>)"
    using q assms by (simp add: ledger_ok_def held_def)
  show ?thesis
    using k a c unfolding ar_isp_tables_prepare_def Let_def s0_def [symmetric]
    by (auto simp: ledger_ok_def count_list_append split: option.split prod.split)
qed

lemma free_fold:
  "isp_trace (fold ar_isp_free bs s) = isp_trace s @ map (\<lambda>(b, n, d). Freed b n d) (held (isp_bufs s) bs)"
  "isp_bufs (fold ar_isp_free bs s) = isp_bufs s" "isp_tuning (fold ar_isp_free bs s) = isp_tuning s"
  by (induction bs arbitrary: s) (auto simp: ar_isp_free_def held_def split: option.split)

lemma freed_map: "freed (map (\<lambda>(b, n, d). Freed b n d) xs) = xs" "allocated (map (\<lambda>(b, n, d). Freed b n d) xs) = []"
  "count_list (map (\<lambda>(b, n, d). Freed b n d) xs) Fw_get = 0" "count_list (map (\<lambda>(b, n, d). Freed b n d) xs) Fw_put = 0"
  by (induction xs) auto

lemma release_balances:
  assumes "ledger_ok s"
  shows "freed (isp_trace (ar_isp_tables_release s)) = allocated (isp_trace (ar_isp_tables_release s))"
    "count_list (isp_trace (ar_isp_tables_release s)) Fw_put = count_list (isp_trace (ar_isp_tables_release s)) Fw_get"
proof -
  define rel where "rel bs = (let s1 = fold ar_isp_free bs s; s2 = (if isp_tuning s1 = None then s1 else log_event Fw_put s1) in log_event Pool_put s2)" for bs
  have r: "ar_isp_tables_release s = rel all_bufs" by (simp only: ar_isp_tables_release_def rel_def)
  have "freed (isp_trace (rel bs)) = allocated (isp_trace (rel bs)) \<and> count_list (isp_trace (rel bs)) Fw_put = count_list (isp_trace (rel bs)) Fw_get"
    if "allocated (isp_trace s) = held (isp_bufs s) bs" for bs
    using assms that by (simp add: rel_def Let_def free_fold ledger_ok_def freed_map count_list_append)
  then show "freed (isp_trace (ar_isp_tables_release s)) = allocated (isp_trace (ar_isp_tables_release s))"
    "count_list (isp_trace (ar_isp_tables_release s)) Fw_put = count_list (isp_trace (ar_isp_tables_release s)) Fw_get"
    using assms unfolding r ledger_ok_def by blast+
qed

text \<open>The passes of this file keep the books.\<close>

lemma fills_ledger: "fills_only S s t \<Longrightarrow> ledger_ok s \<Longrightarrow> ledger_ok t"
  using ledger_step [of s t] fills_only_tuning [of S s t] unfolding fills_only_def by (metis quiet_simps(3))

lemma write_ledger: "ledger_ok (write_list ws s) = ledger_ok s" "ledger_ok (reset_stats s) = ledger_ok s" "ledger_ok (log_event Barrier s) = ledger_ok s"
  using quiet_ledger [OF quiet_simps(4)] by (simp_all add: ledger_ok_def count_list_append)

lemma tables_ledger: "ledger_ok s \<Longrightarrow> ledger_ok (ar_isp_tables_apply p v s)" "ledger_ok s \<Longrightarrow> ledger_ok (ar_isp_tone_apply p force s)"
proof -
  assume l: "ledger_ok s"
  show "ledger_ok (ar_isp_tables_apply p v s)"
  proof (cases "p_tables p")
    case True
    show ?thesis unfolding tables_apply_form [OF True] write_ledger using fills_ledger [OF fill_all_fills l] .
  qed (simp add: ar_isp_tables_apply_def l)
  show "ledger_ok (ar_isp_tone_apply p force s)"
    unfolding tone_apply_form using l write_ledger fills_ledger [OF tone_rebuilt_fills l] by (simp split: option.split)
qed

end
