(* ===== verification/Isp_Gates.thy ===== *)
theory Isp_Gates
  imports Isp_Pages
begin

text \<open>
  The stage gates of \<open>vendor-tables/ar-isp-gates.h\<close> and the two passes of \<open>ar-isp-main.c\<close> over them:
  \<open>ar_isp_gates_veto\<close>, which brings every gate to the state its tuning flag asks for (or only counts), and
  \<open>ar_isp_gates_show\<close>, which reports the disagreements.
\<close>

section \<open>The table\<close>

datatype ar_isp_gate_kind = AR_ISP_GATE_UNKNOWN | AR_ISP_GATE_BIT_ENABLE | AR_ISP_GATE_BIT_BYPASS | AR_ISP_GATE_WORD

datatype ar_isp_gate = Gate (gate_reg: nat) (gate_set_mask: u32) (gate_clear_mask: u32) (gate_kind: ar_isp_gate_kind)

datatype ar_isp_stage = Stage (stage_name: string) (stage_bank: nat) (stage_blob_gate: nat) (stage_gates: "ar_isp_gate list") (stage_flags: u32)

abbreviation AR_ISP_STAGE_HW_RB :: u32 where "AR_ISP_STAGE_HW_RB \<equiv> 0x04"

definition ar_isp_gates_acm :: "ar_isp_gate list" where
  "ar_isp_gates_acm = [Gate 0x7600 0x1 0x1 AR_ISP_GATE_BIT_BYPASS]"

definition ar_isp_gates_af_stats :: "ar_isp_gate list" where
  "ar_isp_gates_af_stats = [Gate 0x7400 0x1 0x1 AR_ISP_GATE_BIT_ENABLE, Gate 0x75ac 0x0 0x0 AR_ISP_GATE_WORD, Gate 0x75b0 0x0 0x0 AR_ISP_GATE_WORD]"

definition ar_isp_gates_awbs_stats :: "ar_isp_gate list" where
  "ar_isp_gates_awbs_stats = [Gate 0x6c00 0x1 0x1 AR_ISP_GATE_BIT_ENABLE]"

definition ar_isp_gates_binning_filter :: "ar_isp_gate list" where
  "ar_isp_gates_binning_filter = [Gate 0x3c40 0x1 0x1 AR_ISP_GATE_BIT_ENABLE]"

definition ar_isp_gates_birnr :: "ar_isp_gate list" where
  "ar_isp_gates_birnr = [Gate 0x1800 0x1 0x1 AR_ISP_GATE_BIT_BYPASS]"

definition ar_isp_gates_blc :: "ar_isp_gate list" where
  "ar_isp_gates_blc = [Gate 0x0 0x4 0x404 AR_ISP_GATE_BIT_ENABLE]"

definition ar_isp_gates_ccm1 :: "ar_isp_gate list" where
  "ar_isp_gates_ccm1 = [Gate 0x0 0x200000 0xa00000 AR_ISP_GATE_BIT_ENABLE]"

definition ar_isp_gates_cfa :: "ar_isp_gate list" where
  "ar_isp_gates_cfa = [Gate 0x800 0x10000 0x10000 AR_ISP_GATE_UNKNOWN]"

definition ar_isp_gates_cm :: "ar_isp_gate list" where
  "ar_isp_gates_cm = [Gate 0x4838 0x0 0x0 AR_ISP_GATE_WORD]"

definition ar_isp_gates_cm2 :: "ar_isp_gate list" where
  "ar_isp_gates_cm2 = [Gate 0x4800 0x1 0x1 AR_ISP_GATE_BIT_ENABLE]"

definition ar_isp_gates_cnf :: "ar_isp_gate list" where
  "ar_isp_gates_cnf = [Gate 0x3c64 0x1 0x1 AR_ISP_GATE_BIT_ENABLE]"

definition ar_isp_gates_compander :: "ar_isp_gate list" where
  "ar_isp_gates_compander = [Gate 0x0 0x20 0x2020 AR_ISP_GATE_BIT_ENABLE, Gate 0x0 0x2000 0x2020 AR_ISP_GATE_BIT_ENABLE]"

definition ar_isp_gates_de3d :: "ar_isp_gate list" where
  "ar_isp_gates_de3d = [Gate 0x2e00 0x1 0x1 AR_ISP_GATE_UNKNOWN]"

definition ar_isp_gates_decompander :: "ar_isp_gate list" where
  "ar_isp_gates_decompander = [Gate 0x0 0x20000 0x20000 AR_ISP_GATE_BIT_ENABLE]"

definition ar_isp_gates_derolling_stats :: "ar_isp_gate list" where
  "ar_isp_gates_derolling_stats = [Gate 0x3900 0x1 0x1 AR_ISP_GATE_BIT_ENABLE, Gate 0x3900 0x40 0x40 AR_ISP_GATE_BIT_ENABLE]"

definition ar_isp_gates_digigain1 :: "ar_isp_gate list" where
  "ar_isp_gates_digigain1 = [Gate 0x0 0x10 0x10 AR_ISP_GATE_BIT_BYPASS]"

definition ar_isp_gates_dpc :: "ar_isp_gate list" where
  "ar_isp_gates_dpc = [Gate 0xc10 0x1 0x1 AR_ISP_GATE_BIT_ENABLE, Gate 0xc10 0x2 0x2 AR_ISP_GATE_BIT_BYPASS, Gate 0xc10 0x4 0x4 AR_ISP_GATE_BIT_BYPASS]"

definition ar_isp_gates_drc :: "ar_isp_gate list" where
  "ar_isp_gates_drc = [Gate 0x0 0x80000 0x180000 AR_ISP_GATE_BIT_ENABLE, Gate 0x18 0x10000 0x10000 AR_ISP_GATE_BIT_ENABLE]"

definition ar_isp_gates_drc_stats :: "ar_isp_gate list" where
  "ar_isp_gates_drc_stats = [Gate 0x300c 0x40000 0x40000 AR_ISP_GATE_UNKNOWN]"

definition ar_isp_gates_face_rro_stats :: "ar_isp_gate list" where
  "ar_isp_gates_face_rro_stats = [Gate 0x64c8 0x0 0x0 AR_ISP_GATE_WORD]"

definition ar_isp_gates_fpn :: "ar_isp_gate list" where
  "ar_isp_gates_fpn = [Gate 0x4400 0x10 0x10 AR_ISP_GATE_UNKNOWN]"

definition ar_isp_gates_gamma :: "ar_isp_gate list" where
  "ar_isp_gates_gamma = [Gate 0x0 0x20000000 0x60000000 AR_ISP_GATE_BIT_ENABLE, Gate 0x18 0x20000 0x20000 AR_ISP_GATE_BIT_BYPASS]"

definition ar_isp_gates_gib :: "ar_isp_gate list" where
  "ar_isp_gates_gib = [Gate 0x2408 0x40000000 0x40000000 AR_ISP_GATE_BIT_BYPASS]"

definition ar_isp_gates_gtm2 :: "ar_isp_gate list" where
  "ar_isp_gates_gtm2 = [Gate 0x2800 0x10 0x10 AR_ISP_GATE_BIT_ENABLE, Gate 0x2800 0x800 0x800 AR_ISP_GATE_BIT_ENABLE]"

definition ar_isp_gates_hdr_awbs_stats :: "ar_isp_gate list" where
  "ar_isp_gates_hdr_awbs_stats = [Gate 0x1e4c 0x0 0x0 AR_ISP_GATE_WORD]"

definition ar_isp_gates_hdr_lsc :: "ar_isp_gate list" where
  "ar_isp_gates_hdr_lsc = [Gate 0x1df0 0x0 0x0 AR_ISP_GATE_WORD, Gate 0x1e34 0x0 0x0 AR_ISP_GATE_WORD]"

definition ar_isp_gates_ir_lms_horz :: "ar_isp_gate list" where
  "ar_isp_gates_ir_lms_horz = [Gate 0x8604 0x0 0x0 AR_ISP_GATE_WORD]"

definition ar_isp_gates_ir_nbbc :: "ar_isp_gate list" where
  "ar_isp_gates_ir_nbbc = [Gate 0x9000 0x1 0x1 AR_ISP_GATE_UNKNOWN]"

definition ar_isp_gates_ir_rnr :: "ar_isp_gate list" where
  "ar_isp_gates_ir_rnr = [Gate 0x8400 0x1 0x1 AR_ISP_GATE_BIT_BYPASS]"

definition ar_isp_gates_ir_stats :: "ar_isp_gate list" where
  "ar_isp_gates_ir_stats = [Gate 0x8a10 0x1 0x1 AR_ISP_GATE_UNKNOWN, Gate 0x8a24 0x1 0x1 AR_ISP_GATE_UNKNOWN, Gate 0x8a24 0x10 0x10 AR_ISP_GATE_UNKNOWN]"

definition ar_isp_gates_lee_lnr :: "ar_isp_gate list" where
  "ar_isp_gates_lee_lnr = [Gate 0x3cc8 0x1 0x1 AR_ISP_GATE_BIT_ENABLE]"

definition ar_isp_gates_lms :: "ar_isp_gate list" where
  "ar_isp_gates_lms = [Gate 0x7268 0x0 0x0 AR_ISP_GATE_WORD]"

definition ar_isp_gates_lsc :: "ar_isp_gate list" where
  "ar_isp_gates_lsc = [Gate 0x4c00 0x1 0x1 AR_ISP_GATE_BIT_ENABLE, Gate 0x4c24 0x4 0xff AR_ISP_GATE_BIT_ENABLE, Gate 0x4c24 0x10 0xff AR_ISP_GATE_BIT_ENABLE, Gate 0x4c24 0x20 0xff AR_ISP_GATE_BIT_ENABLE]"

definition ar_isp_gates_ltm :: "ar_isp_gate list" where
  "ar_isp_gates_ltm = [Gate 0x2800 0x10 0x10 AR_ISP_GATE_UNKNOWN, Gate 0x2800 0x800 0x800 AR_ISP_GATE_UNKNOWN]"

definition ar_isp_gates_lut3d :: "ar_isp_gate list" where
  "ar_isp_gates_lut3d = [Gate 0x5800 0x1 0x3 AR_ISP_GATE_BIT_ENABLE, Gate 0x580c 0x0 0x0 AR_ISP_GATE_WORD, Gate 0x5824 0x0 0x0 AR_ISP_GATE_WORD, Gate 0x583c 0x0 0x0 AR_ISP_GATE_WORD, Gate 0x5854 0x0 0x0 AR_ISP_GATE_WORD, Gate 0x5864 0x0 0x0 AR_ISP_GATE_WORD]"

definition ar_isp_gates_nuc_dpc :: "ar_isp_gate list" where
  "ar_isp_gates_nuc_dpc = [Gate 0x7238 0x80 0x80 AR_ISP_GATE_UNKNOWN]"

definition ar_isp_gates_qgg :: "ar_isp_gate list" where
  "ar_isp_gates_qgg = [Gate 0x7230 0x1 0xf AR_ISP_GATE_UNKNOWN]"

definition ar_isp_gates_raw_3dnr :: "ar_isp_gate list" where
  "ar_isp_gates_raw_3dnr = [Gate 0x4000 0x1 0x1 AR_ISP_GATE_BIT_ENABLE, Gate 0x4000 0x2 0x6 AR_ISP_GATE_UNKNOWN, Gate 0x4000 0x4 0x6 AR_ISP_GATE_UNKNOWN, Gate 0x4000 0x40 0x3fc0 AR_ISP_GATE_UNKNOWN, Gate 0x4000 0x80 0x3fc0 AR_ISP_GATE_UNKNOWN, Gate 0x4000 0x100 0x3fc0 AR_ISP_GATE_BIT_ENABLE, Gate 0x4000 0x200 0x3fc0 AR_ISP_GATE_BIT_ENABLE]"

definition ar_isp_gates_raw_his_stats :: "ar_isp_gate list" where
  "ar_isp_gates_raw_his_stats = [Gate 0x6000 0x1 0x1 AR_ISP_GATE_BIT_ENABLE]"

definition ar_isp_gates_rgb2yuv :: "ar_isp_gate list" where
  "ar_isp_gates_rgb2yuv = [Gate 0x0 0x80000000 0x90000000 AR_ISP_GATE_UNKNOWN]"

definition ar_isp_gates_rgb_his_stats :: "ar_isp_gate list" where
  "ar_isp_gates_rgb_his_stats = [Gate 0x5c00 0x1 0x1 AR_ISP_GATE_BIT_ENABLE]"

definition ar_isp_gates_rgb_max_stats :: "ar_isp_gate list" where
  "ar_isp_gates_rgb_max_stats = [Gate 0x5400 0x0 0x0 AR_ISP_GATE_WORD]"

definition ar_isp_gates_rnr :: "ar_isp_gate list" where
  "ar_isp_gates_rnr = [Gate 0x1800 0x1 0x1 AR_ISP_GATE_BIT_BYPASS]"

definition ar_isp_gates_rro_stats :: "ar_isp_gate list" where
  "ar_isp_gates_rro_stats = [Gate 0x6400 0x1 0x1 AR_ISP_GATE_BIT_ENABLE]"

definition ar_isp_gates_wb :: "ar_isp_gate list" where
  "ar_isp_gates_wb = [Gate 0x5000 0x0 0x0 AR_ISP_GATE_WORD]"

definition ar_isp_stages :: "ar_isp_stage list" where
  "ar_isp_stages =
     [Stage ''acm'' 0x7600 0xb00b8 ar_isp_gates_acm 0x0,
      Stage ''af_stats'' 0x7400 0xd5484 ar_isp_gates_af_stats 0x0,
      Stage ''awbs_stats'' 0x6c00 0xbbe98 ar_isp_gates_awbs_stats 0x0,
      Stage ''binning_filter'' 0x3c40 0xb6348 ar_isp_gates_binning_filter 0x0,
      Stage ''birnr'' 0x1800 0xb3550 ar_isp_gates_birnr 0x0,
      Stage ''blc'' 0x4200 0x24 ar_isp_gates_blc 0x0,
      Stage ''ccm1'' 0x3400 0x253fc ar_isp_gates_ccm1 0x0,
      Stage ''cfa'' 0x800 0x0 ar_isp_gates_cfa 0x2,
      Stage ''cm'' 0x4834 0x89cfc ar_isp_gates_cm 0x0,
      Stage ''cm2'' 0x4800 0xa1304 ar_isp_gates_cm2 0x0,
      Stage ''cnf'' 0x3c64 0x8e198 ar_isp_gates_cnf 0x0,
      Stage ''compander'' 0x0 0x6cc4 ar_isp_gates_compander 0x0,
      Stage ''de3d'' 0x2e00 0x0 ar_isp_gates_de3d 0x2,
      Stage ''decompander'' 0x0 0x906c ar_isp_gates_decompander 0x0,
      Stage ''derolling_stats'' 0x3900 0xb64f8 ar_isp_gates_derolling_stats 0x0,
      Stage ''digigain1'' 0x4600 0xb4000 ar_isp_gates_digigain1 0x0,
      Stage ''dpc'' 0xc00 0x6ce8 ar_isp_gates_dpc 0x4,
      Stage ''drc'' 0x3000 0x17a88 ar_isp_gates_drc 0x1,
      Stage ''drc_stats'' 0x300c 0x0 ar_isp_gates_drc_stats 0x2,
      Stage ''face_rro_stats'' 0x64c8 0xb64f8 ar_isp_gates_face_rro_stats 0x0,
      Stage ''fpn'' 0x4400 0x0 ar_isp_gates_fpn 0x2,
      Stage ''gamma'' 0x0 0x26afc ar_isp_gates_gamma 0x1,
      Stage ''gib'' 0x2400 0x243e4 ar_isp_gates_gib 0x0,
      Stage ''gtm2'' 0x2800 0x7abd8 ar_isp_gates_gtm2 0x1,
      Stage ''hdr_awbs_stats'' 0x1e44 0xbbe98 ar_isp_gates_hdr_awbs_stats 0x0,
      Stage ''hdr_lsc'' 0x1dd0 0xa16c0 ar_isp_gates_hdr_lsc 0x0,
      Stage ''ir_lms_horz'' 0x8604 0xb4ee4 ar_isp_gates_ir_lms_horz 0x0,
      Stage ''ir_nbbc'' 0x9000 0x0 ar_isp_gates_ir_nbbc 0x2,
      Stage ''ir_rnr'' 0x8400 0xb2bf4 ar_isp_gates_ir_rnr 0x0,
      Stage ''ir_stats'' 0x8a10 0x0 ar_isp_gates_ir_stats 0x2,
      Stage ''lee_lnr'' 0x3cc8 0x89e88 ar_isp_gates_lee_lnr 0x0,
      Stage ''lms'' 0x7264 0xb288c ar_isp_gates_lms 0x0,
      Stage ''lsc'' 0x4c00 0x9090 ar_isp_gates_lsc 0x1,
      Stage ''ltm'' 0x2800 0x0 ar_isp_gates_ltm 0x3,
      Stage ''lut3d'' 0x5800 0x7b634 ar_isp_gates_lut3d 0x0,
      Stage ''nuc_dpc'' 0x7200 0x0 ar_isp_gates_nuc_dpc 0x2,
      Stage ''qgg'' 0x7230 0x0 ar_isp_gates_qgg 0x2,
      Stage ''raw_3dnr'' 0x4000 0xb500c ar_isp_gates_raw_3dnr 0x0,
      Stage ''raw_his_stats'' 0x6000 0xb64f8 ar_isp_gates_raw_his_stats 0x0,
      Stage ''rgb2yuv'' 0x3c00 0x0 ar_isp_gates_rgb2yuv 0x2,
      Stage ''rgb_his_stats'' 0x5c00 0xb64f8 ar_isp_gates_rgb_his_stats 0x0,
      Stage ''rgb_max_stats'' 0x5400 0xb64f8 ar_isp_gates_rgb_max_stats 0x0,
      Stage ''rnr'' 0x1800 0x79d8 ar_isp_gates_rnr 0x0,
      Stage ''rro_stats'' 0x6400 0xb64f8 ar_isp_gates_rro_stats 0x0,
      Stage ''wb'' 0x5000 0x0 ar_isp_gates_wb 0x2]"

lemmas gates_defs = ar_isp_gates_acm_def ar_isp_gates_af_stats_def ar_isp_gates_awbs_stats_def ar_isp_gates_binning_filter_def ar_isp_gates_birnr_def ar_isp_gates_blc_def ar_isp_gates_ccm1_def ar_isp_gates_cfa_def ar_isp_gates_cm_def ar_isp_gates_cm2_def ar_isp_gates_cnf_def ar_isp_gates_compander_def ar_isp_gates_de3d_def ar_isp_gates_decompander_def ar_isp_gates_derolling_stats_def ar_isp_gates_digigain1_def ar_isp_gates_dpc_def ar_isp_gates_drc_def ar_isp_gates_drc_stats_def ar_isp_gates_face_rro_stats_def ar_isp_gates_fpn_def ar_isp_gates_gamma_def ar_isp_gates_gib_def ar_isp_gates_gtm2_def ar_isp_gates_hdr_awbs_stats_def ar_isp_gates_hdr_lsc_def ar_isp_gates_ir_lms_horz_def ar_isp_gates_ir_nbbc_def ar_isp_gates_ir_rnr_def ar_isp_gates_ir_stats_def ar_isp_gates_lee_lnr_def ar_isp_gates_lms_def ar_isp_gates_lsc_def ar_isp_gates_ltm_def ar_isp_gates_lut3d_def ar_isp_gates_nuc_dpc_def ar_isp_gates_qgg_def ar_isp_gates_raw_3dnr_def ar_isp_gates_raw_his_stats_def ar_isp_gates_rgb2yuv_def ar_isp_gates_rgb_his_stats_def ar_isp_gates_rgb_max_stats_def ar_isp_gates_rnr_def ar_isp_gates_rro_stats_def ar_isp_gates_wb_def

section \<open>The passes\<close>

text \<open>The word a gate asks for, from the word the register holds.\<close>

definition gate_fixed :: "bool \<Rightarrow> ar_isp_gate \<Rightarrow> u32 \<Rightarrow> u32" where
  "gate_fixed want g word =
     (case gate_kind g of
        AR_ISP_GATE_BIT_ENABLE \<Rightarrow> if want then word OR gate_set_mask g else word AND NOT (gate_clear_mask g)
      | AR_ISP_GATE_BIT_BYPASS \<Rightarrow> if want then word AND NOT (gate_clear_mask g) else word OR gate_set_mask g
      | AR_ISP_GATE_WORD \<Rightarrow> if \<not> want then 0 else word
      | AR_ISP_GATE_UNKNOWN \<Rightarrow> word)"

definition veto_gate :: "bool \<Rightarrow> bool \<Rightarrow> ar_isp_gate \<Rightarrow> regs \<times> nat \<Rightarrow> regs \<times> nat" where
  "veto_gate commit want g x =
     (case x of (R, deviations) \<Rightarrow>
      let word = R (gate_reg g); fixed = gate_fixed want g word
      in if fixed = word then (R, deviations)
         else (if commit then R(gate_reg g := fixed) else R, deviations + 1))"

definition veto_stage :: "mem \<Rightarrow> bool \<Rightarrow> ar_isp_stage \<Rightarrow> regs \<times> nat \<Rightarrow> regs \<times> nat" where
  "veto_stage blob commit st x =
     (if stage_blob_gate st = 0 \<or> stage_flags st AND AR_ISP_STAGE_HW_RB \<noteq> 0 then x
      else if stage_blob_gate st + 4 > AR_ISP_TUNING_BYTES then x
      else fold (veto_gate commit (ar_isp_get_le32 blob (stage_blob_gate st) \<noteq> 0)) (stage_gates st) x)"

definition ar_isp_gates_veto :: "mem option \<Rightarrow> bool \<Rightarrow> regs \<Rightarrow> regs \<times> nat" where
  "ar_isp_gates_veto tuning commit R =
     (case tuning of None \<Rightarrow> (R, 0) | Some blob \<Rightarrow> fold (veto_stage blob commit) ar_isp_stages (R, 0))"

text \<open>A line of the report: stage, register, word, state, what the file asks for, and the verdict where there is one.\<close>

type_synonym gate_line = "string \<times> nat \<times> u32 \<times> bool option \<times> bool option \<times> bool option"

definition gate_state :: "ar_isp_gate \<Rightarrow> u32 \<Rightarrow> bool option" where
  "gate_state g word =
     (case gate_kind g of
        AR_ISP_GATE_BIT_ENABLE \<Rightarrow> Some (word AND gate_set_mask g \<noteq> 0)
      | AR_ISP_GATE_BIT_BYPASS \<Rightarrow> Some (word AND gate_set_mask g = 0)
      | AR_ISP_GATE_WORD \<Rightarrow> Some (word \<noteq> 0)
      | AR_ISP_GATE_UNKNOWN \<Rightarrow> None)"

definition stage_want :: "mem option \<Rightarrow> ar_isp_stage \<Rightarrow> bool option" where
  "stage_want tuning st =
     (case tuning of
        None \<Rightarrow> None
      | Some blob \<Rightarrow> if stage_blob_gate st \<noteq> 0 \<and> stage_blob_gate st + 4 \<le> AR_ISP_TUNING_BYTES
                    then Some (ar_isp_get_le32 blob (stage_blob_gate st) \<noteq> 0) else None)"

definition show_gate :: "mem option \<Rightarrow> regs \<Rightarrow> ar_isp_stage \<Rightarrow> ar_isp_gate \<Rightarrow> gate_line" where
  "show_gate tuning R st g =
     (let word = R (gate_reg g); on = gate_state g word; want = stage_want tuning st
      in (stage_name st, gate_reg g, word, on, want,
          if want \<noteq> None \<and> on \<noteq> None \<and> stage_flags st AND AR_ISP_STAGE_HW_RB = 0 \<and>
             gate_kind g \<noteq> AR_ISP_GATE_WORD \<and> gate_kind g \<noteq> AR_ISP_GATE_UNKNOWN
          then Some (on = want) else None))"

definition ar_isp_gates_show :: "mem option \<Rightarrow> regs \<Rightarrow> gate_line list \<times> nat" where
  "ar_isp_gates_show tuning R =
     (let ls = concat (map (\<lambda>st. map (show_gate tuning R st) (stage_gates st)) ar_isp_stages)
      in (ls, length (filter (\<lambda>(_, _, _, _, _, verdict). verdict = Some False) ls)))"

section \<open>Settling\<close>

text \<open>The gates the veto looks at, in order, each with what the tuning file asks of it.\<close>

definition stage_active :: "ar_isp_stage \<Rightarrow> bool" where
  "stage_active st \<longleftrightarrow> stage_blob_gate st \<noteq> 0 \<and> stage_flags st AND AR_ISP_STAGE_HW_RB = 0 \<and> stage_blob_gate st + 4 \<le> AR_ISP_TUNING_BYTES"

definition stage_flag :: "mem \<Rightarrow> ar_isp_stage \<Rightarrow> bool" where
  "stage_flag blob st \<longleftrightarrow> ar_isp_get_le32 blob (stage_blob_gate st) \<noteq> 0"

definition stage_entries :: "mem \<Rightarrow> ar_isp_stage list \<Rightarrow> (bool \<times> ar_isp_gate) list" where
  "stage_entries blob sts = concat (map (\<lambda>st. if stage_active st then map (\<lambda>g. (stage_flag blob st, g)) (stage_gates st) else []) sts)"

lemma veto_entries: "fold (veto_stage blob commit) sts x = fold (\<lambda>(w, g). veto_gate commit w g) (stage_entries blob sts) x"
proof (induction sts arbitrary: x)
  case (Cons st sts)
  have "veto_stage blob commit st x =
      fold (\<lambda>(w, g). veto_gate commit w g) (if stage_active st then map (\<lambda>g. (stage_flag blob st, g)) (stage_gates st) else []) x"
    by (auto simp: veto_stage_def stage_active_def stage_flag_def fold_map comp_def not_le)
  then show ?case using Cons by (simp add: stage_entries_def)
qed (simp add: stage_entries_def)

text \<open>Two gates that can both be satisfied: different registers, disjoint bits, or the same demand.\<close>

definition gate_mask :: "ar_isp_gate \<Rightarrow> u32" where
  "gate_mask g = gate_set_mask g OR gate_clear_mask g"

definition compat :: "bool \<times> ar_isp_gate \<Rightarrow> bool \<times> ar_isp_gate \<Rightarrow> bool" where
  "compat a b \<longleftrightarrow>
     gate_reg (snd a) \<noteq> gate_reg (snd b) \<or> gate_kind (snd a) = AR_ISP_GATE_UNKNOWN \<or> gate_kind (snd b) = AR_ISP_GATE_UNKNOWN \<or>
     gate_mask (snd a) AND gate_mask (snd b) = 0 \<and> gate_kind (snd a) \<noteq> AR_ISP_GATE_WORD \<and> gate_kind (snd b) \<noteq> AR_ISP_GATE_WORD \<or>
     fst a = fst b \<and> gate_kind (snd a) = gate_kind (snd b)"

definition settled :: "bool \<times> ar_isp_gate \<Rightarrow> regs \<Rightarrow> bool" where
  "settled a R \<longleftrightarrow> gate_fixed (fst a) (snd a) (R (gate_reg (snd a))) = R (gate_reg (snd a))"

lemma fixed_again: "gate_fixed w g (gate_fixed w g x) = gate_fixed w g x"
  by (rule bit_word_eqI) (auto simp: gate_fixed_def bit_simps split: ar_isp_gate_kind.split)

text \<open>Outside its masks a bit gate changes nothing, and it reads nothing there.\<close>

lemma bits_apart: "m AND m' = 0 \<Longrightarrow> \<not> (bit m n \<and> bit m' n)" for m m' :: u32
  using bit_and_iff [of m m' n] by simp

lemma fixed_compat:
  assumes "compat (w, g) (w', h)" "gate_reg g = gate_reg h" "gate_fixed w g x = x"
  shows "gate_fixed w g (gate_fixed w' h x) = gate_fixed w' h x"
proof (cases "gate_kind g = AR_ISP_GATE_UNKNOWN \<or> gate_kind h = AR_ISP_GATE_UNKNOWN")
  case True
  then show ?thesis
  proof
    assume "gate_kind g = AR_ISP_GATE_UNKNOWN"
    then show ?thesis by (simp add: gate_fixed_def)
  next
    assume "gate_kind h = AR_ISP_GATE_UNKNOWN"
    then have "gate_fixed w' h x = x" by (simp add: gate_fixed_def)
    then show ?thesis using assms(3) by simp
  qed
next
  case u: False
  show ?thesis
proof (cases "w = w' \<and> gate_kind g = gate_kind h")
  case True
  then have s: "w' = w" "gate_kind h = gate_kind g" by simp_all
  have "bit (gate_fixed w g (gate_fixed w' h x)) n = bit (gate_fixed w' h x) n" if "n < 32" for n
    using arg_cong [OF assms(3), of "\<lambda>y. bit y n"] that unfolding s gate_fixed_def
    by (cases "gate_kind g"; cases w) (auto simp: bit_simps s)
  then show ?thesis by (intro bit_word_eqI) simp
next
  case False
  then have d: "gate_mask g AND gate_mask h = 0" "gate_kind g \<noteq> AR_ISP_GATE_WORD" "gate_kind h \<noteq> AR_ISP_GATE_WORD"
    using assms(1,2) u by (auto simp: compat_def)
  have "bit (gate_fixed w g (gate_fixed w' h x)) n = bit (gate_fixed w' h x) n" if "n < 32" for n
    using arg_cong [OF assms(3), of "\<lambda>y. bit y n"] bits_apart [OF d(1), of n] d(2,3) that unfolding gate_fixed_def gate_mask_def
    by (cases "gate_kind g"; cases "gate_kind h"; cases w; cases w') (auto simp: bit_simps)
  then show ?thesis by (intro bit_word_eqI) simp
qed
qed

lemma veto_gate_settles: "settled (w, g) (fst (veto_gate True w g x))"
  by (cases x) (auto simp: veto_gate_def settled_def Let_def fixed_again)

lemma veto_gate_keeps: "compat a (w', h) \<Longrightarrow> settled a (fst x) \<Longrightarrow> settled a (fst (veto_gate True w' h x))"
  using fixed_compat [of "fst a" "snd a" w' h "fst x (gate_reg h)"]
  by (cases x; cases "gate_reg (snd a) = gate_reg h") (auto simp: veto_gate_def settled_def Let_def)

lemma veto_keeps: "\<forall>b \<in> set es. compat a b \<Longrightarrow> settled a (fst x) \<Longrightarrow> settled a (fst (fold (\<lambda>(w, g). veto_gate True w g) es x))"
proof (induction es arbitrary: x)
  case (Cons b es)
  obtain w' h where b: "b = (w', h)" by (cases b)
  have "settled a (fst (veto_gate True w' h x))" by (rule veto_gate_keeps) (use Cons.prems b in simp_all)
  then show ?case using Cons b by simp
qed simp

lemma veto_settles:
  "sorted_wrt compat es \<Longrightarrow> a \<in> set es \<Longrightarrow> settled a (fst (fold (\<lambda>(w, g). veto_gate True w g) es x))"
proof (induction es arbitrary: x)
  case (Cons e es)
  obtain w g where e: "e = (w, g)" by (cases e)
  show ?case
  proof (cases "a \<in> set es")
    case True
    then show ?thesis using Cons by (simp add: e)
  next
    case False
    then have a: "a = e" using Cons.prems by simp
    then have "\<forall>b \<in> set es. compat a b" using Cons.prems(1) by simp
    then show ?thesis using veto_keeps [of es a "veto_gate True w g x"] veto_gate_settles [of w g x] a e by simp
  qed
qed simp

lemma veto_idle: "\<forall>a \<in> set es. settled a R \<Longrightarrow> fold (\<lambda>(w, g). veto_gate commit w g) es (R, n) = (R, n)"
  by (induction es) (auto simp: veto_gate_def settled_def Let_def)

lemma veto_dry: "fst (fold (\<lambda>(w, g). veto_gate False w g) es x) = fst x"
  by (induction es arbitrary: x) (auto simp: veto_gate_def Let_def split: prod.split)

text \<open>A judged gate at rest shows what was asked.\<close>

definition gate_wf :: "ar_isp_gate \<Rightarrow> bool" where
  "gate_wf g \<longleftrightarrow> gate_kind g \<in> {AR_ISP_GATE_WORD, AR_ISP_GATE_UNKNOWN} \<or> gate_set_mask g \<noteq> 0 \<and> gate_set_mask g AND NOT (gate_clear_mask g) = 0"

lemma settled_state:
  assumes "gate_wf g" "gate_fixed w g x = x" "gate_kind g \<noteq> AR_ISP_GATE_WORD" "gate_kind g \<noteq> AR_ISP_GATE_UNKNOWN"
  shows "gate_state g x = Some w"
proof -
  have m: "gate_set_mask g \<noteq> 0" "gate_set_mask g AND NOT (gate_clear_mask g) = 0" using assms by (auto simp: gate_wf_def)
  have set: "x AND gate_set_mask g = gate_set_mask g" if "x OR gate_set_mask g = x"
  proof (rule bit_word_eqI)
    show "bit (x AND gate_set_mask g) n = bit (gate_set_mask g) n" if "n < LENGTH(32)" for n
      using arg_cong [OF \<open>x OR gate_set_mask g = x\<close>, of "\<lambda>y. bit y n"] by (auto simp: bit_simps)
  qed
  have clear: "x AND gate_set_mask g = 0" if "x AND NOT (gate_clear_mask g) = x"
  proof -
    have "x AND gate_set_mask g = x AND (gate_set_mask g AND NOT (gate_clear_mask g))"
      by (subst that [symmetric]) (simp add: ac_simps)
    then show ?thesis using m(2) by simp
  qed
  show ?thesis
    using assms m(1) set clear by (cases "gate_kind g"; cases w) (auto simp: gate_fixed_def gate_state_def)
qed

text \<open>The table: well-formed gates, and all demands compatible once the two noise stages that share a bit agree.\<close>

lemma stage_gates_wf: "\<forall>st \<in> set ar_isp_stages. \<forall>g \<in> set (stage_gates st). gate_wf g"
  by (simp add: ar_isp_stages_def gates_defs gate_wf_def)

definition demands :: "(nat \<times> ar_isp_gate) list" where
  "demands = concat (map (\<lambda>st. if stage_active st then map (\<lambda>g. (stage_blob_gate st, g)) (stage_gates st) else []) ar_isp_stages)"

definition same_flag :: "nat \<Rightarrow> nat \<Rightarrow> bool" where
  "same_flag a b \<longleftrightarrow> a = b \<or> a = 0xb3550 \<and> b = 0x79d8"

definition demand_compat :: "nat \<times> ar_isp_gate \<Rightarrow> nat \<times> ar_isp_gate \<Rightarrow> bool" where
  "demand_compat a b \<longleftrightarrow> compat (True, snd a) (same_flag (fst a) (fst b), snd b)"

lemma demand_compat_code:
  "demand_compat (o1, Gate r s c k) (o2, Gate r' s' c' k') =
     (if r \<noteq> r' then True
      else k = AR_ISP_GATE_UNKNOWN \<or> k' = AR_ISP_GATE_UNKNOWN \<or>
        (s OR c) AND (s' OR c') = 0 \<and> k \<noteq> AR_ISP_GATE_WORD \<and> k' \<noteq> AR_ISP_GATE_WORD \<or> same_flag o1 o2 \<and> k = k')"
  by (auto simp: demand_compat_def compat_def gate_mask_def)

fun compat_all :: "nat \<times> ar_isp_gate \<Rightarrow> (nat \<times> ar_isp_gate) list \<Rightarrow> bool" where
  "compat_all x [] = True"
| "compat_all x (y # ys) = (if demand_compat x y then compat_all x ys else False)"

fun compat_pairs :: "(nat \<times> ar_isp_gate) list \<Rightarrow> bool" where
  "compat_pairs [] = True"
| "compat_pairs (x # xs) = (if compat_all x xs then compat_pairs xs else False)"

lemma compat_pairs_sorted: "compat_pairs xs \<Longrightarrow> sorted_wrt demand_compat xs"
proof -
  have "compat_all x xs \<Longrightarrow> \<forall>y \<in> set xs. demand_compat x y" for x xs by (induction xs) (auto split: if_splits)
  then show "compat_pairs xs \<Longrightarrow> sorted_wrt demand_compat xs" by (induction xs) (auto split: if_splits)
qed

lemma demands_compat: "sorted_wrt demand_compat demands"
  by (rule compat_pairs_sorted) (simp add: demands_def stage_active_def ar_isp_stages_def gates_defs demand_compat_code same_flag_def)

lemma stage_entries_demands: "stage_entries blob ar_isp_stages = map (\<lambda>(off, g). (ar_isp_get_le32 blob off \<noteq> 0, g)) demands"
  by (simp add: stage_entries_def demands_def map_concat stage_flag_def comp_def if_distrib cong: if_cong)

lemma stage_entries_compat:
  assumes "ar_isp_get_le32 blob 0xb3550 \<noteq> 0 \<longleftrightarrow> ar_isp_get_le32 blob 0x79d8 \<noteq> 0"
  shows "sorted_wrt compat (stage_entries blob ar_isp_stages)"
  unfolding stage_entries_demands sorted_wrt_map
proof (rule sorted_wrt_mono_rel [OF _ demands_compat])
  fix a b assume "demand_compat a b"
  then show "compat (case a of (off, g) \<Rightarrow> (ar_isp_get_le32 blob off \<noteq> 0, g)) (case b of (off, g) \<Rightarrow> (ar_isp_get_le32 blob off \<noteq> 0, g))"
    using assms by (cases a; cases b) (auto simp: demand_compat_def compat_def same_flag_def)
qed

text \<open>The judged lines of the report.\<close>

lemma show_settled:
  assumes "\<forall>a \<in> set (stage_entries blob ar_isp_stages). settled a R"
  shows "snd (ar_isp_gates_show (Some blob) R) = 0"
proof -
  have "v \<noteq> Some False"
    if l: "(n, r, word, on, want, v) = show_gate (Some blob) R st g" and st: "st \<in> set ar_isp_stages" and g: "g \<in> set (stage_gates st)"
    for n r word on want v st g
  proof (cases "stage_want (Some blob) st \<noteq> None \<and> gate_state g (R (gate_reg g)) \<noteq> None \<and> stage_flags st AND AR_ISP_STAGE_HW_RB = 0 \<and>
      gate_kind g \<noteq> AR_ISP_GATE_WORD \<and> gate_kind g \<noteq> AR_ISP_GATE_UNKNOWN")
    case True
    then have act: "stage_active st" "stage_want (Some blob) st = Some (stage_flag blob st)"
      by (auto simp: stage_active_def stage_want_def stage_flag_def split: if_splits)
    then have "(stage_flag blob st, g) \<in> set (stage_entries blob ar_isp_stages)" using st g by (auto simp: stage_entries_def)
    then have "gate_fixed (stage_flag blob st) g (R (gate_reg g)) = R (gate_reg g)" using assms by (force simp: settled_def)
    then have "gate_state g (R (gate_reg g)) = Some (stage_flag blob st)"
      using settled_state stage_gates_wf st g True by blast
    then show ?thesis using l act(2) by (simp add: show_gate_def Let_def split: if_splits)
  next
    case False
    then show ?thesis using l by (auto simp: show_gate_def Let_def split: if_splits)
  qed
  then show ?thesis
    by (auto simp: ar_isp_gates_show_def Let_def filter_empty_conv) (metis prod.collapse)
qed

lemma in_concat_map: "x \<in> set xs \<Longrightarrow> y \<in> set (f x) \<Longrightarrow> y \<in> set (concat (map f xs))"
  by auto

text \<open>Where the flags of the two noise stages that share a bit differ, one of them mismatches whatever the bit holds.\<close>

lemma show_conflict:
  assumes "ar_isp_get_le32 blob 0xb3550 \<noteq> 0 \<longleftrightarrow> ar_isp_get_le32 blob 0x79d8 = 0"
  shows "0 < snd (ar_isp_gates_show (Some blob) R)"
proof -
  define b where "b = Stage ''birnr'' 0x1800 0xb3550 ar_isp_gates_birnr 0"
  define r where "r = Stage ''rnr'' 0x1800 0x79d8 ar_isp_gates_rnr 0"
  let ?g = "Gate 0x1800 0x1 0x1 AR_ISP_GATE_BIT_BYPASS"
  have m: "b \<in> set ar_isp_stages" "r \<in> set ar_isp_stages" "?g \<in> set (stage_gates b)" "?g \<in> set (stage_gates r)"
    by (simp_all add: b_def r_def ar_isp_stages_def ar_isp_gates_birnr_def ar_isp_gates_rnr_def)
  let ?bad = "\<lambda>(n, r, w, s, want, v). v = Some False"
  have "?bad (show_gate (Some blob) R b ?g) \<or> ?bad (show_gate (Some blob) R r ?g)"
    using assms by (auto simp: show_gate_def stage_want_def gate_state_def b_def r_def Let_def)
  then have "\<exists>x \<in> {show_gate (Some blob) R b ?g, show_gate (Some blob) R r ?g}. ?bad x" by (simp only: bex_simps bex_empty simp_thms)
  then obtain x where x: "x = show_gate (Some blob) R b ?g \<or> x = show_gate (Some blob) R r ?g" "?bad x"
    by (elim bexE) (simp only: insert_iff empty_iff simp_thms)
  let ?ls = "concat (map (\<lambda>st. map (show_gate (Some blob) R st) (stage_gates st)) ar_isp_stages)"
  have l: "show_gate (Some blob) R st ?g \<in> set ?ls" if "st \<in> set ar_isp_stages" "?g \<in> set (stage_gates st)" for st
    by (rule in_concat_map [OF that(1)]) (simp only: set_map imageI [OF that(2)])
  have "x \<in> set ?ls" using x(1) by (elim disjE) (simp only: l [OF m(1,3)], simp only: l [OF m(2,4)])
  then have "x \<in> set (filter ?bad ?ls)" using x(2) by (simp only: set_filter mem_Collect_eq)
  then have "0 < length (filter ?bad ?ls)" by (rule length_pos_if_in_set)
  then show ?thesis by (simp add: ar_isp_gates_show_def Let_def)
qed

text \<open>The gate veto: without commit it writes no register.  With commit, and with the flags of birnr and rnr (which gate
  the same bit) saying the same, it leaves no gate disagreeing with the tuning file, whatever the
  registers held, and running it again finds nothing to change; with those two flags different no
  register state satisfies the report at all.\<close>

theorem gates_veto_settles:
  "fst (ar_isp_gates_veto t False R) = R \<and>
   (if ar_isp_get_le32 blob 0xb3550 \<noteq> 0 \<longleftrightarrow> ar_isp_get_le32 blob 0x79d8 \<noteq> 0
    then snd (ar_isp_gates_show (Some blob) (fst (ar_isp_gates_veto (Some blob) True R))) = 0 \<and>
      ar_isp_gates_veto (Some blob) c (fst (ar_isp_gates_veto (Some blob) True R)) = (fst (ar_isp_gates_veto (Some blob) True R), 0)
    else 0 < snd (ar_isp_gates_show (Some blob) R))"
proof -
  have "fst (ar_isp_gates_veto t False R) = R"
    by (simp add: ar_isp_gates_veto_def veto_entries veto_dry split: option.split)
  moreover {
    assume f: "ar_isp_get_le32 blob 0xb3550 \<noteq> 0 \<longleftrightarrow> ar_isp_get_le32 blob 0x79d8 \<noteq> 0"
    let ?R = "fst (ar_isp_gates_veto (Some blob) True R)"
    have s: "\<forall>a \<in> set (stage_entries blob ar_isp_stages). settled a ?R"
      using veto_settles [OF stage_entries_compat [OF f], of _ "(R, 0)"] by (simp add: ar_isp_gates_veto_def veto_entries)
    have "ar_isp_gates_veto (Some blob) c ?R = (?R, 0)"
      unfolding ar_isp_gates_veto_def [of "Some blob" c] option.case veto_entries by (rule veto_idle [OF s])
    then have "snd (ar_isp_gates_show (Some blob) ?R) = 0 \<and> ar_isp_gates_veto (Some blob) c ?R = (?R, 0)"
      using show_settled [OF s] by blast }
  ultimately show ?thesis using show_conflict [of blob R] by auto
qed

end
