(* ===== verification/Isp_Setup.thy ===== *)
theory Isp_Setup
  imports Isp_Stages
begin

text \<open>
  The register tables the driver replays: the setup run of \<open>ar-isp-defaults.h\<close> (in consecutive
  pieces, since the order of the writes matters), its correction pass and output pair, and the tables
  of \<open>ar-isp-main.c\<close> that are replayed around them.
\<close>

section \<open>The setup run\<close>

definition setup_run0 :: "isp_reg list" where
  "setup_run0 =
     [(0x000c, 0x82), (0x00d4, 0x6008000), (0x000c, 0x2), (0x1f3c, 0x1), (0x1d18, 0x4), (0x1f3c, 0x0),
      (0x00c8, 0x0), (0x00d0, 0x0), (0x00cc, 0xffffffff), (0x00d4, 0xffffffff), (0x00c8, 0x8004000), (0x00d0, 0x20310),
      (0x0a04, 0x0), (0x00b8, 0xffffffff), (0x00b8, 0xffffbfff), (0x00c4, 0xfff90019), (0x1cf0, 0x1), (0x00d8, 0x0),
      (0x00dc, 0x0), (0x0090, 0xffff0002), (0x7058, 0x84000), (0x7088, 0x3), (0x708c, 0x8), (0x7090, 0xe),
      (0x7094, 0xf), (0x7098, 0x17), (0x709c, 0x16), (0x70a0, 0x1f), (0x0004, 0x54870780), (0x0008, 0x54870780),
      (0x000c, 0x0), (0x0010, 0x1), (0x0014, 0x10000), (0x0018, 0x1), (0x001c, 0x0), (0x0020, 0x80000000),
      (0x0024, 0x780), (0x0028, 0x0), (0x002c, 0x0), (0x0030, 0x82000000), (0x0034, 0x200), (0x0038, 0x0),
      (0x003c, 0x0), (0x0040, 0x83000000), (0x0044, 0x200), (0x0048, 0x0), (0x004c, 0x0), (0x0050, 0x84000000),
      (0x0054, 0x200), (0x0058, 0x0), (0x005c, 0x0), (0x0060, 0x81000000), (0x0064, 0x100), (0x0068, 0x0),
      (0x0000, 0x90000000), (0x1c00, 0x438), (0x1c04, 0x780), (0x1c08, 0x0), (0x1c0c, 0xf0), (0x1c10, 0xf0),
      (0x1c14, 0xf0), (0x1c18, 0x1), (0x1c1c, 0x400), (0x1c20, 0x19), (0x1c24, 0x363), (0x1c28, 0x2aa),
      (0x1c2c, 0x10), (0x1c30, 0x13), (0x1c34, 0x1), (0x1c38, 0x1000), (0x1c3c, 0x19), (0x1c40, 0x20),
      (0x1c44, 0x44), (0x1c48, 0x3c), (0x1c4c, 0xc), (0x1c50, 0x20), (0x1c54, 0x1b), (0x1c58, 0x13),
      (0x1c5c, 0xf), (0x1c60, 0x0), (0x1c64, 0x0), (0x1c68, 0x0), (0x1c6c, 0x90000000), (0x1c70, 0x2),
      (0x1c74, 0x80), (0x1c78, 0x3), (0x1c7c, 0x91000000), (0x1c80, 0xcc), (0x1c84, 0x2), (0x1c88, 0x1800),
      (0x1c8c, 0x92000000), (0x1c90, 0xcc), (0x1c94, 0x2), (0x1c98, 0x1800), (0x1c9c, 0x0), (0x1ca0, 0xf4240),
      (0x1ca4, 0x10), (0x1ca8, 0x91000000), (0x1cac, 0x1800), (0x1cb0, 0x22c), (0x1cb4, 0x1), (0x1cb8, 0xcc),
      (0x1cbc, 0x2), (0x1cc0, 0x92000000), (0x1cc4, 0x1800), (0x1cc8, 0x22c), (0x1ccc, 0x2), (0x1cd0, 0xcc),
      (0x1cd4, 0x2), (0x1cd8, 0x93000000), (0x1cdc, 0x1800), (0x1ce0, 0x22c), (0x1ce4, 0x4), (0x1ce8, 0xcc),
      (0x1cec, 0x2), (0x1cf0, 0x0), (0x1cf4, 0x0), (0x1cf8, 0x1090), (0x1cfc, 0x1), (0x1d00, 0x12c),
      (0x1d04, 0x64), (0x1d08, 0x0), (0x1d0c, 0x0), (0x1d10, 0x1), (0x1d14, 0x0), (0x1d18, 0x0),
      (0x1d1c, 0x1), (0x1d14, 0x100), (0x1f98, 0x1), (0x1f9c, 0x1), (0x1fa0, 0x80), (0x1fa4, 0x8f),
      (0x1fa8, 0x32), (0x1fac, 0x10), (0x1fb0, 0x5), (0x1fb4, 0x0), (0x1fb8, 0x0), (0x1fbc, 0x0),
      (0x1fc0, 0x1), (0x1fc4, 0x0), (0x1fc8, 0xa), (0x1fcc, 0xa), (0x1fd0, 0xd8), (0x1fd4, 0x80000000),
      (0x1fd8, 0xf8), (0x1fdc, 0x1000)]"

definition setup_run1 :: "isp_reg list" where
  "setup_run1 =
     [(0x1fe0, 0xf000f0), (0x1fe4, 0xf000f0), (0x1fe8, 0xf000f0), (0x1fec, 0xfffff), (0x1ff0, 0xfffff), (0x1ff4, 0xfffff),
      (0x1ff8, 0x100010), (0x1c68, 0x0), (0x1c6c, 0x2b2e0200), (0x1c74, 0x80), (0x1c78, 0x3), (0x1c60, 0x1),
      (0x1f98, 0x0), (0x1dd0, 0x1), (0x1dd4, 0x0), (0x1dd8, 0x0), (0x1ddc, 0x1), (0x1de0, 0x0),
      (0x1de4, 0x0), (0x1de8, 0x0), (0x1dec, 0x0), (0x1df0, 0x1), (0x1df4, 0x0), (0x1df8, 0x0),
      (0x1dfc, 0x780), (0x1e00, 0x438), (0x1e04, 0x0), (0x1e08, 0x0), (0x1e0c, 0x780), (0x1e10, 0x438),
      (0x1e14, 0x0), (0x1e18, 0x0), (0x1e1c, 0x0), (0x1e20, 0x0), (0x1e24, 0x1), (0x1e28, 0xf),
      (0x1e2c, 0x34), (0x1e30, 0x0), (0x1e34, 0x0), (0x1e38, 0x85000000), (0x1e3c, 0x0), (0x1e40, 0x0),
      (0x1e38, 0x2b2e8c00), (0x1e34, 0x0), (0x1e2c, 0x34), (0x1e40, 0x1), (0x001c, 0x0), (0x0020, 0x80000000),
      (0x0024, 0x780), (0x0028, 0x0), (0x0020, 0x2b2e0c00), (0x0014, 0x10001), (0x0c00, 0x0), (0x0c04, 0x500280),
      (0x0c08, 0x3c01e0), (0x0c0c, 0x0), (0x0c10, 0x1), (0x0c14, 0x4c), (0x0c18, 0x0), (0x0c1c, 0x3c),
      (0x0c20, 0xc8), (0x0c24, 0x320), (0x0c28, 0x3c), (0x0c2c, 0xc8), (0x0c30, 0x320), (0x0c34, 0x514),
      (0x0c38, 0x190), (0x0c3c, 0x5dc), (0x0c40, 0x3e8), (0x0c44, 0x190), (0x0c48, 0x4b0), (0x0c4c, 0x33),
      (0x0c50, 0x20), (0x0c54, 0x40), (0x0c58, 0x80), (0x0c5c, 0x100), (0x0c60, 0x200), (0x0c64, 0x0),
      (0x0c68, 0x20), (0x0c6c, 0x60), (0x0c70, 0xa0), (0x0c74, 0xe0), (0x0c78, 0x1), (0x0c7c, 0x4c),
      (0x0c80, 0x0), (0x0c84, 0x3c), (0x0c88, 0xc8), (0x0c8c, 0x320), (0x0c90, 0x3c), (0x0c94, 0xc8),
      (0x0c98, 0x320), (0x0c9c, 0x514), (0x0ca0, 0x190), (0x0ca4, 0x5dc), (0x0ca8, 0x3e8), (0x0cac, 0x190),
      (0x0cb0, 0x4b0), (0x0cb4, 0x33), (0x0cb8, 0x20), (0x0cbc, 0x40), (0x0cc0, 0x80), (0x0cc4, 0x100),
      (0x0cc8, 0x200), (0x0ccc, 0x0), (0x0cd0, 0x20), (0x0cd4, 0x60), (0x0cd8, 0xa0), (0x0cdc, 0xe0),
      (0x0ce0, 0x0), (0x0ce4, 0x0), (0x0ce8, 0x0), (0x0cec, 0x0), (0x0cf0, 0x0), (0x0cf4, 0x0),
      (0x0cf8, 0x0), (0x0cfc, 0x0), (0x0d00, 0x0), (0x0d04, 0x0), (0x0c0c, 0x1), (0x0c0c, 0x0),
      (0x0d08, 0xff), (0x1800, 0xe8), (0x1804, 0x4380780), (0x1808, 0x0), (0x180c, 0x0), (0x1810, 0x0),
      (0x1814, 0x0), (0x1818, 0x0), (0x181c, 0x0), (0x1820, 0x0), (0x1824, 0x0), (0x1828, 0x0),
      (0x182c, 0x0), (0x1830, 0x0), (0x1834, 0x0), (0x1838, 0x8c00c80), (0x183c, 0x500), (0x1840, 0x51e140a),
      (0x1844, 0x8c00c80), (0x1848, 0x500), (0x184c, 0x50f0319), (0x1850, 0x8c00c80), (0x1854, 0x500), (0x1858, 0x50f0319),
      (0x185c, 0x8c00c80), (0x1860, 0x500)]"

definition setup_run2 :: "isp_reg list" where
  "setup_run2 =
     [(0x1864, 0x51e140a), (0x1868, 0x1a14100d), (0x186c, 0xa0503528), (0x1870, 0x30201), (0x1874, 0x60504), (0x1878, 0x90807),
      (0x187c, 0x14140a0a), (0x1880, 0x64503228), (0x1884, 0xd0c0b), (0x1888, 0x100f0e), (0x188c, 0x131211), (0x4c00, 0x3),
      (0x4c04, 0x4380780), (0x4c08, 0x0), (0x4c0c, 0x4380780), (0x4c10, 0x0), (0x4c14, 0x4380780), (0x4c18, 0x0),
      (0x4c1c, 0x4380780), (0x4c20, 0x0), (0x4c24, 0x0), (0x4c28, 0x34), (0x4c2c, 0x0), (0x4c30, 0x0),
      (0x4c34, 0x85000000), (0x4c38, 0x0), (0x4c3c, 0x0), (0x4c34, 0x2b2e8600), (0x4c24, 0x0), (0x4c30, 0x0),
      (0x4c28, 0x34), (0x4c3c, 0x1), (0x5000, 0x1), (0x5004, 0x1b3), (0x5008, 0x100), (0x500c, 0x219),
      (0x5010, 0x0), (0x5014, 0x0), (0x5018, 0x0), (0x501c, 0x1b3), (0x5020, 0x100), (0x5024, 0x219),
      (0x5028, 0x0), (0x502c, 0x0), (0x5030, 0x0), (0x5034, 0x1), (0x5038, 0x1), (0x3000, 0x111d1103),
      (0x3004, 0x2e1d0703), (0x3008, 0x1103071d), (0x300c, 0x3111d), (0x3010, 0x1215120c), (0x3014, 0x18150e0c), (0x3018, 0x120c0e15),
      (0x301c, 0xc1215), (0x3020, 0x1213120e), (0x3024, 0x1413100e), (0x3028, 0x120e1013), (0x302c, 0xe1213), (0x3030, 0x111d1103),
      (0x3034, 0x2e1d0703), (0x3038, 0x1103071d), (0x303c, 0x3111d), (0x3040, 0x1215120c), (0x3044, 0x18150e0c), (0x3048, 0x120c0e15),
      (0x304c, 0xc1215), (0x3050, 0x1213120e), (0x3054, 0x1413100e), (0x3058, 0x120e1013), (0x305c, 0xe1213), (0x3060, 0xfa00fa),
      (0x005c, 0x0), (0x0060, 0x81000000), (0x0064, 0x100), (0x0068, 0x0), (0x0060, 0x2b2e9200), (0x0064, 0x100),
      (0x0068, 0x0), (0x0018, 0x1), (0x0014, 0x10010), (0x0800, 0x1e), (0x0804, 0x1e), (0x0808, 0x1e),
      (0x080c, 0x1e), (0x0810, 0x798), (0x0814, 0x1e), (0x0818, 0x1e), (0x081c, 0x1e), (0x0820, 0x1e),
      (0x0824, 0x798), (0x0828, 0x0), (0x082c, 0x3c010e1), (0x0830, 0x3c010e1), (0x0834, 0x0), (0x0838, 0x7),
      (0x083c, 0x21), (0x0840, 0x1a), (0x0844, 0x1d), (0x0848, 0x4b), (0x084c, 0x35), (0x0850, 0x25),
      (0x0854, 0x12), (0x0858, 0x0), (0x085c, 0x1f4), (0x0860, 0xfa0), (0x0864, 0x2710), (0x0868, 0xdbba0),
      (0x086c, 0x1), (0x0870, 0x80), (0x0874, 0x0), (0x0878, 0x28), (0x087c, 0x6), (0x0880, 0x80),
      (0x0884, 0x0), (0x0888, 0x40), (0x088c, 0x40), (0x0890, 0x80), (0x0894, 0x0), (0x0898, 0x40),
      (0x089c, 0x40), (0x08a0, 0x73), (0x08a4, 0xd), (0x3400, 0x100), (0x3404, 0x0), (0x3408, 0x1000000),
      (0x340c, 0x0), (0x3410, 0x0), (0x3414, 0x100), (0x3418, 0x0), (0x341c, 0x0), (0x3420, 0x100),
      (0x3424, 0x0), (0x3428, 0x1000000), (0x342c, 0x0), (0x3430, 0x0), (0x3434, 0x100), (0x3438, 0x0),
      (0x343c, 0x0), (0x3440, 0x0), (0x3444, 0x0), (0x3448, 0x0), (0x344c, 0x0), (0x3800, 0x80f7020c),
      (0x3804, 0x8017), (0x3808, 0x1978051)]"

definition setup_run3 :: "isp_reg list" where
  "setup_run3 =
     [(0x380c, 0x8048), (0x3810, 0x80868003), (0x3814, 0x187), (0x3818, 0x0), (0x381c, 0x0), (0x3820, 0x80f7020c),
      (0x3824, 0x8017), (0x3828, 0x1978051), (0x382c, 0x8048), (0x3830, 0x80868003), (0x3834, 0x187), (0x3838, 0x0),
      (0x383c, 0x0), (0x3840, 0x0), (0x3844, 0x0), (0x3848, 0x0), (0x384c, 0x0), (0x002c, 0x0),
      (0x0030, 0x82000000), (0x0034, 0x200), (0x0038, 0x0), (0x003c, 0x0), (0x0040, 0x83000000), (0x0044, 0x200),
      (0x0048, 0x0), (0x004c, 0x0), (0x0050, 0x84000000), (0x0054, 0x200), (0x0058, 0x0), (0x0030, 0x2b2ec600),
      (0x0040, 0x2b2ec600), (0x0050, 0x2b2ec600), (0x0034, 0x80), (0x0038, 0x0), (0x0044, 0x80), (0x0048, 0x0),
      (0x0054, 0x80), (0x0058, 0x0), (0x0018, 0x1), (0x0014, 0x1000e), (0x5800, 0x3), (0x5804, 0x280),
      (0x5808, 0x0), (0x580c, 0x0), (0x5814, 0x0), (0x5818, 0x0), (0x581c, 0x280), (0x5820, 0x0),
      (0x5824, 0x0), (0x582c, 0x0), (0x5830, 0x0), (0x5834, 0x280), (0x5838, 0x0), (0x583c, 0x0),
      (0x5844, 0x0), (0x5848, 0x0), (0x584c, 0x280), (0x5850, 0x0), (0x5854, 0x0), (0x585c, 0x0),
      (0x5860, 0x0), (0x5864, 0x0), (0x5868, 0x0), (0x5804, 0x280), (0x580c, 0x0), (0x581c, 0x280),
      (0x5824, 0x0), (0x5834, 0x280), (0x583c, 0x0), (0x584c, 0x280), (0x5854, 0x0), (0x5864, 0x0),
      (0x5818, 0x1), (0x5830, 0x1), (0x5848, 0x1), (0x5860, 0x1), (0x3c00, 0x2590132), (0x3c04, 0x74),
      (0x3c08, 0x815380ae), (0x3c0c, 0x2000200), (0x3c10, 0x81ae0200), (0x3c14, 0x2008053), (0x3c18, 0x2590132), (0x3c1c, 0x74),
      (0x3c20, 0x815380ae), (0x3c24, 0x2000200), (0x3c28, 0x81ae0200), (0x3c2c, 0x2008053), (0x4834, 0x0), (0x4838, 0x1),
      (0x483c, 0x29), (0x4840, 0x20), (0x4844, 0x0), (0x4848, 0x200), (0x484c, 0x200), (0x4850, 0x0),
      (0x2800, 0x207af), (0x2804, 0x7800438), (0x2808, 0x15000000), (0x280c, 0x16000000), (0x2810, 0x22222), (0x2814, 0x11111),
      (0x2818, 0x8888), (0x281c, 0x22222), (0x2820, 0x11111), (0x2824, 0x795c), (0x2828, 0x3cae), (0x282c, 0x795c),
      (0x2830, 0x1f), (0x2834, 0x0), (0x2838, 0x0), (0x283c, 0x0), (0x2840, 0x0), (0x2844, 0x1),
      (0x2808, 0x2b2f8c00), (0x2e00, 0x1f070001), (0x2e04, 0x7800438), (0x2e08, 0xf00087), (0x2e0c, 0x7800438), (0x2e10, 0x4002666),
      (0x2e14, 0x1e3c96b4), (0x2e18, 0x4002666), (0x2e1c, 0x28), (0x2e20, 0x2000cc), (0x2e24, 0x8c002d), (0x2e28, 0xa0a0a),
      (0x2e2c, 0x102040), (0x2e30, 0x102040), (0x2e34, 0x20), (0x2e38, 0xa00), (0x2e3c, 0x0), (0x2e40, 0xa00),
      (0x2e44, 0x0), (0x2e48, 0x1180032), (0x2e4c, 0x9113fff), (0x2e50, 0xf00087), (0x2e54, 0x78780004), (0x2e58, 0x0),
      (0x2e5c, 0xa00), (0x2e60, 0x0), (0x2e64, 0xa00), (0x2e68, 0xa), (0x2e6c, 0xf), (0x2e70, 0xf),
      (0x2e74, 0x1), (0x2e78, 0x202a6a6)]"

definition setup_run4 :: "isp_reg list" where
  "setup_run4 =
     [(0x2e7c, 0x0), (0x2e80, 0x0), (0x2e84, 0x1e0), (0x2e88, 0x0), (0x2e8c, 0x1e0), (0x2e90, 0x3000000),
      (0x3c64, 0xa0d29), (0x3c68, 0x1), (0x3c6c, 0xa6), (0x3c70, 0x12c0164), (0x3c74, 0xa0d25), (0x3c78, 0x1),
      (0x3c7c, 0xa6), (0x3c80, 0x12c0164), (0x3c84, 0x2f800), (0x3c88, 0xd800), (0x3c8c, 0x80100), (0x3c90, 0x100),
      (0x3c94, 0x22cc01), (0x3c98, 0x401c5), (0x3c9c, 0x25b966), (0x3ca0, 0x40000), (0x3cc8, 0x20305), (0x3ccc, 0x1fff0000),
      (0x3cd0, 0x1ff81ffb), (0x3cd4, 0x1fee1fff), (0x3cd8, 0x1f6a1fb4), (0x3cdc, 0x1fb41ffb), (0x3ce0, 0x1fb11f06), (0x3ce4, 0x1f6a1ff8),
      (0x3ce8, 0xa741fb1), (0x3cec, 0x1f8e1fca), (0x3cf0, 0x1f461f6e), (0x3cf4, 0x1ee21ee2), (0x3cf8, 0xa61ee2), (0x3cfc, 0x1ee202b6),
      (0x3d00, 0x6a402b6), (0x3d04, 0x0), (0x3d08, 0x0), (0x3d0c, 0x0), (0x3d10, 0x0), (0x3d14, 0xc000a),
      (0x3d18, 0x2700190), (0x3d1c, 0x1704d), (0x3d20, 0x1fc70), (0x3d24, 0x196800), (0x3d28, 0xc7480), (0x3d2c, 0x0),
      (0x3d30, 0x50000), (0x3d34, 0xfffa0000), (0x3d38, 0x0), (0x3d3c, 0x23c85), (0x3d40, 0x2b4a3), (0x3d44, 0xdf800),
      (0x3d48, 0x18d080), (0x3d4c, 0x0), (0x3d50, 0x80000), (0x3d54, 0xfff70000), (0x3d58, 0x0), (0x3d5c, 0x920072),
      (0x3d60, 0xc0c0606), (0x3d64, 0x26201913), (0x3d68, 0x332c2c26), (0x3d6c, 0x40393333), (0x3d70, 0x40404040), (0x3d74, 0x40404040),
      (0x3d78, 0x40404040), (0x3d7c, 0x40404040), (0x4800, 0x3), (0x4804, 0x14a9), (0x4808, 0x4020), (0x480c, 0x0),
      (0x4810, 0x80200), (0x4814, 0x80200), (0x4818, 0x0), (0x481c, 0x10), (0x4820, 0x20), (0x4824, 0x200),
      (0x4828, 0x300), (0x482c, 0x40), (0x4830, 0x4), (0x7600, 0x1), (0x7604, 0x132), (0x7608, 0x259),
      (0x760c, 0x74), (0x7610, 0x0), (0x7614, 0x80ae), (0x7618, 0x8153), (0x761c, 0x200), (0x7620, 0x200),
      (0x7624, 0x200), (0x7628, 0x81ae), (0x762c, 0x8053), (0x7630, 0x200), (0x7634, 0x1009), (0x7638, 0x0),
      (0x763c, 0x166a), (0x7640, 0x0), (0x7644, 0xfff), (0x7648, 0x857b), (0x764c, 0x8b6d), (0x7650, 0x200),
      (0x7654, 0x100b), (0x7658, 0x1c5f), (0x765c, 0xd), (0x7660, 0x200), (0x7664, 0x80808080), (0x7668, 0x80808080),
      (0x766c, 0x80808080), (0x7670, 0x80808080), (0x7674, 0x80808080), (0x7678, 0x80808080), (0x767c, 0x800080), (0x7680, 0x800080),
      (0x7684, 0x800080), (0x7688, 0x800080), (0x768c, 0x800080), (0x7690, 0x800080), (0x7694, 0x800080), (0x7698, 0x800080),
      (0x769c, 0x800080), (0x76a0, 0x800080), (0x76a4, 0x800080), (0x76a8, 0x800080), (0x76ac, 0x800080), (0x76b0, 0x800080),
      (0x76b4, 0x800080), (0x76b8, 0x800080), (0x76bc, 0x800080), (0x76c0, 0x800080), (0x76c4, 0x800080), (0x76c8, 0x800080),
      (0x76cc, 0x800080), (0x76d0, 0x800080), (0x76d4, 0x800080), (0x76d8, 0x800080), (0x7200, 0x1), (0x7204, 0x280),
      (0x7208, 0x200), (0x720c, 0x0), (0x7210, 0x120), (0x7214, 0x0), (0x7218, 0x0), (0x721c, 0x4e000000),
      (0x7220, 0x500), (0x7224, 0x4e100000)]"

definition setup_run5 :: "isp_reg list" where
  "setup_run5 =
     [(0x7228, 0x500), (0x722c, 0x0), (0x7230, 0x0), (0x7234, 0x0), (0x7238, 0x8), (0x723c, 0x0),
      (0x7240, 0x280), (0x7244, 0x200), (0x7248, 0x4e200000), (0x724c, 0x500), (0x7250, 0xf00), (0x7254, 0x2d2),
      (0x7258, 0x0), (0x725c, 0x3fff), (0x7260, 0x0), (0x7264, 0x0), (0x7268, 0x0), (0x726c, 0x10),
      (0x7270, 0x1), (0x7274, 0x280), (0x7278, 0x40), (0x727c, 0x0), (0x7400, 0x0), (0x7404, 0x8080808),
      (0x7408, 0x223), (0x740c, 0x0), (0x7410, 0x3b003b), (0x7414, 0x3b003b), (0x7418, 0x0), (0x741c, 0x0),
      (0x7420, 0x10001), (0x7424, 0x10001), (0x7428, 0x3ff0001), (0x742c, 0x3ff03ff), (0x7430, 0x3ff03ff), (0x7434, 0x10001),
      (0x7438, 0x10001), (0x743c, 0x3ff0001), (0x7440, 0x3ff03ff), (0x7444, 0x3ff03ff), (0x7448, 0x10001), (0x744c, 0x10001),
      (0x7450, 0x3ff0001), (0x7454, 0x3ff03ff), (0x7458, 0x3ff03ff), (0x745c, 0x10001), (0x7460, 0x10001), (0x7464, 0x3ff0001),
      (0x7468, 0x3ff03ff), (0x746c, 0x3ff), (0x7470, 0x203ff), (0x7474, 0x3ff), (0x7478, 0x2a74), (0x747c, 0x3ab19),
      (0x7480, 0x2a74), (0x7484, 0x7748), (0x7488, 0x3c73b), (0x748c, 0x4e8f), (0x7490, 0x362e0), (0x7494, 0x4e8f),
      (0x7498, 0x6e75), (0x749c, 0x3d02b), (0x74a0, 0x373800), (0x74a4, 0x1cc), (0x74a8, 0x0), (0x74ac, 0x8080808),
      (0x74b0, 0x223), (0x74b4, 0x0), (0x74b8, 0x3b003b), (0x74bc, 0x3b003b), (0x74c0, 0x0), (0x74c4, 0x0),
      (0x74c8, 0x10001), (0x74cc, 0x10001), (0x74d0, 0x3ff0001), (0x74d4, 0x3ff03ff), (0x74d8, 0x3ff03ff), (0x74dc, 0x10001),
      (0x74e0, 0x10001), (0x74e4, 0x3ff0001), (0x74e8, 0x3ff03ff), (0x74ec, 0x3ff03ff), (0x74f0, 0x10001), (0x74f4, 0x10001),
      (0x74f8, 0x3ff0001), (0x74fc, 0x3ff03ff), (0x7500, 0x3ff03ff), (0x7504, 0x10001), (0x7508, 0x10001), (0x750c, 0x3ff0001),
      (0x7510, 0x3ff03ff), (0x7514, 0x3ff), (0x7518, 0x203ff), (0x751c, 0x3ff), (0x7520, 0x2a74), (0x7524, 0x3ab19),
      (0x7528, 0x2a74), (0x752c, 0x7748), (0x7530, 0x3c73b), (0x7534, 0x4e8f), (0x7538, 0x362e0), (0x753c, 0x4e8f),
      (0x7540, 0x6e75), (0x7544, 0x3d02b), (0x7548, 0x373800), (0x754c, 0x1cc), (0x7550, 0x0), (0x7554, 0x440000),
      (0x7558, 0x0), (0x755c, 0x110000), (0x7560, 0x110000), (0x7564, 0x800), (0x7568, 0x40), (0x756c, 0x0),
      (0x7570, 0x0), (0x7578, 0x0), (0x7580, 0x40), (0x7584, 0x0), (0x7588, 0x0), (0x7590, 0x0),
      (0x7594, 0x0), (0x7598, 0x0), (0x759c, 0x0), (0x75a4, 0x0), (0x75a8, 0x20), (0x75ac, 0x1),
      (0x75b0, 0x1), (0x75b4, 0x0), (0x75b8, 0x0), (0x75c0, 0x0), (0x75c4, 0x20), (0x75c8, 0x1),
      (0x75cc, 0x1), (0x75d0, 0x1200), (0x75d4, 0x1200), (0x75d8, 0x3c0280), (0x75dc, 0x3c0280), (0x75e0, 0xf000f),
      (0x75e4, 0xf000f), (0x75e8, 0xf000f), (0x75ec, 0xf000f), (0x7568, 0x40), (0x7570, 0x0), (0x75b0, 0x1),
      (0x7558, 0x0), (0x7580, 0x40)]"

definition setup_run6 :: "isp_reg list" where
  "setup_run6 =
     [(0x7588, 0x0), (0x7594, 0x1), (0x75cc, 0x0), (0x7558, 0x0), (0x6400, 0x1), (0x6404, 0x1),
      (0x6408, 0x0), (0x640c, 0x1), (0x6410, 0x1), (0x6414, 0x8), (0x6418, 0x2), (0x641c, 0x24),
      (0x6420, 0x10), (0x6424, 0x76), (0x6428, 0x1c), (0x642c, 0x780), (0x6430, 0x72), (0x6434, 0x438),
      (0x6438, 0x16), (0x643c, 0xfa), (0x6440, 0x8d200000), (0x6444, 0x1), (0x6448, 0x6), (0x644c, 0x4),
      (0x6450, 0x24), (0x6454, 0x10), (0x6458, 0x76), (0x645c, 0x1c), (0x6460, 0x780), (0x6464, 0x6e),
      (0x6468, 0x438), (0x646c, 0x1a), (0x6470, 0x50), (0x6474, 0x8d200000), (0x6c00, 0x1), (0x6c04, 0x0),
      (0x6c08, 0x5), (0x6c0c, 0x9), (0x6c10, 0x2), (0x6c14, 0x5), (0x6c18, 0xb), (0x6c1c, 0x10),
      (0x6c20, 0x10), (0x6c24, 0xd), (0x6c28, 0x3), (0x6c2c, 0x4), (0x6c30, 0x0), (0x6c34, 0x8d700000),
      (0x6c38, 0x8d800000), (0x6c3c, 0x1), (0x6c40, 0x780), (0x6c44, 0x438), (0x6c48, 0x0), (0x6c4c, 0x0),
      (0x6c50, 0x24), (0x6c54, 0x40), (0x6c58, 0xf), (0x6c5c, 0xf), (0x6c60, 0xf), (0x6c64, 0xf),
      (0x6c68, 0x3c0), (0x6c6c, 0x21c), (0x6c70, 0x0), (0x6c74, 0x0), (0x6c78, 0x0), (0x6c7c, 0x0),
      (0x6c80, 0x100), (0x6c84, 0x100), (0x6c88, 0x100), (0x6c8c, 0x100), (0x6c94, 0x3e8), (0x6c98, 0x1e),
      (0x6c9c, 0x10), (0x6ca0, 0x10010), (0x6ca4, 0x10), (0x6ca8, 0x10010), (0x6cac, 0xf0), (0x6cb0, 0x102a4),
      (0x6cb4, 0x100cc), (0x6cb8, 0x404), (0x6cbc, 0x99), (0x6cc0, 0x48), (0x6cc4, 0x64), (0x6cc8, 0x0),
      (0x6ccc, 0x127), (0x6cd0, 0x144), (0x6cd4, 0x1680), (0x6cd8, 0x1480), (0x6cdc, 0x12f0), (0x6ce0, 0x1980),
      (0x6ce4, 0x1), (0x6ce8, 0x780), (0x6cec, 0x438), (0x6cf0, 0x0), (0x6cf4, 0x0), (0x6cf8, 0x24),
      (0x6cfc, 0x40), (0x6d00, 0xf), (0x6d04, 0xf), (0x6d08, 0xf), (0x6d0c, 0xf), (0x6d10, 0x3c0),
      (0x6d14, 0x21c), (0x6d18, 0x0), (0x6d1c, 0x0), (0x6d20, 0x0), (0x6d24, 0x0), (0x6d28, 0x100),
      (0x6d2c, 0x100), (0x6d30, 0x100), (0x6d34, 0x100), (0x6d3c, 0x3ed), (0x6d40, 0x21), (0x6d44, 0x10),
      (0x6d48, 0x10011), (0x6d4c, 0x12), (0x6d50, 0x10013), (0x6d54, 0xf4), (0x6d58, 0x102a0), (0x6d5c, 0x100d0),
      (0x6d60, 0x3fc), (0x6d64, 0x99), (0x6d68, 0x48), (0x6d6c, 0x64), (0x6d70, 0x0), (0x6d74, 0x12b),
      (0x6d78, 0x148), (0x6d7c, 0x1681), (0x6d80, 0x1482), (0x6d84, 0x12f3), (0x6d88, 0x1984), (0x6d8c, 0x0),
      (0x6d90, 0x1), (0x6d94, 0x0), (0x6d98, 0x2), (0x6d9c, 0x0), (0x6da0, 0x3), (0x6000, 0x1),
      (0x6004, 0x1), (0x6008, 0x0), (0x600c, 0x8d100000), (0x6010, 0x0), (0x6014, 0x5), (0x6018, 0x1),
      (0x601c, 0x0), (0x6020, 0x0)]"

definition setup_run7 :: "isp_reg list" where
  "setup_run7 =
     [(0x6024, 0x780), (0x6028, 0x438), (0x602c, 0x780), (0x6030, 0x438), (0x6034, 0x1), (0x6038, 0x4),
      (0x603c, 0x8), (0x6040, 0x780), (0x6044, 0x438), (0x6048, 0x77c), (0x604c, 0x430), (0x6050, 0x5),
      (0x6054, 0x8), (0x6058, 0x3), (0x605c, 0x4), (0x64c8, 0x1), (0x64cc, 0x1), (0x64d0, 0x0),
      (0x64d4, 0x1), (0x64d8, 0x1), (0x64dc, 0x8), (0x64e0, 0x2), (0x64e4, 0x24), (0x64e8, 0x10),
      (0x64ec, 0x76), (0x64f0, 0x1c), (0x64f4, 0x780), (0x64f8, 0x72), (0x64fc, 0x438), (0x6500, 0x16),
      (0x6504, 0xfa), (0x6508, 0x8d300000), (0x650c, 0x0), (0x6510, 0x0), (0x1d20, 0x1), (0x1d24, 0x1),
      (0x1d28, 0x1), (0x1d2c, 0x0), (0x1d30, 0x0), (0x1d34, 0x1), (0x1d38, 0x1), (0x1d3c, 0x8),
      (0x1d40, 0x2), (0x1d44, 0x24), (0x1d48, 0x10), (0x1d4c, 0x76), (0x1d50, 0x1c), (0x1d54, 0x780),
      (0x1d58, 0x72), (0x1d5c, 0x438), (0x1d60, 0x16), (0x1d64, 0xfa), (0x1d6c, 0x0), (0x1d70, 0x0),
      (0x1d74, 0x0), (0x1d78, 0x1), (0x1d7c, 0x1), (0x1d80, 0x1), (0x1d84, 0x0), (0x1d88, 0x0),
      (0x1d8c, 0x1), (0x1d90, 0x1), (0x1d94, 0x8), (0x1d98, 0x2), (0x1d9c, 0x24), (0x1da0, 0x10),
      (0x1da4, 0x76), (0x1da8, 0x1c), (0x1dac, 0x780), (0x1db0, 0x72), (0x1db4, 0x438), (0x1db8, 0x16),
      (0x1dbc, 0xfa), (0x1dc4, 0x0), (0x1dc8, 0x0), (0x1dcc, 0x0), (0x1e44, 0x1), (0x1e48, 0x1),
      (0x1e4c, 0x1), (0x1e50, 0x0), (0x1e54, 0x0), (0x1e58, 0x0), (0x1e60, 0x1), (0x1e64, 0x780),
      (0x1e68, 0x438), (0x1e6c, 0x0), (0x1e70, 0x0), (0x1e74, 0x24), (0x1e78, 0x40), (0x1e7c, 0xf),
      (0x1e80, 0xf), (0x1e84, 0xf), (0x1e88, 0xf), (0x1e8c, 0x0), (0x1e90, 0x0), (0x1e94, 0x0),
      (0x1e98, 0x0), (0x1e9c, 0x100), (0x1ea0, 0x100), (0x1ea4, 0x100), (0x1ea8, 0x100), (0x1eac, 0x0),
      (0x1eb0, 0x2), (0x1f40, 0x1), (0x1f44, 0x1), (0x1f48, 0x1), (0x1f4c, 0x0), (0x1f50, 0x0),
      (0x1f54, 0x1), (0x1f58, 0x1), (0x1f5c, 0x8), (0x1f60, 0x2), (0x1f64, 0x24), (0x1f68, 0x10),
      (0x1f6c, 0x76), (0x1f70, 0x1c), (0x1f74, 0x780), (0x1f78, 0x72), (0x1f7c, 0x438), (0x1f80, 0x16),
      (0x1f84, 0xfa), (0x1f8c, 0x0), (0x1f90, 0x0), (0x1f94, 0x0), (0x7000, 0x0), (0x7004, 0x1008),
      (0x7008, 0xc000000), (0x700c, 0x84), (0x7010, 0x84), (0x7014, 0x0), (0x7018, 0x0), (0x701c, 0x6200840),
      (0x7020, 0x0), (0x7024, 0x0), (0x7028, 0x6200840), (0x702c, 0x0), (0x7030, 0x0), (0x7034, 0x12c),
      (0x7038, 0x2d), (0x703c, 0x0), (0x7040, 0x3), (0x7044, 0x0), (0x7048, 0x0), (0x704c, 0x0),
      (0x0004, 0x50870780), (0x0004, 0x50870784)]"

definition setup_run8 :: "isp_reg list" where
  "setup_run8 =
     [(0x0004, 0x50878784), (0x0000, 0x90000002), (0x1f9c, 0x0), (0x1c08, 0x0), (0x1c7c, 0x2000000), (0x1c88, 0xc00),
      (0x1c8c, 0x2000000), (0x1c98, 0xc00), (0x1dd0, 0x1), (0x1dd0, 0x0), (0x1df4, 0x0), (0x1df8, 0x0),
      (0x1dfc, 0x780), (0x1e00, 0x438), (0x1e04, 0x0), (0x1e08, 0x0), (0x1e0c, 0x780), (0x1e10, 0x438),
      (0x1e14, 0x0), (0x1e18, 0x0), (0x0ce0, 0x0), (0x0ce4, 0x0), (0x0ce8, 0x0), (0x0cec, 0x0),
      (0x0cf0, 0x0), (0x0cf4, 0x0), (0x0cf8, 0x0), (0x0cfc, 0x0), (0x0d00, 0x0), (0x0d04, 0x0),
      (0x0c08, 0x438), (0x0c04, 0x780), (0x1800, 0xe8), (0x1804, 0x4380780), (0x1890, 0x30c), (0x1890, 0x1030c),
      (0x4c04, 0x4380780), (0x4c08, 0x0), (0x4c0c, 0x4380780), (0x4c10, 0x0), (0x5034, 0x0), (0x5004, 0x100),
      (0x5008, 0x100), (0x500c, 0x100), (0x082c, 0x3c010e0), (0x0858, 0x1), (0x0810, 0x798), (0x082c, 0x3c010e0),
      (0x3c00, 0x2590132), (0x3c04, 0x74), (0x3c0c, 0x2000200), (0x3c04, 0x74), (0x3c08, 0x815280ad), (0x3c14, 0x2008052),
      (0x3c0c, 0x2000200), (0x3c10, 0x81ad0200), (0x3c14, 0x2008052), (0x2800, 0x2076f), (0x2804, 0x7800438), (0x2800, 0x2076f),
      (0x2830, 0x1f), (0x2830, 0x1f1f), (0x2810, 0x209a), (0x2814, 0x104d), (0x2818, 0x826), (0x281c, 0x209a),
      (0x2820, 0x104d), (0x2824, 0x1d20), (0x2828, 0xe90), (0x282c, 0x1d20), (0x2800, 0x2076f), (0x2800, 0x6076f),
      (0x2800, 0x60760), (0x2e0c, 0x7800438), (0x2e04, 0x7880438), (0x2e08, 0xf10087), (0x2e24, 0x1e5002d), (0x2e48, 0x1e50032),
      (0x2e4c, 0x5113fff), (0x2e50, 0xf10087), (0x2e54, 0x78780004), (0x2e54, 0x78740004), (0x2e7c, 0x1), (0x2e68, 0x7),
      (0x2e6c, 0xf), (0x2e70, 0x0), (0x2e74, 0xc01), (0x2e78, 0x282a6a6), (0x2e40, 0x100a00), (0x2e40, 0x80100a00),
      (0x2e78, 0x8282a6a6), (0x2e38, 0x10a00), (0x2e38, 0x10700), (0x2e38, 0x10010700), (0x2e40, 0x80110a00), (0x2e40, 0x80110700),
      (0x2e5c, 0x700), (0x2e64, 0x700), (0x2e00, 0x1f070001), (0x2e3c, 0x2b439200), (0x2e44, 0x2b614200), (0x2e58, 0x2b439200),
      (0x2e60, 0x2b614200), (0x2e74, 0xc01), (0x2e84, 0x100), (0x2e8c, 0x100), (0x2e88, 0x2b703200), (0x2e80, 0x2b703200),
      (0x2e90, 0x3000000), (0x7204, 0x780), (0x7208, 0x438), (0x7210, 0x120), (0x7240, 0x780), (0x7244, 0x438),
      (0x7238, 0x8), (0x7274, 0x780), (0x75d0, 0x0), (0x7400, 0x0), (0x740c, 0xf0), (0x740c, 0x8700f0),
      (0x7414, 0x3b001c), (0x7414, 0x1b001c), (0x7410, 0x3b001e), (0x7410, 0x1e001e), (0x6400, 0x3), (0x6404, 0x1),
      (0x6410, 0x0), (0x6414, 0x0), (0x6418, 0x0), (0x6424, 0x76), (0x6428, 0x1c), (0x6430, 0x76),
      (0x6438, 0x1c), (0x642c, 0x780), (0x6434, 0x438), (0x643c, 0xff), (0x6c00, 0x3), (0x6c04, 0x0),
      (0x6c30, 0x0), (0x6c3c, 0x0), (0x6c48, 0x0), (0x6c4c, 0x0), (0x6c58, 0xf), (0x6c5c, 0xf),
      (0x6c60, 0xf), (0x6c64, 0xf)]"

definition setup_run9 :: "isp_reg list" where
  "setup_run9 =
     [(0x6c40, 0x780), (0x6c44, 0x438), (0x6c68, 0x3c0), (0x6c6c, 0x21c), (0x6000, 0x3), (0x6004, 0x1),
      (0x6008, 0x0), (0x6018, 0x0), (0x601c, 0x0), (0x6020, 0x0), (0x6024, 0x780), (0x6028, 0x438),
      (0x602c, 0x780), (0x6030, 0x438), (0x64cc, 0x1), (0x6510, 0x1), (0x64d8, 0x0), (0x64dc, 0x240),
      (0x64e0, 0x144), (0x64ec, 0x24), (0x64f0, 0xa), (0x64f8, 0x24), (0x6500, 0xa), (0x64f4, 0x780),
      (0x64fc, 0x438), (0x6504, 0xff), (0x1d2c, 0x0), (0x1d38, 0x0), (0x1d3c, 0x0), (0x1d40, 0x0),
      (0x1d4c, 0x76), (0x1d50, 0x1c), (0x1d58, 0x76), (0x1d60, 0x1c), (0x1d54, 0x780), (0x1d5c, 0x438),
      (0x1d64, 0xff), (0x1d6c, 0x0), (0x1d84, 0x2), (0x1d90, 0x0), (0x1d94, 0x0), (0x1d98, 0x0),
      (0x1da4, 0x76), (0x1da8, 0x1c), (0x1db0, 0x76), (0x1db8, 0x1c), (0x1dac, 0x780), (0x1db4, 0x438),
      (0x1dbc, 0xff), (0x1dc4, 0x0), (0x1e44, 0x0), (0x1e50, 0x1), (0x1e54, 0x0), (0x1e58, 0x0),
      (0x1e60, 0x0), (0x1e6c, 0x0), (0x1e70, 0x0), (0x1e7c, 0xe), (0x1e80, 0xe), (0x1e84, 0xe),
      (0x1e88, 0xe), (0x1e64, 0x780), (0x1e68, 0x438), (0x1f4c, 0x0), (0x1f58, 0x0), (0x1f5c, 0x0),
      (0x1f60, 0x0), (0x1f6c, 0x76), (0x1f70, 0x1c), (0x1f78, 0x76), (0x1f80, 0x1c), (0x1f74, 0x780),
      (0x1f7c, 0x438), (0x1f84, 0xff), (0x1f8c, 0x0), (0x6440, 0x2a662200), (0x6474, 0x2a662200), (0x6c34, 0x2000000),
      (0x6c38, 0x2000000), (0x600c, 0x2a6a0200), (0x280c, 0x2a6a3200), (0x6508, 0x2a7a4200), (0x1d1c, 0x0), (0x1c08, 0x0),
      (0x1df0, 0x0), (0x0000, 0x90000002), (0x0000, 0x90000012), (0x0000, 0x90000052), (0x0c10, 0x1), (0x1800, 0xe8),
      (0x0000, 0x90000052), (0x4c00, 0x1), (0x5000, 0x1), (0x0000, 0x90080052), (0x0800, 0x1e), (0x0000, 0x90280052),
      (0x0000, 0xb0280052), (0x5800, 0x0), (0x0000, 0xb0280052), (0x4838, 0x1), (0x2800, 0x60770), (0x2800, 0x60f70),
      (0x2e00, 0x1f070000), (0x3c64, 0xa0d29), (0x3c74, 0xa0d24), (0x3cc8, 0x20305), (0x4800, 0x3), (0x7600, 0x1),
      (0x7200, 0x0), (0x720c, 0x0), (0x7230, 0x0), (0x7268, 0x0), (0x7278, 0x40), (0x727c, 0x0),
      (0x7400, 0x0), (0x75b0, 0x0), (0x75ac, 0x0), (0x6400, 0x3), (0x6c00, 0x2), (0x6000, 0x3),
      (0x64c8, 0x1), (0x1d28, 0x0), (0x1d80, 0x0), (0x1e4c, 0x0), (0x1f48, 0x0), (0x000c, 0x0),
      (0x000c, 0x20), (0x7000, 0x0), (0x00cc, 0x0), (0x00d4, 0x10000600), (0x00cc, 0x0), (0x00d4, 0x100),
      (0x2e74, 0xc00), (0x2e00, 0x1f070002), (0x2e90, 0x3000100), (0x6440, 0x2a66a200), (0x6474, 0x2a66a200), (0x600c, 0x2a6a1200),
      (0x280c, 0x2a723200), (0x6508, 0x2a7ac200), (0x1d1c, 0x0), (0x1c08, 0x0), (0x1df0, 0x0), (0x0000, 0xb0280052),
      (0x0c10, 0x3), (0x0c10, 0x2)]"

definition setup_run10 :: "isp_reg list" where
  "setup_run10 =
     [(0x1800, 0xe0), (0x1804, 0x4380780), (0x1808, 0xf000a), (0x180c, 0xf000a), (0x1810, 0xf000a), (0x1814, 0xf000a),
      (0x1818, 0xf000a), (0x181c, 0xf000a), (0x1820, 0xf000a), (0x1824, 0xf000a), (0x1828, 0xf000a), (0x182c, 0xf000a),
      (0x1830, 0xf000a), (0x1834, 0xf000a), (0x1838, 0x6400c80), (0x183c, 0x258), (0x1840, 0x60a0d10), (0x1844, 0x6400c80),
      (0x1848, 0x258), (0x184c, 0x60a0d10), (0x1850, 0x6400c80), (0x1854, 0x258), (0x1858, 0x60a0d10), (0x185c, 0x6400c80),
      (0x1860, 0x258), (0x1864, 0x60a0d10), (0x1868, 0x3c281a0d), (0x186c, 0xc8a0785a), (0x1870, 0x80806), (0x1874, 0xc0a0a),
      (0x1878, 0x100e0e), (0x187c, 0x3c281a0d), (0x1880, 0xc8a0785a), (0x1884, 0x80806), (0x1888, 0xc0a0a), (0x188c, 0x100e0e),
      (0x1890, 0x1030c), (0x1800, 0xe0), (0x0000, 0xb0280052), (0x4c40, 0x10040), (0x4c34, 0x2b2e8600), (0x4c24, 0x34),
      (0x4c30, 0x34), (0x4c28, 0x34), (0x4c3c, 0x1), (0x4c00, 0x1), (0x3000, 0x0), (0x00cc, 0x4000150),
      (0x00d4, 0x3a2400), (0x00cc, 0x0), (0x00d4, 0x10000200), (0x00cc, 0x0), (0x00d4, 0x100), (0x2e90, 0x3010100),
      (0x6440, 0x2a662200), (0x6474, 0x2a662200), (0x600c, 0x2a6a0200), (0x280c, 0x2a6a3200), (0x6508, 0x2a7a4200), (0x3004, 0xff000000),
      (0x3008, 0x0), (0x300c, 0x0), (0x3010, 0x0), (0x3014, 0xff000000), (0x3018, 0x0), (0x301c, 0x0),
      (0x3020, 0x0), (0x3024, 0xff000000), (0x3028, 0x0), (0x302c, 0x0), (0x3030, 0x0), (0x3034, 0x0),
      (0x3038, 0x0), (0x303c, 0x0), (0x3040, 0x0), (0x3044, 0x0), (0x3048, 0x0), (0x304c, 0x0),
      (0x3050, 0x0), (0x3054, 0x0), (0x3058, 0x0), (0x305c, 0x0), (0x3060, 0xfa00ff), (0x3064, 0x0),
      (0x3068, 0x0), (0x306c, 0x0), (0x3070, 0x0), (0x3074, 0x0), (0x3078, 0x0), (0x307c, 0x0),
      (0x3080, 0x0), (0x3084, 0x0), (0x3088, 0x0), (0x308c, 0x0), (0x3090, 0x0), (0x3094, 0x0),
      (0x3098, 0x0), (0x309c, 0x0), (0x30a0, 0x0), (0x30a4, 0x0), (0x30a8, 0x0), (0x30ac, 0x0),
      (0x30b0, 0x0), (0x30b4, 0x0), (0x30b8, 0x0), (0x30bc, 0x0), (0x30c0, 0x0), (0x30c4, 0x0),
      (0x30c8, 0x0), (0x30cc, 0x0), (0x30d0, 0x0), (0x30d4, 0x0), (0x30d8, 0x0), (0x30dc, 0x0),
      (0x30e0, 0x0), (0x30e4, 0x0), (0x30e8, 0x0), (0x30ec, 0x0), (0x30f0, 0x0), (0x30f4, 0x0),
      (0x30f8, 0x0), (0x30fc, 0x0), (0x3100, 0x0), (0x3104, 0x0), (0x3108, 0x0), (0x310c, 0x0),
      (0x3110, 0x0), (0x3114, 0x0), (0x3118, 0x0), (0x311c, 0x0), (0x3120, 0x0), (0x3124, 0x0),
      (0x3128, 0x0), (0x312c, 0x0), (0x3130, 0x0), (0x3134, 0x0), (0x3138, 0x0), (0x313c, 0x0),
      (0x3140, 0x0), (0x3144, 0x0), (0x3148, 0x0), (0x314c, 0x0), (0x3150, 0x0), (0x3154, 0x0),
      (0x3158, 0x0), (0x315c, 0x0)]"

definition setup_run11 :: "isp_reg list" where
  "setup_run11 =
     [(0x3160, 0x0), (0x3164, 0x0), (0x3168, 0x0), (0x316c, 0x0), (0x3170, 0x0), (0x3174, 0x0),
      (0x3178, 0x0), (0x317c, 0x0), (0x3180, 0x0), (0x3184, 0x0), (0x3188, 0x0), (0x318c, 0x0),
      (0x3190, 0x0), (0x3194, 0x0), (0x0000, 0xb0280052), (0x0060, 0x2b2e9200), (0x0064, 0x100), (0x0068, 0x100),
      (0x0018, 0x10001), (0x0014, 0x10010), (0x0800, 0x1e), (0x0804, 0x1e), (0x0808, 0x1e), (0x080c, 0x1e),
      (0x0810, 0x798), (0x0814, 0x1e), (0x0818, 0x1e), (0x081c, 0x1e), (0x0820, 0x1e), (0x0824, 0x798),
      (0x0828, 0x0), (0x082c, 0x3c010e0), (0x0830, 0x3c010e1), (0x0834, 0x7e), (0x0838, 0x7), (0x083c, 0x21),
      (0x0840, 0x1a), (0x0844, 0x1d), (0x0848, 0x4b), (0x084c, 0x35), (0x0850, 0x25), (0x0854, 0x12),
      (0x0858, 0x1), (0x085c, 0x1f4), (0x0860, 0xfa0), (0x0864, 0x2710), (0x0868, 0xdbba0), (0x086c, 0x1),
      (0x0870, 0x80), (0x0874, 0x0), (0x0878, 0x28), (0x087c, 0x6), (0x0880, 0x80), (0x0884, 0x0),
      (0x0888, 0x40), (0x088c, 0x40), (0x0890, 0x80), (0x0894, 0x0), (0x0898, 0x40), (0x089c, 0x40),
      (0x08a0, 0x73), (0x08a4, 0xd), (0x08a8, 0x16f), (0x08ac, 0x1), (0x08b0, 0x1), (0x08b4, 0x78),
      (0x08b8, 0xff), (0x08bc, 0x1), (0x08c0, 0x32), (0x08c4, 0x64), (0x08c8, 0x1), (0x08cc, 0x7d0),
      (0x08d0, 0x1f40), (0x08d4, 0xf), (0x0800, 0x1e), (0x3400, 0x80400159), (0x3404, 0x8019), (0x3408, 0x140800c),
      (0x340c, 0x8033), (0x3410, 0x804c0014), (0x3414, 0x138), (0x3418, 0x0), (0x341c, 0x0), (0x3420, 0x100),
      (0x3424, 0x0), (0x3428, 0x1000000), (0x342c, 0x0), (0x3430, 0x0), (0x3434, 0x100), (0x3438, 0x0),
      (0x343c, 0x0), (0x3440, 0x0), (0x3444, 0x0), (0x3448, 0x0), (0x344c, 0x0), (0x0000, 0xb0280052),
      (0x0034, 0x80), (0x0038, 0x80), (0x0044, 0x80), (0x0048, 0x80), (0x0054, 0x80), (0x0058, 0x80),
      (0x0018, 0x30001), (0x0030, 0x2b2ec600), (0x0040, 0x2b2ec600), (0x0050, 0x2b2ec600), (0x0014, 0x1000e), (0x5800, 0x0),
      (0x0000, 0xb0280052), (0x4834, 0x0), (0x4838, 0x1), (0x483c, 0x24), (0x4840, 0x20), (0x4844, 0x0),
      (0x4848, 0x200), (0x484c, 0x200), (0x4850, 0x0), (0x4838, 0x1), (0x2800, 0x60f70), (0x2e00, 0x1f07000e),
      (0x2e04, 0x7880438), (0x2e08, 0xf10087), (0x2e0c, 0x7800438), (0x2e10, 0x1fff050d), (0x2e14, 0x1e3c96b4), (0x2e18, 0x1fff050d),
      (0x2e1c, 0x1), (0x2e20, 0x700f5), (0x2e24, 0x1e5002d), (0x2e28, 0xa0a0a), (0x2e2c, 0x100), (0x2e30, 0x1020fc),
      (0x2e34, 0x20), (0x2e4c, 0x5113fff), (0x2e90, 0xf010100), (0x2e94, 0x273940), (0x2e9c, 0x101033), (0x2ea0, 0xc080c08),
      (0x2ea4, 0x14003c), (0x2ea8, 0x14003c), (0x2eac, 0xa), (0x2eb0, 0xa00), (0x2eb4, 0xd8), (0x2eb8, 0x0),
      (0x2ebc, 0x2040608), (0x2ec0, 0xa0c0e0f)]"

definition setup_run12 :: "isp_reg list" where
  "setup_run12 =
     [(0x2ec4, 0x10101010), (0x2ec8, 0x10101010), (0x2ecc, 0x10101010), (0x2ed0, 0x10101010), (0x2ed4, 0x10101010), (0x2ed8, 0x10101010),
      (0x2edc, 0x10101010), (0x2ee0, 0x10101010), (0x2ee4, 0x10101010), (0x2ee8, 0x10101010), (0x2eec, 0x10101010), (0x2ef0, 0x10101010),
      (0x2ef4, 0x10101010), (0x2ef8, 0x10101010), (0x2efc, 0x2040608), (0x2f00, 0xa0c0c0c), (0x2f04, 0xc0c0c0c), (0x2f08, 0xd0f1010),
      (0x2f0c, 0x10101010), (0x2f10, 0x10101010), (0x2f14, 0x10101010), (0x2f18, 0x10101010), (0x2f1c, 0x10101010), (0x2f20, 0x10101010),
      (0x2f24, 0x10101010), (0x2f28, 0x10101010), (0x2f2c, 0x10101010), (0x2f30, 0x10101010), (0x2f34, 0x10101010), (0x2f38, 0x10101010),
      (0x2e00, 0x1f07000e), (0x3c64, 0xa0d23), (0x3c68, 0x1), (0x3c6c, 0xa6), (0x3c70, 0x12c0164), (0x3c74, 0xa0d24),
      (0x3c78, 0x1), (0x3c7c, 0xa6), (0x3c80, 0x12c0164), (0x3c84, 0x2b800), (0x3c88, 0xd800), (0x3c8c, 0x80100),
      (0x3c90, 0x100), (0x3c94, 0x22cc01), (0x3c98, 0x401c5), (0x3c9c, 0x25b966), (0x3ca0, 0x40000), (0x3c64, 0xa0d23),
      (0x3c74, 0xa0d24), (0x3cc8, 0x20305), (0x3ccc, 0x1ffd1fff), (0x3cd0, 0x1ff81ff9), (0x3cd4, 0x1ff21ffd), (0x3cd8, 0x1fc61fd8),
      (0x3cdc, 0x1fd81ff9), (0x3ce0, 0x1ec81f53), (0x3ce4, 0x1fc61ff8), (0x3ce8, 0xa681ec8), (0x3cec, 0x1f8e1fca), (0x3cf0, 0x1f461f6e),
      (0x3cf4, 0x1ee21ee2), (0x3cf8, 0xa61ee2), (0x3cfc, 0x1ee202b6), (0x3d00, 0x6a402b6), (0x3d04, 0x3200), (0x3d08, 0x200f),
      (0x3d0c, 0x4420), (0x3d10, 0x0), (0x3d14, 0x280028), (0x3d18, 0x3ce0032), (0x3d1c, 0x1704d), (0x3d20, 0x1fc70),
      (0x3d24, 0x196800), (0x3d28, 0xc7480), (0x3d2c, 0x0), (0x3d30, 0x50000), (0x3d34, 0xfffa0000), (0x3d38, 0x0),
      (0x3d3c, 0x23c85), (0x3d40, 0x2b4a3), (0x3d44, 0xfffdf800), (0x3d48, 0x18d080), (0x3d4c, 0x0), (0x3d50, 0x80000),
      (0x3d54, 0xfff70000), (0x3d58, 0x0), (0x3d5c, 0x920072), (0x3d60, 0x10080000), (0x3d64, 0x30282018), (0x3d68, 0x40404038),
      (0x3d6c, 0x40404040), (0x3d70, 0x40404040), (0x3d74, 0x40404040), (0x3d78, 0x40404040), (0x3d7c, 0x40404040), (0x3d80, 0x40404040),
      (0x3d84, 0x40404040), (0x3d88, 0x40404040), (0x3d8c, 0x40404040), (0x3d90, 0x40404040), (0x3d94, 0x40404040), (0x3d98, 0x40404040),
      (0x3d9c, 0x23354040), (0x3da0, 0x20202020), (0x3da4, 0x40404030), (0x3da8, 0x40404040), (0x3dac, 0x40404040), (0x3db0, 0x40404040),
      (0x3db4, 0x40404040), (0x3db8, 0x40404040), (0x3dbc, 0x40404040), (0x3dc0, 0x40404040), (0x3dc4, 0x40404040), (0x3dc8, 0x40404040),
      (0x3dcc, 0x40404040), (0x3dd0, 0x40404040), (0x3dd4, 0x40404040), (0x3dd8, 0x40404040), (0x3ddc, 0x40404040), (0x3de0, 0x120a0602),
      (0x3de4, 0x322a221a), (0x3de8, 0x4040403a), (0x3dec, 0x40404040), (0x3df0, 0x40404040), (0x3df4, 0x40404040), (0x3df8, 0x40404040),
      (0x3dfc, 0x40404040), (0x3e00, 0x40404040), (0x3e04, 0x40404040), (0x3e08, 0x40404040), (0x3e0c, 0x40404040), (0x3e10, 0x40404040),
      (0x3e14, 0x40404040), (0x3e18, 0x38404040), (0x3e1c, 0xc182430), (0x3cc8, 0x20305), (0x4800, 0x3), (0x4804, 0x14ac),
      (0x4808, 0x4020), (0x480c, 0x0), (0x4810, 0x80200), (0x4814, 0x80200), (0x4818, 0x0), (0x481c, 0x1),
      (0x4820, 0x2), (0x4824, 0x3fe)]"

definition setup_run13 :: "isp_reg list" where
  "setup_run13 =
     [(0x4828, 0x3ff), (0x482c, 0x400), (0x4830, 0x400), (0x4800, 0x3), (0x7600, 0x1), (0x7268, 0x0),
      (0x7400, 0x0), (0x7404, 0x8080808), (0x7408, 0x221), (0x740c, 0x8700f0), (0x7410, 0x1e001e), (0x7414, 0x1b001c),
      (0x7418, 0x0), (0x741c, 0x0), (0x7420, 0x10001), (0x7424, 0x10001), (0x7428, 0x3ff0001), (0x742c, 0x3ff03ff),
      (0x7430, 0x3ff03ff), (0x7434, 0x10001), (0x7438, 0x10001), (0x743c, 0x3ff0001), (0x7440, 0x3ff03ff), (0x7444, 0x3ff03ff),
      (0x7448, 0x10001), (0x744c, 0x10001), (0x7450, 0x3ff0001), (0x7454, 0x3ff03ff), (0x7458, 0x3ff03ff), (0x745c, 0x10001),
      (0x7460, 0x10001), (0x7464, 0x3ff0001), (0x7468, 0x3ff03ff), (0x746c, 0x3ff), (0x7470, 0x203ff), (0x7474, 0x3ff),
      (0x7478, 0x2a74), (0x747c, 0x3ab19), (0x7480, 0x2a74), (0x7484, 0x7748), (0x7488, 0x3c73b), (0x748c, 0x4e8f),
      (0x7490, 0x362e0), (0x7494, 0x4e8f), (0x7498, 0x6e75), (0x749c, 0x3d02b), (0x74a0, 0x373800), (0x74a4, 0x1cc),
      (0x74a8, 0x0), (0x74ac, 0x8080808), (0x74b0, 0x223), (0x74b4, 0x0), (0x74b8, 0x3b003b), (0x74bc, 0x3b003b),
      (0x74c0, 0x0), (0x74c4, 0x0), (0x74c8, 0x10001), (0x74cc, 0x10001), (0x74d0, 0x3ff0001), (0x74d4, 0x3ff03ff),
      (0x74d8, 0x3ff03ff), (0x74dc, 0x10001), (0x74e0, 0x10001), (0x74e4, 0x3ff0001), (0x74e8, 0x3ff03ff), (0x74ec, 0x3ff03ff),
      (0x74f0, 0x10001), (0x74f4, 0x10001), (0x74f8, 0x3ff0001), (0x74fc, 0x3ff03ff), (0x7500, 0x3ff03ff), (0x7504, 0x10001),
      (0x7508, 0x10001), (0x750c, 0x3ff0001), (0x7510, 0x3ff03ff), (0x7514, 0x3ff), (0x7518, 0x203ff), (0x751c, 0x3ff),
      (0x7520, 0x2a74), (0x7524, 0x3ab19), (0x7528, 0x2a74), (0x752c, 0x7748), (0x7530, 0x3c73b), (0x7534, 0x4e8f),
      (0x7538, 0x362e0), (0x753c, 0x4e8f), (0x7540, 0x6e75), (0x7544, 0x3d02b), (0x7548, 0x373800), (0x754c, 0x1cc),
      (0x7550, 0x0), (0x7554, 0x440000), (0x7558, 0x0), (0x755c, 0x110000), (0x7560, 0x110000), (0x7564, 0x800),
      (0x7568, 0x40), (0x756c, 0x0), (0x7570, 0x0), (0x7578, 0x0), (0x7580, 0x40), (0x7584, 0x0),
      (0x7588, 0x0), (0x7590, 0x0), (0x7594, 0x0), (0x7598, 0x0), (0x759c, 0x0), (0x75a4, 0x0),
      (0x75a8, 0x20), (0x75ac, 0x0), (0x75b0, 0x0), (0x75b4, 0x0), (0x75b8, 0x0), (0x75c0, 0x0),
      (0x75c4, 0x20), (0x75c8, 0x1), (0x75cc, 0x0), (0x75d0, 0x0), (0x75d4, 0x1200), (0x75d8, 0x3c0280),
      (0x75dc, 0x3c0280), (0x75e0, 0xf000f), (0x75e4, 0xf000f), (0x75e8, 0xf000f), (0x75ec, 0xf000f), (0x75f0, 0x0),
      (0x75f4, 0x0), (0x7568, 0x40), (0x7570, 0x40), (0x7558, 0x40), (0x75d0, 0x0), (0x7400, 0x0),
      (0x740c, 0x8700f0), (0x7414, 0x1b001c), (0x7410, 0x1e001e), (0x7400, 0x0), (0x75b0, 0x0), (0x75ac, 0x0),
      (0x6c00, 0x2), (0x1e4c, 0x0)]"

definition ar_isp_setup_1080p60 :: "isp_reg list" where
  "ar_isp_setup_1080p60 = setup_run0 @ setup_run1 @ setup_run2 @ setup_run3 @ setup_run4 @
     setup_run5 @ setup_run6 @ setup_run7 @ setup_run8 @ setup_run9 @
     setup_run10 @ setup_run11 @ setup_run12 @ setup_run13"

section \<open>The correction passes and the output arm\<close>

definition ar_isp_vendor_trim :: "isp_reg list" where
  "ar_isp_vendor_trim =
     [(0x0014, 0x10000), (0x0018, 0x10001), (0x0038, 0x0), (0x0048, 0x0), (0x0058, 0x0), (0x00cc, 0x0),
      (0x00d4, 0x0), (0x00e8, 0x0), (0x00f0, 0x1), (0x1808, 0x230027), (0x180c, 0x230027), (0x1810, 0x230027),
      (0x1814, 0x230027), (0x1818, 0x230027), (0x181c, 0x230027), (0x1820, 0x230027), (0x1824, 0x230027), (0x1828, 0x230027),
      (0x182c, 0x230027), (0x1830, 0x230027), (0x1834, 0x230027), (0x1c1c, 0x100), (0x1c38, 0x100), (0x2838, 0x4f),
      (0x2e10, 0x19990b15), (0x2e18, 0x19990b15), (0x2e1c, 0x8), (0x2e20, 0xa00f5), (0x2e98, 0x1349), (0x2ea0, 0x170b140b),
      (0x2ea4, 0x26004d), (0x2ea8, 0x26004d), (0x2eb0, 0x11000), (0x2eb4, 0xbc), (0x2ebc, 0x102), (0x2ec0, 0x3040505),
      (0x2ec4, 0x6070809), (0x2ec8, 0xa0b0c0d), (0x2ecc, 0xe0f1010), (0x2ed8, 0x10101011), (0x2edc, 0x11111111), (0x2ee0, 0x11111111),
      (0x2ee4, 0x11111215), (0x2ee8, 0x15151515), (0x2eec, 0x15151515), (0x2ef0, 0x16161616), (0x2ef4, 0x16161616), (0x2ef8, 0x16171717),
      (0x2efc, 0x0), (0x3060, 0xfa0096), (0x3ca8, 0x2690), (0x3cac, 0x40dc8), (0x3ccc, 0x1ffc1fff), (0x3cd0, 0x1ff61ff7),
      (0x3cd4, 0x1fed1ffc), (0x3cd8, 0x1fc01fd2), (0x3cdc, 0x1fd21ff7), (0x3ce0, 0x1f021f6f), (0x3ce4, 0x1fc01ff6), (0x3ce8, 0x9a51f02),
      (0x3d04, 0x8400), (0x3d08, 0x1d18), (0x3d0c, 0x271d), (0x3d18, 0x3b90032), (0x3d60, 0x0), (0x3d64, 0xa030100),
      (0x3d68, 0x2820170f), (0x3d6c, 0x40403a32), (0x3d9c, 0x40404040), (0x3da0, 0x1f160e06), (0x3da4, 0x3a342e29), (0x3de0, 0x150d0803),
      (0x3de4, 0x352d251d), (0x3de8, 0x4040403b), (0x4804, 0x149e), (0x4824, 0x3ee), (0x4830, 0x3c), (0x483c, 0x21),
      (0x4c3c, 0x0), (0x6064, 0x0), (0x6db4, 0x0), (0x706c, 0x4380780), (0x7070, 0x4380780), (0x7074, 0x4380780),
      (0x7078, 0x4380780), (0x707c, 0x4380780), (0x7080, 0x21c03c0), (0x757c, 0x0)]"

definition ar_isp_output_fix :: "isp_reg list" where
  "ar_isp_output_fix =
     [(0x2e2c, 0x100), (0x2e30, 0x1020fc)]"

definition ar_isp_output_arm :: "isp_reg list" where
  "ar_isp_output_arm =
     [(0x00cc, 0x0), (0x00d4, 0x10000600), (0x00cc, 0x0), (0x00d4, 0x100), (0x2e74, 0xc00), (0x2e00, 0x1f070002),
      (0x2e90, 0x3000100), (0x6440, 0x2a66a200), (0x6474, 0x2a66a200), (0x600c, 0x2a6a1200), (0x280c, 0x2a723200), (0x6508, 0x2a7ac200),
      (0x1d1c, 0x0), (0x1c08, 0x0), (0x1df0, 0x0), (0x0000, 0xb0280052), (0x0000, 0xb0280052), (0x0c10, 0x3),
      (0x0c10, 0x2), (0x1800, 0xe0), (0x1804, 0x4380780), (0x1808, 0xf000a), (0x180c, 0xf000a), (0x1810, 0xf000a),
      (0x1814, 0xf000a), (0x1818, 0xf000a), (0x181c, 0xf000a), (0x1820, 0xf000a), (0x1824, 0xf000a), (0x1828, 0xf000a),
      (0x182c, 0xf000a), (0x1830, 0xf000a), (0x1834, 0xf000a), (0x1838, 0x6400c80), (0x183c, 0x258), (0x1840, 0x60a0d10),
      (0x1844, 0x6400c80), (0x1848, 0x258), (0x184c, 0x60a0d10), (0x1850, 0x6400c80), (0x1854, 0x258), (0x1858, 0x60a0d10),
      (0x185c, 0x6400c80), (0x1860, 0x258), (0x1864, 0x60a0d10), (0x1868, 0x3c281a0d), (0x186c, 0xc8a0785a), (0x1870, 0x80806),
      (0x1874, 0xc0a0a), (0x1878, 0x100e0e), (0x187c, 0x3c281a0d), (0x1880, 0xc8a0785a), (0x1884, 0x80806), (0x1888, 0xc0a0a),
      (0x188c, 0x100e0e), (0x1890, 0x1030c), (0x1800, 0xe0), (0x1800, 0xe0), (0x0000, 0xb0280052), (0x4c40, 0x10040),
      (0x4c34, 0x2b2e8600), (0x4c24, 0x34), (0x4c30, 0x34), (0x4c28, 0x34), (0x4c3c, 0x1), (0x4c00, 0x1),
      (0x3000, 0x0)]"

definition ar_isp_lnr_fix :: "isp_reg list" where
  "ar_isp_lnr_fix = [(0x3d44, 0xfffdf800)]"

definition ar_isp_kept :: "isp_reg list" where
  "ar_isp_kept = [(0x6518, 0x1), (0x651c, 0x1)]"

definition ar_isp_hw_owned :: "nat list" where
  "ar_isp_hw_owned = [0x00cc, 0x00f0, 0x0834, 0x08a8, 0x2838, 0x2e98, 0x3ca8, 0x3cac]"

end
