(* ===== verification/Isp_Driver.thy ===== *)
theory Isp_Driver
  imports Isp_Gates Isp_Setup
begin

text \<open>
  \<open>ar-isp-main.c\<close>: the correction pass, the two ways of configuring the block, the output arm, the interrupt with the
  statistics ping-pong, the debugfs nodes, the exported bring-up call, probe and remove.  Operations take the
  module parameters as they are when the operation starts; what the platform answers (whether the
  interrupt can be requested, the status words it raises) is an argument.
\<close>

section \<open>Configuration\<close>

text \<open>A stage that reads and writes registers only.\<close>

definition on_io :: "(regs \<Rightarrow> regs) \<Rightarrow> ar_isp \<Rightarrow> ar_isp" where
  "on_io f s = s\<lparr>isp_io := f (isp_io s)\<rparr>"

definition ar_isp_is_hw_owned :: "nat \<Rightarrow> bool" where
  "ar_isp_is_hw_owned off = list_ex (\<lambda>o'. o' = off) ar_isp_hw_owned"

definition ar_isp_apply_trim :: "regs \<Rightarrow> regs" where
  "ar_isp_apply_trim R =
     fold (\<lambda>(off, v) R. if \<not> ar_isp_is_hw_owned off then R(off := v) else R) ar_isp_vendor_trim R"

text \<open>What both configurations do after their replay.\<close>

definition derive_stages :: "isp_params \<Rightarrow> ar_isp \<Rightarrow> ar_isp" where
  "derive_stages p s =
     (let s1 = on_io (ar_isp_rgb2yuv_apply p) s;
          s2 = on_io (ar_isp_ladders_apply p (isp_tuning s)) s1;
          s3 = on_io ar_isp_de3d_geom_apply s2
      in on_io (\<lambda>R. fst (ar_isp_gates_veto (isp_tuning s) (p_gates p) R)) s3)"

definition ar_isp_configure :: "isp_params \<Rightarrow> vendor_mem \<Rightarrow> ar_isp \<Rightarrow> ar_isp" where
  "ar_isp_configure p vendor s =
     (let s1 = on_io (ar_isp_apply ar_isp_kept) s;
          s2 = on_io (ar_isp_apply ar_isp_setup_1080p60) s1;
          s3 = (if p_trim p then on_io ar_isp_apply_trim s2 else s2);
          s4 = on_io (ar_isp_apply ar_isp_output_fix) s3;
          s5 = on_io (ar_isp_apply ar_isp_lnr_fix) s4;
          s6 = ar_isp_tables_apply p vendor s5
      in (derive_stages p s6)\<lparr>configured := True\<rparr>)"

definition ar_isp_configure_prefix :: "isp_params \<Rightarrow> vendor_mem \<Rightarrow> nat \<Rightarrow> ar_isp \<Rightarrow> ar_isp" where
  "ar_isp_configure_prefix p vendor n s =
     (let n1 = (if n > length ar_isp_setup_1080p60 then length ar_isp_setup_1080p60 else n);
          s1 = on_io (ar_isp_apply ar_isp_kept) s;
          s2 = on_io (ar_isp_apply (take n1 ar_isp_setup_1080p60)) s1;
          s3 = on_io (ar_isp_apply ar_isp_output_fix) s2;
          s4 = on_io (ar_isp_apply ar_isp_lnr_fix) s3;
          s5 = ar_isp_tables_apply p vendor s4
      in (derive_stages p s5)\<lparr>configured := True\<rparr>)"

section \<open>The output arm\<close>

text \<open>The interrupt line is requested once, if it is wanted and there is one.\<close>

definition request_line :: "isp_params \<Rightarrow> bool \<Rightarrow> ar_isp \<Rightarrow> ar_isp" where
  "request_line p irq_ok s =
     (if p_use_irq p \<and> irq_line s > 0 \<and> \<not> irq_requested s \<and> irq_ok then log_event Irq_request (s\<lparr>irq_requested := True\<rparr>) else s)"

text \<open>The parameters are a result: the colour-correction pass can reset its bank number.  \<open>irq_ok\<close> is whether the
  interrupt line can be requested.\<close>

definition ar_isp_arm_output :: "isp_params \<Rightarrow> bool \<Rightarrow> ar_isp \<Rightarrow> ar_isp \<times> isp_params" where
  "ar_isp_arm_output p irq_ok s =
     (let s1 = on_io (ar_isp_apply ar_isp_output_arm) s;
          s2 = ar_isp_de3d_publish (ar_isp_stats_publish s1);
          (R3, p') = ar_isp_ccm_apply p (isp_tuning s2) (isp_io s2);
          s3 = s2\<lparr>isp_io := R3\<rparr>;
          s4 = on_io (ar_isp_ladders_apply p' (isp_tuning s3)) s3;
          s5 = on_io (ar_isp_dpc_apply p') s4;
          s6 = (if p_gib p' then on_io (\<lambda>R. R(0x2408 := R 0x2408 OR 0x40000000)) s5 else s5);
          s7 = isp_writel 0x1e40 0 (isp_writel 0x1c60 0 s6);
          s8 = ar_isp_publish_lsc s7
      in (request_line p' irq_ok s8, p'))"

section \<open>The interrupt\<close>

text \<open>The handler, on the two status words it reads and the registered frame hook; \<open>None\<close> is \<open>IRQ_NONE\<close>, otherwise the
  new state and the calls of the hook.\<close>

definition ar_isp_irq :: "isp_params \<Rightarrow> nat option \<Rightarrow> u32 \<Rightarrow> u32 \<Rightarrow> ar_isp \<Rightarrow> (ar_isp \<times> nat list) option" where
  "ar_isp_irq p hook s0 s1 s =
     (if s0 = 0 \<and> s1 = 0 then None
      else
        let a = isp_writel 0x00d4 s1 (isp_writel 0x00cc s0 s);
            b = a\<lparr>irq_events := irq_events a + 1, irq_seen0 := irq_seen0 a OR s0, irq_seen1 := irq_seen1 a OR s1\<rparr>
        in if s1 AND 0x100 = 0 then Some (b, [])
           else
             let c = b\<lparr>irq_stats_events := irq_stats_events b + 1\<rparr>;
                 calls = (case hook of None \<Rightarrow> [] | Some ctx \<Rightarrow> [ctx])
             in if \<not> p_pingpong p then Some (c, calls)
                else
                  let nxt = stats_cur c XOR 1;
                      d = ar_isp_stats_arm nxt c
                  in Some (d\<lparr>stats_done := stats_cur c, stats_cur := nxt, stats_valid := True, stats_flips := stats_flips c + 1\<rparr>, calls))"

section \<open>Debugfs nodes and the exported call\<close>

definition ar_isp_configure_set :: "isp_params \<Rightarrow> vendor_mem \<Rightarrow> u64 \<Rightarrow> ar_isp \<Rightarrow> errno + ar_isp" where
  "ar_isp_configure_set p vendor val s = (if val = 0 then Inl EINVAL else Inr (ar_isp_configure p vendor s))"

definition ar_isp_prefix_set :: "isp_params \<Rightarrow> vendor_mem \<Rightarrow> u64 \<Rightarrow> ar_isp \<Rightarrow> ar_isp" where
  "ar_isp_prefix_set p vendor val s = ar_isp_configure_prefix p vendor (unat val) s"

definition ar_isp_arm_set :: "isp_params \<Rightarrow> bool \<Rightarrow> u64 \<Rightarrow> ar_isp \<Rightarrow> ar_isp \<times> isp_params" where
  "ar_isp_arm_set p irq_ok val s = (if val \<noteq> 0 then ar_isp_arm_output p irq_ok s else (s, p))"

definition ar_isp_ladders_set :: "isp_params \<Rightarrow> u64 \<Rightarrow> ar_isp \<Rightarrow> ar_isp" where
  "ar_isp_ladders_set p val s =
     (if val \<noteq> 0 then on_io ar_isp_de3d_geom_apply (on_io (ar_isp_ladders_apply p (isp_tuning s)) s) else s)"

definition ar_isp_tone_set :: "isp_params \<Rightarrow> u64 \<Rightarrow> ar_isp \<Rightarrow> ar_isp" where
  "ar_isp_tone_set p val s = (if val \<noteq> 0 then ar_isp_tone_apply p (val > 1) s else s)"

text \<open>The one instance, absent before probe and after remove.\<close>

definition ar_isp_pipeline_start :: "isp_params \<Rightarrow> vendor_mem \<Rightarrow> bool \<Rightarrow> ar_isp option \<Rightarrow> errno + ar_isp \<times> isp_params" where
  "ar_isp_pipeline_start p vendor irq_ok inst =
     (case inst of
        None \<Rightarrow> Inl ENODEV
      | Some s \<Rightarrow> Inr (ar_isp_arm_output p irq_ok (ar_isp_configure_prefix p vendor (p_setup_entries p) s)))"

section \<open>The tone-mapping page node\<close>

record ar_isp_ltm_feed =
  fd_buf :: mem
  fd_filled :: nat
  fd_pos :: nat

definition ar_isp_ltm_page_open :: ar_isp_ltm_feed where
  "ar_isp_ltm_page_open = \<lparr>fd_buf = (\<lambda>_. 0), fd_filled = 0, fd_pos = 0\<rparr>"

text \<open>\<open>simple_write_to_buffer\<close>: at most what is left of the buffer, minus what the copy could not bring over; nothing
  copied at all is a fault.  The result is the count taken.\<close>

definition ar_isp_ltm_page_write :: "u8 list \<Rightarrow> nat \<Rightarrow> ar_isp_ltm_feed \<Rightarrow> (errno + nat) \<times> ar_isp_ltm_feed" where
  "ar_isp_ltm_page_write data uncopied fd =
     (if fd_pos fd \<ge> AR_ISP_LTM_PAGE_SIZE \<or> data = [] then (Inr 0, fd)
      else
        let count = min (length data) (AR_ISP_LTM_PAGE_SIZE - fd_pos fd);
            left = min uncopied count;
            got = count - left;
            buf = (\<lambda>i. if fd_pos fd \<le> i \<and> i < fd_pos fd + got then data ! (i - fd_pos fd) else fd_buf fd i)
        in if got = 0 then (Inl EFAULT, fd)
           else
             let pos = fd_pos fd + got
             in (Inr got, fd\<lparr>fd_buf := buf, fd_pos := pos, fd_filled := (if pos > fd_filled fd then pos else fd_filled fd)\<rparr>))"

definition ar_isp_ltm_page_release :: "ar_isp_ltm_feed \<Rightarrow> ar_isp \<Rightarrow> ar_isp" where
  "ar_isp_ltm_page_release fd s =
     (if fd_filled fd = AR_ISP_LTM_PAGE_SIZE
      then (case ar_isp_ltm_page_publish (fd_buf fd) s of Inl e \<Rightarrow> s | Inr s' \<Rightarrow> s')
      else s)"

text \<open>A read of \<open>count\<close> bytes at \<open>pos\<close>, from the half the descriptor names.\<close>

definition ar_isp_ltm_page_read :: "nat \<Rightarrow> nat \<Rightarrow> ar_isp \<Rightarrow> errno + u8 list" where
  "ar_isp_ltm_page_read pos count s =
     (case isp_bufs s Ltm_page of
        None \<Rightarrow> Inl ENODEV
      | Some c \<Rightarrow> Inr (map (\<lambda>i. co_mem c (ltm_page_half s * AR_ISP_LTM_PAGE_SIZE + i))
                         [pos..<min (pos + count) AR_ISP_LTM_PAGE_SIZE]))"

section \<open>Probe and remove\<close>

definition ar_isp_remove :: "ar_isp \<Rightarrow> ar_isp" where
  "ar_isp_remove s =
     (let s1 = (if irq_requested s then log_event Irq_free s else s)
      in log_event Clk_off (ar_isp_tables_release s1))"

text \<open>What the platform answers while probing: the register window, the two clocks, their enabling, the number of
  the interrupt line, and what the preparation asks.\<close>

record probe_env =
  pb_ioremap :: bool
  pb_clk_get :: bool
  pb_clk_enable :: bool
  pb_irq :: int
  pb_prepare :: prep_env

definition ar_isp_probe :: "isp_params \<Rightarrow> probe_env \<Rightarrow> errno + ar_isp" where
  "ar_isp_probe p env =
     (if \<not> pb_ioremap env then Inl ENOMEM
      else if \<not> pb_clk_get env then Inl ENODEV
      else if \<not> pb_clk_enable env then Inl EIO
      else
        let s1 = ar_isp_tables_prepare p (pb_prepare env) (log_event Clk_on isp_zeroed)
        in Inr (if p_use_irq p then s1\<lparr>irq_line := pb_irq env\<rparr> else s1))"

section \<open>Registers a stage leaves alone\<close>

definition keeps :: "nat set \<Rightarrow> (regs \<Rightarrow> regs) \<Rightarrow> bool" where
  "keeps S f \<longleftrightarrow> (\<forall>R. \<forall>off \<in> S. f R off = R off)"

lemma keepsD: "keeps S f \<Longrightarrow> off \<in> S \<Longrightarrow> f R off = R off"
  by (simp add: keeps_def)

lemma keeps_comp: "keeps S f \<Longrightarrow> keeps S g \<Longrightarrow> keeps S (\<lambda>R. g (f R))"
  by (simp add: keeps_def)

lemma keeps_apply: "fst ` set tbl \<inter> S = {} \<Longrightarrow> keeps S (ar_isp_apply tbl)"
  by (auto simp: keeps_def intro!: apply_other)

lemma keeps_fold: "(\<And>x. x \<in> set xs \<Longrightarrow> keeps S (f x)) \<Longrightarrow> keeps S (fold f xs)"
  by (induction xs) (auto simp: keeps_def)

text \<open>The registers the gain-keyed pass writes.\<close>

definition ladder_span :: "nat set" where
  "ladder_span = {0x1808..<0x1890} \<union> {0x3cc8..<0x3e20} \<union> (\<lambda>(off, m). 0x2e00 + off) ` set ar_isp_de3d_regs \<union> {0x800..<0x900} \<union>
     {0x3c64..<0x3ca8} \<union> {0x4804..<0x4840}"

lemma ladder_writes_span: "fst ` set (ladder_writes p blob R) \<subseteq> ladder_span"
proof -
  have o: "fst ` set ws \<subseteq> S \<Longrightarrow> fst ` set (on_when par gate ws) \<subseteq> S" for S par gate and ws :: "mwrite list" by (simp add: on_when_def)
  have r: "in_range lo hi ws \<Longrightarrow> {lo..<hi} \<subseteq> S \<Longrightarrow> fst ` set ws \<subseteq> S" for lo hi ws S by (fastforce simp: in_range_def)
  have "fst ` set (de3d_writes p blob) \<subseteq> ladder_span"
    unfolding set_map [symmetric] de3d_offsets by (auto simp: ladder_span_def)
  then show ?thesis
    unfolding ladder_writes_def set_append image_Un Un_subset_iff
    by (intro conjI o r [OF rnr_range] r [OF lnr_range] r [OF cfa_range] r [OF cnf_range] r [OF cm_range] r [OF cm2_range])
       (auto simp: ladder_span_def)
qed

lemma keeps_ladders: "S \<inter> ladder_span = {} \<Longrightarrow> keeps S (ar_isp_ladders_apply p t)"
proof (cases t)
  case None
  then show ?thesis by (simp add: keeps_def ladders_no_file)
next
  case (Some blob)
  assume "S \<inter> ladder_span = {}"
  then have "off \<notin> fst ` set (ladder_writes p blob R)" if "off \<in> S" for off R using ladder_writes_span [of p blob R] that by blast
  then show ?thesis unfolding keeps_def Some ladders_run by (simp add: mrun_other)
qed

lemma keeps_geom: "S \<inter> (\<lambda>(off, m). 0x2e00 + off) ` set ar_isp_de3d_geom_regs = {} \<Longrightarrow> keeps S ar_isp_de3d_geom_apply"
  unfolding keeps_def by (intro allI ballI geom_other) blast

lemma keeps_rgb2yuv: "S \<inter> {0x3c00..<0x3c18} = {} \<Longrightarrow> keeps S (ar_isp_rgb2yuv_apply p)"
proof -
  assume s: "S \<inter> {0x3c00..<0x3c18} = {}"
  have "keeps S (fold (\<lambda>i R. R(0x3c00 + i * 4 := m ! i)) [0..<6])" for m :: "u32 list"
    by (rule keeps_fold) (use s in \<open>auto simp: keeps_def simp del: upt_rec_numeral\<close>)
  then show ?thesis unfolding keeps_def ar_isp_rgb2yuv_apply_def Let_def by (simp del: upt_rec_numeral fold_simps)
qed

lemma keeps_dpc: "S \<inter> {0xc00..<0xd0c} = {} \<Longrightarrow> keeps S (ar_isp_dpc_apply p)"
proof -
  assume s: "S \<inter> {0xc00..<0xd0c} = {}"
  have "fst ` set ar_isp_dpc_payload \<subseteq> {0xc00..<0xd0c}" by (simp add: ar_isp_dpc_payload_def)
  then have "keeps S (ar_isp_apply ar_isp_dpc_payload)" using s by (intro keeps_apply) blast
  then show ?thesis by (simp add: keeps_def ar_isp_dpc_apply_def)
qed

lemma keeps_write_run: "S \<inter> {base..<base + 4 * length ws} = {} \<Longrightarrow> keeps S (write_run base ws)"
  unfolding write_run_def [abs_def] by (intro keeps_fold) (auto simp: keeps_def)

lemma keeps_ccm: "S \<inter> ({0x3400..<0x3450} \<union> {0x3800..<0x3850}) = {} \<Longrightarrow> keeps S (\<lambda>R. fst (ar_isp_ccm_apply p t R))"
proof -
  assume s: "S \<inter> ({0x3400..<0x3450} \<union> {0x3800..<0x3850}) = {}"
  have l: "length ar_isp_ccm1_init = 20" "length ar_isp_ccm2_init = 20" by (simp_all add: ar_isp_ccm1_init_def ar_isp_ccm2_init_def)
  have 1: "keeps S (write_run 0x3400 ar_isp_ccm1_init)" "keeps S (write_run 0x3800 ar_isp_ccm2_init)"
    by (rule keeps_write_run, use s l in auto)+
  have 2: "keeps S (fold (\<lambda>i R. R(0x3400 + i * 4 := v i)) [0..<6])" for v
    by (rule keeps_fold) (use s in \<open>auto simp: keeps_def simp del: upt_rec_numeral\<close>)
  show ?thesis
    using 1 2 unfolding ar_isp_ccm_apply_def Let_def keeps_def
    by (auto split: option.split simp del: upt_rec_numeral fold_simps)
qed

lemma ccm_params: "snd (ar_isp_ccm_apply p t R) = p \<or> snd (ar_isp_ccm_apply p t R) = p\<lparr>p_ccm_bank := 0\<rparr>"
  by (auto simp: ar_isp_ccm_apply_def Let_def split: option.split)

lemma keeps_veto: "S \<inter> (\<lambda>a. gate_reg (snd a)) ` set demands = {} \<Longrightarrow> keeps S (\<lambda>R. fst (ar_isp_gates_veto t c R))"
proof -
  assume s: "S \<inter> (\<lambda>a. gate_reg (snd a)) ` set demands = {}"
  have k: "fst (fold (\<lambda>(w, g). veto_gate c w g) es x) off = fst x off" if "\<forall>(w, g) \<in> set es. gate_reg g \<noteq> off" for es x off
    using that by (induction es arbitrary: x) (auto simp: veto_gate_def Let_def)
  have "\<forall>(w, g) \<in> set (stage_entries blob ar_isp_stages). gate_reg g \<noteq> off" if "off \<in> S" for blob off
  proof -
    have "\<forall>a \<in> set demands. gate_reg (snd a) \<noteq> off" using s that by blast
    then show ?thesis unfolding stage_entries_demands by fastforce
  qed
  then show ?thesis unfolding keeps_def ar_isp_gates_veto_def veto_entries using k by (auto split: option.split)
qed

section \<open>The descriptors survive the register stages\<close>

definition desc_set :: "nat set" where
  "desc_set = {0x30, 0x40, 0x50, 0x60, 0x20, 0x1c6c, 0x4c34, 0x1e38, 0x6440, 0x6474, 0x6508, 0x600c, 0x2808, 0x280c,
     0x2e3c, 0x2e58, 0x2e44, 0x2e60, 0x2e80, 0x2e88}"

lemma descriptors_in: "(off, b, d) \<in> set (isp_descriptors p c h) \<Longrightarrow> off \<in> desc_set"
  by (simp add: isp_descriptors_def desc_set_def split: if_splits; elim disjE conjE; simp)

text \<open>Names within a set of registers.\<close>

definition names_in :: "nat set \<Rightarrow> isp_params \<Rightarrow> ar_isp \<Rightarrow> bool" where
  "names_in S p s \<longleftrightarrow>
     (\<forall>(off, b, d) \<in> set (isp_descriptors p (stats_cur s) (ltm_page_half s)).
        off \<in> S \<longrightarrow> (\<forall>c. isp_bufs s b = Some c \<longrightarrow> isp_io s off = lower_32_bits (co_dma c + of_nat d)))"

lemma names_in_own: "desc_set \<subseteq> S \<Longrightarrow> names_in S p s \<longleftrightarrow> names_own p s"
  unfolding names_in_def names_own_def using descriptors_in by (fastforce simp: case_prod_beta)

text \<open>A step that changes registers outside \<open>S\<close> only.\<close>

lemma names_in_step:
  assumes "names_in S p s" "T \<subseteq> S" "\<And>off. off \<in> T \<Longrightarrow> isp_io s' off = isp_io s off" "isp_bufs s' = isp_bufs s"
    "stats_cur s' = stats_cur s" "ltm_page_half s' = ltm_page_half s"
  shows "names_in T p s'"
  using assms unfolding names_in_def by (auto simp: case_prod_beta subset_iff)

lemma names_in_params: "p_hdr p' = p_hdr p \<Longrightarrow> names_in S p' s = names_in S p s"
  by (simp add: names_in_def isp_descriptors_def)

lemma names_in_Un: "names_in S p s \<Longrightarrow> names_in T p s \<Longrightarrow> names_in (S \<union> T) p s"
  unfolding names_in_def by (auto simp: case_prod_beta)

lemma on_io_keeps [simp]:
  "isp_io (on_io f s) = f (isp_io s)" "isp_bufs (on_io f s) = isp_bufs s" "isp_tuning (on_io f s) = isp_tuning s"
  "isp_trace (on_io f s) = isp_trace s" "stats_cur (on_io f s) = stats_cur s" "stats_done (on_io f s) = stats_done s"
  "stats_valid (on_io f s) = stats_valid s" "stats_flips (on_io f s) = stats_flips s" "ltm_page_half (on_io f s) = ltm_page_half s"
  "last_gamma (on_io f s) = last_gamma s" "last_drc (on_io f s) = last_drc s" "irq_requested (on_io f s) = irq_requested s"
  "irq_line (on_io f s) = irq_line s"
  by (simp_all add: on_io_def)

definition gate_regs :: "nat set" where
  "gate_regs = {0x7600, 0x7400, 0x75ac, 0x75b0, 0x6c00, 0x3c40, 0x1800, 0x0, 0x4838, 0x4800, 0x3c64, 0x3900, 0x18, 0x64c8, 0x2408, 0x2800,
     0x1e4c, 0x1df0, 0x1e34, 0x8604, 0x8400, 0x3cc8, 0x7268, 0x4c00, 0x4c24, 0x5800, 0x580c, 0x5824, 0x583c, 0x5854, 0x5864,
     0x4000, 0x6000, 0x5c00, 0x5400, 0x6400}"

lemma demand_regs: "(\<lambda>a. gate_reg (snd a)) ` set demands \<subseteq> gate_regs"
proof -
  have "list_all (\<lambda>a. gate_reg (snd a) \<in> gate_regs) demands"
    by (simp add: demands_def stage_active_def ar_isp_stages_def gates_defs gate_regs_def)
  then show ?thesis by (simp only: list_all_iff image_subset_iff)
qed

definition geom_set :: "nat set" where
  "geom_set = (\<lambda>(off, m). 0x2e00 + off) ` set ar_isp_de3d_geom_regs"

lemma sets_apart:
  "desc_set \<inter> ladder_span = {}" "desc_set \<inter> geom_set = {}" "desc_set \<inter> {0x3c00..<0x3c18} = {}" "desc_set \<inter> {0xc00..<0xd0c} = {}"
  "desc_set \<inter> ({0x3400..<0x3450} \<union> {0x3800..<0x3850}) = {}" "desc_set \<inter> (\<lambda>a. gate_reg (snd a)) ` set demands = {}"
proof -
  show "desc_set \<inter> ladder_span = {}" "desc_set \<inter> geom_set = {}"
    by (simp_all add: desc_set_def ladder_span_def geom_set_def ar_isp_de3d_regs_def ar_isp_de3d_geom_regs_def)
  show "desc_set \<inter> {0x3c00..<0x3c18} = {}" "desc_set \<inter> {0xc00..<0xd0c} = {}" "desc_set \<inter> ({0x3400..<0x3450} \<union> {0x3800..<0x3850}) = {}"
    by (simp_all add: desc_set_def)
  have "desc_set \<inter> gate_regs = {}" by (simp add: desc_set_def gate_regs_def)
  then show "desc_set \<inter> (\<lambda>a. gate_reg (snd a)) ` set demands = {}" using demand_regs by blast
qed

lemma keeps_derive:
  assumes "S \<inter> ladder_span = {}" "S \<inter> geom_set = {}" "S \<inter> {0x3c00..<0x3c18} = {}" "S \<inter> (\<lambda>a. gate_reg (snd a)) ` set demands = {}"
  shows "off \<in> S \<Longrightarrow> isp_io (derive_stages p s) off = isp_io s off"
  using keepsD [OF keeps_ladders [OF assms(1)]] keepsD [OF keeps_geom [OF assms(2) [unfolded geom_set_def]]]
    keepsD [OF keeps_rgb2yuv [OF assms(3)]] keepsD [OF keeps_veto [OF assms(4)]]
  by (simp add: derive_stages_def Let_def)

lemma derive_keeps [simp]:
  "isp_bufs (derive_stages p s) = isp_bufs s" "isp_tuning (derive_stages p s) = isp_tuning s" "isp_trace (derive_stages p s) = isp_trace s"
  "stats_cur (derive_stages p s) = stats_cur s" "stats_done (derive_stages p s) = stats_done s" "stats_valid (derive_stages p s) = stats_valid s"
  "stats_flips (derive_stages p s) = stats_flips s"
  "ltm_page_half (derive_stages p s) = ltm_page_half s" "last_gamma (derive_stages p s) = last_gamma s" "last_drc (derive_stages p s) = last_drc s"
  "irq_requested (derive_stages p s) = irq_requested s" "irq_line (derive_stages p s) = irq_line s"
  by (simp_all add: derive_stages_def Let_def)

lemma tables_apply_names: "p_tables p \<Longrightarrow> names_own p (ar_isp_tables_apply p v s)"
  unfolding tables_apply_form
proof -
  have "ltm_page_half (fill_all p v s) = ltm_page_half s" using fill_all_fills isp_rest_fields(3) unfolding fills_only_def by blast
  then show "names_own p (write_list (table_writes p (isp_bufs (fill_all p v s)) (ltm_page_half s)) (reset_stats (log_event Barrier (fill_all p v s))))"
    by (intro names_ownI) (simp_all add: table_writes_value)
qed

lemma configured_io [simp]: "isp_io (s\<lparr>configured := b\<rparr>) = isp_io s" "isp_bufs (s\<lparr>configured := b\<rparr>) = isp_bufs s"
  by simp_all

lemma derive_names: "names_own p s \<Longrightarrow> names_own p ((derive_stages p s)\<lparr>configured := True\<rparr>)"
  unfolding names_in_own [OF subset_refl, symmetric]
  by (rule names_in_step [OF _ subset_refl]) (simp_all add: keeps_derive [OF sets_apart(1,2,3,6)])

lemma prefix_names: "p_tables p \<Longrightarrow> names_own p (ar_isp_configure_prefix p v n s)"
  by (simp add: ar_isp_configure_prefix_def Let_def derive_names tables_apply_names)

lemma configure_names: "p_tables p \<Longrightarrow> names_own p (ar_isp_configure p v s)"
  by (simp add: ar_isp_configure_def Let_def derive_names tables_apply_names)

text \<open>The statistics, tone-mapping and de3d registers after their publication, whatever was there.\<close>

definition restat_set :: "nat set" where
  "restat_set = {0x6440, 0x6474, 0x6508, 0x600c, 0x2808, 0x280c, 0x2e3c, 0x2e58, 0x2e44, 0x2e60, 0x2e80, 0x2e88}"

lemma restat_at:
  assumes "(off, b, d) \<in> set (isp_descriptors p 0 half)" "off \<in> restat_set" "B b = Some c"
  shows "(off, lower_32_bits (co_dma c + of_nat d)) \<in> set (stats_writes B half @ de3d_buf_writes B)"
proof -
  have o: "x \<in> set (gamma_writes c') \<Longrightarrow> fst x \<notin> restat_set" "x \<in> set (drc_writes c') \<Longrightarrow> fst x \<notin> restat_set"
    "x \<in> set (tone_writes p c') \<Longrightarrow> fst x \<notin> restat_set" "x \<in> set (lsc_writes c') \<Longrightarrow> fst x \<notin> restat_set"
    "x \<in> set (hdr_lsc_writes c') \<Longrightarrow> fst x \<notin> restat_set" for x c'
    by (auto simp: gamma_writes_def drc_writes_def tone_writes_def lsc_writes_def hdr_lsc_writes_def restat_set_def Let_def split: if_splits)
  have "x \<in> set (stats_writes B half @ de3d_buf_writes B)" if "x \<in> set (table_writes p B half)" "fst x \<in> restat_set" for x
    using that o [of x] unfolding in_table_writes set_append by blast
  then show ?thesis using table_writes_at(1) [of off b d p half B c, OF assms(1,3)] assms(2) by (metis fst_conv)
qed

lemma restat_only: "(off, v) \<in> set (stats_writes B half @ de3d_buf_writes B) \<Longrightarrow> (off, v) \<in> set (table_writes p B half)"
  by (auto simp: in_table_writes)

lemma restat_value:
  assumes "(off, b, d) \<in> set (isp_descriptors p 0 half)" "off \<in> restat_set" "B b = Some c"
  shows "ar_isp_apply (stats_writes B half @ de3d_buf_writes B) R off = lower_32_bits (co_dma c + of_nat d)"
  by (rule apply_value [OF restat_at [where B = B, OF assms]]) (rule table_writes_at(2) [where B = B, OF assms(1,3) restat_only])

lemma restat_other: "off \<notin> insert 0x2834 restat_set \<Longrightarrow> ar_isp_apply (stats_writes B half @ de3d_buf_writes B) R off = R off"
proof (rule apply_other)
  assume o: "off \<notin> insert 0x2834 restat_set"
  have "x \<in> set (stats_writes B half @ de3d_buf_writes B) \<Longrightarrow> fst x \<in> insert 0x2834 restat_set" for x
    by (auto simp: stats_writes_def de3d_buf_writes_def arm_writes_def in_buf_writes Let_def restat_set_def)
  then show "off \<notin> fst ` set (stats_writes B half @ de3d_buf_writes B)" using o by blast
qed


section \<open>The output arm\<close>

text \<open>The register stages between the publications of the arm.\<close>

definition arm_stages :: "isp_params \<Rightarrow> mem option \<Rightarrow> regs \<Rightarrow> regs" where
  "arm_stages p t R0 =
     (let (R1, p') = ar_isp_ccm_apply p t R0;
          R3 = ar_isp_dpc_apply p' (ar_isp_ladders_apply p' t R1)
      in if p_gib p' then R3(0x2408 := R3 0x2408 OR 0x40000000) else R3)"

lemma request_line_keeps [simp]:
  "isp_io (request_line p k s) = isp_io s" "isp_bufs (request_line p k s) = isp_bufs s" "isp_tuning (request_line p k s) = isp_tuning s"
  "stats_cur (request_line p k s) = stats_cur s" "stats_done (request_line p k s) = stats_done s" "stats_valid (request_line p k s) = stats_valid s"
  "ltm_page_half (request_line p k s) = ltm_page_half s" "last_gamma (request_line p k s) = last_gamma s" "last_drc (request_line p k s) = last_drc s"
  by (simp_all add: request_line_def)

definition arm_publishes :: "ar_isp \<Rightarrow> ar_isp" where
  "arm_publishes s = write_list (stats_writes (isp_bufs s) (ltm_page_half s) @ de3d_buf_writes (isp_bufs s))
     (reset_stats (on_io (ar_isp_apply ar_isp_output_arm) s))"

lemma ccm_params_same: "p_gib (snd (ar_isp_ccm_apply p t R)) = p_gib p" "p_use_irq (snd (ar_isp_ccm_apply p t R)) = p_use_irq p"
  "p_hdr (snd (ar_isp_ccm_apply p t R)) = p_hdr p" "p_pingpong (snd (ar_isp_ccm_apply p t R)) = p_pingpong p"
  "ar_isp_ladders_apply (snd (ar_isp_ccm_apply p t R)) u = ar_isp_ladders_apply p u" "ar_isp_dpc_apply (snd (ar_isp_ccm_apply p t R)) = ar_isp_dpc_apply p"
  "ar_isp_ladders_show (snd (ar_isp_ccm_apply p t R)) u = ar_isp_ladders_show p u"
proof -
  have f: "p_rnr_gain (p\<lparr>p_ccm_bank := 0\<rparr>) = p_rnr_gain p" "p_lnr_gain (p\<lparr>p_ccm_bank := 0\<rparr>) = p_lnr_gain p"
    "p_de3d_gain (p\<lparr>p_ccm_bank := 0\<rparr>) = p_de3d_gain p" "p_cfa_gain (p\<lparr>p_ccm_bank := 0\<rparr>) = p_cfa_gain p"
    "p_cnf_gain (p\<lparr>p_ccm_bank := 0\<rparr>) = p_cnf_gain p" "p_cm_trigger (p\<lparr>p_ccm_bank := 0\<rparr>) = p_cm_trigger p"
    "p_cm2_trigger (p\<lparr>p_ccm_bank := 0\<rparr>) = p_cm2_trigger p" "p_de3d_strength (p\<lparr>p_ccm_bank := 0\<rparr>) = p_de3d_strength p"
    "p_de3d_strength9 (p\<lparr>p_ccm_bank := 0\<rparr>) = p_de3d_strength9 p" "p_dpc (p\<lparr>p_ccm_bank := 0\<rparr>) = p_dpc p" by simp_all
  have l: "ar_isp_ladders_apply (p\<lparr>p_ccm_bank := 0\<rparr>) u = ar_isp_ladders_apply p u"
    by (rule ext) (simp only: ar_isp_ladders_apply_def stage_apply_defs de3d_user_strength_def f)
  have w: "ar_isp_ladders_show (p\<lparr>p_ccm_bank := 0\<rparr>) u = ar_isp_ladders_show p u"
    by (rule ext) (simp only: ar_isp_ladders_show_def ladder_report_def rnr_lines_def lnr_lines_def de3d_lines_def cfa_lines_def
        cnf_lines_def cm_lines_def cm2_lines_def f)
  have d: "ar_isp_dpc_apply (p\<lparr>p_ccm_bank := 0\<rparr>) = ar_isp_dpc_apply p" by (rule ext) (simp only: ar_isp_dpc_apply_def f)
  show "p_gib (snd (ar_isp_ccm_apply p t R)) = p_gib p" "p_use_irq (snd (ar_isp_ccm_apply p t R)) = p_use_irq p"
    "p_hdr (snd (ar_isp_ccm_apply p t R)) = p_hdr p" "p_pingpong (snd (ar_isp_ccm_apply p t R)) = p_pingpong p"
    "ar_isp_ladders_apply (snd (ar_isp_ccm_apply p t R)) u = ar_isp_ladders_apply p u" "ar_isp_dpc_apply (snd (ar_isp_ccm_apply p t R)) = ar_isp_dpc_apply p"
    "ar_isp_ladders_show (snd (ar_isp_ccm_apply p t R)) u = ar_isp_ladders_show p u"
    using ccm_params [of p t R] l w d by auto
qed

lemma arm_form:
  "fst (ar_isp_arm_output p k s) =
     request_line p k (write_list ([(0x1c60, 0), (0x1e40, 0)] @ buf_writes (isp_bufs s) Lsc lsc_writes) (on_io (arm_stages p (isp_tuning s)) (arm_publishes s)))"
proof -
  obtain R3 p' where c: "ar_isp_ccm_apply p (isp_tuning s) (isp_io (arm_publishes s)) = (R3, p')" by fastforce
  have pr: "ar_isp_de3d_publish (ar_isp_stats_publish (on_io (ar_isp_apply ar_isp_output_arm) s)) = arm_publishes s"
    by (simp add: stats_publish_writes de3d_publish_writes write_list_simps arm_publishes_def reset_stats_def)
  have b: "isp_tuning (arm_publishes s) = isp_tuning s" "isp_bufs (arm_publishes s) = isp_bufs s" by (simp_all add: arm_publishes_def)
  have u: "p_use_irq p' = p_use_irq p" "p_gib p' = p_gib p"
    using ccm_params_same(1,2) [of p "isp_tuning s" "isp_io (arm_publishes s)"] c by simp_all
  have rq: "request_line p' = request_line p" by (intro ext) (simp add: request_line_def u)
  show ?thesis
    unfolding ar_isp_arm_output_def Let_def pr b c prod.case
    by (cases "p_gib p") (simp_all add: publish_writes write_list_simps rq arm_stages_def b c u on_io_def Let_def)
qed

lemma arm_params: "\<exists>R. snd (ar_isp_arm_output p k s) = snd (ar_isp_ccm_apply p (isp_tuning s) R)"
  by (simp add: ar_isp_arm_output_def Let_def case_prod_beta stats_publish_writes de3d_publish_writes) blast

lemma arm_stages_keep:
  assumes "off \<in> S" "S \<inter> ladder_span = {}" "S \<inter> {0xc00..<0xd0c} = {}" "S \<inter> ({0x3400..<0x3450} \<union> {0x3800..<0x3850}) = {}" "0x2408 \<notin> S"
  shows "arm_stages p t R off = R off"
proof -
  have "off \<noteq> 0x2408" using assms(1,5) by auto
  then show ?thesis
    using keepsD [OF keeps_ladders [OF assms(2)] assms(1)] keepsD [OF keeps_dpc [OF assms(3)] assms(1)] keepsD [OF keeps_ccm [OF assms(4)] assms(1)]
    by (simp add: arm_stages_def Let_def case_prod_beta)
qed

text \<open>The run of the arm itself, and where its publications land.\<close>

lemma arm_table_touches: "fst ` set ar_isp_output_arm \<inter> (desc_set - restat_set - {0x4c34}) = {}"
proof -
  have "list_all (\<lambda>w. fst w \<notin> desc_set - restat_set - {0x4c34}) ar_isp_output_arm"
    by (simp add: ar_isp_output_arm_def desc_set_def restat_set_def)
  then show ?thesis unfolding list_all_iff by blast
qed

lemma descriptors_shift:
  "(off, b, d) \<in> set (isp_descriptors p c h) \<Longrightarrow> off \<notin> restat_set \<Longrightarrow> (off, b, d) \<in> set (isp_descriptors p c' h')"
  by (simp add: isp_descriptors_def restat_set_def split: if_splits; elim disjE conjE; simp)

lemma arm_publishes_names:
  assumes "names_own p s"
  shows "names_in (desc_set - {0x4c34}) p (arm_publishes s)"
proof -
  have "isp_io (arm_publishes s) off = lower_32_bits (co_dma c + of_nat d)"
    if m: "(off, b, d) \<in> set (isp_descriptors p 0 (ltm_page_half s))" and o: "off \<noteq> 0x4c34" and c: "isp_bufs s b = Some c" for off b d c
  proof (cases "off \<in> restat_set")
    case True
    then show ?thesis unfolding arm_publishes_def using restat_value [where B = "isp_bufs s", OF m True c] by simp
  next
    case False
    have "off \<noteq> 0x2834" using descriptors_in [OF m] by (auto simp: desc_set_def)
    then have "isp_io (arm_publishes s) off = ar_isp_apply ar_isp_output_arm (isp_io s) off"
      unfolding arm_publishes_def using restat_other False by simp
    also have "\<dots> = isp_io s off"
      using keepsD [OF keeps_apply [OF arm_table_touches]] descriptors_in [OF m] False o by blast
    also have "\<dots> = lower_32_bits (co_dma c + of_nat d)"
      using assms c descriptors_shift [OF m False, of "stats_cur s" "ltm_page_half s"] unfolding names_own_def by (auto simp: case_prod_beta)
    finally show ?thesis .
  qed
  moreover have "stats_cur (arm_publishes s) = 0" "ltm_page_half (arm_publishes s) = ltm_page_half s" "isp_bufs (arm_publishes s) = isp_bufs s"
    by (simp_all add: arm_publishes_def)
  ultimately show ?thesis unfolding names_in_def by auto
qed

lemma lsc_value: "isp_bufs s Lsc = Some c \<Longrightarrow>
    ar_isp_apply ([(0x1c60, 0), (0x1e40, 0)] @ buf_writes (isp_bufs s) Lsc lsc_writes) R 0x4c34 = lower_32_bits (co_dma c)"
  by (simp add: buf_writes_def lsc_writes_def ar_isp_apply_def)

lemma lsc_write_other: "off \<notin> {0x1c60, 0x1e40, 0x4c34, 0x4c3c} \<Longrightarrow>
    ar_isp_apply ([(0x1c60, 0), (0x1e40, 0)] @ buf_writes B Lsc lsc_writes) R off = R off"
  by (rule apply_other) (auto simp: buf_writes_def lsc_writes_def split: option.splits)

lemma arm_names:
  assumes "names_own p s"
  shows "names_own p (fst (ar_isp_arm_output p k s))"
proof -
  let ?a = "on_io (arm_stages p (isp_tuning s)) (arm_publishes s)"
  let ?w = "write_list ([(0x1c60, 0), (0x1e40, 0)] @ buf_writes (isp_bufs s) Lsc lsc_writes) ?a"
  have st: "arm_stages p t R off = R off" if "off \<in> desc_set" for t R off
    using that by (rule arm_stages_keep [OF _ sets_apart(1,4,5)]) (simp add: desc_set_def)
  have a: "names_in (desc_set - {0x4c34}) p ?a"
    by (rule names_in_step [OF arm_publishes_names [OF assms] subset_refl]) (simp_all add: st)
  have "names_in (desc_set - {0x4c34}) p ?w"
  proof (rule names_in_step [OF a subset_refl])
    fix off assume "off \<in> desc_set - {0x4c34}"
    then have "off \<notin> {0x1c60, 0x1e40, 0x4c34, 0x4c3c}" by (auto simp: desc_set_def)
    then show "isp_io ?w off = isp_io ?a off" unfolding write_list_keeps by (rule lsc_write_other)
  qed simp_all
  moreover have "names_in {0x4c34} p ?w"
    unfolding names_in_def
  proof (clarify)
    fix b d c assume m: "(0x4c34, b, d) \<in> set (isp_descriptors p (stats_cur ?w) (ltm_page_half ?w))" and c: "isp_bufs ?w b = Some c"
    have b: "b = Lsc" "d = 0" using m by (simp_all add: isp_descriptors_def split: if_splits)
    then have "isp_bufs s Lsc = Some c" using c by (simp add: arm_publishes_def)
    from lsc_value [OF this, of "isp_io ?a"] show "isp_io ?w 0x4c34 = lower_32_bits (co_dma c + word_of_nat d)"
      unfolding write_list_keeps b by simp
  qed
  ultimately have "names_in desc_set p ?w"
    using names_in_Un [of "desc_set - {0x4c34}" p ?w "{0x4c34}"] names_in_own [of "desc_set - {0x4c34} \<union> {0x4c34}" p ?w] names_in_own [OF subset_refl, of p ?w]
    by blast
  then have "names_own p ?w" using names_in_own by blast
  then show ?thesis unfolding arm_form names_own_def by simp
qed

end
