(* ===== verification/Isp_Reach.thy ===== *)
theory Isp_Reach
  imports Isp_Driver
begin

text \<open>
  What the driver of \<open>ar-isp-main.c\<close> and \<open>ar-isp-tables.c\<close> guarantees as a whole: the exported bring-up
  call, and a step relation over the life of the device (probe, the configurations, the re-latches, the
  page node, the interrupt, the stores of the hardware) with the invariants every reachable state
  has, down to the balance of allocations, tuning file, interrupt line and clocks at remove.  An
  operation is one step; the handler and the hardware run between operations.
\<close>

section \<open>The bring-up call\<close>

lemma tables_apply_dma: "same_dma (isp_bufs s) (isp_bufs (ar_isp_tables_apply p v s))"
proof (cases "p_tables p")
  case True
  show ?thesis unfolding tables_apply_form [OF True] using fill_all_fills [of s p v] by (simp add: fills_only_def)
qed (simp add: ar_isp_tables_apply_def)

lemma arm_io: "isp_io (fst (ar_isp_arm_output p k s)) =
    ar_isp_apply ([(0x1c60, 0), (0x1e40, 0)] @ buf_writes (isp_bufs s) Lsc lsc_writes) (arm_stages p (isp_tuning s) (isp_io (arm_publishes s)))"
  by (simp add: arm_form)

lemma lsc_tail_values:
  "ar_isp_apply ([(0x1c60, 0), (0x1e40, 0)] @ buf_writes B Lsc lsc_writes) R 0x1c60 = 0"
  "ar_isp_apply ([(0x1c60, 0), (0x1e40, 0)] @ buf_writes B Lsc lsc_writes) R 0x1e40 = 0"
  "B Lsc \<noteq> None \<Longrightarrow> ar_isp_apply ([(0x1c60, 0), (0x1e40, 0)] @ buf_writes B Lsc lsc_writes) R 0x4c3c = 1"
  by (auto simp: buf_writes_def lsc_writes_def ar_isp_apply_def split: option.split)

text \<open>What the report reads is as the gain-keyed pass left it.\<close>

lemma arm_after_ladders: "0x2408 \<notin> ladder_reads" "off \<in> ladder_reads \<Longrightarrow> off \<notin> {0x1c60, 0x1e40, 0x4c34, 0x4c3c}"
  "ladder_reads \<inter> {0xc00..<0xd0c} = {}"
proof -
  have c: "set cfa_offsets \<subseteq> {0x800..<0x900}" using cfa_offsets_range by auto
  have d: "(\<lambda>(off, m). 0x2e00 + off) ` set ar_isp_de3d_regs \<subseteq> {0x2e00..<0x3000}"
    by (simp add: ar_isp_de3d_regs_def)
  show "0x2408 \<notin> ladder_reads" "off \<in> ladder_reads \<Longrightarrow> off \<notin> {0x1c60, 0x1e40, 0x4c34, 0x4c3c}" "ladder_reads \<inter> {0xc00..<0xd0c} = {}"
    using c d unfolding ladder_reads_def by fastforce+
qed

lemma arm_report:
  assumes "strength_neutral p"
  shows "snd (ar_isp_ladders_show (snd (ar_isp_arm_output p k s)) (isp_tuning s) (isp_io (fst (ar_isp_arm_output p k s)))) = 0"
proof -
  let ?t = "isp_tuning s"
  define R0 where "R0 = fst (ar_isp_ccm_apply p ?t (isp_io (arm_publishes s)))"
  have R0: "arm_stages p ?t (isp_io (arm_publishes s)) =
      (let R3 = ar_isp_dpc_apply p (ar_isp_ladders_apply p ?t R0) in if p_gib p then R3(0x2408 := R3 0x2408 OR 0x40000000) else R3)"
    by (simp only: arm_stages_def Let_def case_prod_beta ccm_params_same R0_def)
  have s: "ar_isp_ladders_show (snd (ar_isp_arm_output p k s)) ?t = ar_isp_ladders_show p ?t" for k
    using arm_params [of p k s] ccm_params_same(7) by metis
  have "ar_isp_ladders_show p ?t (isp_io (fst (ar_isp_arm_output p k s))) = ar_isp_ladders_show p ?t (ar_isp_ladders_apply p ?t R0)"
  proof (rule show_cong)
    fix off assume o: "off \<in> ladder_reads"
    have d: "ar_isp_dpc_apply p R off = R off" for R using keepsD [OF keeps_dpc [OF arm_after_ladders(3)] o] .
    have "off \<noteq> 0x2408" using o arm_after_ladders(1) by auto
    then show "isp_io (fst (ar_isp_arm_output p k s)) off = ar_isp_ladders_apply p ?t R0 off"
      unfolding arm_io lsc_write_other [OF arm_after_ladders(2) [OF o]] R0 by (simp add: d Let_def)
  qed
  moreover have "snd (ar_isp_ladders_show p ?t (ar_isp_ladders_apply p ?t R0)) = 0"
    using report_ok [OF assms] by (auto simp: ar_isp_ladders_show_def Let_def filter_empty_conv split: option.split)
  ultimately show ?thesis by (simp add: s)
qed

lemma arm_names_params: "names_own (snd (ar_isp_arm_output p k s)) s' = names_own p s'"
proof -
  obtain R where "snd (ar_isp_arm_output p k s) = snd (ar_isp_ccm_apply p (isp_tuning s) R)" using arm_params by blast
  then show ?thesis using ccm_params_same(3) [of p] by (simp add: names_own_def isp_descriptors_def)
qed

text \<open>Both configurations are the table pass between register stages.\<close>

lemma configure_forms:
  "\<exists>f. ar_isp_configure_prefix p v n s = (derive_stages p (ar_isp_tables_apply p v (on_io f s)))\<lparr>configured := True\<rparr>"
  "\<exists>f. ar_isp_configure p v s = (derive_stages p (ar_isp_tables_apply p v (on_io f s)))\<lparr>configured := True\<rparr>"
proof -
  have c: "on_io g (on_io f s) = on_io (\<lambda>R. g (f R)) s" for f g s by (simp add: on_io_def)
  show "\<exists>f. ar_isp_configure_prefix p v n s = (derive_stages p (ar_isp_tables_apply p v (on_io f s)))\<lparr>configured := True\<rparr>"
    unfolding ar_isp_configure_prefix_def Let_def c by blast
  show "\<exists>f. ar_isp_configure p v s = (derive_stages p (ar_isp_tables_apply p v (on_io f s)))\<lparr>configured := True\<rparr>"
    unfolding ar_isp_configure_def Let_def c by (cases "p_trim p") (simp only: c if_True if_False, blast)+
qed

lemma prefix_dma: "same_dma (isp_bufs s) (isp_bufs (ar_isp_configure_prefix p v n s))"
proof -
  obtain f where "ar_isp_configure_prefix p v n s = (derive_stages p (ar_isp_tables_apply p v (on_io f s)))\<lparr>configured := True\<rparr>"
    using configure_forms(1) by blast
  then show ?thesis using tables_apply_dma [where s = "on_io f s"] by simp
qed



text \<open>Without the table pass the arm still points the block at the driver's own pages, which nothing has filled.\<close>

lemma arm_without_tables:
  assumes "\<not> p_tables p" "isp_bufs s Lsc = Some c"
  shows "isp_io (fst (ar_isp_arm_output p k (ar_isp_configure_prefix p v n s))) 0x4c34 = lower_32_bits (co_dma c) \<and>
    isp_bufs (fst (ar_isp_arm_output p k (ar_isp_configure_prefix p v n s))) = isp_bufs s"
proof -
  obtain f where "ar_isp_configure_prefix p v n s = (derive_stages p (ar_isp_tables_apply p v (on_io f s)))\<lparr>configured := True\<rparr>"
    using configure_forms(1) by blast
  then have b: "isp_bufs (ar_isp_configure_prefix p v n s) = isp_bufs s" using assms(1) by (simp add: ar_isp_tables_apply_def)
  then show ?thesis using lsc_value assms(2) unfolding arm_io by (simp add: arm_form arm_publishes_def)
qed

section \<open>The life of the device\<close>

text \<open>The statistics engines: address register, buffer, size of a half.\<close>

definition stats_engines :: "(nat \<times> isp_buf \<times> nat) list" where
  "stats_engines = [(0x6440, Rro, AR_ISP_RRO_SIZE), (0x6474, Rro, AR_ISP_RRO_SIZE), (0x6508, Rro_face, AR_ISP_RRO_SIZE), (0x600c, Hist, AR_ISP_HIST_SIZE)]"

text \<open>What the hardware stores during a frame: an engine fills at most the extent its address register
  names; the tone-mapping statistics and the temporal-denoise references are its own.\<close>

definition hw_store :: "isp_buf \<Rightarrow> mem \<Rightarrow> ar_isp \<Rightarrow> ar_isp" where
  "hw_store b m s = (case isp_bufs s b of None \<Rightarrow> s | Some c \<Rightarrow> s\<lparr>isp_bufs := (isp_bufs s)(b \<mapsto> c\<lparr>co_mem := m\<rparr>)\<rparr>)"

definition within_engine :: "nat \<Rightarrow> nat \<Rightarrow> coherent \<Rightarrow> mem \<Rightarrow> regs \<Rightarrow> bool" where
  "within_engine off n c m R \<longleftrightarrow> (\<forall>i. m i \<noteq> co_mem c i \<longrightarrow> (\<exists>d < n. co_dma c + of_nat i = ucast (R off) + of_nat d))"

text \<open>The steps: every operation that changes the driver's state, under module parameters that satisfy \<open>P\<close> (they can
  be rewritten between any two), and the stores of the hardware.\<close>

inductive isp_step :: "(isp_params \<Rightarrow> bool) \<Rightarrow> ar_isp \<Rightarrow> ar_isp \<Rightarrow> bool" for P where
  step_configure: "P p \<Longrightarrow> ar_isp_configure_set p v val s = Inr s' \<Longrightarrow> isp_step P s s'"
| step_prefix: "P p \<Longrightarrow> isp_step P s (ar_isp_prefix_set p v val s)"
| step_arm: "P p \<Longrightarrow> isp_step P s (fst (ar_isp_arm_set p k val s))"
| step_start: "P p \<Longrightarrow> ar_isp_pipeline_start p v k (Some s) = Inr (s', p') \<Longrightarrow> isp_step P s s'"
| step_ladders: "P p \<Longrightarrow> isp_step P s (ar_isp_ladders_set p val s)"
| step_tone: "P p \<Longrightarrow> isp_step P s (ar_isp_tone_set p val s)"
| step_page: "isp_step P s (ar_isp_ltm_page_release fd s)"
| step_irq: "P p \<Longrightarrow> ar_isp_irq p hook s0 s1 s = Some (s', calls) \<Longrightarrow> isp_step P s s'"
| step_engine: "(off, b, n) \<in> set stats_engines \<Longrightarrow> isp_bufs s b = Some c \<Longrightarrow> within_engine off n c m (isp_io s) \<Longrightarrow> isp_step P s (hw_store b m s)"
| step_hardware: "b \<in> {Ltm_stats, De3d0, De3d1, De3d2} \<Longrightarrow> isp_step P s (hw_store b m s)"

inductive isp_reach :: "(isp_params \<Rightarrow> bool) \<Rightarrow> ar_isp \<Rightarrow> bool" for P where
  reach_probe: "P p \<Longrightarrow> ar_isp_probe p env = Inr s \<Longrightarrow> isp_reach P s"
| reach_step: "isp_reach P s \<Longrightarrow> isp_step P s s' \<Longrightarrow> isp_reach P s'"

text \<open>A step that allocates and releases nothing and keeps the selections described.\<close>

definition follows :: "ar_isp \<Rightarrow> ar_isp \<Rightarrow> bool" where
  "follows s s' \<longleftrightarrow>
     (\<exists>es. isp_trace s' = isp_trace s @ es \<and> quiet es) \<and> same_dma (isp_bufs s) (isp_bufs s') \<and>
     isp_tuning s' = isp_tuning s \<and> irq_requested s' = irq_requested s \<and> (pages_recorded s \<longrightarrow> pages_recorded s')"

lemma follows_refl [simp]: "follows s s"
  unfolding follows_def by (simp add: exI [where x = "[]"])

lemma follows_trans:
  assumes "follows s t" "follows t u" shows "follows s u"
proof -
  obtain es fs where "isp_trace t = isp_trace s @ es" "quiet es" "isp_trace u = isp_trace t @ fs" "quiet fs"
    using assms unfolding follows_def by blast
  then have "isp_trace u = isp_trace s @ (es @ fs)" "quiet (es @ fs)" by simp_all
  then show ?thesis using assms same_dma_trans unfolding follows_def by simp blast
qed

lemma followsI:
  assumes "isp_trace s' = isp_trace s @ es" "quiet es" "same_dma (isp_bufs s) (isp_bufs s')" "isp_tuning s' = isp_tuning s"
    "irq_requested s' = irq_requested s" "pages_recorded s \<Longrightarrow> pages_recorded s'"
  shows "follows s s'"
  using assms unfolding follows_def by blast

lemma recorded_same:
  assumes "isp_bufs s' Gamma = isp_bufs s Gamma" "isp_bufs s' Drc = isp_bufs s Drc" "isp_tuning s' = isp_tuning s"
    "last_gamma s' = last_gamma s" "last_drc s' = last_drc s"
  shows "pages_recorded s \<Longrightarrow> pages_recorded s'"
  using assms by (simp add: pages_recorded_def page_recorded_def)

lemma follows_on_io [simp]: "follows s (on_io f s)"
  by (rule followsI [where es = "[]"]) (simp_all add: recorded_same)

lemma requested_keeps [simp]:
  "irq_requested (write_list ws s) = irq_requested s" "irq_requested (reset_stats s) = irq_requested s" "irq_requested (log_event e s) = irq_requested s"
  by (simp_all add: write_list_def reset_stats_def log_event_def)

lemma follows_write: "follows s (write_list ws s)" "follows s (reset_stats s)" "follows s (log_event Barrier s)"
proof -
  show "follows s (write_list ws s)" by (rule followsI [where es = "map (\<lambda>(off, v). Wrote off v) ws"]) (simp_all add: write_recorded)
  show "follows s (reset_stats s)" by (rule followsI [where es = "[]"]) (simp_all add: write_recorded)
  show "follows s (log_event Barrier s)" by (rule followsI [where es = "[Barrier]"]) (simp_all add: write_recorded)
qed

lemma fills_requested: "fills_only S s t \<Longrightarrow> irq_requested t = irq_requested s"
proof -
  assume "fills_only S s t"
  then have "irq_requested (isp_rest t) = irq_requested (isp_rest s)" by (simp add: fills_only_def)
  then show ?thesis by (simp add: isp_rest_def)
qed

lemma follows_fills: "fills_only S s t \<Longrightarrow> (pages_recorded s \<Longrightarrow> pages_recorded t) \<Longrightarrow> follows s t"
proof -
  assume f: "fills_only S s t" and r: "pages_recorded s \<Longrightarrow> pages_recorded t"
  obtain bs where "isp_trace t = isp_trace s @ map Filled bs" using f unfolding fills_only_def by blast
  then show "follows s t"
    by (rule followsI) (use f r fills_requested [OF f] fills_only_tuning [OF f] in \<open>simp_all add: fills_only_def\<close>)
qed

lemma follows_publish: "follows s t \<Longrightarrow> follows s (write_list ws (reset_stats (log_event Barrier t)))"
  "follows s t \<Longrightarrow> follows s (write_list ws (log_event Barrier t))"
  by (rule follows_trans [OF follows_trans [OF follows_trans [OF _ follows_write(3)] follows_write(2)] follows_write(1)], assumption)
     (rule follows_trans [OF follows_trans [OF _ follows_write(3)] follows_write(1)])

lemma follows_tables: "follows s (ar_isp_tables_apply p v s)"
proof (cases "p_tables p")
  case True
  have "follows s (fill_all p v s)" by (rule follows_fills [OF fill_all_fills fill_all_recorded])
  then show ?thesis unfolding tables_apply_form [OF True] by (rule follows_publish)
qed (simp add: ar_isp_tables_apply_def)

lemma follows_tone: "follows s (ar_isp_tone_apply p force s)"
proof (cases "isp_tuning s")
  case (Some blob)
  have "follows s (tone_rebuilt p blob s)" by (rule follows_fills [OF tone_rebuilt_fills tone_rebuilt_recorded [OF Some]])
  from follows_publish(2) [OF this] show ?thesis unfolding tone_apply_form Some by simp
qed (simp add: tone_apply_form)

text \<open>Each operation follows, up to the request of the interrupt line by the arm.\<close>

lemma follows_derive: "follows s (derive_stages p s)"
  by (rule followsI [where es = "[]"]) (simp_all add: recorded_same)

lemma follows_configured: "follows s t \<Longrightarrow> follows s (t\<lparr>configured := b\<rparr>)"
  by (rule follows_trans, assumption, rule followsI [where es = "[]"]) (simp_all add: recorded_same)

lemma follows_configures: "follows s (ar_isp_configure_prefix p v n s)" "follows s (ar_isp_configure p v s)"
proof -
  have "follows s ((derive_stages p (ar_isp_tables_apply p v (on_io f s)))\<lparr>configured := True\<rparr>)" for f
    by (rule follows_configured [OF follows_trans [OF follows_trans [OF follows_on_io follows_tables] follows_derive]])
  then show "follows s (ar_isp_configure_prefix p v n s)" "follows s (ar_isp_configure p v s)"
    using configure_forms(1) [of p v n s] configure_forms(2) [of p v s] by auto
qed

definition arm_done :: "isp_params \<Rightarrow> ar_isp \<Rightarrow> ar_isp" where
  "arm_done p s = write_list ([(0x1c60, 0), (0x1e40, 0)] @ buf_writes (isp_bufs s) Lsc lsc_writes) (on_io (arm_stages p (isp_tuning s)) (arm_publishes s))"

lemma arm_split: "fst (ar_isp_arm_output p k s) = request_line p k (arm_done p s)"
  by (simp only: arm_form arm_done_def)

lemma follows_arm: "follows s (arm_done p s)"
  unfolding arm_done_def arm_publishes_def
  by (rule follows_trans [OF follows_trans [OF follows_trans [OF follows_trans [OF follows_on_io follows_write(2)] follows_write(1)] follows_on_io] follows_write(1)])

lemma follows_ladders: "follows s (ar_isp_ladders_set p val s)"
  unfolding ar_isp_ladders_set_def using follows_trans [OF follows_on_io follows_on_io] by simp

lemma follows_tone_set: "follows s (ar_isp_tone_set p val s)"
  unfolding ar_isp_tone_set_def using follows_tone by simp

lemma put_follows: "b \<notin> {Gamma, Drc} \<Longrightarrow> follows s (put_buf b m s)"
  by (rule follows_fills [OF put_buf_fills recorded_same]) (auto simp: put_buf_def log_event_def split: option.split)

lemma follows_page: "follows s (ar_isp_ltm_page_release fd s)"
proof (cases "isp_bufs s Ltm_page")
  case None
  then show ?thesis by (simp add: ar_isp_ltm_page_release_def ar_isp_ltm_page_publish_def)
next
  case (Some c)
  have p: "follows s (put_buf Ltm_page m s)" for m by (rule put_follows) simp
  have h: "follows t (t\<lparr>ltm_page_half := h\<rparr>)" for t h by (rule followsI [where es = "[]"]) (simp_all add: recorded_same)
  have "follows s ((write_list ws (put_buf Ltm_page m s))\<lparr>ltm_page_half := h\<rparr>)" for ws m h
    by (rule follows_trans [OF follows_trans [OF p follows_write(1)] h])
  then show ?thesis unfolding ar_isp_ltm_page_release_def ltm_publish_form [OF Some refl] by simp
qed

text \<open>The handler, in terms of its writes.\<close>

lemma irq_form:
  assumes "ar_isp_irq p hook s0 s1 s = Some (s', calls)"
  shows "(s1 AND 0x100 \<noteq> 0 \<and> p_pingpong p \<and>
      (\<exists>e es n0 n1. s' = (write_list ([(0xcc, s0), (0xd4, s1)] @ arm_writes (isp_bufs s) (stats_cur s XOR 1)) s)
        \<lparr>irq_events := e, irq_seen0 := n0, irq_seen1 := n1, irq_stats_events := es, stats_done := stats_cur s, stats_cur := stats_cur s XOR 1,
         stats_valid := True, stats_flips := stats_flips s + 1\<rparr>)) \<or>
    (\<not> (s1 AND 0x100 \<noteq> 0 \<and> p_pingpong p) \<and>
      (\<exists>e es n0 n1. s' = (write_list [(0xcc, s0), (0xd4, s1)] s)\<lparr>irq_events := e, irq_seen0 := n0, irq_seen1 := n1, irq_stats_events := es\<rparr>))"
proof -
  define a where "a = write_list [(0xcc, s0), (0xd4, s1)] s"
  have n: "\<not> (s0 = 0 \<and> s1 = 0)" using assms by (auto simp: ar_isp_irq_def)
  have a: "isp_writel 0xd4 s1 (isp_writel 0xcc s0 s) = a" by (simp add: a_def write_list_simps)
  have w: "write_list ws (a\<lparr>irq_events := e, irq_seen0 := n0, irq_seen1 := n1, irq_stats_events := es\<rparr>) =
      (write_list ([(0xcc, s0), (0xd4, s1)] @ ws) s)\<lparr>irq_events := e, irq_seen0 := n0, irq_seen1 := n1, irq_stats_events := es\<rparr>" for ws e n0 n1 es
    by (simp add: a_def write_list_def ar_isp_apply_def)
  have i: "irq_stats_events a = irq_stats_events s" "stats_cur a = stats_cur s" "stats_flips a = stats_flips s" "isp_bufs a = isp_bufs s"
    by (simp_all add: a_def write_list_def)
  consider (quiet) "s1 AND 0x100 = 0" | (hook) "s1 AND 0x100 \<noteq> 0" "\<not> p_pingpong p" | (flip) "s1 AND 0x100 \<noteq> 0" "p_pingpong p" by blast
  then show ?thesis
  proof cases
    case quiet
    then have "s' = a\<lparr>irq_events := irq_events a + 1, irq_seen0 := irq_seen0 a OR s0, irq_seen1 := irq_seen1 a OR s1\<rparr>"
      using assms n by (simp add: ar_isp_irq_def a Let_def split: if_splits)
    then have "s' = a\<lparr>irq_events := irq_events a + 1, irq_seen0 := irq_seen0 a OR s0, irq_seen1 := irq_seen1 a OR s1, irq_stats_events := irq_stats_events a\<rparr>" by simp
    then show ?thesis using quiet a_def by blast
  next
    case hook
    then have "s' = a\<lparr>irq_events := irq_events a + 1, irq_seen0 := irq_seen0 a OR s0, irq_seen1 := irq_seen1 a OR s1, irq_stats_events := irq_stats_events a + 1\<rparr>"
      using assms n by (simp add: ar_isp_irq_def a Let_def split: if_splits)
    then show ?thesis using hook a_def by blast
  next
    case flip
    then have "s' = (write_list (arm_writes (isp_bufs s) (stats_cur s XOR 1))
        (a\<lparr>irq_events := irq_events a + 1, irq_seen0 := irq_seen0 a OR s0, irq_seen1 := irq_seen1 a OR s1, irq_stats_events := irq_stats_events a + 1\<rparr>))
        \<lparr>stats_done := stats_cur s, stats_cur := stats_cur s XOR 1, stats_valid := True, stats_flips := stats_flips s + 1\<rparr>"
      using assms n by (simp add: ar_isp_irq_def a Let_def stats_arm_writes i split: if_splits)
    then show ?thesis using flip unfolding w by auto
  qed
qed

section \<open>Invariants\<close>

text \<open>The books: buffers and tuning file, the interrupt line, the clocks.\<close>

definition books :: "ar_isp \<Rightarrow> bool" where
  "books s \<longleftrightarrow>
     ledger_ok s \<and> count_list (isp_trace s) Irq_request = (if irq_requested s then 1 else 0) \<and> count_list (isp_trace s) Irq_free = 0 \<and>
     count_list (isp_trace s) Clk_on = 1 \<and> count_list (isp_trace s) Clk_off = 0"

definition halves_ok :: "ar_isp \<Rightarrow> bool" where
  "halves_ok s \<longleftrightarrow> ltm_page_half s < 2 \<and> stats_cur s < 2 \<and> (stats_valid s \<longrightarrow> stats_done s = 1 - stats_cur s)"

abbreviation line_clk :: "isp_event set" where "line_clk \<equiv> {Irq_request, Irq_free, Clk_on, Clk_off}"

lemma count_none: "(\<forall>e \<in> set es. e \<notin> E) \<Longrightarrow> x \<in> E \<Longrightarrow> count_list es x = 0"
  by (induction es) auto

lemma quiet_line: "quiet es \<Longrightarrow> \<forall>e \<in> set es. e \<notin> line_clk"
  by (auto simp: quiet_def split: isp_event.splits)

lemma follows_books: "follows s s' \<Longrightarrow> books s \<Longrightarrow> books s'"
proof -
  assume f: "follows s s'" and b: "books s"
  obtain es where e: "isp_trace s' = isp_trace s @ es" "quiet es" using f unfolding follows_def by blast
  have "ledger_ok s'" by (rule ledger_step [of s _ es]) (use f b e in \<open>simp_all add: follows_def books_def\<close>)
  moreover have "count_list es x = 0" if "x \<in> line_clk" for x using count_none [OF quiet_line [OF e(2)] that] .
  ultimately show ?thesis using b f unfolding books_def e(1) follows_def by (simp add: count_list_append)
qed

lemma request_books: "books s \<Longrightarrow> books (request_line p k s)"
proof -
  assume b: "books s"
  have r: "irq_requested (log_event Irq_request (s\<lparr>irq_requested := True\<rparr>))" by (simp add: log_event_def)
  show ?thesis using b by (simp add: request_line_def books_def ledger_ok_def count_list_append)
qed

lemma request_recorded: "pages_recorded s \<Longrightarrow> pages_recorded (request_line p k s)"
  by (rule recorded_same [of _ s]) simp_all

text \<open>The probe.\<close>

lemma alloc_trace:
  "\<exists>es. isp_trace (fold (ar_isp_alloc env) bs s) = isp_trace s @ es \<and> (\<forall>e \<in> set es. e \<notin> line_clk)"
proof (induction bs arbitrary: s)
  case (Cons b bs)
  obtain es where e: "isp_trace (fold (ar_isp_alloc env) bs (ar_isp_alloc env b s)) = isp_trace (ar_isp_alloc env b s) @ es" "\<forall>e \<in> set es. e \<notin> line_clk"
    using Cons [of "ar_isp_alloc env b s"] by blast
  obtain fs where f: "isp_trace (ar_isp_alloc env b s) = isp_trace s @ fs" "\<forall>e \<in> set fs. e \<notin> line_clk"
    by (cases "pe_alloc env b") (auto simp: ar_isp_alloc_def)
  show ?case using e f by (intro exI [where x = "fs @ es"]) auto
qed simp

lemma alloc_keeps:
  "ltm_page_half (fold (ar_isp_alloc env) bs s) = ltm_page_half s" "stats_cur (fold (ar_isp_alloc env) bs s) = stats_cur s"
  "stats_valid (fold (ar_isp_alloc env) bs s) = stats_valid s" "irq_requested (fold (ar_isp_alloc env) bs s) = irq_requested s"
  by (induction bs arbitrary: s) (simp_all add: ar_isp_alloc_def log_event_def split: option.split)

lemma prepare_trace: "\<exists>es. isp_trace (ar_isp_tables_prepare p env s) = isp_trace s @ es \<and> (\<forall>e \<in> set es. e \<notin> line_clk)"
proof -
  let ?s = "log_event Pool_get (s\<lparr>last_gamma := ar_isp_tone_none, last_drc := ar_isp_tone_none\<rparr>)"
  obtain es where e: "isp_trace (fold (ar_isp_alloc env) (wanted_bufs p) ?s) = isp_trace ?s @ es" "\<forall>e \<in> set es. e \<notin> line_clk"
    using alloc_trace by blast
  have "\<exists>es. isp_trace (ar_isp_tables_prepare p env s) = isp_trace s @ es \<and> set es \<subseteq> set (Pool_get # Fw_get # Fw_put # es')" if "es' = es" for es'
    unfolding ar_isp_tables_prepare_def Let_def using e(1) that by (auto split: option.split prod.split)
  then show ?thesis using e(2) by fastforce
qed

lemma prepare_keeps:
  "ltm_page_half (ar_isp_tables_prepare p env s) = ltm_page_half s" "stats_cur (ar_isp_tables_prepare p env s) = stats_cur s"
  "stats_valid (ar_isp_tables_prepare p env s) = stats_valid s" "irq_requested (ar_isp_tables_prepare p env s) = irq_requested s"
  unfolding ar_isp_tables_prepare_def Let_def by (simp_all add: alloc_keeps log_event_def split: option.split prod.split)

lemma probe_ok:
  assumes "ar_isp_probe p env = Inr s"
  shows "books s" "pages_recorded s" "halves_ok s" "\<not> stats_valid s"
proof -
  let ?z = "log_event Clk_on isp_zeroed"
  let ?s = "ar_isp_tables_prepare p (pb_prepare env) ?z"
  have s: "s = (if p_use_irq p then ?s\<lparr>irq_line := pb_irq env\<rparr> else ?s)"
    using assms by (simp add: ar_isp_probe_def Let_def split: if_splits)
  have i: "isp_trace s = isp_trace ?s" "isp_bufs s = isp_bufs ?s" "isp_tuning s = isp_tuning ?s" "irq_requested s = irq_requested ?s"
    "last_gamma s = last_gamma ?s" "last_drc s = last_drc ?s" "stats_valid s = stats_valid ?s" "stats_cur s = stats_cur ?s" "ltm_page_half s = ltm_page_half ?s"
    by (simp_all add: s)
  have z: "isp_trace ?z = [Clk_on]" "isp_bufs ?z = (\<lambda>_. None)" "isp_tuning ?z = None" "\<not> irq_requested ?z" "\<not> stats_valid ?z" "stats_cur ?z = 0" "ltm_page_half ?z = 0"
    by (simp_all add: isp_zeroed_def)
  have l: "ledger_ok ?s" by (rule prepare_ledger) (simp_all add: isp_zeroed_def)
  obtain es where e: "isp_trace ?s = Clk_on # es" "\<forall>e \<in> set es. e \<notin> line_clk" using prepare_trace [of p "pb_prepare env" ?z] z by auto
  have "count_list es x = 0" if "x \<in> line_clk" for x using count_none [OF e(2) that] .
  then show "books s" using l unfolding books_def ledger_ok_def i e(1) prepare_keeps by (simp add: isp_zeroed_def)
  show "pages_recorded s" by (simp add: pages_recorded_def i prepare_tone_none)
  show "halves_ok s" "\<not> stats_valid s" by (simp_all add: halves_ok_def i prepare_keeps isp_zeroed_def)
qed

text \<open>Every step keeps the three.\<close>

lemma hw_keeps:
  "isp_trace (hw_store b m s) = isp_trace s" "isp_tuning (hw_store b m s) = isp_tuning s" "irq_requested (hw_store b m s) = irq_requested s"
  "stats_valid (hw_store b m s) = stats_valid s" "stats_cur (hw_store b m s) = stats_cur s" "stats_done (hw_store b m s) = stats_done s"
  "ltm_page_half (hw_store b m s) = ltm_page_half s" "last_gamma (hw_store b m s) = last_gamma s" "last_drc (hw_store b m s) = last_drc s"
  "isp_io (hw_store b m s) = isp_io s" "b' \<noteq> b \<Longrightarrow> isp_bufs (hw_store b m s) b' = isp_bufs s b'" "same_dma (isp_bufs s) (isp_bufs (hw_store b m s))"
  by (auto simp: hw_store_def same_dma_def split: option.split)

lemma follows_hw: "b \<notin> {Gamma, Drc} \<Longrightarrow> follows s (hw_store b m s)"
  by (rule followsI [where es = "[]"]) (auto simp: hw_keeps recorded_same)

lemma engine_bufs: "(off, b, n) \<in> set stats_engines \<Longrightarrow> b \<notin> {Gamma, Drc}"
  by (auto simp: stats_engines_def)

lemma follows_irq: "ar_isp_irq p hook s0 s1 s = Some (s', calls) \<Longrightarrow> follows s s'"
proof -
  assume i: "ar_isp_irq p hook s0 s1 s = Some (s', calls)"
  have f: "follows t (t\<lparr>irq_events := e, irq_seen0 := n0, irq_seen1 := n1, irq_stats_events := es\<rparr>)"
    "follows t (t\<lparr>irq_events := e, irq_seen0 := n0, irq_seen1 := n1, irq_stats_events := es, stats_done := d, stats_cur := c, stats_valid := v, stats_flips := x\<rparr>)"
    for t e n0 n1 es d c v x
    by (rule followsI [where es = "[]"], simp_all add: recorded_same)+
  have w: "follows s ((write_list ws s)\<lparr>irq_events := e, irq_seen0 := n0, irq_seen1 := n1, irq_stats_events := es\<rparr>)"
    "follows s ((write_list ws s)\<lparr>irq_events := e, irq_seen0 := n0, irq_seen1 := n1, irq_stats_events := es, stats_done := d, stats_cur := c, stats_valid := v, stats_flips := x\<rparr>)"
    for ws e n0 n1 es d c v x
    by (rule follows_trans [OF follows_write(1) f(1)], rule follows_trans [OF follows_write(1) f(2)])
  show ?thesis using irq_form [OF i] by (elim disjE conjE exE) (simp_all only: w)
qed

lemma books_steps:
  assumes "isp_step P s s'" "books s" "pages_recorded s"
  shows "books s' \<and> pages_recorded s'"
proof -
  have f: "books t \<and> pages_recorded t" if "follows s t" for t
    using that follows_books [OF that] assms(2,3) unfolding follows_def by blast
  have a: "books (fst (ar_isp_arm_output p k u)) \<and> pages_recorded (fst (ar_isp_arm_output p k u))" if "follows s u" for p k u
    unfolding arm_split using f [OF follows_trans [OF that follows_arm]] request_books request_recorded by blast
  show ?thesis
    using assms(1)
  proof cases
    case (step_configure p v val)
    then show ?thesis using f [OF follows_configures(2)] by (auto simp: ar_isp_configure_set_def split: if_splits)
  next
    case (step_prefix p v val)
    then show ?thesis using f [OF follows_configures(1)] by (simp add: ar_isp_prefix_set_def)
  next
    case (step_arm p k val)
    then show ?thesis using a [OF follows_refl, of p k] assms(2,3) by (simp add: ar_isp_arm_set_def split: if_splits)
  next
    case (step_start p v k p')
    then have "s' = fst (ar_isp_arm_output p k (ar_isp_configure_prefix p v (p_setup_entries p) s))"
      by (simp add: ar_isp_pipeline_start_def)
    then show ?thesis using a [OF follows_configures(1)] by simp
  next
    case (step_ladders p val)
    then show ?thesis using f [OF follows_ladders] by simp
  next
    case (step_tone p val)
    then show ?thesis using f [OF follows_tone_set] by simp
  next
    case (step_page fd)
    then show ?thesis using f [OF follows_page] by simp
  next
    case (step_irq p hook s0 s1 calls)
    then show ?thesis using f [OF follows_irq] by simp
  next
    case (step_engine off b n c m)
    then show ?thesis using f [OF follows_hw [OF engine_bufs]] by simp
  next
    case (step_hardware b m)
    then show ?thesis using f [OF follows_hw] by auto
  qed
qed

lemma reach_books: "isp_reach P s \<Longrightarrow> books s \<and> pages_recorded s"
  by (induction rule: isp_reach.induct) (auto dest: probe_ok books_steps)

text \<open>The indices.\<close>

definition same_index :: "ar_isp \<Rightarrow> ar_isp \<Rightarrow> bool" where
  "same_index s s' \<longleftrightarrow> stats_cur s' = stats_cur s \<and> stats_done s' = stats_done s \<and> stats_valid s' = stats_valid s"

definition restarted :: "ar_isp \<Rightarrow> bool" where
  "restarted s \<longleftrightarrow> stats_cur s = 0 \<and> \<not> stats_valid s"

lemma index_halves: "halves_ok s \<Longrightarrow> same_index s s' \<or> restarted s' \<Longrightarrow> ltm_page_half s' < 2 \<Longrightarrow> halves_ok s'"
  by (auto simp: halves_ok_def same_index_def restarted_def)

lemma fill_all_index: "same_index s (fill_all p v s)" "ltm_page_half (fill_all p v s) = ltm_page_half s"
  using fill_all_fills [of s p v] isp_rest_fields unfolding fills_only_def same_index_def by blast+

lemma tables_index: "if p_tables p then restarted (ar_isp_tables_apply p v s) else ar_isp_tables_apply p v s = s"
  "ltm_page_half (ar_isp_tables_apply p v s) = ltm_page_half s"
  using fill_all_index(2) by (cases "p_tables p"; simp add: tables_apply_form restarted_def; simp add: ar_isp_tables_apply_def)+

lemma configures_index:
  "same_index s (ar_isp_configure_prefix p v n s) \<or> restarted (ar_isp_configure_prefix p v n s)"
  "same_index s (ar_isp_configure p v s) \<or> restarted (ar_isp_configure p v s)"
  "p_tables p \<Longrightarrow> restarted (ar_isp_configure_prefix p v n s)" "p_tables p \<Longrightarrow> restarted (ar_isp_configure p v s)"
  "ltm_page_half (ar_isp_configure_prefix p v n s) = ltm_page_half s" "ltm_page_half (ar_isp_configure p v s) = ltm_page_half s"
proof -
  obtain f g where c: "ar_isp_configure_prefix p v n s = (derive_stages p (ar_isp_tables_apply p v (on_io f s)))\<lparr>configured := True\<rparr>"
    "ar_isp_configure p v s = (derive_stages p (ar_isp_tables_apply p v (on_io g s)))\<lparr>configured := True\<rparr>"
    using configure_forms(1) [of p v n s] configure_forms(2) [of p v s] by blast
  have t: "if p_tables p then restarted ((derive_stages p (ar_isp_tables_apply p v (on_io f s)))\<lparr>configured := True\<rparr>)
      else same_index s ((derive_stages p (ar_isp_tables_apply p v (on_io f s)))\<lparr>configured := True\<rparr>)" for f
    using tables_index(1) [of p v "on_io f s"] by (simp add: restarted_def same_index_def split: if_splits)
  show "same_index s (ar_isp_configure_prefix p v n s) \<or> restarted (ar_isp_configure_prefix p v n s)"
    "same_index s (ar_isp_configure p v s) \<or> restarted (ar_isp_configure p v s)"
    "p_tables p \<Longrightarrow> restarted (ar_isp_configure_prefix p v n s)" "p_tables p \<Longrightarrow> restarted (ar_isp_configure p v s)"
    using t [of f] t [of g] unfolding c by (auto split: if_splits)
  show "ltm_page_half (ar_isp_configure_prefix p v n s) = ltm_page_half s" "ltm_page_half (ar_isp_configure p v s) = ltm_page_half s"
    unfolding c by (simp_all add: tables_index(2))
qed

lemma arm_index: "restarted (fst (ar_isp_arm_output p k s))" "ltm_page_half (fst (ar_isp_arm_output p k s)) = ltm_page_half s"
  by (simp_all add: arm_form arm_publishes_def restarted_def)

lemma tone_index: "same_index s (ar_isp_tone_apply p force s)" "ltm_page_half (ar_isp_tone_apply p force s) = ltm_page_half s"
proof -
  have f: "fills_only {Gamma, Drc} s (tone_rebuilt p blob s)" for blob by (rule tone_rebuilt_fills)
  have "same_index s (tone_rebuilt p blob s)" "ltm_page_half (tone_rebuilt p blob s) = ltm_page_half s" for blob
    using f [of blob] isp_rest_fields unfolding fills_only_def same_index_def by blast+
  then show "same_index s (ar_isp_tone_apply p force s)" "ltm_page_half (ar_isp_tone_apply p force s) = ltm_page_half s"
    unfolding tone_apply_form by (auto simp: same_index_def split: option.split)
qed

lemma ladders_index: "same_index s (ar_isp_ladders_set p val s)" "ltm_page_half (ar_isp_ladders_set p val s) = ltm_page_half s"
  by (simp_all add: ar_isp_ladders_set_def same_index_def)

lemma put_index: "same_index s (put_buf b m s)"
  by (simp add: put_buf_def same_index_def log_event_def split: option.split)

lemma page_release_form:
  obtains "ar_isp_ltm_page_release fd s = s"
  | c m ws where "isp_bufs s Ltm_page = Some c" "fst ` set ws \<subseteq> {0x2808}"
      "ar_isp_ltm_page_release fd s = (write_list ws (put_buf Ltm_page m s))\<lparr>ltm_page_half := ltm_page_half s XOR 1\<rparr>"
proof (cases "fd_filled fd = AR_ISP_LTM_PAGE_SIZE \<and> isp_bufs s Ltm_page \<noteq> None")
  case True
  then obtain c where c: "isp_bufs s Ltm_page = Some c" by auto
  show ?thesis by (rule that(2) [OF c _]) (use True ltm_publish_form [OF c refl] in \<open>auto simp: ar_isp_ltm_page_release_def\<close>)
next
  case False
  then show ?thesis using that(1) by (auto simp: ar_isp_ltm_page_release_def ar_isp_ltm_page_publish_def)
qed

lemma halves_steps:
  assumes "isp_step P s s'" "halves_ok s"
  shows "halves_ok s'"
proof -
  have h: "ltm_page_half s < 2" "stats_cur s < 2" using assms(2) by (simp_all add: halves_ok_def)
  note k = index_halves [OF assms(2)]
  show ?thesis
    using assms(1)
  proof cases
    case (step_configure p v val)
    then show ?thesis using k configures_index h by (auto simp: ar_isp_configure_set_def split: if_splits)
  next
    case (step_prefix p v val)
    then show ?thesis using k configures_index h by (simp add: ar_isp_prefix_set_def)
  next
    case (step_arm p k' val)
    then show ?thesis using k arm_index h assms(2) by (simp add: ar_isp_arm_set_def)
  next
    case (step_start p v k' p')
    then have "s' = fst (ar_isp_arm_output p k' (ar_isp_configure_prefix p v (p_setup_entries p) s))"
      by (simp add: ar_isp_pipeline_start_def)
    then show ?thesis using k arm_index configures_index h by simp
  next
    case (step_ladders p val)
    then show ?thesis using k ladders_index h by simp
  next
    case (step_tone p val)
    then show ?thesis using k tone_index h assms(2) by (simp add: ar_isp_tone_set_def)
  next
    case (step_page fd)
    then show ?thesis
    proof (cases rule: page_release_form [of fd s])
      case 2
      then show ?thesis using put_index [of s Ltm_page] assms(2) half_xor [OF h(1)] step_page
        by (simp add: halves_ok_def same_index_def)
    qed (use assms(2) in simp)
  next
    case (step_irq p hook s0 s1 calls)
    then show ?thesis using irq_form [OF step_irq(2)] half_xor [OF h(2)] assms(2) h
      by (elim disjE conjE exE) (auto simp: halves_ok_def)
  next
    case (step_engine off b n c m)
    then show ?thesis using assms(2) by (simp add: halves_ok_def hw_keeps)
  next
    case (step_hardware b m)
    then show ?thesis using assms(2) by (simp add: halves_ok_def hw_keeps)
  qed
qed

lemma reach_halves: "isp_reach P s \<Longrightarrow> halves_ok s"
  by (induction rule: isp_reach.induct) (auto dest: probe_ok halves_steps)

text \<open>Removal, from any state whose books are in order.\<close>

lemma release_trace:
  "\<exists>es. isp_trace (ar_isp_tables_release s) = isp_trace s @ es \<and> (\<forall>e \<in> set es. e \<notin> line_clk)"
proof -
  define bs where "bs = all_bufs"
  have "\<forall>e \<in> set (map (\<lambda>(b, n, d). Freed b n d) xs). e \<notin> line_clk" for xs :: "(isp_buf \<times> nat \<times> u64) list" by auto
  then show ?thesis
    unfolding ar_isp_tables_release_def bs_def [symmetric] Let_def by (simp add: free_fold)
qed

lemma remove_form:
  assumes "books s"
  obtains es where "isp_trace (ar_isp_remove s) = isp_trace s @ (if irq_requested s then [Irq_free] else []) @ es @ [Clk_off]"
    "\<forall>e \<in> set es. e \<notin> line_clk"
    "freed (isp_trace (ar_isp_remove s)) = allocated (isp_trace (ar_isp_remove s))"
    "count_list (isp_trace (ar_isp_remove s)) Fw_put = count_list (isp_trace (ar_isp_remove s)) Fw_get"
proof -
  define s1 where "s1 = (if irq_requested s then log_event Irq_free s else s)"
  have l: "ledger_ok s1" using assms by (auto simp: s1_def books_def ledger_ok_def count_list_append)
  have r: "ar_isp_remove s = log_event Clk_off (ar_isp_tables_release s1)" by (simp add: ar_isp_remove_def s1_def Let_def)
  obtain es where e: "isp_trace (ar_isp_tables_release s1) = isp_trace s1 @ es" "\<forall>e \<in> set es. e \<notin> line_clk" using release_trace by blast
  have t: "isp_trace s1 = isp_trace s @ (if irq_requested s then [Irq_free] else [])" by (simp add: s1_def)
  have q: "allocated (if irq_requested s then [Irq_free] else []) = []" "freed (if irq_requested s then [Irq_free] else []) = []" by simp_all
  show ?thesis
    by (rule that [OF _ e(2)]) (use release_balances [OF l] in \<open>simp_all add: r e(1) t q count_list_append\<close>)
qed


text \<open>A platform that answers everything, the bring-up, a frame.\<close>

definition example_probe :: probe_env where
  "example_probe = \<lparr>pb_ioremap = True, pb_clk_get = True, pb_clk_enable = True, pb_irq = 61, pb_prepare = example_env\<rparr>"

definition example_running :: ar_isp where
  "example_running =
     (let s = projr (ar_isp_probe isp_defaults example_probe);
          t = fst (projr (ar_isp_pipeline_start isp_defaults (\<lambda>_. None) True (Some s)))
      in fst (the (ar_isp_irq isp_defaults None 0 0x100 t)))"

lemma example_reach:
  assumes "P isp_defaults"
  shows "isp_reach P example_running" "stats_valid example_running"
    "map_option co_dma (isp_bufs example_running b) = map_option co_dma (isp_bufs (projr (ar_isp_probe isp_defaults example_probe)) b)"
proof -
  obtain s where s: "ar_isp_probe isp_defaults example_probe = Inr s" by (simp add: ar_isp_probe_def example_probe_def Let_def)
  obtain t p' where t: "ar_isp_pipeline_start isp_defaults (\<lambda>_. None) True (Some s) = Inr (t, p')"
    by (cases "ar_isp_arm_output isp_defaults True (ar_isp_configure_prefix isp_defaults (\<lambda>_. None) (p_setup_entries isp_defaults) s)")
       (simp add: ar_isp_pipeline_start_def)
  have "ar_isp_irq isp_defaults None 0 0x100 t \<noteq> None" by (simp add: ar_isp_irq_def Let_def)
  then obtain u calls where u: "ar_isp_irq isp_defaults None 0 0x100 t = Some (u, calls)" by auto
  have e: "example_running = u" by (simp add: example_running_def s t u)
  show "isp_reach P example_running"
    unfolding e by (rule reach_step [OF reach_step [OF reach_probe [where P = P, OF assms s] step_start [where P = P, OF assms t]] step_irq [where P = P, OF assms u]])
  show "stats_valid example_running"
    using irq_form [OF u] unfolding e by (elim disjE conjE exE) (simp_all add: isp_defaults_def)
  have "same_dma (isp_bufs s) (isp_bufs t)"
  proof -
    have "t = request_line isp_defaults True (arm_done isp_defaults (ar_isp_configure_prefix isp_defaults (\<lambda>_. None) (p_setup_entries isp_defaults) s))"
      using t arm_split [of isp_defaults True] by (simp add: ar_isp_pipeline_start_def) (metis fst_conv)
    then show ?thesis using follows_trans [OF follows_configures(1) follows_arm] by (simp add: follows_def)
  qed
  then have "same_dma (isp_bufs s) (isp_bufs u)" using follows_irq [OF u] same_dma_trans unfolding follows_def by blast
  then show "map_option co_dma (isp_bufs example_running b) = map_option co_dma (isp_bufs (projr (ar_isp_probe isp_defaults example_probe)) b)"
    unfolding e s by (simp add: same_dma_def)
qed


end
