(* ===== verification/Isp_Readers.thy ===== *)
theory Isp_Readers
  imports Isp_Reach
begin

text \<open>
  What goes out through the debugfs nodes of \<open>ar-isp-main.c\<close> while frames keep ending: the statistics halves
  (\<open>stats\<close>, \<open>stats_raw\<close>), against the interrupt and the stores of the engines byte by byte, the tone-mapping page node
  in both directions, and the map of the tone-mapping statistics.
\<close>

section \<open>Reading the statistics\<close>

definition stats_armed :: "ar_isp \<Rightarrow> bool" where
  "stats_armed s \<longleftrightarrow>
     (\<forall>(off, b, n) \<in> set stats_engines. \<forall>c. isp_bufs s b = Some c \<longrightarrow> isp_io s off = lower_32_bits (co_dma c + of_nat (stats_cur s * n)))"

abbreviation engine_regs :: "nat set" where "engine_regs \<equiv> {0x6440, 0x6474, 0x6508, 0x600c}"

lemma engine_off: "(off, b, n) \<in> set stats_engines \<Longrightarrow> off \<in> engine_regs"
  by (auto simp: stats_engines_def)

lemma armed_frame:
  assumes "stats_armed s" "\<And>off. off \<in> engine_regs \<Longrightarrow> isp_io s' off = isp_io s off" "same_dma (isp_bufs s) (isp_bufs s')" "stats_cur s' = stats_cur s"
  shows "stats_armed s'"
  unfolding stats_armed_def
proof (clarify)
  fix off b n c assume e: "(off, b, n) \<in> set stats_engines" and c: "isp_bufs s' b = Some c"
  obtain d where d: "isp_bufs s b = Some d" using same_dma_None [OF assms(3), of b] c by (cases "isp_bufs s b") auto
  then have "co_dma c = co_dma d" using same_dma_Some [OF assms(3) d] c by auto
  then show "isp_io s' off = lower_32_bits (co_dma c + word_of_nat (stats_cur s' * n))"
    using assms(1) e d assms(2) [OF engine_off [OF e]] assms(4) unfolding stats_armed_def by auto
qed

lemma arm_writes_value:
  assumes "(off, b, n) \<in> set stats_engines" "B b = Some c"
  shows "ar_isp_apply (ws @ arm_writes B half) R off = lower_32_bits (co_dma c + of_nat (half * n))"
  unfolding apply_append by (rule apply_value) (use assms in \<open>auto simp: stats_engines_def arm_writes_def in_buf_writes Let_def\<close>)

text \<open>Under \<open>tables\<close>, whenever a half is readable the engines are pointed at the other.\<close>

definition engines_away :: "ar_isp \<Rightarrow> bool" where
  "engines_away s \<longleftrightarrow> (stats_valid s \<longrightarrow> stats_armed s)"

lemma away_restarted: "restarted s \<Longrightarrow> engines_away s"
  by (simp add: restarted_def engines_away_def)

lemma away_frame:
  assumes "engines_away s" "\<And>off. off \<in> engine_regs \<Longrightarrow> isp_io s' off = isp_io s off" "same_dma (isp_bufs s) (isp_bufs s')" "same_index s s'"
  shows "engines_away s'"
  using assms(1,4) armed_frame [OF _ assms(2,3)] unfolding engines_away_def same_index_def by blast

lemma engine_sets: "engine_regs \<subseteq> desc_set" "engine_regs \<inter> ladder_span = {}" "engine_regs \<inter> geom_set = {}"
proof -
  show s: "engine_regs \<subseteq> desc_set" by (simp add: desc_set_def)
  show "engine_regs \<inter> ladder_span = {}" "engine_regs \<inter> geom_set = {}" using s sets_apart(1,2) by blast+
qed

lemma ladders_registers: "off \<in> engine_regs \<Longrightarrow> isp_io (ar_isp_ladders_set p val s) off = isp_io s off"
  using keepsD [OF keeps_ladders [OF engine_sets(2)]] keepsD [OF keeps_geom [OF engine_sets(3) [unfolded geom_set_def]]]
  by (simp add: ar_isp_ladders_set_def)

lemma fills_io: "fills_only S s t \<Longrightarrow> isp_io t = isp_io s"
  unfolding fills_only_def using isp_rest_fields(1) by blast

lemma tone_registers: "off \<in> engine_regs \<Longrightarrow> isp_io (ar_isp_tone_apply p force s) off = isp_io s off"
proof -
  assume o: "off \<in> engine_regs"
  have "off \<notin> fst ` set (tone_writes_of p blob s)" for blob
    using o by (auto simp: tone_writes_of_def buf_writes_def gamma_writes_def drc_writes_def Let_def split: option.splits if_splits)
  then show ?thesis
    unfolding tone_apply_form using fills_io [OF tone_rebuilt_fills] by (simp add: apply_other split: option.split)
qed

lemma follows_dma: "follows s t \<Longrightarrow> same_dma (isp_bufs s) (isp_bufs t)"
  by (simp add: follows_def)

lemma irq_away:
  assumes "ar_isp_irq p hook s0 s1 s = Some (s', calls)" "engines_away s"
  shows "engines_away s'"
  using irq_form [OF assms(1)]
proof (elim disjE conjE exE)
  fix e es n0 n1
  assume s': "s' = (write_list ([(0xcc, s0), (0xd4, s1)] @ arm_writes (isp_bufs s) (stats_cur s XOR 1)) s)
        \<lparr>irq_events := e, irq_seen0 := n0, irq_seen1 := n1, irq_stats_events := es, stats_done := stats_cur s, stats_cur := stats_cur s XOR 1,
         stats_valid := True, stats_flips := stats_flips s + 1\<rparr>"
  have i: "isp_bufs s' = isp_bufs s" "stats_cur s' = stats_cur s XOR 1"
    "isp_io s' = ar_isp_apply ([(0xcc, s0), (0xd4, s1)] @ arm_writes (isp_bufs s) (stats_cur s XOR 1)) (isp_io s)"
    by (simp_all add: s')
  have "stats_armed s'" unfolding stats_armed_def i using arm_writes_value by blast
  then show ?thesis by (simp add: engines_away_def)
next
  fix e es n0 n1
  assume s': "s' = (write_list [(0xcc, s0), (0xd4, s1)] s)\<lparr>irq_events := e, irq_seen0 := n0, irq_seen1 := n1, irq_stats_events := es\<rparr>"
  show ?thesis
  proof (rule away_frame [OF assms(2)])
    fix off assume "off \<in> engine_regs"
    then have "off \<notin> fst ` set [(0xcc :: nat, s0), (0xd4, s1)]" by auto
    then show "isp_io s' off = isp_io s off" by (simp add: s' apply_other)
  qed (simp_all add: s' same_index_def)
qed

lemma away_steps:
  assumes "isp_step p_tables s s'" "engines_away s"
  shows "engines_away s'"
  using assms(1)
proof cases
  case (step_configure p v val)
  then show ?thesis using configures_index(4) away_restarted by (auto simp: ar_isp_configure_set_def split: if_splits)
next
  case (step_prefix p v val)
  then show ?thesis using configures_index(3) away_restarted by (simp add: ar_isp_prefix_set_def)
next
  case (step_arm p k val)
  then show ?thesis using arm_index(1) away_restarted assms(2) by (simp add: ar_isp_arm_set_def)
next
  case (step_start p v k p')
  then have "s' = fst (ar_isp_arm_output p k (ar_isp_configure_prefix p v (p_setup_entries p) s))"
    by (simp add: ar_isp_pipeline_start_def)
  then show ?thesis using arm_index(1) away_restarted by simp
next
  case (step_ladders p val)
  then show ?thesis using away_frame [OF assms(2) ladders_registers follows_dma [OF follows_ladders] ladders_index(1)] by simp
next
  case (step_tone p val)
  then show ?thesis
    using away_frame [OF assms(2) tone_registers follows_dma [OF follows_tone] tone_index(1)] assms(2) by (simp add: ar_isp_tone_set_def)
next
  case (step_page fd)
  have d: "same_dma (isp_bufs s) (isp_bufs (ar_isp_ltm_page_release fd s))" by (rule follows_dma [OF follows_page])
  show ?thesis
  proof (cases rule: page_release_form [of fd s])
    case (2 c m ws)
    have "off \<notin> fst ` set ws" if "off \<in> engine_regs" for off using 2(2) that by auto
    then show ?thesis
      using away_frame [OF assms(2), of s'] d put_index [of s Ltm_page m] unfolding step_page 2(3) same_index_def by (simp add: apply_other)
  qed (use assms(2) step_page in simp)
next
  case (step_irq p hook s0 s1 calls)
  then show ?thesis using irq_away [OF _ assms(2)] by blast
next
  case (step_engine off b n c m)
  then show ?thesis using away_frame [OF assms(2), of s'] by (simp add: hw_keeps same_index_def)
next
  case (step_hardware b m)
  then show ?thesis using away_frame [OF assms(2), of s'] by (simp add: hw_keeps same_index_def)
qed

lemma reach_away: "isp_reach p_tables s \<Longrightarrow> engines_away s"
  by (induction rule: isp_reach.induct) (auto dest: probe_ok(4) away_steps simp: engines_away_def)

text \<open>An engine that is pointed at one half stores nothing in the other, for a buffer below 4 GiB.\<close>

definition below_4g :: "coherent \<Rightarrow> nat \<Rightarrow> bool" where
  "below_4g c n \<longleftrightarrow> unat (co_dma c) + 2 * n \<le> 2 ^ 32"

lemma low_whole: "unat a < 2 ^ 32 \<Longrightarrow> unat (ucast (lower_32_bits a) :: u64) = unat a"
  unfolding lower_32_bits_def by (simp add: unsigned_ucast_eq take_bit_eq_mod unat_word_ariths)

lemma engine_half:
  assumes r: "R off = lower_32_bits (co_dma c + of_nat (cur * n))" and cur: "cur < 2" and g: "below_4g c n"
    and w: "within_engine off n c m R" and i: "(1 - cur) * n \<le> i" "i < (1 - cur) * n + n"
  shows "m i = co_mem c i"
proof (rule ccontr)
  assume "m i \<noteq> co_mem c i"
  then obtain d where d: "d < n" "co_dma c + of_nat i = ucast (R off) + of_nat d" using w unfolding within_engine_def by blast
  have n: "unat (co_dma c) + 2 * n \<le> 2 ^ 32" using g by (simp add: below_4g_def)
  have h: "cur = 0 \<or> cur = 1" using cur by auto
  have c: "cur * n \<le> n" "i < 2 * n" using h i by auto
  have u: "unat (co_dma c + of_nat k) = unat (co_dma c) + k" if "k < 2 * n" for k
    using that n by (simp add: unat_word_ariths unat_of_nat take_bit_eq_mod)
  have x: "ucast (R off) = co_dma c + of_nat (cur * n)"
  proof (rule word_eq_unatI)
    have "unat (co_dma c + of_nat (cur * n)) < 2 ^ 32"
      using h u [of "cur * n"] n d(1) by auto
    then show "unat (ucast (R off) :: u64) = unat (co_dma c + of_nat (cur * n) :: u64)"
      unfolding r by (rule low_whole)
  qed
  have "cur * n + d < 2 * n" using h d(1) by auto
  then have "unat (co_dma c) + i = unat (co_dma c) + (cur * n + d)"
    using d(2) u [of i] u [of "cur * n + d"] c unfolding x by (simp add: add.assoc)
  then show False using h i d(1) by auto
qed

text \<open>The bytes of a half.\<close>

definition half_bytes :: "ar_isp \<Rightarrow> isp_buf \<Rightarrow> nat \<Rightarrow> nat \<Rightarrow> u8 list" where
  "half_bytes s b h n = map (\<lambda>i. co_mem (the (isp_bufs s b)) (h * n + i)) [0..<n]"

text \<open>Between frames, until the driver itself republishes: the handler and the hardware.\<close>

inductive frame_step :: "bool \<Rightarrow> ar_isp \<Rightarrow> ar_isp \<Rightarrow> bool" where
  frame_irq: "ar_isp_irq p hook s0 s1 s = Some (s', calls) \<Longrightarrow> frame_step (s1 AND 0x100 \<noteq> 0 \<and> p_pingpong p) s s'"
| frame_engine: "(off, b, n) \<in> set stats_engines \<Longrightarrow> isp_bufs s b = Some c \<Longrightarrow> within_engine off n c m (isp_io s) \<Longrightarrow> frame_step False s (hw_store b m s)"
| frame_hardware: "b \<in> {Ltm_stats, De3d0, De3d1, De3d2} \<Longrightarrow> frame_step False s (hw_store b m s)"

text \<open>Any number of them, counting the flips.\<close>

inductive frame_steps :: "nat \<Rightarrow> ar_isp \<Rightarrow> ar_isp \<Rightarrow> bool" where
  frame_none: "frame_steps 0 s s"
| frame_more: "frame_steps k s t \<Longrightarrow> frame_step f t u \<Longrightarrow> frame_steps (k + (if f then 1 else 0)) s u"

lemma frame_flips: "frame_step f s t \<Longrightarrow> stats_flips t = stats_flips s + (if f then 1 else 0)"
proof (induction rule: frame_step.induct)
  case (frame_irq p hook s0 s1 s s' calls)
  show ?case using irq_form [OF frame_irq] by (elim disjE conjE exE) simp_all
qed (simp_all add: hw_store_def split: option.split)

lemma frames_flips: "frame_steps k s t \<Longrightarrow> stats_flips t = stats_flips s + of_nat k"
  by (induction rule: frame_steps.induct) (auto dest: frame_flips)

text \<open>Without a flip, what a reader of the readable half sees stands still.\<close>

definition reader_same :: "ar_isp \<Rightarrow> ar_isp \<Rightarrow> bool" where
  "reader_same s t \<longleftrightarrow>
     same_index s t \<and> engines_away t \<and> same_dma (isp_bufs s) (isp_bufs t) \<and>
     (\<forall>(off, b, n) \<in> set stats_engines. \<forall>c. isp_bufs s b = Some c \<longrightarrow> below_4g c n \<longrightarrow>
        half_bytes t b (1 - stats_cur s) n = half_bytes s b (1 - stats_cur s) n)"

lemma reader_same_refl: "engines_away s \<Longrightarrow> reader_same s s"
  by (auto simp: reader_same_def same_index_def)

lemma reader_same_io:
  assumes "reader_same s t" "engines_away u" "isp_bufs u = isp_bufs t" "same_index t u"
  shows "reader_same s u"
  using assms unfolding reader_same_def same_index_def half_bytes_def by auto

lemma half_bytes_same:
  "(\<And>i. h * n \<le> i \<Longrightarrow> i < h * n + n \<Longrightarrow> co_mem (the (isp_bufs t b)) i = co_mem (the (isp_bufs s b)) i) \<Longrightarrow> half_bytes t b h n = half_bytes s b h n"
  by (simp add: half_bytes_def)

lemma reader_hw:
  assumes r: "reader_same s t" and h: "halves_ok s" "stats_valid s"
    and e: "(off, b, n) \<in> set stats_engines" "isp_bufs t b = Some c" "within_engine off n c m (isp_io t)"
  shows "reader_same s (hw_store b m t)"
proof -
  have i: "same_index s t" and a: "stats_armed t" using r h(2) by (auto simp: reader_same_def engines_away_def same_index_def)
  have cur: "stats_cur t = stats_cur s" "stats_cur s < 2" using i h(1) by (simp_all add: same_index_def halves_ok_def)
  have k: "half_bytes (hw_store b m t) b' (1 - stats_cur s) n' = half_bytes s b' (1 - stats_cur s) n'"
    if e': "(off', b', n') \<in> set stats_engines" "isp_bufs s b' = Some c'" "below_4g c' n'" for off' b' n' c'
  proof -
    have s: "half_bytes t b' (1 - stats_cur s) n' = half_bytes s b' (1 - stats_cur s) n'" using r that by (auto simp: reader_same_def)
    have "half_bytes (hw_store b m t) b' (1 - stats_cur s) n' = half_bytes t b' (1 - stats_cur s) n'"
    proof (cases "b' = b")
      case True
      have n: "n' = n" using e(1) e'(1) True by (auto simp: stats_engines_def)
      have "co_dma c = co_dma c'" using same_dma_Some [of "isp_bufs s" "isp_bufs t" b' c'] r e'(2) e(2) True by (auto simp: reader_same_def)
      then have g: "below_4g c n" using e'(3) n by (simp add: below_4g_def)
      have R: "isp_io t off = lower_32_bits (co_dma c + of_nat (stats_cur s * n))" using a e(1,2) cur(1) by (auto simp: stats_armed_def)
      have "m i = co_mem c i" if "(1 - stats_cur s) * n \<le> i" "i < (1 - stats_cur s) * n + n" for i
        by (rule engine_half [OF R cur(2) g e(3) that])
      then show ?thesis unfolding True n by (intro half_bytes_same) (simp add: hw_store_def e(2))
    qed (simp add: half_bytes_def hw_keeps)
    then show ?thesis using s by simp
  qed
  have d: "same_dma (isp_bufs s) (isp_bufs (hw_store b m t))" using same_dma_trans hw_keeps(12) r unfolding reader_same_def by blast
  have w: "engines_away (hw_store b m t)"
    by (rule away_frame [of t]) (use r in \<open>simp_all add: hw_keeps same_index_def reader_same_def\<close>)
  show ?thesis using i d w k by (auto simp: reader_same_def same_index_def hw_keeps)
qed

lemma reader_step:
  assumes "frame_step f t u" "\<not> f" "reader_same s t" "halves_ok s" "stats_valid s"
  shows "reader_same s u"
  using assms(1,2)
proof cases
  case (frame_irq p hook s0 s1 calls)
  then have n: "\<not> (s1 AND 0x100 \<noteq> 0 \<and> p_pingpong p)" using assms(2) by simp
  have a: "engines_away u" using irq_away [OF frame_irq(2)] assms(3) by (simp add: reader_same_def)
  have "isp_bufs u = isp_bufs t \<and> same_index t u"
    using irq_form [OF frame_irq(2)] n by (elim disjE conjE exE) (auto simp: same_index_def)
  then show ?thesis using reader_same_io [OF assms(3) a] by blast
next
  case (frame_engine off b n c m)
  then show ?thesis using reader_hw [OF assms(3-5) frame_engine(3-5)] by simp
next
  case (frame_hardware b m)
  have o: "(off, b', n) \<in> set stats_engines \<Longrightarrow> b' \<noteq> b" for off b' n using frame_hardware(3) by (auto simp: stats_engines_def)
  have w: "engines_away (hw_store b m t)"
    by (rule away_frame [of t]) (use assms(3) in \<open>simp_all add: hw_keeps same_index_def reader_same_def\<close>)
  have d: "same_dma (isp_bufs s) (isp_bufs (hw_store b m t))" using same_dma_trans hw_keeps(12) assms(3) unfolding reader_same_def by blast
  have "half_bytes (hw_store b m t) b' h n = half_bytes t b' h n" if "(off, b', n) \<in> set stats_engines" for off b' h n
    using o [OF that] by (simp add: half_bytes_def hw_keeps)
  then show ?thesis using assms(3) w d unfolding frame_hardware(2) by (fastforce simp: reader_same_def same_index_def hw_keeps)
qed

lemma reader_steps:
  "frame_steps k t u \<Longrightarrow> k = 0 \<Longrightarrow> reader_same s t \<Longrightarrow> halves_ok s \<Longrightarrow> stats_valid s \<Longrightarrow> reader_same s u"
  by (induction rule: frame_steps.induct) (auto intro: reader_step split: if_splits)

text \<open>The raw export.  The read takes its steps at instants of its own: the sequence word, the two pointers, every byte
  of the two halves, the sequence word again; \<open>t i\<close> is the state at the \<open>i\<close>-th instant.\<close>

definition ar_isp_stats_raw_show :: "isp_params \<Rightarrow> (nat \<Rightarrow> ar_isp) \<Rightarrow> errno + u32 \<times> u8 list \<times> u8 list \<times> u32" where
  "ar_isp_stats_raw_show p t =
     (case (ar_isp_stats_ready p (t 1) Rro AR_ISP_RRO_SIZE, ar_isp_stats_ready p (t 2) Hist AR_ISP_HIST_SIZE) of
        (Some r, Some h) \<Rightarrow>
          Inr (stats_flips (t 0),
               map (\<lambda>i. co_mem (the (isp_bufs (t (3 + i)) Rro)) (r + i)) [0..<AR_ISP_RRO_SIZE],
               map (\<lambda>i. co_mem (the (isp_bufs (t (3 + AR_ISP_RRO_SIZE + i)) Hist)) (h + i)) [0..<AR_ISP_HIST_SIZE],
               stats_flips (t (3 + AR_ISP_RRO_SIZE + AR_ISP_HIST_SIZE)))
      | _ \<Rightarrow> Inl EAGAIN)"

lemma flips_sum:
  assumes "\<And>i. i < N \<Longrightarrow> frame_steps (k i) (t i) (t (Suc i))" "n \<le> N"
  shows "stats_flips (t n) = stats_flips (t 0) + of_nat (\<Sum>i<n. k i)"
  using assms(2)
proof (induction n)
  case (Suc n)
  then show ?case using frames_flips [OF assms(1) [of n]] by (simp add: add.assoc add.commute)
qed simp

lemma no_flips:
  assumes "\<And>i. i < N \<Longrightarrow> frame_steps (k i) (t i) (t (Suc i))" "(\<Sum>i<N. k i) < 2 ^ 32" "stats_flips (t N) = stats_flips (t 0)" "i < N"
  shows "k i = 0"
proof -
  define S where "S = (\<Sum>i<N. k i)"
  have "stats_flips (t N) = stats_flips (t 0) + of_nat S" unfolding S_def by (rule flips_sum [of N k t N]) (use assms(1) in simp_all)
  then have "of_nat S = (0 :: u32)" using assms(3) by simp
  then have "2 ^ 32 dvd S" by (simp add: word_of_nat_eq_0_iff)
  then have "(\<Sum>i<N. k i) = 0" using assms(2) unfolding S_def [symmetric] by (metis dvd_imp_le not_gr_zero not_le)
  then show ?thesis using assms(4) by simp
qed

lemma frames_index: "frame_steps k s t \<Longrightarrow> k = 0 \<Longrightarrow> same_index s t"
proof (induction rule: frame_steps.induct)
  case (frame_more k s t f u)
  from frame_more(2) have "same_index t u" if "\<not> f"
    using that
  proof cases
    case (frame_irq p hook s0 s1 calls)
    then show ?thesis using irq_form [OF frame_irq(2)] that by (elim disjE conjE exE) (auto simp: same_index_def)
  qed (simp_all add: same_index_def hw_keeps)
  then show ?case using frame_more by (auto simp: same_index_def split: if_splits)
qed (simp add: same_index_def)

lemma reader_path:
  assumes "\<And>i. i < N \<Longrightarrow> frame_steps 0 (t i) (t (Suc i))" "engines_away (t 0)" "halves_ok (t 0)" "stats_valid (t 0)" "n \<le> N"
  shows "reader_same (t 0) (t n)"
  using assms(5)
proof (induction n)
  case 0
  show ?case by (rule reader_same_refl [OF assms(2)])
next
  case (Suc n)
  then show ?case using reader_steps [OF assms(1) refl _ assms(3,4)] by simp
qed

lemma reader_byte:
  assumes "reader_same s t" "(off, b, n) \<in> set stats_engines" "isp_bufs s b = Some c" "below_4g c n" "i < n"
  shows "co_mem (the (isp_bufs t b)) ((1 - stats_cur s) * n + i) = co_mem (the (isp_bufs s b)) ((1 - stats_cur s) * n + i)"
proof -
  have "half_bytes t b (1 - stats_cur s) n ! i = half_bytes s b (1 - stats_cur s) n ! i" using assms by (auto simp: reader_same_def)
  then show ?thesis using assms(5) by (simp add: half_bytes_def)
qed

lemma reader_ready:
  assumes "reader_same s t" "halves_ok s" "stats_valid s" "p_pingpong p" "isp_bufs s b \<noteq> None"
  shows "ar_isp_stats_ready p t b n = Some ((1 - stats_cur s) * n)"
proof -
  have "stats_valid t" "stats_done t = 1 - stats_cur s" using assms(1,2,3) by (simp_all add: reader_same_def same_index_def halves_ok_def)
  moreover obtain c where "isp_bufs t b = Some c"
    using same_dma_None [of "isp_bufs s" "isp_bufs t" b] assms(1,5) by (cases "isp_bufs t b") (auto simp: reader_same_def)
  ultimately show ?thesis using assms(4) by (simp add: ar_isp_stats_ready_def)
qed

abbreviation raw_instants :: nat where "raw_instants \<equiv> 3 + AR_ISP_RRO_SIZE + AR_ISP_HIST_SIZE"

text \<open>C8: The statistics a reader of \<open>stats_raw\<close> is handed are one frame's: with ping-pong on and the driver's own
  buffers (below 4 GiB), in any state of the device's life, while frames end and the engines store
  between any two bytes of the copy and fewer than \<open>2^32\<close> flips happen, a read whose two sequence words are
  equal returned exactly the bytes the readable halves of the zone grid and the histogram held when
  it began, and every engine's address register named the other half.\<close>

theorem stats_raw_coherent:
  assumes "isp_reach p_tables (t 0)" "p_pingpong p"
    and "\<forall>c. isp_bufs (t 0) Rro = Some c \<longrightarrow> below_4g c AR_ISP_RRO_SIZE" "\<forall>c. isp_bufs (t 0) Hist = Some c \<longrightarrow> below_4g c AR_ISP_HIST_SIZE"
    and "\<And>i. i < raw_instants \<Longrightarrow> frame_steps (k i) (t i) (t (Suc i))" "(\<Sum>i < raw_instants. k i) < 2 ^ 32"
    and "ar_isp_stats_raw_show p t = Inr (q, rro, hist, q)"
  shows "stats_armed (t 0) \<and> rro = half_bytes (t 0) Rro (1 - stats_cur (t 0)) AR_ISP_RRO_SIZE \<and>
    hist = half_bytes (t 0) Hist (1 - stats_cur (t 0)) AR_ISP_HIST_SIZE"
proof -
  define N where "N = raw_instants"
  have N: "1 \<le> N" "2 \<le> N" "\<And>i. i < AR_ISP_RRO_SIZE \<Longrightarrow> 3 + i \<le> N" "\<And>i. i < AR_ISP_HIST_SIZE \<Longrightarrow> 3 + AR_ISP_RRO_SIZE + i \<le> N"
    by (simp_all add: N_def)
  obtain r h where s: "ar_isp_stats_ready p (t 1) Rro AR_ISP_RRO_SIZE = Some r" "ar_isp_stats_ready p (t 2) Hist AR_ISP_HIST_SIZE = Some h"
    "stats_flips (t N) = stats_flips (t 0)"
    "rro = map (\<lambda>i. co_mem (the (isp_bufs (t (3 + i)) Rro)) (r + i)) [0..<AR_ISP_RRO_SIZE]"
    "hist = map (\<lambda>i. co_mem (the (isp_bufs (t (3 + AR_ISP_RRO_SIZE + i)) Hist)) (h + i)) [0..<AR_ISP_HIST_SIZE]"
    using assms(7) unfolding ar_isp_stats_raw_show_def N_def by (auto split: option.splits simp del: upt_rec_numeral)
  have z: "frame_steps 0 (t i) (t (Suc i))" if "i < N" for i
  proof -
    have "k i = 0" by (rule no_flips [where N = N and t = t]) (use assms(5,6) s(3) that in \<open>auto simp: N_def\<close>)
    then show ?thesis using assms(5) [of i] that unfolding N_def by simp
  qed
  have a: "engines_away (t 0)" "halves_ok (t 0)" using reach_away reach_halves assms(1) by blast+
  have "stats_valid (t 1)" using s(1) assms(2) by (auto simp: ar_isp_stats_ready_def split: option.splits if_splits)
  moreover have "same_index (t 0) (t 1)"
    using frames_index [OF z [of 0] refl] N(1) by simp
  ultimately have v: "stats_valid (t 0)" by (simp add: same_index_def)
  have p: "reader_same (t 0) (t n)" if "n \<le> N" for n by (rule reader_path [OF z a v that])
  have e: "(0x6440, Rro, AR_ISP_RRO_SIZE) \<in> set stats_engines" "(0x600c, Hist, AR_ISP_HIST_SIZE) \<in> set stats_engines" by (simp_all add: stats_engines_def)
  have b: "\<exists>c. isp_bufs (t 0) b = Some c" if y: "ar_isp_stats_ready p (t i) b n = Some x" and i: "i \<le> N" for i b n x
  proof -
    have "isp_bufs (t i) b \<noteq> None" using y unfolding ar_isp_stats_ready_def by (cases "isp_bufs (t i) b") simp_all
    then show ?thesis using same_dma_None [of "isp_bufs (t 0)" "isp_bufs (t i)" b] p [OF i] by (cases "isp_bufs (t 0) b") (auto simp: reader_same_def)
  qed
  obtain c d where c: "isp_bufs (t 0) Rro = Some c" "isp_bufs (t 0) Hist = Some d" using b [OF s(1)] b [OF s(2)] N(1,2) by blast
  have g: "below_4g c AR_ISP_RRO_SIZE" "below_4g d AR_ISP_HIST_SIZE" using assms(3,4) c by blast+
  have o: "r = (1 - stats_cur (t 0)) * AR_ISP_RRO_SIZE" "h = (1 - stats_cur (t 0)) * AR_ISP_HIST_SIZE"
    using reader_ready [OF p [OF N(1)] a(2) v assms(2), of Rro AR_ISP_RRO_SIZE] reader_ready [OF p [OF N(2)] a(2) v assms(2), of Hist AR_ISP_HIST_SIZE]
      s(1,2) c by (simp_all only: option.inject option.simps not_False_eq_True)
  have "rro = half_bytes (t 0) Rro (1 - stats_cur (t 0)) AR_ISP_RRO_SIZE"
    unfolding s(4) half_bytes_def o by (intro map_cong refl reader_byte [OF p [OF N(3)] e(1) c(1) g(1)]) (simp_all del: upt_rec_numeral)
  moreover have "hist = half_bytes (t 0) Hist (1 - stats_cur (t 0)) AR_ISP_HIST_SIZE"
    unfolding s(5) half_bytes_def o by (intro map_cong refl reader_byte [OF p [OF N(4)] e(2) c(2) g(2)]) (simp_all del: upt_rec_numeral)
  ultimately show ?thesis using a(1) v by (simp add: engines_away_def)
qed

lemma example_bufs: "isp_bufs (projr (ar_isp_probe isp_defaults example_probe)) b = Some \<lparr>co_mem = \<lambda>_. 0, co_dma = of_nat (0x2c000000 + isp_buf_size b)\<rparr>"
proof -
  have w: "wanted_bufs isp_defaults = [Gamma, Drc, Tone, Lsc, Hdr_lsc, Rro, Rro_face, Hist, Ltm_page, Ltm_stats, De3d0, De3d1, De3d2]"
    by (simp add: wanted_bufs_def isp_defaults_def)
  have a: "isp_bufs (fold (ar_isp_alloc example_env) bs s) b = (if b \<in> set bs then Some \<lparr>co_mem = \<lambda>_. 0, co_dma = of_nat (0x2c000000 + isp_buf_size b)\<rparr> else isp_bufs s b)" for bs s
    by (induction bs arbitrary: s) (simp_all add: ar_isp_alloc_def example_env_def)
  have e: "pe_mask example_env" "pe_pool example_env" "pe_firmware example_env = Some (\<lambda>_. 1, AR_ISP_TUNING_BYTES)" by (simp_all add: example_env_def)
  have "b \<in> set (wanted_bufs isp_defaults)" unfolding w by (cases b) simp_all
  then show ?thesis
    using e by (simp add: ar_isp_probe_def example_probe_def Let_def ar_isp_tables_prepare_def a)
qed

text \<open>The example machine after its first frame, read while nothing happens.\<close>

theorem stats_raw_coherent_witness:
  "\<exists>q rro hist. ar_isp_stats_raw_show isp_defaults (\<lambda>_. example_running) = Inr (q, rro, hist, q) \<and>
     rro = half_bytes example_running Rro (1 - stats_cur example_running) AR_ISP_RRO_SIZE"
proof -
  have p: "p_pingpong isp_defaults" "p_tables isp_defaults" by (simp_all add: isp_defaults_def)
  note r = example_reach [where P = p_tables, OF p(2)]
  have d: "co_dma c = of_nat (0x2c000000 + isp_buf_size b)" if "isp_bufs example_running b = Some c" for b c
    using r(3) [of b] that unfolding example_bufs by simp
  have g: "below_4g c AR_ISP_RRO_SIZE" if "isp_bufs example_running Rro = Some c" for c
    using d [OF that] by (simp add: below_4g_def)
  have h: "below_4g c AR_ISP_HIST_SIZE" if "isp_bufs example_running Hist = Some c" for c
    using d [OF that] by (simp add: below_4g_def)
  have b: "isp_bufs example_running b \<noteq> None" for b using r(3) [of b] unfolding example_bufs by auto
  have y: "ar_isp_stats_ready isp_defaults example_running b n \<noteq> None" for b n
    using b [of b] p(1) r(2) by (auto simp: ar_isp_stats_ready_def split: option.split)
  obtain x1 x2 where x: "ar_isp_stats_ready isp_defaults example_running Rro AR_ISP_RRO_SIZE = Some x1"
    "ar_isp_stats_ready isp_defaults example_running Hist AR_ISP_HIST_SIZE = Some x2" using y by blast
  obtain rro hist where s: "ar_isp_stats_raw_show isp_defaults (\<lambda>_. example_running) = Inr (stats_flips example_running, rro, hist, stats_flips example_running)"
    unfolding ar_isp_stats_raw_show_def x by simp
  have "rro = half_bytes example_running Rro (1 - stats_cur example_running) AR_ISP_RRO_SIZE"
    using stats_raw_coherent [where t = "\<lambda>_. example_running" and k = "\<lambda>_. 0", OF r(1) p(1) _ _ frame_none _ s] g h by simp
  then show ?thesis using s by blast
qed

section \<open>Feeding a tone-mapping page\<close>

text \<open>One open of the node: the writes, in order, each a list of bytes that is copied in whole.\<close>

definition feed_writes :: "u8 list list \<Rightarrow> ar_isp_ltm_feed" where
  "feed_writes chunks = fold (\<lambda>data fd. snd (ar_isp_ltm_page_write data 0 fd)) chunks ar_isp_ltm_page_open"

definition feed_holds :: "u8 list \<Rightarrow> ar_isp_ltm_feed \<Rightarrow> bool" where
  "feed_holds bs fd \<longleftrightarrow>
     fd_pos fd = min (length bs) AR_ISP_LTM_PAGE_SIZE \<and> fd_filled fd = fd_pos fd \<and> (\<forall>i < fd_pos fd. fd_buf fd i = bs ! i)"

lemma feed_write: "feed_holds bs fd \<Longrightarrow> feed_holds (bs @ data) (snd (ar_isp_ltm_page_write data 0 fd))"
  unfolding feed_holds_def ar_isp_ltm_page_write_def Let_def
  by (auto simp: nth_append min_def not_less)

lemma feed_all: "feed_holds (concat chunks) (feed_writes chunks)"
proof -
  have "feed_holds (bs @ concat chunks) (fold (\<lambda>data fd. snd (ar_isp_ltm_page_write data 0 fd)) chunks fd)" if "feed_holds bs fd" for bs fd
    using that
  proof (induction chunks arbitrary: bs fd)
    case (Cons data chunks)
    from Cons.IH [OF feed_write [OF Cons.prems, of data]] show ?case by simp
  qed simp
  moreover have "feed_holds [] ar_isp_ltm_page_open" by (simp add: feed_holds_def ar_isp_ltm_page_open_def)
  ultimately show ?thesis unfolding feed_writes_def by fastforce
qed

lemma page_read_half: "ltm_half s (ltm_page_half s) = Some bs \<Longrightarrow> ar_isp_ltm_page_read 0 AR_ISP_LTM_PAGE_SIZE s = Inr bs"
  unfolding ltm_half_def ar_isp_ltm_page_read_def by (auto simp del: upt_rec_numeral)

text \<open>C37: A page fed through the debugfs node, however the writer cuts it into writes: once a whole page has arrived,
  closing the node makes it the page that is read back and the one the descriptor names, in the other
  half of the buffer, without touching the half the hardware was fetching, which is the page read
  before; what goes beyond a page is dropped, and a feed that closes short changes nothing.\<close>

theorem ltm_page_roundtrip:
  assumes "isp_bufs s Ltm_page = Some c" "ltm_page_half s < 2"
  shows "(length (concat chunks) < AR_ISP_LTM_PAGE_SIZE \<longrightarrow> ar_isp_ltm_page_release (feed_writes chunks) s = s) \<and>
    (AR_ISP_LTM_PAGE_SIZE \<le> length (concat chunks) \<longrightarrow>
       (\<exists>s'. ar_isp_ltm_page_release (feed_writes chunks) s = s' \<and>
          ar_isp_ltm_page_read 0 AR_ISP_LTM_PAGE_SIZE s' = Inr (take AR_ISP_LTM_PAGE_SIZE (concat chunks)) \<and>
          ltm_page_half s' = 1 - ltm_page_half s \<and>
          isp_io s' 0x2808 = lower_32_bits (co_dma c + of_nat (ltm_page_half s' * AR_ISP_LTM_PAGE_SIZE)) \<and>
          ar_isp_ltm_page_read 0 AR_ISP_LTM_PAGE_SIZE (s'\<lparr>ltm_page_half := ltm_page_half s\<rparr>) = ar_isp_ltm_page_read 0 AR_ISP_LTM_PAGE_SIZE s))"
proof (cases "AR_ISP_LTM_PAGE_SIZE \<le> length (concat chunks)")
  case False
  then have "fd_filled (feed_writes chunks) < AR_ISP_LTM_PAGE_SIZE" using feed_all [of chunks] by (simp add: feed_holds_def)
  then show ?thesis using False by (simp add: ar_isp_ltm_page_release_def)
next
  case True
  let ?fd = "feed_writes chunks"
  have f: "fd_filled ?fd = AR_ISP_LTM_PAGE_SIZE" "\<forall>i < AR_ISP_LTM_PAGE_SIZE. fd_buf ?fd i = concat chunks ! i"
    using feed_all [of chunks] True by (simp_all add: feed_holds_def min_def)
  obtain s' where s': "ar_isp_ltm_page_publish (fd_buf ?fd) s = Inr s'" "ltm_page_half s' = 1 - ltm_page_half s"
    "ltm_half s' (1 - ltm_page_half s) = Some (map (fd_buf ?fd) [0..<AR_ISP_LTM_PAGE_SIZE])"
    "ltm_half s' (ltm_page_half s) = ltm_half s (ltm_page_half s)"
    "isp_io s' = (isp_io s)(0x2808 := lower_32_bits (co_dma c + of_nat ((1 - ltm_page_half s) * AR_ISP_LTM_PAGE_SIZE)))"
    by (rule ltm_publish_halves [OF assms, of "fd_buf ?fd"]) blast
  have r: "ar_isp_ltm_page_release ?fd s = s'" by (simp add: ar_isp_ltm_page_release_def f(1) s'(1))
  have "map (fd_buf ?fd) [0..<AR_ISP_LTM_PAGE_SIZE] = take AR_ISP_LTM_PAGE_SIZE (concat chunks)"
    by (rule nth_equalityI) (use f(2) True in \<open>simp_all del: upt_rec_numeral\<close>)
  then have n: "ar_isp_ltm_page_read 0 AR_ISP_LTM_PAGE_SIZE s' = Inr (take AR_ISP_LTM_PAGE_SIZE (concat chunks))"
    using s'(2,3) by (intro page_read_half) simp
  obtain bs where b: "ltm_half s (ltm_page_half s) = Some bs" using assms(1) by (simp add: ltm_half_def del: upt_rec_numeral)
  have "ltm_half (s'\<lparr>ltm_page_half := ltm_page_half s\<rparr>) (ltm_page_half s) = Some bs" using s'(4) b by (simp add: ltm_half_def)
  then have o: "ar_isp_ltm_page_read 0 AR_ISP_LTM_PAGE_SIZE (s'\<lparr>ltm_page_half := ltm_page_half s\<rparr>) = ar_isp_ltm_page_read 0 AR_ISP_LTM_PAGE_SIZE s"
    using page_read_half [OF b] page_read_half [of "s'\<lparr>ltm_page_half := ltm_page_half s\<rparr>" bs] by simp
  show ?thesis using True r n o s'(2,5) by simp
qed

theorem ltm_page_roundtrip_witness:
  "\<exists>s s'. ar_isp_probe isp_defaults example_probe = Inr s \<and>
     ar_isp_ltm_page_release (feed_writes [replicate 0x3000 7, replicate 0x2000 9]) s = s' \<and>
     ar_isp_ltm_page_read 0 AR_ISP_LTM_PAGE_SIZE s' = Inr (replicate 0x3000 7 @ replicate 0x1000 9)"
proof -
  obtain s where s: "ar_isp_probe isp_defaults example_probe = Inr s" by (simp add: ar_isp_probe_def example_probe_def Let_def)
  have b: "isp_bufs s Ltm_page = Some \<lparr>co_mem = \<lambda>_. 0, co_dma = of_nat (0x2c000000 + isp_buf_size Ltm_page)\<rparr>"
    using example_bufs [of Ltm_page] unfolding s by simp
  have h: "ltm_page_half s < 2" using probe_ok(3) [OF s] by (simp add: halves_ok_def)
  show ?thesis using s ltm_page_roundtrip [OF b h, of "[replicate 0x3000 7, replicate 0x2000 9]"] by (auto simp: take_replicate)
qed

text \<open>Two things the node and the raw export do not do.  The high-water mark is a position, so one byte written at the
  last place of the page publishes a page of zeros; and a republication points the engines back at
  half 0 without moving the sequence word a reader of that half compares.\<close>

lemma sparse_feed_publishes:
  "fd_filled (snd (ar_isp_ltm_page_write [x] 0 (ar_isp_ltm_page_open\<lparr>fd_pos := 0x3fff\<rparr>))) = AR_ISP_LTM_PAGE_SIZE \<and>
   (\<forall>i < 0x3fff. fd_buf (snd (ar_isp_ltm_page_write [x] 0 (ar_isp_ltm_page_open\<lparr>fd_pos := 0x3fff\<rparr>))) i = 0)"
  by (simp add: ar_isp_ltm_page_write_def ar_isp_ltm_page_open_def Let_def)

lemma republish_keeps_sequence:
  assumes "isp_bufs s Rro = Some c"
  shows "stats_flips (ar_isp_stats_publish s) = stats_flips s \<and> isp_io (ar_isp_stats_publish s) 0x6440 = lower_32_bits (co_dma c)"
proof -
  have "(0x6440, lower_32_bits (co_dma c)) \<in> set (stats_writes (isp_bufs s) (ltm_page_half s))"
    using assms by (simp add: stats_writes_def arm_writes_def in_buf_writes Let_def)
  moreover have "v = lower_32_bits (co_dma c)" if "(0x6440, v) \<in> set (stats_writes (isp_bufs s) (ltm_page_half s))" for v
    using that assms by (auto simp: stats_writes_def arm_writes_def in_buf_writes Let_def)
  ultimately have "ar_isp_apply (stats_writes (isp_bufs s) (ltm_page_half s)) R 0x6440 = lower_32_bits (co_dma c)" for R by (rule apply_value)
  then show ?thesis by (simp add: stats_publish_writes)
qed

section \<open>Two read-only nodes\<close>

text \<open>The zone grid: the count, the luma of every zone by rows, their total and the frame mean; \<open>None\<close> where nothing is
  owned or no frame is complete.\<close>

definition ar_isp_stats_show :: "isp_params \<Rightarrow> ar_isp \<Rightarrow> (u32 \<times> u32 list list \<times> u64 \<times> u64) option" where
  "ar_isp_stats_show p s =
     (case ar_isp_stats_ready p s Rro AR_ISP_RRO_SIZE of
        None \<Rightarrow> None
      | Some d \<Rightarrow>
          let rro = (\<lambda>i. co_mem (the (isp_bufs s Rro)) (d + i));
              luma = (\<lambda>row col. (ar_isp_rro_mean rro (of_nat col) (of_nat row) 1 + ar_isp_rro_mean rro (of_nat col) (of_nat row) 2) div 2);
              rows = map (\<lambda>row. map (luma row) [0..<36]) [0..<16];
              total = fold (\<lambda>row t. fold (\<lambda>l t. t + ucast l) row t) rows (0 :: u64)
          in Some (ar_isp_rro_count rro 0, rows, total, total div (36 * 16)))"

text \<open>The map of the tone-mapping statistics: a line per block with something in it, a line per run of empty ones.\<close>

abbreviation AR_ISP_LTM_HIST_SIZE :: nat where "AR_ISP_LTM_HIST_SIZE \<equiv> 0x8000"
abbreviation AR_ISP_LTM_TAIL_BLOCK :: nat where "AR_ISP_LTM_TAIL_BLOCK \<equiv> 0x1000"

datatype tail_line = Zero_run nat | Block nat nat nat

definition tail_block :: "mem \<Rightarrow> nat \<Rightarrow> nat \<times> nat" where
  "tail_block stats off =
     fold (\<lambda>i (nonzero, first). if stats (off + i) \<noteq> 0 then (nonzero + 1, if nonzero = 0 then i else first) else (nonzero, first))
       [0..<AR_ISP_LTM_TAIL_BLOCK] (0, AR_ISP_LTM_TAIL_BLOCK)"

fun tail_step :: "mem \<Rightarrow> nat \<Rightarrow> tail_line list \<times> nat \<times> nat \<Rightarrow> tail_line list \<times> nat \<times> nat" where
  "tail_step stats off (out, zero_run, written) =
     (let (nonzero, first) = tail_block stats off
      in if nonzero = 0 then (out, zero_run + 1, written)
         else ((if zero_run > 0 then out @ [Zero_run zero_run] else out) @ [Block off nonzero first], 0, written + 1))"

definition ar_isp_ltm_tail_show :: "ar_isp \<Rightarrow> (tail_line list \<times> nat) option" where
  "ar_isp_ltm_tail_show s =
     map_option (\<lambda>c. let (out, zero_run, written) =
         fold (tail_step (co_mem c)) (map (\<lambda>k. AR_ISP_LTM_HIST_SIZE + k * AR_ISP_LTM_TAIL_BLOCK) [0..<120]) ([], 0, 0)
       in ((if zero_run > 0 then out @ [Zero_run zero_run] else out), written)) (isp_bufs s Ltm_stats)"

text \<open>The report loses no block: spelled out again, its lines are the blocks in order, each empty or with its offset.\<close>

fun tail_spell :: "tail_line \<Rightarrow> nat option list" where
  "tail_spell (Zero_run n) = replicate n None"
| "tail_spell (Block off nonzero first) = [Some off]"

lemma tail_fold:
  assumes "fold (tail_step m) offs (out, z, w) = (out', z', w')"
  shows "concat (map tail_spell out') @ replicate z' None =
      concat (map tail_spell out) @ replicate z None @ map (\<lambda>off. if fst (tail_block m off) = 0 then None else Some off) offs \<and>
    w' = w + length (filter (\<lambda>off. fst (tail_block m off) \<noteq> 0) offs)"
  using assms
proof (induction offs arbitrary: out z w)
  case (Cons off offs)
  obtain n f where b: "tail_block m off = (n, f)" by fastforce
  have r: "replicate z None @ None # xs = replicate (Suc z) None @ xs" for xs :: "nat option list"
    by (simp add: replicate_append_same [symmetric] del: replicate_append_same)
  show ?case
  proof (cases "n = 0")
    case True
    then show ?thesis using Cons.IH [of out "Suc z" w] Cons.prems by (simp add: b r)
  next
    case False
    then show ?thesis using Cons.IH [of "(if z > 0 then out @ [Zero_run z] else out) @ [Block off n f]" 0 "Suc w"] Cons.prems by (simp add: b)
  qed
qed simp

lemma tail_block_empty: "fst (tail_block m off) = 0 \<longleftrightarrow> (\<forall>i < AR_ISP_LTM_TAIL_BLOCK. m (off + i) = 0)"
proof -
  have "fst (fold (\<lambda>i (nonzero, first). if m (off + i) \<noteq> 0 then (nonzero + 1, if nonzero = 0 then i else first) else (nonzero, first)) is x) =
      fst x + length (filter (\<lambda>i. m (off + i) \<noteq> 0) is)" for "is" and x :: "nat \<times> nat"
    by (induction "is" arbitrary: x) (auto split: prod.splits)
  then show ?thesis unfolding tail_block_def by (auto simp: filter_empty_conv simp del: upt_rec_numeral fold_simps)
qed

lemma tail_report:
  assumes "isp_bufs s Ltm_stats = Some c"
  obtains out where
    "ar_isp_ltm_tail_show s = Some (out, length (filter (\<lambda>k. \<exists>i < AR_ISP_LTM_TAIL_BLOCK. co_mem c (AR_ISP_LTM_HIST_SIZE + k * AR_ISP_LTM_TAIL_BLOCK + i) \<noteq> 0) [0..<120]))"
    "concat (map tail_spell out) =
       map (\<lambda>k. if \<forall>i < AR_ISP_LTM_TAIL_BLOCK. co_mem c (AR_ISP_LTM_HIST_SIZE + k * AR_ISP_LTM_TAIL_BLOCK + i) = 0 then None
                 else Some (AR_ISP_LTM_HIST_SIZE + k * AR_ISP_LTM_TAIL_BLOCK)) [0..<120]"
proof -
  obtain out z w where f: "fold (tail_step (co_mem c)) (map (\<lambda>k. AR_ISP_LTM_HIST_SIZE + k * AR_ISP_LTM_TAIL_BLOCK) [0..<120]) ([], 0, 0) = (out, z, w)"
    by (cases "fold (tail_step (co_mem c)) (map (\<lambda>k. AR_ISP_LTM_HIST_SIZE + k * AR_ISP_LTM_TAIL_BLOCK) [0..<120]) ([], 0, 0)")
  show ?thesis
    by (rule that [of "if z > 0 then out @ [Zero_run z] else out"])
       (use tail_fold [OF f] in \<open>auto simp: ar_isp_ltm_tail_show_def assms f tail_block_empty filter_map comp_def simp del: upt_rec_numeral fold_simps\<close>)
qed

end
