(* ===== verification/Cvisp_Tables.thy ===== *)
theory Cvisp_Tables
  imports Isp_Stages
begin

text \<open>
  The register tables of the output stage (\<open>ar-cvisp-derived.h\<close>): the setup run in write order (in two
  pieces), the run that follows it, the group written once every five frames, and the five fixed
  plane triplets of the idle ring.
\<close>

definition cvisp_setup_run0 :: "isp_reg list" where
  "cvisp_setup_run0 =
     [(0x8000, 0x800800), (0x8004, 0x0), (0x8008, 0x21c03c0), (0x800c, 0x0), (0x8010, 0x21c03c0), (0x8014, 0x0),
      (0x8018, 0x4a40840), (0x801c, 0x0), (0x8020, 0x4a40840), (0x8024, 0x0), (0x8028, 0x4380780), (0x802c, 0x8000b33),
      (0x8030, 0x7800780), (0x8034, 0x4380438), (0x8038, 0x8000800), (0x803c, 0x3ffffc00), (0x8040, 0x3ffffc00), (0x8044, 0x21c03c0),
      (0x8048, 0x10800000), (0x804c, 0x0), (0x8050, 0x21c03c0), (0x8054, 0x8000b33), (0x8058, 0x3c003c0), (0x805c, 0x21c021c),
      (0x8060, 0x8000800), (0x8064, 0x3ffffc00), (0x8068, 0x3ffffc00), (0x806c, 0x10e01e0), (0x8070, 0x10800000), (0x8074, 0x0),
      (0x8078, 0x4380780), (0x807c, 0x8000b33), (0x8080, 0x7800780), (0x8084, 0x4380438), (0x8088, 0x8000800), (0x808c, 0x3ffffc00),
      (0x8090, 0x3ffffc00), (0x8094, 0x4380780), (0x8098, 0xa800000), (0x809c, 0x0), (0x80a0, 0x21c03c0), (0x80a4, 0x8000b33),
      (0x80a8, 0x3c003c0), (0x80ac, 0x21c021c), (0x80b0, 0x8000800), (0x80b4, 0x3ffffc00), (0x80b8, 0x3ffffc00), (0x80bc, 0x21c03c0),
      (0x80c0, 0xa800000), (0x80c4, 0x0), (0x80c8, 0x4380780), (0x80cc, 0x8000b33), (0x80d0, 0x7800780), (0x80d4, 0x4380438),
      (0x80d8, 0x8000800), (0x80dc, 0x3ffffc00), (0x80e0, 0x3ffffc00), (0x80e4, 0x21c03c0), (0x80e8, 0x10000000), (0x80ec, 0x0),
      (0x80f0, 0x21c03c0), (0x80f4, 0x8000b33), (0x80f8, 0x3c003c0), (0x80fc, 0x21c021c), (0x8100, 0x8000800), (0x8104, 0x3ffffc00),
      (0x8108, 0x3ffffc00), (0x810c, 0x10e01e0), (0x8110, 0x10000000), (0x8114, 0x0), (0x8118, 0x8400000), (0x811c, 0x4a40000),
      (0x8120, 0x8400000), (0x8124, 0x4a40000), (0x8128, 0x8000800), (0x812c, 0x3ffffc00), (0x8130, 0x3ffffc00), (0x8134, 0x21c03c0),
      (0x8138, 0x6d00000), (0x813c, 0x0), (0x8140, 0x4380780), (0x8144, 0x8000b32), (0x8148, 0x7800780), (0x814c, 0x4380438),
      (0x8150, 0x8000800), (0x8154, 0x3ffffc00), (0x8158, 0x3ffffc00), (0x815c, 0x21c03c0), (0x8160, 0x7d00000), (0x8164, 0x0),
      (0x8168, 0x8d00000), (0x816c, 0x11800000), (0x8170, 0xad00000), (0x8174, 0xb800000), (0x8178, 0xcd00000), (0x817c, 0x11000000),
      (0x8180, 0xed00000), (0x8184, 0xfd00000), (0x8188, 0x10d00000), (0x818c, 0x14800000), (0x8190, 0x12d00000), (0x8194, 0xc800000),
      (0x8198, 0x14d00000), (0x819c, 0x14000000), (0x81a0, 0x16d00000), (0x81a4, 0x17d00000), (0x81a8, 0x0), (0x81ac, 0x0),
      (0x81b0, 0x0), (0x81b4, 0x0), (0x81b8, 0x0), (0x81bc, 0x0), (0x81c0, 0x0), (0x81c4, 0x0),
      (0x81c8, 0x300003a), (0x81cc, 0xa92c2020), (0x81d0, 0x820000), (0x81d4, 0x9e001c), (0x81d8, 0x0), (0x81dc, 0x0),
      (0x81e0, 0x0), (0x81e4, 0x0), (0x81e8, 0x0), (0x81ec, 0x0), (0x81f0, 0x0), (0x81f4, 0x0),
      (0x81f8, 0x0)]"

definition cvisp_setup_run1 :: "isp_reg list" where
  "cvisp_setup_run1 =
     [(0x81fc, 0x0), (0x8200, 0x0), (0x8204, 0x0), (0x8208, 0x0), (0x820c, 0x0), (0x8210, 0x12800000),
      (0x8214, 0x13800000), (0x8218, 0x16800000), (0x821c, 0x202040), (0x8220, 0x1), (0x8224, 0x800000), (0x8228, 0x8800000),
      (0x822c, 0x10800000), (0x8230, 0x0), (0x8234, 0x0), (0x8238, 0x0), (0x823c, 0x1800000), (0x8240, 0x9800000),
      (0x8244, 0x11800000), (0x8248, 0x0), (0x824c, 0x0), (0x8250, 0x0), (0x8254, 0x2800000), (0x8258, 0xa800000),
      (0x825c, 0x12800000), (0x8260, 0x0), (0x8264, 0x0), (0x8268, 0x0), (0x826c, 0x3800000), (0x8270, 0xb800000),
      (0x8274, 0x13800000), (0x8278, 0x0), (0x827c, 0x0), (0x8280, 0x0), (0x8284, 0x4800000), (0x8288, 0xc800000),
      (0x828c, 0x14800000), (0x8290, 0x0), (0x8294, 0x0), (0x8298, 0x0), (0x829c, 0x5800000), (0x82a0, 0xd800000),
      (0x82a4, 0x15800000), (0x82a8, 0x0), (0x82ac, 0x0), (0x82b0, 0x0), (0x82b4, 0x6800000), (0x82b8, 0xe800000),
      (0x82bc, 0x16800000), (0x82c0, 0x0), (0x82c4, 0x0), (0x82c8, 0x0), (0x82cc, 0x7800000), (0x82d0, 0xf800000),
      (0x82d4, 0x17800000), (0x82d8, 0x0), (0x82dc, 0x0), (0x82e0, 0x202000), (0x82e4, 0xc00000), (0x82e8, 0x8c00000),
      (0x82ec, 0x10c00000), (0x82f0, 0x202020), (0x82f4, 0x202000), (0x82f8, 0x1c00000), (0x82fc, 0x9c00000), (0x8300, 0x11c00000),
      (0x8304, 0x202020), (0x8308, 0x404000), (0x830c, 0x2c00000), (0x8310, 0xac00000), (0x8314, 0x12c00000), (0x8318, 0x202020),
      (0x831c, 0x404000), (0x8320, 0x3c00000), (0x8324, 0xbc00000), (0x8328, 0x13c00000), (0x832c, 0x202020), (0x8330, 0x606000),
      (0x8334, 0x4c00000), (0x8338, 0xcc00000), (0x833c, 0x14c00000), (0x8340, 0x202020), (0x8344, 0x606000), (0x8348, 0x5c00000),
      (0x834c, 0xdc00000), (0x8350, 0x15c00000), (0x8354, 0x202020), (0x8358, 0x606030), (0x835c, 0x6c00000), (0x8360, 0xec00000),
      (0x8364, 0x16c00000), (0x8368, 0x202020), (0x836c, 0x606030), (0x8370, 0x7c00000), (0x8374, 0xfc00000), (0x8378, 0x17c00000),
      (0x837c, 0x202020), (0x8024, 0xffffff), (0x8000, 0x800800), (0x8024, 0xffffff), (0x8000, 0x800800), (0x802c, 0x8000b32),
      (0x8054, 0x8000b32), (0x807c, 0x8000b32), (0x80a4, 0x8000b32), (0x80cc, 0x8000b32), (0x80f4, 0x8000b32), (0x811c, 0x4a40000),
      (0x8144, 0x0), (0x8008, 0x21c0780), (0x8008, 0x4380780), (0x8010, 0x21c03c0), (0x8004, 0x0), (0x800c, 0x0),
      (0x809c, 0x800), (0x81c8, 0x3000030), (0x8078, 0x4380780), (0x8094, 0x4380780), (0x80a0, 0x21c03c0), (0x80bc, 0x21c03c0),
      (0x81b4, 0x400), (0x81b4, 0x4000400), (0x8024, 0xffffff), (0x8098, 0x28014000), (0x8174, 0x28232000), (0x8194, 0x282bb000),
      (0x8000, 0x800802), (0x8000, 0x800806)]"

definition ar_cvisp_setup :: "isp_reg list" where
  "ar_cvisp_setup = cvisp_setup_run0 @ cvisp_setup_run1"

definition ar_cvisp_late :: "isp_reg list" where
  "ar_cvisp_late =
     [(0x807c, 0x8000b33), (0x80a4, 0x8000b33), (0x4000, 0x780), (0x4004, 0x438), (0x4008, 0x780), (0x400c, 0x438),
      (0x4010, 0x2980), (0x4014, 0x0), (0x4018, 0x32), (0x401c, 0x32), (0x4020, 0x418), (0x4024, 0x3e8),
      (0x4028, 0x32), (0x402c, 0x32), (0x4030, 0x4e20), (0x4200, 0xf040), (0x4204, 0xf040), (0x4208, 0xf040),
      (0x420c, 0xf040), (0x4210, 0xf040), (0x4214, 0xf040), (0x4218, 0xf040), (0x421c, 0xf040), (0x4220, 0x110),
      (0x4224, 0x110), (0x4228, 0x110), (0x422c, 0x110), (0x4230, 0x110), (0x4234, 0x110), (0x4238, 0x110),
      (0x423c, 0x110), (0x4610, 0x100), (0x4614, 0x100), (0x4618, 0x100), (0x461c, 0x100), (0x4620, 0x0),
      (0x4624, 0x0), (0x4628, 0x0), (0x462c, 0x0), (0x4630, 0x0), (0x4634, 0x0), (0x4638, 0x0),
      (0x463c, 0x0), (0x4710, 0x100), (0x4714, 0x100), (0x4718, 0x100), (0x471c, 0x100), (0x4720, 0x0),
      (0x4724, 0x0), (0x4728, 0x0), (0x472c, 0x0), (0x4730, 0x0), (0x4734, 0x0), (0x4738, 0x0),
      (0x473c, 0x0), (0x0000, 0x6003), (0x0004, 0x6004), (0x0008, 0x6005), (0x000c, 0x6006), (0x0010, 0x6007),
      (0x0014, 0x6008), (0x0018, 0x6009), (0x001c, 0x600a), (0x0020, 0x8003), (0x0024, 0x8008), (0x0028, 0x800e),
      (0x002c, 0x800f), (0x0030, 0x8013), (0x0034, 0x801a), (0x0038, 0x801b), (0x003c, 0x801c), (0x0040, 0xa005),
      (0x0044, 0xa00a), (0x0048, 0xa010), (0x004c, 0xa011), (0x0050, 0xa015), (0x0054, 0xa01c), (0x0058, 0xa01d),
      (0x005c, 0xa01e), (0x0060, 0xc006), (0x0064, 0xc00b), (0x0068, 0xc011), (0x006c, 0xc012), (0x0070, 0xc016),
      (0x0074, 0xc01d), (0x0078, 0xc01e), (0x007c, 0xc01f), (0x0080, 0x3ffffff), (0x0084, 0x3ffffff), (0x0088, 0x3ffffff),
      (0x008c, 0x3ffffff), (0x0090, 0x3ffffff), (0x0094, 0x3ffffff), (0x0098, 0x3ffffff), (0x009c, 0x3ffffff), (0x00a0, 0x0),
      (0x00a4, 0x0), (0x00a8, 0x0), (0x00ac, 0x0), (0x4104, 0x780), (0x410c, 0x438)]"

definition ar_cvisp_tick :: "isp_reg list" where
  "ar_cvisp_tick =
     [(0x4600, 0x100), (0x4604, 0x100), (0x4608, 0x100), (0x460c, 0x100), (0x4700, 0x100), (0x4704, 0x100),
      (0x4708, 0x100), (0x470c, 0x100)]"

text \<open>A plane triplet: Y, U and V bases.\<close>

type_synonym cvisp_planes = "u32 \<times> u32 \<times> u32"

definition ar_cvisp_ring :: "cvisp_planes list" where
  "ar_cvisp_ring =
     [(0x2834c000, 0x2856a000, 0x285f3000),
      (0x28684000, 0x288a2000, 0x2892b000),
      (0x289bc000, 0x28bda000, 0x28c63000),
      (0x28cf4000, 0x28f12000, 0x28f9b000),
      (0x28014000, 0x28232000, 0x282bb000)]"

end
