(* ===== verification/Cvisp.thy ===== *)
theory Cvisp
  imports Cvisp_Tables Isp_Driver
begin

text \<open>
  \<open>ar-cvisp.c\<close>: the output stage that writes frames to memory.  Its register configuration, the black
  level block it takes from the tuning file, the idle ring of fixed addresses, and the capture node:
  the queue of buffers, the pipeline of buffers the hardware may still be writing, the frame tick
  that rotates both, stream start and stop, probe and remove.  An operation returns, next to the new
  state, the buffers it hands back to the video-buffer core.
\<close>

section \<open>State\<close>

record cvisp_params =
  cp_fpn :: bool
  cp_blc :: bool
  cp_blc_gain :: u32
  cp_rotate :: bool
  cp_depth :: nat
  cp_chain :: bool
  cp_assert_clk :: bool

definition cvisp_defaults :: cvisp_params where
  "cvisp_defaults = \<lparr>cp_fpn = True, cp_blc = True, cp_blc_gain = 187, cp_rotate = True, cp_depth = 3, cp_chain = True, cp_assert_clk = False\<rparr>"

datatype vb2_buffer_state = VB2_BUF_STATE_QUEUED | VB2_BUF_STATE_DONE | VB2_BUF_STATE_ERROR

record ar_cvisp_buffer =
  cb_index :: nat
  cb_plane :: cvisp_planes
  cb_sequence :: u32

type_synonym handed = "ar_cvisp_buffer \<times> vb2_buffer_state"

record ar_cvisp =
  cv_io :: regs
  cv_configured :: bool
  cv_next :: nat
  cv_frames :: u32
  cv_rotations :: u32
  cv_buffer_list :: "ar_cvisp_buffer list"
  cv_held :: "ar_cvisp_buffer option list"
  cv_streaming :: bool
  cv_chain_up :: bool
  cv_sequence :: u32
  cv_completions :: u32
  cv_drops :: u32
  cv_clk_asserted :: bool

abbreviation AR_CVISP_MAX_DEPTH :: nat where "AR_CVISP_MAX_DEPTH \<equiv> 4"
abbreviation AR_CVISP_PLANE_Y :: nat where "AR_CVISP_PLANE_Y \<equiv> 0x8098"
abbreviation AR_CVISP_PLANE_U :: nat where "AR_CVISP_PLANE_U \<equiv> 0x8174"
abbreviation AR_CVISP_PLANE_V :: nat where "AR_CVISP_PLANE_V \<equiv> 0x8194"
abbreviation AR_CVISP_FPN_CTRL :: nat where "AR_CVISP_FPN_CTRL \<equiv> 0x4400"
abbreviation AR_CVISP_FPN_ENABLE :: u32 where "AR_CVISP_FPN_ENABLE \<equiv> 0x10"

definition on_cv :: "(regs \<Rightarrow> regs) \<Rightarrow> ar_cvisp \<Rightarrow> ar_cvisp" where
  "on_cv f s = s\<lparr>cv_io := f (cv_io s)\<rparr>"

section \<open>The ring and the queue of the frame tick\<close>

definition ar_cvisp_apply :: "isp_reg list \<Rightarrow> regs \<Rightarrow> regs" where
  "ar_cvisp_apply tbl R = fold (\<lambda>(off, v) R. R(off := v)) tbl R"

text \<open>The three plane bases, in the order of the code.\<close>

definition write_planes :: "cvisp_planes \<Rightarrow> regs \<Rightarrow> regs" where
  "write_planes b R = (case b of (y, u, v) \<Rightarrow> R(AR_CVISP_PLANE_Y := y, AR_CVISP_PLANE_U := u, AR_CVISP_PLANE_V := v))"

definition ar_cvisp_arm :: "nat \<Rightarrow> ar_cvisp \<Rightarrow> ar_cvisp" where
  "ar_cvisp_arm slot = on_cv (write_planes (ar_cvisp_ring ! slot))"

definition ar_cvisp_cycle :: "ar_cvisp \<Rightarrow> ar_cvisp" where
  "ar_cvisp_cycle s =
     (let nxt = (cv_next s + 1) mod length ar_cvisp_ring;
          s1 = s\<lparr>cv_next := nxt, cv_frames := cv_frames s + 1\<rparr>
      in if nxt = 0 then on_cv (ar_cvisp_apply ar_cvisp_tick) s1 else s1)"

definition ar_cvisp_queue :: "ar_cvisp \<Rightarrow> ar_cvisp" where
  "ar_cvisp_queue s = ar_cvisp_cycle (ar_cvisp_arm (cv_next s) s)"

definition ar_cvisp_arm_buffer :: "ar_cvisp_buffer \<Rightarrow> ar_cvisp \<Rightarrow> ar_cvisp" where
  "ar_cvisp_arm_buffer buf = on_cv (write_planes (cb_plane buf))"

text \<open>The shift of the pipeline: from the far end, each place takes what was nearer.\<close>

definition shift_held :: "nat \<Rightarrow> ar_cvisp_buffer option list \<Rightarrow> ar_cvisp_buffer option list" where
  "shift_held depth hs = fold (\<lambda>i h. h[i := h ! (i - 1)]) (rev [1..<depth]) hs"

definition ar_cvisp_frame_tick :: "cvisp_params \<Rightarrow> ar_cvisp \<Rightarrow> ar_cvisp \<times> handed list" where
  "ar_cvisp_frame_tick p s =
     (if \<not> cp_rotate p then (s, [])
      else if \<not> cv_streaming s then
        let s1 = ar_cvisp_queue s in (s1\<lparr>cv_rotations := cv_rotations s1 + 1\<rparr>, [])
      else
        case cv_buffer_list s of
          [] \<Rightarrow> (s\<lparr>cv_drops := cv_drops s + 1\<rparr>, [])
        | nxt # rest \<Rightarrow>
            let old = cv_held s ! (cp_depth p - 1);
                s1 = s\<lparr>cv_buffer_list := rest, cv_held := (shift_held (cp_depth p) (cv_held s))[0 := Some nxt]\<rparr>;
                s2 = ar_cvisp_cycle (ar_cvisp_arm_buffer nxt s1);
                s3 = s2\<lparr>cv_rotations := cv_rotations s2 + 1\<rparr>
            in case old of
                 None \<Rightarrow> (s3, [])
               | Some b \<Rightarrow>
                   (s3\<lparr>cv_sequence := cv_sequence s3 + 1, cv_completions := cv_completions s3 + 1\<rparr>,
                    [(b\<lparr>cb_sequence := cv_sequence s3\<rparr>, VB2_BUF_STATE_DONE)]))"

section \<open>Black level and configuration\<close>

abbreviation AR_ISP_BLC_BLOB_LADDER :: nat where "AR_ISP_BLC_BLOB_LADDER \<equiv> 0x34"
abbreviation AR_ISP_BLC_BLOB_TABLE :: nat where "AR_ISP_BLC_BLOB_TABLE \<equiv> 0xb4"
abbreviation AR_ISP_BLC_ENTRIES :: nat where "AR_ISP_BLC_ENTRIES \<equiv> 5"
abbreviation AR_ISP_BLC_BANK :: nat where "AR_ISP_BLC_BANK \<equiv> 0x4200"

definition ar_cvisp_f32_to_u32 :: "u32 \<Rightarrow> u32" where
  "ar_cvisp_f32_to_u32 bits =
     (let mant = ar_isp_f32_mant bits; exp = ar_isp_f32_exp bits
      in if bits AND 0x80000000 \<noteq> 0 \<or> exp < 0 then 0
         else if exp > 30 then 0xffffffff
         else if exp \<ge> 23 then push_bit (nat (exp - 23)) mant
         else drop_bit (nat (23 - exp)) mant)"

definition blc_first :: "mem \<Rightarrow> nat \<Rightarrow> u32" where
  "blc_first blob i = ar_cvisp_f32_to_u32 (ar_isp_get_le32 blob (AR_ISP_BLC_BLOB_LADDER + i * 8))"

definition blc_second :: "mem \<Rightarrow> nat \<Rightarrow> u32" where
  "blc_second blob i = ar_cvisp_f32_to_u32 (ar_isp_get_le32 blob (AR_ISP_BLC_BLOB_LADDER + i * 8 + 4))"

text \<open>The walk: the last pair before the first whose second bound is above the gain.\<close>

fun blc_walk :: "mem \<Rightarrow> u32 \<Rightarrow> nat list \<Rightarrow> nat \<Rightarrow> nat" where
  "blc_walk blob gain [] sel = sel"
| "blc_walk blob gain (i # is) sel = (if gain < blc_second blob i then sel else blc_walk blob gain is i)"

definition blc_blend :: "u32 \<Rightarrow> u32 \<Rightarrow> u32 \<Rightarrow> u32" where
  "blc_blend gain bound_lo bound_hi =
     (if gain \<le> bound_lo \<or> bound_hi \<le> bound_lo then 65536
      else if gain \<ge> bound_hi then 0
      else 65536 - ucast (((ucast (gain - bound_lo) :: u64) * 65536) div ucast (bound_hi - bound_lo)))"

text \<open>\<open>fw\<close> is what the firmware loader returns: the file and its size.\<close>

definition ar_cvisp_blc_apply :: "cvisp_params \<Rightarrow> (mem \<times> nat) option \<Rightarrow> regs \<Rightarrow> regs" where
  "ar_cvisp_blc_apply p fw R =
     (if \<not> cp_blc p then R
      else case fw of
        None \<Rightarrow> R
      | Some (blob, n) \<Rightarrow>
          if n < AR_ISP_BLC_BLOB_TABLE + AR_ISP_BLC_ENTRIES * 0x20 then R
          else
            let sel = blc_walk blob (cp_blc_gain p) [0..<AR_ISP_BLC_ENTRIES - 1] 0;
                bound_lo = blc_second blob sel;
                bound_hi = blc_first blob (sel + 1);
                lo = ar_isp_blc_entry blob (of_nat sel);
                hi = ar_isp_blc_entry blob (of_nat (sel + 1));
                block = ar_isp_blc_fill (\<lambda>_. 0) 0 lo hi (blc_blend (cp_blc_gain p) bound_lo bound_hi)
            in fold (\<lambda>k R. R(AR_ISP_BLC_BANK + 4 * k := ar_isp_get_le32 block (4 * k))) [0..<16] R)"

definition ar_cvisp_configure :: "cvisp_params \<Rightarrow> (mem \<times> nat) option \<Rightarrow> bool \<Rightarrow> ar_cvisp \<Rightarrow> ar_cvisp" where
  "ar_cvisp_configure p fw late s =
     (let s1 = on_cv (ar_cvisp_apply ar_cvisp_setup) s;
          s2 = (if late then on_cv (ar_cvisp_apply ar_cvisp_late) s1 else s1);
          s3 = on_cv (ar_cvisp_blc_apply p fw) s2;
          s4 = (if cp_fpn p then on_cv (\<lambda>R. R(AR_CVISP_FPN_CTRL := R AR_CVISP_FPN_CTRL AND NOT AR_CVISP_FPN_ENABLE)) s3 else s3)
      in s4\<lparr>cv_next := 1 mod length ar_cvisp_ring, cv_frames := 1, cv_configured := True\<rparr>)"

definition ar_cvisp_configure_set :: "cvisp_params \<Rightarrow> (mem \<times> nat) option \<Rightarrow> u64 \<Rightarrow> ar_cvisp \<Rightarrow> errno + ar_cvisp" where
  "ar_cvisp_configure_set p fw val s = (if val \<noteq> 1 \<and> val \<noteq> 2 then Inl EINVAL else Inr (ar_cvisp_configure p fw (val = 1) s))"

definition ar_cvisp_queue_set :: "u64 \<Rightarrow> ar_cvisp \<Rightarrow> errno + ar_cvisp" where
  "ar_cvisp_queue_set val s =
     (if \<not> cv_configured s then Inl EAGAIN
      else if cv_streaming s then Inl EBUSY
      else Inr ((ar_cvisp_queue ^^ unat val) s))"

section \<open>The capture node\<close>

abbreviation AR_CVISP_Y_SIZE :: nat where "AR_CVISP_Y_SIZE \<equiv> 2048 * 1080"
abbreviation AR_CVISP_C_SIZE :: nat where "AR_CVISP_C_SIZE \<equiv> 1024 * (1080 div 2)"
abbreviation AR_CVISP_Y_ALLOC :: nat where "AR_CVISP_Y_ALLOC \<equiv> 2048 * 1088"
abbreviation AR_CVISP_C_ALLOC :: nat where "AR_CVISP_C_ALLOC \<equiv> 1024 * (1088 div 2)"

definition plane_size :: "nat list" where
  "plane_size = [AR_CVISP_Y_ALLOC, AR_CVISP_C_ALLOC, AR_CVISP_C_ALLOC]"

definition plane_written :: "nat list" where
  "plane_written = [AR_CVISP_Y_SIZE, AR_CVISP_C_SIZE, AR_CVISP_C_SIZE]"

text \<open>Width, height, and stride and buffer size of each plane.\<close>

definition ar_cvisp_fill_format :: "nat \<times> nat \<times> (nat \<times> nat) list" where
  "ar_cvisp_fill_format = (1920, 1080, [(2048, AR_CVISP_Y_ALLOC), (1024, AR_CVISP_C_ALLOC), (1024, AR_CVISP_C_ALLOC)])"

text \<open>A plane count of zero asks for the layout; any other is a layout to check.\<close>

definition ar_cvisp_queue_setup :: "nat \<Rightarrow> nat list \<Rightarrow> errno + nat \<times> nat list" where
  "ar_cvisp_queue_setup num_planes sizes =
     (if num_planes \<noteq> 0 then
        if num_planes \<noteq> 3 then Inl EINVAL
        else if list_ex (\<lambda>i. sizes ! i < plane_size ! i) [0..<3] then Inl EINVAL
        else Inr (num_planes, sizes)
      else Inr (3, plane_size))"

definition upper_32_bits :: "u64 \<Rightarrow> u32" where
  "upper_32_bits n = ucast (drop_bit 32 n)"

text \<open>\<open>sizes\<close> and \<open>addrs\<close> are the buffer's planes; \<open>(payload, plane)\<close> is what the buffer carries and the driver fills
  in plane by plane, as far as the loop gets.\<close>

fun prepare_loop :: "nat list \<Rightarrow> u64 list \<Rightarrow> nat list \<Rightarrow> nat list \<times> u32 list \<Rightarrow> errno option \<times> nat list \<times> u32 list" where
  "prepare_loop sizes addrs [] pp = (None, pp)"
| "prepare_loop sizes addrs (i # is) pp =
     (if sizes ! i < plane_size ! i then (Some EINVAL, pp)
      else
        let payload = (fst pp)[i := plane_written ! i]
        in if upper_32_bits (addrs ! i) \<noteq> 0 then (Some EINVAL, payload, snd pp)
           else prepare_loop sizes addrs is (payload, (snd pp)[i := lower_32_bits (addrs ! i)]))"

definition ar_cvisp_buffer_prepare :: "nat list \<Rightarrow> u64 list \<Rightarrow> nat list \<times> u32 list \<Rightarrow> errno option \<times> nat list \<times> u32 list" where
  "ar_cvisp_buffer_prepare sizes addrs pp = prepare_loop sizes addrs [0..<3] pp"

definition ar_cvisp_buffer_queue :: "ar_cvisp_buffer \<Rightarrow> ar_cvisp \<Rightarrow> ar_cvisp" where
  "ar_cvisp_buffer_queue buf s = s\<lparr>cv_buffer_list := cv_buffer_list s @ [buf]\<rparr>"

definition somes :: "'a option list \<Rightarrow> 'a list" where
  "somes xs = concat (map (\<lambda>x. case x of None \<Rightarrow> [] | Some y \<Rightarrow> [y]) xs)"

definition ar_cvisp_return_buffers :: "vb2_buffer_state \<Rightarrow> ar_cvisp \<Rightarrow> ar_cvisp \<times> handed list" where
  "ar_cvisp_return_buffers st s =
     (let pending = somes (cv_held s) @ cv_buffer_list s
      in (s\<lparr>cv_held := replicate AR_CVISP_MAX_DEPTH None, cv_buffer_list := []\<rparr>, map (\<lambda>b. (b, st)) pending))"

text \<open>The chain ahead of the block: the input path and the ISP act on the rest of the machine \<open>w\<close>; each answers an error or
  none.\<close>

type_synonym 'w starter = "'w \<Rightarrow> errno option \<times> 'w"

definition ar_cvisp_chain_start :: "'w starter \<Rightarrow> 'w starter \<Rightarrow> ar_cvisp \<times> 'w \<Rightarrow> errno option \<times> ar_cvisp \<times> 'w" where
  "ar_cvisp_chain_start vif isp x =
     (case x of (s, w) \<Rightarrow>
      if cv_chain_up s then (None, s, w)
      else case vif w of (r, w1) \<Rightarrow>
        if r \<noteq> None \<and> r \<noteq> Some EBUSY then (r, s, w1)
        else case isp w1 of (r2, w2) \<Rightarrow>
          if r2 \<noteq> None then (r2, s, w2) else (None, s\<lparr>cv_chain_up := True\<rparr>, w2))"

text \<open>The ISP as this library models it: its instance and the module parameters.\<close>

definition isp_starter :: "vendor_mem \<Rightarrow> bool \<Rightarrow> (ar_isp option \<times> isp_params) starter" where
  "isp_starter vendor irq_ok w =
     (case w of (inst, p) \<Rightarrow>
      case ar_isp_pipeline_start p vendor irq_ok inst of
        Inl e \<Rightarrow> (Some e, inst, p)
      | Inr (s, p') \<Rightarrow> (None, Some s, p'))"

definition ar_cvisp_start_streaming ::
  "cvisp_params \<Rightarrow> (mem \<times> nat) option \<Rightarrow> 'w starter \<Rightarrow> 'w starter \<Rightarrow> ar_cvisp \<times> 'w \<Rightarrow> errno option \<times> (ar_cvisp \<times> 'w) \<times> handed list" where
  "ar_cvisp_start_streaming p fw vif isp x =
     (case x of (s, w) \<Rightarrow>
      if \<not> cp_rotate p then
        (case ar_cvisp_return_buffers VB2_BUF_STATE_QUEUED s of (s', dones) \<Rightarrow> (Some EINVAL, (s', w), dones))
      else case (if cp_chain p then ar_cvisp_chain_start vif isp (s, w) else (None, s, w)) of
        (Some e, s1, w1) \<Rightarrow>
          (case ar_cvisp_return_buffers VB2_BUF_STATE_QUEUED s1 of (s', dones) \<Rightarrow> (Some e, (s', w1), dones))
      | (None, s1, w1) \<Rightarrow>
          let s2 = (if \<not> cv_configured s1 then ar_cvisp_configure p fw True s1 else s1)
          in case cv_buffer_list s2 of
               [] \<Rightarrow> (case ar_cvisp_return_buffers VB2_BUF_STATE_QUEUED s2 of (s', dones) \<Rightarrow> (Some EINVAL, (s', w1), dones))
             | fst_buf # rest \<Rightarrow>
                 let s3 = s2\<lparr>cv_buffer_list := rest, cv_held := (replicate AR_CVISP_MAX_DEPTH None)[0 := Some fst_buf], cv_sequence := 0\<rparr>
                 in (None, ((ar_cvisp_arm_buffer fst_buf s3)\<lparr>cv_streaming := True\<rparr>, w1), []))"

definition ar_cvisp_stop_streaming :: "ar_cvisp \<Rightarrow> ar_cvisp \<times> handed list" where
  "ar_cvisp_stop_streaming s =
     (let s1 = ar_cvisp_arm 0 (s\<lparr>cv_streaming := False\<rparr>)
      in ar_cvisp_return_buffers VB2_BUF_STATE_ERROR (s1\<lparr>cv_next := 1 mod length ar_cvisp_ring\<rparr>))"

definition ar_cvisp_enum_fmt :: "nat \<Rightarrow> errno + string" where
  "ar_cvisp_enum_fmt index = (if index \<noteq> 0 then Inl EINVAL else Inr ''YM12'')"

definition ar_cvisp_enum_framesizes :: "nat \<Rightarrow> string \<Rightarrow> errno + nat \<times> nat" where
  "ar_cvisp_enum_framesizes index fmt = (if index \<noteq> 0 \<or> fmt \<noteq> ''YM12'' then Inl EINVAL else Inr (1920, 1080))"

section \<open>Probe and remove\<close>

text \<open>What probe and remove ask of the kernel, in order.\<close>

datatype cvisp_event =
    Rmem_init | Rmem_release | Clk_enable | Clk_disable | Debugfs_create | Debugfs_remove
  | V4l2_register | V4l2_unregister | Queue_init | Queue_release | Video_register | Video_unregister
  | Hook_set | Hook_clear

text \<open>\<open>ce_io\<close>: the block's registers as they are found; probe reads and writes none.\<close>

record cvisp_env =
  ce_io :: regs
  ce_mask :: "errno option"
  ce_rmem :: "errno option"
  ce_action :: "errno option"
  ce_alloc :: bool
  ce_ioremap :: "errno option"
  ce_clk :: "errno + bool"
  ce_clk_enable :: "errno option"
  ce_v4l2 :: "errno option"
  ce_queue :: "errno option"
  ce_video :: "errno option"

text \<open>How many buffers the core waits for before it starts a stream.\<close>

definition ar_cvisp_min_queued :: "cvisp_params \<Rightarrow> nat" where
  "ar_cvisp_min_queued p = cp_depth p + 1"

definition ar_cvisp_register_node :: "cvisp_params \<Rightarrow> cvisp_env \<Rightarrow> cvisp_event list \<Rightarrow> errno option \<times> cvisp_event list" where
  "ar_cvisp_register_node p env tr =
     (case ce_v4l2 env of
        Some e \<Rightarrow> (Some e, tr)
      | None \<Rightarrow>
          let tr1 = tr @ [V4l2_register]
          in case ce_queue env of
               Some e \<Rightarrow> (Some e, tr1 @ [V4l2_unregister])
             | None \<Rightarrow>
                 let tr2 = tr1 @ [Queue_init]
                 in case ce_video env of
                      Some e \<Rightarrow> (Some e, tr2 @ [Queue_release, V4l2_unregister])
                    | None \<Rightarrow> (None, tr2 @ [Video_register]))"

definition cvisp_zeroed :: ar_cvisp where
  "cvisp_zeroed = \<lparr>cv_io = (\<lambda>_. 0), cv_configured = False, cv_next = 0, cv_frames = 0, cv_rotations = 0, cv_buffer_list = [],
     cv_held = replicate AR_CVISP_MAX_DEPTH None, cv_streaming = False, cv_chain_up = False, cv_sequence = 0, cv_completions = 0, cv_drops = 0,
     cv_clk_asserted = False\<rparr>"

text \<open>After the reservation's release is registered with the device, every failure runs it.\<close>

definition ar_cvisp_probe :: "cvisp_params \<Rightarrow> cvisp_env \<Rightarrow> (errno + ar_cvisp) \<times> cvisp_event list" where
  "ar_cvisp_probe p env =
     (case ce_mask env of
        Some e \<Rightarrow> (Inl e, [])
      | None \<Rightarrow>
          let tr = (if ce_rmem env = None then [Rmem_init] else []);
              unwind = (\<lambda>e t. (Inl e, t @ [Rmem_release]))
          in case ce_action env of
               Some e \<Rightarrow> unwind e tr
             | None \<Rightarrow>
                 if \<not> ce_alloc env then unwind ENOMEM tr
                 else if cp_depth p < 1 \<or> cp_depth p > AR_CVISP_MAX_DEPTH then unwind EINVAL tr
                 else case ce_ioremap env of
                   Some e \<Rightarrow> unwind e tr
                 | None \<Rightarrow>
                     case ce_clk env of
                       Inl e \<Rightarrow> unwind e tr
                     | Inr present \<Rightarrow>
                         if cp_assert_clk p \<and> present \<and> ce_clk_enable env \<noteq> None then unwind (the (ce_clk_enable env)) tr
                         else
                           let asserted = (cp_assert_clk p \<and> present);
                               tr1 = (if asserted then tr @ [Clk_enable] else tr) @ [Debugfs_create]
                           in case ar_cvisp_register_node p env tr1 of
                                (Some e, tr2) \<Rightarrow> unwind e (tr2 @ [Debugfs_remove] @ (if asserted then [Clk_disable] else []))
                              | (None, tr2) \<Rightarrow> (Inr (cvisp_zeroed\<lparr>cv_io := ce_io env, cv_clk_asserted := asserted\<rparr>), tr2 @ [Hook_set]))"

text \<open>Unregistering the video device stops a stream in progress and releases the queue.\<close>

definition ar_cvisp_remove :: "ar_cvisp \<Rightarrow> (ar_cvisp \<times> handed list) \<times> cvisp_event list" where
  "ar_cvisp_remove s =
     (let r = (if cv_streaming s then ar_cvisp_stop_streaming s else (s, []))
      in (r, [Hook_clear, Video_unregister, V4l2_unregister, Debugfs_remove] @ (if cv_clk_asserted s then [Clk_disable] else []) @ [Rmem_release]))"

end
