(* ===== verification/Cvisp_Streams.thy ===== *)
theory Cvisp_Streams
  imports Cvisp_Life Isp_Reach "HOL-Library.Multiset"
begin

text \<open>
  The life of the capture node of \<open>ar-cvisp.c\<close>: stream start and stop on every path, who owns which
  buffer over any interleaving of the consumer's calls, frame ticks and debugfs writes, the black level band
  the gain selects, and the balance of probe and remove.
\<close>

section \<open>Start and stop\<close>

text \<open>The buffers the driver has: those the hardware may be writing and those queued.\<close>

definition with_driver :: "ar_cvisp \<Rightarrow> ar_cvisp_buffer list" where
  "with_driver s = somes (cv_held s) @ cv_buffer_list s"

abbreviation nothing_held :: "ar_cvisp \<Rightarrow> bool" where
  "nothing_held s \<equiv> cv_held s = replicate AR_CVISP_MAX_DEPTH None"

lemma return_buffers:
  assumes "ar_cvisp_return_buffers st s = (s', dones)"
  shows "dones = map (\<lambda>b. (b, st)) (with_driver s)" "nothing_held s'" "cv_buffer_list s' = []" "with_driver s' = []" "cvisp_target s' = cvisp_target s"
    "cv_streaming s' = cv_streaming s" "cv_configured s' = cv_configured s" "cv_chain_up s' = cv_chain_up s" "cv_next s' = cv_next s"
  using assms by (auto simp: ar_cvisp_return_buffers_def with_driver_def cvisp_target_def)

lemma configure_with_driver [simp]: "with_driver (ar_cvisp_configure p fw late s) = with_driver s"
  by (simp add: with_driver_def)

lemma configure_next: "cv_next (ar_cvisp_configure p fw late s) = 1"
  by (simp add: ar_cvisp_configure_def Let_def)

lemma chain_start_keeps:
  assumes "ar_cvisp_chain_start vif isp (s, w) = (r, s', w')"
  shows "s' = (if r = None then s\<lparr>cv_chain_up := True\<rparr> else s)" "cv_chain_up s \<Longrightarrow> r = None \<and> w' = w"
    "r = None \<Longrightarrow> \<not> cv_chain_up s \<Longrightarrow> \<exists>w1. isp w1 = (None, w')"
proof -
  have k: "s\<lparr>cv_chain_up := True\<rparr> = s" if "cv_chain_up s" using that by simp
  show "s' = (if r = None then s\<lparr>cv_chain_up := True\<rparr> else s)"
    using assms k by (auto simp: ar_cvisp_chain_start_def split: prod.splits if_splits)
  show "cv_chain_up s \<Longrightarrow> r = None \<and> w' = w" using assms by (auto simp: ar_cvisp_chain_start_def)
  show "r = None \<Longrightarrow> \<not> cv_chain_up s \<Longrightarrow> \<exists>w1. isp w1 = (None, w')"
    using assms by (auto simp: ar_cvisp_chain_start_def split: prod.splits if_splits)
qed

text \<open>What a start is made of: the chain, the configuration, and the first buffer.\<close>

lemma start_form:
  assumes "ar_cvisp_start_streaming p fw vif isp (s, w) = (r, (s', w'), dones)"
  obtains (rotate) "\<not> cp_rotate p" "r = Some EINVAL" "ar_cvisp_return_buffers VB2_BUF_STATE_QUEUED s = (s', dones)" "w' = w"
  | (chain) e where "cp_rotate p" "cp_chain p" "ar_cvisp_chain_start vif isp (s, w) = (Some e, s, w')" "r = Some e"
      "ar_cvisp_return_buffers VB2_BUF_STATE_QUEUED s = (s', dones)"
  | (up) s1 s2 where "cp_rotate p" "(if cp_chain p then ar_cvisp_chain_start vif isp (s, w) else (None, s, w)) = (None, s1, w')"
      "s1 = (if cp_chain p then s\<lparr>cv_chain_up := True\<rparr> else s)" "s2 = (if cv_configured s then s1 else ar_cvisp_configure p fw True s1)"
      "cv_buffer_list s = [] \<and> r = Some EINVAL \<and> ar_cvisp_return_buffers VB2_BUF_STATE_QUEUED s2 = (s', dones) \<or>
       (\<exists>b bs. cv_buffer_list s = b # bs \<and> r = None \<and> dones = [] \<and>
          s' = (ar_cvisp_arm_buffer b (s2\<lparr>cv_buffer_list := bs, cv_held := [Some b, None, None, None], cv_sequence := 0\<rparr>))\<lparr>cv_streaming := True\<rparr>)"
proof (cases "cp_rotate p")
  case False
  then show ?thesis using assms rotate by (auto simp: ar_cvisp_start_streaming_def split: prod.splits)
next
  case True
  obtain c s1 w1 where c: "(if cp_chain p then ar_cvisp_chain_start vif isp (s, w) else (None, s, w)) = (c, s1, w1)" by (metis prod_cases3)
  show ?thesis
  proof (cases c)
    case (Some e)
    then have ch: "cp_chain p" "ar_cvisp_chain_start vif isp (s, w) = (Some e, s1, w1)" using c by (simp_all split: if_splits)
    then have "s1 = s" using chain_start_keeps(1) by fastforce
    moreover have "r = Some e" "w' = w1" "ar_cvisp_return_buffers VB2_BUF_STATE_QUEUED s1 = (s', dones)"
      using assms True c Some by (auto simp: ar_cvisp_start_streaming_def split: prod.splits)
    ultimately show ?thesis using chain [OF True ch(1)] ch(2) by simp
  next
    case None
    define s2 where "s2 = (if cv_configured s then s1 else ar_cvisp_configure p fw True s1)"
    have s1: "s1 = (if cp_chain p then s\<lparr>cv_chain_up := True\<rparr> else s)" using c None chain_start_keeps(1) [of vif isp s w] by (auto split: if_splits)
    have k: "cv_configured s1 = cv_configured s" "cv_buffer_list s2 = cv_buffer_list s" by (simp_all add: s1 s2_def)
    have form: "(r, (s', w'), dones) = (case cv_buffer_list s2 of
               [] \<Rightarrow> (case ar_cvisp_return_buffers VB2_BUF_STATE_QUEUED s2 of (s', dones) \<Rightarrow> (Some EINVAL, (s', w1), dones))
             | b # rest \<Rightarrow>
                 (None, ((ar_cvisp_arm_buffer b (s2\<lparr>cv_buffer_list := rest, cv_held := (replicate AR_CVISP_MAX_DEPTH None)[0 := Some b], cv_sequence := 0\<rparr>))\<lparr>cv_streaming := True\<rparr>, w1), []))"
    proof -
      have e: "(if \<not> cv_configured s1 then ar_cvisp_configure p fw True s1 else s1) = s2" by (simp add: s2_def k(1))
      show ?thesis using assms [symmetric] True unfolding ar_cvisp_start_streaming_def prod.case c None option.case e Let_def by simp
    qed
    have h: "(replicate AR_CVISP_MAX_DEPTH None)[0 := Some b] = [Some b, None, None, None]" for b :: ar_cvisp_buffer by (simp add: numeral_eq_Suc)
    show ?thesis
    proof (cases "cv_buffer_list s")
      case Nil
      obtain t d where t: "ar_cvisp_return_buffers VB2_BUF_STATE_QUEUED s2 = (t, d)" by fastforce
      have "r = Some EINVAL" "s' = t" "w' = w1" "dones = d" using form unfolding k(2) Nil list.case t prod.case by simp_all
      then show ?thesis using up [OF True _ s1 s2_def] c None Nil t by blast
    next
      case (Cons b bs)
      have "r = None" "s' = (ar_cvisp_arm_buffer b (s2\<lparr>cv_buffer_list := bs, cv_held := [Some b, None, None, None], cv_sequence := 0\<rparr>))\<lparr>cv_streaming := True\<rparr>"
        "w' = w1" "dones = []" using form unfolding k(2) Cons list.case h by simp_all
      then show ?thesis using up [OF True _ s1 s2_def] c None Cons by blast
    qed
  qed
qed

lemma holds_first: "pipe_holds depth [b] (s\<lparr>cv_held := [Some b, None, None, None]\<rparr>)" if "1 \<le> depth"
  using that by (simp add: pipe_holds_def numeral_eq_Suc)

lemma start_ok:
  assumes "1 \<le> cp_depth p" "s' = (ar_cvisp_arm_buffer b (s2\<lparr>cv_buffer_list := bs, cv_held := [Some b, None, None, None], cv_sequence := 0\<rparr>))\<lparr>cv_streaming := True\<rparr>"
  shows "node_running p s'" "fifo s' = b # bs" "cvisp_target s' = cb_plane b" "cv_sequence s' = 0" "cv_configured s' = cv_configured s2"
    "cv_chain_up s' = cv_chain_up s2" "with_driver s' = b # bs" "cv_streaming s'" "somes (cv_held s') = [b]" "pipe_holds (cp_depth p) [b] s'"
proof -
  have k: "cv_held s' = [Some b, None, None, None]" "cv_buffer_list s' = bs" "cv_streaming s'"
    by (simp_all add: assms(2) ar_cvisp_arm_buffer_def)
  have t: "cvisp_target s' = cb_plane b"
    unfolding assms(2) ar_cvisp_arm_buffer_def
    using write_planes_target [of "cb_plane b" "s2\<lparr>cv_buffer_list := bs, cv_held := [Some b, None, None, None], cv_sequence := 0\<rparr>"]
    by (simp add: cvisp_target_def)
  have h: "pipe_holds (cp_depth p) [b] s'" using assms(1) by (simp add: pipe_holds_def k numeral_eq_Suc)
  show "pipe_holds (cp_depth p) [b] s'" by (rule h)
  show "node_running p s'" unfolding node_running_def using k h t by (intro conjI exI [where x = "[b]"]) simp_all
  show "fifo s' = b # bs" "with_driver s' = b # bs" "somes (cv_held s') = [b]" by (simp_all add: fifo_def with_driver_def k)
  show "cvisp_target s' = cb_plane b" "cv_streaming s'" by (simp_all add: t k)
  show "cv_sequence s' = 0" "cv_configured s' = cv_configured s2" "cv_chain_up s' = cv_chain_up s2"
    by (simp_all add: assms(2) ar_cvisp_arm_buffer_def)
qed

text \<open>C14: Stream start accounts for every buffer on every path.  It succeeds exactly when rotation is on, a buffer
  is queued and the chain (where asked for) came up; then no buffer is handed give_back, the block is configured and
  writes the first of the queue, the rest stays queued, and sequence numbers start at zero.  On any
  failure every queued buffer is handed give_back as still queued, in order, and none is held.  A chain that is already up is
  left alone, and stays up.\<close>

theorem stream_start_accounts:
  assumes "\<not> cv_streaming s" "nothing_held s" "depth_ok p" "ar_cvisp_start_streaming p fw vif isp (s, w) = (r, (s', w'), dones)"
  shows "(r = None \<longleftrightarrow> cp_rotate p \<and> cv_buffer_list s \<noteq> [] \<and> (cp_chain p \<longrightarrow> fst (ar_cvisp_chain_start vif isp (s, w)) = None)) \<and>
    (case r of
       None \<Rightarrow> dones = [] \<and> node_running p s' \<and> fifo s' = cv_buffer_list s \<and> cvisp_target s' = cb_plane (hd (cv_buffer_list s)) \<and>
         cv_configured s' \<and> cv_sequence s' = 0 \<and> (cp_chain p \<longrightarrow> cv_chain_up s')
     | Some e \<Rightarrow> dones = map (\<lambda>b. (b, VB2_BUF_STATE_QUEUED)) (cv_buffer_list s) \<and> with_driver s' = [] \<and> nothing_held s' \<and> \<not> cv_streaming s') \<and>
    (cv_chain_up s \<longrightarrow> w' = w \<and> cv_chain_up s')"
  using assms(4)
proof (cases rule: start_form)
  case rotate
  then show ?thesis using return_buffers [OF rotate(3)] assms(1,2) by (simp add: with_driver_def)
next
  case (chain e)
  then show ?thesis using return_buffers [OF chain(5)] assms(1,2) chain_start_keeps(2) [OF chain(3)] by (auto simp: with_driver_def)
next
  case (up s1 s2)
  have k: "cv_held s2 = cv_held s" "cv_buffer_list s2 = cv_buffer_list s" "cv_streaming s2 = cv_streaming s" "cv_configured s2"
    "cv_chain_up s2 = (cp_chain p \<or> cv_chain_up s)" by (simp_all add: up(3,4))
  have c: "cp_chain p \<longrightarrow> fst (ar_cvisp_chain_start vif isp (s, w)) = None" using up(2) by (auto split: if_splits)
  have w: "cv_chain_up s \<longrightarrow> w' = w" using up(2) chain_start_keeps(2) [of vif isp s w None s1 w'] by (auto split: if_splits)
  show ?thesis
    using up(5)
  proof (elim disjE exE conjE)
    assume "cv_buffer_list s = []" "r = Some EINVAL" and ret: "ar_cvisp_return_buffers VB2_BUF_STATE_QUEUED s2 = (s', dones)"
    then show ?thesis using return_buffers [OF ret] k w assms(1,2) by (auto simp: with_driver_def)
  next
    fix b bs assume l: "cv_buffer_list s = b # bs" "r = None" "dones = []"
      and s': "s' = (ar_cvisp_arm_buffer b (s2\<lparr>cv_buffer_list := bs, cv_held := [Some b, None, None, None], cv_sequence := 0\<rparr>))\<lparr>cv_streaming := True\<rparr>"
    have d: "1 \<le> cp_depth p" using assms(3) by (simp add: depth_ok_def)
    show ?thesis using start_ok [OF d s'] l up(1) c w k by simp
  qed
qed

theorem stream_start_accounts_witness:
  "fifo (fst (fst (snd (ar_cvisp_start_streaming cvisp_defaults None (\<lambda>w. (Some EBUSY, w)) (\<lambda>w. (None, w + 1))
     (cvisp_zeroed\<lparr>cv_buffer_list := [example_buffer 0, example_buffer 1]\<rparr>, 0 :: nat))))) = [example_buffer 0, example_buffer 1]"
proof -
  let ?s = "cvisp_zeroed\<lparr>cv_buffer_list := [example_buffer 0, example_buffer 1]\<rparr>"
  have a: "\<not> cv_streaming ?s" "nothing_held ?s" "depth_ok cvisp_defaults" by (simp_all add: cvisp_zeroed_def depth_ok_def cvisp_defaults_def)
  obtain r s' w' dones where t: "ar_cvisp_start_streaming cvisp_defaults None (\<lambda>w. (Some EBUSY, w)) (\<lambda>w. (None, w + 1)) (?s, 0 :: nat) = (r, (s', w'), dones)"
    by (metis prod_cases3 prod.exhaust)
  note m = stream_start_accounts [OF a t]
  have r: "r = None" using m by (simp add: cvisp_defaults_def ar_cvisp_chain_start_def cvisp_zeroed_def)
  show ?thesis using m [unfolded r option.case] unfolding t by simp
qed

lemma stop_form:
  assumes "ar_cvisp_stop_streaming s = (s', dones)"
  shows "dones = map (\<lambda>b. (b, VB2_BUF_STATE_ERROR)) (with_driver s)" "with_driver s' = []" "nothing_held s'" "\<not> cv_streaming s'"
    "cvisp_target s' = ar_cvisp_ring ! 0" "cv_next s' = 1" "cv_configured s' = cv_configured s"
proof -
  define s1 where "s1 = (ar_cvisp_arm 0 (s\<lparr>cv_streaming := False\<rparr>))\<lparr>cv_next := 1 mod length ar_cvisp_ring\<rparr>"
  have r: "ar_cvisp_return_buffers VB2_BUF_STATE_ERROR s1 = (s', dones)" using assms by (simp add: ar_cvisp_stop_streaming_def s1_def Let_def)
  have t: "cvisp_target s1 = cvisp_target (ar_cvisp_arm 0 (s\<lparr>cv_streaming := False\<rparr>))" unfolding s1_def by (rule target_cong) simp
  have k: "with_driver s1 = with_driver s" "\<not> cv_streaming s1" "cv_next s1 = 1" "cv_configured s1 = cv_configured s" "cvisp_target s1 = ar_cvisp_ring ! 0"
    unfolding t by (simp_all add: s1_def with_driver_def ar_cvisp_arm_def)
  show "dones = map (\<lambda>b. (b, VB2_BUF_STATE_ERROR)) (with_driver s)" "with_driver s' = []" "nothing_held s'" "\<not> cv_streaming s'"
    "cvisp_target s' = ar_cvisp_ring ! 0" "cv_next s' = 1" "cv_configured s' = cv_configured s"
    using return_buffers [OF r] k by simp_all
qed

section \<open>Opening the node is the whole bring-up\<close>

lemma isp_starter_ok:
  assumes "isp_starter v k (inst, q) = (None, w')" "p_tables q"
  shows "\<exists>t q'. w' = (Some t, q') \<and> names_own q' t \<and> \<not> stats_valid t"
proof -
  obtain s where s: "inst = Some s" using assms(1) by (cases inst) (simp_all add: isp_starter_def ar_isp_pipeline_start_def)
  let ?c = "ar_isp_configure_prefix q v (p_setup_entries q) s"
  obtain t q' where a: "ar_isp_arm_output q k ?c = (t, q')" by fastforce
  then have f: "t = fst (ar_isp_arm_output q k ?c)" "q' = snd (ar_isp_arm_output q k ?c)" by simp_all
  have "w' = (Some t, q')" using assms(1) by (simp add: isp_starter_def ar_isp_pipeline_start_def s a)
  moreover have "names_own q' t" unfolding f arm_names_params by (rule arm_names [OF prefix_names [OF assms(2)]])
  moreover have "\<not> stats_valid t" unfolding f by (simp add: arm_form arm_publishes_def)
  ultimately show ?thesis by blast
qed



section \<open>Who owns which buffer\<close>

text \<open>
  What can happen between probe and remove, in any order: the consumer queues a buffer it owns, a frame
  ends, the stream is started (with whatever the chain answers) or stopped, and the two debugfs files are
  written.  Module parameters may change between events, the depth excepted.  \<open>own\<close> is the set of buffers the
  driver does not have.
\<close>

definition handed_back :: "handed list \<Rightarrow> nat set" where
  "handed_back dones = set (map (cb_index \<circ> fst) dones)"

inductive node_step :: "nat \<Rightarrow> nat set \<times> ar_cvisp \<times> 'w \<Rightarrow> nat set \<times> ar_cvisp \<times> 'w \<Rightarrow> bool" for d where
  step_qbuf: "cb_index b \<in> own \<Longrightarrow> node_step d (own, s, w) (own - {cb_index b}, ar_cvisp_buffer_queue b s, w)"
| step_tick: "cp_depth p = d \<Longrightarrow> ar_cvisp_frame_tick p s = (s', dones) \<Longrightarrow> node_step d (own, s, w) (own \<union> handed_back dones, s', w)"
| step_streamon: "cp_depth p = d \<Longrightarrow> \<not> cv_streaming s \<Longrightarrow> ar_cvisp_start_streaming p fw vif isp (s, w) = (r, (s', w'), dones) \<Longrightarrow>
    node_step d (own, s, w) (own \<union> handed_back dones, s', w')"
| step_streamoff: "cv_streaming s \<Longrightarrow> ar_cvisp_stop_streaming s = (s', dones) \<Longrightarrow> node_step d (own, s, w) (own \<union> handed_back dones, s', w)"
| step_configure: "cp_depth p = d \<Longrightarrow> ar_cvisp_configure_set p fw val s = Inr s' \<Longrightarrow> node_step d (own, s, w) (own, s', w)"
| step_queue: "ar_cvisp_queue_set val s = Inr s' \<Longrightarrow> node_step d (own, s, w) (own, s', w)"

inductive node_steps :: "nat \<Rightarrow> nat set \<times> ar_cvisp \<times> 'w \<Rightarrow> nat set \<times> ar_cvisp \<times> 'w \<Rightarrow> bool" for d where
  node_refl: "node_steps d x x"
| node_trans: "node_steps d x y \<Longrightarrow> node_step d y z \<Longrightarrow> node_steps d x z"

text \<open>Every buffer has one owner, and the block is pointed at a held buffer, at a slot of the ring, or where
  probe found it.\<close>

definition partitioned :: "nat set \<Rightarrow> nat set \<Rightarrow> ar_cvisp_buffer list \<Rightarrow> bool" where
  "partitioned K own bs \<longleftrightarrow> distinct (map cb_index bs) \<and> own \<inter> cb_index ` set bs = {} \<and> own \<union> cb_index ` set bs = K"

definition node_inv :: "nat \<Rightarrow> nat set \<Rightarrow> cvisp_planes \<Rightarrow> nat set \<times> ar_cvisp \<times> 'w \<Rightarrow> bool" where
  "node_inv d K t0 x = (case x of (own, s, w) \<Rightarrow>
     partitioned K own (with_driver s) \<and> (if cv_streaming s then \<exists>ys. ys \<noteq> [] \<and> pipe_holds d ys s else nothing_held s) \<and>
     cvisp_target s \<in> insert t0 (set ar_cvisp_ring \<union> cb_plane ` set (somes (cv_held s))) \<and> cv_next s < 5)"

lemma partition_moves:
  "partitioned K own bs \<Longrightarrow> cb_index b \<in> own \<Longrightarrow> partitioned K (own - {cb_index b}) (bs @ [b])"
  "partitioned K own bs \<Longrightarrow> mset bs = mset (ds @ bs') \<Longrightarrow> partitioned K (own \<union> cb_index ` set ds) bs'"
proof -
  show "partitioned K own bs \<Longrightarrow> cb_index b \<in> own \<Longrightarrow> partitioned K (own - {cb_index b}) (bs @ [b])"
    by (auto simp: partitioned_def)
next
  assume p: "partitioned K own bs" and m: "mset bs = mset (ds @ bs')"
  have "set bs = set ds \<union> set bs'" using arg_cong [OF m, of set_mset] by simp
  moreover have "mset (map cb_index bs) = mset (map cb_index (ds @ bs'))" using m by (metis mset_map)
  then have "distinct (map cb_index (ds @ bs'))" using p mset_eq_imp_distinct_iff unfolding partitioned_def by blast
  ultimately show "partitioned K (own \<union> cb_index ` set ds) bs'"
    using p unfolding partitioned_def by (auto simp: image_Un)
qed

lemma fifo_mset: "mset (fifo s) = mset (with_driver s)"
  by (simp add: fifo_def with_driver_def)

lemma handed_back_map: "handed_back (map (\<lambda>b. (b, st)) bs) = cb_index ` set bs"
  by (auto simp: handed_back_def)

lemma ring_in [simp]: "i < 5 \<Longrightarrow> ar_cvisp_ring ! i \<in> set ar_cvisp_ring"
  by (rule nth_mem) simp

lemma partition_same: "partitioned K own bs \<Longrightarrow> map cb_index bs' = map cb_index bs \<Longrightarrow> partitioned K own bs'"
  unfolding partitioned_def by (metis list.set_map)

lemma queue_keeps:
  assumes "cv_next s < 5"
  shows "cvisp_target (ar_cvisp_queue s) \<in> set ar_cvisp_ring" "cv_next (ar_cvisp_queue s) < 5" "cv_held (ar_cvisp_queue s) = cv_held s"
    "cv_buffer_list (ar_cvisp_queue s) = cv_buffer_list s" "cv_streaming (ar_cvisp_queue s) = cv_streaming s"
  using assms by (simp_all add: ar_cvisp_queue_def ar_cvisp_arm_def)

lemma queues_keep:
  assumes "cv_next s < 5"
  defines "t \<equiv> (\<lambda>n. (ar_cvisp_queue ^^ n) s)"
  shows "cvisp_target (t n) \<in> insert (cvisp_target s) (set ar_cvisp_ring) \<and> cv_next (t n) < 5 \<and> cv_held (t n) = cv_held s \<and>
    cv_buffer_list (t n) = cv_buffer_list s \<and> cv_streaming (t n) = cv_streaming s"
proof (induction n)
  case (Suc n)
  then have "cv_next (t n) < 5" by simp
  from queue_keeps [OF this] show ?case using Suc by (simp add: t_def)
qed (simp add: t_def assms(1))

lemma inv_idle:
  assumes "node_inv d K t0 (own, s, w)" "with_driver s' = with_driver s" "cv_held s' = cv_held s" "cv_streaming s' = cv_streaming s"
    "cvisp_target s' \<in> insert (cvisp_target s) (set ar_cvisp_ring)" "cv_next s' < 5"
  shows "node_inv d K t0 (own, s', w')"
  using assms by (auto simp: node_inv_def pipe_holds_def)

lemma inv_tick:
  assumes "node_inv d K t0 (own, s, w)" "cp_depth p = d" "1 \<le> d" "d \<le> 4" "ar_cvisp_frame_tick p s = (s', dones)"
  shows "node_inv d K t0 (own \<union> handed_back dones, s', w)"
proof -
  have n: "cv_next s < 5" using assms(1) by (simp add: node_inv_def)
  consider (off) "\<not> cp_rotate p" | (idle) "cp_rotate p" "\<not> cv_streaming s" | (drop) "cp_rotate p" "cv_streaming s" "cv_buffer_list s = []"
    | (more) b bs where "cp_rotate p" "cv_streaming s" "cv_buffer_list s = b # bs" by (cases "cv_buffer_list s") auto
  then show ?thesis
  proof cases
    case off
    then have "s' = s" "dones = []" using assms(5) by (simp_all add: ar_cvisp_frame_tick_def)
    then show ?thesis using assms(1) by (simp add: handed_back_def node_inv_def)
  next
    case idle
    have f: "s' = fst (ar_cvisp_frame_tick p s)" "dones = snd (ar_cvisp_frame_tick p s)" using assms(5) by simp_all
    note i = idle_tick [OF idle n]
    have "node_inv d K t0 (own, s', w)"
      unfolding f by (rule inv_idle [OF assms(1)]) (use i idle n in \<open>simp_all add: with_driver_def\<close>)
    then show ?thesis using i(8) f by (simp add: handed_back_def)
  next
    case drop
    then have s': "s' = s\<lparr>cv_drops := cv_drops s + 1\<rparr>" and dn: "dones = []" using tick_empty [OF drop] assms(5) by simp_all
    have "node_inv d K t0 (own, s', w)"
      by (rule inv_idle [OF assms(1)]) (use n in \<open>simp_all add: s' with_driver_def cvisp_target_def\<close>)
    then show ?thesis by (simp add: dn handed_back_def)
  next
    case (more b bs)
    obtain ys where y: "ys \<noteq> []" "pipe_holds d ys s" using assms(1) more(2) by (auto simp: node_inv_def)
    have d: "1 \<le> cp_depth p" "cp_depth p \<le> AR_CVISP_MAX_DEPTH" "pipe_holds (cp_depth p) ys s" using assms(2-4) y(2) by simp_all
    note t = tick_form [OF more(1,2) d more(3) assms(5)]
    let ?ds = "if length ys = cp_depth p then [last ys] else []"
    have "mset (with_driver s) = mset (?ds @ with_driver s')"
      using tick_fifo [OF more(1,2) d more(3) assms(5)] fifo_mset by (metis mset_append)
    then have "partitioned K (own \<union> cb_index ` set ?ds) (with_driver s')"
      using assms(1) by (intro partition_moves(2)) (simp_all add: node_inv_def)
    moreover have "handed_back dones = cb_index ` set ?ds" unfolding t(5) by (cases "length ys = cp_depth p") (simp_all add: handed_back_def)
    moreover have "take d (b # ys) \<noteq> []" "b \<in> set (take d (b # ys))" using assms(3) by (cases d; simp)+
    moreover have "somes (cv_held s') = take d (b # ys)" using holds_somes [OF t(1)] assms(2) by simp
    moreover have "cv_next s' < 5"
    proof -
      obtain x where "cv_next s' = cv_next (ar_cvisp_cycle x)"
        using assms(5) more by (auto simp: ar_cvisp_frame_tick_def Let_def split: option.splits)
      then show ?thesis by simp
    qed
    moreover have "\<exists>zs. zs \<noteq> [] \<and> pipe_holds d zs s'"
      using t(1) \<open>take d (b # ys) \<noteq> []\<close> assms(2) by (intro exI [where x = "take d (b # ys)"]) simp
    ultimately show ?thesis using t(3,4) assms(2) by (auto simp: node_inv_def)
  qed
qed

lemma inv_start:
  assumes "node_inv d K t0 (own, s, w)" "cp_depth p = d" "1 \<le> d" "\<not> cv_streaming s"
    "ar_cvisp_start_streaming p fw vif isp (s, w) = (r, (s', w'), dones)"
  shows "node_inv d K t0 (own \<union> handed_back dones, s', w')"
proof -
  have i: "partitioned K own (with_driver s)" "nothing_held s" "cvisp_target s \<in> insert t0 (set ar_cvisp_ring)" "cv_next s < 5"
    using assms(1,4) by (auto simp: node_inv_def)
  have give_back: "node_inv d K t0 (own \<union> handed_back dones, s', w')"
    if r: "ar_cvisp_return_buffers VB2_BUF_STATE_QUEUED s0 = (s', dones)" and k: "with_driver s0 = with_driver s" "\<not> cv_streaming s0"
      "cvisp_target s0 \<in> insert t0 (set ar_cvisp_ring)" "cv_next s0 < 5" for s0
  proof -
    note b = return_buffers [OF r]
    have "partitioned K (own \<union> cb_index ` set (with_driver s)) []" by (rule partition_moves(2) [OF i(1)]) simp
    then show ?thesis using b k by (auto simp: node_inv_def handed_back_map)
  qed
  from assms(5) show ?thesis
  proof (cases rule: start_form)
    case rotate
    then show ?thesis using give_back [OF rotate(3)] i assms(4) by simp
  next
    case (chain e)
    then show ?thesis using give_back [OF chain(5)] i assms(4) by simp
  next
    case (up s1 s2)
    have t: "cvisp_target s1 = cvisp_target s" unfolding up(3) by (rule target_cong) simp
    have "cvisp_target s2 \<in> {cvisp_target s, ar_cvisp_ring ! 4}" using t by (simp add: up(4) configure_target)
    then have k: "with_driver s2 = with_driver s" "cv_streaming s2 = cv_streaming s" "cv_next s2 < 5" "cvisp_target s2 \<in> insert t0 (set ar_cvisp_ring)"
      using i by (auto simp: up(3,4) with_driver_def configure_next)
    show ?thesis using up(5)
    proof (elim disjE exE conjE)
      assume "ar_cvisp_return_buffers VB2_BUF_STATE_QUEUED s2 = (s', dones)"
      from give_back [OF this k(1) _ k(4,3)] show ?thesis using k(2) assms(4) by simp
    next
      fix b bs assume l: "cv_buffer_list s = b # bs" "r = None" "dones = []"
        and s': "s' = (ar_cvisp_arm_buffer b (s2\<lparr>cv_buffer_list := bs, cv_held := [Some b, None, None, None], cv_sequence := 0\<rparr>))\<lparr>cv_streaming := True\<rparr>"
      have d: "1 \<le> cp_depth p" using assms(2,3) by simp
      note o = start_ok [OF d s']
      have "with_driver s = b # bs" using i(2) l(1) by (simp add: with_driver_def)
      moreover have "cv_next s' < 5" using k(3) by (simp add: s' ar_cvisp_arm_buffer_def)
      moreover have "\<exists>ys. ys \<noteq> [] \<and> pipe_holds d ys s'" using o(10) assms(2) by (intro exI [where x = "[b]"]) simp
      ultimately show ?thesis using o(3,7,8,9) i(1) l(3) by (simp add: node_inv_def handed_back_def)
    qed
  qed
qed

lemma inv_stop:
  assumes "node_inv d K t0 (own, s, w)" "ar_cvisp_stop_streaming s = (s', dones)"
  shows "node_inv d K t0 (own \<union> handed_back dones, s', w)"
proof -
  note t = stop_form [OF assms(2)]
  have p: "partitioned K own (with_driver s)" using assms(1) by (simp add: node_inv_def)
  have "partitioned K (own \<union> cb_index ` set (with_driver s)) []" by (rule partition_moves(2) [OF p]) simp
  then show ?thesis using t by (simp add: node_inv_def handed_back_map)
qed

lemma inv_configure:
  assumes "node_inv d K t0 (own, s, w)" "ar_cvisp_configure_set p fw val s = Inr s'"
  shows "node_inv d K t0 (own, s', w)"
proof -
  have s': "s' = ar_cvisp_configure p fw (val = 1) s" using assms(2) by (simp add: ar_cvisp_configure_set_def split: if_splits)
  show ?thesis
  proof (rule inv_idle [OF assms(1)])
    show "cvisp_target s' \<in> insert (cvisp_target s) (set ar_cvisp_ring)" unfolding s' configure_target by simp
    show "cv_next s' < 5" by (simp add: s' configure_next)
  qed (simp_all add: s')
qed

lemma inv_step: "node_step d x y \<Longrightarrow> 1 \<le> d \<Longrightarrow> d \<le> 4 \<Longrightarrow> node_inv d K t0 x \<Longrightarrow> node_inv d K t0 y"
proof (induction rule: node_step.induct)
  case (step_qbuf b own s w)
  have w: "with_driver (ar_cvisp_buffer_queue b s) = with_driver s @ [b]" by (simp add: with_driver_def ar_cvisp_buffer_queue_def)
  have t: "cvisp_target (ar_cvisp_buffer_queue b s) = cvisp_target s" by (rule target_cong) (simp add: ar_cvisp_buffer_queue_def)
  have h: "cv_held (ar_cvisp_buffer_queue b s) = cv_held s" "cv_streaming (ar_cvisp_buffer_queue b s) = cv_streaming s"
    "cv_next (ar_cvisp_buffer_queue b s) = cv_next s" by (simp_all add: ar_cvisp_buffer_queue_def)
  have "partitioned K (own - {cb_index b}) (with_driver s @ [b])"
    using partition_moves(1) step_qbuf by (simp add: node_inv_def)
  then show ?case using step_qbuf(4) unfolding node_inv_def prod.case w t h pipe_holds_def by simp
next
  case (step_tick p s s' dones own w)
  show ?case by (rule inv_tick [OF step_tick(5,1,3,4,2)])
next
  case (step_streamon p s fw vif isp w r s' w' dones own)
  show ?case by (rule inv_start [OF step_streamon(6,1,4,2,3)])
next
  case (step_streamoff s s' dones own w)
  show ?case by (rule inv_stop [OF step_streamoff(5,2)])
next
  case (step_configure p fw val s s' own w)
  show ?case by (rule inv_configure [OF step_configure(5,2)])
next
  case (step_queue val s s' own w)
  have s': "s' = (ar_cvisp_queue ^^ unat val) s" using step_queue(1) by (simp add: ar_cvisp_queue_set_def split: if_splits)
  have n: "cv_next s < 5" using step_queue(4) by (simp add: node_inv_def)
  show ?case by (rule inv_idle [OF step_queue(4)]) (use queues_keep [OF n, of "unat val"] in \<open>simp_all add: s' with_driver_def\<close>)
qed


definition example_cvisp_env :: cvisp_env where
  "example_cvisp_env = \<lparr>ce_io = (\<lambda>_. 0), ce_mask = None, ce_rmem = None, ce_action = None, ce_alloc = True, ce_ioremap = None, ce_clk = Inr True,
     ce_clk_enable = None, ce_v4l2 = None, ce_queue = None, ce_video = None\<rparr>"


section \<open>A started stream delivers\<close>

text \<open>C13: A stream that was started hands its buffers back: after \<open>n\<close> frames with nothing queued meanwhile, exactly
  those of the \<open>1 + min n (m - 1)\<close> armed so far (of \<open>m\<close> at the start) that the pipeline of \<open>depth\<close> no longer covers
  have been completed, oldest first.  So with the \<open>depth + 1\<close> buffers the node makes the core wait for, the first
  comes back after \<open>depth\<close> frames; with one fewer none ever would, and the consumer could queue nothing again.\<close>

theorem stream_delivers:
  assumes "\<not> cv_streaming s" "nothing_held s" "depth_ok p"
    "ar_cvisp_start_streaming p fw vif isp (s, w) = (None, (s1, w1), d1)"
    "cvisp_run p (replicate n Frame_tick) s1 = (s2, dones)"
  shows "map (cb_index \<circ> fst) dones = take (1 + min n (length (cv_buffer_list s) - 1) - cp_depth p) (map cb_index (cv_buffer_list s)) \<and>
    (dones \<noteq> [] \<longleftrightarrow> cp_depth p \<le> n \<and> ar_cvisp_min_queued p \<le> length (cv_buffer_list s))"
  using assms(4)
proof (cases rule: start_form)
  case (up s0 s3)
  then obtain b bs where l: "cv_buffer_list s = b # bs"
    and s1: "s1 = (ar_cvisp_arm_buffer b (s3\<lparr>cv_buffer_list := bs, cv_held := [Some b, None, None, None], cv_sequence := 0\<rparr>))\<lparr>cv_streaming := True\<rparr>"
    by auto
  have d: "1 \<le> cp_depth p" using assms(3) by (simp add: depth_ok_def)
  note o = start_ok [OF d s1]
  have bs: "cv_buffer_list s1 = bs" by (simp add: s1 ar_cvisp_arm_buffer_def)
  have n: "length dones = 1 + min n (length bs) - cp_depth p" using ticks_complete [OF up(1) assms(3) o(1) assms(5)] o(9) bs by simp
  have q: "queued (replicate n Frame_tick) = []" by (induction n) simp_all
  have "map (cb_index \<circ> fst) dones @ map cb_index (fifo s2) = map cb_index (b # bs)"
    using run_fifo [OF up(1) assms(3) o(1) assms(5)] q o(2) by simp
  then have "map (cb_index \<circ> fst) dones = take (length dones) (map cb_index (b # bs))" by (metis append_eq_conv_conj length_map)
  moreover have "dones \<noteq> [] \<longleftrightarrow> 0 < length dones" by simp
  then have "dones \<noteq> [] \<longleftrightarrow> cp_depth p \<le> n \<and> cp_depth p \<le> length bs" unfolding n using d by arith
  ultimately show ?thesis using n l by (simp add: ar_cvisp_min_queued_def)
qed simp_all

theorem stream_delivers_witness:
  "map (cb_index \<circ> fst) (snd (cvisp_run (cvisp_defaults\<lparr>cp_depth := 1, cp_chain := False\<rparr>) (replicate 2 Frame_tick)
     (fst (fst (snd (ar_cvisp_start_streaming (cvisp_defaults\<lparr>cp_depth := 1, cp_chain := False\<rparr>) None (\<lambda>w. (None, w)) (\<lambda>w. (None, w))
       (cvisp_zeroed\<lparr>cv_configured := True, cv_buffer_list := [example_buffer 0, example_buffer 1]\<rparr>, ()))))))) = [0]"
proof -
  let ?p = "cvisp_defaults\<lparr>cp_depth := 1, cp_chain := False\<rparr>"
    and ?s = "cvisp_zeroed\<lparr>cv_configured := True, cv_buffer_list := [example_buffer 0, example_buffer 1]\<rparr>"
  have a: "\<not> cv_streaming ?s" "nothing_held ?s" "depth_ok ?p" by (simp_all add: cvisp_zeroed_def depth_ok_def)
  obtain r s1 w1 d1 where st: "ar_cvisp_start_streaming ?p None (\<lambda>w. (None, w)) (\<lambda>w. (None, w)) (?s, ()) = (r, (s1, w1), d1)"
    by (metis prod_cases3 prod.exhaust)
  have "r = None" using st by (simp add: ar_cvisp_start_streaming_def cvisp_defaults_def Let_def)
  with st have st': "ar_cvisp_start_streaming ?p None (\<lambda>w. (None, w)) (\<lambda>w. (None, w)) (?s, ()) = (None, (s1, w1), d1)" by simp
  obtain s2 dones where r: "cvisp_run ?p (replicate 2 Frame_tick) s1 = (s2, dones)" by fastforce
  show ?thesis using stream_delivers [OF a st' r] unfolding st' using r by (simp add: example_buffer_def)
qed

section \<open>Probe and remove\<close>

text \<open>What is acquired, most recent first, along a sequence of requests: a release has to match the last
  acquisition still in force.  Unregistering the video device also releases the queue it owns, and the release
  of the memory reservation does nothing when none was attached.\<close>

definition releases :: "cvisp_event \<Rightarrow> cvisp_event list option" where
  "releases e =
     (case e of
        Clk_disable \<Rightarrow> Some [Clk_enable]
      | Debugfs_remove \<Rightarrow> Some [Debugfs_create]
      | V4l2_unregister \<Rightarrow> Some [V4l2_register]
      | Queue_release \<Rightarrow> Some [Queue_init]
      | Video_unregister \<Rightarrow> Some [Video_register, Queue_init]
      | Hook_clear \<Rightarrow> Some [Hook_set]
      | Rmem_release \<Rightarrow> Some [Rmem_init]
      | _ \<Rightarrow> None)"

fun outstanding :: "cvisp_event list \<Rightarrow> cvisp_event list \<Rightarrow> cvisp_event list option" where
  "outstanding [] st = Some st"
| "outstanding (e # es) st =
     (case releases e of
        None \<Rightarrow> outstanding es (e # st)
      | Some xs \<Rightarrow>
          if take (length xs) st = xs then outstanding es (drop (length xs) st)
          else if e = Rmem_release \<and> Rmem_init \<notin> set st then outstanding es st
          else None)"

text \<open>Probe and remove balance: on every failure of probe, whichever call fails, everything acquired so far has been
  released again, each once, in reverse order; after a success, whatever happened in between, remove
  releases everything the same way, beginning with the frame hook, so that no tick runs into a torn-down
  queue, and it hands back every buffer of a stream in progress.  The clock is disabled only where this driver
  enabled it.\<close>

theorem cvisp_probe_remove_balance:
  "case ar_cvisp_probe p env of
     (Inl e, tr) \<Rightarrow> outstanding tr [] = Some []
   | (Inr s0, tr) \<Rightarrow> \<forall>s. cv_clk_asserted s = cv_clk_asserted s0 \<longrightarrow>
       outstanding (tr @ snd (ar_cvisp_remove s)) [] = Some [] \<and> snd (ar_cvisp_remove s) ! 0 = Hook_clear \<and>
       (Clk_disable \<in> set (snd (ar_cvisp_remove s)) \<longleftrightarrow> Clk_enable \<in> set tr) \<and>
       (cv_streaming s \<longrightarrow> snd (fst (ar_cvisp_remove s)) = map (\<lambda>b. (b, VB2_BUF_STATE_ERROR)) (with_driver s) \<and>
          with_driver (fst (fst (ar_cvisp_remove s))) = [])"
proof -
  have stop: "snd (fst (ar_cvisp_remove s)) = map (\<lambda>b. (b, VB2_BUF_STATE_ERROR)) (with_driver s) \<and> with_driver (fst (fst (ar_cvisp_remove s))) = []"
    if "cv_streaming s" for s
    using stop_form(1,2) [OF prod.collapse [symmetric], of s] that by (simp add: ar_cvisp_remove_def Let_def)
  show ?thesis
    unfolding ar_cvisp_probe_def ar_cvisp_register_node_def Let_def
    by (auto simp: stop releases_def split: option.splits sum.splits) (auto simp: ar_cvisp_remove_def Let_def releases_def)
qed

theorem cvisp_probe_remove_balance_witness:
  "outstanding (snd (ar_cvisp_probe (cvisp_defaults\<lparr>cp_assert_clk := True\<rparr>) example_cvisp_env) @ snd (ar_cvisp_remove (cvisp_zeroed\<lparr>cv_clk_asserted := True\<rparr>))) [] = Some []"
proof -
  let ?p = "ar_cvisp_probe (cvisp_defaults\<lparr>cp_assert_clk := True\<rparr>) example_cvisp_env"
  obtain s0 tr where pr: "?p = (Inr s0, tr)" "cv_clk_asserted s0"
    by (simp add: ar_cvisp_probe_def example_cvisp_env_def cvisp_defaults_def Let_def ar_cvisp_register_node_def)
  show ?thesis using cvisp_probe_remove_balance [of "cvisp_defaults\<lparr>cp_assert_clk := True\<rparr>" example_cvisp_env] pr(2) unfolding pr(1) prod.case sum.case by simp
qed

section \<open>The black level follows the gain\<close>

lemma bank_fold:
  "fold (\<lambda>k R. R(b + 4 * k := f k)) [0..<n] R (b + 4 * j) = (if j < n then f j else R (b + 4 * j))"
  "\<forall>k<n. off \<noteq> b + 4 * k \<Longrightarrow> fold (\<lambda>k R. R(b + 4 * k := f k)) [0..<n] R off = R off"
  by (induction n) auto

lemma blc_walk_band:
  assumes "sel = blc_walk blob gain [0..<n] 0"
  shows "sel \<le> n - 1" "(sel = 0 \<and> gain < blc_second blob 0) \<or> ((\<forall>j. j \<le> sel \<and> j < n \<longrightarrow> blc_second blob j \<le> gain) \<and> (sel + 1 < n \<longrightarrow> gain < blc_second blob (sel + 1)))"
proof -
  have walk: "blc_walk blob gain [i..<n] s0 = r \<Longrightarrow> s0 \<le> i \<Longrightarrow> i \<le> n \<Longrightarrow>
      (r = s0 \<and> (i < n \<longrightarrow> gain < blc_second blob i)) \<or>
      (i \<le> r \<and> r < n \<and> (\<forall>j. i \<le> j \<and> j \<le> r \<longrightarrow> blc_second blob j \<le> gain) \<and> (r + 1 < n \<longrightarrow> gain < blc_second blob (r + 1)))" for i s0 r
  proof (induction "n - i" arbitrary: i s0)
    case (Suc m)
    then have i: "i < n" by simp
    then have u: "[i..<n] = i # [Suc i..<n]" by (simp add: upt_conv_Cons)
    show ?case
    proof (cases "gain < blc_second blob i")
      case True
      then show ?thesis using Suc.prems u by simp
    next
      case False
      then have "blc_walk blob gain [Suc i..<n] i = r" using Suc.prems u by simp
      from Suc.hyps(1) [OF _ this] Suc.hyps(2) i
      consider "r = i" "Suc i < n \<longrightarrow> gain < blc_second blob (Suc i)"
        | "Suc i \<le> r" "r < n" "\<forall>j. Suc i \<le> j \<and> j \<le> r \<longrightarrow> blc_second blob j \<le> gain" "r + 1 < n \<longrightarrow> gain < blc_second blob (r + 1)" by fastforce
      then show ?thesis
      proof cases
        case 1
        then show ?thesis using False i by (auto simp: not_less)
      next
        case 2
        have "\<forall>j. i \<le> j \<and> j \<le> r \<longrightarrow> blc_second blob j \<le> gain" using 2(3) False by (metis Suc_leI le_neq_implies_less not_less)
        then show ?thesis using 2 by simp
      qed
    qed
  qed simp
  from walk [of 0 0 sel] assms show "sel \<le> n - 1"
    "(sel = 0 \<and> gain < blc_second blob 0) \<or> ((\<forall>j. j \<le> sel \<and> j < n \<longrightarrow> blc_second blob j \<le> gain) \<and> (sel + 1 < n \<longrightarrow> gain < blc_second blob (sel + 1)))"
    by auto
qed

lemma blc_blend_value:
  "unat (blc_blend gain lo hi) = (if gain \<le> lo \<or> hi \<le> lo then 65536 else if hi \<le> gain then 0
     else 65536 - (unat gain - unat lo) * 65536 div (unat hi - unat lo))" "unat (blc_blend gain lo hi) \<le> 65536"
proof -
  have v: "unat (blc_blend gain lo hi) = 65536 - (unat gain - unat lo) * 65536 div (unat hi - unat lo)" if a: "lo < gain" "gain < hi"
  proof -
    have u: "unat lo < unat gain" "unat gain < unat hi" "unat hi < 2 ^ 32" using a unat_less_length [of hi] by (simp_all add: word_less_nat_alt)
    have d: "unat (gain - lo) = unat gain - unat lo" "unat (hi - lo) = unat hi - unat lo"
      using u by (simp_all add: unat_le_minus word_le_nat_alt)
    have m: "unat ((ucast (gain - lo) :: u64) * 65536) = (unat gain - unat lo) * 65536"
      using u by (subst unat_mult_small) (simp_all add: unat_ucast_up d)
    let ?q = "(unat gain - unat lo) * 65536 div (unat hi - unat lo)"
    have q: "unat (((ucast (gain - lo) :: u64) * 65536) div ucast (hi - lo)) = ?q"
      unfolding unat_div m by (simp add: unat_ucast_up d)
    have "(unat gain - unat lo) * 65536 < (unat hi - unat lo) * 65536" using u by simp
    then have b: "?q < 65536" by (metis less_mult_imp_div_less mult.commute)
    have w: "unat (ucast (((ucast (gain - lo) :: u64) * 65536) div ucast (hi - lo)) :: u32) = ?q"
      unfolding unat_ucast_mod q using b by simp
    have "blc_blend gain lo hi = 65536 - ucast (((ucast (gain - lo) :: u64) * 65536) div ucast (hi - lo))"
    proof -
      have "\<not> gain \<le> lo" "\<not> hi \<le> gain" "\<not> hi \<le> lo" using a less_trans [OF a] by (simp_all only: not_le)
      then show ?thesis unfolding blc_blend_def by (simp only: if_False simp_thms)
    qed
    moreover have "unat (65536 - ucast (((ucast (gain - lo) :: u64) * 65536) div ucast (hi - lo)) :: u32) = 65536 - ?q"
      unfolding w [symmetric] using b w by (subst unat_le_minus) (simp_all add: word_le_nat_alt)
    ultimately show ?thesis by simp
  qed
  show "unat (blc_blend gain lo hi) = (if gain \<le> lo \<or> hi \<le> lo then 65536 else if hi \<le> gain then 0
     else 65536 - (unat gain - unat lo) * 65536 div (unat hi - unat lo))"
    using v by (auto simp: blc_blend_def)
  then show "unat (blc_blend gain lo hi) \<le> 65536" by simp
qed

text \<open>A ladder as the tuning file has it: pairs of bounds, in order and apart.\<close>

definition ladder_ordered :: "mem \<Rightarrow> bool" where
  "ladder_ordered blob \<longleftrightarrow> (\<forall>k<5. blc_first blob k \<le> blc_second blob k) \<and> (\<forall>k<4. blc_second blob k < blc_first blob (Suc k))"

lemma ladder_mono: "ladder_ordered blob \<Longrightarrow> i \<le> j \<Longrightarrow> j < 5 \<Longrightarrow> blc_second blob i \<le> blc_second blob j"
proof (induction j)
  case (Suc j)
  show ?case
  proof (cases "i = Suc j")
    case False
    then have "blc_second blob i \<le> blc_second blob j" using Suc by simp
    also have "\<dots> < blc_first blob (Suc j)" using Suc.prems by (simp add: ladder_ordered_def)
    also have "\<dots> \<le> blc_second blob (Suc j)" using Suc.prems by (simp add: ladder_ordered_def)
    finally show ?thesis by simp
  qed simp
qed simp

lemma blc_sel:
  assumes "ladder_ordered blob" "k < 4" "k = 0 \<or> blc_second blob k \<le> gain" "k = 3 \<or> gain < blc_second blob (Suc k)"
  shows "blc_walk blob gain [0..<4] 0 = k"
proof -
  define sel where "sel = blc_walk blob gain [0..<4] 0"
  note b = blc_walk_band [OF sel_def]
  have "\<not> sel < k"
  proof
    assume l: "sel < k"
    then have g: "blc_second blob k \<le> gain" using assms(3) by simp
    have "blc_second blob (Suc sel) \<le> gain" "blc_second blob 0 \<le> gain"
      using order_trans [OF ladder_mono [OF assms(1)] g] l assms(2) by simp_all
    then show False using b(2) l assms(2) by auto
  qed
  moreover have "\<not> k < sel"
  proof
    assume l: "k < sel"
    then have s: "sel < 4" "k \<noteq> 3" using b(1) by auto
    then have "gain < blc_second blob (Suc k)" using assms(4) by simp
    then have "gain < blc_second blob sel" using ladder_mono [OF assms(1), of "Suc k" sel] l s by simp
    then show False using b(2) s l by auto
  qed
  ultimately show ?thesis by (simp add: sel_def)
qed

text \<open>The level word of entry \<open>k\<close>, channel \<open>i\<close>, in the file.\<close>

definition blc_file_level :: "mem \<Rightarrow> nat \<Rightarrow> nat \<Rightarrow> nat" where
  "blc_file_level blob k i = unat (ar_isp_get_le32 blob (AR_ISP_BLC_BLOB_TABLE + 0x20 * k + 0x10 + 4 * i))"

text \<open>The level registers once the walk is known.\<close>

lemma blc_apply_level:
  assumes "cp_blc p" "0x154 \<le> n" "i < 4" "sel = blc_walk blob (cp_blc_gain p) [0..<4] 0" "sel < 4"
    "w = unat (blc_blend (cp_blc_gain p) (blc_second blob sel) (blc_first blob (sel + 1)))"
  shows "unat (ar_cvisp_blc_apply p (Some (blob, n)) R (AR_ISP_BLC_BANK + 0x20 + 4 * i)) =
    (blc_file_level blob (sel + 1) i * (65536 - w) + blc_file_level blob sel i * w) div 65536"
    "off < AR_ISP_BLC_BANK \<or> AR_ISP_BLC_BANK + 0x40 \<le> off \<Longrightarrow> ar_cvisp_blc_apply p (Some (blob, n)) R off = R off"
proof -
  define bl where "bl = blc_blend (cp_blc_gain p) (blc_second blob sel) (blc_first blob (sel + 1))"
  define page where "page = ar_isp_blc_fill (\<lambda>_. 0) 0 (ar_isp_blc_entry blob (of_nat sel)) (ar_isp_blc_entry blob (of_nat (sel + 1))) bl"
  have u: "unat (of_nat k * 0x20 :: u32) = 0x20 * k" if "k < 5" for k
    using that by (subst unat_mult_small) (simp_all add: unat_of_nat)
  have ap: "ar_cvisp_blc_apply p (Some (blob, n)) R = fold (\<lambda>k R. R(AR_ISP_BLC_BANK + 4 * k := ar_isp_get_le32 page (4 * k))) [0..<16] R"
    using assms(1,2,4) unfolding page_def bl_def
    by (simp add: ar_cvisp_blc_apply_def Let_def del: upt_rec_numeral fold_simps)
  have "unat bl \<le> 65536" unfolding bl_def by (rule blc_blend_value(2))
  from blc_bank_is_the_blend [OF this assms(3) page_def refl refl refl]
  have v: "unat (ar_isp_get_le32 page (0x20 + 4 * i)) = (blc_file_level blob (sel + 1) i * (65536 - w) + blc_file_level blob sel i * w) div 65536"
    using u [of sel] u [of "sel + 1"] assms(5) unfolding assms(6) bl_def [symmetric] blc_file_level_def by simp
  have "ar_cvisp_blc_apply p (Some (blob, n)) R (AR_ISP_BLC_BANK + 4 * (8 + i)) = ar_isp_get_le32 page (4 * (8 + i))"
    unfolding ap using bank_fold(1) [of AR_ISP_BLC_BANK _ 16 R "8 + i"] assms(3) by (simp del: upt_rec_numeral fold_simps)
  then show "unat (ar_cvisp_blc_apply p (Some (blob, n)) R (AR_ISP_BLC_BANK + 0x20 + 4 * i)) =
    (blc_file_level blob (sel + 1) i * (65536 - w) + blc_file_level blob sel i * w) div 65536"
    using v by simp
  show "off < AR_ISP_BLC_BANK \<or> AR_ISP_BLC_BANK + 0x40 \<le> off \<Longrightarrow> ar_cvisp_blc_apply p (Some (blob, n)) R off = R off"
    unfolding ap by (rule bank_fold(2)) auto
qed

text \<open>C16: The black level the output block is given follows the gain along the ladder of the tuning file: below the
  ladder and inside a pair's own range a channel's level is exactly that entry's, in between two pairs it is
  the linear blend of theirs, floored, and above the ladder the last entry's.  Only the sixteen registers of the bank
  are written, and without a file, with one too short for the table, or with the correction off, none is.\<close>

theorem cvisp_black_level_follows_gain:
  assumes "ladder_ordered blob" "cp_blc p" "0x154 \<le> n" "i < 4" "k < 5"
  defines "g \<equiv> cp_blc_gain p" and "level \<equiv> (\<lambda>R. unat (ar_cvisp_blc_apply p (Some (blob, n)) R (AR_ISP_BLC_BANK + 0x20 + 4 * i)))"
  shows "((k = 0 \<or> blc_first blob k \<le> g) \<and> (k = 4 \<or> g \<le> blc_second blob k) \<longrightarrow> level R = blc_file_level blob k i) \<and>
    (k < 4 \<and> blc_second blob k < g \<and> g < blc_first blob (k + 1) \<longrightarrow>
      (let w = 65536 - (unat g - unat (blc_second blob k)) * 65536 div (unat (blc_first blob (k + 1)) - unat (blc_second blob k))
       in level R = (blc_file_level blob (k + 1) i * (65536 - w) + blc_file_level blob k i * w) div 65536)) \<and>
    (off < AR_ISP_BLC_BANK \<or> AR_ISP_BLC_BANK + 0x40 \<le> off \<longrightarrow> ar_cvisp_blc_apply p (Some (blob, n)) R off = R off) \<and>
    ar_cvisp_blc_apply p None R = R \<and> (m < 0x154 \<longrightarrow> ar_cvisp_blc_apply p (Some (blob, m)) R = R) \<and>
    ar_cvisp_blc_apply (p\<lparr>cp_blc := False\<rparr>) fw R = R"
proof -
  let ?f = "blc_first blob" and ?s = "blc_second blob" and ?L = "\<lambda>k. blc_file_level blob k i"
  have at: "level R = (?L (j + 1) * (65536 - w) + ?L j * w) div 65536"
    if "j < 4" "j = 0 \<or> ?s j \<le> g" "j = 3 \<or> g < ?s (Suc j)" "w = unat (blc_blend g (?s j) (?f (j + 1)))" for j w
    unfolding level_def by (rule blc_apply_level(1) [OF assms(2-4)]) (use that blc_sel [OF assms(1) that(1), of g] in \<open>simp_all add: g_def\<close>)
  have ord: "?f j \<le> ?s j" "j < 4 \<Longrightarrow> ?s j < ?f (Suc j)" if "j < 5" for j using assms(1) that by (simp_all add: ladder_ordered_def)
  have low: "level R = ?L k" if "k < 4" "g \<le> ?s k" "k = 0 \<or> ?s k \<le> g"
  proof -
    have "g < ?s (Suc k)" using that(1,2) ord(2) [of k] ord(1) [of "Suc k"] by (simp add: order_le_less_trans order_less_le_trans)
    then show ?thesis using at [OF that(1,3) _ refl] that(2) by (simp add: blc_blend_value(1))
  qed
  have high: "level R = ?L k" if h: "0 < k" "?f k \<le> g" "k = 4 \<or> g < ?s k"
  proof -
    obtain j where j: "k = Suc j" "j < 4" using h(1) assms(5) by (cases k) auto
    then have s: "?s j < ?f (Suc j)" "?s j < g" using ord(2) [of j] h(2) by (simp_all add: order_less_le_trans)
    have "unat (blc_blend g (?s j) (?f (j + 1))) = 0" using s h(2) j by (simp add: blc_blend_value(1) not_le)
    then show ?thesis using at [OF j(2) _ _ refl] s h(3) j by (simp add: less_imp_le)
  qed
  have exact: "level R = ?L k" if "k = 0 \<or> ?f k \<le> g" "k = 4 \<or> g \<le> ?s k"
  proof (cases "k < 4 \<and> g \<le> ?s k \<and> (k = 0 \<or> ?s k \<le> g)")
    case False
    then have "0 < k" "k = 4 \<or> g < ?s k" using that assms(5) by (auto simp: not_le)
    then show ?thesis using high that(1) by simp
  qed (use low in blast)
  have between: "level R = (?L (k + 1) * (65536 - w) + ?L k * w) div 65536"
    if "k < 4" "?s k < g" "g < ?f (k + 1)" "w = 65536 - (unat g - unat (?s k)) * 65536 div (unat (?f (k + 1)) - unat (?s k))" for w
  proof (rule at)
    show "k = 3 \<or> g < ?s (Suc k)" using that(1,3) ord(1) [of "Suc k"] by (simp add: order_less_le_trans)
    have "\<not> g \<le> ?s k" "\<not> ?f (k + 1) \<le> ?s k" "\<not> ?f (k + 1) \<le> g" using that(2,3) by (simp_all add: not_le)
    then show "w = unat (blc_blend g (?s k) (?f (k + 1)))" unfolding that(4) blc_blend_value(1) by simp
  qed (use that in \<open>simp_all add: less_imp_le\<close>)
  have "off < AR_ISP_BLC_BANK \<or> AR_ISP_BLC_BANK + 0x40 \<le> off \<longrightarrow> ar_cvisp_blc_apply p (Some (blob, n)) R off = R off"
    using blc_apply_level(2) [OF assms(2-4) refl _ refl] blc_walk_band(1) [OF refl, of blob "cp_blc_gain p" 4] by simp
  then show ?thesis using exact between by (simp add: Let_def ar_cvisp_blc_apply_def)
qed

text \<open>A file whose five pairs are \<open>(1, 2), (3, 4), (5, 6), (7, 8), (9, 10)\<close> as floats.\<close>

definition example_ladder :: mem where
  "example_ladder =
     fold (\<lambda>(k, v) m. ar_isp_put_le32 m (AR_ISP_BLC_BLOB_LADDER + 4 * k) v)
       (zip [0..<10] [0x3f800000, 0x40000000, 0x40400000, 0x40800000, 0x40a00000, 0x40c00000, 0x40e00000, 0x41000000, 0x41100000, 0x41200000]) (\<lambda>_. 7)"

lemma example_ladder_bounds: "blc_first example_ladder 1 = 3" "blc_second example_ladder 1 = 4"
  by code_simp+

lemma example_ladder_ordered: "ladder_ordered example_ladder"
proof -
  have "list_all (\<lambda>k. blc_first example_ladder k \<le> blc_second example_ladder k) [0..<5]"
    "list_all (\<lambda>k. blc_second example_ladder k < blc_first example_ladder (Suc k)) [0..<4]"
    by code_simp+
  then show ?thesis unfolding ladder_ordered_def list_all_iff by (simp only: Ball_def set_upt atLeastLessThan_iff le0 simp_thms)
qed

text \<open>Gain 3 sits in the second pair, whatever the last entry.\<close>

theorem cvisp_black_level_follows_gain_witness:
  "unat (ar_cvisp_blc_apply (cvisp_defaults\<lparr>cp_blc_gain := 3\<rparr>) (Some (example_ladder, 0x200)) (\<lambda>_. 0) (AR_ISP_BLC_BANK + 0x20 + 4 * 2)) = blc_file_level example_ladder 1 2"
  using cvisp_black_level_follows_gain [OF example_ladder_ordered, where p = "cvisp_defaults\<lparr>cp_blc_gain := 3\<rparr>" and n = 512 and i = 2 and k = 1 and R = "\<lambda>_. 0"]
    example_ladder_bounds by (simp add: cvisp_defaults_def)

section \<open>What a buffer has to be\<close>

text \<open>A prepared buffer has room for all the block may write in each plane, carries the written extent as payload, and
  the 32-bit bases are its real addresses; a layout is accepted exactly when its planes are large enough.\<close>

lemma prepare_ok:
  assumes "ar_cvisp_buffer_prepare sizes addrs (pay, pl) = (None, pay', pl')" "length pay = 3" "length pl = 3" "i < 3"
  shows "plane_size ! i \<le> sizes ! i \<and> plane_written ! i \<le> sizes ! i \<and> pay' ! i = plane_written ! i \<and> ucast (pl' ! i) = addrs ! i"
proof -
  have z: "ucast (lower_32_bits a) = a" if "upper_32_bits a = 0" for a
  proof (rule bit_word_eqI)
    fix n assume n: "n < LENGTH(64)"
    have "\<not> bit a n" if "32 \<le> n"
    proof -
      have "bit (upper_32_bits a) (n - 32) = (n - 32 < 32 \<and> bit a n)" using n that by (simp add: upper_32_bits_def bit_ucast_iff bit_drop_bit_eq)
      then show ?thesis using \<open>upper_32_bits a = 0\<close> n that by simp
    qed
    then show "bit (ucast (lower_32_bits a) :: u64) n = bit a n" using n by (cases "n < 32") (auto simp: lower_32_bits_def bit_ucast_iff)
  qed
  have u: "[0..<3] = [0, 1, 2::nat]" by code_simp
  have a: "\<forall>j\<in>{0, 1, 2}. plane_size ! j \<le> sizes ! j \<and> upper_32_bits (addrs ! j) = 0"
    "pay' = ((pay[0 := plane_written ! 0])[1 := plane_written ! 1])[2 := plane_written ! 2]"
    "pl' = ((pl[0 := lower_32_bits (addrs ! 0)])[1 := lower_32_bits (addrs ! 1)])[2 := lower_32_bits (addrs ! 2)]"
    using assms(1) unfolding ar_cvisp_buffer_prepare_def u by (auto simp: Let_def split: if_splits)
  consider "i = 0" | "i = 1" | "i = 2" using assms(4) by fastforce
  then show ?thesis using a z assms(2,3) by cases (auto simp: plane_written_def plane_size_def)
qed

lemma queue_setup_accepts:
  "length sizes = 3 \<Longrightarrow> ar_cvisp_queue_setup 3 sizes = (if \<forall>i<3. plane_size ! i \<le> sizes ! i then Inr (3, sizes) else Inl EINVAL)"
  "ar_cvisp_queue_setup 0 sizes = Inr (3, plane_size)" "ar_cvisp_queue_setup 3 plane_size = Inr (3, plane_size)"
  by (auto simp: ar_cvisp_queue_setup_def list_ex_iff not_le)

end
