(* ===== verification/Mmz_Zone.thy ===== *)
theory Mmz_Zone
  imports Kernel_Base
begin

text \<open>
  The first-fit block allocator of one MMZ zone, \<open>zone_alloc_locked\<close> of \<open>modules/ar_osal.c\<close>
  with the structures of \<open>modules/ar_mmz.h\<close>.  A pointer to a zone or a block is a number,
  the address \<open>kzalloc\<close> returned; \<open>kz\<close> is that result, \<open>None\<close> when the allocation fails.  The
  lemmas show that a zone stays sorted, disjoint and inside its carveout, and that the
  walk returns the lowest aligned address at which the block fits, failing only when
  there is none.
\<close>

section \<open>Definitions\<close>

abbreviation PAGE_SIZE :: u64 where "PAGE_SIZE \<equiv> 4096"

record mmb =
  mmb_ptr :: nat
  mmb_name :: string
  mmb_phys :: u64
  mmb_size :: u64
  mmb_align :: u32
  mmb_zone :: nat
  mmb_kvirt :: "u64 option"
  map_kref :: int
  user_kref :: int
  refcount :: s32

record mmz_zone =
  z_ptr :: nat
  z_name :: string
  z_base :: u64
  z_size :: u64
  z_gfp :: u32
  z_mmbs :: "mmb list"

text \<open>C strings are lists without a terminator; \<open>strscpy\<close> keeps at most \<open>n - 1\<close> characters.\<close>

definition strscpy :: "nat \<Rightarrow> string \<Rightarrow> string" where
  "strscpy n s = take (n - 1) s"

definition strncmp_eq :: "nat \<Rightarrow> string \<Rightarrow> string \<Rightarrow> bool" where
  "strncmp_eq n a b \<longleftrightarrow> take n a = take n b"

text \<open>The gap walk over the sorted block list; \<open>None\<close> is the overflow exit.\<close>

fun zone_gap :: "u64 \<Rightarrow> u64 \<Rightarrow> mmb list \<Rightarrow> u64 \<Rightarrow> u64 option" where
  "zone_gap align sz [] cur = Some cur"
| "zone_gap align sz (b # bs) cur =
     (case check_add_overflow cur sz of
        None \<Rightarrow> None
      | Some e \<Rightarrow>
          if e \<le> mmb_phys b then Some cur
          else zone_gap align sz bs (ALIGN (mmb_phys b + mmb_size b) align))"

text \<open>Insertion before the first block that starts later, or at the tail.\<close>

fun insert_mmb :: "mmb \<Rightarrow> mmb list \<Rightarrow> mmb list" where
  "insert_mmb nb [] = [nb]"
| "insert_mmb nb (b # bs) = (if mmb_phys b > mmb_phys nb then nb # b # bs else b # insert_mmb nb bs)"

text \<open>The checks before the walk: the page-aligned size and the alignment used, or rejection.\<close>

definition zone_request :: "mmz_zone \<Rightarrow> u64 \<Rightarrow> u64 \<Rightarrow> (u64 \<times> u64) option" where
  "zone_request z sz align0 =
     (let align = max (if align0 = 0 then PAGE_SIZE else align0) PAGE_SIZE;
          asize = ALIGN sz PAGE_SIZE
      in if sz = 0 \<or> sz > z_size z then None
         else if \<not> is_power_of_2 align \<or> align > z_size z then None
         else if asize = 0 \<or> asize > z_size z then None
         else Some (asize, align))"

definition zone_place :: "mmz_zone \<Rightarrow> u64 \<Rightarrow> u64 \<Rightarrow> u64 option" where
  "zone_place z sz align =
     (case zone_gap align sz (z_mmbs z) (ALIGN (z_base z) align) of
        None \<Rightarrow> None
      | Some cur \<Rightarrow>
          (case check_add_overflow cur sz of
             None \<Rightarrow> None
           | Some e \<Rightarrow> if e > z_base z + z_size z then None else Some cur))"

definition zone_alloc_locked ::
  "mmz_zone \<Rightarrow> string option \<Rightarrow> u64 \<Rightarrow> u64 \<Rightarrow> nat option \<Rightarrow> (mmz_zone \<times> mmb) option" where
  "zone_alloc_locked z name size0 align0 kz =
     (case zone_request z size0 align0 of
        None \<Rightarrow> None
      | Some (sz, align) \<Rightarrow>
          (case zone_place z sz align of
             None \<Rightarrow> None
           | Some cur \<Rightarrow>
               (case kz of
                  None \<Rightarrow> None
                | Some p \<Rightarrow>
                    let nb = \<lparr>mmb_ptr = p,
                              mmb_name = strscpy 48 (case name of Some (c # cs) \<Rightarrow> c # cs | _ \<Rightarrow> ''mmb''),
                              mmb_phys = cur, mmb_size = sz, mmb_align = ucast align,
                              mmb_zone = z_ptr z, mmb_kvirt = None, map_kref = 0, user_kref = 0,
                              refcount = 1\<rparr>
                    in Some (z\<lparr>z_mmbs := insert_mmb nb (z_mmbs z)\<rparr>, nb))))"

section \<open>The zone invariant\<close>

definition mmb_start :: "mmb \<Rightarrow> nat" where "mmb_start b = unat (mmb_phys b)"
definition mmb_end :: "mmb \<Rightarrow> nat" where "mmb_end b = unat (mmb_phys b) + unat (mmb_size b)"

text \<open>
  The carveout and one more alignment step fit the address space, and the blocks are
  sorted, disjoint, non-empty and inside the zone.
\<close>

definition blocks_ok :: "nat \<Rightarrow> nat \<Rightarrow> mmb list \<Rightarrow> bool" where
  "blocks_ok lo hi bs \<longleftrightarrow> sorted_wrt (\<lambda>b c. mmb_end b \<le> mmb_start c) bs \<and>
     list_all (\<lambda>b. lo \<le> mmb_start b \<and> mmb_start b < mmb_end b \<and> mmb_end b \<le> hi) bs"

definition zone_ok :: "mmz_zone \<Rightarrow> bool" where
  "zone_ok z \<longleftrightarrow> unat (z_base z) + 2 * unat (z_size z) \<le> 2 ^ 64 \<and>
     blocks_ok (unat (z_base z)) (unat (z_base z) + unat (z_size z)) (z_mmbs z)"

lemma blocks_ok_simps [simp]:
  "blocks_ok lo hi []"
  "blocks_ok lo hi (b # bs) \<longleftrightarrow> lo \<le> mmb_start b \<and> mmb_start b < mmb_end b \<and> mmb_end b \<le> hi \<and>
     (\<forall>c\<in>set bs. mmb_end b \<le> mmb_start c) \<and> blocks_ok lo hi bs"
  by (auto simp: blocks_ok_def)

lemma blocks_ok_cons_lo: "blocks_ok lo hi (b # bs) \<Longrightarrow> blocks_ok (mmb_end b) hi bs"
  by (auto simp: blocks_ok_def list_all_iff)

text \<open>A place at which \<open>s\<close> bytes overlap no block.\<close>

definition free_at :: "mmb list \<Rightarrow> nat \<Rightarrow> nat \<Rightarrow> bool" where
  "free_at bs s p \<longleftrightarrow> (\<forall>b\<in>set bs. p + s \<le> mmb_start b \<or> mmb_end b \<le> p)"

lemma zone_gap_spec:
  assumes "blocks_ok lo hi bs" "lo \<le> hi" "is_power_of_2 align" "hi + unat align \<le> 2 ^ 64"
    "unat cur = align_up lo (unat align)" "0 < unat sz"
  shows "(case zone_gap align sz bs cur of
      Some p \<Rightarrow> unat align dvd unat p \<and> lo \<le> unat p \<and>
        (unat p + unat sz \<le> hi \<longrightarrow> free_at bs (unat sz) (unat p)) \<and>
        (\<forall>q. unat align dvd q \<longrightarrow> lo \<le> q \<longrightarrow> free_at bs (unat sz) q \<longrightarrow> unat p \<le> q)
    | None \<Rightarrow> \<forall>q. unat align dvd q \<longrightarrow> lo \<le> q \<longrightarrow> free_at bs (unat sz) q \<longrightarrow> hi < q + unat sz)"
  using assms
proof (induction align sz bs cur arbitrary: lo rule: zone_gap.induct)
  case (1 align sz cur)
  have a: "0 < unat align" using 1(3) by (auto simp: is_power_of_2_def unat_gt_0)
  show ?case
    using 1 align_up_ge [OF a] align_up_least [OF a] by (simp add: free_at_def)
next
  case (2 align sz b bs cur)
  have a: "0 < unat align" using 2(4) by (auto simp: is_power_of_2_def unat_gt_0)
  note b = 2(2)
  have lob: "lo \<le> mmb_start b" and be: "mmb_start b < mmb_end b" "mmb_end b \<le> hi" using b by auto
  have lo: "lo \<le> unat cur" using align_up_ge [OF a] 2(6) by simp
  have least: "unat cur \<le> q" if "unat align dvd q" "lo \<le> q" for q
    using align_up_least [OF a that] 2(6) by simp
  have al: "unat align dvd unat cur" using 2(6) by simp
  show ?case
  proof (cases "check_add_overflow cur sz")
    case None
    then have "2 ^ 64 \<le> unat cur + unat sz" by (simp add: check_add_overflow_def split: if_splits)
    then have "hi < unat cur + unat sz" using 2(5) a by linarith
    then show ?thesis using None least by fastforce
  next
    case (Some e)
    then have e: "unat e = unat cur + unat sz" unfolding check_add_overflow_Some by blast
    show ?thesis
    proof (cases "e \<le> mmb_phys b")
      case True
      then have fit: "unat cur + unat sz \<le> mmb_start b" by (simp add: word_le_nat_alt e mmb_start_def)
      then have "free_at (b # bs) (unat sz) (unat cur)"
        using b be by (fastforce simp: free_at_def)
      then show ?thesis using Some True al lo least by simp
    next
      case False
      then have nofit: "mmb_start b < unat cur + unat sz" by (simp add: word_le_nat_alt e mmb_start_def)
      have sum: "unat (mmb_phys b + mmb_size b) = mmb_end b"
        using be 2(5) a by (subst unat_add_small) (simp_all add: mmb_end_def)
      have cur': "unat (ALIGN (mmb_phys b + mmb_size b) align) = align_up (mmb_end b) (unat align)"
        using be 2(4,5) a by (subst unat_ALIGN) (simp_all add: sum)
      have ih: "case zone_gap align sz bs (ALIGN (mmb_phys b + mmb_size b) align) of
          Some p \<Rightarrow> unat align dvd unat p \<and> mmb_end b \<le> unat p \<and>
            (unat p + unat sz \<le> hi \<longrightarrow> free_at bs (unat sz) (unat p)) \<and>
            (\<forall>q. unat align dvd q \<longrightarrow> mmb_end b \<le> q \<longrightarrow> free_at bs (unat sz) q \<longrightarrow> unat p \<le> q)
        | None \<Rightarrow> \<forall>q. unat align dvd q \<longrightarrow> mmb_end b \<le> q \<longrightarrow> free_at bs (unat sz) q \<longrightarrow> hi < q + unat sz"
        using Some False blocks_ok_cons_lo [OF b] be 2(4,5,7) cur' by (intro 2(1)) simp_all
      have step: "mmb_end b \<le> q \<and> free_at bs (unat sz) q"
        if "unat align dvd q" "lo \<le> q" "free_at (b # bs) (unat sz) q" for q
        using least [OF that(1,2)] that(3) nofit by (auto simp: free_at_def)
      show ?thesis
      proof (cases "zone_gap align sz bs (ALIGN (mmb_phys b + mmb_size b) align)")
        case n: None
        then show ?thesis using ih Some False step by simp
      next
        case (Some p)
        then have P: "unat align dvd unat p" "mmb_end b \<le> unat p"
          "unat p + unat sz \<le> hi \<Longrightarrow> free_at bs (unat sz) (unat p)"
          "\<And>q. unat align dvd q \<Longrightarrow> mmb_end b \<le> q \<Longrightarrow> free_at bs (unat sz) q \<Longrightarrow> unat p \<le> q"
          using ih by auto
        have "unat p + unat sz \<le> hi \<Longrightarrow> free_at (b # bs) (unat sz) (unat p)"
          using P(2,3) by (simp add: free_at_def)
        moreover have "lo \<le> unat p" using P(2) lob be by simp
        ultimately show ?thesis
          using Some \<open>check_add_overflow cur sz = Some e\<close> False P(1,4) step by simp
      qed
    qed
  qed
qed

lemma set_insert_mmb [simp]: "set (insert_mmb nb bs) = insert nb (set bs)"
  by (induction bs) auto

lemma insert_mmb_ok:
  assumes "blocks_ok lo hi bs" "lo \<le> mmb_start nb" "mmb_start nb < mmb_end nb" "mmb_end nb \<le> hi"
    "free_at bs (mmb_end nb - mmb_start nb) (mmb_start nb)"
  shows "blocks_ok lo hi (insert_mmb nb bs)"
  using assms
proof (induction bs arbitrary: lo)
  case (Cons b bs)
  have sep: "mmb_end nb \<le> mmb_start b \<or> mmb_end b \<le> mmb_start nb"
    using Cons.prems(3,5) by (simp add: free_at_def)
  have lt: "mmb_phys nb < mmb_phys b \<longleftrightarrow> mmb_start nb < mmb_start b"
    by (simp add: word_less_nat_alt mmb_start_def)
  show ?case
  proof (cases "mmb_start nb < mmb_start b")
    case True
    with Cons.prems sep have "mmb_end nb \<le> mmb_start b" by auto
    with True Cons.prems show ?thesis by (fastforce simp: lt)
  next
    case False
    with Cons.prems sep have e: "mmb_end b \<le> mmb_start nb" by auto
    have "blocks_ok (mmb_end b) hi (insert_mmb nb bs)"
      using Cons.prems e by (intro Cons.IH blocks_ok_cons_lo [of lo hi b]) (auto simp: free_at_def)
    then have "blocks_ok lo hi (insert_mmb nb bs)"
      using Cons.prems(1) by (auto simp: blocks_ok_def list_all_iff)
    with False Cons.prems e show ?thesis by (simp add: lt)
  qed
qed simp

lemma blocks_ok_filter: "blocks_ok lo hi bs \<Longrightarrow> blocks_ok lo hi (filter P bs)"
  by (induction bs) auto

lemma zone_okD:
  assumes "zone_ok z"
  shows "unat (z_base z) + 2 * unat (z_size z) \<le> 2 ^ 64"
    "blocks_ok (unat (z_base z)) (unat (z_base z) + unat (z_size z)) (z_mmbs z)"
  using assms by (simp_all add: zone_ok_def)

lemma max_page: "is_power_of_2 (max a PAGE_SIZE) \<Longrightarrow> 4096 \<le> unat (max a PAGE_SIZE)"
  by (simp add: max_def word_le_nat_alt split: if_splits)

lemma page_pow2: "is_power_of_2 PAGE_SIZE"
  by (simp add: is_power_of_2_def)

lemma zone_request_Some:
  assumes z: "unat (z_base z) + 2 * unat (z_size z) \<le> 2 ^ 64" and r: "zone_request z sz0 al0 = Some (sz, al)"
  shows "is_power_of_2 al" "4096 \<le> unat al" "unat al \<le> unat (z_size z)"
    "unat sz = align_up (unat sz0) 4096" "0 < unat sz" "unat sz \<le> unat (z_size z)" "unat sz0 \<le> unat sz"
proof -
  from r have al: "al = max (if al0 = 0 then PAGE_SIZE else al0) PAGE_SIZE" and sz: "sz = ALIGN sz0 PAGE_SIZE"
    and c: "is_power_of_2 al" "al \<le> z_size z" "sz0 \<le> z_size z" "sz \<noteq> 0" "sz \<le> z_size z"
    by (auto simp: zone_request_def Let_def not_less split: if_splits)
  show "is_power_of_2 al" "unat al \<le> unat (z_size z)" "unat sz \<le> unat (z_size z)" "0 < unat sz"
    using c by (simp_all add: word_le_nat_alt unat_gt_0)
  show "4096 \<le> unat al" using c(1) unfolding al by (rule max_page)
  have "unat sz0 \<le> unat (z_size z)" using c by (simp add: word_le_nat_alt)
  then show u: "unat sz = align_up (unat sz0) 4096"
    unfolding sz using z by (subst unat_ALIGN [OF page_pow2]) simp_all
  show "unat sz0 \<le> unat sz" unfolding u by (rule align_up_ge) simp
qed

lemma zone_place_spec:
  assumes z: "zone_ok z" and al: "is_power_of_2 al" "unat al \<le> unat (z_size z)" and sz: "0 < unat sz"
  defines "lo \<equiv> unat (z_base z)" and "hi \<equiv> unat (z_base z) + unat (z_size z)"
  shows "case zone_place z sz al of
      Some p \<Rightarrow> unat al dvd unat p \<and> lo \<le> unat p \<and> unat p + unat sz \<le> hi \<and> free_at (z_mmbs z) (unat sz) (unat p) \<and>
        (\<forall>q. unat al dvd q \<longrightarrow> lo \<le> q \<longrightarrow> free_at (z_mmbs z) (unat sz) q \<longrightarrow> unat p \<le> q)
    | None \<Rightarrow> \<forall>q. unat al dvd q \<longrightarrow> lo \<le> q \<longrightarrow> free_at (z_mmbs z) (unat sz) q \<longrightarrow> hi < q + unat sz"
proof -
  note Z = zone_okD [OF z, folded lo_def hi_def]
  have a: "0 < unat al" using al(1) by (auto simp: is_power_of_2_def unat_gt_0)
  have c: "unat (ALIGN (z_base z) al) = align_up lo (unat al)"
    using Z(1) al a by (subst unat_ALIGN) (auto simp: lo_def)
  have h: "lo \<le> hi" "hi + unat al \<le> 2 ^ 64" using Z(1) al(2) by (auto simp: lo_def hi_def)
  have top: "unat (z_base z + z_size z) = hi"
    using h a by (subst unat_add_small) (simp_all add: hi_def)
  note G = zone_gap_spec [OF Z(2) h(1) al(1) h(2) c sz]
  show ?thesis
  proof (cases "zone_gap al sz (z_mmbs z) (ALIGN (z_base z) al)")
    case None
    then show ?thesis using G by (simp add: zone_place_def)
  next
    case (Some p)
    then have P: "unat al dvd unat p" "lo \<le> unat p"
      "unat p + unat sz \<le> hi \<Longrightarrow> free_at (z_mmbs z) (unat sz) (unat p)"
      "\<And>q. unat al dvd q \<Longrightarrow> lo \<le> q \<Longrightarrow> free_at (z_mmbs z) (unat sz) q \<Longrightarrow> unat p \<le> q"
      using G by auto
    show ?thesis
    proof (cases "unat p + unat sz \<le> hi")
      case True
      then have "check_add_overflow p sz = Some (p + sz)" and s: "unat (p + sz) = unat p + unat sz"
        using h a by (auto simp: check_add_overflow_def intro!: unat_add_small)
      then have "zone_place z sz al = Some p"
        using Some True by (simp add: zone_place_def word_less_nat_alt top s)
      then show ?thesis using P True by simp
    next
      case False
      have "zone_place z sz al = None"
        using Some False unfolding zone_place_def
        by (auto simp: word_less_nat_alt top check_add_overflow_Some split: option.split)
      then show ?thesis using P(4) False by fastforce
    qed
  qed
qed

lemma zone_alloc_spec:
  assumes z: "zone_ok z" and r: "zone_request z sz0 al0 = Some (sz, al)"
  shows "case zone_alloc_locked z name sz0 al0 kz of
      Some (z', nb) \<Rightarrow> kz = Some (mmb_ptr nb) \<and> zone_ok z' \<and> z' = z\<lparr>z_mmbs := insert_mmb nb (z_mmbs z)\<rparr> \<and>
        mmb_size nb = sz \<and> mmb_zone nb = z_ptr z \<and> refcount nb = 1 \<and> map_kref nb = 0 \<and> user_kref nb = 0 \<and>
        unat al dvd mmb_start nb \<and> unat (z_base z) \<le> mmb_start nb \<and>
        mmb_end nb \<le> unat (z_base z) + unat (z_size z) \<and> free_at (z_mmbs z) (unat sz) (mmb_start nb) \<and>
        (\<forall>q. unat al dvd q \<longrightarrow> unat (z_base z) \<le> q \<longrightarrow> free_at (z_mmbs z) (unat sz) q \<longrightarrow> mmb_start nb \<le> q)
    | None \<Rightarrow> kz \<noteq> None \<longrightarrow>
        (\<forall>q. unat al dvd q \<longrightarrow> unat (z_base z) \<le> q \<longrightarrow> free_at (z_mmbs z) (unat sz) q \<longrightarrow>
          unat (z_base z) + unat (z_size z) < q + unat sz)"
proof -
  note Z = zone_okD [OF z]
  note R = zone_request_Some [OF Z(1) r]
  note P = zone_place_spec [OF z R(1,3,5)]
  show ?thesis
  proof (cases "zone_place z sz al")
    case None
    then show ?thesis using P r by (simp add: zone_alloc_locked_def)
  next
    case (Some p)
    note P' = P [unfolded Some option.case]
    show ?thesis
    proof (cases kz)
      case None
      then show ?thesis using r Some by (simp add: zone_alloc_locked_def)
    next
      case k: (Some k)
      then obtain nb where a: "zone_alloc_locked z name sz0 al0 kz = Some (z\<lparr>z_mmbs := insert_mmb nb (z_mmbs z)\<rparr>, nb)"
        and nb: "mmb_ptr nb = k" "mmb_phys nb = p" "mmb_size nb = sz" "mmb_zone nb = z_ptr z" "refcount nb = 1"
          "map_kref nb = 0" "user_kref nb = 0"
        using r Some by (simp add: zone_alloc_locked_def Let_def)
      have se: "mmb_start nb = unat p" "mmb_end nb = unat p + unat sz" by (simp_all add: mmb_start_def mmb_end_def nb)
      have "blocks_ok (unat (z_base z)) (unat (z_base z) + unat (z_size z)) (insert_mmb nb (z_mmbs z))"
        using P' R(5) by (intro insert_mmb_ok Z(2)) (simp_all add: se)
      then have "zone_ok (z\<lparr>z_mmbs := insert_mmb nb (z_mmbs z)\<rparr>)"
        using Z(1) by (simp add: zone_ok_def)
      then show ?thesis using P' by (simp add: a [unfolded k] k nb se)
    qed
  qed
qed

section \<open>Properties\<close>

text \<open>C3: The block allocator is a complete first fit.  For a request the size and alignment checks
  accept, an allocated block is the lowest aligned address of the zone at which the page-rounded
  size overlaps no live block, it lies inside the carveout, starts with one reference and no
  mappings, and the zone stays sorted and disjoint; a failure that is not the failure of
  \<open>kzalloc\<close> means that no aligned address of the zone fits.\<close>

theorem zone_alloc_first_fit:
  assumes "zone_ok z" and "zone_request z sz0 al0 = Some (sz, al)"
  shows "case zone_alloc_locked z name sz0 al0 kz of
      Some (z', nb) \<Rightarrow> kz = Some (mmb_ptr nb) \<and> zone_ok z' \<and> set (z_mmbs z') = insert nb (set (z_mmbs z)) \<and>
        mmb_size nb = sz \<and> unat sz0 \<le> unat sz \<and> mmb_zone nb = z_ptr z \<and>
        refcount nb = 1 \<and> map_kref nb = 0 \<and> user_kref nb = 0 \<and>
        unat al dvd mmb_start nb \<and> unat (z_base z) \<le> mmb_start nb \<and>
        mmb_end nb \<le> unat (z_base z) + unat (z_size z) \<and> free_at (z_mmbs z) (unat sz) (mmb_start nb) \<and>
        (\<forall>q. unat al dvd q \<longrightarrow> unat (z_base z) \<le> q \<longrightarrow> free_at (z_mmbs z) (unat sz) q \<longrightarrow> mmb_start nb \<le> q)
    | None \<Rightarrow> kz \<noteq> None \<longrightarrow>
        (\<forall>q. unat al dvd q \<longrightarrow> unat (z_base z) \<le> q \<longrightarrow> free_at (z_mmbs z) (unat sz) q \<longrightarrow>
          unat (z_base z) + unat (z_size z) < q + unat sz)"
proof (cases "zone_alloc_locked z name sz0 al0 kz")
  case None
  then show ?thesis using zone_alloc_spec [where name = name and kz = kz, OF assms] by simp
next
  case (Some r)
  then obtain z' nb where r: "zone_alloc_locked z name sz0 al0 kz = Some (z', nb)" by (cases r) simp
  note S = zone_alloc_spec [where name = name and kz = kz, OF assms, unfolded r option.case prod.case]
  then have "set (z_mmbs z') = insert nb (set (z_mmbs z))" by simp
  then show ?thesis
    unfolding r option.case prod.case
    using S zone_request_Some(7) [OF zone_okD(1) [OF assms(1)] assms(2)] by blast
qed

definition empty_zone :: mmz_zone where
  "empty_zone = \<lparr>z_ptr = 1, z_name = ''anonymous'', z_base = 0x29200000, z_size = 0x06e00000, z_gfp = 0, z_mmbs = []\<rparr>"

lemma empty_zone_ok: "zone_ok empty_zone"
  by (simp add: zone_ok_def empty_zone_def)

lemma empty_zone_request: "zone_request empty_zone 0x1234 0 = Some (0x2000, 0x1000)"
  by (simp add: zone_request_def empty_zone_def ALIGN_def is_power_of_2_def Let_def)

theorem zone_alloc_first_fit_witness:
  "\<exists>z' nb. zone_alloc_locked empty_zone None 0x1234 0 (Some 7) = Some (z', nb) \<and> mmb_ptr nb = 7 \<and> zone_ok z'"
proof -
  have "zone_alloc_locked empty_zone None 0x1234 0 (Some 7) \<noteq> None"
    by (simp add: zone_alloc_locked_def empty_zone_request)
       (simp add: empty_zone_def zone_place_def ALIGN_def check_add_overflow_def Let_def)
  then obtain z' nb where a: "zone_alloc_locked empty_zone None 0x1234 0 (Some 7) = Some (z', nb)" by auto
  then show ?thesis
    using zone_alloc_first_fit [OF empty_zone_ok empty_zone_request, where name = None and kz = "Some 7"] by simp
qed

end
