(* ===== verification/Mmz_Osal.thy ===== *)
theory Mmz_Osal
  imports Mmz_Zone
begin

text \<open>
  \<open>modules/ar_osal.c\<close>: the zone list, block lookups, kernel mappings, the registry of user
  mappings and the \<open>/dev/mmz_userdev\<close> handlers.  The state is what \<open>ar_mmz_lock\<close> guards: the
  zone list and the registry.  Results of the kernel (\<open>kzalloc\<close>, \<open>memremap\<close>,
  \<open>remap_pfn_range\<close>, \<open>copy_from_user\<close>, \<open>copy_to_user\<close>, \<open>vm_mmap\<close>, \<open>vm_munmap\<close>) are
  arguments.  Every handler runs its state change under one lock, so handlers are atomic
  steps; the barriers of the cache handlers change no state.
\<close>

section \<open>State\<close>

record user_map =
  um_uvaddr :: u64
  um_phys :: u64
  um_size :: u64

record osal =
  g_zone_list :: "mmz_zone list"
  g_user_maps :: "user_map list"

definition upd_block :: "nat \<Rightarrow> (mmb \<Rightarrow> mmb) \<Rightarrow> osal \<Rightarrow> osal" where
  "upd_block p f os = os\<lparr>g_zone_list :=
     map (\<lambda>z. z\<lparr>z_mmbs := map (\<lambda>b. if mmb_ptr b = p then f b else b) (z_mmbs z)\<rparr>) (g_zone_list os)\<rparr>"

text \<open>\<open>list_del(&b->node)\<close>\<close>

definition del_block :: "nat \<Rightarrow> osal \<Rightarrow> osal" where
  "del_block p os = os\<lparr>g_zone_list :=
     map (\<lambda>z. z\<lparr>z_mmbs := filter (\<lambda>b. mmb_ptr b \<noteq> p) (z_mmbs z)\<rparr>) (g_zone_list os)\<rparr>"

definition all_blocks :: "osal \<Rightarrow> mmb list" where
  "all_blocks os = concat (map z_mmbs (g_zone_list os))"

definition the_block :: "osal \<Rightarrow> nat \<Rightarrow> mmb option" where
  "the_block os p = find (\<lambda>b. mmb_ptr b = p) (all_blocks os)"

section \<open>Zones\<close>

definition zone_find_by_name :: "osal \<Rightarrow> string option \<Rightarrow> mmz_zone option" where
  "zone_find_by_name os name =
     (case name of
        Some (c # cs) \<Rightarrow> find (\<lambda>z. strncmp_eq 64 (z_name z) (c # cs)) (g_zone_list os)
      | _ \<Rightarrow> (case find (\<lambda>z. strncmp_eq 64 (z_name z) ''anonymous'') (g_zone_list os) of
                Some z \<Rightarrow> Some z
              | None \<Rightarrow> (case g_zone_list os of [] \<Rightarrow> None | z # zs \<Rightarrow> Some z)))"

definition hil_mmz_create :: "osal \<Rightarrow> string option \<Rightarrow> u32 \<Rightarrow> u64 \<Rightarrow> u64 \<Rightarrow> nat option \<Rightarrow> osal \<times> nat option" where
  "hil_mmz_create os name gf start sz kz =
     (if sz = 0 then (os, None)
      else case kz of
        None \<Rightarrow> (os, None)
      | Some p \<Rightarrow>
          (os\<lparr>g_zone_list := g_zone_list os @
             [\<lparr>z_ptr = p, z_name = strscpy 64 (case name of None \<Rightarrow> ''anonymous'' | Some n \<Rightarrow> n),
               z_base = start, z_size = sz, z_gfp = gf, z_mmbs = []\<rparr>]\<rparr>, Some p))"

definition hil_mmz_destroy :: "osal \<Rightarrow> nat option \<Rightarrow> errno + osal" where
  "hil_mmz_destroy os z =
     (case z of
        None \<Rightarrow> Inl EINVAL
      | Some p \<Rightarrow>
          if \<exists>z\<in>set (g_zone_list os). z_ptr z = p \<and> z_mmbs z \<noteq> [] then Inl EBUSY
          else Inr (os\<lparr>g_zone_list := filter (\<lambda>z. z_ptr z \<noteq> p) (g_zone_list os)\<rparr>))"

definition mmz_find :: "osal \<Rightarrow> u64 \<Rightarrow> mmz_zone option" where
  "mmz_find os phys = find (\<lambda>z. phys \<ge> z_base z \<and> phys < z_base z + z_size z) (g_zone_list os)"

definition hil_mmz_get_phys :: "mmz_zone option \<Rightarrow> u64" where
  "hil_mmz_get_phys z = (case z of None \<Rightarrow> 0 | Some z \<Rightarrow> z_base z)"

section \<open>Blocks\<close>

definition hil_mmb_alloc ::
  "osal \<Rightarrow> string option \<Rightarrow> u64 \<Rightarrow> u64 \<Rightarrow> u32 \<Rightarrow> string option \<Rightarrow> nat option \<Rightarrow> osal \<times> mmb option" where
  "hil_mmb_alloc os name sz align gf zone_name kz =
     (case zone_find_by_name os zone_name of
        None \<Rightarrow> (os, None)
      | Some z \<Rightarrow>
          (case zone_alloc_locked z name sz align kz of
             None \<Rightarrow> (os, None)
           | Some (z', nb) \<Rightarrow>
               (os\<lparr>g_zone_list := map (\<lambda>y. if z_ptr y = z_ptr z then z' else y) (g_zone_list os)\<rparr>, Some nb)))"

definition hil_mmb_free :: "osal \<Rightarrow> nat option \<Rightarrow> errno + osal" where
  "hil_mmb_free os b = (case b of None \<Rightarrow> Inl EINVAL | Some p \<Rightarrow> Inr (del_block p os))"

text \<open>Block lookup by physical address: the first zone's first block that contains it.\<close>

definition block_has :: "u64 \<Rightarrow> mmb \<Rightarrow> bool" where
  "block_has phys b \<longleftrightarrow> phys \<ge> mmb_phys b \<and> phys < mmb_phys b + mmb_size b"

definition getby_phys_2 :: "osal \<Rightarrow> u64 \<Rightarrow> (mmz_zone \<times> mmb) option" where
  "getby_phys_2 os phys =
     find (\<lambda>(z, b). block_has phys b) (concat (map (\<lambda>z. map (Pair z) (z_mmbs z)) (g_zone_list os)))"

definition hil_mmb_getby_phys :: "osal \<Rightarrow> u64 \<Rightarrow> mmb option" where
  "hil_mmb_getby_phys os phys = map_option snd (getby_phys_2 os phys)"

definition hil_mmb_getby_kvirt :: "osal \<Rightarrow> u64 \<Rightarrow> mmb option" where
  "hil_mmb_getby_kvirt os kvirt =
     find (\<lambda>b. case mmb_kvirt b of None \<Rightarrow> False | Some k \<Rightarrow> kvirt \<ge> k \<and> kvirt < k + mmb_size b) (all_blocks os)"

text \<open>Kernel mappings; \<open>remap\<close> is what \<open>memremap\<close> would return.\<close>

definition map_block_locked :: "osal \<Rightarrow> mmb \<Rightarrow> u64 option \<Rightarrow> osal \<times> u64 option" where
  "map_block_locked os b remap =
     (case mmb_kvirt b of
        None \<Rightarrow> (case remap of
                   None \<Rightarrow> (os, None)
                 | Some k \<Rightarrow> (upd_block (mmb_ptr b) (\<lambda>b. b\<lparr>mmb_kvirt := Some k, map_kref := map_kref b + 1\<rparr>) os, Some k))
      | Some k \<Rightarrow> (upd_block (mmb_ptr b) (\<lambda>b. b\<lparr>map_kref := map_kref b + 1\<rparr>) os, Some k))"

definition unmap_block :: "mmb \<Rightarrow> mmb" where
  "unmap_block b =
     (if map_kref b > 0
      then if map_kref b - 1 = 0 then b\<lparr>map_kref := 0, mmb_kvirt := None\<rparr>
           else b\<lparr>map_kref := map_kref b - 1\<rparr>
      else b)"

definition hil_mmb_map2kern :: "osal \<Rightarrow> mmb option \<Rightarrow> u64 option \<Rightarrow> osal \<times> u64 option" where
  "hil_mmb_map2kern os b remap = (case b of None \<Rightarrow> (os, None) | Some b \<Rightarrow> map_block_locked os b remap)"

definition hil_mmb_unmap :: "osal \<Rightarrow> nat option \<Rightarrow> errno + osal" where
  "hil_mmb_unmap os b = (case b of None \<Rightarrow> Inl EINVAL | Some p \<Rightarrow> Inr (upd_block p unmap_block os))"

definition hil_mmf_map2kern_cache :: "osal \<Rightarrow> u64 \<Rightarrow> u64 option \<Rightarrow> osal \<times> u64 option" where
  "hil_mmf_map2kern_cache os phys remap =
     (case getby_phys_2 os phys of
        None \<Rightarrow> (os, None)
      | Some (z, b) \<Rightarrow>
          (case map_block_locked os b remap of
             (os', None) \<Rightarrow> (os', None)
           | (os', Some base) \<Rightarrow> (os', Some (base + (phys - mmb_phys b)))))"

definition hil_mmf_unmap :: "osal \<Rightarrow> u64 \<Rightarrow> osal" where
  "hil_mmf_unmap os phys =
     (case getby_phys_2 os phys of None \<Rightarrow> os | Some (z, b) \<Rightarrow> upd_block (mmb_ptr b) unmap_block os)"

definition hil_mmb_get :: "osal \<Rightarrow> nat \<Rightarrow> osal" where
  "hil_mmb_get os p = upd_block p (\<lambda>b. b\<lparr>refcount := refcount b + 1\<rparr>) os"

definition hil_mmb_put :: "osal \<Rightarrow> nat \<Rightarrow> osal" where
  "hil_mmb_put os p = upd_block p (\<lambda>b. b\<lparr>refcount := refcount b - 1\<rparr>) os"

definition hil_is_phys_in_mmz :: "osal \<Rightarrow> u64 \<Rightarrow> u64 \<Rightarrow> bool" where
  "hil_is_phys_in_mmz os phys sz =
     (case mmz_find os phys of None \<Rightarrow> False | Some z \<Rightarrow> phys + sz \<le> z_base z + z_size z)"

definition hil_map_mmz_check_phys :: "osal \<Rightarrow> u64 \<Rightarrow> u64 \<Rightarrow> errno + unit" where
  "hil_map_mmz_check_phys os phys sz = (if hil_is_phys_in_mmz os phys sz then Inr () else Inl EINVAL)"

section \<open>The registry of user mappings\<close>

text \<open>\<open>ok\<close>: whether the registry entry could be allocated.\<close>

definition ar_mmz_user_map_add :: "osal \<Rightarrow> u64 \<Rightarrow> u64 \<Rightarrow> u64 \<Rightarrow> bool \<Rightarrow> errno + osal" where
  "ar_mmz_user_map_add os uvaddr phys sz ok =
     (if \<not> ok then Inl ENOMEM
      else let os' = os\<lparr>g_user_maps := \<lparr>um_uvaddr = uvaddr, um_phys = phys, um_size = sz\<rparr> # g_user_maps os\<rparr>
        in case getby_phys_2 os' phys of
             None \<Rightarrow> Inr os'
           | Some (z, b) \<Rightarrow> Inr (upd_block (mmb_ptr b) (\<lambda>b. b\<lparr>user_kref := user_kref b + 1\<rparr>) os'))"

definition ar_mmz_user_map_del :: "osal \<Rightarrow> u64 \<Rightarrow> osal" where
  "ar_mmz_user_map_del os uvaddr =
     (case List.extract (\<lambda>m. um_uvaddr m = uvaddr) (g_user_maps os) of
        None \<Rightarrow> os
      | Some (ms, m, ms') \<Rightarrow>
          let os' = (case getby_phys_2 os (um_phys m) of
                       Some (z, b) \<Rightarrow>
                         if user_kref b > 0
                         then upd_block (mmb_ptr b) (\<lambda>b. b\<lparr>user_kref := user_kref b - 1\<rparr>) os else os
                     | None \<Rightarrow> os)
          in os'\<lparr>g_user_maps := ms @ ms'\<rparr>)"

text \<open>
  The shared mmap body.  \<open>remap_ok\<close> is the success of \<open>remap_pfn_range\<close>, \<open>reg_ok\<close> that of the
  registry allocation, whose failure the code ignores.
\<close>

definition ar_mmz_mmap_wc :: "osal \<Rightarrow> u64 \<Rightarrow> u64 \<Rightarrow> u64 \<Rightarrow> bool \<Rightarrow> bool \<Rightarrow> errno + osal" where
  "ar_mmz_mmap_wc os vm_start vm_end vm_pgoff remap_ok reg_ok =
     (let phys = push_bit 12 vm_pgoff; sz = vm_end - vm_start
      in if drop_bit 12 phys \<noteq> vm_pgoff then Inl EINVAL
         else case hil_map_mmz_check_phys os phys sz of
                Inl _ \<Rightarrow> Inl EINVAL
              | Inr _ \<Rightarrow>
                  if \<not> remap_ok then Inl EAGAIN
                  else (case ar_mmz_user_map_add os vm_start phys sz reg_ok of
                          Inl _ \<Rightarrow> Inr os | Inr os' \<Rightarrow> Inr os'))"

definition usr_virt_to_phys :: "osal \<Rightarrow> u64 \<Rightarrow> u64" where
  "usr_virt_to_phys os uvaddr =
     (case find (\<lambda>m. uvaddr \<ge> um_uvaddr m \<and> uvaddr < um_uvaddr m + um_size m) (g_user_maps os) of
        None \<Rightarrow> 0
      | Some m \<Rightarrow> um_phys m + (uvaddr - um_uvaddr m))"

section \<open>\<open>/dev/mmz_userdev\<close>\<close>

text \<open>\<open>struct mmb_info\<close>; the names are the bytes up to the first zero.\<close>

record mmb_info =
  mi_phys_addr :: u64
  mi_align :: u64
  mi_size :: u64
  mi_gfp :: u32
  mi_mapped_addr :: u64
  mi_flags :: u32
  mi_mmb_name :: string
  mi_mmz_name :: string

text \<open>The memory-management calls the remap handlers make, and the user copies.\<close>

record userdev_env =
  copy_in :: "mmb_info option"
  copy_out_ok :: bool
  env_kz :: "nat option"
  vm_mmap :: "osal \<Rightarrow> u64 \<Rightarrow> u64 \<Rightarrow> (errno + u64) \<times> osal"
  vm_munmap :: "osal \<Rightarrow> u64 \<Rightarrow> u64 \<Rightarrow> osal"

definition do_user_remap :: "userdev_env \<Rightarrow> osal \<Rightarrow> mmb_info \<Rightarrow> (errno + mmb_info) \<times> osal" where
  "do_user_remap env os mi =
     (case vm_mmap env os (mi_size mi) (mi_phys_addr mi) of
        (Inl e, os') \<Rightarrow> (Inl e, os')
      | (Inr uaddr, os') \<Rightarrow> (Inr (mi\<lparr>mi_mapped_addr := uaddr\<rparr>), os'))"

definition handle_m_cmd :: "userdev_env \<Rightarrow> osal \<Rightarrow> nat \<Rightarrow> mmb_info \<Rightarrow> (errno + mmb_info) \<times> osal" where
  "handle_m_cmd env os nr mi =
     (if nr = 10 \<or> nr = 13 then
        (case hil_mmb_alloc os (Some (mi_mmb_name mi)) (mi_size mi) (mi_align mi) (mi_gfp mi)
                (Some (mi_mmz_name mi)) (env_kz env) of
           (os', None) \<Rightarrow> (Inl ENOMEM, os')
         | (os', Some b) \<Rightarrow> (Inr (mi\<lparr>mi_phys_addr := mmb_phys b\<rparr>), os'))
      else if nr = 11 then
        (case getby_phys_2 os (mi_phys_addr mi) of
           None \<Rightarrow> (Inl EINVAL, os)
         | Some (z, b) \<Rightarrow>
             (Inr (mi\<lparr>mi_size := mmb_size b, mi_align := ucast (mmb_align b),
                      mi_mmb_name := strscpy 16 (mmb_name b), mi_mmz_name := strscpy 40 (z_name z)\<rparr>), os))
      else if nr = 12 then
        (case getby_phys_2 os (mi_phys_addr mi) of
           None \<Rightarrow> (Inl EINVAL, os)
         | Some (z, b) \<Rightarrow>
             if user_kref b > 0 \<or> map_kref b > 0 then (Inl EBUSY, os)
             else (Inr mi, del_block (mmb_ptr b) os))
      else if nr = 20 \<or> nr = 21 then do_user_remap env os mi
      else if nr = 22 then
        (if mi_mapped_addr mi \<noteq> 0
         then (Inr mi, ar_mmz_user_map_del (vm_munmap env os (mi_mapped_addr mi) (mi_size mi)) (mi_mapped_addr mi))
         else (Inr mi, os))
      else if nr = 23 then
        (let p = usr_virt_to_phys os (mi_mapped_addr mi)
         in if p = 0 then (Inl EINVAL, os) else (Inr (mi\<lparr>mi_phys_addr := p\<rparr>), os))
      else if nr = 24 then
        (case getby_phys_2 os (mi_phys_addr mi) of
           None \<Rightarrow> (Inr mi, os)
         | Some (z, b) \<Rightarrow> (Inr (mi\<lparr>mi_size := mmb_size b, mi_mmz_name := strscpy 40 (z_name z)\<rparr>), os))
      else (Inl EINVAL, os))"

definition handle_m :: "userdev_env \<Rightarrow> osal \<Rightarrow> nat \<Rightarrow> u32 \<Rightarrow> (errno + mmb_info) \<times> osal" where
  "handle_m env os nr sz =
     (if sz \<noteq> 104 then (Inl EINVAL, os)
      else case copy_in env of
        None \<Rightarrow> (Inl EFAULT, os)
      | Some mi0 \<Rightarrow>
          let mi = mi0\<lparr>mi_mmz_name := take 39 (mi_mmz_name mi0), mi_mmb_name := take 15 (mi_mmb_name mi0)\<rparr>
          in (case handle_m_cmd env os nr mi of
                (Inl e, os') \<Rightarrow> (Inl e, os')
              | (Inr mi', os') \<Rightarrow> (if copy_out_ok env then Inr mi' else Inl EFAULT, os')))"

definition handle_r :: "osal \<Rightarrow> nat \<Rightarrow> u64 \<Rightarrow> (errno + unit) \<times> osal" where
  "handle_r os nr handle =
     (case getby_phys_2 os handle of
        None \<Rightarrow> (Inl EINVAL, os)
      | Some (z, b) \<Rightarrow>
          if nr = 30 then (Inr (), hil_mmb_get os (mmb_ptr b))
          else if nr = 31 then
            (if sint (refcount b - 1) \<le> 0 \<and> user_kref b = 0 \<and> map_kref b = 0
             then (Inr (), del_block (mmb_ptr b) os)
             else (Inr (), hil_mmb_put os (mmb_ptr b)))
          else (Inr (), os))"

datatype ioc_magic = IOC_M | IOC_R | IOC_C | IOC_D | IOC_I | IOC_T | IOC_other

definition mmz_userdev_ioctl ::
  "userdev_env \<Rightarrow> osal \<Rightarrow> ioc_magic \<Rightarrow> nat \<Rightarrow> u32 \<Rightarrow> u64 \<Rightarrow> (errno + mmb_info option) \<times> osal" where
  "mmz_userdev_ioctl env os ty nr sz arg =
     (case ty of
        IOC_M \<Rightarrow> (case handle_m env os nr sz of (Inl e, os') \<Rightarrow> (Inl e, os') | (Inr mi, os') \<Rightarrow> (Inr (Some mi), os'))
      | IOC_R \<Rightarrow> (case handle_r os nr arg of (Inl e, os') \<Rightarrow> (Inl e, os') | (Inr _, os') \<Rightarrow> (Inr None, os'))
      | IOC_C \<Rightarrow> (Inr None, os)
      | IOC_D \<Rightarrow> (Inr None, os)
      | IOC_I \<Rightarrow> (Inr None, os)
      | IOC_T \<Rightarrow> (Inr None, os)
      | IOC_other \<Rightarrow> (Inl EINVAL, os))"

definition ar_osal_teardown :: "osal \<Rightarrow> osal" where
  "ar_osal_teardown os = os\<lparr>g_user_maps := [], g_zone_list := []\<rparr>"

text \<open>The zones \<open>ar_osal_init\<close> creates without an \<open>mmz=\<close> parameter; \<open>dt\<close> is the reserved-memory node.\<close>

definition anon_zone_init :: "osal \<Rightarrow> bool \<Rightarrow> (u64 \<times> u64) option \<Rightarrow> nat option \<Rightarrow> nat option \<Rightarrow> osal" where
  "anon_zone_init os anony dt kz1 kz2 =
     (if anony \<and> zone_find_by_name os (Some ''anonymous'') = None
      then let (os1, z) = (case dt of
                  None \<Rightarrow> (os, None)
                | Some (base, sz) \<Rightarrow> hil_mmz_create os (Some ''anonymous'') 0 base sz kz1)
           in if z = None then fst (hil_mmz_create os1 (Some ''anonymous'') 0 0x29200000 0x06e00000 kz2) else os1
      else os)"

end
