(* ===== verification/Block_Allocator.thy ===== *)
theory Block_Allocator
  imports Kernel_Base
begin

text \<open>
  The interface between a client of physically contiguous blocks and the allocator that
  provides them: the two functions \<open>modules/ar_vb.c\<close> calls, and the laws its pools rely on.
  \<open>Mmz_Safety\<close> interprets the locale on the MMZ allocator; \<open>Vb_Pool\<close> uses it.
\<close>

text \<open>\<open>op_alloc s kz name size align\<close> gives the new block's pointer and physical address, where
  \<open>kz\<close> is the pointer \<open>kzalloc\<close> would return.\<close>

record 's mmb_ops =
  op_alloc :: "'s \<Rightarrow> nat option \<Rightarrow> string \<Rightarrow> u64 \<Rightarrow> u64 \<Rightarrow> 's \<times> (nat \<times> u64) option"
  op_free :: "'s \<Rightarrow> nat \<Rightarrow> 's"

text \<open>A live block is its pointer, its first byte and the byte after its last.\<close>

type_synonym live_block = "nat \<times> nat \<times> nat"

locale block_allocator =
  fixes ops :: "'s mmb_ops" and good :: "'s \<Rightarrow> bool" and live :: "'s \<Rightarrow> live_block set"
  assumes live_apart: "good s \<Longrightarrow> (p, a, b) \<in> live s \<Longrightarrow> (q, c, d) \<in> live s \<Longrightarrow> p \<noteq> q \<Longrightarrow> b \<le> c \<or> d \<le> a"
    and live_range: "good s \<Longrightarrow> (p, a, b) \<in> live s \<Longrightarrow> a < b \<and> b < 2 ^ 64"
    and alloc_fail: "good s \<Longrightarrow> op_alloc ops s kz n sz al = (s', None) \<Longrightarrow> good s' \<and> live s' = live s"
    and alloc_new: "good s \<Longrightarrow> (\<And>p. kz = Some p \<Longrightarrow> p \<notin> fst ` live s) \<Longrightarrow>
      op_alloc ops s kz n sz al = (s', Some (p, phys)) \<Longrightarrow>
      good s' \<and> p \<notin> fst ` live s \<and> (\<exists>e. unat phys + unat sz \<le> e \<and> live s' = insert (p, unat phys, e) (live s))"
    and free_live: "good s \<Longrightarrow> good (op_free ops s p) \<and> live (op_free ops s p) = {x \<in> live s. fst x \<noteq> p}"

end
