(* ===== verification/Mmz_Safety.thy ===== *)
theory Mmz_Safety
  imports Mmz_Osal Block_Allocator "HOL-Library.Multiset"
begin

text \<open>
  The invariant of the MMZ state, its preservation by every operation of \<open>modules/ar_osal.c\<close>
  (a step relation with rule induction over the reachable states), and the safety of the
  user interface: lookups return the containing block, a mapped block survives every
  \<open>ioctl\<close>, and a mapping stays inside its zone.
\<close>

section \<open>The invariant\<close>

definition block_ok :: "nat \<Rightarrow> mmb \<Rightarrow> bool" where
  "block_ok zp b \<longleftrightarrow> mmb_zone b = zp \<and> 0 \<le> user_kref b \<and> 0 \<le> map_kref b \<and>
     (mmb_kvirt b \<noteq> None \<longleftrightarrow> 0 < map_kref b)"

definition osal_ok :: "osal \<Rightarrow> bool" where
  "osal_ok os \<longleftrightarrow> (\<forall>z\<in>set (g_zone_list os). zone_ok z \<and> (\<forall>b\<in>set (z_mmbs z). block_ok (z_ptr z) b)) \<and>
     distinct (map z_ptr (g_zone_list os)) \<and> distinct (map mmb_ptr (all_blocks os))"

lemma all_blocks_iff: "b \<in> set (all_blocks os) \<longleftrightarrow> (\<exists>z\<in>set (g_zone_list os). b \<in> set (z_mmbs z))"
  by (auto simp: all_blocks_def)

lemma all_blocks_maps [simp]: "all_blocks (os\<lparr>g_user_maps := ms\<rparr>) = all_blocks os"
  by (simp add: all_blocks_def)

lemma osal_ok_maps [simp]: "osal_ok (os\<lparr>g_user_maps := ms\<rparr>) \<longleftrightarrow> osal_ok os"
  by (simp add: osal_ok_def)

text \<open>Updates that keep a block's place.\<close>

definition keeps_place :: "(mmb \<Rightarrow> mmb) \<Rightarrow> bool" where
  "keeps_place f \<longleftrightarrow> (\<forall>b. mmb_ptr (f b) = mmb_ptr b \<and> mmb_phys (f b) = mmb_phys b \<and>
     mmb_size (f b) = mmb_size b \<and> (\<forall>zp. block_ok zp b \<longrightarrow> block_ok zp (f b)))"

lemma keeps_placeI:
  "(\<And>b. mmb_ptr (f b) = mmb_ptr b \<and> mmb_phys (f b) = mmb_phys b \<and> mmb_size (f b) = mmb_size b) \<Longrightarrow>
    (\<And>b zp. block_ok zp b \<Longrightarrow> block_ok zp (f b)) \<Longrightarrow> keeps_place f"
  by (simp add: keeps_place_def)

lemma all_blocks_upd:
  "all_blocks (upd_block p f os) = map (\<lambda>b. if mmb_ptr b = p then f b else b) (all_blocks os)"
  by (simp add: all_blocks_def upd_block_def map_concat comp_def)

lemma all_blocks_del: "all_blocks (del_block p os) = filter (\<lambda>b. mmb_ptr b \<noteq> p) (all_blocks os)"
  by (simp add: all_blocks_def del_block_def filter_concat comp_def)

lemma zone_ok_map:
  assumes "zone_ok z" "\<And>b. mmb_phys (f b) = mmb_phys b \<and> mmb_size (f b) = mmb_size b"
  shows "zone_ok (z\<lparr>z_mmbs := map f (z_mmbs z)\<rparr>)"
  using assms by (simp add: zone_ok_def blocks_ok_def sorted_wrt_map list_all_iff mmb_start_def mmb_end_def)

lemma upd_block_cong:
  assumes "\<And>c. c \<in> set (all_blocks os) \<Longrightarrow> mmb_ptr c = p \<Longrightarrow> f c = g c"
  shows "upd_block p f os = upd_block p g os"
  unfolding upd_block_def
proof (rule arg_cong [where f = "\<lambda>zs. os\<lparr>g_zone_list := zs\<rparr>"], rule map_cong [OF refl])
  fix z assume "z \<in> set (g_zone_list os)"
  then have "map (\<lambda>b. if mmb_ptr b = p then f b else b) (z_mmbs z) = map (\<lambda>b. if mmb_ptr b = p then g b else b) (z_mmbs z)"
    using assms by (intro map_cong) (auto simp: all_blocks_iff)
  then show "z\<lparr>z_mmbs := map (\<lambda>b. if mmb_ptr b = p then f b else b) (z_mmbs z)\<rparr> =
      z\<lparr>z_mmbs := map (\<lambda>b. if mmb_ptr b = p then g b else b) (z_mmbs z)\<rparr>" by simp
qed

lemma upd_block_ok:
  assumes "osal_ok os" "keeps_place f" shows "osal_ok (upd_block p f os)"
proof -
  let ?g = "\<lambda>b. if mmb_ptr b = p then f b else b"
  have g: "mmb_phys (?g b) = mmb_phys b \<and> mmb_size (?g b) = mmb_size b" "mmb_ptr (?g b) = mmb_ptr b"
    "block_ok zp b \<Longrightarrow> block_ok zp (?g b)" for b zp
    using assms(2) by (auto simp: keeps_place_def)
  have "map mmb_ptr (all_blocks (upd_block p f os)) = map mmb_ptr (all_blocks os)"
    unfolding all_blocks_upd by (simp add: g(2) [simplified])
  moreover have "map z_ptr (g_zone_list (upd_block p f os)) = map z_ptr (g_zone_list os)"
    by (simp add: upd_block_def)
  moreover have "zone_ok z \<and> (\<forall>b\<in>set (z_mmbs z). block_ok (z_ptr z) b)"
    if z: "z \<in> set (g_zone_list (upd_block p f os))" for z
  proof -
    obtain y where y: "y \<in> set (g_zone_list os)" "z = y\<lparr>z_mmbs := map ?g (z_mmbs y)\<rparr>"
      using z by (auto simp: upd_block_def)
    with assms(1) have "zone_ok y" "\<forall>b\<in>set (z_mmbs y). block_ok (z_ptr y) b" by (auto simp: osal_ok_def)
    moreover from this have "block_ok (z_ptr y) (?g b)" if "b \<in> set (z_mmbs y)" for b
      using that g(3) by blast
    then have "\<forall>b\<in>set (map ?g (z_mmbs y)). block_ok (z_ptr y) b" by (simp only: set_map) blast
    ultimately show ?thesis unfolding y(2) using zone_ok_map [of y ?g, OF _ g(1)] by (simp del: set_map)
  qed
  ultimately show ?thesis using assms(1) by (simp add: osal_ok_def)
qed

lemma del_block_ok:
  assumes "osal_ok os" shows "osal_ok (del_block p os)"
proof -
  have "distinct (map mmb_ptr (all_blocks (del_block p os)))"
    using assms by (simp add: all_blocks_del osal_ok_def distinct_map_filter)
  moreover have "map z_ptr (g_zone_list (del_block p os)) = map z_ptr (g_zone_list os)"
    by (simp add: del_block_def)
  ultimately show ?thesis
    using assms by (auto simp: osal_ok_def del_block_def zone_ok_def blocks_ok_filter comp_def)
qed

lemma keeps_place_updates:
  "keeps_place (\<lambda>b. b\<lparr>user_kref := user_kref b + 1\<rparr>)"
  "keeps_place (\<lambda>b. b\<lparr>refcount := refcount b + 1\<rparr>)"
  "keeps_place (\<lambda>b. b\<lparr>refcount := refcount b - 1\<rparr>)"
  "keeps_place (\<lambda>b. b\<lparr>mmb_kvirt := Some k, map_kref := map_kref b + 1\<rparr>)"
  "keeps_place unmap_block"
  by (intro keeps_placeI; auto simp: block_ok_def unmap_block_def)+

lemma find_SomeD: "find P xs = Some x \<Longrightarrow> x \<in> set xs \<and> P x"
  by (auto simp: find_Some_iff)

lemma find_None_iff2: "find P xs = None \<longleftrightarrow> (\<forall>x\<in>set xs. \<not> P x)"
  by (auto simp: find_None_iff)

lemma getby_in:
  assumes "getby_phys_2 os phys = Some (z, b)"
  shows "z \<in> set (g_zone_list os)" "b \<in> set (z_mmbs z)" "block_has phys b" "b \<in> set (all_blocks os)"
  using find_SomeD [OF assms [unfolded getby_phys_2_def]] by (auto simp: all_blocks_iff)

lemma getby_None: "getby_phys_2 os phys = None \<longleftrightarrow> (\<forall>b\<in>set (all_blocks os). \<not> block_has phys b)"
  by (auto simp: getby_phys_2_def find_None_iff2 all_blocks_iff)

lemma map_block_ok:
  assumes "osal_ok os" "b \<in> set (all_blocks os)"
  shows "osal_ok (fst (map_block_locked os b remap))"
proof -
  show ?thesis
  proof (cases "mmb_kvirt b")
    case None
    then show ?thesis using assms(1) keeps_place_updates(4)
      by (auto simp: map_block_locked_def upd_block_ok split: option.split)
  next
    case (Some k)
    define f where "f = (\<lambda>b :: mmb. if mmb_kvirt b = None then b else b\<lparr>map_kref := map_kref b + 1\<rparr>)"
    have f: "keeps_place f" unfolding f_def by (intro keeps_placeI) (auto simp: block_ok_def)
    have d: "distinct (map mmb_ptr (all_blocks os))" using assms(1) by (simp add: osal_ok_def)
    have "upd_block (mmb_ptr b) (\<lambda>b. b\<lparr>map_kref := map_kref b + 1\<rparr>) os = upd_block (mmb_ptr b) f os"
    proof (rule upd_block_cong)
      fix c assume c: "c \<in> set (all_blocks os)" "mmb_ptr c = mmb_ptr b"
      then have "c = b" using d assms(2) by (auto simp: distinct_map dest: inj_onD)
      then show "c\<lparr>map_kref := map_kref c + 1\<rparr> = f c" using Some by (simp add: f_def)
    qed
    then show ?thesis using Some assms(1) f by (simp add: map_block_locked_def upd_block_ok)
  qed
qed

section \<open>Every operation keeps the invariant\<close>

lemma zone_find_in: "zone_find_by_name os name = Some z \<Longrightarrow> z \<in> set (g_zone_list os)"
  by (auto simp: zone_find_by_name_def dest!: find_SomeD split: option.splits list.splits)

lemma hil_mmz_create_ok:
  assumes "osal_ok os" "unat start + 2 * unat sz \<le> 2 ^ 64"
    "\<And>p. kz = Some p \<Longrightarrow> p \<notin> z_ptr ` set (g_zone_list os)"
  shows "osal_ok (fst (hil_mmz_create os name gf start sz kz))"
  using assms by (auto simp: hil_mmz_create_def osal_ok_def zone_ok_def all_blocks_def split: option.split)

lemma hil_mmz_destroy_ok: "osal_ok os \<Longrightarrow> hil_mmz_destroy os z = Inr os' \<Longrightarrow> osal_ok os'"
proof (cases z)
  case (Some p)
  assume ok: "osal_ok os" and d: "hil_mmz_destroy os z = Inr os'"
  let ?zs = "filter (\<lambda>z. z_ptr z \<noteq> p) (g_zone_list os)"
  from d Some have os': "os' = os\<lparr>g_zone_list := ?zs\<rparr>"
    and e: "\<forall>z\<in>set (g_zone_list os). z_ptr z = p \<longrightarrow> z_mmbs z = []"
    by (auto simp: hil_mmz_destroy_def split: if_splits)
  have "concat (map z_mmbs (filter (\<lambda>z. z_ptr z \<noteq> p) zs)) = concat (map z_mmbs zs)"
    if "\<forall>z\<in>set zs. z_ptr z = p \<longrightarrow> z_mmbs z = []" for zs
    using that by (induction zs) auto
  then have "concat (map z_mmbs ?zs) = concat (map z_mmbs (g_zone_list os))" using e .
  then have "all_blocks os' = all_blocks os" by (simp add: all_blocks_def os')
  then show ?thesis using ok by (auto simp: osal_ok_def os' distinct_map_filter)
qed (auto simp: hil_mmz_destroy_def)

lemma all_blocks_replace:
  assumes "distinct (map z_ptr zs)" "z \<in> set zs" "z_ptr z' = z_ptr z"
    "mset (z_mmbs z') = add_mset nb (mset (z_mmbs z))"
  shows "mset (concat (map z_mmbs (map (\<lambda>y. if z_ptr y = z_ptr z then z' else y) zs))) =
    add_mset nb (mset (concat (map z_mmbs zs)))"
  using assms
proof (induction zs)
  case (Cons y ys)
  show ?case
  proof (cases "z = y")
    case True
    then have "map (\<lambda>y. if z_ptr y = z_ptr z then z' else y) ys = ys"
      using Cons.prems(1) by (intro map_idI) (auto simp: image_iff)
    then show ?thesis using True Cons.prems(4) by simp
  next
    case False
    then have "z_ptr y \<noteq> z_ptr z" "z \<in> set ys" using Cons.prems(1,2) by (auto simp: image_iff)
    then show ?thesis using Cons by simp
  qed
qed simp

lemma mset_insert_mmb: "mset (insert_mmb nb bs) = add_mset nb (mset bs)"
  by (induction bs) auto

lemma hil_mmb_alloc_cases:
  assumes ok: "osal_ok os" and a: "hil_mmb_alloc os name sz al gf zn kz = (os', r)"
  obtains (fail) "r = None" "os' = os"
  | (new) z nb rsz ral where "r = Some nb" "zone_find_by_name os zn = Some z" "z \<in> set (g_zone_list os)"
      "zone_request z sz al = Some (rsz, ral)"
      "zone_alloc_locked z name sz al kz = Some (z\<lparr>z_mmbs := insert_mmb nb (z_mmbs z)\<rparr>, nb)"
      "kz = Some (mmb_ptr nb)" "zone_ok (z\<lparr>z_mmbs := insert_mmb nb (z_mmbs z)\<rparr>)" "block_ok (z_ptr z) nb"
      "mmb_size nb = rsz" "free_at (z_mmbs z) (unat rsz) (mmb_start nb)"
      "mset (all_blocks os') = add_mset nb (mset (all_blocks os))"
      "os' = os\<lparr>g_zone_list := map (\<lambda>y. if z_ptr y = z_ptr z then z\<lparr>z_mmbs := insert_mmb nb (z_mmbs z)\<rparr> else y) (g_zone_list os)\<rparr>"
proof (cases "r")
  case None
  then show ?thesis using a fail by (auto simp: hil_mmb_alloc_def split: option.splits)
next
  case (Some nb)
  with a obtain z z' where z: "zone_find_by_name os zn = Some z"
    and al: "zone_alloc_locked z name sz al kz = Some (z', nb)"
    and os': "os' = os\<lparr>g_zone_list := map (\<lambda>y. if z_ptr y = z_ptr z then z' else y) (g_zone_list os)\<rparr>"
    by (auto simp: hil_mmb_alloc_def split: option.splits)
  note zin = zone_find_in [OF z]
  have zok: "zone_ok z" using ok zin by (auto simp: osal_ok_def)
  from al obtain rsz ral where r: "zone_request z sz al = Some (rsz, ral)"
    by (auto simp: zone_alloc_locked_def split: option.splits)
  note S = zone_alloc_spec [where name = name and kz = kz, OF zok r, unfolded al option.case prod.case]
  have z': "z' = z\<lparr>z_mmbs := insert_mmb nb (z_mmbs z)\<rparr>" using S by blast
  have kv: "mmb_kvirt nb = None"
    using al r by (auto simp: zone_alloc_locked_def Let_def split: option.splits)
  have bok: "block_ok (z_ptr z) nb" using S kv by (simp add: block_ok_def)
  have d: "distinct (map z_ptr (g_zone_list os))" using ok by (simp add: osal_ok_def)
  have "mset (all_blocks os') = add_mset nb (mset (all_blocks os))"
    using all_blocks_replace [OF d zin, of z' nb] unfolding all_blocks_def os' z' by (simp add: mset_insert_mmb)
  then show ?thesis
    using Some z zin r al [unfolded z'] S bok os' [unfolded z'] unfolding z' by (intro new [of nb z rsz ral]) auto
qed

lemma hil_mmb_alloc_ok:
  assumes ok: "osal_ok os" and fresh: "\<And>p. kz = Some p \<Longrightarrow> p \<notin> mmb_ptr ` set (all_blocks os)"
  shows "osal_ok (fst (hil_mmb_alloc os name sz al gf zn kz))"
proof -
  obtain os' r where a: "hil_mmb_alloc os name sz al gf zn kz = (os', r)" by fastforce
  show ?thesis
  proof (cases rule: hil_mmb_alloc_cases [OF ok a, case_names fail new])
    case fail
    then show ?thesis using a ok by simp
  next
    case (new z nb rsz ral)
    have "distinct (map mmb_ptr (all_blocks os')) \<longleftrightarrow> distinct (mmb_ptr nb # map mmb_ptr (all_blocks os))"
      by (rule mset_eq_imp_distinct_iff) (simp add: new(11))
    moreover have "distinct (mmb_ptr nb # map mmb_ptr (all_blocks os))"
      using fresh [OF new(6)] assms(1) by (simp add: osal_ok_def)
    ultimately have "distinct (map mmb_ptr (all_blocks os'))" by simp
    moreover have "map z_ptr (g_zone_list os') = map z_ptr (g_zone_list os)"
      by (simp add: new(12))
    moreover have "zone_ok y \<and> (\<forall>b\<in>set (z_mmbs y). block_ok (z_ptr y) b)" if y: "y \<in> set (g_zone_list os')" for y
    proof -
      have old: "zone_ok x \<and> (\<forall>b\<in>set (z_mmbs x). block_ok (z_ptr x) b)" if "x \<in> set (g_zone_list os)" for x
        using assms(1) that by (simp add: osal_ok_def)
      consider "y \<in> set (g_zone_list os)" | "y = z\<lparr>z_mmbs := insert_mmb nb (z_mmbs z)\<rparr>"
        using y by (auto simp: new(12))
      then show ?thesis
      proof cases
        case 2
        then show ?thesis using new(7,8) old [OF new(3)] by simp
      qed (rule old)
    qed
    ultimately have "osal_ok os'" using assms(1) by (simp add: osal_ok_def)
    then show ?thesis by (simp add: a)
  qed
qed

lemma user_map_add_ok: "osal_ok os \<Longrightarrow> ar_mmz_user_map_add os u p s k = Inr os' \<Longrightarrow> osal_ok os'"
  by (auto simp: ar_mmz_user_map_add_def Let_def upd_block_ok keeps_place_updates split: if_splits option.splits)

lemma user_map_del_ok: 
  assumes ok: "osal_ok os" shows "osal_ok (ar_mmz_user_map_del os u)"
proof -
  have "osal_ok (upd_block p (\<lambda>b. b\<lparr>user_kref := user_kref b - 1\<rparr>) os)"
    if g: "getby_phys_2 os ph = Some (z, b)" "0 < user_kref b" "p = mmb_ptr b" for p ph z b
  proof -
    define f where "f = (\<lambda>b :: mmb. if 0 < user_kref b then b\<lparr>user_kref := user_kref b - 1\<rparr> else b)"
    have f: "keeps_place f" unfolding f_def by (intro keeps_placeI) (auto simp: block_ok_def)
    have d: "distinct (map mmb_ptr (all_blocks os))" using ok by (simp add: osal_ok_def)
    have "upd_block p (\<lambda>b. b\<lparr>user_kref := user_kref b - 1\<rparr>) os = upd_block p f os"
    proof (rule upd_block_cong)
      fix c assume "c \<in> set (all_blocks os)" "mmb_ptr c = p"
      then have "c = b" using d g getby_in(4) [OF g(1)] by (auto simp: distinct_map dest: inj_onD)
      then show "c\<lparr>user_kref := user_kref c - 1\<rparr> = f c" using g by (simp add: f_def)
    qed
    then show ?thesis using ok f by (simp add: upd_block_ok)
  qed
  then show ?thesis using ok
    by (auto simp: ar_mmz_user_map_del_def Let_def split: option.split prod.split)
qed

lemma mmap_wc_ok: "osal_ok os \<Longrightarrow> ar_mmz_mmap_wc os s e off r k = Inr os' \<Longrightarrow> osal_ok os'"
  by (auto simp: ar_mmz_mmap_wc_def Let_def user_map_add_ok split: if_splits sum.splits)

text \<open>
  The documented behaviour of the two memory-management calls: \<open>vm_mmap\<close> either fails without
  calling the driver, or calls the driver's mmap hook once and then succeeds; \<open>vm_munmap\<close>
  calls the close hook of each mapping it tears down.
\<close>

definition mm_calls_back :: "userdev_env \<Rightarrow> bool" where
  "mm_calls_back env \<longleftrightarrow>
     (\<forall>os sz phys. snd (vm_mmap env os sz phys) = os \<or>
        (\<exists>s e off r k. ar_mmz_mmap_wc os s e off r k = Inr (snd (vm_mmap env os sz phys)))) \<and>
     (\<forall>os u sz. \<exists>us. vm_munmap env os u sz = fold (\<lambda>u s. ar_mmz_user_map_del s u) us os)"

lemma fold_del_ok: "osal_ok os \<Longrightarrow> osal_ok (fold (\<lambda>u s. ar_mmz_user_map_del s u) us os)"
  by (induction us arbitrary: os) (simp_all add: user_map_del_ok)

text \<open>The states a request can leave behind, as updates of the state before it.\<close>

inductive osal_update :: "osal \<Rightarrow> osal \<Rightarrow> bool" where
  same: "osal_update os os"
| alloc: "(\<And>p. kz = Some p \<Longrightarrow> p \<notin> mmb_ptr ` set (all_blocks os)) \<Longrightarrow>
    osal_update os (fst (hil_mmb_alloc os name sz al gf zn kz))"
| free_unmapped: "b \<in> set (all_blocks os) \<Longrightarrow> user_kref b = 0 \<Longrightarrow> map_kref b = 0 \<Longrightarrow>
    osal_update os (del_block (mmb_ptr b) os)"
| ref: "osal_update os (hil_mmb_get os p)"
| unref: "osal_update os (hil_mmb_put os p)"
| mmap: "ar_mmz_mmap_wc os s e off r k = Inr os' \<Longrightarrow> osal_update os os'"
| unmap: "osal_update os (fold (\<lambda>u s. ar_mmz_user_map_del s u) us os)"

lemma osal_update_ok: "osal_update os os' \<Longrightarrow> osal_ok os \<Longrightarrow> osal_ok os'"
  by (induction rule: osal_update.induct)
     (auto intro: hil_mmb_alloc_ok del_block_ok upd_block_ok keeps_place_updates mmap_wc_ok fold_del_ok
       simp: hil_mmb_get_def hil_mmb_put_def)

lemma handle_m_cmd_update:
  assumes ok: "osal_ok os" and env: "mm_calls_back env"
    and fresh: "\<And>p. env_kz env = Some p \<Longrightarrow> p \<notin> mmb_ptr ` set (all_blocks os)"
    and h: "handle_m_cmd env os nr mi = (r, os')"
  shows "osal_update os os'"
proof -
  consider (alloc) "nr = 10 \<or> nr = 13" | (free) "nr = 12" | (remap) "nr = 20 \<or> nr = 21" | (unmap) "nr = 22"
    | (query) "nr \<notin> {10, 12, 13, 20, 21, 22}" by auto
  then show ?thesis
  proof cases
    case alloc
    then have "os' = fst (hil_mmb_alloc os (Some (mi_mmb_name mi)) (mi_size mi) (mi_align mi) (mi_gfp mi)
        (Some (mi_mmz_name mi)) (env_kz env))"
      using h by (auto simp: handle_m_cmd_def split: prod.splits option.splits)
    then show ?thesis using fresh by (simp add: osal_update.alloc)
  next
    case free
    show ?thesis
    proof (cases "getby_phys_2 os (mi_phys_addr mi)")
      case None
      then show ?thesis using h free by (auto simp: handle_m_cmd_def intro: osal_update.intros)
    next
      case (Some zb)
      then obtain z b where zb: "getby_phys_2 os (mi_phys_addr mi) = Some (z, b)" by (cases zb) simp
      have k: "0 \<le> user_kref b" "0 \<le> map_kref b"
        using getby_in [OF zb] ok by (auto simp: osal_ok_def block_ok_def)
      show ?thesis
        using h free zb k osal_update.free_unmapped [OF getby_in(4) [OF zb]]
        by (auto simp: handle_m_cmd_def split: if_splits intro: osal_update.same)
    qed
  next
    case remap
    then have "os' = snd (vm_mmap env os (mi_size mi) (mi_phys_addr mi))"
      using h by (auto simp: handle_m_cmd_def do_user_remap_def split: prod.splits sum.splits)
    then show ?thesis using env unfolding mm_calls_back_def by (metis osal_update.mmap osal_update.same)
  next
    case unmap
    obtain us where us: "vm_munmap env os (mi_mapped_addr mi) (mi_size mi) = fold (\<lambda>u s. ar_mmz_user_map_del s u) us os"
      using env unfolding mm_calls_back_def by blast
    have "ar_mmz_user_map_del (fold (\<lambda>u s. ar_mmz_user_map_del s u) us os) (mi_mapped_addr mi) =
        fold (\<lambda>u s. ar_mmz_user_map_del s u) (us @ [mi_mapped_addr mi]) os" by simp
    then have "osal_update os (ar_mmz_user_map_del (fold (\<lambda>u s. ar_mmz_user_map_del s u) us os) (mi_mapped_addr mi))"
      by (metis osal_update.unmap)
    then show ?thesis
      using h unmap us by (auto simp: handle_m_cmd_def split: if_splits intro: osal_update.same)
  next
    case query
    then have "os' = os"
      using h by (auto simp: handle_m_cmd_def Let_def split: if_splits option.splits prod.splits)
    then show ?thesis by (simp add: osal_update.same)
  qed
qed

lemma handle_m_update:
  assumes "osal_ok os" "mm_calls_back env" "\<And>p. env_kz env = Some p \<Longrightarrow> p \<notin> mmb_ptr ` set (all_blocks os)"
    and "handle_m env os nr sz = (r, os')"
  shows "osal_update os os'"
  using assms(4) handle_m_cmd_update [OF assms(1-3)]
  by (auto simp: handle_m_def Let_def split: if_splits option.splits prod.splits sum.splits intro: osal_update.same)

lemma handle_r_update:
  assumes ok: "osal_ok os" and h: "handle_r os nr handle = (r, os')"
  shows "osal_update os os'"
proof (cases "getby_phys_2 os handle")
  case None
  then show ?thesis using h by (auto simp: handle_r_def intro: osal_update.same)
next
  case (Some zb)
  then obtain z b where zb: "getby_phys_2 os handle = Some (z, b)" by (cases zb) simp
  show ?thesis
    using h zb osal_update.free_unmapped [OF getby_in(4) [OF zb]]
    by (auto simp: handle_r_def split: if_splits intro: osal_update.intros)
qed

lemma ioctl_update:
  assumes "osal_ok os" "mm_calls_back env" "\<And>p. env_kz env = Some p \<Longrightarrow> p \<notin> mmb_ptr ` set (all_blocks os)"
    and "mmz_userdev_ioctl env os ty nr sz arg = (r, os')"
  shows "osal_update os os'"
  using assms(4) handle_m_update [OF assms(1-3)] handle_r_update [OF assms(1)]
  by (auto simp: mmz_userdev_ioctl_def split: ioc_magic.splits prod.splits sum.splits intro: osal_update.same)

text \<open>Steps of the whole module: the exported kernel functions and the user requests.\<close>

inductive osal_step :: "osal \<Rightarrow> osal \<Rightarrow> bool" where
  create: "unat start + 2 * unat sz \<le> 2 ^ 64 \<Longrightarrow> (\<And>p. kz = Some p \<Longrightarrow> p \<notin> z_ptr ` set (g_zone_list os)) \<Longrightarrow>
    osal_step os (fst (hil_mmz_create os name gf start sz kz))"
| destroy: "hil_mmz_destroy os z = Inr os' \<Longrightarrow> osal_step os os'"
| alloc: "(\<And>p. kz = Some p \<Longrightarrow> p \<notin> mmb_ptr ` set (all_blocks os)) \<Longrightarrow>
    osal_step os (fst (hil_mmb_alloc os name sz al gf zn kz))"
| free: "hil_mmb_free os b = Inr os' \<Longrightarrow> osal_step os os'"
| map2kern: "osal_step os (fst (hil_mmb_map2kern os (the_block os p) remap))"
| unmap: "hil_mmb_unmap os b = Inr os' \<Longrightarrow> osal_step os os'"
| map_phys: "osal_step os (fst (hil_mmf_map2kern_cache os phys remap))"
| unmap_phys: "osal_step os (hil_mmf_unmap os phys)"
| get: "osal_step os (hil_mmb_get os p)"
| put: "osal_step os (hil_mmb_put os p)"
| mmap: "ar_mmz_mmap_wc os s e off r k = Inr os' \<Longrightarrow> osal_step os os'"
| close: "osal_step os (ar_mmz_user_map_del os u)"
| ioctl: "mm_calls_back env \<Longrightarrow> (\<And>p. env_kz env = Some p \<Longrightarrow> p \<notin> mmb_ptr ` set (all_blocks os)) \<Longrightarrow>
    osal_step os (snd (mmz_userdev_ioctl env os ty nr sz arg))"
| teardown: "osal_step os (ar_osal_teardown os)"

lemma the_block_in: "the_block os p = Some b \<Longrightarrow> b \<in> set (all_blocks os)"
  by (simp add: the_block_def find_SomeD)

lemma osal_step_ok: "osal_step os os' \<Longrightarrow> osal_ok os \<Longrightarrow> osal_ok os'"
proof (induction rule: osal_step.induct)
  case (create start sz kz os name gf)
  then show ?case by (intro hil_mmz_create_ok) auto
next
  case (destroy os z os')
  then show ?case by (rule hil_mmz_destroy_ok [rotated])
next
  case (alloc kz os name sz al gf zn)
  then show ?case by (intro hil_mmb_alloc_ok) auto
next
  case (free os b os')
  then show ?case by (auto simp: hil_mmb_free_def del_block_ok split: option.splits)
next
  case (map2kern os p remap)
  then show ?case
    by (auto simp: hil_mmb_map2kern_def map_block_ok the_block_in split: option.split)
next
  case (unmap os b os')
  then show ?case by (auto simp: hil_mmb_unmap_def upd_block_ok keeps_place_updates split: option.splits)
next
  case (map_phys os phys remap)
  have "fst (hil_mmf_map2kern_cache os phys remap) =
      (case getby_phys_2 os phys of None \<Rightarrow> os | Some (z, b) \<Rightarrow> fst (map_block_locked os b remap))"
    by (auto simp: hil_mmf_map2kern_cache_def split: option.split prod.split)
  then show ?case using map_phys getby_in(4) by (auto intro!: map_block_ok split: option.split)
next
  case (unmap_phys os phys)
  then show ?case by (auto simp: hil_mmf_unmap_def upd_block_ok keeps_place_updates split: option.split)
next
  case (get os p)
  then show ?case by (simp add: hil_mmb_get_def upd_block_ok keeps_place_updates)
next
  case (put os p)
  then show ?case by (simp add: hil_mmb_put_def upd_block_ok keeps_place_updates)
next
  case (mmap os s e off r k os')
  then show ?case by (blast intro: mmap_wc_ok)
next
  case (close os u)
  then show ?case by (rule user_map_del_ok)
next
  case (ioctl env os ty nr sz arg)
  then show ?case using osal_update_ok ioctl_update by (metis prod.collapse)
next
  case (teardown os)
  then show ?case by (simp add: ar_osal_teardown_def osal_ok_def all_blocks_def)
qed

definition osal_init :: osal where
  "osal_init = \<lparr>g_zone_list = [], g_user_maps = []\<rparr>"

lemma osal_reachable_ok: "osal_step\<^sup>*\<^sup>* osal_init os \<Longrightarrow> osal_ok os"
proof (induction rule: rtranclp_induct)
  case base
  show ?case by (simp add: osal_init_def osal_ok_def all_blocks_def)
next
  case (step os os')
  then show ?case by (blast intro: osal_step_ok)
qed

section \<open>Lookups, mappings and mapped blocks\<close>

definition same_place :: "mmb \<Rightarrow> mmb \<Rightarrow> bool" where
  "same_place b c \<longleftrightarrow> mmb_ptr c = mmb_ptr b \<and> mmb_phys c = mmb_phys b \<and> mmb_size c = mmb_size b"

definition stays :: "mmb \<Rightarrow> osal \<Rightarrow> bool" where
  "stays b os \<longleftrightarrow> (\<exists>c\<in>set (all_blocks os). same_place b c)"

lemma stays_maps [simp]: "stays b (os\<lparr>g_user_maps := ms\<rparr>) = stays b os"
  by (simp add: stays_def)

lemma stays_upd:
  assumes "stays b os" and f: "\<And>c. same_place c (f c)"
  shows "stays b (upd_block p f os)"
proof -
  obtain c where c: "c \<in> set (all_blocks os)" "same_place b c" using assms(1) by (auto simp: stays_def)
  let ?c = "if mmb_ptr c = p then f c else c"
  have "?c \<in> set (all_blocks (upd_block p f os))" using c(1) by (simp only: all_blocks_upd set_map image_eqI)
  moreover have "same_place b ?c" using c(2) f [of c] by (simp add: same_place_def)
  ultimately show ?thesis unfolding stays_def by blast
qed

lemma stays_map_add: "stays b os \<Longrightarrow> ar_mmz_user_map_add os u p s k = Inr os' \<Longrightarrow> stays b os'"
  by (auto simp: ar_mmz_user_map_add_def Let_def stays_upd same_place_def split: if_splits option.splits)

lemma stays_map_del: "stays b os \<Longrightarrow> stays b (ar_mmz_user_map_del os u)"
  by (auto simp: ar_mmz_user_map_del_def Let_def stays_upd same_place_def split: option.split prod.split)

lemma stays_fold: "stays b os \<Longrightarrow> stays b (fold (\<lambda>u s. ar_mmz_user_map_del s u) us os)"
  by (induction us arbitrary: os) (simp_all add: stays_map_del)

lemma mapped_stays:
  assumes u: "osal_update os os'" and ok: "osal_ok os" and b: "b \<in> set (all_blocks os)"
    and m: "0 < user_kref b \<or> 0 < map_kref b"
  shows "stays b os'"
proof -
  have s: "stays b os" using b by (auto simp: stays_def same_place_def)
  show ?thesis
    using u
  proof cases
    case same
    then show ?thesis using s by simp
  next
    case (alloc kz name sz al gf zn)
    obtain os2 r where a: "hil_mmb_alloc os name sz al gf zn kz = (os2, r)" by fastforce
    show ?thesis
    proof (cases rule: hil_mmb_alloc_cases [OF ok a, case_names fail new])
      case fail
      then show ?thesis using s a alloc by simp
    next
      case (new z nb rsz ral)
      have "set (all_blocks os2) = insert nb (set (all_blocks os))"
        using arg_cong [OF new(11), of set_mset] by simp
      then show ?thesis using s a alloc by (auto simp: stays_def)
    qed
  next
    case (free_unmapped c)
    have "inj_on mmb_ptr (set (all_blocks os))" using ok by (simp add: osal_ok_def distinct_map)
    then have "mmb_ptr c = mmb_ptr b \<Longrightarrow> c = b" using free_unmapped(2) b by (auto dest: inj_onD)
    then have "mmb_ptr b \<noteq> mmb_ptr c" using free_unmapped(3,4) m by fastforce
    then have "b \<in> set (all_blocks os')" using b by (simp add: free_unmapped(1) all_blocks_del)
    then show ?thesis by (auto simp: stays_def same_place_def)
  next
    case (ref p)
    then show ?thesis using s by (simp add: hil_mmb_get_def stays_upd same_place_def)
  next
    case (unref p)
    then show ?thesis using s by (simp add: hil_mmb_put_def stays_upd same_place_def)
  next
    case (mmap vs e off r k)
    then show ?thesis using s stays_map_add
      by (auto simp: ar_mmz_mmap_wc_def Let_def split: if_splits sum.splits)
  next
    case (unmap us)
    then show ?thesis using s by (simp add: stays_fold)
  qed
qed

lemma block_has_iff:
  assumes "zone_ok z" "b \<in> set (z_mmbs z)"
  shows "block_has phys b \<longleftrightarrow> mmb_start b \<le> unat phys \<and> unat phys < mmb_end b"
proof -
  have e: "mmb_end b \<le> unat (z_base z) + unat (z_size z)" "mmb_start b < mmb_end b"
    using zone_okD(2) [OF assms(1)] assms(2) by (auto simp: blocks_ok_def list_all_iff)
  then have "mmb_end b < 2 ^ 64 \<or> mmb_end b = 2 ^ 64 \<and> unat (z_size z) = 0"
    using zone_okD(1) [OF assms(1)] by auto
  moreover have "0 < unat (z_size z)"
    using e zone_okD(2) [OF assms(1)] assms(2) by (auto simp: blocks_ok_def list_all_iff)
  ultimately have "unat (mmb_phys b + mmb_size b) = mmb_end b"
    by (subst unat_add_small) (auto simp: mmb_end_def)
  then show ?thesis by (simp add: block_has_def word_le_nat_alt word_less_nat_alt mmb_start_def)
qed

lemma blocks_disjoint:
  assumes "blocks_ok lo hi bs" "b \<in> set bs" "c \<in> set bs" "b \<noteq> c"
  shows "mmb_end b \<le> mmb_start c \<or> mmb_end c \<le> mmb_start b"
proof -
  obtain i j where "i < length bs" "j < length bs" "b = bs ! i" "c = bs ! j"
    using assms(2,3) by (auto simp: in_set_conv_nth)
  moreover from this have "i < j \<or> j < i" using assms(4) by (cases i j rule: linorder_cases) auto
  ultimately show ?thesis
    using assms(1) by (auto simp: blocks_ok_def dest: sorted_wrt_nth_less)
qed

lemma mmap_wc_cases:
  assumes ok: "osal_ok os" and m: "ar_mmz_mmap_wc os s e off r k = Inr os'"
  obtains z where "z \<in> set (g_zone_list os)" "mmz_find os (push_bit 12 off) = Some z"
    "push_bit 12 off + (e - s) \<le> z_base z + z_size z" "z_base z \<le> push_bit 12 off" "push_bit 12 off < z_base z + z_size z"
    "drop_bit 12 (push_bit 12 off) = off" "r"
    "k \<Longrightarrow> ar_mmz_user_map_add os s (push_bit 12 off) (e - s) True = Inr os'" "\<not> k \<Longrightarrow> os' = os"
proof -
  from m have c: "drop_bit 12 (push_bit 12 off) = off" "r" "hil_is_phys_in_mmz os (push_bit 12 off) (e - s)"
    and a: "(case ar_mmz_user_map_add os s (push_bit 12 off) (e - s) k of Inl _ \<Rightarrow> Inr os | Inr o' \<Rightarrow> Inr o') =
      (Inr os' :: errno + osal)"
    by (auto simp: ar_mmz_mmap_wc_def Let_def hil_map_mmz_check_phys_def split: if_splits)
  from c(3) obtain z where z: "mmz_find os (push_bit 12 off) = Some z" "push_bit 12 off + (e - s) \<le> z_base z + z_size z"
    by (auto simp: hil_is_phys_in_mmz_def split: option.splits)
  have f: "z \<in> set (g_zone_list os)" "z_base z \<le> push_bit 12 off" "push_bit 12 off < z_base z + z_size z"
    using find_SomeD [OF z(1) [unfolded mmz_find_def]] by auto
  show ?thesis
  proof (rule that [OF f(1) z f(2,3) c(1,2)])
    have "\<exists>o'. ar_mmz_user_map_add os s (push_bit 12 off) (e - s) True = Inr o'"
      by (auto simp: ar_mmz_user_map_add_def Let_def split: option.split)
    then show "k \<Longrightarrow> ar_mmz_user_map_add os s (push_bit 12 off) (e - s) True = Inr os'"
      using a by auto
    show "\<not> k \<Longrightarrow> os' = os" using a by (simp add: ar_mmz_user_map_add_def)
  qed
qed

lemma map_add_registry:
  "ar_mmz_user_map_add os u p s True = Inr os' \<Longrightarrow>
    g_user_maps os' = \<lparr>um_uvaddr = u, um_phys = p, um_size = s\<rparr> # g_user_maps os"
  by (auto simp: ar_mmz_user_map_add_def Let_def upd_block_def split: option.splits)

section \<open>The allocator as a provider of blocks\<close>

text \<open>\<open>hil_mmb_alloc\<close> in the anonymous zone and \<open>hil_mmb_free\<close>, as \<open>ar_vb.c\<close> calls them.\<close>

definition mmz_ops :: "osal mmb_ops" where
  "mmz_ops = \<lparr>op_alloc = (\<lambda>os kz name sz al.
       case hil_mmb_alloc os (Some name) sz al 0 (Some []) kz of
         (os', None) \<Rightarrow> (os', None) | (os', Some b) \<Rightarrow> (os', Some (mmb_ptr b, mmb_phys b))),
     op_free = (\<lambda>os p. case hil_mmb_free os (Some p) of Inl _ \<Rightarrow> os | Inr os' \<Rightarrow> os')\<rparr>"

text \<open>The zones are apart: the module's own zones are disjoint carveouts.\<close>

definition zones_apart :: "osal \<Rightarrow> bool" where
  "zones_apart os \<longleftrightarrow> (\<forall>z\<in>set (g_zone_list os). \<forall>y\<in>set (g_zone_list os). z_ptr z \<noteq> z_ptr y \<longrightarrow>
     unat (z_base z) + unat (z_size z) \<le> unat (z_base y) \<or> unat (z_base y) + unat (z_size y) \<le> unat (z_base z))"

definition zone_ranges :: "osal \<Rightarrow> (nat \<times> u64 \<times> u64) set" where
  "zone_ranges os = (\<lambda>z. (z_ptr z, z_base z, z_size z)) ` set (g_zone_list os)"

lemma zones_apart_ranges:
  "zones_apart os \<longleftrightarrow> (\<forall>(p, b, s)\<in>zone_ranges os. \<forall>(q, c, t)\<in>zone_ranges os. p \<noteq> q \<longrightarrow>
     unat b + unat s \<le> unat c \<or> unat c + unat t \<le> unat b)"
  by (simp add: zones_apart_def zone_ranges_def)

definition mmz_good :: "osal \<Rightarrow> bool" where
  "mmz_good os \<longleftrightarrow> osal_ok os \<and> zones_apart os"

definition mmz_live :: "osal \<Rightarrow> live_block set" where
  "mmz_live os = (\<lambda>b. (mmb_ptr b, mmb_start b, mmb_end b)) ` set (all_blocks os)"

lemma block_in_zone:
  assumes "osal_ok os" "z \<in> set (g_zone_list os)" "b \<in> set (z_mmbs z)"
  shows "unat (z_base z) \<le> mmb_start b" "mmb_start b < mmb_end b" "mmb_end b \<le> unat (z_base z) + unat (z_size z)"
    "mmb_end b < 2 ^ 64"
proof -
  have zk: "zone_ok z" using assms by (simp add: osal_ok_def)
  show B: "unat (z_base z) \<le> mmb_start b" "mmb_start b < mmb_end b" "mmb_end b \<le> unat (z_base z) + unat (z_size z)"
    using zone_okD(2) [OF zk] assms(3) by (auto simp: blocks_ok_def list_all_iff)
  then have "0 < unat (z_size z)" by linarith
  then show "mmb_end b < 2 ^ 64" using B zone_okD(1) [OF zk] by linarith
qed

lemma mmz_blocks_apart:
  assumes g: "mmz_good os" and b: "b \<in> set (all_blocks os)" and c: "c \<in> set (all_blocks os)"
    and ne: "mmb_ptr b \<noteq> mmb_ptr c"
  shows "mmb_end b \<le> mmb_start c \<or> mmb_end c \<le> mmb_start b"
proof -
  have ok: "osal_ok os" and za: "zones_apart os" using g by (simp_all add: mmz_good_def)
  obtain z y where z: "z \<in> set (g_zone_list os)" "b \<in> set (z_mmbs z)" and y: "y \<in> set (g_zone_list os)" "c \<in> set (z_mmbs y)"
    using b c by (auto simp: all_blocks_iff)
  note Z = block_in_zone [OF ok z] and Y = block_in_zone [OF ok y]
  show ?thesis
  proof (cases "z_ptr z = z_ptr y")
    case True
    then have "z = y" using ok z y by (auto simp: osal_ok_def distinct_map dest: inj_onD)
    moreover have "zone_ok z" using ok z by (simp add: osal_ok_def)
    ultimately show ?thesis using blocks_disjoint [OF zone_okD(2), of z b c] z y ne by auto
  next
    case False
    then have "unat (z_base z) + unat (z_size z) \<le> unat (z_base y) \<or> unat (z_base y) + unat (z_size y) \<le> unat (z_base z)"
      using za z y by (simp add: zones_apart_def)
    then show ?thesis using Z Y by linarith
  qed
qed

lemma mmz_live_alloc:
  assumes g: "mmz_good os" and fresh: "\<And>p. kz = Some p \<Longrightarrow> p \<notin> fst ` mmz_live os"
    and a: "hil_mmb_alloc os name sz al 0 zn kz = (os', Some b)"
  shows "mmz_good os' \<and> mmb_ptr b \<notin> fst ` mmz_live os \<and>
    (\<exists>e. unat (mmb_phys b) + unat sz \<le> e \<and> mmz_live os' = insert (mmb_ptr b, unat (mmb_phys b), e) (mmz_live os))"
proof -
  have ok: "osal_ok os" and za: "zones_apart os" using g by (simp_all add: mmz_good_def)
  have ptrs: "fst ` mmz_live os = mmb_ptr ` set (all_blocks os)" by (simp add: mmz_live_def image_comp comp_def)
  have ok': "osal_ok os'"
    using hil_mmb_alloc_ok [OF ok, of kz name sz al 0 zn] fresh a by (simp add: ptrs)
  show ?thesis
  proof (cases rule: hil_mmb_alloc_cases [OF ok a, case_names fail new])
    case fail
    then show ?thesis by simp
  next
    case (new z nb rsz ral)
    have [simp]: "nb = b" using new(1) by simp
    have s: "set (all_blocks os') = insert b (set (all_blocks os))"
      using arg_cong [OF new(11), of set_mset] by simp
    have zr: "unat (z_base z) + 2 * unat (z_size z) \<le> 2 ^ 64"
      using ok new(3) by (auto simp: osal_ok_def zone_ok_def)
    have "unat sz \<le> unat rsz" by (rule zone_request_Some(7) [OF zr new(4)])
    then have e: "unat (mmb_phys b) + unat sz \<le> mmb_end b"
      using new(9) by (simp add: mmb_end_def)
    have same: "y = z" if "y \<in> set (g_zone_list os)" "z_ptr y = z_ptr z" for y
      using ok new(3) that by (auto simp: osal_ok_def distinct_map dest: inj_onD)
    have zl: "g_zone_list os' =
        map (\<lambda>y. if z_ptr y = z_ptr z then z\<lparr>z_mmbs := insert_mmb nb (z_mmbs z)\<rparr> else y) (g_zone_list os)"
      unfolding new(12) by simp
    have "map (\<lambda>z. (z_ptr z, z_base z, z_size z)) (g_zone_list os') = map (\<lambda>z. (z_ptr z, z_base z, z_size z)) (g_zone_list os)"
      unfolding zl map_map using same by (intro map_cong refl) (auto simp: comp_def dest!: same)
    then have "zone_ranges os' = zone_ranges os"
      unfolding zone_ranges_def set_map [symmetric] by simp
    then have "zones_apart os'" using za by (simp add: zones_apart_ranges)
    then have "mmz_good os'" using ok' by (simp add: mmz_good_def)
    moreover have "mmb_ptr b \<notin> fst ` mmz_live os" using fresh new(6) by simp
    moreover have "mmz_live os' = insert (mmb_ptr b, unat (mmb_phys b), mmb_end b) (mmz_live os)"
      by (simp add: mmz_live_def s mmb_start_def)
    ultimately show ?thesis using e by blast
  qed
qed

interpretation mmz: block_allocator mmz_ops mmz_good mmz_live
proof unfold_locales
  fix s p a b q c d
  assume "mmz_good s" "(p, a, b) \<in> mmz_live s" "(q, c, d) \<in> mmz_live s" "p \<noteq> q"
  then show "b \<le> c \<or> d \<le> a" using mmz_blocks_apart by (auto simp: mmz_live_def)
next
  fix s p a b assume "mmz_good s" "(p, a, b) \<in> mmz_live s"
  then show "a < b \<and> b < 2 ^ 64"
    using block_in_zone(2,4) by (auto simp: mmz_live_def mmz_good_def all_blocks_iff)
next
  fix s kz n sz al s'
  assume "mmz_good s" "op_alloc mmz_ops s kz n sz al = (s', None)"
  then have "s' = s" by (auto simp: mmz_ops_def hil_mmb_alloc_def split: prod.splits option.splits)
  then show "mmz_good s' \<and> mmz_live s' = mmz_live s" using \<open>mmz_good s\<close> by simp
next
  fix s kz n sz al s' p phys
  assume g: "mmz_good s" and f: "\<And>p. kz = Some p \<Longrightarrow> p \<notin> fst ` mmz_live s"
    and a: "op_alloc mmz_ops s kz n sz al = (s', Some (p, phys))"
  from a obtain b where b: "hil_mmb_alloc s (Some n) sz al 0 (Some []) kz = (s', Some b)" "p = mmb_ptr b" "phys = mmb_phys b"
    by (auto simp: mmz_ops_def split: prod.splits option.splits)
  show "mmz_good s' \<and> p \<notin> fst ` mmz_live s \<and>
      (\<exists>e. unat phys + unat sz \<le> e \<and> mmz_live s' = insert (p, unat phys, e) (mmz_live s))"
    unfolding b(2,3) by (rule mmz_live_alloc [OF g f b(1)])
next
  fix s p assume g: "mmz_good s"
  have f: "op_free mmz_ops s p = del_block p s" by (simp add: mmz_ops_def hil_mmb_free_def)
  have "zones_apart (del_block p s)" using g by (auto simp: mmz_good_def zones_apart_def del_block_def)
  then show "mmz_good (op_free mmz_ops s p) \<and> mmz_live (op_free mmz_ops s p) = {x \<in> mmz_live s. fst x \<noteq> p}"
    using g del_block_ok by (auto simp: f mmz_good_def mmz_live_def all_blocks_del)
qed

section \<open>Properties\<close>


definition one_zone :: osal where
  "one_zone = fst (hil_mmz_create osal_init (Some ''anonymous'') 0 0x29200000 0x06e00000 (Some 1))"

lemma one_zone_step: "osal_step osal_init one_zone"
  unfolding one_zone_def by (rule osal_step.create) (simp_all add: osal_init_def)

lemma one_zone_simps: "g_zone_list one_zone = [empty_zone]" "g_user_maps one_zone = []"
  by (simp_all add: one_zone_def hil_mmz_create_def osal_init_def empty_zone_def strscpy_def)

lemma one_zone_ok: "osal_ok one_zone"
  by (rule osal_reachable_ok) (rule r_into_rtranclp [where r = osal_step, OF one_zone_step])

definition first_block :: mmb where
  "first_block = \<lparr>mmb_ptr = 7, mmb_name = ''mmb'', mmb_phys = 0x29200000, mmb_size = 0x2000, mmb_align = 0x1000,
     mmb_zone = 1, mmb_kvirt = None, map_kref = 0, user_kref = 0, refcount = 1\<rparr>"

definition one_block :: osal where
  "one_block = \<lparr>g_zone_list = [empty_zone\<lparr>z_mmbs := [first_block]\<rparr>], g_user_maps = []\<rparr>"

lemma alloc_empty: "zone_alloc_locked empty_zone (Some []) 0x1234 0 (Some 7) =
    Some (empty_zone\<lparr>z_mmbs := [first_block]\<rparr>, first_block)"
  by (simp add: zone_alloc_locked_def empty_zone_request)
     (simp add: empty_zone_def zone_place_def ALIGN_def check_add_overflow_def Let_def first_block_def strscpy_def)

lemma find_anonymous: "zone_find_by_name one_zone (Some []) = Some empty_zone"
  by (simp add: zone_find_by_name_def one_zone_simps empty_zone_def strncmp_eq_def)

lemma alloc_first: "hil_mmb_alloc one_zone (Some []) 0x1234 0 0 (Some []) (Some 7) = (one_block, Some first_block)"
  by (simp add: hil_mmb_alloc_def find_anonymous alloc_empty)
     (simp add: one_block_def one_zone_def hil_mmz_create_def osal_init_def empty_zone_def)


text \<open>C5: No device request frees a block that is mapped: whatever the request, its arguments and
  its outcome, a block with a user or kernel mapping count is still allocated, at the same
  place and of the same size, afterwards; and the explicit free of such a block is refused
  as busy without changing the state.\<close>

theorem userdev_spares_mapped_blocks:
  assumes "osal_ok os" and "mm_calls_back env"
    and "env_kz env = Some kp" and "kp \<notin> mmb_ptr ` set (all_blocks os)"
    and "b \<in> set (all_blocks os)" and "0 < user_kref b \<or> 0 < map_kref b"
  shows "(\<exists>c\<in>set (all_blocks (snd (mmz_userdev_ioctl env os ty nr sz arg))).
      mmb_ptr c = mmb_ptr b \<and> mmb_phys c = mmb_phys b \<and> mmb_size c = mmb_size b) \<and>
    (getby_phys_2 os (mi_phys_addr mi) = Some (z, b) \<longrightarrow> handle_m_cmd env os 12 mi = (Inl EBUSY, os))"
proof
  obtain r os' where i: "mmz_userdev_ioctl env os ty nr sz arg = (r, os')" by fastforce
  have "osal_update os os'"
    using ioctl_update [OF assms(1,2) _ i] assms(3,4) by auto
  then have "stays b os'" using mapped_stays assms(1,5,6) by blast
  then show "\<exists>c\<in>set (all_blocks (snd (mmz_userdev_ioctl env os ty nr sz arg))).
      mmb_ptr c = mmb_ptr b \<and> mmb_phys c = mmb_phys b \<and> mmb_size c = mmb_size b"
    by (simp add: i stays_def same_place_def)
  show "getby_phys_2 os (mi_phys_addr mi) = Some (z, b) \<longrightarrow> handle_m_cmd env os 12 mi = (Inl EBUSY, os)"
    using assms(6) by (simp add: handle_m_cmd_def)
qed

text \<open>An environment whose \<open>vm_mmap\<close> finds no address and whose \<open>vm_munmap\<close> closes one mapping.\<close>

definition sample_env :: "mmb_info option \<Rightarrow> userdev_env" where
  "sample_env mi = \<lparr>copy_in = mi, copy_out_ok = True, env_kz = Some 9,
     vm_mmap = (\<lambda>os _ _. (Inl ENOMEM, os)), vm_munmap = (\<lambda>os u _. ar_mmz_user_map_del os u)\<rparr>"

lemma sample_env_calls_back: "mm_calls_back (sample_env mi)"
proof -
  have "\<exists>us. ar_mmz_user_map_del os u = fold (\<lambda>u s. ar_mmz_user_map_del s u) us os" for os u
    by (rule exI [of _ "[u]"]) simp
  then show ?thesis by (simp add: mm_calls_back_def sample_env_def)
qed

definition mapped_block :: osal where
  "mapped_block = \<lparr>g_zone_list = [empty_zone\<lparr>z_mmbs := [first_block\<lparr>user_kref := 1\<rparr>]\<rparr>],
     g_user_maps = [\<lparr>um_uvaddr = 0x7f0000, um_phys = 0x29200000, um_size = 0x2000\<rparr>]\<rparr>"

lemma mapped_block_ok: "osal_ok mapped_block"
  by (simp add: osal_ok_def mapped_block_def zone_ok_def empty_zone_def first_block_def all_blocks_def
      block_ok_def mmb_start_def mmb_end_def)

theorem userdev_spares_mapped_blocks_witness:
  "\<exists>c\<in>set (all_blocks (snd (mmz_userdev_ioctl (sample_env None) mapped_block IOC_R 31 0 0x29200000))).
    mmb_ptr c = 7 \<and> mmb_phys c = 0x29200000"
proof -
  have b: "env_kz (sample_env None) = Some 9" "9 \<notin> mmb_ptr ` set (all_blocks mapped_block)"
    "first_block\<lparr>user_kref := 1\<rparr> \<in> set (all_blocks mapped_block)"
    "0 < user_kref (first_block\<lparr>user_kref := 1\<rparr>) \<or> 0 < map_kref (first_block\<lparr>user_kref := 1\<rparr>)"
    by (simp_all add: all_blocks_def mapped_block_def first_block_def sample_env_def)
  from userdev_spares_mapped_blocks [OF mapped_block_ok sample_env_calls_back b, THEN conjunct1, of IOC_R 31 0 "0x29200000"]
  obtain c where "c \<in> set (all_blocks (snd (mmz_userdev_ioctl (sample_env None) mapped_block IOC_R 31 0 0x29200000)))"
    "mmb_ptr c = mmb_ptr first_block" "mmb_phys c = mmb_phys first_block" by auto
  then show ?thesis by (intro bexI [of _ c]) (simp_all add: first_block_def)
qed


lemma getby_one_zone: "getby_phys_2 (one_zone\<lparr>g_user_maps := ms\<rparr>) p = None"
  by (simp add: getby_phys_2_def one_zone_simps empty_zone_def)

lemma mmap_one_zone: "ar_mmz_mmap_wc one_zone 0x7f0000 0x7f2000 0x29200 True True =
    Inr (one_zone\<lparr>g_user_maps := [\<lparr>um_uvaddr = 0x7f0000, um_phys = 0x29200000, um_size = 0x2000\<rparr>]\<rparr>)"
  by (simp add: ar_mmz_mmap_wc_def hil_map_mmz_check_phys_def hil_is_phys_in_mmz_def mmz_find_def
      one_zone_simps empty_zone_def Let_def ar_mmz_user_map_add_def getby_one_zone)


text \<open>A block found by physical address contains it, and a search that fails means no block of any
  zone contains it; so within a zone the answer is unique.\<close>

theorem getby_phys_correct:
  assumes ok: "osal_ok os"
  shows "(getby_phys_2 os phys = None \<longleftrightarrow>
      \<not> (\<exists>z\<in>set (g_zone_list os). \<exists>b\<in>set (z_mmbs z). mmb_start b \<le> unat phys \<and> unat phys < mmb_end b)) \<and>
    (getby_phys_2 os phys = Some (z, b) \<longrightarrow>
      z \<in> set (g_zone_list os) \<and> b \<in> set (z_mmbs z) \<and> mmb_start b \<le> unat phys \<and> unat phys < mmb_end b \<and>
      (\<forall>c\<in>set (z_mmbs z). mmb_start c \<le> unat phys \<and> unat phys < mmb_end c \<longrightarrow> c = b))"
proof
  have Z: "zone_ok z" if "z \<in> set (g_zone_list os)" for z using ok that by (simp add: osal_ok_def)
  show "getby_phys_2 os phys = None \<longleftrightarrow>
      \<not> (\<exists>z\<in>set (g_zone_list os). \<exists>b\<in>set (z_mmbs z). mmb_start b \<le> unat phys \<and> unat phys < mmb_end b)"
    unfolding getby_None all_blocks_iff Ball_def using block_has_iff [OF Z] by blast
  show "getby_phys_2 os phys = Some (z, b) \<longrightarrow>
      z \<in> set (g_zone_list os) \<and> b \<in> set (z_mmbs z) \<and> mmb_start b \<le> unat phys \<and> unat phys < mmb_end b \<and>
      (\<forall>c\<in>set (z_mmbs z). mmb_start c \<le> unat phys \<and> unat phys < mmb_end c \<longrightarrow> c = b)"
  proof
    assume "getby_phys_2 os phys = Some (z, b)"
    note G = getby_in [OF this]
    note in_b = G(3) [unfolded block_has_iff [OF Z [OF G(1)] G(2)]]
    have "c = b" if "c \<in> set (z_mmbs z)" "mmb_start c \<le> unat phys" "unat phys < mmb_end c" for c
      using blocks_disjoint [OF zone_okD(2) [OF Z [OF G(1)]] G(2) that(1)] in_b that(2,3) by fastforce
    then show "z \<in> set (g_zone_list os) \<and> b \<in> set (z_mmbs z) \<and> mmb_start b \<le> unat phys \<and> unat phys < mmb_end b \<and>
        (\<forall>c\<in>set (z_mmbs z). mmb_start c \<le> unat phys \<and> unat phys < mmb_end c \<longrightarrow> c = b)"
      using G in_b by blast
  qed
qed

theorem getby_phys_correct_witness:
  "getby_phys_2 mapped_block 0 = None \<longleftrightarrow>
    \<not> (\<exists>z\<in>set (g_zone_list mapped_block). \<exists>b\<in>set (z_mmbs z). mmb_start b \<le> 0 \<and> 0 < mmb_end b)"
  using getby_phys_correct [OF mapped_block_ok, of 0] by simp

section \<open>Where the user-mapping count falls short\<close>

definition map_a :: user_map where
  "map_a = \<lparr>um_uvaddr = 0x7f0000, um_phys = 0x29200000, um_size = 0x2000\<rparr>"

definition early_map :: osal where "early_map = one_zone\<lparr>g_user_maps := [map_a]\<rparr>"

definition early_block :: osal where "early_block = one_block\<lparr>g_user_maps := [map_a]\<rparr>"

definition twice_mapped :: osal where
  "twice_mapped = \<lparr>g_zone_list = [empty_zone\<lparr>z_mmbs := [first_block\<lparr>user_kref := 2\<rparr>]\<rparr>], g_user_maps = [map_a, map_a]\<rparr>"

definition req_a :: mmb_info where
  "req_a = \<lparr>mi_phys_addr = 0x29200000, mi_align = 0, mi_size = 0x2000, mi_gfp = 0, mi_mapped_addr = 0x7f0000,
     mi_flags = 0, mi_mmb_name = [], mi_mmz_name = []\<rparr>"


text \<open>The containment check of an mmap wraps: a length near \<open>2^64\<close> passes it.\<close>

lemma is_phys_in_mmz_wraps: "hil_is_phys_in_mmz one_zone 0x29200000 0xfffffffffffff000"
  by (simp add: hil_is_phys_in_mmz_def mmz_find_def one_zone_simps empty_zone_def)

end
