(* ===== verification/Vb_Pool.thy ===== *)
theory Vb_Pool
  imports Mmz_Safety
begin

text \<open>
  \<open>modules/ar_vb.c\<close>: the video-buffer pools of \<open>/dev/ar_vb\<close>.  The definitions take the two
  functions of the MMZ allocator they call as an argument \<open>ops\<close>; the locale
  \<open>block_allocator\<close> states what the pools rely on (live blocks do not overlap, a new block is
  large enough, a free removes just its block), the pool invariant and the handle
  arithmetic are proved in it, and it is interpreted on \<open>hil_mmb_alloc\<close> and \<open>hil_mmb_free\<close>.
  Every request runs under \<open>g_vb_lock\<close>, so requests are atomic steps.
\<close>

section \<open>Definitions\<close>

record vb_pool_cfg =
  cfg_blk_size :: u64
  cfg_blk_cnt :: u32
  cfg_pool_type :: u32
  cfg_name :: string

record vb_blk =
  blk_pool_id :: u32
  blk_handle :: u32
  blk_req_size :: u64
  blk_vb_uid :: u32

record vb_plinfo =
  inf_pool_id :: u32
  inf_blk_cnt :: u32
  inf_blk_cnt2 :: u32
  inf_blk_size :: u64
  inf_total_size :: u64
  inf_phys :: u64
  inf_is_comm :: bool

definition MAX_POOLS :: nat where "MAX_POOLS = 512"

text \<open>The free map is the list of its \<open>blk_cnt\<close> bits, set = free.\<close>

record vb_pool =
  vp_used :: bool
  vp_id :: u32
  vp_mmb :: nat
  vp_base :: u64
  vp_blk_size :: u64
  vp_blk_cnt :: u32
  vp_type :: u32
  vp_free_map :: "bool list"
  vp_name :: string

definition zero_pool :: vb_pool where
  "zero_pool = \<lparr>vp_used = False, vp_id = 0, vp_mmb = 0, vp_base = 0, vp_blk_size = 0, vp_blk_cnt = 0,
     vp_type = 0, vp_free_map = [], vp_name = []\<rparr>"

record 's vb =
  vb_mem :: 's
  g_pools :: "vb_pool list"
  g_ioctl_cnt :: u32
  vb_selftest :: "nat option"

definition VB_HANDLE :: "u32 \<Rightarrow> u32 \<Rightarrow> u32" where
  "VB_HANDLE pid idx = push_bit 16 pid OR (idx AND 0xffff)"

definition VB_HANDLE_POOLID :: "u32 \<Rightarrow> u32" where
  "VB_HANDLE_POOLID h = drop_bit 16 h"

definition VB_HANDLE_INDEX :: "u32 \<Rightarrow> u32" where
  "VB_HANDLE_INDEX h = h AND 0xffff"

definition pool_by_id :: "vb_pool list \<Rightarrow> u32 \<Rightarrow> vb_pool option" where
  "pool_by_id ps i = (if unat i < MAX_POOLS \<and> vp_used (ps ! unat i) then Some (ps ! unat i) else None)"

definition pool_covers :: "u64 \<Rightarrow> vb_pool \<Rightarrow> bool" where
  "pool_covers phys p \<longleftrightarrow> vp_used p \<and> phys \<ge> vp_base p \<and> phys < vp_base p + vp_blk_size p * ucast (vp_blk_cnt p)"

definition pool_by_phys :: "vb_pool list \<Rightarrow> u64 \<Rightarrow> vb_pool option" where
  "pool_by_phys ps phys = find (pool_covers phys) (take MAX_POOLS ps)"

text \<open>The first index of a list with a property, if any.\<close>

definition first_index :: "('a \<Rightarrow> bool) \<Rightarrow> 'a list \<Rightarrow> nat option" where
  "first_index P xs = (let i = length (takeWhile (\<lambda>x. \<not> P x) xs) in if i < length xs then Some i else None)"

text \<open>
  \<open>VB_CRTPL\<close>.  \<open>req\<close> is the user's structure, \<open>None\<close> when the copy or the size check fails;
  \<open>bm_ok\<close> the success of \<open>bitmap_alloc\<close>.
\<close>

definition vb_crtpl :: "'s mmb_ops \<Rightarrow> vb_pool_cfg option \<Rightarrow> nat option \<Rightarrow> bool \<Rightarrow> 's vb \<Rightarrow> (errno + u32) \<times> 's vb" where
  "vb_crtpl ops req kz bm_ok v =
     (case req of
        None \<Rightarrow> (Inl EFAULT, v)
      | Some cfg \<Rightarrow>
          if cfg_blk_size cfg = 0 \<or> cfg_blk_cnt cfg = 0 \<or> cfg_blk_cnt cfg > 0xffff then (Inl EINVAL, v)
          else (case check_mul_overflow (cfg_blk_size cfg) (ucast (cfg_blk_cnt cfg)) of
             None \<Rightarrow> (Inl EINVAL, v)
           | Some tot \<Rightarrow>
               (case first_index (\<lambda>p. \<not> vp_used p) (take MAX_POOLS (g_pools v)) of
                  None \<Rightarrow> (Inl ENOSPC, v)
                | Some i \<Rightarrow>
                    (case op_alloc ops (vb_mem v) kz (take 15 (cfg_name cfg)) tot PAGE_SIZE of
                       (s', None) \<Rightarrow> (Inl ENOMEM, v\<lparr>vb_mem := s'\<rparr>)
                     | (s', Some (p, phys)) \<Rightarrow>
                         if \<not> bm_ok then (Inl ENOMEM, v\<lparr>vb_mem := op_free ops s' p\<rparr>)
                         else (Inr (of_nat i),
                           v\<lparr>vb_mem := s', g_pools := (g_pools v)[i :=
                             \<lparr>vp_used = True, vp_id = of_nat i, vp_mmb = p, vp_base = phys,
                              vp_blk_size = cfg_blk_size cfg, vp_blk_cnt = cfg_blk_cnt cfg,
                              vp_type = cfg_pool_type cfg,
                              vp_free_map = replicate (unat (cfg_blk_cnt cfg)) True,
                              vp_name = strscpy 16 (take 15 (cfg_name cfg))\<rparr>]\<rparr>)))))"

definition vb_destpl :: "'s mmb_ops \<Rightarrow> u32 option \<Rightarrow> 's vb \<Rightarrow> (errno + u32) \<times> 's vb" where
  "vb_destpl ops req v =
     (case req of
        None \<Rightarrow> (Inl EFAULT, v)
      | Some pid \<Rightarrow>
          if pid > 0x1ff then (Inl EINVAL, v)
          else (case pool_by_id (g_pools v) pid of
             None \<Rightarrow> (Inl EINVAL, v)
           | Some p \<Rightarrow> (Inr 0, v\<lparr>vb_mem := op_free ops (vb_mem v) (vp_mmb p),
                                 g_pools := (g_pools v)[unat pid := zero_pool]\<rparr>)))"

definition getblk_pool :: "vb_pool list \<Rightarrow> vb_blk \<Rightarrow> errno + nat" where
  "getblk_pool ps b =
     (if blk_pool_id b = - 1
      then (case first_index (\<lambda>p. vp_used p \<and> \<not> (blk_req_size b \<noteq> 0 \<and> blk_req_size b > vp_blk_size p)
                   \<and> True \<in> set (vp_free_map p)) (take MAX_POOLS ps) of
              None \<Rightarrow> Inl EINVAL | Some i \<Rightarrow> Inr i)
      else if blk_pool_id b > 0x1ff then Inl EINVAL
      else (case pool_by_id ps (blk_pool_id b) of None \<Rightarrow> Inl EINVAL | Some p \<Rightarrow> Inr (unat (blk_pool_id b))))"

definition vb_getblk :: "vb_blk option \<Rightarrow> 's vb \<Rightarrow> (errno + u32) \<times> 's vb" where
  "vb_getblk req v =
     (case req of
        None \<Rightarrow> (Inl EFAULT, v)
      | Some b \<Rightarrow>
          if blk_vb_uid b > 0x17 then (Inl EINVAL, v)
          else (case getblk_pool (g_pools v) b of
             Inl e \<Rightarrow> (Inl e, v)
           | Inr i \<Rightarrow>
               let p = g_pools v ! i
               in if blk_req_size b \<noteq> 0 \<and> blk_req_size b > vp_blk_size p then (Inl EINVAL, v)
                  else (case first_index (\<lambda>f. f) (vp_free_map p) of
                     None \<Rightarrow> (Inl ENOSPC, v)
                   | Some idx \<Rightarrow>
                       (Inr (VB_HANDLE (vp_id p) (of_nat idx)),
                        v\<lparr>g_pools := (g_pools v)[i := p\<lparr>vp_free_map := (vp_free_map p)[idx := False]\<rparr>]\<rparr>))))"

definition vb_rlsblk :: "vb_blk option \<Rightarrow> 's vb \<Rightarrow> (errno + u32) \<times> 's vb" where
  "vb_rlsblk req v =
     (case req of
        None \<Rightarrow> (Inl EFAULT, v)
      | Some b \<Rightarrow>
          if blk_handle b > 0x1ffffff then (Inl EINVAL, v)
          else (case pool_by_id (g_pools v) (VB_HANDLE_POOLID (blk_handle b)) of
             None \<Rightarrow> (Inl EINVAL, v)
           | Some p \<Rightarrow>
               let idx = VB_HANDLE_INDEX (blk_handle b); i = unat (VB_HANDLE_POOLID (blk_handle b))
               in if idx < vp_blk_cnt p
                  then (Inr 0, v\<lparr>g_pools := (g_pools v)[i := p\<lparr>vp_free_map := (vp_free_map p)[unat idx := True]\<rparr>]\<rparr>)
                  else (Inr 0, v)))"

definition vb_pa2hl :: "u64 option \<Rightarrow> 's vb \<Rightarrow> errno + u32" where
  "vb_pa2hl req v =
     (case req of
        None \<Rightarrow> Inl EFAULT
      | Some phys \<Rightarrow>
          (case pool_by_phys (g_pools v) phys of
             None \<Rightarrow> Inl EINVAL
           | Some p \<Rightarrow> Inr (VB_HANDLE (vp_id p) (ucast ((phys - vp_base p) div vp_blk_size p)))))"

definition vb_hl2pa :: "u32 option \<Rightarrow> bool \<Rightarrow> 's vb \<Rightarrow> errno + u64" where
  "vb_hl2pa req copy_ok v =
     (case req of
        None \<Rightarrow> Inl EFAULT
      | Some h \<Rightarrow>
          if h > 0x1ffffff then Inl EINVAL
          else (case pool_by_id (g_pools v) (VB_HANDLE_POOLID h) of
             None \<Rightarrow> Inl EINVAL
           | Some p \<Rightarrow>
               let idx = VB_HANDLE_INDEX h
               in if idx \<ge> vp_blk_cnt p then Inl EINVAL
                  else if \<not> copy_ok then Inl EFAULT
                  else Inr (vp_base p + ucast idx * vp_blk_size p)))"

definition vb_hl2pid :: "u32 option \<Rightarrow> errno + u32" where
  "vb_hl2pid req =
     (case req of
        None \<Rightarrow> Inl EFAULT
      | Some h \<Rightarrow> if h > 0x1ffffff then Inl EINVAL else Inr (VB_HANDLE_POOLID h))"

definition vb_getplinfo :: "u32 option \<Rightarrow> bool \<Rightarrow> 's vb \<Rightarrow> errno + vb_plinfo" where
  "vb_getplinfo req copy_ok v =
     (case req of
        None \<Rightarrow> Inl EFAULT
      | Some pid \<Rightarrow>
          if pid > 0x1ff then Inl EINVAL
          else (case pool_by_id (g_pools v) pid of
             None \<Rightarrow> Inl EINVAL
           | Some p \<Rightarrow>
               if \<not> copy_ok then Inl EFAULT
               else Inr \<lparr>inf_pool_id = vp_id p, inf_blk_cnt = vp_blk_cnt p, inf_blk_cnt2 = vp_blk_cnt p,
                         inf_blk_size = vp_blk_size p, inf_total_size = vp_blk_size p * ucast (vp_blk_cnt p),
                         inf_phys = vp_base p, inf_is_comm = (vp_type p \<noteq> 0)\<rparr>))"

text \<open>The requests of the \<open>'b'\<close> magic, by number, and the self-test requests of \<open>'t'\<close>.\<close>

datatype vb_request =
  VB_CRTPL "vb_pool_cfg option" | VB_DESTPL "u32 option" | VB_GETBLK "vb_blk option"
| VB_RLSBLK "vb_blk option" | VB_PA2HL "u64 option" | VB_HL2PA "u32 option" | VB_HL2PID "u32 option"
| VB_GETPLINFO "u32 option" | VB_stub | VB_T nat | VB_other_magic

datatype vb_reply = Reply u32 | Reply_phys u64 | Reply_info vb_plinfo

definition vb_ioctl_t :: "'s mmb_ops \<Rightarrow> nat \<Rightarrow> nat option \<Rightarrow> 's vb \<Rightarrow> (errno + u32) \<times> 's vb" where
  "vb_ioctl_t ops nr kz v =
     (if nr = 0 then
        (case op_alloc ops (vb_mem v) kz ''vb_selftest'' 0x1000 8 of
           (s', None) \<Rightarrow> (Inl ENOMEM, v\<lparr>vb_mem := s', vb_selftest := None\<rparr>)
         | (s', Some (p, phys)) \<Rightarrow> (Inr 0, v\<lparr>vb_mem := s', vb_selftest := Some p\<rparr>))
      else if nr = 1 then
        (case vb_selftest v of
           None \<Rightarrow> (Inr 0, v)
         | Some p \<Rightarrow> (Inr 0, v\<lparr>vb_mem := op_free ops (vb_mem v) p, vb_selftest := None\<rparr>))
      else (Inr 0, v))"

definition ar_vb_ioctl ::
  "'s mmb_ops \<Rightarrow> vb_request \<Rightarrow> nat option \<Rightarrow> bool \<Rightarrow> bool \<Rightarrow> 's vb \<Rightarrow> (errno + vb_reply) \<times> 's vb" where
  "ar_vb_ioctl ops req kz bm_ok copy_ok v0 =
     (let v = (case req of VB_T _ \<Rightarrow> v0 | VB_other_magic \<Rightarrow> v0 | _ \<Rightarrow> v0\<lparr>g_ioctl_cnt := g_ioctl_cnt v0 + 1\<rparr>)
      in case req of
        VB_CRTPL r \<Rightarrow> apfst (map_sum id Reply) (vb_crtpl ops r kz bm_ok v)
      | VB_DESTPL r \<Rightarrow> apfst (map_sum id Reply) (vb_destpl ops r v)
      | VB_GETBLK r \<Rightarrow> apfst (map_sum id Reply) (vb_getblk r v)
      | VB_RLSBLK r \<Rightarrow> apfst (map_sum id Reply) (vb_rlsblk r v)
      | VB_PA2HL r \<Rightarrow> (map_sum id Reply (vb_pa2hl r v), v)
      | VB_HL2PA r \<Rightarrow> (map_sum id Reply_phys (vb_hl2pa r copy_ok v), v)
      | VB_HL2PID r \<Rightarrow> (map_sum id Reply (vb_hl2pid r), v)
      | VB_GETPLINFO r \<Rightarrow> (map_sum id Reply_info (vb_getplinfo r copy_ok v), v)
      | VB_stub \<Rightarrow> (Inr (Reply 0), v)
      | VB_T nr \<Rightarrow> apfst (map_sum id Reply) (vb_ioctl_t ops nr kz v)
      | VB_other_magic \<Rightarrow> (Inl EINVAL, v))"

text \<open>Module exit frees every pool's block.\<close>

definition ar_vb_exit :: "'s mmb_ops \<Rightarrow> 's vb \<Rightarrow> 's" where
  "ar_vb_exit ops v = fold (\<lambda>p s. if vp_used p then op_free ops s (vp_mmb p) else s) (take MAX_POOLS (g_pools v)) (vb_mem v)"

section \<open>The pool invariant\<close>

definition pool_ok :: "live_block set \<Rightarrow> nat \<Rightarrow> vb_pool \<Rightarrow> bool" where
  "pool_ok L i p \<longleftrightarrow> vp_id p = of_nat i \<and> 0 < unat (vp_blk_cnt p) \<and> unat (vp_blk_cnt p) \<le> 0xffff \<and>
     0 < unat (vp_blk_size p) \<and> length (vp_free_map p) = unat (vp_blk_cnt p) \<and>
     (\<exists>e. (vp_mmb p, unat (vp_base p), e) \<in> L \<and> unat (vp_base p) + unat (vp_blk_size p) * unat (vp_blk_cnt p) \<le> e)"

definition pools_ok :: "live_block set \<Rightarrow> nat option \<Rightarrow> vb_pool list \<Rightarrow> bool" where
  "pools_ok L test ps \<longleftrightarrow> length ps = MAX_POOLS \<and> (\<forall>i<MAX_POOLS. vp_used (ps ! i) \<longrightarrow> pool_ok L i (ps ! i)) \<and>
     (\<forall>i<MAX_POOLS. \<forall>j<MAX_POOLS. i \<noteq> j \<longrightarrow> vp_used (ps ! i) \<longrightarrow> vp_used (ps ! j) \<longrightarrow> vp_mmb (ps ! i) \<noteq> vp_mmb (ps ! j)) \<and>
     (\<forall>i<MAX_POOLS. vp_used (ps ! i) \<longrightarrow> test \<noteq> Some (vp_mmb (ps ! i))) \<and>
     (\<forall>t. test = Some t \<longrightarrow> t \<in> fst ` L)"

lemma pool_ok_mono: "pool_ok L i p \<Longrightarrow> (\<And>a e. (vp_mmb p, a, e) \<in> L \<Longrightarrow> (vp_mmb p, a, e) \<in> L') \<Longrightarrow> pool_ok L' i p"
  by (auto simp: pool_ok_def)

lemma first_index_Some:
  "first_index P xs = Some i \<Longrightarrow> i < length xs \<and> P (xs ! i) \<and> (\<forall>j<i. \<not> P (xs ! j))"
proof -
  assume "first_index P xs = Some i"
  then have i: "i = length (takeWhile (\<lambda>x. \<not> P x) xs)" "i < length xs"
    by (auto simp: first_index_def Let_def split: if_splits)
  then have "P (xs ! i)" using nth_length_takeWhile [of "\<lambda>x. \<not> P x" xs] by simp
  moreover have "\<not> P (xs ! j)" if "j < i" for j
    using that i set_takeWhileD [of _ "\<lambda>x. \<not> P x" xs] nth_mem [of j "takeWhile (\<lambda>x. \<not> P x) xs"]
    by (auto simp: takeWhile_nth)
  ultimately show ?thesis using i by blast
qed

lemma first_index_None: "first_index P xs = None \<longleftrightarrow> (\<forall>x\<in>set xs. \<not> P x)"
proof -
  have "length (takeWhile (\<lambda>x. \<not> P x) xs) < length xs \<longleftrightarrow> (\<exists>x\<in>set xs. P x)"
    by (induction xs) auto
  then show ?thesis by (auto simp: first_index_def Let_def)
qed

lemma pool_by_id_Some:
  "pool_by_id ps i = Some p \<Longrightarrow> unat i < MAX_POOLS \<and> vp_used (ps ! unat i) \<and> p = ps ! unat i"
  by (auto simp: pool_by_id_def split: if_splits)

lemma pools_okI:
  assumes "length ps = MAX_POOLS"
    and "\<And>i. i < MAX_POOLS \<Longrightarrow> vp_used (ps ! i) \<Longrightarrow> pool_ok L i (ps ! i)"
    and "\<And>i j. i < MAX_POOLS \<Longrightarrow> j < MAX_POOLS \<Longrightarrow> i \<noteq> j \<Longrightarrow> vp_used (ps ! i) \<Longrightarrow> vp_used (ps ! j) \<Longrightarrow>
      vp_mmb (ps ! i) \<noteq> vp_mmb (ps ! j)"
    and "\<And>i. i < MAX_POOLS \<Longrightarrow> vp_used (ps ! i) \<Longrightarrow> test \<noteq> Some (vp_mmb (ps ! i))"
    and "\<And>t. test = Some t \<Longrightarrow> t \<in> fst ` L"
  shows "pools_ok L test ps"
  using assms unfolding pools_ok_def by blast

lemma pools_ok_length: "pools_ok L test ps \<Longrightarrow> length ps = MAX_POOLS"
  unfolding pools_ok_def by blast

lemma pools_ok_pool: "pools_ok L test ps \<Longrightarrow> i < MAX_POOLS \<Longrightarrow> vp_used (ps ! i) \<Longrightarrow> pool_ok L i (ps ! i)"
  unfolding pools_ok_def by blast

lemma pools_ok_mmb:
  "pools_ok L test ps \<Longrightarrow> i < MAX_POOLS \<Longrightarrow> j < MAX_POOLS \<Longrightarrow> i \<noteq> j \<Longrightarrow> vp_used (ps ! i) \<Longrightarrow> vp_used (ps ! j) \<Longrightarrow>
    vp_mmb (ps ! i) \<noteq> vp_mmb (ps ! j)"
  unfolding pools_ok_def by blast

lemma pools_ok_test: "pools_ok L test ps \<Longrightarrow> i < MAX_POOLS \<Longrightarrow> vp_used (ps ! i) \<Longrightarrow> test \<noteq> Some (vp_mmb (ps ! i))"
  unfolding pools_ok_def by blast

lemma pools_ok_test_live: "pools_ok L test ps \<Longrightarrow> test = Some t \<Longrightarrow> t \<in> fst ` L"
  unfolding pools_ok_def by blast

lemma pool_ok_live: "pool_ok L i p \<Longrightarrow> vp_mmb p \<in> fst ` L"
  unfolding pool_ok_def by (metis fst_conv image_eqI)

lemma pools_ok_update:
  assumes ok: "pools_ok L test ps" and i: "i < MAX_POOLS"
    and p: "vp_used p \<Longrightarrow> pool_ok L i p"
    and mmb: "\<And>j. vp_used p \<Longrightarrow> j < MAX_POOLS \<Longrightarrow> j \<noteq> i \<Longrightarrow> vp_used (ps ! j) \<Longrightarrow> vp_mmb (ps ! j) \<noteq> vp_mmb p"
    and test: "vp_used p \<Longrightarrow> test \<noteq> Some (vp_mmb p)"
  shows "pools_ok L test (ps[i := p])"
proof (rule pools_okI)
  note len = pools_ok_length [OF ok]
  have at: "ps[i := p] ! j = (if j = i then p else ps ! j)" if "j < MAX_POOLS" for j
    using len i that by (simp add: nth_list_update)
  show "length (ps[i := p]) = MAX_POOLS" using len by simp
  show "pool_ok L j (ps[i := p] ! j)" if "j < MAX_POOLS" "vp_used (ps[i := p] ! j)" for j
    using that p pools_ok_pool [OF ok that(1)] by (cases "j = i") (simp_all add: at)
  show "vp_mmb (ps[i := p] ! j) \<noteq> vp_mmb (ps[i := p] ! k)"
    if "j < MAX_POOLS" "k < MAX_POOLS" "j \<noteq> k" "vp_used (ps[i := p] ! j)" "vp_used (ps[i := p] ! k)" for j k
    using that mmb [of j] mmb [of k] pools_ok_mmb [OF ok that(1-3)] by (cases "j = i"; cases "k = i") (auto simp: at)
  show "test \<noteq> Some (vp_mmb (ps[i := p] ! j))" if "j < MAX_POOLS" "vp_used (ps[i := p] ! j)" for j
    using that test pools_ok_test [OF ok that(1)] by (cases "j = i") (simp_all add: at)
qed (rule pools_ok_test_live [OF ok])

text \<open>The bookkeeping of one used pool changes, its block does not.\<close>

lemma pools_ok_replace:
  assumes ok: "pools_ok L test ps" and i: "i < MAX_POOLS" "vp_used (ps ! i)"
    and p: "pool_ok L i p" "vp_mmb p = vp_mmb (ps ! i)"
  shows "pools_ok L test (ps[i := p])"
proof (rule pools_ok_update [OF ok i(1) p(1)])
  show "vp_mmb (ps ! j) \<noteq> vp_mmb p" if "j < MAX_POOLS" "j \<noteq> i" "vp_used (ps ! j)" for j
    using pools_ok_mmb [OF ok that(1) i(1) that(2,3) i(2)] p(2) by simp
  show "test \<noteq> Some (vp_mmb p)" using pools_ok_test [OF ok i] p(2) by simp
qed

lemma pool_ok_map:
  "pool_ok L i p \<Longrightarrow> length m = length (vp_free_map p) \<Longrightarrow> pool_ok L i (p\<lparr>vp_free_map := m\<rparr>)"
  by (simp add: pool_ok_def)

definition pool_end :: "vb_pool \<Rightarrow> nat" where
  "pool_end p = unat (vp_base p) + unat (vp_blk_size p) * unat (vp_blk_cnt p)"

text \<open>A handle packs the pool number above a 16-bit block index.\<close>

lemma mask16: "(0xffff :: u32) = mask 16" by (simp add: mask_eq_exp_minus_1)

lemma handle_split: "VB_HANDLE (VB_HANDLE_POOLID h) (VB_HANDLE_INDEX h) = h"
  unfolding VB_HANDLE_def VB_HANDLE_POOLID_def VB_HANDLE_INDEX_def mask16
  by (rule bit_word_eqI) (auto simp: bit_simps)

lemma handle_poolid: "unat i < 2 ^ 16 \<Longrightarrow> VB_HANDLE_POOLID (VB_HANDLE i k) = i"
  unfolding VB_HANDLE_def VB_HANDLE_POOLID_def VB_HANDLE_INDEX_def mask16
  by (rule bit_word_eqI) (use high_bit_less [of i 16] in \<open>auto simp: bit_simps\<close>)

lemma handle_index: "unat k < 2 ^ 16 \<Longrightarrow> VB_HANDLE_INDEX (VB_HANDLE i k) = k"
  unfolding VB_HANDLE_def VB_HANDLE_POOLID_def VB_HANDLE_INDEX_def mask16
  by (rule bit_word_eqI) (use high_bit_less [of k 16] in \<open>auto simp: bit_simps\<close>)

lemma handle_max: "unat i < MAX_POOLS \<Longrightarrow> VB_HANDLE i k \<le> 0x1ffffff"
proof -
  assume "unat i < MAX_POOLS"
  then have "unat i < 2 ^ 9" by (simp add: MAX_POOLS_def)
  from high_bit_less [OF this] have "n < 25" if "bit i (n - 16)" for n using that by fastforce
  then have "VB_HANDLE i k = VB_HANDLE i k AND mask 25"
    unfolding VB_HANDLE_def mask16 by (intro bit_word_eqI) (auto simp: bit_simps not_less)
  then have "unat (VB_HANDLE i k) < 2 ^ 25" by (metis unat_and_mask mod_less_divisor zero_less_power zero_less_numeral)
  then show ?thesis by (simp add: word_le_nat_alt)
qed

context block_allocator
begin

definition vb_ok :: "'s vb \<Rightarrow> bool" where
  "vb_ok v \<longleftrightarrow> good (vb_mem v) \<and> pools_ok (live (vb_mem v)) (vb_selftest v) (g_pools v)"

lemma pools_ok_free:
  assumes ok: "pools_ok (live s) t ps" and g: "good s"
    and other: "\<And>i. i < MAX_POOLS \<Longrightarrow> vp_used (ps ! i) \<Longrightarrow> vp_mmb (ps ! i) \<noteq> p" and t: "t \<noteq> Some p"
  shows "pools_ok (live (op_free ops s p)) t ps"
proof (rule pools_okI)
  have L: "live (op_free ops s p) = {x \<in> live s. fst x \<noteq> p}" using free_live [OF g] by blast
  show "pool_ok (live (op_free ops s p)) i (ps ! i)" if "i < MAX_POOLS" "vp_used (ps ! i)" for i
    by (rule pool_ok_mono [OF pools_ok_pool [OF ok that]]) (use other [OF that] in \<open>simp add: L\<close>)
  show "q \<in> fst ` live (op_free ops s p)" if "t = Some q" for q
  proof -
    have "q \<in> fst ` live s" by (rule pools_ok_test_live [OF ok that])
    then obtain x where "x \<in> live s" "fst x = q" by blast
    then show ?thesis using t that by (auto simp: L intro!: image_eqI [of _ _ x])
  qed
  show "length ps = MAX_POOLS" by (rule pools_ok_length [OF ok])
  show "vp_mmb (ps ! i) \<noteq> vp_mmb (ps ! j)"
    if "i < MAX_POOLS" "j < MAX_POOLS" "i \<noteq> j" "vp_used (ps ! i)" "vp_used (ps ! j)" for i j
    by (rule pools_ok_mmb [OF ok that])
  show "t \<noteq> Some (vp_mmb (ps ! i))" if "i < MAX_POOLS" "vp_used (ps ! i)" for i
    by (rule pools_ok_test [OF ok that])
qed

lemma pools_ok_live: "pools_ok L t ps \<Longrightarrow> L \<subseteq> L' \<Longrightarrow> pools_ok L' t ps"
  by (rule pools_okI)
    (blast dest: pools_ok_length pools_ok_mmb pools_ok_test pools_ok_test_live pools_ok_pool
      intro: pool_ok_mono)+

lemma pool_mmb_live: "pools_ok L t ps \<Longrightarrow> i < MAX_POOLS \<Longrightarrow> vp_used (ps ! i) \<Longrightarrow> vp_mmb (ps ! i) \<in> fst ` L"
  by (rule pool_ok_live [OF pools_ok_pool])

lemma crtpl_ok:
  assumes v: "vb_ok v" and fresh: "\<And>p. kz = Some p \<Longrightarrow> p \<notin> fst ` live (vb_mem v)"
  shows "vb_ok (snd (vb_crtpl ops req kz bm v))"
proof (cases req)
  case (Some cfg)
  note V = v [unfolded vb_ok_def]
  show ?thesis
  proof (cases "cfg_blk_size cfg = 0 \<or> cfg_blk_cnt cfg = 0 \<or> cfg_blk_cnt cfg > 0xffff \<or>
      check_mul_overflow (cfg_blk_size cfg) (ucast (cfg_blk_cnt cfg)) = None \<or>
      first_index (\<lambda>p. \<not> vp_used p) (take MAX_POOLS (g_pools v)) = None")
    case True
    then show ?thesis using v Some by (auto simp: vb_crtpl_def split: option.split)
  next
    case False
    then obtain tot i where c: "cfg_blk_size cfg \<noteq> 0" "cfg_blk_cnt cfg \<noteq> 0" "cfg_blk_cnt cfg \<le> 0xffff"
      and tot: "check_mul_overflow (cfg_blk_size cfg) (ucast (cfg_blk_cnt cfg)) = Some tot"
      and i: "first_index (\<lambda>p. \<not> vp_used p) (take MAX_POOLS (g_pools v)) = Some i" by (auto simp: not_less)
    have len: "length (g_pools v) = MAX_POOLS" by (rule pools_ok_length [OF conjunct2 [OF V]])
    have i': "i < MAX_POOLS" "\<not> vp_used (g_pools v ! i)" using first_index_Some [OF i] len by auto
    have cnt: "0 < unat (cfg_blk_cnt cfg)" "unat (cfg_blk_cnt cfg) \<le> 0xffff" "0 < unat (cfg_blk_size cfg)"
      using c by (simp_all add: unat_gt_0 word_le_nat_alt)
    have tot': "unat tot = unat (cfg_blk_size cfg) * unat (cfg_blk_cnt cfg)"
      using conjunct2 [OF tot [unfolded check_mul_overflow_Some]] by (simp add: unat_ucast_up)
    obtain s' r where a: "op_alloc ops (vb_mem v) kz (take 15 (cfg_name cfg)) tot PAGE_SIZE = (s', r)" by fastforce
    show ?thesis
    proof (cases r)
      case None
      have "vb_crtpl ops req kz bm v = (Inl ENOMEM, v\<lparr>vb_mem := s'\<rparr>)"
        using Some c tot i a None by (simp add: vb_crtpl_def not_less)
      then show ?thesis using V alloc_fail [of "vb_mem v"] a None by (simp add: vb_ok_def)
    next
      case (Some r')
      then obtain p phys where r: "r = Some (p, phys)" by (cases r') simp
      from alloc_new [of "vb_mem v", OF _ _ a [unfolded r]] V fresh
      obtain e where N: "good s'" "p \<notin> fst ` live (vb_mem v)" "unat phys + unat tot \<le> e"
        "live s' = insert (p, unat phys, e) (live (vb_mem v))" by blast
      have test: "vb_selftest v \<noteq> Some p" using pools_ok_test_live [OF conjunct2 [OF V]] N(2) by blast
      have old: "pools_ok (live s') (vb_selftest v) (g_pools v)"
        using V N(4) by (auto intro: pools_ok_live)
      have other: "vp_mmb (g_pools v ! j) \<noteq> p" if "j < MAX_POOLS" "vp_used (g_pools v ! j)" for j
        using pool_mmb_live [OF conjunct2 [OF V] that] N(2) by auto
      show ?thesis
      proof (cases bm)
        case False
        have "vb_crtpl ops req kz bm v = (Inl ENOMEM, v\<lparr>vb_mem := op_free ops s' p\<rparr>)"
          using \<open>req = Some cfg\<close> c tot i a r False by (simp add: vb_crtpl_def not_less)
        then show ?thesis
          using pools_ok_free [OF old N(1) other] test free_live [OF N(1), of p] by (simp add: vb_ok_def)
      next
        case True
        define np where "np = \<lparr>vp_used = True, vp_id = of_nat i, vp_mmb = p, vp_base = phys,
          vp_blk_size = cfg_blk_size cfg, vp_blk_cnt = cfg_blk_cnt cfg, vp_type = cfg_pool_type cfg,
          vp_free_map = replicate (unat (cfg_blk_cnt cfg)) True, vp_name = strscpy 16 (take 15 (cfg_name cfg))\<rparr>"
        have res: "vb_crtpl ops req kz bm v = (Inr (of_nat i), v\<lparr>vb_mem := s', g_pools := (g_pools v)[i := np]\<rparr>)"
          using \<open>req = Some cfg\<close> c tot i a r True by (simp add: vb_crtpl_def not_less np_def)
        have "pool_ok (live s') i np"
          using cnt N(3,4) by (auto simp: pool_ok_def np_def tot')
        then have "pools_ok (live s') (vb_selftest v) ((g_pools v)[i := np])"
          using other i'(1) test by (intro pools_ok_update [OF old]) (simp_all add: np_def)
        then show ?thesis using N(1) by (simp add: res vb_ok_def)
      qed
    qed
  qed
qed (simp add: vb_crtpl_def v)

lemma destpl_ok:
  assumes v: "vb_ok v"
  shows "vb_ok (snd (vb_destpl ops req v))"
proof -
  note V = v [unfolded vb_ok_def]
  note P = conjunct2 [OF V]
  {
    fix pid p
    assume p: "pool_by_id (g_pools v) pid = Some p"
    let ?i = "unat pid"
    note at = pool_by_id_Some [OF p]
    let ?s = "op_free ops (vb_mem v) (vp_mmb p)" and ?ps = "(g_pools v)[?i := zero_pool]"
    have cleared: "pools_ok (live (vb_mem v)) (vb_selftest v) ?ps"
      by (rule pools_ok_update [OF P]) (simp_all add: at zero_pool_def)
    have "vp_mmb (?ps ! j) \<noteq> vp_mmb p" if j: "j < MAX_POOLS" "vp_used (?ps ! j)" for j
    proof (cases "j = ?i")
      case True
      then show ?thesis using j pools_ok_length [OF P] by (simp add: zero_pool_def)
    next
      case False
      then show ?thesis using j at pools_ok_mmb [OF P j(1), of ?i] by simp
    qed
    moreover have "vb_selftest v \<noteq> Some (vp_mmb p)" using at pools_ok_test [OF P] by blast
    ultimately have "pools_ok (live ?s) (vb_selftest v) ?ps"
      using pools_ok_free [OF cleared conjunct1 [OF V]] by blast
    then have "vb_ok (v\<lparr>vb_mem := ?s, g_pools := ?ps\<rparr>)"
      using free_live [OF conjunct1 [OF V]] by (simp add: vb_ok_def)
  }
  then show ?thesis using v by (simp add: vb_destpl_def split: option.split)
qed

lemma getblk_pool_used:
  assumes "getblk_pool ps b = Inr i" "length ps = MAX_POOLS"
  shows "i < MAX_POOLS \<and> vp_used (ps ! i)"
  using assms
  by (auto simp: getblk_pool_def split: if_splits option.splits dest: first_index_Some pool_by_id_Some)

lemma getblk_ok:
  assumes v: "vb_ok v"
  shows "vb_ok (snd (vb_getblk req v))"
proof -
  note P = conjunct2 [OF v [unfolded vb_ok_def]]
  have "vb_ok (v\<lparr>g_pools := (g_pools v)[i := (g_pools v ! i)\<lparr>vp_free_map := (vp_free_map (g_pools v ! i))[idx := False]\<rparr>]\<rparr>)"
    if "getblk_pool (g_pools v) b = Inr i" for b i idx
  proof -
    note at = getblk_pool_used [OF that pools_ok_length [OF P]]
    show ?thesis
      using v at pool_ok_map [OF pools_ok_pool [OF P]] by (auto simp: vb_ok_def intro!: pools_ok_replace [OF P])
  qed
  then show ?thesis using v by (auto simp: vb_getblk_def Let_def split: option.split sum.split)
qed

lemma rlsblk_ok:
  assumes v: "vb_ok v"
  shows "vb_ok (snd (vb_rlsblk req v))"
proof -
  note P = conjunct2 [OF v [unfolded vb_ok_def]]
  have "vb_ok (v\<lparr>g_pools := (g_pools v)[unat pid := p\<lparr>vp_free_map := (vp_free_map p)[idx := True]\<rparr>]\<rparr>)"
    if p: "pool_by_id (g_pools v) pid = Some p" for pid p idx
    using v pool_by_id_Some [OF p] pool_ok_map [OF pools_ok_pool [OF P]]
    by (auto simp: vb_ok_def intro!: pools_ok_replace [OF P])
  then show ?thesis using v by (auto simp: vb_rlsblk_def Let_def split: option.split)
qed

lemma selftest_ok:
  assumes v: "vb_ok v" and fresh: "\<And>p. kz = Some p \<Longrightarrow> p \<notin> fst ` live (vb_mem v)"
  shows "vb_ok (snd (vb_ioctl_t ops nr kz v))"
proof -
  note V = v [unfolded vb_ok_def]
  note P = conjunct2 [OF V] and G = conjunct1 [OF V]
  obtain s' r where a: "op_alloc ops (vb_mem v) kz ''vb_selftest'' 0x1000 8 = (s', r)" by fastforce
  have "vb_ok (v\<lparr>vb_mem := s', vb_selftest := map_option fst r\<rparr>)"
  proof (cases r)
    case None
    have "good s' \<and> live s' = live (vb_mem v)" by (rule alloc_fail [OF G a [unfolded None]])
    moreover have "pools_ok (live (vb_mem v)) None (g_pools v)"
      by (rule pools_okI) (auto intro: pools_ok_length [OF P] pools_ok_pool [OF P] dest: pools_ok_mmb [OF P])
    ultimately show ?thesis by (simp add: vb_ok_def None)
  next
    case (Some r')
    then obtain p phys where r: "r = Some (p, phys)" by (cases r') simp
    from alloc_new [OF G fresh a [unfolded r]] obtain e where
      N: "good s'" "p \<notin> fst ` live (vb_mem v)" "live s' = insert (p, unat phys, e) (live (vb_mem v))" by blast
    have P': "pools_ok (live s') (vb_selftest v) (g_pools v)" using N(3) by (auto intro: pools_ok_live [OF P])
    have "vp_mmb (g_pools v ! i) \<noteq> p" if "i < MAX_POOLS" "vp_used (g_pools v ! i)" for i
      using pool_mmb_live [OF P that] N(2) by auto
    then have "pools_ok (live s') (Some p) (g_pools v)"
      by (intro pools_okI) (auto simp: N(3) intro: pools_ok_length [OF P'] pools_ok_pool [OF P', unfolded N(3)]
        dest: pools_ok_mmb [OF P'])
    then show ?thesis by (simp add: vb_ok_def r N(1))
  qed
  moreover have "vb_ok (v\<lparr>vb_mem := op_free ops (vb_mem v) p, vb_selftest := None\<rparr>)" if t: "vb_selftest v = Some p" for p
  proof -
    have none: "pools_ok (live (vb_mem v)) None (g_pools v)"
      by (rule pools_okI) (auto intro: pools_ok_length [OF P] pools_ok_pool [OF P] dest: pools_ok_mmb [OF P])
    have "pools_ok (live (op_free ops (vb_mem v) p)) None (g_pools v)"
      by (rule pools_ok_free [OF none G]) (use pools_ok_test [OF P] t in auto)
    then show ?thesis using free_live [OF G] by (simp add: vb_ok_def)
  qed
  ultimately show ?thesis
    using v by (cases r) (auto simp: vb_ioctl_t_def a split: option.split)
qed

lemma vb_ok_cnt [simp]: "vb_ok (v\<lparr>g_ioctl_cnt := n\<rparr>) = vb_ok v"
  by (simp add: vb_ok_def)

lemma ioctl_ok:
  assumes "vb_ok v" "\<And>p. kz = Some p \<Longrightarrow> p \<notin> fst ` live (vb_mem v)"
  shows "vb_ok (snd (ar_vb_ioctl ops req kz bm copy v))"
proof -
  have c: "vb_ok (v\<lparr>g_ioctl_cnt := g_ioctl_cnt v + 1\<rparr>)"
    "\<And>p. kz = Some p \<Longrightarrow> p \<notin> fst ` live (vb_mem (v\<lparr>g_ioctl_cnt := g_ioctl_cnt v + 1\<rparr>))" using assms by simp_all
  have "\<And>f q. snd (apfst f q) = snd q" by (simp add: apfst_def)
  then show ?thesis
    using assms c crtpl_ok [OF c] destpl_ok [OF c(1)] getblk_ok [OF c(1)] rlsblk_ok [OF c(1)] selftest_ok [OF assms]
    by (cases req) (simp_all add: ar_vb_ioctl_def Let_def)
qed

text \<open>Two pools never share a byte.\<close>

lemma pool_range:
  assumes v: "vb_ok v" and i: "i < MAX_POOLS" "vp_used (g_pools v ! i)"
  shows "pool_end (g_pools v ! i) < 2 ^ 64"
proof -
  note V = v [unfolded vb_ok_def]
  show ?thesis using pools_ok_pool [OF conjunct2 [OF V] i] live_range [OF conjunct1 [OF V]]
    unfolding pool_ok_def pool_end_def by fastforce
qed

lemma pools_apart:
  assumes v: "vb_ok v" and i: "i < MAX_POOLS" "vp_used (g_pools v ! i)"
    and j: "j < MAX_POOLS" "vp_used (g_pools v ! j)" and "i \<noteq> j"
  shows "pool_end (g_pools v ! i) \<le> unat (vp_base (g_pools v ! j)) \<or>
    pool_end (g_pools v ! j) \<le> unat (vp_base (g_pools v ! i))"
proof -
  note V = v [unfolded vb_ok_def]
  note P = conjunct2 [OF V]
  obtain e where e: "(vp_mmb (g_pools v ! i), unat (vp_base (g_pools v ! i)), e) \<in> live (vb_mem v)"
    "pool_end (g_pools v ! i) \<le> e" using pools_ok_pool [OF P i] unfolding pool_ok_def pool_end_def by blast
  obtain f where f: "(vp_mmb (g_pools v ! j), unat (vp_base (g_pools v ! j)), f) \<in> live (vb_mem v)"
    "pool_end (g_pools v ! j) \<le> f" using pools_ok_pool [OF P j] unfolding pool_ok_def pool_end_def by blast
  show ?thesis
    using live_apart [OF conjunct1 [OF V] e(1) f(1) pools_ok_mmb [OF P i(1) j(1) \<open>i \<noteq> j\<close> i(2) j(2)]] e(2) f(2)
    by linarith
qed

lemma covers_iff:
  assumes v: "vb_ok v" and i: "i < MAX_POOLS" "vp_used (g_pools v ! i)"
  shows "pool_covers phys (g_pools v ! i) \<longleftrightarrow>
    unat (vp_base (g_pools v ! i)) \<le> unat phys \<and> unat phys < pool_end (g_pools v ! i)"
proof -
  let ?p = "g_pools v ! i"
  have r: "unat (vp_base ?p) + unat (vp_blk_size ?p) * unat (vp_blk_cnt ?p) < 2 ^ 64"
    using pool_range [OF v i] by (simp add: pool_end_def)
  have u: "unat (ucast (vp_blk_cnt ?p) :: u64) = unat (vp_blk_cnt ?p)" by (simp add: unat_ucast_up)
  have m: "unat (vp_blk_size ?p * ucast (vp_blk_cnt ?p)) = unat (vp_blk_size ?p) * unat (vp_blk_cnt ?p)"
    using r by (subst unat_mult_small) (simp_all add: u)
  have "unat (vp_base ?p + vp_blk_size ?p * ucast (vp_blk_cnt ?p)) = pool_end ?p"
    using r by (subst unat_add_small) (simp_all add: m pool_end_def)
  then show ?thesis using i by (simp add: pool_covers_def word_le_nat_alt word_less_nat_alt)
qed

lemma pool_by_phys_covers:
  assumes v: "vb_ok v" and i: "i < MAX_POOLS" "vp_used (g_pools v ! i)" and c: "pool_covers phys (g_pools v ! i)"
  shows "pool_by_phys (g_pools v) phys = Some (g_pools v ! i)"
proof -
  have len: "length (g_pools v) = MAX_POOLS" by (rule pools_ok_length [OF conjunct2 [OF v [unfolded vb_ok_def]]])
  have "find (pool_covers phys) (g_pools v) \<noteq> None" using c i len by (auto simp: find_None_iff in_set_conv_nth)
  then obtain q where q: "find (pool_covers phys) (g_pools v) = Some q" by blast
  then obtain j where j: "j < MAX_POOLS" "pool_covers phys (g_pools v ! j)" "q = g_pools v ! j"
    using len by (auto simp: find_Some_iff)
  have uj: "vp_used (g_pools v ! j)" using j(2) by (simp add: pool_covers_def)
  have "i = j"
  proof (rule ccontr)
    assume "i \<noteq> j"
    show False
      using pools_apart [OF v i j(1) uj \<open>i \<noteq> j\<close>] c j(2) unfolding covers_iff [OF v i] covers_iff [OF v j(1) uj] by linarith
  qed
  then show ?thesis using q j(3) len by (simp add: pool_by_phys_def)
qed

text \<open>What a valid handle is.\<close>

lemma hl2pa_value:
  assumes v: "vb_ok v" and pa: "vb_hl2pa (Some h) True v = Inr pa"
  obtains i idx where "i < MAX_POOLS" "vp_used (g_pools v ! i)" "idx < unat (vp_blk_cnt (g_pools v ! i))"
    "h = VB_HANDLE (of_nat i) (of_nat idx)" "unat (VB_HANDLE_POOLID h) = i" "vp_id (g_pools v ! i) = VB_HANDLE_POOLID h"
    "unat pa = unat (vp_base (g_pools v ! i)) + idx * unat (vp_blk_size (g_pools v ! i))"
    "0 < unat (vp_blk_size (g_pools v ! i))"
proof -
  let ?i = "unat (VB_HANDLE_POOLID h)" and ?k = "VB_HANDLE_INDEX h"
  from pa obtain p where p: "pool_by_id (g_pools v) (VB_HANDLE_POOLID h) = Some p" "?k < vp_blk_cnt p"
    "pa = vp_base p + ucast ?k * vp_blk_size p"
    by (auto simp: vb_hl2pa_def Let_def not_le split: if_splits option.splits)
  note at = pool_by_id_Some [OF p(1)]
  have i: "?i < MAX_POOLS" "vp_used (g_pools v ! ?i)" using at by simp_all
  have p': "p = g_pools v ! ?i" using at by simp
  have ok: "pool_ok (live (vb_mem v)) ?i p"
    using pools_ok_pool [OF conjunct2 [OF v [unfolded vb_ok_def]] i] p' by simp
  have k: "unat ?k < unat (vp_blk_cnt p)" using p(2) by (simp add: word_less_nat_alt)
  have r: "unat (vp_base p) + unat (vp_blk_size p) * unat (vp_blk_cnt p) < 2 ^ 64"
    using pool_range [OF v i] p' by (simp add: pool_end_def)
  have "unat ?k * unat (vp_blk_size p) \<le> unat (vp_blk_size p) * unat (vp_blk_cnt p)" using k by simp
  then have m: "unat (vp_base p) + unat ?k * unat (vp_blk_size p) < 2 ^ 64" using r by linarith
  then have "unat (ucast ?k * vp_blk_size p) = unat ?k * unat (vp_blk_size p)"
    by (subst unat_mult_small) (simp_all add: unat_ucast_up)
  then have "unat pa = unat (vp_base p) + unat ?k * unat (vp_blk_size p)"
    unfolding p(3) using m by (subst unat_add_small) simp_all
  then show thesis
    using that [OF i, of "unat ?k"] k ok p' handle_split [of h] by (simp add: pool_ok_def of_nat_unat)
qed

lemma pa2hl_value:
  assumes v: "vb_ok v" and i: "i < MAX_POOLS" "vp_used (g_pools v ! i)"
    and idx: "idx < unat (vp_blk_cnt (g_pools v ! i))"
    and lo: "unat (vp_base (g_pools v ! i)) + idx * unat (vp_blk_size (g_pools v ! i)) \<le> unat phys"
    and hi: "unat phys < unat (vp_base (g_pools v ! i)) + Suc idx * unat (vp_blk_size (g_pools v ! i))"
  shows "vb_pa2hl (Some phys) v = Inr (VB_HANDLE (of_nat i) (of_nat idx))"
proof -
  let ?p = "g_pools v ! i"
  have ok: "pool_ok (live (vb_mem v)) i ?p" by (rule pools_ok_pool [OF conjunct2 [OF v [unfolded vb_ok_def]] i])
  then have sz: "0 < unat (vp_blk_size ?p)" and cnt: "unat (vp_blk_cnt ?p) \<le> 0xffff" by (simp_all add: pool_ok_def)
  have "Suc idx * unat (vp_blk_size ?p) \<le> unat (vp_blk_cnt ?p) * unat (vp_blk_size ?p)"
    using idx by (intro mult_right_mono) simp_all
  then have "pool_covers phys ?p" unfolding covers_iff [OF v i] pool_end_def using lo hi by (simp add: mult.commute)
  then have f: "pool_by_phys (g_pools v) phys = Some ?p" by (rule pool_by_phys_covers [OF v i])
  have le: "vp_base ?p \<le> phys" using lo by (simp add: word_le_nat_alt)
  define d where "d = unat phys - unat (vp_base ?p)"
  have "d div unat (vp_blk_size ?p) = idx"
  proof (rule div_nat_eqI)
    show "unat (vp_blk_size ?p) * idx \<le> d" using lo unfolding d_def by (simp add: mult.commute)
    show "d < unat (vp_blk_size ?p) * Suc idx"
      using lo hi unfolding d_def by (simp add: mult.commute)
  qed
  then have "unat ((phys - vp_base ?p) div vp_blk_size ?p) = idx"
    using le by (simp add: unat_div_distrib unat_sub d_def)
  then have "ucast ((phys - vp_base ?p) div vp_blk_size ?p) = (of_nat idx :: u32)"
    by (simp add: unat_ucast_mod unat_of_nat word_eq_unatI)
  then show ?thesis using ok by (simp add: vb_pa2hl_def f pool_ok_def)
qed

end

section \<open>Requests on the MMZ allocator\<close>

text \<open>A request of the device, and the state the module starts in.  The pointer \<open>kzalloc\<close>
  returns is not one of a live block.\<close>

inductive vb_step :: "osal vb \<Rightarrow> osal vb \<Rightarrow> bool" where
  request: "(\<And>p. kz = Some p \<Longrightarrow> p \<notin> fst ` mmz_live (vb_mem v)) \<Longrightarrow>
    vb_step v (snd (ar_vb_ioctl mmz_ops req kz bm_ok copy_ok v))"

definition vb_init :: "'s \<Rightarrow> 's vb" where
  "vb_init s = \<lparr>vb_mem = s, g_pools = replicate MAX_POOLS zero_pool, g_ioctl_cnt = 0, vb_selftest = None\<rparr>"

lemma vb_init_ok: "mmz_good os \<Longrightarrow> mmz.vb_ok (vb_init os)"
  by (simp add: mmz.vb_ok_def vb_init_def) (rule pools_okI; simp add: zero_pool_def)

lemma vb_reachable_ok:
  assumes "mmz_good os" "vb_step\<^sup>*\<^sup>* (vb_init os) v" shows "mmz.vb_ok v"
  using assms(2)
proof induction
  case base then show ?case by (rule vb_init_ok [OF assms(1)])
next
  case (step v v')
  from step.hyps(2) step.IH show ?case by cases (simp add: mmz.ioctl_ok)
qed


text \<open>A module state with one pool of two blocks.\<close>

definition two_blocks :: "vb_pool_cfg" where
  "two_blocks = \<lparr>cfg_blk_size = 0x1000, cfg_blk_cnt = 2, cfg_pool_type = 0, cfg_name = []\<rparr>"

definition pool0 :: vb_pool where
  "pool0 = \<lparr>vp_used = True, vp_id = 0, vp_mmb = 7, vp_base = 0x29200000, vp_blk_size = 0x1000, vp_blk_cnt = 2,
     vp_type = 0, vp_free_map = [True, True], vp_name = []\<rparr>"

definition one_pool :: "osal vb" where
  "one_pool = snd (ar_vb_ioctl mmz_ops (VB_CRTPL (Some two_blocks)) (Some 7) True True (vb_init one_zone))"

lemma first_index_0: "0 < length xs \<Longrightarrow> P (xs ! 0) \<Longrightarrow> first_index P xs = Some 0"
  by (cases xs) (simp_all add: first_index_def)

lemma one_zone_good: "mmz_good one_zone"
  using one_zone_ok by (simp add: mmz_good_def zones_apart_def one_zone_simps)

lemma one_pool_step: "vb_step\<^sup>*\<^sup>* (vb_init one_zone) one_pool"
  unfolding one_pool_def
  by (rule r_into_rtranclp, rule request) (simp add: vb_init_def mmz_live_def all_blocks_def one_zone_simps empty_zone_def)

lemma one_pool_alloc: "\<exists>os b. hil_mmb_alloc one_zone (Some []) 0x2000 0x1000 0 (Some []) (Some 7) = (os, Some b) \<and>
    mmb_ptr b = 7 \<and> mmb_phys b = 0x29200000"
proof -
  have "zone_request empty_zone 0x2000 0x1000 = Some (0x2000, 0x1000)"
    by (simp add: zone_request_def empty_zone_def ALIGN_def is_power_of_2_def Let_def)
  moreover have "zone_place empty_zone 0x2000 0x1000 = Some 0x29200000"
    by (simp add: empty_zone_def zone_place_def ALIGN_def check_add_overflow_def Let_def)
  ultimately have "\<exists>z b. zone_alloc_locked empty_zone (Some []) 0x2000 0x1000 (Some 7) = Some (z, b) \<and>
      mmb_ptr b = 7 \<and> mmb_phys b = 0x29200000"
    by (simp add: zone_alloc_locked_def Let_def)
  then show ?thesis by (auto simp: hil_mmb_alloc_def find_anonymous)
qed

lemma one_pool_pools: "g_pools one_pool = (replicate MAX_POOLS zero_pool)[0 := pool0]"
proof -
  obtain os b where a: "hil_mmb_alloc one_zone (Some []) 0x2000 0x1000 0 (Some []) (Some 7) = (os, Some b)"
    "mmb_ptr b = 7" "mmb_phys b = 0x29200000" using one_pool_alloc by blast
  have "first_index (\<lambda>p. \<not> vp_used p) (replicate MAX_POOLS zero_pool) = Some 0"
    by (rule first_index_0) (simp_all add: MAX_POOLS_def zero_pool_def)
  moreover have "check_mul_overflow 0x1000 2 = Some (0x2000 :: u64)" by (simp add: check_mul_overflow_def)
  moreover have "replicate 2 True = [True, True]" by (simp add: numeral_2_eq_2)
  ultimately show ?thesis
    using a by (simp add: one_pool_def ar_vb_ioctl_def Let_def vb_crtpl_def two_blocks_def vb_init_def mmz_ops_def
        strscpy_def pool0_def)
qed

lemma one_pool_0: "g_pools one_pool ! 0 = pool0" "0 < MAX_POOLS" "length (g_pools one_pool) = MAX_POOLS"
  by (simp_all add: one_pool_pools MAX_POOLS_def)




text \<open>Granting a block takes the first free block of a pool whose blocks are large enough and
  nothing else: the handle resolves to the block's address, the block was free and is not any more,
  every other pool is unchanged, and releasing the handle gives back the state before the grant.\<close>

theorem vb_getblk_release_roundtrip:
  assumes "mmz_good os" and "vb_step\<^sup>*\<^sup>* (vb_init os) v"
    and "vb_getblk (Some b) v = (Inr h, v')"
  shows "\<exists>i idx. i < MAX_POOLS \<and> vp_used (g_pools v ! i) \<and> h = VB_HANDLE (of_nat i) (of_nat idx) \<and>
    (blk_req_size b = 0 \<or> blk_req_size b \<le> vp_blk_size (g_pools v ! i)) \<and>
    (blk_pool_id b \<noteq> - 1 \<longrightarrow> i = unat (blk_pool_id b)) \<and>
    idx < unat (vp_blk_cnt (g_pools v ! i)) \<and> vp_free_map (g_pools v ! i) ! idx \<and>
    \<not> vp_free_map (g_pools v' ! i) ! idx \<and> (\<forall>k. k < idx \<longrightarrow> \<not> vp_free_map (g_pools v ! i) ! k) \<and>
    (\<forall>j. j \<noteq> i \<longrightarrow> g_pools v' ! j = g_pools v ! j) \<and>
    vb_hl2pa (Some h) True v' = Inr (vp_base (g_pools v ! i) + of_nat idx * vp_blk_size (g_pools v ! i)) \<and>
    vb_rlsblk (Some (b\<lparr>blk_handle := h\<rparr>)) v' = (Inr 0, v)"
proof -
  have v: "mmz.vb_ok v" by (rule vb_reachable_ok [OF assms(1,2)])
  note P = conjunct2 [OF v [unfolded mmz.vb_ok_def]]
  note len = pools_ok_length [OF P]
  from assms(3) obtain i where gi: "getblk_pool (g_pools v) b = Inr i"
    by (auto simp: vb_getblk_def split: if_splits sum.splits)
  note i = mmz.getblk_pool_used [OF gi len]
  let ?p = "g_pools v ! i"
  from assms(3) obtain idx where fi: "first_index (\<lambda>f. f) (vp_free_map ?p) = Some idx"
    and sz: "\<not> (blk_req_size b \<noteq> 0 \<and> blk_req_size b > vp_blk_size ?p)"
    and h: "h = VB_HANDLE (vp_id ?p) (of_nat idx)"
    and v': "v' = v\<lparr>g_pools := (g_pools v)[i := ?p\<lparr>vp_free_map := (vp_free_map ?p)[idx := False]\<rparr>]\<rparr>"
    by (auto simp: vb_getblk_def gi Let_def split: if_splits option.splits)
  have ok: "pool_ok (mmz_live (vb_mem v)) i ?p" by (rule pools_ok_pool [OF P]) (use i in simp_all)
  then have id: "vp_id ?p = of_nat i" and lenm: "length (vp_free_map ?p) = unat (vp_blk_cnt ?p)"
    and cnt: "unat (vp_blk_cnt ?p) \<le> 0xffff" by (simp_all add: pool_ok_def)
  have idx: "idx < unat (vp_blk_cnt ?p)" "vp_free_map ?p ! idx" "\<forall>k<idx. \<not> vp_free_map ?p ! k"
    using first_index_Some [OF fi] lenm by simp_all
  have small: "i < 2 ^ 9" "idx < 2 ^ 16" using i idx(1) cnt by (simp_all add: MAX_POOLS_def)
  have ui: "unat (of_nat i :: u32) = i" "unat (of_nat idx :: u32) = idx" "unat (of_nat idx :: u64) = idx"
    using small by (simp_all add: unat_of_nat_small)
  have hp: "VB_HANDLE_POOLID h = of_nat i" and hi: "VB_HANDLE_INDEX h = of_nat idx"
    using small handle_poolid [of "of_nat i"] handle_index [of "of_nat idx"] by (simp_all add: h id ui)
  have hm: "\<not> h > 0x1ffffff" using handle_max [of "of_nat i"] i by (simp add: h id ui not_less)
  let ?q = "?p\<lparr>vp_free_map := (vp_free_map ?p)[idx := False]\<rparr>"
  have q: "pool_by_id (g_pools v') (of_nat i) = Some ?q" using i len by (simp add: pool_by_id_def ui v')
  have lt: "(of_nat idx :: u32) < vp_blk_cnt ?p" using idx(1) by (simp add: word_less_nat_alt ui)
  have "ucast (of_nat idx :: u32) = (of_nat idx :: u64)"
    by (rule word_eq_unatI) (simp add: unat_ucast_up ui)
  then have "vb_hl2pa (Some h) True v' = Inr (vp_base ?p + of_nat idx * vp_blk_size ?p)"
    using hm lt by (simp add: vb_hl2pa_def hp hi q Let_def not_le)
  moreover have "(vp_free_map ?p)[idx := True] = vp_free_map ?p" using idx by (metis list_update_id)
  then have "vb_rlsblk (Some (b\<lparr>blk_handle := h\<rparr>)) v' = (Inr 0, v)"
    using hm lt i len by (simp add: vb_rlsblk_def hp hi q Let_def ui) (simp add: v')
  moreover have "blk_pool_id b \<noteq> - 1 \<longrightarrow> i = unat (blk_pool_id b)"
    using gi by (auto simp: getblk_pool_def split: if_splits option.splits)
  moreover have "\<not> vp_free_map (g_pools v' ! i) ! idx" "\<forall>j. j \<noteq> i \<longrightarrow> g_pools v' ! j = g_pools v ! j"
    using i len idx lenm by (simp_all add: v')
  ultimately show ?thesis
    using i sz idx by (intro exI [of _ i] exI [of _ idx]) (auto simp: h id not_less)
qed

definition any_block :: vb_blk where
  "any_block = \<lparr>blk_pool_id = - 1, blk_handle = 0, blk_req_size = 0x800, blk_vb_uid = 0\<rparr>"

theorem vb_getblk_release_roundtrip_witness:
  "\<exists>v'. vb_getblk (Some any_block) one_pool = (Inr 0, v') \<and> vb_rlsblk (Some any_block) v' = (Inr 0, one_pool)"
proof -
  have "first_index (\<lambda>p. vp_used p \<and> \<not> (0x800 \<noteq> (0::u64) \<and> 0x800 > vp_blk_size p) \<and> True \<in> set (vp_free_map p))
      (take MAX_POOLS (g_pools one_pool)) = Some 0"
    by (rule first_index_0) (simp_all add: one_pool_0 pool0_def)
  then have "fst (vb_getblk (Some any_block) one_pool) = Inr 0"
    using one_pool_0 by (simp add: vb_getblk_def getblk_pool_def any_block_def pool0_def first_index_def VB_HANDLE_def Let_def)
  then obtain v' where g: "vb_getblk (Some any_block) one_pool = (Inr 0, v')" by (metis prod.collapse)
  have "any_block\<lparr>blk_handle := 0\<rparr> = any_block" by (simp add: any_block_def)
  then show ?thesis using vb_getblk_release_roundtrip [OF one_zone_good one_pool_step g] g by auto
qed

end
