(* ===== verification/Dmabuf_Map.thy ===== *)
theory Dmabuf_Map
  imports Kernel_Base
begin

text \<open>
  \<open>ml_dmabuf_map.h\<close>: the per-open cache of dma-buf mappings shared by the blit shim and the
  scaler.  The dma-buf core is not part of the repository: \<open>dmabuf_env\<close> is its answers, one per
  call and unconstrained, and \<open>dmabuf_world\<close> keeps the references, attachments and mappings this
  client holds, so that a leak, a double release or a use of a released mapping shows.  The
  locale \<open>mapping_cache\<close> is what the two drivers rely on; it is interpreted on the code's cache.
\<close>

section \<open>The dma-buf core as the driver sees it\<close>

type_synonym dbuf = nat

datatype dma_data_direction = DMA_BIDIRECTIONAL | DMA_TO_DEVICE | DMA_FROM_DEVICE

text \<open>The answers of the core, by the number of calls made so far: the buffer behind a descriptor,
  whether an attach fails, and what a mapping delivers: the number of segments, and address and
  length of the first.\<close>

record dmabuf_env =
  env_get :: "nat \<Rightarrow> int \<Rightarrow> errno + dbuf"
  env_attach :: "nat \<Rightarrow> dbuf \<Rightarrow> errno option"
  env_map :: "nat \<Rightarrow> dbuf \<Rightarrow> dma_data_direction \<Rightarrow> errno + (nat \<times> u64 \<times> u64)"

record dmabuf_world =
  w_calls :: nat
  w_refs :: "dbuf \<Rightarrow> int"
  w_attached :: "nat \<Rightarrow> dbuf option"
  w_mapped :: "nat \<Rightarrow> (nat \<times> dma_data_direction) option"

definition dma_buf_get :: "dmabuf_env \<Rightarrow> int \<Rightarrow> dmabuf_world \<Rightarrow> (errno + dbuf) \<times> dmabuf_world" where
  "dma_buf_get env fd w =
     (case env_get env (w_calls w) fd of
        Inl e \<Rightarrow> (Inl e, w\<lparr>w_calls := w_calls w + 1\<rparr>)
      | Inr db \<Rightarrow> (Inr db, w\<lparr>w_calls := w_calls w + 1, w_refs := (w_refs w)(db := w_refs w db + 1)\<rparr>))"

definition dma_buf_put :: "dbuf \<Rightarrow> dmabuf_world \<Rightarrow> dmabuf_world" where
  "dma_buf_put db w = w\<lparr>w_refs := (w_refs w)(db := w_refs w db - 1)\<rparr>"

definition dma_buf_attach :: "dmabuf_env \<Rightarrow> dbuf \<Rightarrow> dmabuf_world \<Rightarrow> (errno + nat) \<times> dmabuf_world" where
  "dma_buf_attach env db w =
     (case env_attach env (w_calls w) db of
        Some e \<Rightarrow> (Inl e, w\<lparr>w_calls := w_calls w + 1\<rparr>)
      | None \<Rightarrow> (Inr (w_calls w), w\<lparr>w_calls := w_calls w + 1, w_attached := (w_attached w)(w_calls w := Some db)\<rparr>))"

definition dma_buf_detach :: "nat \<Rightarrow> dmabuf_world \<Rightarrow> dmabuf_world" where
  "dma_buf_detach att w = w\<lparr>w_attached := (w_attached w)(att := None)\<rparr>"

definition dma_buf_map_attachment ::
  "dmabuf_env \<Rightarrow> dbuf \<Rightarrow> nat \<Rightarrow> dma_data_direction \<Rightarrow> dmabuf_world \<Rightarrow> (errno + (nat \<times> nat \<times> u64 \<times> u64)) \<times> dmabuf_world" where
  "dma_buf_map_attachment env db att dir w =
     (case env_map env (w_calls w) db dir of
        Inl e \<Rightarrow> (Inl e, w\<lparr>w_calls := w_calls w + 1\<rparr>)
      | Inr (nents, base, len) \<Rightarrow>
          (Inr (w_calls w, nents, base, len),
           w\<lparr>w_calls := w_calls w + 1, w_mapped := (w_mapped w)(w_calls w := Some (att, dir))\<rparr>))"

definition dma_buf_unmap_attachment :: "nat \<Rightarrow> dmabuf_world \<Rightarrow> dmabuf_world" where
  "dma_buf_unmap_attachment sgt w = w\<lparr>w_mapped := (w_mapped w)(sgt := None)\<rparr>"

section \<open>The cache\<close>

record ml_bufmap =
  bm_dmabuf :: "dbuf option"
  bm_attach :: nat
  bm_sgt :: nat
  bm_dir :: dma_data_direction
  bm_base :: u64
  bm_size :: u64

definition ml_bufmap_map ::
  "dmabuf_env \<Rightarrow> dbuf \<Rightarrow> dma_data_direction \<Rightarrow> dmabuf_world \<Rightarrow> (errno + ml_bufmap) \<times> dmabuf_world" where
  "ml_bufmap_map env db dir w =
     (case dma_buf_attach env db w of
        (Inl e, w1) \<Rightarrow> (Inl e, w1)
      | (Inr att, w1) \<Rightarrow>
          (case dma_buf_map_attachment env db att dir w1 of
             (Inl e, w2) \<Rightarrow> (Inl e, dma_buf_detach att w2)
           | (Inr (sgt, nents, base, len), w2) \<Rightarrow>
               if nents \<noteq> 1 then (Inl EOPNOTSUPP, dma_buf_detach att (dma_buf_unmap_attachment sgt w2))
               else (Inr \<lparr>bm_dmabuf = Some db, bm_attach = att, bm_sgt = sgt, bm_dir = dir, bm_base = base, bm_size = len\<rparr>, w2)))"

text \<open>Drops the mapping and the entry's reference.  The callers pass entries in use, \<open>the\<close> reads
  their buffer.\<close>

definition ml_bufmap_unmap :: "ml_bufmap \<Rightarrow> dmabuf_world \<Rightarrow> ml_bufmap \<times> dmabuf_world" where
  "ml_bufmap_unmap bm w =
     (bm\<lparr>bm_dmabuf := None\<rparr>,
      dma_buf_put (the (bm_dmabuf bm)) (dma_buf_detach (bm_attach bm) (dma_buf_unmap_attachment (bm_sgt bm) w)))"

abbreviation ML_BUFCACHE_ENTRIES :: nat where "ML_BUFCACHE_ENTRIES \<equiv> 40"

record ml_bufcache =
  bc_ent :: "ml_bufmap list"
  bc_stamp :: "u64 list"
  bc_tick :: u64

text \<open>The scan: a hit that can serve the request, a hit that has to be remapped, or the first free
  slot, if any.\<close>

datatype scan = Hit nat | Remap nat | Miss "nat option"

fun bufcache_scan :: "ml_bufmap list \<Rightarrow> dbuf \<Rightarrow> dma_data_direction \<Rightarrow> nat \<Rightarrow> nat option \<Rightarrow> scan" where
  "bufcache_scan [] db dir i slot = Miss slot"
| "bufcache_scan (bm # bms) db dir i slot =
     (if bm_dmabuf bm = Some db
      then if bm_dir bm \<noteq> dir \<and> bm_dir bm \<noteq> DMA_BIDIRECTIONAL then Remap i else Hit i
      else bufcache_scan bms db dir (i + 1) (if slot = None \<and> bm_dmabuf bm = None then Some i else slot))"

text \<open>The slot with the oldest stamp; -1 if every stamp is \<open>U64_MAX\<close>.\<close>

fun lru_slot :: "u64 list \<Rightarrow> nat \<Rightarrow> u64 \<Rightarrow> int \<Rightarrow> int" where
  "lru_slot [] i oldest slot = slot"
| "lru_slot (s # ss) i oldest slot = (if s < oldest then lru_slot ss (i + 1) s (int i) else lru_slot ss (i + 1) oldest slot)"

text \<open>The common tail: map into the slot, give our reference back on failure, stamp the entry.\<close>

definition bufcache_fill ::
  "dmabuf_env \<Rightarrow> nat \<Rightarrow> dbuf \<Rightarrow> dma_data_direction \<Rightarrow> ml_bufcache \<Rightarrow> dmabuf_world \<Rightarrow> (errno + nat) \<times> ml_bufcache \<times> dmabuf_world" where
  "bufcache_fill env slot db dir cl w =
     (case ml_bufmap_map env db dir w of
        (Inl e, w1) \<Rightarrow> (Inl e, cl, dma_buf_put db w1)
      | (Inr bm, w1) \<Rightarrow>
          (Inr slot, cl\<lparr>bc_ent := (bc_ent cl)[slot := bm], bc_tick := bc_tick cl + 1,
             bc_stamp := (bc_stamp cl)[slot := bc_tick cl + 1]\<rparr>, w1))"

definition bufcache_drop :: "nat \<Rightarrow> ml_bufcache \<Rightarrow> dmabuf_world \<Rightarrow> ml_bufcache \<times> dmabuf_world" where
  "bufcache_drop i cl w =
     (case ml_bufmap_unmap (bc_ent cl ! i) w of (bm, w1) \<Rightarrow> (cl\<lparr>bc_ent := (bc_ent cl)[i := bm]\<rparr>, w1))"

definition ml_bufcache_map_fd ::
  "dmabuf_env \<Rightarrow> int \<Rightarrow> dma_data_direction \<Rightarrow> ml_bufcache \<times> dmabuf_world \<Rightarrow> (errno + nat) \<times> ml_bufcache \<times> dmabuf_world" where
  "ml_bufcache_map_fd env fd dir s =
     (case s of (cl, w) \<Rightarrow>
      case dma_buf_get env fd w of
        (Inl e, w1) \<Rightarrow> (Inl e, cl, w1)
      | (Inr db, w1) \<Rightarrow>
          (case bufcache_scan (bc_ent cl) db dir 0 None of
             Hit i \<Rightarrow> (Inr i, cl\<lparr>bc_tick := bc_tick cl + 1, bc_stamp := (bc_stamp cl)[i := bc_tick cl + 1]\<rparr>, dma_buf_put db w1)
           | Remap i \<Rightarrow> (case bufcache_drop i cl w1 of (cl1, w2) \<Rightarrow> bufcache_fill env i db DMA_BIDIRECTIONAL cl1 w2)
           | Miss (Some slot) \<Rightarrow> bufcache_fill env slot db dir cl w1
           | Miss None \<Rightarrow>
               (let slot = nat (lru_slot (bc_stamp cl) 0 (- 1) (- 1))
                in case bufcache_drop slot cl w1 of (cl1, w2) \<Rightarrow> bufcache_fill env slot db dir cl1 w2)))"

definition ml_bufcache_release :: "ml_bufcache \<times> dmabuf_world \<Rightarrow> ml_bufcache \<times> dmabuf_world" where
  "ml_bufcache_release s =
     fold (\<lambda>i (cl, w). if bm_dmabuf (bc_ent cl ! i) \<noteq> None then bufcache_drop i cl w else (cl, w)) [0..<ML_BUFCACHE_ENTRIES] s"

text \<open>A zero-allocated cache and a client that holds nothing.\<close>

definition bufcache_empty :: "ml_bufcache" where
  "bufcache_empty = \<lparr>bc_ent = replicate ML_BUFCACHE_ENTRIES \<lparr>bm_dmabuf = None, bm_attach = 0, bm_sgt = 0,
     bm_dir = DMA_BIDIRECTIONAL, bm_base = 0, bm_size = 0\<rparr>, bc_stamp = replicate ML_BUFCACHE_ENTRIES 0, bc_tick = 0\<rparr>"

definition world_empty :: "nat \<Rightarrow> dmabuf_world" where
  "world_empty n = \<lparr>w_calls = n, w_refs = (\<lambda>_. 0), w_attached = (\<lambda>_. None), w_mapped = (\<lambda>_. None)\<rparr>"

section \<open>What a client holds\<close>

text \<open>The holdings match the entries in use, plus one reference in flight: for a cached buffer one
  reference, its attachment and its mapping, for any other nothing.\<close>

definition holds :: "dbuf option \<Rightarrow> ml_bufmap list \<Rightarrow> dmabuf_world \<Rightarrow> bool" where
  "holds x E w \<longleftrightarrow>
     (\<forall>db. w_refs w db = of_bool (\<exists>i<length E. bm_dmabuf (E ! i) = Some db) + of_bool (x = Some db)) \<and>
     (\<forall>a db. w_attached w a = Some db \<longleftrightarrow> (\<exists>i<length E. bm_dmabuf (E ! i) = Some db \<and> bm_attach (E ! i) = a)) \<and>
     (\<forall>g a d. w_mapped w g = Some (a, d) \<longleftrightarrow>
        (\<exists>i<length E. bm_dmabuf (E ! i) \<noteq> None \<and> bm_sgt (E ! i) = g \<and> bm_attach (E ! i) = a \<and> bm_dir (E ! i) = d)) \<and>
     (\<forall>i<length E. bm_dmabuf (E ! i) \<noteq> None \<longrightarrow> bm_attach (E ! i) < w_calls w \<and> bm_sgt (E ! i) < w_calls w)"

definition one_each :: "ml_bufmap list \<Rightarrow> bool" where
  "one_each E \<longleftrightarrow> (\<forall>i<length E. \<forall>j<length E. bm_dmabuf (E ! i) \<noteq> None \<longrightarrow> bm_dmabuf (E ! i) = bm_dmabuf (E ! j) \<longrightarrow> i = j)"

lemma holdsD:
  assumes "holds x E w"
  shows "w_refs w db = of_bool (\<exists>i<length E. bm_dmabuf (E ! i) = Some db) + of_bool (x = Some db)"
    "w_attached w a = Some db \<longleftrightarrow> (\<exists>i<length E. bm_dmabuf (E ! i) = Some db \<and> bm_attach (E ! i) = a)"
    "w_mapped w g = Some (a, d) \<longleftrightarrow>
        (\<exists>i<length E. bm_dmabuf (E ! i) \<noteq> None \<and> bm_sgt (E ! i) = g \<and> bm_attach (E ! i) = a \<and> bm_dir (E ! i) = d)"
    "i < length E \<Longrightarrow> bm_dmabuf (E ! i) \<noteq> None \<Longrightarrow> bm_attach (E ! i) < w_calls w \<and> bm_sgt (E ! i) < w_calls w"
  using assms by (simp_all add: holds_def)

text \<open>Two entries in use have different attachments and mappings.\<close>

lemma handles_apart:
  assumes "holds x E w" "one_each E" "i < length E" "j < length E" "bm_dmabuf (E ! i) \<noteq> None" "bm_dmabuf (E ! j) \<noteq> None"
  shows "bm_attach (E ! i) = bm_attach (E ! j) \<Longrightarrow> i = j" "bm_sgt (E ! i) = bm_sgt (E ! j) \<Longrightarrow> i = j"
proof -
  obtain d e where de: "bm_dmabuf (E ! i) = Some d" "bm_dmabuf (E ! j) = Some e" using assms by auto
  show A: "i = j" if "bm_attach (E ! i) = bm_attach (E ! j)"
  proof -
    have "w_attached w (bm_attach (E ! i)) = Some d" "w_attached w (bm_attach (E ! j)) = Some e"
      using holdsD(2) [OF assms(1)] assms(3,4) de by blast+
    then show ?thesis using that de assms(2-4) unfolding one_each_def by auto
  qed
  assume s: "bm_sgt (E ! i) = bm_sgt (E ! j)"
  have "w_mapped w (bm_sgt (E ! i)) = Some (bm_attach (E ! i), bm_dir (E ! i))"
    "w_mapped w (bm_sgt (E ! j)) = Some (bm_attach (E ! j), bm_dir (E ! j))"
    using holdsD(3) [OF assms(1)] assms(3-6) by blast+
  then show "i = j" using s A by simp
qed

lemma one_each_drop: "one_each E \<Longrightarrow> one_each (E[i := (E ! i)\<lparr>bm_dmabuf := None\<rparr>])"
  unfolding one_each_def by (cases "i < length E") (auto simp: nth_list_update split: if_splits)

lemma unmap_holds:
  assumes h: "holds x E w" "one_each E" and i: "i < length E" "bm_dmabuf (E ! i) \<noteq> None"
    and u: "ml_bufmap_unmap (E ! i) w = (bm, w')"
  shows "holds x (E[i := bm]) w'"
proof -
  obtain d where d: "bm_dmabuf (E ! i) = Some d" using i(2) by auto
  have bm: "bm = (E ! i)\<lparr>bm_dmabuf := None\<rparr>"
    and w': "w' = w\<lparr>w_refs := (w_refs w)(d := w_refs w d - 1), w_attached := (w_attached w)(bm_attach (E ! i) := None),
      w_mapped := (w_mapped w)(bm_sgt (E ! i) := None)\<rparr>"
    using u d by (auto simp: ml_bufmap_unmap_def dma_buf_put_def dma_buf_detach_def dma_buf_unmap_attachment_def)
  have only: "j = i" if "j < length E" "bm_dmabuf (E ! j) = Some d" for j
    using h(2) that i d unfolding one_each_def by metis
  have ex: "(\<exists>j<length (E[i := bm]). P (E[i := bm] ! j)) \<longleftrightarrow> (\<exists>j<length E. j \<noteq> i \<and> P (E ! j))" if "\<not> P bm" for P
    using that i(1) by (auto simp: nth_list_update)
  note apart = handles_apart [OF h i(1) _ i(2)]
  show ?thesis unfolding holds_def
  proof (intro conjI allI impI)
    fix db
    have r: "(\<exists>j<length (E[i := bm]). bm_dmabuf (E[i := bm] ! j) = Some db) \<longleftrightarrow> (\<exists>j<length E. j \<noteq> i \<and> bm_dmabuf (E ! j) = Some db)"
      by (rule ex) (simp add: bm)
    show "w_refs w' db = of_bool (\<exists>j<length (E[i := bm]). bm_dmabuf (E[i := bm] ! j) = Some db) + of_bool (x = Some db)"
    proof (cases "db = d")
      case True
      have "\<not> (\<exists>j<length E. j \<noteq> i \<and> bm_dmabuf (E ! j) = Some d)" using only by blast
      moreover have "\<exists>j<length E. bm_dmabuf (E ! j) = Some d" using i(1) d by blast
      ultimately show ?thesis unfolding r using holdsD(1) [OF h(1), of d] True by (simp add: w')
    next
      case False
      then have "(\<exists>j<length E. j \<noteq> i \<and> bm_dmabuf (E ! j) = Some db) \<longleftrightarrow> (\<exists>j<length E. bm_dmabuf (E ! j) = Some db)"
        using d by auto
      then show ?thesis unfolding r using holdsD(1) [OF h(1), of db] False by (simp add: w')
    qed
  next
    fix a db
    have r: "(\<exists>j<length (E[i := bm]). bm_dmabuf (E[i := bm] ! j) = Some db \<and> bm_attach (E[i := bm] ! j) = a) \<longleftrightarrow>
        (\<exists>j<length E. j \<noteq> i \<and> bm_dmabuf (E ! j) = Some db \<and> bm_attach (E ! j) = a)"
      by (rule ex [where P = "\<lambda>e. bm_dmabuf e = Some db \<and> bm_attach e = a"]) (simp add: bm)
    show "w_attached w' a = Some db \<longleftrightarrow>
        (\<exists>j<length (E[i := bm]). bm_dmabuf (E[i := bm] ! j) = Some db \<and> bm_attach (E[i := bm] ! j) = a)"
    proof (cases "a = bm_attach (E ! i)")
      case True
      have "\<not> (j < length E \<and> j \<noteq> i \<and> bm_dmabuf (E ! j) = Some db \<and> bm_attach (E ! j) = a)" for j
        using apart(1) [of j] True by auto
      then show ?thesis unfolding r using True by (simp add: w')
    next
      case False
      then show ?thesis unfolding r using holdsD(2) [OF h(1), of a db] by (auto simp: w')
    qed
  next
    fix g a dd
    have r: "(\<exists>j<length (E[i := bm]). bm_dmabuf (E[i := bm] ! j) \<noteq> None \<and> bm_sgt (E[i := bm] ! j) = g \<and>
        bm_attach (E[i := bm] ! j) = a \<and> bm_dir (E[i := bm] ! j) = dd) \<longleftrightarrow>
        (\<exists>j<length E. j \<noteq> i \<and> bm_dmabuf (E ! j) \<noteq> None \<and> bm_sgt (E ! j) = g \<and> bm_attach (E ! j) = a \<and> bm_dir (E ! j) = dd)"
      by (rule ex [where P = "\<lambda>e. bm_dmabuf e \<noteq> None \<and> bm_sgt e = g \<and> bm_attach e = a \<and> bm_dir e = dd"]) (simp add: bm)
    show "w_mapped w' g = Some (a, dd) \<longleftrightarrow> (\<exists>j<length (E[i := bm]). bm_dmabuf (E[i := bm] ! j) \<noteq> None \<and> bm_sgt (E[i := bm] ! j) = g \<and>
        bm_attach (E[i := bm] ! j) = a \<and> bm_dir (E[i := bm] ! j) = dd)"
    proof (cases "g = bm_sgt (E ! i)")
      case True
      have "\<not> (j < length E \<and> j \<noteq> i \<and> bm_dmabuf (E ! j) \<noteq> None \<and> bm_sgt (E ! j) = g)" for j
        using apart(2) [of j] True by auto
      then show ?thesis unfolding r using True by (simp add: w') blast
    next
      case False
      then show ?thesis unfolding r using holdsD(3) [OF h(1), of g a dd] by (auto simp: w')
    qed
  next
    fix j assume "j < length (E[i := bm])" "bm_dmabuf (E[i := bm] ! j) \<noteq> None"
    then show "bm_attach (E[i := bm] ! j) < w_calls w'" "bm_sgt (E[i := bm] ! j) < w_calls w'"
      using holdsD(4) [OF h(1), of j] i(1) by (auto simp: w' bm nth_list_update split: if_splits)
  qed
qed

lemma map_holds:
  assumes h: "holds (Some db) E w" and new: "\<And>j. j < length E \<Longrightarrow> bm_dmabuf (E ! j) \<noteq> Some db"
    and i: "i < length E" "bm_dmabuf (E ! i) = None" and m: "ml_bufmap_map env db dir w = (r, w')"
  shows "(case r of Inl e \<Rightarrow> holds (Some db) E w' | Inr bm \<Rightarrow> holds None (E[i := bm]) w' \<and> bm_dmabuf bm = Some db \<and> bm_dir bm = dir)"
proof (cases "env_attach env (w_calls w) db")
  case (Some e)
  then have "r = Inl e" "w' = w\<lparr>w_calls := w_calls w + 1\<rparr>" using m by (auto simp: ml_bufmap_map_def dma_buf_attach_def)
  then show ?thesis using h unfolding holds_def by (auto simp: less_Suc_eq)
next
  case None
  let ?c = "w_calls w"
  have old: "w_attached w ?c = None"
  proof (cases "w_attached w ?c")
    case (Some b)
    then show ?thesis using holdsD(2) [OF h, of ?c b] holdsD(4) [OF h] by (metis less_irrefl option.distinct(1))
  qed
  have oldm: "w_mapped w (Suc ?c) = None"
  proof (cases "w_mapped w (Suc ?c)")
    case (Some b)
    then obtain a d where "w_mapped w (Suc ?c) = Some (a, d)" by (cases b) auto
    then show ?thesis using holdsD(3) [OF h, of "Suc ?c" a d] holdsD(4) [OF h] by (metis Suc_n_not_le_n less_imp_le)
  qed
  note M = m [unfolded ml_bufmap_map_def dma_buf_attach_def None]
  consider (e) e where "env_map env (Suc ?c) db dir = Inl e"
    | (many) n b l where "env_map env (Suc ?c) db dir = Inr (n, b, l)" "n \<noteq> 1"
    | (one) b l where "env_map env (Suc ?c) db dir = Inr (1, b, l)"
    by (cases "env_map env (Suc ?c) db dir") (auto, metis)
  then show ?thesis
  proof cases
    case e
    then have "r = Inl e" and w': "w' = w\<lparr>w_calls := ?c + 2\<rparr>"
      using M old by (auto simp: dma_buf_map_attachment_def dma_buf_detach_def fun_upd_idem)
    then show ?thesis using h unfolding holds_def by (auto simp: less_Suc_eq)
  next
    case many
    then have "r = Inl EOPNOTSUPP" and w': "w' = w\<lparr>w_calls := ?c + 2\<rparr>"
      using M old oldm by (auto simp: dma_buf_map_attachment_def dma_buf_detach_def dma_buf_unmap_attachment_def fun_upd_idem)
    then show ?thesis using h unfolding holds_def by (auto simp: less_Suc_eq)
  next
    case one
    define bm where "bm = \<lparr>bm_dmabuf = Some db, bm_attach = ?c, bm_sgt = Suc ?c, bm_dir = dir, bm_base = b, bm_size = l\<rparr>"
    have r: "r = Inr bm" and w': "w' = w\<lparr>w_calls := ?c + 2, w_attached := (w_attached w)(?c := Some db), w_mapped := (w_mapped w)(Suc ?c := Some (?c, dir))\<rparr>"
      using M one by (auto simp: dma_buf_map_attachment_def bm_def)
    have ex: "(\<exists>j<length (E[i := bm]). P (E[i := bm] ! j)) \<longleftrightarrow> P bm \<or> (\<exists>j<length E. P (E ! j))" if "\<not> P (E ! i)" for P
      using that i(1) by (auto simp: nth_list_update)
    have "holds None (E[i := bm]) w'" unfolding holds_def
    proof (intro conjI allI impI)
      fix db'
      have q: "(\<exists>j<length (E[i := bm]). bm_dmabuf (E[i := bm] ! j) = Some db') \<longleftrightarrow> db' = db \<or> (\<exists>j<length E. bm_dmabuf (E ! j) = Some db')"
        using ex [where P = "\<lambda>e. bm_dmabuf e = Some db'"] i(2) by (auto simp: bm_def)
      show "w_refs w' db' = of_bool (\<exists>j<length (E[i := bm]). bm_dmabuf (E[i := bm] ! j) = Some db') + of_bool (None = Some db')"
        unfolding q using holdsD(1) [OF h, of db'] new by (auto simp: w')
    next
      fix a db'
      have q: "(\<exists>j<length (E[i := bm]). bm_dmabuf (E[i := bm] ! j) = Some db' \<and> bm_attach (E[i := bm] ! j) = a) \<longleftrightarrow>
          (db' = db \<and> a = ?c) \<or> (\<exists>j<length E. bm_dmabuf (E ! j) = Some db' \<and> bm_attach (E ! j) = a)"
        using ex [where P = "\<lambda>e. bm_dmabuf e = Some db' \<and> bm_attach e = a"] i(2) by (auto simp: bm_def)
      show "w_attached w' a = Some db' \<longleftrightarrow>
          (\<exists>j<length (E[i := bm]). bm_dmabuf (E[i := bm] ! j) = Some db' \<and> bm_attach (E[i := bm] ! j) = a)"
        unfolding q using holdsD(2) [OF h, of a db'] old by (auto simp: w')
    next
      fix g a d
      have q: "(\<exists>j<length (E[i := bm]). bm_dmabuf (E[i := bm] ! j) \<noteq> None \<and> bm_sgt (E[i := bm] ! j) = g \<and>
          bm_attach (E[i := bm] ! j) = a \<and> bm_dir (E[i := bm] ! j) = d) \<longleftrightarrow> (g = Suc ?c \<and> a = ?c \<and> d = dir) \<or>
          (\<exists>j<length E. bm_dmabuf (E ! j) \<noteq> None \<and> bm_sgt (E ! j) = g \<and> bm_attach (E ! j) = a \<and> bm_dir (E ! j) = d)"
        using ex [where P = "\<lambda>e. bm_dmabuf e \<noteq> None \<and> bm_sgt e = g \<and> bm_attach e = a \<and> bm_dir e = d"] i(2) by (auto simp: bm_def)
      show "w_mapped w' g = Some (a, d) \<longleftrightarrow> (\<exists>j<length (E[i := bm]). bm_dmabuf (E[i := bm] ! j) \<noteq> None \<and> bm_sgt (E[i := bm] ! j) = g \<and>
          bm_attach (E[i := bm] ! j) = a \<and> bm_dir (E[i := bm] ! j) = d)"
        unfolding q using holdsD(3) [OF h, of g a d] oldm by (auto simp: w')
    next
      fix j assume "j < length (E[i := bm])" "bm_dmabuf (E[i := bm] ! j) \<noteq> None"
      then show "bm_attach (E[i := bm] ! j) < w_calls w'" "bm_sgt (E[i := bm] ! j) < w_calls w'"
        using holdsD(4) [OF h, of j] i(1) by (auto simp: w' bm_def nth_list_update split: if_splits)
    qed
    then show ?thesis by (simp add: r) (simp add: bm_def)
  qed
qed

section \<open>The scan and the eviction\<close>

text \<open>An entry serves a request for its own direction, and a bidirectional one serves all.\<close>

definition serves :: "ml_bufmap \<Rightarrow> dma_data_direction \<Rightarrow> bool" where
  "serves bm dir \<longleftrightarrow> bm_dir bm = dir \<or> bm_dir bm = DMA_BIDIRECTIONAL"

definition scan_spec :: "ml_bufmap list \<Rightarrow> dbuf \<Rightarrow> dma_data_direction \<Rightarrow> nat \<Rightarrow> nat option \<Rightarrow> scan \<Rightarrow> bool" where
  "scan_spec E db dir k slot r \<longleftrightarrow>
     (case r of
        Hit i \<Rightarrow> k \<le> i \<and> i - k < length E \<and> bm_dmabuf (E ! (i - k)) = Some db \<and> serves (E ! (i - k)) dir
      | Remap i \<Rightarrow> k \<le> i \<and> i - k < length E \<and> bm_dmabuf (E ! (i - k)) = Some db \<and> \<not> serves (E ! (i - k)) dir
      | Miss None \<Rightarrow> slot = None \<and> (\<forall>e\<in>set E. bm_dmabuf e \<noteq> None \<and> bm_dmabuf e \<noteq> Some db)
      | Miss (Some j) \<Rightarrow> (\<forall>e\<in>set E. bm_dmabuf e \<noteq> Some db) \<and>
          (slot = Some j \<or> k \<le> j \<and> j - k < length E \<and> bm_dmabuf (E ! (j - k)) = None))"

lemma nth_after: "k \<le> i \<Longrightarrow> Suc k \<le> i \<Longrightarrow> (e # E) ! (i - k) = E ! (i - Suc k)"
  by (simp add: nth_Cons')

lemma bufcache_scan_spec: "scan_spec E db dir k slot (bufcache_scan E db dir k slot)"
proof (induction E db dir k slot rule: bufcache_scan.induct)
  case (2 bm bms db dir i slot)
  show ?case
  proof (cases "bm_dmabuf bm = Some db")
    case True
    then show ?thesis by (auto simp: scan_spec_def serves_def)
  next
    case False
    define sl where "sl = (if slot = None \<and> bm_dmabuf bm = None then Some i else slot)"
    have I: "scan_spec bms db dir (i + 1) sl (bufcache_scan bms db dir (i + 1) sl)" using 2 False by (simp add: sl_def)
    have e: "bufcache_scan (bm # bms) db dir i slot = bufcache_scan bms db dir (i + 1) sl" using False by (simp add: sl_def)
    have sl: "sl = slot \<or> sl = Some i \<and> bm_dmabuf bm = None" by (auto simp: sl_def)
    have n: "sl = None \<Longrightarrow> slot = None \<and> bm_dmabuf bm \<noteq> None" by (auto simp: sl_def split: if_splits)
    show ?thesis
    proof (cases "bufcache_scan bms db dir (i + 1) sl")
      case (Miss m)
      show ?thesis
      proof (cases m)
        case None
        then show ?thesis using I n False unfolding e Miss by (auto simp: scan_spec_def)
      next
        case (Some j)
        then show ?thesis using I sl False unfolding e Miss by (auto simp: scan_spec_def nth_Cons' Suc_diff_Suc)
      qed
    next
      case (Hit j)
      then show ?thesis using I unfolding e Hit by (auto simp: scan_spec_def nth_after)
    next
      case (Remap j)
      then show ?thesis using I unfolding e Remap by (auto simp: scan_spec_def nth_after)
    qed
  qed
qed (auto simp: scan_spec_def split: option.split)

lemma lru_slot_spec:
  "(lru_slot ss k oldest sl = sl \<and> (\<forall>s\<in>set ss. oldest \<le> s)) \<or>
   (\<exists>i<length ss. lru_slot ss k oldest sl = int (k + i) \<and> (\<forall>s\<in>set ss. ss ! i \<le> s) \<and> ss ! i < oldest)"
proof (induction ss k oldest sl rule: lru_slot.induct)
  case (2 s ss i oldest slot)
  show ?case
  proof (cases "s < oldest")
    case True
    then have e: "lru_slot (s # ss) i oldest slot = lru_slot ss (i + 1) s (int i)" by simp
    show ?thesis using 2(1) [OF True]
    proof (elim disjE exE conjE)
      assume a: "lru_slot ss (i + 1) s (int i) = int i" "\<forall>s'\<in>set ss. s \<le> s'"
      have "lru_slot ss (i + 1) s (int i) = int (i + 0) \<and> (\<forall>s'\<in>set (s # ss). (s # ss) ! 0 \<le> s') \<and> (s # ss) ! 0 < oldest"
        using a True by simp
      then show ?thesis unfolding e by (intro disjI2 exI [of _ 0]) auto
    next
      fix j assume a: "j < length ss" "lru_slot ss (i + 1) s (int i) = int (i + 1 + j)" "\<forall>s'\<in>set ss. ss ! j \<le> s'" "ss ! j < s"
      have "lru_slot ss (i + 1) s (int i) = int (i + Suc j) \<and> (\<forall>s'\<in>set (s # ss). (s # ss) ! Suc j \<le> s') \<and> (s # ss) ! Suc j < oldest"
        using a True by auto
      then show ?thesis unfolding e using a(1) by (intro disjI2 exI [of _ "Suc j"]) simp
    qed
  next
    case False
    then have e: "lru_slot (s # ss) i oldest slot = lru_slot ss (i + 1) oldest slot" by simp
    show ?thesis using 2(2) [OF False]
    proof (elim disjE exE conjE)
      assume a: "lru_slot ss (i + 1) oldest slot = slot" "\<forall>s'\<in>set ss. oldest \<le> s'"
      then show ?thesis unfolding e using False by (auto simp: not_less)
    next
      fix j assume a: "j < length ss" "lru_slot ss (i + 1) oldest slot = int (i + 1 + j)" "\<forall>s'\<in>set ss. ss ! j \<le> s'" "ss ! j < oldest"
      have "lru_slot ss (i + 1) oldest slot = int (i + Suc j) \<and> (\<forall>s'\<in>set (s # ss). (s # ss) ! Suc j \<le> s') \<and> (s # ss) ! Suc j < oldest"
        using a False by auto
      then show ?thesis unfolding e using a(1) by (intro disjI2 exI [of _ "Suc j"]) simp
    qed
  qed
qed simp

section \<open>The invariant of the cache\<close>

definition cache_inv :: "dbuf option \<Rightarrow> ml_bufcache \<Rightarrow> dmabuf_world \<Rightarrow> bool" where
  "cache_inv x cl w \<longleftrightarrow>
     length (bc_ent cl) = ML_BUFCACHE_ENTRIES \<and> length (bc_stamp cl) = ML_BUFCACHE_ENTRIES \<and>
     one_each (bc_ent cl) \<and> holds x (bc_ent cl) w \<and>
     (\<forall>i<ML_BUFCACHE_ENTRIES. bm_dmabuf (bc_ent cl ! i) \<noteq> None \<longrightarrow> bc_stamp cl ! i \<le> bc_tick cl) \<and>
     (\<forall>i<ML_BUFCACHE_ENTRIES. \<forall>j<ML_BUFCACHE_ENTRIES. bm_dmabuf (bc_ent cl ! i) \<noteq> None \<longrightarrow> bm_dmabuf (bc_ent cl ! j) \<noteq> None \<longrightarrow>
        bc_stamp cl ! i = bc_stamp cl ! j \<longrightarrow> i = j)"

lemma cache_invD:
  assumes "cache_inv x cl w"
  shows "length (bc_ent cl) = ML_BUFCACHE_ENTRIES" "length (bc_stamp cl) = ML_BUFCACHE_ENTRIES"
    "one_each (bc_ent cl)" "holds x (bc_ent cl) w"
    "i < ML_BUFCACHE_ENTRIES \<Longrightarrow> bm_dmabuf (bc_ent cl ! i) \<noteq> None \<Longrightarrow> bc_stamp cl ! i \<le> bc_tick cl"
    "i < ML_BUFCACHE_ENTRIES \<Longrightarrow> j < ML_BUFCACHE_ENTRIES \<Longrightarrow> bm_dmabuf (bc_ent cl ! i) \<noteq> None \<Longrightarrow>
       bm_dmabuf (bc_ent cl ! j) \<noteq> None \<Longrightarrow> bc_stamp cl ! i = bc_stamp cl ! j \<Longrightarrow> i = j"
  using assms unfolding cache_inv_def by blast+

lemma drop_inv:
  assumes inv: "cache_inv x cl w" and i: "i < ML_BUFCACHE_ENTRIES" "bm_dmabuf (bc_ent cl ! i) \<noteq> None"
    and d: "bufcache_drop i cl w = (cl', w')"
  shows "cache_inv x cl' w' \<and> bm_dmabuf (bc_ent cl' ! i) = None \<and> bc_stamp cl' = bc_stamp cl \<and> bc_tick cl' = bc_tick cl \<and>
    (\<forall>j. j \<noteq> i \<longrightarrow> bc_ent cl' ! j = bc_ent cl ! j)"
proof -
  obtain bm where u: "ml_bufmap_unmap (bc_ent cl ! i) w = (bm, w')"
    using d by (auto simp: bufcache_drop_def split: prod.splits)
  have cl': "cl' = cl\<lparr>bc_ent := (bc_ent cl)[i := bm]\<rparr>" using d u by (simp add: bufcache_drop_def)
  have bm: "bm = (bc_ent cl ! i)\<lparr>bm_dmabuf := None\<rparr>" using u by (simp add: ml_bufmap_unmap_def)
  then have bmN: "bm_dmabuf bm = None" by simp
  note I = cache_invD [OF inv]
  have nth: "(bc_ent cl)[i := bm] ! j = (if j = i then bm else bc_ent cl ! j)" for j using i(1) I(1) by (simp add: nth_list_update)
  have sel: "bc_ent cl' = (bc_ent cl)[i := bm]" "bc_stamp cl' = bc_stamp cl" "bc_tick cl' = bc_tick cl" by (simp_all add: cl')
  have "cache_inv x cl' w'"
    unfolding cache_inv_def sel nth length_list_update
    using I(1,2,5,6) unmap_holds [OF I(4,3) _ i(2) u] one_each_drop [OF I(3), of i, folded bm] i(1) bmN
    by auto
  then show ?thesis unfolding sel nth by (simp add: bmN)
qed

lemma fill_inv:
  assumes inv: "cache_inv (Some db) cl w" and new: "\<And>j. j < ML_BUFCACHE_ENTRIES \<Longrightarrow> bm_dmabuf (bc_ent cl ! j) \<noteq> Some db"
    and i: "i < ML_BUFCACHE_ENTRIES" "bm_dmabuf (bc_ent cl ! i) = None" and room: "unat (bc_tick cl) + 1 < 2 ^ 64"
    and f: "bufcache_fill env i db dir cl w = (r, cl', w')"
  shows "cache_inv None cl' w' \<and> bc_tick cl' = bc_tick cl + of_bool (\<exists>k. r = Inr k) \<and>
    (\<forall>j. j \<noteq> i \<longrightarrow> bc_ent cl' ! j = bc_ent cl ! j \<and> bc_stamp cl' ! j = bc_stamp cl ! j) \<and>
    (\<forall>k. r = Inr k \<longrightarrow> k = i \<and> bm_dmabuf (bc_ent cl' ! i) = Some db \<and> bm_dir (bc_ent cl' ! i) = dir \<and> bc_stamp cl' ! i = bc_tick cl')"
proof -
  obtain m w1 where m: "ml_bufmap_map env db dir w = (m, w1)" by fastforce
  note I = cache_invD [OF inv]
  have i': "i < length (bc_ent cl)" using i I by simp
  note H = map_holds [OF I(4) _ i' i(2) m]
  show ?thesis
  proof (cases m)
    case (Inl e)
    then have eq: "r = Inl e" "cl' = cl" "w' = dma_buf_put db w1" using f m by (simp_all add: bufcache_fill_def)
    have "holds (Some db) (bc_ent cl) w1" using H new I(1) Inl by simp
    then have "holds None (bc_ent cl) w'" by (auto simp: holds_def eq dma_buf_put_def)
    then show ?thesis using inv by (simp add: eq cache_inv_def)
  next
    case (Inr bm)
    have eq: "r = Inr i" "w' = w1" and cl': "cl' = cl\<lparr>bc_ent := (bc_ent cl)[i := bm], bc_tick := bc_tick cl + 1,
        bc_stamp := (bc_stamp cl)[i := bc_tick cl + 1]\<rparr>" using f m Inr by (simp_all add: bufcache_fill_def)
    have b: "holds None ((bc_ent cl)[i := bm]) w'" "bm_dmabuf bm = Some db" "bm_dir bm = dir" using H new I(1) Inr eq by simp_all
    have nth: "(bc_ent cl)[i := bm] ! j = (if j = i then bm else bc_ent cl ! j)"
      "(bc_stamp cl)[i := bc_tick cl + 1] ! j = (if j = i then bc_tick cl + 1 else bc_stamp cl ! j)" for j
      using i(1) I(1,2) by (simp_all add: nth_list_update)
    have lt: "bc_tick cl < bc_tick cl + 1" using room by (simp add: word_less_nat_alt unat_add_small)
    have one: "one_each ((bc_ent cl)[i := bm])"
      unfolding one_each_def nth length_list_update
    proof (intro allI impI)
      fix j k assume jk: "j < length (bc_ent cl)" "k < length (bc_ent cl)" "bm_dmabuf (if j = i then bm else bc_ent cl ! j) \<noteq> None"
        "bm_dmabuf (if j = i then bm else bc_ent cl ! j) = bm_dmabuf (if k = i then bm else bc_ent cl ! k)"
      then show "j = k" using new [of j] new [of k] I(1,3) b(2) unfolding one_each_def by (auto split: if_splits)
    qed
    have st: "bc_stamp cl ! j < bc_tick cl + 1" if "j < ML_BUFCACHE_ENTRIES" "bm_dmabuf (bc_ent cl ! j) \<noteq> None" for j
      using I(5) [OF that] lt by simp
    have sel: "bc_ent cl' = (bc_ent cl)[i := bm]" "bc_stamp cl' = (bc_stamp cl)[i := bc_tick cl + 1]" "bc_tick cl' = bc_tick cl + 1"
      by (simp_all add: cl')
    have "cache_inv None cl' w'"
      unfolding cache_inv_def sel
    proof (intro conjI allI impI)
      show "length ((bc_ent cl)[i := bm]) = 40" "length ((bc_stamp cl)[i := bc_tick cl + 1]) = 40" using I by simp_all
      show "one_each ((bc_ent cl)[i := bm])" "holds None ((bc_ent cl)[i := bm]) w'" by (rule one, rule b(1))
    next
      fix j assume "j < 40" "bm_dmabuf ((bc_ent cl)[i := bm] ! j) \<noteq> None"
      then show "(bc_stamp cl)[i := bc_tick cl + 1] ! j \<le> bc_tick cl + 1"
        unfolding nth using st by (auto split: if_splits intro: less_imp_le)
    next
      fix j k assume "j < 40" "k < 40" "bm_dmabuf ((bc_ent cl)[i := bm] ! j) \<noteq> None" "bm_dmabuf ((bc_ent cl)[i := bm] ! k) \<noteq> None"
        "(bc_stamp cl)[i := bc_tick cl + 1] ! j = (bc_stamp cl)[i := bc_tick cl + 1] ! k"
      then show "j = k" unfolding nth using st [of j] st [of k] I(6) [of j k] by (auto split: if_splits)
    qed
    then show ?thesis unfolding sel nth by (auto simp: eq b)
  qed
qed

section \<open>One lookup\<close>

definition slot_live :: "ml_bufcache \<Rightarrow> nat \<Rightarrow> nat \<Rightarrow> bool" where
  "slot_live cl i t \<longleftrightarrow> i < ML_BUFCACHE_ENTRIES \<and> bm_dmabuf (bc_ent cl ! i) \<noteq> None \<and> t \<le> unat (bc_stamp cl ! i)"

text \<open>If every slot is in use, the slot with the oldest stamp was not used during the last 39 lookups.\<close>

lemma oldest_is_old:
  assumes inv: "cache_inv x cl w" and full: "\<And>j. j < ML_BUFCACHE_ENTRIES \<Longrightarrow> bm_dmabuf (bc_ent cl ! j) \<noteq> None"
    and room: "unat (bc_tick cl) + 1 < 2 ^ 64" and slot: "slot = nat (lru_slot (bc_stamp cl) 0 (- 1) (- 1))"
  shows "slot < ML_BUFCACHE_ENTRIES" "unat (bc_stamp cl ! slot) + ML_BUFCACHE_ENTRIES \<le> unat (bc_tick cl) + 1"
proof -
  note I = cache_invD [OF inv]
  have lt: "bc_stamp cl ! j < - 1" if "j < 40" for j
  proof -
    have "unat (bc_stamp cl ! j) \<le> unat (bc_tick cl)" using I(5) [OF that full [OF that]] by (simp add: word_le_nat_alt)
    moreover have "unat (- 1 :: u64) = 2 ^ 64 - 1" by (simp add: unsigned_minus_1_eq_mask mask_eq_exp_minus_1)
    ultimately show ?thesis using room unfolding word_less_nat_alt by linarith
  qed
  have "\<not> (\<forall>s\<in>set (bc_stamp cl). - 1 \<le> s)"
    using lt [of 0] I(2) by (auto simp: not_le intro!: bexI [of _ "bc_stamp cl ! 0"])
  then obtain i where i: "i < 40" "lru_slot (bc_stamp cl) 0 (- 1) (- 1) = int i" "\<forall>s\<in>set (bc_stamp cl). bc_stamp cl ! i \<le> s"
    using lru_slot_spec [of "bc_stamp cl" 0 "- 1" "- 1"] I(2) by auto
  then have si: "slot = i" by (simp add: slot)
  show "slot < ML_BUFCACHE_ENTRIES" using i si by simp
  define f where "f j = unat (bc_stamp cl ! j)" for j
  have "inj_on f {..<40}" using I(6) full by (auto simp: inj_on_def f_def word_unat_eq_iff)
  then have "card (f ` {..<40}) = 40" by (simp add: card_image)
  moreover have "f ` {..<40} \<subseteq> {f i..unat (bc_tick cl)}"
  proof
    fix y assume "y \<in> f ` {..<40}"
    then obtain j where j: "j < 40" "y = f j" by auto
    then have "bc_stamp cl ! i \<le> bc_stamp cl ! j" using i(3) I(2) by simp
    then show "y \<in> {f i..unat (bc_tick cl)}" using j I(5) [OF j(1) full [OF j(1)]] by (simp add: f_def word_le_nat_alt)
  qed
  ultimately have "40 \<le> card {f i..unat (bc_tick cl)}" by (metis card_mono finite_atLeastAtMost)
  then show "unat (bc_stamp cl ! slot) + ML_BUFCACHE_ENTRIES \<le> unat (bc_tick cl) + 1" by (simp add: si f_def)
qed

text \<open>What one lookup does: the invariant is kept and nothing leaks; a granted slot holds a mapping
  of the buffer behind the descriptor that serves the direction, stamped now; and an entry used at
  \<open>t\<close> or later, less than 40 lookups ago, is still there, the same mapping unless the lookup
  was for its buffer in a direction it does not serve.\<close>

lemma map_fd_step:
  assumes inv: "cache_inv None cl w" and room: "unat (bc_tick cl) + 1 < 2 ^ 64"
    and m: "ml_bufcache_map_fd env fd dir (cl, w) = (r, cl', w')"
  shows "cache_inv None cl' w'"
    and "r = Inl e \<Longrightarrow> bc_tick cl' = bc_tick cl"
    and "r = Inr i \<Longrightarrow> unat (bc_tick cl') = unat (bc_tick cl) + 1 \<and> slot_live cl' i (unat (bc_tick cl')) \<and> serves (bc_ent cl' ! i) dir \<and>
        Inr (the (bm_dmabuf (bc_ent cl' ! i))) = env_get env (w_calls w) fd"
    and "r = Inr i \<Longrightarrow> slot_live cl j t \<Longrightarrow> unat (bc_tick cl) + 1 < t + ML_BUFCACHE_ENTRIES \<Longrightarrow>
        slot_live cl' j t \<and> (bc_ent cl' ! j = bc_ent cl ! j \<or>
          i = j \<and> \<not> serves (bc_ent cl ! j) dir \<and> bm_dmabuf (bc_ent cl' ! j) = bm_dmabuf (bc_ent cl ! j) \<and> bm_dir (bc_ent cl' ! j) = DMA_BIDIRECTIONAL)"
proof -
  have tick: "unat (bc_tick cl + 1) = unat (bc_tick cl) + 1" using room by (simp add: unat_add_small)
  have C: "cache_inv None cl' w' \<and> (r = Inl e \<longrightarrow> bc_tick cl' = bc_tick cl) \<and>
    (r = Inr i \<longrightarrow> bc_tick cl' = bc_tick cl + 1 \<and> i < ML_BUFCACHE_ENTRIES \<and> bm_dmabuf (bc_ent cl' ! i) \<noteq> None \<and> bc_stamp cl' ! i = bc_tick cl' \<and>
       serves (bc_ent cl' ! i) dir \<and> Inr (the (bm_dmabuf (bc_ent cl' ! i))) = env_get env (w_calls w) fd) \<and>
    (r = Inr i \<longrightarrow> slot_live cl j t \<longrightarrow> unat (bc_tick cl) + 1 < t + ML_BUFCACHE_ENTRIES \<longrightarrow>
        slot_live cl' j t \<and> (bc_ent cl' ! j = bc_ent cl ! j \<or>
          i = j \<and> \<not> serves (bc_ent cl ! j) dir \<and> bm_dmabuf (bc_ent cl' ! j) = bm_dmabuf (bc_ent cl ! j) \<and> bm_dir (bc_ent cl' ! j) = DMA_BIDIRECTIONAL))"
    for e i j t
  proof (cases "env_get env (w_calls w) fd")
    case (Inl e)
    then have "r = Inl e" "cl' = cl" "w' = w\<lparr>w_calls := w_calls w + 1\<rparr>"
      using m by (auto simp: ml_bufcache_map_fd_def dma_buf_get_def)
    then show ?thesis using inv by (auto simp: cache_inv_def holds_def less_Suc_eq)
  next
    case (Inr db)
    define w1 where "w1 = w\<lparr>w_calls := w_calls w + 1, w_refs := (w_refs w)(db := w_refs w db + 1)\<rparr>"
    note I = cache_invD [OF inv]
    have h1: "holds (Some db) (bc_ent cl) w1" using I(4) by (auto simp: holds_def w1_def less_Suc_eq)
    then have inv1: "cache_inv (Some db) cl w1" using inv by (simp add: cache_inv_def)
    have get: "dma_buf_get env fd w = (Inr db, w1)" by (simp add: dma_buf_get_def Inr w1_def)
    have M: "(case bufcache_scan (bc_ent cl) db dir 0 None of
             Hit i \<Rightarrow> (Inr i, cl\<lparr>bc_tick := bc_tick cl + 1, bc_stamp := (bc_stamp cl)[i := bc_tick cl + 1]\<rparr>, dma_buf_put db w1)
           | Remap i \<Rightarrow> (case bufcache_drop i cl w1 of (cl1, w2) \<Rightarrow> bufcache_fill env i db DMA_BIDIRECTIONAL cl1 w2)
           | Miss (Some slot) \<Rightarrow> bufcache_fill env slot db dir cl w1
           | Miss None \<Rightarrow>
               (let slot = nat (lru_slot (bc_stamp cl) 0 (- 1) (- 1))
                in case bufcache_drop slot cl w1 of (cl1, w2) \<Rightarrow> bufcache_fill env slot db dir cl1 w2)) = (r, cl', w')"
      using m unfolding ml_bufcache_map_fd_def prod.case get sum.case .
    have sc: "scan_spec (bc_ent cl) db dir 0 None (bufcache_scan (bc_ent cl) db dir 0 None)" by (rule bufcache_scan_spec)
    have fresh: "j < ML_BUFCACHE_ENTRIES \<Longrightarrow> \<not> (bm_dmabuf (bc_ent cl ! k) \<noteq> None \<and> bm_dmabuf (bc_ent cl ! j) = bm_dmabuf (bc_ent cl ! k) \<and> j \<noteq> k)"
      if "k < ML_BUFCACHE_ENTRIES" for j k using I(1,3) that unfolding one_each_def by metis
    show ?thesis
    proof (cases "bufcache_scan (bc_ent cl) db dir 0 None")
      case (Hit k)
      have k: "k < 40" "bm_dmabuf (bc_ent cl ! k) = Some db" "serves (bc_ent cl ! k) dir"
        using sc I(1) by (simp_all add: Hit scan_spec_def)
      have r: "r = Inr k" and cl': "bc_ent cl' = bc_ent cl" "bc_tick cl' = bc_tick cl + 1" "bc_stamp cl' = (bc_stamp cl)[k := bc_tick cl + 1]"
        and w': "w' = dma_buf_put db w1" using M Hit by auto
      have nth: "(bc_stamp cl)[k := bc_tick cl + 1] ! j = (if j = k then bc_tick cl + 1 else bc_stamp cl ! j)" for j
        using k(1) I(2) by (simp add: nth_list_update)
      have lt: "bc_tick cl < bc_tick cl + 1" using tick by (simp add: word_less_nat_alt)
      have st: "bc_stamp cl ! j < bc_tick cl + 1" if "j < 40" "bm_dmabuf (bc_ent cl ! j) \<noteq> None" for j
        using I(5) [OF that] lt by simp
      have "holds None (bc_ent cl) w'" using h1 by (auto simp: holds_def w' dma_buf_put_def)
      have stn: "bc_stamp cl ! j \<noteq> bc_tick cl + 1" if "j < 40" "bm_dmabuf (bc_ent cl ! j) \<noteq> None" for j
        using st [OF that] by simp
      have "cache_inv None cl' w'"
        unfolding cache_inv_def cl' nth
      proof (intro conjI allI impI)
        fix j l assume "j < 40" "l < 40" "bm_dmabuf (bc_ent cl ! j) \<noteq> None" "bm_dmabuf (bc_ent cl ! l) \<noteq> None"
          "(if j = k then bc_tick cl + 1 else bc_stamp cl ! j) = (if l = k then bc_tick cl + 1 else bc_stamp cl ! l)"
        then show "j = l" using stn [of j] stn [of l] I(6) [of j l] by (auto split: if_splits)
      qed (use I st \<open>holds None (bc_ent cl) w'\<close> in \<open>auto intro: less_imp_le\<close>)
      moreover have "slot_live cl j t \<Longrightarrow> slot_live cl' j t"
        using st [of j] unfolding slot_live_def cl' nth by (auto simp: word_less_nat_alt split: if_splits)
      ultimately show ?thesis using k by (auto simp: r cl' nth Inr I(2))
    next
      case (Remap k)
      have k: "k < 40" "bm_dmabuf (bc_ent cl ! k) = Some db" "\<not> serves (bc_ent cl ! k) dir"
        using sc I(1) by (simp_all add: Remap scan_spec_def)
      obtain cl1 w2 where d: "bufcache_drop k cl w1 = (cl1, w2)" by fastforce
      note D = drop_inv [OF inv1 k(1) _ d]
      have D: "cache_inv (Some db) cl1 w2" "bm_dmabuf (bc_ent cl1 ! k) = None" "bc_stamp cl1 = bc_stamp cl" "bc_tick cl1 = bc_tick cl"
        "j \<noteq> k \<Longrightarrow> bc_ent cl1 ! j = bc_ent cl ! j" for j using D k(2) by simp_all
      have new: "bm_dmabuf (bc_ent cl1 ! j) \<noteq> Some db" if "j < 40" for j
        using fresh [OF k(1) that] k(2) D(2) D(5) [of j] by (cases "j = k") auto
      have f: "bufcache_fill env k db DMA_BIDIRECTIONAL cl1 w2 = (r, cl', w')" using M Remap d by simp
      note F = fill_inv [OF D(1) new k(1) D(2) _ f]
      have F: "cache_inv None cl' w'" "bc_tick cl' = bc_tick cl + of_bool (\<exists>k. r = Inr k)"
        "j \<noteq> k \<Longrightarrow> bc_ent cl' ! j = bc_ent cl ! j \<and> bc_stamp cl' ! j = bc_stamp cl ! j"
        "r = Inr j \<Longrightarrow> j = k \<and> bm_dmabuf (bc_ent cl' ! k) = Some db \<and> bm_dir (bc_ent cl' ! k) = DMA_BIDIRECTIONAL \<and> bc_stamp cl' ! k = bc_tick cl'" for j
        using F room D(3,4,5) by simp_all
      have st: "bc_stamp cl ! k \<le> bc_tick cl" using I(5) [OF k(1)] k(2) by simp
      have "r = Inr i \<Longrightarrow> slot_live cl j t \<Longrightarrow> slot_live cl' j t"
        using F(2) F(3) [of j] F(4) [of i] st tick unfolding slot_live_def by (cases "j = k") (auto simp: word_le_nat_alt)
      then show ?thesis using F(1,2) F(3) [of j] F(4) [of i] k Inr by (cases "j = k") (auto simp: serves_def)
    next
      case (Miss q)
      have case_fill: ?thesis if k: "k < 40" and f: "bufcache_fill env k db dir cl1 w2 = (r, cl', w')"
        and D: "cache_inv (Some db) cl1 w2" "bm_dmabuf (bc_ent cl1 ! k) = None" "bc_stamp cl1 = bc_stamp cl" "bc_tick cl1 = bc_tick cl"
          "\<And>j. j \<noteq> k \<Longrightarrow> bc_ent cl1 ! j = bc_ent cl ! j" "\<And>j. j < 40 \<Longrightarrow> bm_dmabuf (bc_ent cl ! j) \<noteq> Some db"
        and old: "bm_dmabuf (bc_ent cl ! k) = None \<or> unat (bc_stamp cl ! k) + ML_BUFCACHE_ENTRIES \<le> unat (bc_tick cl) + 1" for k cl1 w2
      proof -
        have new: "bm_dmabuf (bc_ent cl1 ! j) \<noteq> Some db" if "j < 40" for j
          using D(2) D(5) [of j] D(6) [OF that] by (cases "j = k") auto
        note F = fill_inv [OF D(1) new k D(2) _ f]
        have F: "cache_inv None cl' w'" "bc_tick cl' = bc_tick cl + of_bool (\<exists>k. r = Inr k)"
          "j \<noteq> k \<Longrightarrow> bc_ent cl' ! j = bc_ent cl ! j \<and> bc_stamp cl' ! j = bc_stamp cl ! j"
          "r = Inr j \<Longrightarrow> j = k \<and> bm_dmabuf (bc_ent cl' ! k) = Some db \<and> bm_dir (bc_ent cl' ! k) = dir \<and> bc_stamp cl' ! k = bc_tick cl'" for j
          using F room D(3-5) by simp_all
        have "slot_live cl j t \<Longrightarrow> unat (bc_tick cl) + 1 < t + ML_BUFCACHE_ENTRIES \<Longrightarrow> j \<noteq> k"
          using old by (auto simp: slot_live_def)
        then show ?thesis using F(1,2) F(3) [of j] F(4) [of i] k Inr by (auto simp: serves_def slot_live_def)
      qed
      show ?thesis
      proof (cases q)
        case (Some k)
        have k: "k < 40" "bm_dmabuf (bc_ent cl ! k) = None" "\<forall>e\<in>set (bc_ent cl). bm_dmabuf e \<noteq> Some db"
          using sc I(1) by (simp_all add: Miss Some scan_spec_def)
        have nodb: "j < 40 \<Longrightarrow> bm_dmabuf (bc_ent cl ! j) \<noteq> Some db" for j using k(3) I(1) by simp
        show ?thesis
          by (rule case_fill [of k cl w1]) (use M Miss Some inv1 k nodb in simp_all)
      next
        case None
        have full: "\<forall>e\<in>set (bc_ent cl). bm_dmabuf e \<noteq> None \<and> bm_dmabuf e \<noteq> Some db"
          using sc by (simp add: Miss None scan_spec_def)
        then have full': "j < 40 \<Longrightarrow> bm_dmabuf (bc_ent cl ! j) \<noteq> None" "j < 40 \<Longrightarrow> bm_dmabuf (bc_ent cl ! j) \<noteq> Some db" for j
          using I(1) by simp_all
        define slot where "slot = nat (lru_slot (bc_stamp cl) 0 (- 1) (- 1))"
        note O = oldest_is_old [OF inv1 full'(1) room slot_def]
        obtain cl1 w2 where d: "bufcache_drop slot cl w1 = (cl1, w2)" by fastforce
        note D = drop_inv [OF inv1 O(1) full'(1) [OF O(1)] d]
        show ?thesis
          by (rule case_fill [OF O(1), of cl1 w2]) (use M Miss None d D O(2) full' in \<open>simp_all add: slot_def [symmetric]\<close>)
      qed
    qed
  qed
  show "cache_inv None cl' w'" using C by blast
  show "r = Inl e \<Longrightarrow> bc_tick cl' = bc_tick cl" using C by blast
  show "r = Inr i \<Longrightarrow> unat (bc_tick cl') = unat (bc_tick cl) + 1 \<and> slot_live cl' i (unat (bc_tick cl')) \<and> serves (bc_ent cl' ! i) dir \<and>
        Inr (the (bm_dmabuf (bc_ent cl' ! i))) = env_get env (w_calls w) fd"
    using C [of undefined i] tick by (simp add: slot_live_def)
  show "r = Inr i \<Longrightarrow> slot_live cl j t \<Longrightarrow> unat (bc_tick cl) + 1 < t + ML_BUFCACHE_ENTRIES \<Longrightarrow>
        slot_live cl' j t \<and> (bc_ent cl' ! j = bc_ent cl ! j \<or>
          i = j \<and> \<not> serves (bc_ent cl ! j) dir \<and> bm_dmabuf (bc_ent cl' ! j) = bm_dmabuf (bc_ent cl ! j) \<and> bm_dir (bc_ent cl' ! j) = DMA_BIDIRECTIONAL)"
    using C [of undefined i j t] by blast
qed

section \<open>The contract the drivers rely on\<close>

text \<open>\<open>live s i t\<close>: slot \<open>i\<close> holds a mapping that was used at \<open>t\<close> or later.  A lookup that succeeds
  keeps every mapping used less than \<open>cap\<close> lookups ago that fits the direction it asks for.\<close>

locale mapping_cache =
  fixes lookup :: "int \<Rightarrow> 'd \<Rightarrow> 's \<Rightarrow> (errno + nat) \<times> 's"
    and entry :: "'s \<Rightarrow> nat \<Rightarrow> 'b" and live :: "'s \<Rightarrow> nat \<Rightarrow> nat \<Rightarrow> bool" and clock :: "'s \<Rightarrow> nat"
    and inv :: "'s \<Rightarrow> bool" and fits :: "'b \<Rightarrow> 'd \<Rightarrow> bool" and limit :: nat and cap :: nat
  assumes step_inv: "inv s \<Longrightarrow> clock s < limit \<Longrightarrow> lookup fd d s = (r, s') \<Longrightarrow> inv s'"
    and step_clock: "inv s \<Longrightarrow> clock s < limit \<Longrightarrow> lookup fd d s = (r, s') \<Longrightarrow> clock s' \<le> clock s + 1"
    and step_found: "inv s \<Longrightarrow> clock s < limit \<Longrightarrow> lookup fd d s = (Inr i, s') \<Longrightarrow>
        clock s' = clock s + 1 \<and> live s' i (clock s') \<and> fits (entry s' i) d"
    and step_keep: "inv s \<Longrightarrow> clock s < limit \<Longrightarrow> lookup fd d s = (Inr i, s') \<Longrightarrow> live s j t \<Longrightarrow> clock s + 1 < t + cap \<Longrightarrow>
        fits (entry s j) d \<Longrightarrow> live s' j t \<and> entry s' j = entry s j"
    and live_mono: "live s i t \<Longrightarrow> t' \<le> t \<Longrightarrow> live s i t'"
begin

definition pinned :: "'s \<Rightarrow> nat \<Rightarrow> (nat \<times> 'b) set \<Rightarrow> bool" where
  "pinned s t P \<longleftrightarrow> (\<forall>(i, b)\<in>P. live s i t \<and> entry s i = b)"

lemma pinned_step:
  assumes "inv s" "clock s < limit" "lookup fd d s = (Inr i, s')" "pinned s t P" "t \<le> clock s + 1" "clock s + 1 < t + cap"
    and "\<And>j b. (j, b) \<in> P \<Longrightarrow> fits b d"
  shows "pinned s' t (insert (i, entry s' i) P)"
proof -
  have "live s' i t" using step_found [OF assms(1-3)] assms(5) live_mono [of s' i "clock s'" t] by auto
  moreover have "live s' j t \<and> entry s' j = b" if "(j, b) \<in> P" for j b
    using step_keep [OF assms(1-3) _ assms(6)] assms(4,7) that unfolding pinned_def by fastforce
  ultimately show ?thesis by (auto simp: pinned_def)
qed

text \<open>A batch of lookups that stops at the first failure.\<close>

fun lookup_all :: "(int \<times> 'd) list \<Rightarrow> 's \<Rightarrow> (errno + nat list) \<times> 's" where
  "lookup_all [] s = (Inr [], s)"
| "lookup_all ((fd, d) # rs) s =
     (case lookup fd d s of
        (Inl e, s1) \<Rightarrow> (Inl e, s1)
      | (Inr i, s1) \<Rightarrow> (case lookup_all rs s1 of (Inl e, s2) \<Rightarrow> (Inl e, s2) | (Inr is, s2) \<Rightarrow> (Inr (i # is), s2)))"

lemma lookup_all_inv:
  "inv s \<Longrightarrow> clock s + length rs \<le> limit \<Longrightarrow> lookup_all rs s = (r, s') \<Longrightarrow> inv s' \<and> clock s' \<le> clock s + length rs"
proof (induction rs s arbitrary: r s' rule: lookup_all.induct)
  case (2 fd d rs s)
  obtain q s1 where q: "lookup fd d s = (q, s1)" by fastforce
  have s1: "inv s1" "clock s1 \<le> clock s + 1" using step_inv [OF _ _ q] step_clock [OF _ _ q] "2.prems" by simp_all
  show ?case
  proof (cases q)
    case (Inl e)
    then show ?thesis using "2.prems" q s1 by auto
  next
    case (Inr i)
    obtain q2 s2 where q2: "lookup_all rs s1 = (q2, s2)" by fastforce
    have "inv s2 \<and> clock s2 \<le> clock s1 + length rs"
      by (rule "2.IH" [OF q [symmetric] Inr s1(1) _ q2]) (use "2.prems"(2) s1(2) in simp)
    then show ?thesis using "2.prems"(3) q q2 s1 Inr by (cases q2) auto
  qed
qed simp

lemma lookup_all_pins:
  assumes "inv s" "clock s + length rs \<le> limit" "clock s + length rs < t + cap" "t \<le> clock s + 1"
    and "lookup_all rs s = (Inr is, s')" "pinned s t P"
    and "\<And>j b d. (j, b) \<in> P \<Longrightarrow> d \<in> snd ` set rs \<Longrightarrow> fits b d"
    and "\<And>b d d'. d \<in> snd ` set rs \<Longrightarrow> d' \<in> snd ` set rs \<Longrightarrow> fits b d \<Longrightarrow> fits b d'"
  shows "length is = length rs \<and> pinned s' t (P \<union> (\<lambda>i. (i, entry s' i)) ` set is) \<and>
    (\<forall>k<length rs. fits (entry s' (is ! k)) (snd (rs ! k)))"
  using assms
proof (induction rs s arbitrary: P "is" s' rule: lookup_all.induct)
  case (2 fd d rs s)
  obtain q s1 where q: "lookup fd d s = (q, s1)" by fastforce
  obtain i where i: "q = Inr i" using "2.prems"(5) q by (cases q) auto
  obtain q2 s2 where q2: "lookup_all rs s1 = (q2, s2)" by fastforce
  obtain is2 where is2: "q2 = Inr is2" using "2.prems"(5) q q2 i by (cases q2) auto
  have res: "is = i # is2" "s' = s2" using "2.prems"(5) q q2 i is2 by auto
  have lim: "clock s < limit" using "2.prems"(2) by simp
  note q' = q [unfolded i]
  have s1: "inv s1" "clock s1 = clock s + 1" "fits (entry s1 i) d"
    using step_inv [OF "2.prems"(1) lim q'] step_found [OF "2.prems"(1) lim q'] by simp_all
  have P1: "pinned s1 t (insert (i, entry s1 i) P)"
    by (rule pinned_step [OF "2.prems"(1) lim q' "2.prems"(6,4)]) (use "2.prems"(3,7) in auto)
  have fitsP: "fits b d'" if "(j, b) \<in> insert (i, entry s1 i) P" "d' \<in> snd ` set rs" for j b d'
    using that s1(3) "2.prems"(7) [of j b d'] "2.prems"(8) [of d d' b] by auto
  have IH: "length is2 = length rs \<and> pinned s2 t (insert (i, entry s1 i) P \<union> (\<lambda>i. (i, entry s2 i)) ` set is2) \<and>
    (\<forall>k<length rs. fits (entry s2 (is2 ! k)) (snd (rs ! k)))"
    by (rule "2.IH" [OF q [symmetric] i s1(1) _ _ _ q2 [unfolded is2] P1 fitsP])
      (use "2.prems"(2,3,4,8) s1(2) in auto)
  then have e: "entry s2 i = entry s1 i" by (auto simp: pinned_def)
  show ?case using IH e s1(3) unfolding res by (auto simp: pinned_def nth_Cons split: nat.split)
qed simp

end

section \<open>The cache fulfils it\<close>

text \<open>Twice: with the mapping itself as what stays, for directions the mapping serves; and, for an
  exporter that maps a buffer to the same segment every time (its memory does not move while it is
  exported), with the segment, for all directions.\<close>

type_synonym cache_state = "ml_bufcache \<times> dmabuf_world"

definition cs_inv :: "cache_state \<Rightarrow> bool" where
  "cs_inv s \<longleftrightarrow> cache_inv None (fst s) (snd s)"

abbreviation cs_entry :: "cache_state \<Rightarrow> nat \<Rightarrow> ml_bufmap" where "cs_entry s i \<equiv> bc_ent (fst s) ! i"
abbreviation cs_live :: "cache_state \<Rightarrow> nat \<Rightarrow> nat \<Rightarrow> bool" where "cs_live s \<equiv> slot_live (fst s)"
abbreviation cs_clock :: "cache_state \<Rightarrow> nat" where "cs_clock s \<equiv> unat (bc_tick (fst s))"
abbreviation CLOCK_LIMIT :: nat where "CLOCK_LIMIT \<equiv> 2 ^ 64 - 1"

lemma slot_live_mono: "slot_live cl i t \<Longrightarrow> t' \<le> t \<Longrightarrow> slot_live cl i t'"
  by (auto simp: slot_live_def)

interpretation mc: mapping_cache "ml_bufcache_map_fd env" cs_entry cs_live cs_clock cs_inv serves CLOCK_LIMIT ML_BUFCACHE_ENTRIES
  for env
proof
  fix s s' :: cache_state and fd d r i j t
  assume inv: "cs_inv s" and lim: "cs_clock s < CLOCK_LIMIT"
  obtain cl w cl' w' where s: "s = (cl, w)" "s' = (cl', w')" by (cases s, cases s')
  have room: "unat (bc_tick cl) + 1 < 2 ^ 64" using lim by (simp add: s)
  note S = map_fd_step [OF inv [unfolded cs_inv_def s fst_conv snd_conv] room]
  {
    assume m: "ml_bufcache_map_fd env fd d s = (r, s')"
    show "cs_inv s'" using S(1) m by (simp add: s cs_inv_def)
    show "cs_clock s' \<le> cs_clock s + 1" using S(2,3) [OF m [unfolded s]] by (cases r) (simp_all add: s)
  next
    assume m: "ml_bufcache_map_fd env fd d s = (Inr i, s')"
    show "cs_clock s' = cs_clock s + 1 \<and> cs_live s' i (cs_clock s') \<and> serves (cs_entry s' i) d"
      using S(3) [OF m [unfolded s] refl] by (auto simp: s)
    assume "cs_live s j t" "cs_clock s + 1 < t + ML_BUFCACHE_ENTRIES" "serves (cs_entry s j) d"
    then show "cs_live s' j t \<and> cs_entry s' j = cs_entry s j"
      using S(4) [OF m [unfolded s] refl, of j t] by (auto simp: s)
  }
qed (rule slot_live_mono)

text \<open>The segment of an entry, and an exporter that always reports the same one.\<close>

definition segment :: "cache_state \<Rightarrow> nat \<Rightarrow> dbuf option \<times> u64 \<times> u64" where
  "segment s i = (bm_dmabuf (cs_entry s i), bm_base (cs_entry s i), bm_size (cs_entry s i))"

definition same_segment :: "dmabuf_env \<Rightarrow> (dbuf \<Rightarrow> u64 \<times> u64) \<Rightarrow> bool" where
  "same_segment env seg \<longleftrightarrow> (\<forall>c db dir b l. env_map env c db dir = Inr (1, b, l) \<longrightarrow> (b, l) = seg db)"

definition seg_inv :: "dmabuf_env \<Rightarrow> (dbuf \<Rightarrow> u64 \<times> u64) \<Rightarrow> cache_state \<Rightarrow> bool" where
  "seg_inv env seg s \<longleftrightarrow> cs_inv s \<and> same_segment env seg \<and>
     (\<forall>i<ML_BUFCACHE_ENTRIES. \<forall>db. bm_dmabuf (cs_entry s i) = Some db \<longrightarrow> (bm_base (cs_entry s i), bm_size (cs_entry s i)) = seg db)"

definition entries_at :: "(dbuf \<Rightarrow> u64 \<times> u64) \<Rightarrow> ml_bufmap list \<Rightarrow> bool" where
  "entries_at seg E \<longleftrightarrow> (\<forall>e\<in>set E. \<forall>db. bm_dmabuf e = Some db \<longrightarrow> (bm_base e, bm_size e) = seg db)"

lemma entries_at_update:
  "entries_at seg E \<Longrightarrow> (\<And>db. bm_dmabuf e = Some db \<Longrightarrow> (bm_base e, bm_size e) = seg db) \<Longrightarrow> entries_at seg (E[i := e])"
  unfolding entries_at_def using set_update_subset_insert [of E i e] by blast

lemma drop_at: "bufcache_drop i cl w = (cl', w') \<Longrightarrow> entries_at seg (bc_ent cl) \<Longrightarrow> entries_at seg (bc_ent cl')"
  by (auto simp: bufcache_drop_def ml_bufmap_unmap_def intro!: entries_at_update)

lemma fill_at:
  assumes "bufcache_fill env i db dir cl w = (r, cl', w')" "same_segment env seg" "entries_at seg (bc_ent cl)"
  shows "entries_at seg (bc_ent cl')"
proof (cases "ml_bufmap_map env db dir w")
  case (Pair m w1)
  show ?thesis
  proof (cases m)
    case (Inr bm)
    then have "(bm_base bm, bm_size bm) = seg b" if "bm_dmabuf bm = Some b" for b
      using Pair assms(2) that unfolding ml_bufmap_map_def dma_buf_attach_def dma_buf_map_attachment_def same_segment_def
      by (auto split: option.splits sum.splits prod.splits if_splits)
    then show ?thesis using assms(1,3) Pair Inr by (auto simp: bufcache_fill_def intro!: entries_at_update)
  qed (use assms Pair in \<open>auto simp: bufcache_fill_def\<close>)
qed

lemma map_fd_at:
  assumes "ml_bufcache_map_fd env fd dir (cl, w) = (r, cl', w')" "same_segment env seg" "entries_at seg (bc_ent cl)"
  shows "entries_at seg (bc_ent cl')"
  using assms unfolding ml_bufcache_map_fd_def Let_def
  by (auto split: sum.splits prod.splits scan.splits option.splits intro: drop_at fill_at)

lemma seg_inv_alt: "seg_inv env seg s \<longleftrightarrow> cs_inv s \<and> same_segment env seg \<and> entries_at seg (bc_ent (fst s))"
proof -
  have "length (bc_ent (fst s)) = ML_BUFCACHE_ENTRIES" if "cs_inv s" using that cache_invD(1) by (auto simp: cs_inv_def)
  then show ?thesis unfolding seg_inv_def entries_at_def by (auto simp: all_set_conv_all_nth)
qed

interpretation seg: mapping_cache "ml_bufcache_map_fd env" segment cs_live cs_clock "seg_inv env g" "\<lambda>_ _. True" CLOCK_LIMIT ML_BUFCACHE_ENTRIES
  for env g
proof
  fix s s' :: cache_state and fd d r i j t
  assume inv: "seg_inv env g s" and lim: "cs_clock s < CLOCK_LIMIT"
  obtain cl w cl' w' where s: "s = (cl, w)" "s' = (cl', w')" by (cases s, cases s')
  have room: "unat (bc_tick cl) + 1 < 2 ^ 64" using lim by (simp add: s)
  have I: "cs_inv s" "same_segment env g" "entries_at g (bc_ent cl)" using inv by (simp_all add: seg_inv_alt s)
  note S = map_fd_step [OF I(1) [unfolded cs_inv_def s fst_conv snd_conv] room]
  {
    assume m: "ml_bufcache_map_fd env fd d s = (r, s')"
    show i': "seg_inv env g s'"
      unfolding seg_inv_alt using mc.step_inv [OF I(1) lim m] map_fd_at [OF m [unfolded s] I(2,3)] I(2) by (simp add: s)
    show "cs_clock s' \<le> cs_clock s + 1" by (rule mc.step_clock [OF I(1) lim m])
  next
    assume m: "ml_bufcache_map_fd env fd d s = (Inr i, s')"
    show "cs_clock s' = cs_clock s + 1 \<and> cs_live s' i (cs_clock s') \<and> True" using mc.step_found [OF I(1) lim m] by blast
    assume l: "cs_live s j t" "cs_clock s + 1 < t + ML_BUFCACHE_ENTRIES"
    have K: "slot_live cl' j t" "bm_dmabuf (bc_ent cl' ! j) = bm_dmabuf (bc_ent cl ! j)"
      using S(4) [OF m [unfolded s] refl, of j t] l by (auto simp: s)
    have at': "entries_at g (bc_ent cl')" by (rule map_fd_at [OF m [unfolded s] I(2,3)])
    have len: "length (bc_ent cl) = 40" "length (bc_ent cl') = 40"
      using cache_invD(1) I(1) mc.step_inv [OF I(1) lim m] by (auto simp: cs_inv_def s)
    obtain db where db: "bm_dmabuf (bc_ent cl ! j) = Some db" and j: "j < 40" using l(1) by (auto simp: slot_live_def s)
    have "(bm_base (bc_ent cl ! j), bm_size (bc_ent cl ! j)) = g db" "(bm_base (bc_ent cl' ! j), bm_size (bc_ent cl' ! j)) = g db"
      using I(3) at' db K(2) j len unfolding entries_at_def by (metis nth_mem)+
    then show "cs_live s' j t \<and> segment s' j = segment s j" using K by (simp add: s segment_def)
  }
qed (rule slot_live_mono)

section \<open>From open to release\<close>

text \<open>The lookups of one open file, whatever they return, and then its release.\<close>

fun bufcache_run :: "dmabuf_env \<Rightarrow> (int \<times> dma_data_direction) list \<Rightarrow> cache_state \<Rightarrow> cache_state" where
  "bufcache_run env [] s = s"
| "bufcache_run env ((fd, dir) # rs) s = bufcache_run env rs (snd (ml_bufcache_map_fd env fd dir s))"

lemma empty_inv: "cs_inv (bufcache_empty, world_empty n)"
proof -
  have "bm_dmabuf (bc_ent bufcache_empty ! i) = None" if "i < 40" for i
    unfolding bufcache_empty_def ml_bufcache.simps using that by (subst nth_replicate) simp_all
  moreover have "length (bc_ent bufcache_empty) = 40" "length (bc_stamp bufcache_empty) = 40" by (simp_all add: bufcache_empty_def)
  ultimately show ?thesis
    by (auto simp: cs_inv_def cache_inv_def one_each_def holds_def world_empty_def)
qed

lemma run_inv:
  "cs_inv s \<Longrightarrow> cs_clock s + length rs \<le> CLOCK_LIMIT \<Longrightarrow>
    cs_inv (bufcache_run env rs s) \<and> cs_clock (bufcache_run env rs s) \<le> cs_clock s + length rs"
proof (induction env rs s rule: bufcache_run.induct)
  case (2 env fd dir rs s)
  obtain r s1 where m: "ml_bufcache_map_fd env fd dir s = (r, s1)" by (cases "ml_bufcache_map_fd env fd dir s") blast
  have "cs_inv s1" "cs_clock s1 \<le> cs_clock s + 1"
    using mc.step_inv [OF _ _ m] mc.step_clock [OF _ _ m] 2(2,3) by simp_all
  then show ?case using 2 m by (simp add: m)
qed simp

lemma release_inv:
  "n \<le> ML_BUFCACHE_ENTRIES \<Longrightarrow> cs_inv s \<Longrightarrow>
   (case fold (\<lambda>i (cl, w). if bm_dmabuf (bc_ent cl ! i) \<noteq> None then bufcache_drop i cl w else (cl, w)) [0..<n] s of
      (cl, w) \<Rightarrow> cache_inv None cl w \<and> (\<forall>i<n. bm_dmabuf (bc_ent cl ! i) = None))"
proof (induction n)
  case (Suc n)
  obtain cl w where f: "fold (\<lambda>i (cl, w). if bm_dmabuf (bc_ent cl ! i) \<noteq> None then bufcache_drop i cl w else (cl, w)) [0..<n] s = (cl, w)"
    by fastforce
  have I: "cache_inv None cl w" "\<forall>i<n. bm_dmabuf (bc_ent cl ! i) = None" using Suc f by auto
  obtain cl1 w1 where d: "bufcache_drop n cl w = (cl1, w1)" by fastforce
  show ?case
  proof (cases "bm_dmabuf (bc_ent cl ! n)")
    case None
    then show ?thesis using I f by (auto simp: less_Suc_eq)
  next
    case (Some b)
    then have "cache_inv None cl1 w1 \<and> bm_dmabuf (bc_ent cl1 ! n) = None \<and> (\<forall>j. j \<noteq> n \<longrightarrow> bc_ent cl1 ! j = bc_ent cl ! j)"
      using drop_inv [OF I(1) _ _ d] Suc.prems(1) by simp
    then show ?thesis using I f d Some by (auto simp: less_Suc_eq)
  qed
qed (auto simp: cs_inv_def)

text \<open>C23: No mapping leaks: after any number of lookups of an open file, successful or not, the client
  holds exactly one reference, one attachment and one mapping for every cached buffer and nothing for
  any other, every buffer has one entry at most, and releasing the cache gives everything back.\<close>

theorem bufcache_no_leak:
  assumes "length rs < CLOCK_LIMIT" "s = bufcache_run env rs (bufcache_empty, world_empty n)"
    and "s' = ml_bufcache_release s"
  shows "holds None (bc_ent (fst s)) (snd s) \<and> one_each (bc_ent (fst s)) \<and>
    w_refs (snd s') db = 0 \<and> w_attached (snd s') a = None \<and> w_mapped (snd s') g = None"
proof -
  have "cs_clock (bufcache_empty, world_empty n) = 0" by (simp add: bufcache_empty_def)
  then have inv: "cs_inv s" using run_inv [OF empty_inv, of n rs env] assms(1,2) by simp
  then have I: "holds None (bc_ent (fst s)) (snd s)" "one_each (bc_ent (fst s))" using cache_invD by (auto simp: cs_inv_def)
  obtain cl w where s': "s' = (cl, w)" by (cases s')
  have R: "cache_inv None cl w" "\<And>i. i < 40 \<Longrightarrow> bm_dmabuf (bc_ent cl ! i) = None"
    using release_inv [OF order_refl inv] assms(3) unfolding ml_bufcache_release_def s' by auto
  note H = holdsD [OF cache_invD(4) [OF R(1)]] and len = cache_invD(1) [OF R(1)]
  have "w_refs w db = 0" using H(1) [of db] R(2) len by auto
  moreover have "w_attached w a = None" using H(2) [of a "the (w_attached w a)"] R(2) len by (cases "w_attached w a") auto
  moreover have "w_mapped w g = None" using H(3) [of g "fst (the (w_mapped w g))" "snd (the (w_mapped w g))"] R(2) len by (cases "w_mapped w g") auto
  ultimately show ?thesis using I by (simp add: s')
qed

theorem bufcache_no_leak_witness:
  "w_refs (snd (ml_bufcache_release (bufcache_run \<lparr>env_get = (\<lambda>_ fd. Inr (nat fd)), env_attach = (\<lambda>_ _. None),
      env_map = (\<lambda>_ _ _. Inr (1, 0x29200000, 4096))\<rparr> [(3, DMA_TO_DEVICE), (4, DMA_FROM_DEVICE)] (bufcache_empty, world_empty 0)))) 3 = 0"
  by (rule bufcache_no_leak [THEN conjunct2, THEN conjunct2, THEN conjunct1, OF _ refl refl]) simp

text \<open>One lookup on any reachable cache: a failed one stamps nothing; a granted slot holds a mapping of
  the buffer that the descriptor names now, which serves the direction asked for, and carries the
  newest stamp; and an entry whose last use is fewer than 40 lookups back is never evicted: it keeps its
  mapping unless the lookup is for its own buffer in a direction it cannot serve, when the buffer is
  mapped again, bidirectionally, in the same slot.\<close>

theorem bufcache_lookup_correct:
  assumes "length rs < CLOCK_LIMIT" "(cl, w) = bufcache_run env rs (bufcache_empty, world_empty n)"
    and "ml_bufcache_map_fd env fd dir (cl, w) = (r, cl', w')"
  shows "(r = Inl e \<longrightarrow> bc_tick cl' = bc_tick cl) \<and>
    (r = Inr i \<longrightarrow> i < 40 \<and> (\<exists>db. bm_dmabuf (bc_ent cl' ! i) = Some db \<and> env_get env (w_calls w) fd = Inr db) \<and>
       serves (bc_ent cl' ! i) dir \<and> unat (bc_stamp cl' ! i) = unat (bc_tick cl) + 1) \<and>
    (r = Inr i \<longrightarrow> j < 40 \<longrightarrow> bm_dmabuf (bc_ent cl ! j) \<noteq> None \<longrightarrow> unat (bc_tick cl) + 1 < unat (bc_stamp cl ! j) + 40 \<longrightarrow>
       bc_ent cl' ! j = bc_ent cl ! j \<or>
       i = j \<and> \<not> serves (bc_ent cl ! j) dir \<and> bm_dmabuf (bc_ent cl' ! j) = bm_dmabuf (bc_ent cl ! j) \<and> bm_dir (bc_ent cl' ! j) = DMA_BIDIRECTIONAL)"
proof -
  have "cs_clock (bufcache_empty, world_empty n) = 0" by (simp add: bufcache_empty_def)
  then have C: "cs_inv (cl, w)" "cs_clock (cl, w) \<le> length rs"
    using run_inv [OF empty_inv, of n rs env] assms(1,2) by (simp_all add: assms(2))
  then have room: "unat (bc_tick cl) + 1 < 2 ^ 64" using assms(1) by simp
  note S = map_fd_step [OF C(1) [unfolded cs_inv_def fst_conv snd_conv] room assms(3)]
  have "r = Inr i \<longrightarrow> i < 40 \<and> (\<exists>db. bm_dmabuf (bc_ent cl' ! i) = Some db \<and> env_get env (w_calls w) fd = Inr db) \<and>
       serves (bc_ent cl' ! i) dir \<and> unat (bc_stamp cl' ! i) = unat (bc_tick cl) + 1"
  proof
    assume r: "r = Inr i"
    have "cache_inv None cl' w'" by (rule S(1))
    then have "unat (bc_stamp cl' ! i) \<le> unat (bc_tick cl')"
      using S(3) [OF r] cache_invD(5) [of None cl' w' i] by (auto simp: slot_live_def word_le_nat_alt)
    then show "i < 40 \<and> (\<exists>db. bm_dmabuf (bc_ent cl' ! i) = Some db \<and> env_get env (w_calls w) fd = Inr db) \<and>
       serves (bc_ent cl' ! i) dir \<and> unat (bc_stamp cl' ! i) = unat (bc_tick cl) + 1"
      using S(3) [OF r] by (auto simp: slot_live_def)
  qed
  then show ?thesis using S(2) S(4) [of i j "unat (bc_stamp cl ! j)"] by (auto simp: slot_live_def)
qed

theorem bufcache_lookup_correct_witness:
  "\<exists>r cl' w'. ml_bufcache_map_fd \<lparr>env_get = (\<lambda>_ _. Inr 7), env_attach = (\<lambda>_ _. None), env_map = (\<lambda>_ _ _. Inr (1, 0, 4096))\<rparr> 3
      DMA_TO_DEVICE (bufcache_empty, world_empty 0) = (r, cl', w') \<and> (r = Inl EINVAL \<longrightarrow> bc_tick cl' = 0)"
proof -
  let ?env = "\<lparr>env_get = (\<lambda>_ _. Inr 7), env_attach = (\<lambda>_ _. None), env_map = (\<lambda>_ _ _. Inr (1, 0, 4096))\<rparr>"
  obtain r cl' w' where m: "ml_bufcache_map_fd ?env 3 DMA_TO_DEVICE (bufcache_empty, world_empty 0) = (r, cl', w')"
    by (metis prod_cases3)
  have "r = Inl EINVAL \<longrightarrow> bc_tick cl' = bc_tick bufcache_empty"
    using bufcache_lookup_correct [of "[]", OF _ _ m, of 0] by simp
  then show ?thesis using m by (auto simp: bufcache_empty_def)
qed

end
