(* ===== verification/Ml_Dmablit.thy ===== *)
theory Ml_Dmablit
  imports Dmabuf_Map
begin

text \<open>
  \<open>ml_dmablit.c\<close>: the batched memcpy device.  A batch is resolved and validated against the
  mapping cache of the open file, then handed to one engine channel.  The engine is not part of
  the repository: what it answers to one batch is the argument \<open>blit_outcome\<close>, what it is asked
  is the log of events.  The lemmas are proved from the contract \<open>mapping_cache\<close>.
\<close>

section \<open>Definitions\<close>

record ml_dmablit_copy =
  cp_src_fd :: int
  cp_src_off :: u32
  cp_dst_off :: u32
  cp_len :: u32

record ml_dmablit_req =
  rq_dst_fd :: int
  rq_n :: u32
  rq_copy :: "ml_dmablit_copy list"

datatype ml_dmablit_op = ML_DMABLIT_CLEAN | ML_DMABLIT_INVALIDATE | ML_DMABLIT_BAD_OP

record ml_dmablit_cache =
  ca_fd :: int
  ca_off :: u32
  ca_len :: u32
  ca_op :: ml_dmablit_op

record axi_dma_memcpy_entry =
  ae_dst :: u64
  ae_src :: u64
  ae_len :: u32

text \<open>What the engine answers: the descriptor is prepared, the submit is accepted, the completion
  comes in time, and the transfer is reported good.\<close>

record blit_outcome =
  out_prep :: bool
  out_submit :: bool
  out_in_time :: bool
  out_noerror :: bool

datatype blit_event =
    Prep u32 "axi_dma_memcpy_entry list"
  | Submit u32
  | Issue u32
  | Terminate u32
  | Sync_for_cpu u64 u32
  | Sync_for_device u64 u32

record dmablit =
  bl_nchan :: u32
  bl_next_chan :: u32
  bl_log :: "blit_event list"

definition blit_log :: "blit_event list \<Rightarrow> dmablit \<Rightarrow> dmablit" where
  "blit_log es d = d\<lparr>bl_log := bl_log d @ es\<rparr>"

text \<open>The validation loop of \<open>ml_dmablit_submit\<close>, with the slot of the destination.\<close>

fun blit_entries ::
  "dmabuf_env \<Rightarrow> nat \<Rightarrow> ml_dmablit_copy list \<Rightarrow> cache_state \<Rightarrow> (errno + axi_dma_memcpy_entry list) \<times> cache_state" where
  "blit_entries env dst [] s = (Inr [], s)"
| "blit_entries env dst (c # cs) s =
     (case ml_bufcache_map_fd env (cp_src_fd c) DMA_TO_DEVICE s of
        (Inl e, s1) \<Rightarrow> (Inl e, s1)
      | (Inr src, s1) \<Rightarrow>
          if cp_len c = 0 \<or> cp_len c AND 3 \<noteq> 0 \<or> cp_src_off c AND 3 \<noteq> 0 \<or> cp_dst_off c AND 3 \<noteq> 0 then (Inl EINVAL, s1)
          else if ucast (cp_src_off c) + ucast (cp_len c) > bm_size (cs_entry s1 src) \<or>
                  ucast (cp_dst_off c) + ucast (cp_len c) > bm_size (cs_entry s1 dst) then (Inl EINVAL, s1)
          else let en = \<lparr>ae_dst = bm_base (cs_entry s1 dst) + ucast (cp_dst_off c),
                         ae_src = bm_base (cs_entry s1 src) + ucast (cp_src_off c), ae_len = cp_len c\<rparr>
               in (case blit_entries env dst cs s1 of
                     (Inl e, s2) \<Rightarrow> (Inl e, s2)
                   | (Inr ens, s2) \<Rightarrow> (Inr (en # ens), s2)))"

text \<open>From the channel choice on: one descriptor, one wait, and the terminate path.\<close>

definition blit_run :: "blit_outcome \<Rightarrow> axi_dma_memcpy_entry list \<Rightarrow> dmablit \<Rightarrow> (errno + unit) \<times> dmablit" where
  "blit_run out entries d0 =
     (let chan = bl_next_chan d0;
          d = blit_log [Prep chan entries] (d0\<lparr>bl_next_chan := (bl_next_chan d0 + 1) mod bl_nchan d0\<rparr>)
      in if \<not> out_prep out then (Inl EIO, d)
         else if \<not> out_submit out then (Inl EIO, blit_log [Submit chan, Terminate chan] d)
         else if \<not> out_in_time out then (Inl ETIMEDOUT, blit_log [Submit chan, Issue chan, Terminate chan] d)
         else if \<not> out_noerror out then (Inl EIO, blit_log [Submit chan, Issue chan, Terminate chan] d)
         else (Inr (), blit_log [Submit chan, Issue chan] d))"

definition ml_dmablit_submit ::
  "dmabuf_env \<Rightarrow> blit_outcome \<Rightarrow> ml_dmablit_req \<Rightarrow> cache_state \<Rightarrow> dmablit \<Rightarrow> (errno + unit) \<times> cache_state \<times> dmablit" where
  "ml_dmablit_submit env out req s d =
     (if rq_n req < 1 \<or> rq_n req > 8 then (Inl EINVAL, s, d)
      else case ml_bufcache_map_fd env (rq_dst_fd req) DMA_BIDIRECTIONAL s of
        (Inl e, s1) \<Rightarrow> (Inl e, s1, d)
      | (Inr dst, s1) \<Rightarrow>
          (case blit_entries env dst (take (unat (rq_n req)) (rq_copy req)) s1 of
             (Inl e, s2) \<Rightarrow> (Inl e, s2, d)
           | (Inr entries, s2) \<Rightarrow> (case blit_run out entries d of (r, d') \<Rightarrow> (r, s2, d'))))"

definition ml_dmablit_flush :: "dmabuf_env \<Rightarrow> int \<Rightarrow> dmabuf_world \<Rightarrow> (errno + unit) \<times> dmabuf_world" where
  "ml_dmablit_flush env fd w =
     (case dma_buf_get env fd w of
        (Inl e, w1) \<Rightarrow> (Inl e, w1)
      | (Inr db, w1) \<Rightarrow>
          (case ml_bufmap_map env db DMA_TO_DEVICE w1 of
             (Inl e, w2) \<Rightarrow> (Inl e, dma_buf_put db w2)
           | (Inr bm, w2) \<Rightarrow> (Inr (), snd (ml_bufmap_unmap bm w2))))"

definition ml_dmablit_cache_range ::
  "dmabuf_env \<Rightarrow> u32 \<Rightarrow> ml_dmablit_cache \<Rightarrow> cache_state \<Rightarrow> dmablit \<Rightarrow> (errno + unit) \<times> cache_state \<times> dmablit" where
  "ml_dmablit_cache_range env cache_line_size rq s d =
     (if ca_len rq = 0 then (Inl EINVAL, s, d)
      else if ca_op rq \<noteq> ML_DMABLIT_CLEAN \<and> ca_op rq \<noteq> ML_DMABLIT_INVALIDATE then (Inl EINVAL, s, d)
      else if ca_op rq = ML_DMABLIT_INVALIDATE \<and> (ca_off rq OR ca_len rq) AND (cache_line_size - 1) \<noteq> 0 then (Inl EINVAL, s, d)
      else case ml_bufcache_map_fd env (ca_fd rq) DMA_BIDIRECTIONAL s of
        (Inl e, s1) \<Rightarrow> (Inl e, s1, d)
      | (Inr i, s1) \<Rightarrow>
          let bm = cs_entry s1 i
          in if ucast (ca_off rq) > bm_size bm \<or> ucast (ca_len rq) > bm_size bm - ucast (ca_off rq) then (Inl EINVAL, s1, d)
             else if ca_op rq = ML_DMABLIT_INVALIDATE
             then (Inr (), s1, blit_log [Sync_for_cpu (bm_base bm + ucast (ca_off rq)) (ca_len rq)] d)
             else (Inr (), s1, blit_log [Sync_for_device (bm_base bm + ucast (ca_off rq)) (ca_len rq)] d))"

text \<open>The requests of the device; \<open>Inl\<close> is a copy from user space, or the allocation of the request,
  that failed.\<close>

datatype blit_cmd =
    Blit_flush "errno + int"
  | Blit_cache "errno + ml_dmablit_cache"
  | Blit_submit "errno + ml_dmablit_req"
  | Blit_unknown

definition ml_dmablit_ioctl ::
  "dmabuf_env \<Rightarrow> u32 \<Rightarrow> blit_outcome \<Rightarrow> blit_cmd \<Rightarrow> cache_state \<Rightarrow> dmablit \<Rightarrow> (errno + unit) \<times> cache_state \<times> dmablit" where
  "ml_dmablit_ioctl env cache_line_size out cmd s d =
     (case cmd of
        Blit_flush (Inl e) \<Rightarrow> (Inl e, s, d)
      | Blit_flush (Inr fd) \<Rightarrow> (case ml_dmablit_flush env fd (snd s) of (r, w) \<Rightarrow> (r, (fst s, w), d))
      | Blit_cache (Inl e) \<Rightarrow> (Inl e, s, d)
      | Blit_cache (Inr rq) \<Rightarrow> ml_dmablit_cache_range env cache_line_size rq s d
      | Blit_submit (Inl e) \<Rightarrow> (Inl e, s, d)
      | Blit_submit (Inr req) \<Rightarrow> ml_dmablit_submit env out req s d
      | Blit_unknown \<Rightarrow> (Inl ENOTTY, s, d))"

text \<open>Module init: up to three channels, as many as the engine gives.\<close>

definition ml_dmablit_init :: "nat \<Rightarrow> errno option \<Rightarrow> errno + dmablit" where
  "ml_dmablit_init available misc_register_fails =
     (let g_nchan = min 3 available
      in if g_nchan = 0 then Inl ENODEV
         else case misc_register_fails of Some e \<Rightarrow> Inl e
              | None \<Rightarrow> Inr \<lparr>bl_nchan = of_nat g_nchan, bl_next_chan = 0, bl_log = []\<rparr>)"

text \<open>Module exit gives every channel back; opening and closing the device make and empty the cache of
  the open file.\<close>

definition ml_dmablit_exit :: "dmablit \<Rightarrow> dmablit" where
  "ml_dmablit_exit d = d\<lparr>bl_nchan := 0\<rparr>"

definition ml_dmablit_open :: "bool \<Rightarrow> errno + ml_bufcache" where
  "ml_dmablit_open kzalloc_ok = (if kzalloc_ok then Inr bufcache_empty else Inl ENOMEM)"

definition ml_dmablit_release :: "ml_bufcache \<Rightarrow> dmabuf_world \<Rightarrow> dmabuf_world" where
  "ml_dmablit_release cl w = snd (ml_bufcache_release (cl, w))"

section \<open>A validated batch\<close>

text \<open>One descriptor entry is inside the two mappings it names, and both are still in the cache.\<close>

definition blit_entry_ok :: "cache_state \<Rightarrow> nat \<Rightarrow> nat \<Rightarrow> ml_dmablit_copy \<Rightarrow> axi_dma_memcpy_entry \<Rightarrow> bool" where
  "blit_entry_ok s t dst c en \<longleftrightarrow>
     (\<exists>src. cs_live s src t \<and> cs_live s dst t \<and>
        serves (cs_entry s src) DMA_TO_DEVICE \<and> bm_dir (cs_entry s dst) = DMA_BIDIRECTIONAL \<and>
        ae_src en = bm_base (cs_entry s src) + ucast (cp_src_off c) \<and> ae_dst en = bm_base (cs_entry s dst) + ucast (cp_dst_off c) \<and>
        ae_len en = cp_len c \<and> 0 < unat (cp_len c) \<and> 4 dvd unat (cp_len c) \<and> 4 dvd unat (cp_src_off c) \<and> 4 dvd unat (cp_dst_off c) \<and>
        unat (cp_src_off c) + unat (cp_len c) \<le> unat (bm_size (cs_entry s src)) \<and>
        unat (cp_dst_off c) + unat (cp_len c) \<le> unat (bm_size (cs_entry s dst)))"

lemma and3: "(w :: u32) AND 3 = 0 \<longleftrightarrow> 4 dvd unat w"
proof -
  have "w AND 3 = w AND mask 2" by (simp add: mask_eq_exp_minus_1)
  then show ?thesis by (simp add: word_unat_eq_iff unat_and_mask dvd_eq_mod_eq_0)
qed

lemma in_segment: "ucast (a :: u32) + ucast (b :: u32) > (z :: u64) \<longleftrightarrow> \<not> unat a + unat b \<le> unat z"
proof -
  have "unat (ucast a + ucast b :: u64) = unat a + unat b"
    using unat_less_length [of a] unat_less_length [of b] by (subst unat_add_small) (simp_all add: unat_ucast_up)
  then show ?thesis by (simp add: word_less_nat_alt not_le)
qed

lemma bidirectional: "serves bm DMA_BIDIRECTIONAL \<longleftrightarrow> bm_dir bm = DMA_BIDIRECTIONAL"
  by (auto simp: serves_def)

lemma blit_entries_ok:
  assumes "cs_inv s" "cs_clock s + length cs \<le> CLOCK_LIMIT" "cs_clock s + length cs < t + ML_BUFCACHE_ENTRIES" "t \<le> cs_clock s + 1"
    and "blit_entries env dst cs s = (Inr ens, s')" "mc.pinned s t P" "(dst, b) \<in> P" "bm_dir b = DMA_BIDIRECTIONAL"
    and "\<And>j b. (j, b) \<in> P \<Longrightarrow> serves b DMA_TO_DEVICE"
  shows "mc.pinned s' t P \<and> list_all2 (blit_entry_ok s' t dst) cs ens"
  using assms
proof (induction env dst cs s arbitrary: P ens s' rule: blit_entries.induct)
  case (2 env dst c cs s)
  obtain q s1 where q: "ml_bufcache_map_fd env (cp_src_fd c) DMA_TO_DEVICE s = (q, s1)"
    by (cases "ml_bufcache_map_fd env (cp_src_fd c) DMA_TO_DEVICE s") blast
  obtain src where src: "q = Inr src" using "2.prems"(5) q by (cases q) auto
  note q' = q [unfolded src]
  have lim: "cs_clock s < CLOCK_LIMIT" using "2.prems"(2) by simp
  define en where "en = \<lparr>ae_dst = bm_base (cs_entry s1 dst) + ucast (cp_dst_off c),
                         ae_src = bm_base (cs_entry s1 src) + ucast (cp_src_off c), ae_len = cp_len c\<rparr>"
  have ok: "0 < unat (cp_len c)" "4 dvd unat (cp_len c)" "4 dvd unat (cp_src_off c)" "4 dvd unat (cp_dst_off c)"
    and sz: "unat (cp_src_off c) + unat (cp_len c) \<le> unat (bm_size (cs_entry s1 src))"
      "unat (cp_dst_off c) + unat (cp_len c) \<le> unat (bm_size (cs_entry s1 dst))"
    and rest: "\<exists>ens'. ens = en # ens' \<and> blit_entries env dst cs s1 = (Inr ens', s')"
    using "2.prems"(5) q' unfolding in_segment en_def
    by (auto simp: and3 in_segment Let_def word_gt_0 unat_gt_0 split: if_splits prod.splits sum.splits)
  obtain ens' where ens: "ens = en # ens'" and r: "blit_entries env dst cs s1 = (Inr ens', s')" using rest by blast
  have s1: "cs_inv s1" "cs_clock s1 = cs_clock s + 1" "serves (cs_entry s1 src) DMA_TO_DEVICE"
    using mc.step_inv [OF "2.prems"(1) lim q'] mc.step_found [OF "2.prems"(1) lim q'] by simp_all
  have P1: "mc.pinned s1 t (insert (src, cs_entry s1 src) P)"
    by (rule mc.pinned_step [OF "2.prems"(1) lim q' "2.prems"(6,4)]) (use "2.prems"(3,9) in auto)
  have fits: "serves b' DMA_TO_DEVICE" if "(j, b') \<in> insert (src, cs_entry s1 src) P" for j b'
    using that "2.prems"(9) [of j b'] s1(3) by auto
  have IH: "mc.pinned s' t (insert (src, cs_entry s1 src) P) \<and> list_all2 (blit_entry_ok s' t dst) cs ens'"
    by (rule "2.IH" [OF q [symmetric] src _ _ _ s1(1) _ _ _ r P1 insertI2 [OF "2.prems"(7)] "2.prems"(8) fits, of en])
      (use "2.prems"(2,3,4) s1(2) ok sz in \<open>auto simp: and3 in_segment en_def\<close>)
  have e: "cs_entry s' src = cs_entry s1 src" "cs_live s' src t" "cs_entry s' dst = b" "cs_live s' dst t" "cs_entry s1 dst = b"
    using IH P1 "2.prems"(7) unfolding mc.pinned_def by auto
  have "blit_entry_ok s' t dst c en"
    unfolding blit_entry_ok_def using e ok sz s1(3) "2.prems"(8) by (intro exI [of _ src]) (simp add: en_def)
  then show ?case using IH by (auto simp: ens mc.pinned_def)
qed simp
section \<open>The batch and its outcome\<close>

lemma blit_run_cases:
  assumes "blit_run out entries d = (r, d')"
  shows "\<exists>es. bl_log d' = bl_log d @ Prep (bl_next_chan d) entries # es \<and> bl_next_chan d' = (bl_next_chan d + 1) mod bl_nchan d \<and>
    bl_nchan d' = bl_nchan d \<and> (\<forall>c e. Prep c e \<notin> set es) \<and>
    (r = Inr () \<longleftrightarrow> out_prep out \<and> out_submit out \<and> out_in_time out \<and> out_noerror out) \<and>
    (r \<noteq> Inr () \<longrightarrow> out_prep out \<longrightarrow> es \<noteq> [] \<and> last es = Terminate (bl_next_chan d)) \<and>
    (r = Inr () \<longrightarrow> es = [Submit (bl_next_chan d), Issue (bl_next_chan d)])"
  using assms by (auto simp: blit_run_def blit_log_def Let_def split: if_splits)

lemma submit_cases:
  assumes "ml_dmablit_submit env out req s d = (r, s', d')"
  shows "d' = d \<and> r \<noteq> Inr () \<or>
    (\<exists>dst s1 ens. rq_n req \<noteq> 0 \<and> rq_n req \<le> 8 \<and> ml_bufcache_map_fd env (rq_dst_fd req) DMA_BIDIRECTIONAL s = (Inr dst, s1) \<and>
      blit_entries env dst (take (unat (rq_n req)) (rq_copy req)) s1 = (Inr ens, s') \<and> blit_run out ens d = (r, d'))"
  using assms by (auto simp: ml_dmablit_submit_def not_less split: if_splits prod.splits sum.splits)

text \<open>C24: What reaches the engine: if a batch is prepared at all, it has between 1 and 8 entries, one per
  requested copy and in order, every one of them non-empty, 4-byte aligned and inside the segments of
  two mappings that are still in the cache when the engine starts: the lookups of the same batch never
  evict or remap them.  A batch that fails validation leaves no event.\<close>

theorem blit_batch_in_bounds:
  assumes "cs_inv s" "cs_clock s + 9 < CLOCK_LIMIT" "length (rq_copy req) = 8"
    and "ml_dmablit_submit env out req s d = (r, s', d')" "d' \<noteq> d"
  shows "\<exists>dst ens. Prep (bl_next_chan d) ens \<in> set (drop (length (bl_log d)) (bl_log d')) \<and>
    length ens = unat (rq_n req) \<and> 1 \<le> length ens \<and> length ens \<le> 8 \<and>
    list_all2 (blit_entry_ok s' (cs_clock s + 1) dst) (take (unat (rq_n req)) (rq_copy req)) ens \<and>
    (\<forall>c e. Prep c e \<in> set (drop (length (bl_log d)) (bl_log d')) \<longrightarrow> e = ens)"
proof -
  let ?cs = "take (unat (rq_n req)) (rq_copy req)"
  obtain dst s1 ens where n: "rq_n req \<noteq> 0" "rq_n req \<le> 8"
    and m: "ml_bufcache_map_fd env (rq_dst_fd req) DMA_BIDIRECTIONAL s = (Inr dst, s1)"
    and e: "blit_entries env dst ?cs s1 = (Inr ens, s')" and run: "blit_run out ens d = (r, d')"
    using submit_cases [OF assms(4)] assms(5) by blast
  have n': "1 \<le> unat (rq_n req)" "unat (rq_n req) \<le> 8" using n unat_gt_0 [of "rq_n req"] by (simp_all add: word_le_nat_alt)
  have len: "length ?cs = unat (rq_n req)" using n' assms(3) by simp
  have lim: "cs_clock s < CLOCK_LIMIT" using assms(2) by simp
  have s1: "cs_inv s1" "cs_clock s1 = cs_clock s + 1" "cs_live s1 dst (cs_clock s + 1)" "bm_dir (cs_entry s1 dst) = DMA_BIDIRECTIONAL"
    using mc.step_inv [OF assms(1) lim m] mc.step_found [OF assms(1) lim m] by (auto simp: bidirectional)
  have "mc.pinned s' (cs_clock s + 1) {(dst, cs_entry s1 dst)} \<and> list_all2 (blit_entry_ok s' (cs_clock s + 1) dst) ?cs ens"
    by (rule blit_entries_ok [OF s1(1) _ _ _ e _ _ s1(4)])
      (use s1 n' len assms(2) in \<open>auto simp: mc.pinned_def serves_def\<close>)
  then have ok: "list_all2 (blit_entry_ok s' (cs_clock s + 1) dst) ?cs ens" ..
  obtain es where "bl_log d' = bl_log d @ Prep (bl_next_chan d) ens # es" "\<forall>c e. Prep c e \<notin> set es"
    using blit_run_cases [OF run] by blast
  then have "drop (length (bl_log d)) (bl_log d') = Prep (bl_next_chan d) ens # es" "\<forall>c e. Prep c e \<notin> set es" by simp_all
  moreover have "length ens = unat (rq_n req)" using list_all2_lengthD [OF ok] len by simp
  ultimately show ?thesis using ok n' by (intro exI [of _ dst] exI [of _ ens]) auto
qed

abbreviation one_page_env :: dmabuf_env where
  "one_page_env \<equiv> \<lparr>env_get = (\<lambda>_ fd. Inr (nat fd)), env_attach = (\<lambda>_ _. None), env_map = (\<lambda>_ _ _. Inr (1, 0x29200000, 4096))\<rparr>"

abbreviation one_copy :: ml_dmablit_req where
  "one_copy \<equiv> \<lparr>rq_dst_fd = 3, rq_n = 1, rq_copy = replicate 8 \<lparr>cp_src_fd = 4, cp_src_off = 64, cp_dst_off = 128, cp_len = 64\<rparr>\<rparr>"

abbreviation fresh_blit :: dmablit where
  "fresh_blit \<equiv> \<lparr>bl_nchan = 3, bl_next_chan = 0, bl_log = []\<rparr>"

abbreviation good_outcome :: blit_outcome where
  "good_outcome \<equiv> \<lparr>out_prep = True, out_submit = True, out_in_time = True, out_noerror = True\<rparr>"

lemma one_copy_runs: "bl_log (snd (snd (ml_dmablit_submit one_page_env good_outcome one_copy (bufcache_empty, world_empty 0) fresh_blit))) \<noteq> []"
  by code_simp

theorem blit_batch_in_bounds_witness:
  "\<exists>dst ens. length ens = 1 \<and> list_all2 (blit_entry_ok
     (fst (snd (ml_dmablit_submit one_page_env good_outcome one_copy (bufcache_empty, world_empty 0) fresh_blit))) 1 dst) [hd (rq_copy one_copy)] ens"
proof -
  obtain r s' d' where e: "ml_dmablit_submit one_page_env good_outcome one_copy (bufcache_empty, world_empty 0) fresh_blit = (r, s', d')"
    by (metis prod_cases3)
  have ne: "d' \<noteq> fresh_blit" using one_copy_runs unfolding e by auto
  obtain dst ens where
      "length ens = unat (rq_n one_copy)"
      "list_all2 (blit_entry_ok s' (cs_clock (bufcache_empty, world_empty 0) + 1) dst) (take (unat (rq_n one_copy)) (rq_copy one_copy)) ens"
    using blit_batch_in_bounds [OF empty_inv _ _ e ne] by (auto simp: bufcache_empty_def)
  then show ?thesis unfolding e by (intro exI [of _ dst] exI [of _ ens]) (simp add: bufcache_empty_def numeral_eq_Suc)
qed

text \<open>C25: The outcome of a submit: it returns 0 only if the engine took the descriptor, completed it in
  time and reported no error; after a failure that follows a prepared descriptor the last event is
  the termination of that very channel; and a failure before that reaches the engine not at all.\<close>

theorem blit_outcome_honest:
  assumes "ml_dmablit_submit env out req s d = (r, s', d')"
  shows "(r = Inr () \<longrightarrow> out_prep out \<and> out_submit out \<and> out_in_time out \<and> out_noerror out) \<and>
    (r \<noteq> Inr () \<longrightarrow> bl_log d' = bl_log d \<or> (\<exists>ens. bl_log d' = bl_log d @ [Prep (bl_next_chan d) ens] \<and> \<not> out_prep out) \<or>
       last (bl_log d') = Terminate (bl_next_chan d)) \<and>
    (r = Inr () \<longrightarrow> (\<exists>ens. bl_log d' = bl_log d @ [Prep (bl_next_chan d) ens, Submit (bl_next_chan d), Issue (bl_next_chan d)]))"
proof (cases "d' = d \<and> r \<noteq> Inr ()")
  case False
  then obtain ens where "blit_run out ens d = (r, d')" using submit_cases [OF assms] by blast
  then show ?thesis by (auto simp: blit_run_def blit_log_def Let_def split: if_splits)
qed simp

theorem blit_outcome_honest_witness:
  "fst (ml_dmablit_submit \<lparr>env_get = (\<lambda>_ _. Inl EBADF), env_attach = (\<lambda>_ _. None), env_map = (\<lambda>_ _ _. Inl EIO)\<rparr>
     \<lparr>out_prep = True, out_submit = True, out_in_time = True, out_noerror = False\<rparr>
     \<lparr>rq_dst_fd = 3, rq_n = 1, rq_copy = []\<rparr> (bufcache_empty, world_empty 0) \<lparr>bl_nchan = 3, bl_next_chan = 0, bl_log = []\<rparr>) \<noteq> Inr ()"
proof -
  let ?r = "ml_dmablit_submit \<lparr>env_get = (\<lambda>_ _. Inl EBADF), env_attach = (\<lambda>_ _. None), env_map = (\<lambda>_ _ _. Inl EIO)\<rparr>
     \<lparr>out_prep = True, out_submit = True, out_in_time = True, out_noerror = False\<rparr>
     \<lparr>rq_dst_fd = 3, rq_n = 1, rq_copy = []\<rparr> (bufcache_empty, world_empty 0) \<lparr>bl_nchan = 3, bl_next_chan = 0, bl_log = []\<rparr>"
  obtain r s' d' where e: "?r = (r, s', d')" by (cases ?r) blast
  show ?thesis using blit_outcome_honest [OF e] by (auto simp: e)
qed

section \<open>Any sequence of requests\<close>

fun blit_requests ::
  "dmabuf_env \<Rightarrow> u32 \<Rightarrow> (blit_cmd \<times> blit_outcome) list \<Rightarrow> cache_state \<Rightarrow> dmablit \<Rightarrow> cache_state \<times> dmablit" where
  "blit_requests env cls [] s d = (s, d)"
| "blit_requests env cls ((cmd, out) # cs) s d =
     (case ml_dmablit_ioctl env cls out cmd s d of (_, s1, d1) \<Rightarrow> blit_requests env cls cs s1 d1)"

text \<open>The channels of the batches, in order.\<close>

fun prep_chans :: "blit_event list \<Rightarrow> u32 list" where
  "prep_chans [] = []"
| "prep_chans (Prep c e # es) = c # prep_chans es"
| "prep_chans (Submit c # es) = prep_chans es"
| "prep_chans (Issue c # es) = prep_chans es"
| "prep_chans (Terminate c # es) = prep_chans es"
| "prep_chans (Sync_for_cpu a l # es) = prep_chans es"
| "prep_chans (Sync_for_device a l # es) = prep_chans es"

lemma prep_chans_append: "prep_chans (xs @ ys) = prep_chans xs @ prep_chans ys"
  by (induction xs rule: prep_chans.induct) simp_all

text \<open>The rotation: batch number \<open>k\<close> since module init goes to channel \<open>k mod n\<close>.\<close>

definition rotating :: "dmablit \<Rightarrow> bool" where
  "rotating d \<longleftrightarrow> 0 < unat (bl_nchan d) \<and> unat (bl_nchan d) \<le> 3 \<and>
     unat (bl_next_chan d) = length (prep_chans (bl_log d)) mod unat (bl_nchan d) \<and>
     (\<forall>k<length (prep_chans (bl_log d)). unat (prep_chans (bl_log d) ! k) = k mod unat (bl_nchan d))"

lemma rotating_same: "rotating d \<Longrightarrow> prep_chans es = [] \<Longrightarrow> rotating (blit_log es d)"
  by (simp add: rotating_def blit_log_def prep_chans_append)

lemma rotating_run: "rotating d \<Longrightarrow> blit_run out ens d = (r, d') \<Longrightarrow> rotating d' \<and> bl_nchan d' = bl_nchan d"
proof -
  assume d: "rotating d" and run: "blit_run out ens d = (r, d')"
  let ?n = "unat (bl_nchan d)"
  have n: "0 < ?n" "?n \<le> 3" and nx: "unat (bl_next_chan d) = length (prep_chans (bl_log d)) mod ?n"
    and old: "\<And>k. k < length (prep_chans (bl_log d)) \<Longrightarrow> unat (prep_chans (bl_log d) ! k) = k mod ?n"
    using d by (simp_all add: rotating_def)
  obtain es where log: "prep_chans (bl_log d') = prep_chans (bl_log d) @ [bl_next_chan d]"
    and st: "bl_nchan d' = bl_nchan d" "bl_next_chan d' = (bl_next_chan d + 1) mod bl_nchan d"
    using run by (auto simp: blit_run_def blit_log_def Let_def prep_chans_append split: if_splits)
  have "unat (bl_next_chan d) < 3" using nx n by (metis less_le_trans mod_less_divisor)
  then have "unat (bl_next_chan d + 1) = unat (bl_next_chan d) + 1" by (subst unat_add_small) simp_all
  then have "unat (bl_next_chan d') = (length (prep_chans (bl_log d)) mod ?n + 1) mod ?n" by (simp add: st unat_mod nx)
  then have "unat (bl_next_chan d') = Suc (length (prep_chans (bl_log d))) mod ?n" by (simp add: mod_Suc_eq)
  then show "rotating d' \<and> bl_nchan d' = bl_nchan d"
    using n old nx by (auto simp: rotating_def log st nth_append less_Suc_eq)
qed

lemma ioctl_rotating:
  assumes "rotating d" "ml_dmablit_ioctl env cls out cmd s d = (r, s', d')"
  shows "rotating d' \<and> bl_nchan d' = bl_nchan d"
proof (cases cmd)
  case (Blit_cache c)
  then show ?thesis using assms
    by (auto simp: ml_dmablit_ioctl_def ml_dmablit_cache_range_def Let_def rotating_same blit_log_def
        split: sum.splits if_splits prod.splits intro!: rotating_same [unfolded blit_log_def])
next
  case (Blit_submit q)
  show ?thesis
  proof (cases q)
    case (Inr req)
    then have "ml_dmablit_submit env out req s d = (r, s', d')" using assms(2) Blit_submit by (simp add: ml_dmablit_ioctl_def)
    from submit_cases [OF this] show ?thesis using assms(1) rotating_run by blast
  qed (use assms Blit_submit in \<open>simp add: ml_dmablit_ioctl_def\<close>)
qed (use assms in \<open>auto simp: ml_dmablit_ioctl_def split: sum.splits prod.splits\<close>)

lemma requests_rotating: "rotating d \<Longrightarrow> rotating (snd (blit_requests env cls cs s d)) \<and> bl_nchan (snd (blit_requests env cls cs s d)) = bl_nchan d"
proof (induction env cls cs s d rule: blit_requests.induct)
  case (2 env cls cmd out cs s d)
  obtain r s1 d1 where e: "ml_dmablit_ioctl env cls out cmd s d = (r, s1, d1)" by (cases "ml_dmablit_ioctl env cls out cmd s d") blast
  then show ?case using 2(1) [OF e [symmetric] refl] ioctl_rotating [OF 2(2) e] by simp
qed simp

text \<open>The channels rotate: after any sequence of requests, batch number \<open>k\<close> was given channel \<open>k mod n\<close>,
  so with two channels or more no two consecutive batches share one, and the channel index is
  always in range.\<close>

theorem blit_channels_rotate:
  assumes "ml_dmablit_init available None = Inr d0" "d = snd (blit_requests env cls cs s d0)"
  shows "(\<forall>k<length (prep_chans (bl_log d)). unat (prep_chans (bl_log d) ! k) = k mod min 3 available) \<and>
    (2 \<le> available \<longrightarrow> k + 1 < length (prep_chans (bl_log d)) \<longrightarrow> prep_chans (bl_log d) ! k \<noteq> prep_chans (bl_log d) ! (k + 1)) \<and>
    unat (bl_next_chan d) < min 3 available"
proof -
  have d0: "d0 = \<lparr>bl_nchan = of_nat (min 3 available), bl_next_chan = 0, bl_log = []\<rparr>" and a: "0 < available"
    using assms(1) by (auto simp: ml_dmablit_init_def Let_def split: if_splits)
  have u: "unat (of_nat (min 3 available) :: u32) = min 3 available" by (rule unat_of_nat_small) simp
  have "rotating d0" using a by (simp only: d0 rotating_def dmablit.select_convs u) simp
  then have R: "rotating d" "bl_nchan d = bl_nchan d0" using requests_rotating assms(2) by blast+
  then have n: "unat (bl_nchan d) = min 3 available" using u by (simp add: d0)
  have K: "\<And>k. k < length (prep_chans (bl_log d)) \<Longrightarrow> unat (prep_chans (bl_log d) ! k) = k mod min 3 available"
    and e: "unat (bl_next_chan d) = length (prep_chans (bl_log d)) mod min 3 available"
    using R(1) unfolding rotating_def n by blast+
  have "0 < min 3 available" using a by simp
  then have nx: "unat (bl_next_chan d) < min 3 available" unfolding e by (rule mod_less_divisor)
  have "prep_chans (bl_log d) ! k \<noteq> prep_chans (bl_log d) ! (k + 1)" if "2 \<le> available" "k + 1 < length (prep_chans (bl_log d))"
  proof
    assume eq: "prep_chans (bl_log d) ! k = prep_chans (bl_log d) ! (k + 1)"
    have m: "min 3 available = 2 \<or> min 3 available = 3" using that(1) by linarith
    have "k mod min 3 available = Suc k mod min 3 available" using K [of k] K [of "k + 1"] that(2) eq by simp
    then show False using m by (auto simp: mod_Suc split: if_splits)
  qed
  then show ?thesis using K nx by blast
qed

theorem blit_channels_rotate_witness:
  "unat (bl_next_chan (snd (blit_requests \<lparr>env_get = (\<lambda>_ _. Inr 1), env_attach = (\<lambda>_ _. None), env_map = (\<lambda>_ _ _. Inr (1, 0, 64))\<rparr> 64
     [(Blit_unknown, \<lparr>out_prep = True, out_submit = True, out_in_time = True, out_noerror = True\<rparr>)]
     (bufcache_empty, world_empty 0) \<lparr>bl_nchan = 3, bl_next_chan = 0, bl_log = []\<rparr>))) < min 3 5"
  by (rule blit_channels_rotate [THEN conjunct2, THEN conjunct2, OF _ refl]) (simp add: ml_dmablit_init_def)

end
