(* ===== verification/Mmz_Heap.thy ===== *)
theory Mmz_Heap
  imports Dmabuf_Map
begin

text \<open>
  \<open>ml_mmzheap.c\<close>: the dma-heap over the shared pool.  The pool's allocator, the allocations of the
  kernel and \<open>remap_pfn_range\<close> are arguments or results: an exported buffer is the address and length
  of its allocation, a mapping of it one segment, and an accepted \<open>mmap\<close> the page range it asks the
  kernel to map.
\<close>

section \<open>Definitions\<close>

record mmz_buffer =
  mb_daddr :: u64
  mb_len :: u64

definition PAGE_ALIGN :: "u64 \<Rightarrow> u64" where
  "PAGE_ALIGN len = (len + 4095) AND NOT 4095"

definition PHYS_PFN :: "u64 \<Rightarrow> u64" where
  "PHYS_PFN x = drop_bit 12 x"

text \<open>The segment list handed to an importer: number of segments, address and length; \<open>Inl\<close> when
  one of the two allocations fails.\<close>

definition mmz_map_dma_buf :: "bool \<Rightarrow> bool \<Rightarrow> mmz_buffer \<Rightarrow> errno + (nat \<times> u64 \<times> u64)" where
  "mmz_map_dma_buf kzalloc_ok sg_alloc_ok b =
     (if \<not> kzalloc_ok then Inl ENOMEM
      else if \<not> sg_alloc_ok then Inl ENOMEM
      else Inr (1, mb_daddr b, mb_len b))"

text \<open>The arguments of \<open>remap_pfn_range\<close>: start address, first page frame and size.\<close>

definition mmz_mmap :: "mmz_buffer \<Rightarrow> u64 \<Rightarrow> u64 \<Rightarrow> u64 \<Rightarrow> errno + (u64 \<times> u64 \<times> u64)" where
  "mmz_mmap b vm_start vm_end vm_pgoff =
     (let size = vm_end - vm_start
      in if vm_pgoff > PHYS_PFN (mb_len b) \<or> PHYS_PFN size > PHYS_PFN (mb_len b) - vm_pgoff then Inl EINVAL
         else Inr (vm_start, PHYS_PFN (mb_daddr b) + vm_pgoff, size))"

text \<open>An allocation with its effect on the pool: the second component is what is allocated when the
  call returns.\<close>

definition mmz_allocate :: "bool \<Rightarrow> (u64 \<Rightarrow> u64 option) \<Rightarrow> errno option \<Rightarrow> u64 \<Rightarrow> (errno + mmz_buffer) \<times> (u64 \<times> u64) option" where
  "mmz_allocate kzalloc_ok dma_alloc_coherent export_fails len =
     (if \<not> kzalloc_ok then (Inl ENOMEM, None)
      else case dma_alloc_coherent (PAGE_ALIGN len) of
        None \<Rightarrow> (Inl ENOMEM, None)
      | Some daddr \<Rightarrow>
          (case export_fails of
             Some e \<Rightarrow> (Inl e, None)
           | None \<Rightarrow> (Inr \<lparr>mb_daddr = daddr, mb_len = PAGE_ALIGN len\<rparr>, Some (daddr, PAGE_ALIGN len))))"

text \<open>Releasing a buffer gives its allocation back.\<close>

definition mmz_release :: "mmz_buffer \<Rightarrow> (u64 \<times> u64) set \<Rightarrow> (u64 \<times> u64) set" where
  "mmz_release b pool = pool - {(mb_daddr b, mb_len b)}"

section \<open>Mappings stay inside the buffer\<close>

lemma page_align_facts:
  assumes "unat len + 4095 < 2 ^ 64"
  shows "4096 dvd unat (PAGE_ALIGN len)" "unat len \<le> unat (PAGE_ALIGN len)" "unat (PAGE_ALIGN len) < unat len + 4096"
proof -
  have s: "unat (len + 4095) = unat len + 4095" using assms by (subst unat_add_small) simp_all
  have m: "(4095 :: u64) = mask 12" by (simp add: mask_eq_exp_minus_1)
  have "PAGE_ALIGN len = push_bit 12 (drop_bit 12 (len + 4095))"
    unfolding PAGE_ALIGN_def m
    by (rule bit_word_eqI, case_tac "12 \<le> n") (auto simp: bit_simps)
  then have e: "unat (PAGE_ALIGN len) = (unat len + 4095) div 4096 * 4096"
  proof -
    have "(unat len + 4095) div 4096 * 4096 < 2 ^ 64"
      by (rule le_less_trans [OF _ assms]) (rule div_times_less_eq_dividend)
    then show ?thesis using \<open>PAGE_ALIGN len = _\<close> by (simp add: unat_push_bit unat_drop_bit s)
  qed
  show "4096 dvd unat (PAGE_ALIGN len)" by (simp add: e)
  show "unat len \<le> unat (PAGE_ALIGN len)" "unat (PAGE_ALIGN len) < unat len + 4096" 
    unfolding e using div_mult_mod_eq [of "unat len + 4095" 4096] mod_less_divisor [of 4096 "unat len + 4095"] by linarith+
qed

lemma unat_pfn: "unat (PHYS_PFN x) = unat x div 4096"
  by (simp add: PHYS_PFN_def unat_drop_bit)



text \<open>The heap is an exporter that always reports the same segment, as the segment reading of the
  mapping cache asks for.\<close>

lemma mmz_same_segment:
  "(\<And>c db dir. env_map env c db dir = mmz_map_dma_buf (ok1 c) (ok2 c) (buf db)) \<Longrightarrow>
    same_segment env (\<lambda>db. (mb_daddr (buf db), mb_len (buf db)))"
  by (auto simp: same_segment_def mmz_map_dma_buf_def split: if_splits)

end
