(* ===== verification/Scaler_Image.thy ===== *)
theory Scaler_Image
  imports Kernel_Base
begin

text \<open>
  The descriptors of \<open>ar_scaler.c\<close>: the operation of the user ABI, its validation, and the packing
  of an operation into the engine's register image.  An image is a map from word index (the
  \<open>SD_\<close> byte offset divided by four) to word.  The lemmas read the image back: the Q16 scale
  ratio is the floor of the exact quotient, and the two delta words are the ratio minus one as a
  37-bit two's complement number.
\<close>

section \<open>Definitions\<close>

record ar_scaler_op =
  op_srcphy :: u32
  op_srcw :: u32
  op_srch :: u32
  op_srcstride :: u32
  op_crop_x :: u32
  op_crop_y :: u32
  op_cropw :: u32
  op_croph :: u32
  op_dstphy :: u32
  op_dstw :: u32
  op_dsth :: u32
  op_dststride :: u32
  op_channels :: u32
  op_control :: u32
  op_interp :: u32
  op_ctrl3c :: u32

definition ar_scaler_validate :: "ar_scaler_op \<Rightarrow> errno option" where
  "ar_scaler_validate op =
     (if op_srcphy op = 0 \<or> op_srcw op = 0 \<or> op_srch op = 0 then Some EINVAL
      else if op_srcstride op AND 0xf \<noteq> 0 then Some EINVAL
      else if op_cropw op = 0 \<or> op_croph op = 0 then Some EINVAL
      else if op_dstphy op = 0 \<or> op_dstw op = 0 \<or> op_dsth op = 0 then Some EINVAL
      else if op_dststride op AND 0xf \<noteq> 0 then Some EINVAL
      else if op_channels op = 0 then Some EINVAL
      else None)"

text \<open>\<open>coordinate_convert\<close>: the ratio and the high and low delta words.  The quotient of two 32-bit
  numbers, shifted by 16, fits the \<open>s64\<close> of the code.\<close>

definition coordinate_convert :: "u32 \<Rightarrow> u32 \<Rightarrow> u32 \<times> u32 \<times> u32" where
  "coordinate_convert src dst =
     (let ratio = c_div (sint src * 65536) (sint dst);
          delta = (if ratio - 0x10000 < 0 then word_of_int ratio + 0x1fffff0000 else word_of_int (ratio - 0x10000) :: u64)
      in (word_of_int ratio, ucast (drop_bit 32 delta) AND 0x1f, ucast delta))"

type_synonym image = "nat \<Rightarrow> u32"

definition scaler_burst :: "ar_scaler_op \<Rightarrow> u32" where
  "scaler_burst op =
     (let vmetric = (op_croph op * 100 div op_dsth op) * op_channels op
      in if op_cropw op \<ge> op_dstw op \<and> vmetric \<le> 0xc7f then 16 div op_channels op else 8 div op_channels op)"

definition scaler_conf :: "ar_scaler_op \<Rightarrow> u32" where
  "scaler_conf op =
     (let c1 = ((0x1000c OR 0x4) OR 0x8) AND NOT 0x2;
          c2 = (c1 AND 0xffffff9f) OR push_bit 5 (op_control op)
      in (c2 AND 0xffe0ffff) OR push_bit 16 (op_channels op))"

text \<open>Two dimensions in one word.\<close>

definition dim_word :: "u32 \<Rightarrow> u32 \<Rightarrow> u32" where
  "dim_word lo hi = (lo AND 0xe000ffff) OR push_bit 16 hi"

definition scaler_build_image :: "image \<Rightarrow> ar_scaler_op \<Rightarrow> u32 \<Rightarrow> image" where
  "scaler_build_image w op lut_phys =
     (case coordinate_convert (op_cropw op) (op_dstw op) of (hratio, hhi, hlo) \<Rightarrow>
      case coordinate_convert (op_croph op) (op_dsth op) of (vratio, vhi, vlo) \<Rightarrow>
        w(0 := op_srcphy op,
          1 := (op_srcstride op AND 0xffff) OR push_bit 16 (op_ctrl3c op),
          2 := dim_word (op_srcw op) (op_srch op),
          3 := scaler_conf op,
          4 := dim_word (op_crop_x op) (op_crop_y op),
          5 := dim_word (op_cropw op) (op_croph op),
          9 := (scaler_burst op AND 0xff) OR push_bit 8 0x78 OR 0x10000,
          10 := dim_word (op_dstw op) (op_dsth op),
          12 := hhi, 13 := hlo, 11 := hratio,
          16 := vhi, 17 := vlo, 15 := vratio,
          19 := op_dstphy op,
          20 := op_dststride op,
          21 := lut_phys))"

text \<open>The frequency ladder.\<close>

definition scaler_freq_to_div :: "u32 \<Rightarrow> u32" where
  "scaler_freq_to_div freq =
     (if freq > 599 then 0x1400
      else if freq > 499 then 0x1100
      else if freq > 399 then 0x1200
      else if freq > 332 then 0x1300
      else if freq > 299 then 0x1401
      else if freq > 199 then 0x1402
      else if freq > 149 then 0x1403
      else if freq > 99 then 0x1405
      else 0x1207)"

section \<open>The ratio and the deltas\<close>

lemma sint_small: "unat w < 2 ^ 31 \<Longrightarrow> sint (w :: u32) = int (unat w)"
  by (simp add: sint_uint signed_take_bit_int_eq_self uint_nat)

definition q16_ratio :: "u32 \<Rightarrow> u32 \<Rightarrow> nat" where
  "q16_ratio src dst = unat src * 65536 div unat dst"

lemma coordinate_convert_value:
  assumes "unat src < 2 ^ 31" "0 < unat dst" "unat dst < 2 ^ 31"
    and "coordinate_convert src dst = (ratio, hi, lo)"
  shows "unat ratio = q16_ratio src dst mod 2 ^ 32"
    and "int (unat hi) * 2 ^ 32 + int (unat lo) = (int (q16_ratio src dst) - 65536) mod 2 ^ 37" "unat hi < 32"
proof -
  define q where "q = q16_ratio src dst"
  have r: "c_div (sint src * 65536) (sint dst) = int q"
    using assms(1-3) by (simp add: sint_small c_div_pos q_def q16_ratio_def zdiv_int)
  have qb: "q < 2 ^ 47"
  proof -
    have "q \<le> unat src * 65536" unfolding q_def q16_ratio_def by (rule div_le_dividend)
    also have "\<dots> < 2 ^ 31 * 65536" using assms(1) by simp
    finally show ?thesis by simp
  qed
  define delta where "delta = (if int q - 0x10000 < 0 then word_of_int (int q) + 0x1fffff0000 else word_of_int (int q - 0x10000) :: u64)"
  define K where "K = (if q < 65536 then int q + 0x1fffff0000 else int q - 65536)"
  have K: "0 \<le> K" "K < 2 ^ 64" using qb by (simp_all add: K_def)
  have "delta = word_of_int K" by (simp add: delta_def K_def)
  then have "uint delta = take_bit LENGTH(64) K" by (simp only: uint_word_of_int_eq)
  then have d: "uint delta = K" using K by (simp add: take_bit_int_eq_self)
  have dm: "uint delta mod 2 ^ 37 = (int q - 65536) mod 2 ^ 37"
  proof (cases "q < 65536")
    case True
    have e: "int q + 0x1fffff0000 = int q - 65536 + 2 ^ 37" by simp
    show ?thesis unfolding d K_def using True by (simp only: if_True e mod_add_self2)
  qed (simp add: d K_def)
  have res: "ratio = word_of_int (int q)" "hi = ucast (drop_bit 32 delta) AND 0x1f" "lo = ucast delta"
    using assms(4) by (simp_all add: coordinate_convert_def r Let_def delta_def)
  show "unat ratio = q16_ratio src dst mod 2 ^ 32" by (simp add: res q_def unat_of_nat)
  define D where "D = unat delta"
  have h: "unat hi = D div 2 ^ 32 mod 32"
  proof -
    have m: "(0x1f :: u32) = mask 5" by (simp add: mask_eq_exp_minus_1)
    have "unat hi = D div 2 ^ 32 mod 2 ^ 32 mod 32"
      unfolding res(2) m unat_and_mask unat_ucast_mod unat_drop_bit D_def by simp
    then show ?thesis by (simp add: mod_mod_cancel)
  qed
  have l: "unat lo = D mod 2 ^ 32" by (simp add: res unat_ucast_mod D_def)
  show "unat hi < 32" by (simp add: h)
  have "unat hi * 2 ^ 32 + unat lo = D mod (2 ^ 32 * 32)" unfolding h l by (subst mod_mult2_eq) simp
  then have "int (unat hi) * 2 ^ 32 + int (unat lo) = int D mod 2 ^ 37"
    by (simp flip: of_nat_add of_nat_mult of_nat_mod add: zmod_int) (metis of_nat_add of_nat_mult of_nat_numeral zmod_int)
  then show "int (unat hi) * 2 ^ 32 + int (unat lo) = (int (q16_ratio src dst) - 65536) mod 2 ^ 37"
    using dm by (simp add: D_def uint_nat q_def)
qed


section \<open>The image read back\<close>

definition low13 :: "u32 \<Rightarrow> nat" where
  "low13 w = unat w mod 2 ^ 13"

definition high13 :: "u32 \<Rightarrow> nat" where
  "high13 w = unat w div 2 ^ 16 mod 2 ^ 13"

lemma dim_word_value:
  assumes "unat lo < 2 ^ 13" "unat hi < 2 ^ 13"
  shows "low13 (dim_word lo hi) = unat lo" "high13 (dim_word lo hi) = unat hi"
proof -
  have b: "\<And>n. bit lo n \<Longrightarrow> n < 13" "\<And>n. bit hi n \<Longrightarrow> n < 13" using high_bit_less assms by blast+
  have m: "lo AND 0xe000ffff = lo"
  proof -
    have "lo = lo AND mask 13" using assms(1) by (simp add: and_mask_small)
    then have "lo AND 0xe000ffff = lo AND (mask 13 AND 0xe000ffff)" by (metis and.assoc)
    also have "mask 13 AND (0xe000ffff :: u32) = mask 13" by (simp add: mask_eq_exp_minus_1)
    finally show ?thesis using \<open>lo = lo AND mask 13\<close> by simp
  qed
  have "take_bit 13 (dim_word lo hi) = lo"
    unfolding dim_word_def m using b by (intro bit_word_eqI) (auto simp: bit_simps)
  then show "low13 (dim_word lo hi) = unat lo" unfolding low13_def by (metis unat_take_bit)
  have "take_bit 13 (drop_bit 16 (dim_word lo hi)) = hi"
    unfolding dim_word_def m using b(1) b(2) by (intro bit_word_eqI) (fastforce simp: bit_simps)
  then show "high13 (dim_word lo hi) = unat hi" unfolding high13_def by (metis unat_take_bit unat_drop_bit)
qed

lemma conf_value:
  assumes "unat (op_control op) < 4" "unat (op_channels op) < 32"
  shows "unat (scaler_conf op) = 0xc + 32 * unat (op_control op) + 65536 * unat (op_channels op)"
proof -
  have b: "\<And>n. bit (op_control op) n \<Longrightarrow> n < 2" "\<And>n. bit (op_channels op) n \<Longrightarrow> n < 5"
    using high_bit_less [of "op_control op" 2] high_bit_less [of "op_channels op" 5] assms by simp_all
  have b16: "bit (0x10000 :: int) n \<longleftrightarrow> n = 16" for n
  proof -
    have "(0x10000 :: int) = push_bit 16 1" by (simp add: push_bit_eq_mult)
    then show ?thesis by (simp only: bit_push_bit_iff) (auto simp: bit_1_iff)
  qed
  have c1: "(((0x1000c OR 0x4) OR 0x8) AND NOT 0x2 :: u32) = 0x1000c" by simp
  have m: "(0xffffff9f :: u32) = NOT (push_bit 5 (mask 2))" "(0xffe0ffff :: u32) = NOT (push_bit 16 (mask 5))"
    "(0x1000c :: u32) = push_bit 2 (mask 2) OR push_bit 16 1"
    by (simp_all add: mask_eq_exp_minus_1 push_bit_eq_mult)
  have e: "scaler_conf op = push_bit 2 (mask 2) OR push_bit 5 (op_control op) OR push_bit 16 (op_channels op)"
    unfolding scaler_conf_def Let_def c1 unfolding m
    by (rule bit_word_eqI) (auto simp: bit_simps b16 dest: b(1))
  have d1: "push_bit 2 (mask 2) AND push_bit 5 (op_control op) = 0"
    by (rule bit_word_eqI) (auto simp: bit_simps)
  have d2: "(push_bit 2 (mask 2) OR push_bit 5 (op_control op)) AND push_bit 16 (op_channels op) = 0"
    using b(1) by (intro bit_word_eqI) (fastforce simp: bit_simps)
  have s: "scaler_conf op = push_bit 2 (mask 2) + push_bit 5 (op_control op) + push_bit 16 (op_channels op)"
    unfolding e by (simp only: disjunctive_add_eq_or d1 d2 or.assoc)
  have u: "unat (push_bit 2 (mask 2) :: u32) = 12" "unat (push_bit 5 (op_control op)) = 32 * unat (op_control op)"
    "unat (push_bit 16 (op_channels op)) = 65536 * unat (op_channels op)"
    using assms by (simp_all add: unat_push_bit mask_eq_exp_minus_1)
  have "unat (push_bit 2 (mask 2) + push_bit 5 (op_control op)) = 12 + 32 * unat (op_control op)"
    using assms by (subst unat_add_small) (simp_all add: u)
  then show ?thesis unfolding s using assms by (subst unat_add_small) (simp_all add: u)
qed

text \<open>The burst code.\<close>

lemma burst_value:
  assumes "unat (op_croph op) * 100 < 2 ^ 32" "unat (op_croph op) * 100 div unat (op_dsth op) * unat (op_channels op) < 2 ^ 32"
  shows "unat (scaler_burst op) =
    (if unat (op_dstw op) \<le> unat (op_cropw op) \<and>
        unat (op_croph op) * 100 div unat (op_dsth op) * unat (op_channels op) \<le> 0xc7f then 16 else 8) div unat (op_channels op)"
proof -
  have "unat (op_croph op * 100) = unat (op_croph op) * 100" using assms(1) by (subst unat_mult_small) simp_all
  then have "unat ((op_croph op * 100 div op_dsth op) * op_channels op) =
      unat (op_croph op) * 100 div unat (op_dsth op) * unat (op_channels op)"
    using assms(2) by (subst unat_mult_small) (simp_all add: unat_div)
  then show ?thesis by (simp add: scaler_burst_def Let_def word_le_nat_alt unat_div)
qed


definition sample_op :: ar_scaler_op where
  "sample_op = \<lparr>op_srcphy = 0x20000000, op_srcw = 1920, op_srch = 1080, op_srcstride = 1920, op_crop_x = 0, op_crop_y = 0,
    op_cropw = 1920, op_croph = 1080, op_dstphy = 0x21000000, op_dstw = 1280, op_dsth = 720, op_dststride = 1280,
    op_channels = 1, op_control = 0, op_interp = 0, op_ctrl3c = 0\<rparr>"


end
