(* ===== verification/Scaler_Lut.thy ===== *)
theory Scaler_Lut
  imports Kernel_Base
begin

text \<open>
  The interpolation table of \<open>ar_scaler.c\<close>, byte for byte, and what its bytes mean: 64 records of
  sixteen bytes, each holding two phases of four signed ten-bit taps in five bytes and six bytes of
  padding.
\<close>

definition scaler_lut_table :: "u8 list" where
  "scaler_lut_table = [
     0x00, 0x01, 0x00, 0x00, 0x00, 0x00, 0xfd, 0x1f, 0x00, 0x00, 0x00, 0x00, 0x00, 0x00, 0x00, 0x00, 0x00, 0xf9, 0x2f, 0x00, 0x00, 0x00, 0xf5, 0x3f, 0x00, 0x00, 0x00, 0x00, 0x00, 0x00, 0x00, 0x00,
     0x00, 0xf1, 0x4f, 0x00, 0x00, 0xff, 0xec, 0x6f, 0x00, 0x00, 0x00, 0x00, 0x00, 0x00, 0x00, 0x00, 0xfe, 0xec, 0x7f, 0x00, 0x00, 0xfe, 0xe8, 0x8f, 0x00, 0x00, 0x00, 0x00, 0x00, 0x00, 0x00, 0x00,
     0xfd, 0xe4, 0xaf, 0x00, 0x00, 0xfe, 0xe0, 0xbf, 0xc0, 0xff, 0x00, 0x00, 0x00, 0x00, 0x00, 0x00, 0xfc, 0xe0, 0xdf, 0xc0, 0xff, 0xfb, 0xdc, 0xff, 0xc0, 0xff, 0x00, 0x00, 0x00, 0x00, 0x00, 0x00,
     0xfb, 0xd8, 0x0f, 0xc1, 0xff, 0xf9, 0xd8, 0x2f, 0xc1, 0xff, 0x00, 0x00, 0x00, 0x00, 0x00, 0x00, 0xf8, 0xd4, 0x4f, 0xc1, 0xff, 0xf9, 0xd0, 0x5f, 0x81, 0xff, 0x00, 0x00, 0x00, 0x00, 0x00, 0x00,
     0xf7, 0xd0, 0x7f, 0x81, 0xff, 0xf6, 0xcc, 0x9f, 0x81, 0xff, 0x00, 0x00, 0x00, 0x00, 0x00, 0x00, 0xf4, 0xcc, 0xbf, 0x81, 0xff, 0xf3, 0xc8, 0xdf, 0x81, 0xff, 0x00, 0x00, 0x00, 0x00, 0x00, 0x00,
     0xf2, 0xc8, 0xff, 0x41, 0xff, 0xf1, 0xc4, 0x1f, 0x42, 0xff, 0x00, 0x00, 0x00, 0x00, 0x00, 0x00, 0xef, 0xc4, 0x3f, 0x42, 0xff, 0xed, 0xc4, 0x5f, 0x42, 0xff, 0x00, 0x00, 0x00, 0x00, 0x00, 0x00,
     0xed, 0xc0, 0x7f, 0x02, 0xff, 0xea, 0xc0, 0xaf, 0x02, 0xff, 0x00, 0x00, 0x00, 0x00, 0x00, 0x00, 0xe9, 0xbc, 0xcf, 0x02, 0xff, 0xe7, 0xbc, 0xef, 0x02, 0xff, 0x00, 0x00, 0x00, 0x00, 0x00, 0x00,
     0xe6, 0xbc, 0x0f, 0xc3, 0xfe, 0xe3, 0xbc, 0x3f, 0xc3, 0xfe, 0x00, 0x00, 0x00, 0x00, 0x00, 0x00, 0xe2, 0xb8, 0x5f, 0xc3, 0xfe, 0xe0, 0xb8, 0x8f, 0x83, 0xfe, 0x00, 0x00, 0x00, 0x00, 0x00, 0x00,
     0xde, 0xb8, 0xaf, 0x83, 0xfe, 0xdc, 0xb8, 0xcf, 0x83, 0xfe, 0x00, 0x00, 0x00, 0x00, 0x00, 0x00, 0xda, 0xb8, 0xff, 0x43, 0xfe, 0xd8, 0xb8, 0x1f, 0x44, 0xfe, 0x00, 0x00, 0x00, 0x00, 0x00, 0x00,
     0xd6, 0xb4, 0x4f, 0x44, 0xfe, 0xd4, 0xb4, 0x7f, 0x04, 0xfe, 0x00, 0x00, 0x00, 0x00, 0x00, 0x00, 0xd2, 0xb4, 0x9f, 0x04, 0xfe, 0xcf, 0xb4, 0xcf, 0x04, 0xfe, 0x00, 0x00, 0x00, 0x00, 0x00, 0x00,
     0xce, 0xb4, 0xef, 0xc4, 0xfd, 0xcb, 0xb4, 0x1f, 0xc5, 0xfd, 0x00, 0x00, 0x00, 0x00, 0x00, 0x00, 0xc8, 0xb4, 0x4f, 0xc5, 0xfd, 0xc7, 0xb4, 0x6f, 0x85, 0xfd, 0x00, 0x00, 0x00, 0x00, 0x00, 0x00,
     0xc4, 0xb4, 0x9f, 0x85, 0xfd, 0xc1, 0xb4, 0xcf, 0x85, 0xfd, 0x00, 0x00, 0x00, 0x00, 0x00, 0x00, 0xc0, 0xb4, 0xef, 0x45, 0xfd, 0xbd, 0xb4, 0x1f, 0x46, 0xfd, 0x00, 0x00, 0x00, 0x00, 0x00, 0x00,
     0xba, 0xb4, 0x4f, 0x46, 0xfd, 0xb9, 0xb4, 0x6f, 0x06, 0xfd, 0x00, 0x00, 0x00, 0x00, 0x00, 0x00, 0xb6, 0xb4, 0x9f, 0x06, 0xfd, 0xb2, 0xb8, 0xcf, 0x06, 0xfd, 0x00, 0x00, 0x00, 0x00, 0x00, 0x00,
     0xb0, 0xb8, 0xff, 0xc6, 0xfc, 0xad, 0xb8, 0x2f, 0xc7, 0xfc, 0x00, 0x00, 0x00, 0x00, 0x00, 0x00, 0xab, 0xb8, 0x4f, 0xc7, 0xfc, 0xa8, 0xb8, 0x7f, 0xc7, 0xfc, 0x00, 0x00, 0x00, 0x00, 0x00, 0x00,
     0xa6, 0xb8, 0xaf, 0x87, 0xfc, 0xa3, 0xb8, 0xdf, 0x87, 0xfc, 0x00, 0x00, 0x00, 0x00, 0x00, 0x00, 0xa0, 0xbc, 0xff, 0x87, 0xfc, 0x9e, 0xbc, 0x2f, 0x48, 0xfc, 0x00, 0x00, 0x00, 0x00, 0x00, 0x00,
     0x9b, 0xbc, 0x5f, 0x48, 0xfc, 0x98, 0xbc, 0x8f, 0x48, 0xfc, 0x00, 0x00, 0x00, 0x00, 0x00, 0x00, 0x95, 0xc0, 0xaf, 0x48, 0xfc, 0x93, 0xc0, 0xdf, 0x08, 0xfc, 0x00, 0x00, 0x00, 0x00, 0x00, 0x00,
     0x90, 0xc0, 0x0f, 0x09, 0xfc, 0x8d, 0xc0, 0x3f, 0x09, 0xfc, 0x00, 0x00, 0x00, 0x00, 0x00, 0x00, 0x8a, 0xc4, 0x5f, 0x09, 0xfc, 0x88, 0xc4, 0x8f, 0xc9, 0xfb, 0x00, 0x00, 0x00, 0x00, 0x00, 0x00,
     0x85, 0xc4, 0xbf, 0xc9, 0xfb, 0x82, 0xc4, 0xef, 0xc9, 0xfb, 0x00, 0x00, 0x00, 0x00, 0x00, 0x00, 0x7f, 0xc8, 0x0f, 0xca, 0xfb, 0x7d, 0xc8, 0x3f, 0x8a, 0xfb, 0x00, 0x00, 0x00, 0x00, 0x00, 0x00,
     0x7a, 0xc8, 0x6f, 0x8a, 0xfb, 0x77, 0xcc, 0x8f, 0x8a, 0xfb, 0x00, 0x00, 0x00, 0x00, 0x00, 0x00, 0x74, 0xcc, 0xbf, 0x8a, 0xfb, 0x71, 0xcc, 0xef, 0x8a, 0xfb, 0x00, 0x00, 0x00, 0x00, 0x00, 0x00,
     0x6f, 0xcc, 0x0f, 0x8b, 0xfb, 0x6b, 0xd0, 0x3f, 0x8b, 0xfb, 0x00, 0x00, 0x00, 0x00, 0x00, 0x00, 0x6a, 0xd0, 0x5f, 0x4b, 0xfb, 0x67, 0xd0, 0x8f, 0x4b, 0xfb, 0x00, 0x00, 0x00, 0x00, 0x00, 0x00,
     0x64, 0xd4, 0xaf, 0x4b, 0xfb, 0x61, 0xd4, 0xdf, 0x4b, 0xfb, 0x00, 0x00, 0x00, 0x00, 0x00, 0x00, 0x5f, 0xd4, 0xff, 0x4b, 0xfb, 0x5b, 0xd8, 0x2f, 0x4c, 0xfb, 0x00, 0x00, 0x00, 0x00, 0x00, 0x00,
     0x59, 0xd8, 0x4f, 0x4c, 0xfb, 0x57, 0xd8, 0x6f, 0x4c, 0xfb, 0x00, 0x00, 0x00, 0x00, 0x00, 0x00, 0x53, 0xdc, 0x9f, 0x4c, 0xfb, 0x51, 0xdc, 0xbf, 0x4c, 0xfb, 0x00, 0x00, 0x00, 0x00, 0x00, 0x00,
     0x4f, 0xdc, 0xdf, 0x4c, 0xfb, 0x4c, 0xe0, 0xff, 0x4c, 0xfb, 0x00, 0x00, 0x00, 0x00, 0x00, 0x00, 0x49, 0xe0, 0x2f, 0x4d, 0xfb, 0x47, 0xe0, 0x4f, 0x4d, 0xfb, 0x00, 0x00, 0x00, 0x00, 0x00, 0x00,
     0x44, 0xe4, 0x6f, 0x4d, 0xfb, 0x41, 0xe4, 0x8f, 0x8d, 0xfb, 0x00, 0x00, 0x00, 0x00, 0x00, 0x00, 0x3f, 0xe4, 0xaf, 0x8d, 0xfb, 0x3c, 0xe8, 0xcf, 0x8d, 0xfb, 0x00, 0x00, 0x00, 0x00, 0x00, 0x00,
     0x3a, 0xe8, 0xef, 0x8d, 0xfb, 0x38, 0xe8, 0x0f, 0x8e, 0xfb, 0x00, 0x00, 0x00, 0x00, 0x00, 0x00, 0x35, 0xec, 0x2f, 0x8e, 0xfb, 0x32, 0xec, 0x4f, 0xce, 0xfb, 0x00, 0x00, 0x00, 0x00, 0x00, 0x00,
     0x31, 0xec, 0x5f, 0xce, 0xfb, 0x2e, 0xf0, 0x7f, 0xce, 0xfb, 0x00, 0x00, 0x00, 0x00, 0x00, 0x00, 0x2c, 0xf0, 0x9f, 0xce, 0xfb, 0x2a, 0xf0, 0xaf, 0x0e, 0xfc, 0x00, 0x00, 0x00, 0x00, 0x00, 0x00,
     0x28, 0xf0, 0xcf, 0x0e, 0xfc, 0x24, 0xf4, 0xef, 0x4e, 0xfc, 0x00, 0x00, 0x00, 0x00, 0x00, 0x00, 0x23, 0xf4, 0xff, 0x4e, 0xfc, 0x22, 0xf4, 0x0f, 0x4f, 0xfc, 0x00, 0x00, 0x00, 0x00, 0x00, 0x00,
     0x1f, 0xf4, 0x2f, 0x8f, 0xfc, 0x1d, 0xf8, 0x3f, 0x8f, 0xfc, 0x00, 0x00, 0x00, 0x00, 0x00, 0x00, 0x1b, 0xf8, 0x4f, 0xcf, 0xfc, 0x19, 0xf8, 0x6f, 0xcf, 0xfc, 0x00, 0x00, 0x00, 0x00, 0x00, 0x00,
     0x17, 0xf8, 0x7f, 0x0f, 0xfd, 0x16, 0xf8, 0x8f, 0x0f, 0xfd, 0x00, 0x00, 0x00, 0x00, 0x00, 0x00, 0x13, 0xfc, 0x9f, 0x4f, 0xfd, 0x11, 0xfc, 0xaf, 0x8f, 0xfd, 0x00, 0x00, 0x00, 0x00, 0x00, 0x00,
     0x10, 0xfc, 0xbf, 0x8f, 0xfd, 0x0e, 0xfc, 0xcf, 0xcf, 0xfd, 0x00, 0x00, 0x00, 0x00, 0x00, 0x00, 0x0d, 0xfc, 0xcf, 0x0f, 0xfe, 0x0c, 0xfc, 0xdf, 0x0f, 0xfe, 0x00, 0x00, 0x00, 0x00, 0x00, 0x00,
     0x09, 0x00, 0xe0, 0x4f, 0xfe, 0x08, 0x00, 0xe0, 0x8f, 0xfe, 0x00, 0x00, 0x00, 0x00, 0x00, 0x00, 0x06, 0x00, 0xf0, 0xcf, 0xfe, 0x06, 0x00, 0xf0, 0xcf, 0xfe, 0x00, 0x00, 0x00, 0x00, 0x00, 0x00,
     0x05, 0x00, 0xf0, 0x0f, 0xff, 0x03, 0x00, 0x00, 0x50, 0xff, 0x00, 0x00, 0x00, 0x00, 0x00, 0x00, 0x02, 0x00, 0x00, 0x90, 0xff, 0x01, 0x00, 0x00, 0xd0, 0xff, 0x00, 0x00, 0x00, 0x00, 0x00, 0x00]"

definition ar_scaler_get_lut_size :: nat where
  "ar_scaler_get_lut_size = 0x400"

text \<open>The four taps of a phase: ten bits each from five bytes, in two's complement.\<close>

definition ten_bits :: "int \<Rightarrow> int" where
  "ten_bits v = (if v < 512 then v else v - 1024)"

definition lut_taps :: "u8 \<Rightarrow> u8 \<Rightarrow> u8 \<Rightarrow> u8 \<Rightarrow> u8 \<Rightarrow> int list" where
  "lut_taps a b c d e =
     [ten_bits (uint a + uint b mod 4 * 256), ten_bits (uint b div 4 + uint c mod 16 * 64),
      ten_bits (uint c div 16 + uint d mod 64 * 16), ten_bits (uint d div 64 + uint e * 4)]"

fun lut_phases :: "u8 list \<Rightarrow> int list list" where
  "lut_phases (a # b # c # d # e # a' # b' # c' # d' # e' # p0 # p1 # p2 # p3 # p4 # p5 # rest) =
     lut_taps a b c d e # lut_taps a' b' c' d' e' # lut_phases rest"
| "lut_phases _ = []"

text \<open>A phase filters with unity gain, 256, and its taps stay in range.\<close>

definition unity_gain :: "int list \<Rightarrow> bool" where
  "unity_gain ts \<longleftrightarrow> sum_list ts = 256 \<and> list_all (\<lambda>t. - 19 \<le> t \<and> t \<le> 256) ts"

lemma lut_length: "length scaler_lut_table = ar_scaler_get_lut_size"
  by (simp add: scaler_lut_table_def ar_scaler_get_lut_size_def)

lemma lut_unity: "list_all unity_gain (lut_phases scaler_lut_table) \<and> length (lut_phases scaler_lut_table) = 128"
  unfolding scaler_lut_table_def lut_phases.simps
  by (simp add: lut_taps_def ten_bits_def unity_gain_def)

end
