(* ===== verification/Ar_Scaler.thy ===== *)
theory Ar_Scaler
  imports Scaler_Image Scaler_Lut Dmabuf_Map
begin

text \<open>
  The scaler driver \<open>ar_scaler.c\<close>: the device state, the register choreography of an operation, the
  recovery from a timeout, frequency, power management, probe and remove, and the requests of both
  ABI families.  The registers are functions from byte offset to word; what the engine does is an
  argument of the operations: the status words it raises at each stage.  Documented hardware
  behaviour that the driver relies on is part of the register model: \<open>STATUS\<close> is write-one-to-clear,
  an enabled status is delivered to the interrupt handler at once, and in batch mode the engine ignores writes to
  the live descriptor.  An access through an unmapped register window is logged as \<open>Wild\<close>.
\<close>

section \<open>The device\<close>

abbreviation SC_REG_CTRL :: nat where "SC_REG_CTRL \<equiv> 0x00"
abbreviation SC_REG_BATCHADDR :: nat where "SC_REG_BATCHADDR \<equiv> 0x04"
abbreviation SC_REG_BATCHCFG :: nat where "SC_REG_BATCHCFG \<equiv> 0x0c"
abbreviation SC_REG_IRQEN :: nat where "SC_REG_IRQEN \<equiv> 0x10"
abbreviation SC_REG_STATUS :: nat where "SC_REG_STATUS \<equiv> 0x14"
abbreviation SC_REG_TRIGGER :: nat where "SC_REG_TRIGGER \<equiv> 0x18"
abbreviation SC_REG_CONF :: nat where "SC_REG_CONF \<equiv> 0x28"
abbreviation SC_REG_BURST :: nat where "SC_REG_BURST \<equiv> 0x40"
abbreviation SC_REG_LUTADDR :: nat where "SC_REG_LUTADDR \<equiv> 0x70"
abbreviation SC_DESC_BASE :: nat where "SC_DESC_BASE \<equiv> 0x1c"
abbreviation CTRL_FREQ_DIV :: nat where "CTRL_FREQ_DIV \<equiv> 0x405c"
abbreviation CTRL_CLK_GATE :: nat where "CTRL_CLK_GATE \<equiv> 0x6010"
abbreviation CTRL_CLK_MAGIC :: nat where "CTRL_CLK_MAGIC \<equiv> 0x6200"
abbreviation CTRL_CLK_CFG :: nat where "CTRL_CLK_CFG \<equiv> 0x6204"
abbreviation SCALER_BATCH_MAX :: u32 where "SCALER_BATCH_MAX \<equiv> 255"
abbreviation BATCH_WORDS :: nat where "BATCH_WORDS \<equiv> 0xff00 div 4"

datatype bus_write = Core nat u32 | Ctrl nat u32 | Wild

type_synonym regs = "nat \<Rightarrow> u32"

text \<open>\<open>sd_launches\<close> records what the engine finds at each trigger: its registers and the batch block.\<close>

record scaler_dev =
  sd_core :: regs
  sd_clk :: regs
  sd_mapped :: bool
  sd_ctrlbase :: bool
  sd_frequency :: u32
  sd_lut :: "u8 list option"
  sd_lut_phys :: u64
  sd_batch :: "regs option"
  sd_batch_phys :: u64
  sd_done :: nat
  sd_suspended :: bool
  sd_dead :: bool
  sd_last_op :: "ar_scaler_op option"
  sd_last_ctrl :: u32
  sd_last_batch :: bool
  sd_last_batch_cnt :: u32
  sd_misc :: bool
  sd_proc :: bool
  sd_bound :: bool
  sd_initted :: bool
  sd_log :: "bus_write list"
  sd_launches :: "(regs \<times> regs option) list"

text \<open>A write to a core register, to a clock register, and the log.\<close>

definition log_bus :: "bus_write \<Rightarrow> scaler_dev \<Rightarrow> scaler_dev" where
  "log_bus b d = d\<lparr>sd_log := sd_log d @ [b]\<rparr>"

definition core_poke :: "nat \<Rightarrow> u32 \<Rightarrow> scaler_dev \<Rightarrow> scaler_dev" where
  "core_poke off v d =
     (if \<not> sd_mapped d then log_bus Wild d
      else log_bus (Core off v)
        (if off = SC_REG_STATUS then d\<lparr>sd_core := (sd_core d)(off := sd_core d off AND NOT v)\<rparr>
         else if SC_DESC_BASE \<le> off \<and> off < SC_DESC_BASE + 0x100 \<and> bit (sd_core d SC_REG_CTRL) 0 then d
         else if off = SC_REG_TRIGGER \<and> v = 1 then d\<lparr>sd_launches := sd_launches d @ [(sd_core d, sd_batch d)]\<rparr>
         else d\<lparr>sd_core := (sd_core d)(off := v)\<rparr>))"

definition ctrl_write :: "nat \<Rightarrow> u32 \<Rightarrow> scaler_dev \<Rightarrow> scaler_dev" where
  "ctrl_write off v d =
     (if \<not> sd_mapped d then log_bus Wild d else log_bus (Ctrl off v) (d\<lparr>sd_clk := (sd_clk d)(off := v)\<rparr>))"

definition ctrl_rmw :: "nat \<Rightarrow> (u32 \<Rightarrow> u32) \<Rightarrow> scaler_dev \<Rightarrow> scaler_dev" where
  "ctrl_rmw off f d = ctrl_write off (f (sd_clk d off)) d"

text \<open>The interrupt handler, and its delivery.\<close>

definition ar_scaler_irq_handler :: "scaler_dev \<Rightarrow> scaler_dev" where
  "ar_scaler_irq_handler d =
     (let status = sd_core d SC_REG_STATUS;
          d1 = core_poke SC_REG_STATUS status d
      in if bit status 31 then d1\<lparr>sd_done := sd_done d1 + 1\<rparr> else d1)"

definition irq_pending :: "scaler_dev \<Rightarrow> scaler_dev" where
  "irq_pending d =
     (if sd_mapped d \<and> bit (sd_core d SC_REG_IRQEN) 31 \<and> sd_core d SC_REG_STATUS \<noteq> 0 then ar_scaler_irq_handler d else d)"

definition engine_raise :: "u32 \<Rightarrow> scaler_dev \<Rightarrow> scaler_dev" where
  "engine_raise st d =
     (if sd_mapped d then irq_pending (d\<lparr>sd_core := (sd_core d)(SC_REG_STATUS := sd_core d SC_REG_STATUS OR st)\<rparr>) else d)"

definition core_write :: "nat \<Rightarrow> u32 \<Rightarrow> scaler_dev \<Rightarrow> scaler_dev" where
  "core_write off v d = irq_pending (core_poke off v d)"

definition core_rmw :: "nat \<Rightarrow> (u32 \<Rightarrow> u32) \<Rightarrow> scaler_dev \<Rightarrow> scaler_dev" where
  "core_rmw off f d = core_write off (f (sd_core d off)) d"

definition reinit_completion :: "scaler_dev \<Rightarrow> scaler_dev" where
  "reinit_completion d = d\<lparr>sd_done := 0\<rparr>"

section \<open>Clock bring-up\<close>

definition ar_scaler_set_freq_div :: "u32 \<Rightarrow> scaler_dev \<Rightarrow> scaler_dev" where
  "ar_scaler_set_freq_div freq = ctrl_rmw CTRL_FREQ_DIV (\<lambda>v. (v AND 0xffff0000) OR scaler_freq_to_div freq)"

text \<open>The three stages of \<open>ar_scaler_hw_init\<close>: the clocks, the LUT buffer, the core registers.\<close>

definition clock_bringup :: "scaler_dev \<Rightarrow> scaler_dev" where
  "clock_bringup d0 =
     (let d1 = (if sd_frequency d0 \<noteq> 0 then ar_scaler_set_freq_div (sd_frequency d0) d0 else d0);
          d2 = ctrl_rmw CTRL_CLK_GATE (\<lambda>v. v AND NOT 0x1900) d1;
          cfg = sd_clk d2 CTRL_CLK_CFG AND NOT 0x80000;
          d3 = ctrl_write CTRL_CLK_MAGIC 0x00ACCE55 d2;
          d4 = ctrl_write CTRL_CLK_CFG (cfg OR 0x808) d3
      in ctrl_rmw CTRL_CLK_GATE (\<lambda>v. v OR 0x1900) d4)"

definition upload_lut :: "scaler_dev \<Rightarrow> scaler_dev" where
  "upload_lut d = d\<lparr>sd_lut := map_option (\<lambda>buf. scaler_lut_table @ drop ar_scaler_get_lut_size buf) (sd_lut d)\<rparr>"

definition core_seed :: "scaler_dev \<Rightarrow> scaler_dev" where
  "core_seed d0 =
     (let d1 = core_rmw SC_REG_CTRL (\<lambda>v. v AND NOT 1) d0;
          d2 = core_write SC_REG_CONF 0x1040d d1;
          d3 = core_rmw SC_REG_CONF (\<lambda>v. (((v OR 0x4) OR 0x8) AND NOT 0x2) AND NOT 0x60) d2;
          d4 = core_rmw SC_REG_BURST (\<lambda>v. (v AND NOT 0xff) OR 0x4) d3;
          d5 = core_rmw SC_REG_BURST (\<lambda>v. (v AND NOT 0x7f00) OR 0x7800) d4;
          d6 = core_write SC_REG_LUTADDR (ucast (sd_lut_phys d5)) d5;
          d7 = core_write SC_REG_IRQEN 0 d6;
          d8 = core_rmw SC_REG_IRQEN (\<lambda>v. v OR 0x80000000) d7
      in core_rmw SC_REG_CONF (\<lambda>v. v OR 0x8) d8)"

definition ar_scaler_hw_init :: "scaler_dev \<Rightarrow> scaler_dev" where
  "ar_scaler_hw_init d = (if \<not> sd_ctrlbase d then d else core_seed (upload_lut (clock_bringup d)))"

definition ar_scaler_poweroff :: "scaler_dev \<Rightarrow> scaler_dev" where
  "ar_scaler_poweroff = ctrl_rmw CTRL_CLK_GATE (\<lambda>v. v AND NOT 0x1900)"

section \<open>Running an operation\<close>

text \<open>What the environment does during one operation: whether the lock is interrupted, and the
  statuses raised during the wait, after the wait ran out, while the reset has the interrupt
  enabled, and while it is masked again.\<close>

record run_env =
  re_intr :: bool
  re_during :: "u32 list"
  re_late :: "u32 list"
  re_reset :: "u32 list"
  re_masked :: "u32 list"

definition ar_scaler_timeout_reset :: "run_env \<Rightarrow> scaler_dev \<Rightarrow> scaler_dev" where
  "ar_scaler_timeout_reset env d0 =
     (let d1 = core_write SC_REG_IRQEN 0 (fold engine_raise (re_late env) d0);
          d2 = fold engine_raise (re_reset env) (ar_scaler_hw_init d1);
          d3 = core_write SC_REG_IRQEN 0 d2;
          d4 = fold engine_raise (re_masked env) d3;
          d5 = core_rmw SC_REG_STATUS (\<lambda>v. v) d4;
          d6 = reinit_completion d5
      in core_write SC_REG_IRQEN 0x80000000 d6)"

text \<open>\<open>wait_for_completion_timeout\<close> with its two outcomes; the register dump only reads.\<close>

definition wait_done :: "run_env \<Rightarrow> scaler_dev \<Rightarrow> (errno + unit) \<times> scaler_dev" where
  "wait_done env d =
     (let d1 = fold engine_raise (re_during env) d
      in if sd_done d1 = 0 then (Inl ETIMEDOUT, ar_scaler_timeout_reset env d1)
         else (Inr (), d1\<lparr>sd_done := sd_done d1 - 1\<rparr>))"

definition SD_WORDS :: "nat list" where
  "SD_WORDS = [0, 1, 2, 3, 4, 5, 9, 10, 11, 12, 13, 15, 16, 17, 19, 20, 21]"

definition scaler_set_batch_registers :: "ar_scaler_op \<Rightarrow> u32 \<Rightarrow> scaler_dev \<Rightarrow> scaler_dev" where
  "scaler_set_batch_registers op count d =
     (let img = scaler_build_image (\<lambda>_. 0) op (ucast (sd_lut_phys d));
          d1 = fold (\<lambda>i. core_write (SC_DESC_BASE + 4 * i) (img i)) SD_WORDS d
      in d1\<lparr>sd_last_op := Some op, sd_last_ctrl := img 3, sd_last_batch := count > 1, sd_last_batch_cnt := count\<rparr>)"

definition ar_scaler_run :: "run_env \<Rightarrow> ar_scaler_op \<Rightarrow> u32 \<Rightarrow> scaler_dev \<Rightarrow> (errno + unit) \<times> scaler_dev" where
  "ar_scaler_run env op count d =
     (if re_intr env then (Inl EINTR, d)
      else if sd_suspended d \<or> sd_dead d then (Inl (if sd_dead d then ENODEV else EAGAIN), d)
      else case ar_scaler_validate op of
        Some e \<Rightarrow> (Inl e, d)
      | None \<Rightarrow>
          let d1 = reinit_completion d;
              d2 = core_rmw SC_REG_CTRL (\<lambda>v. v AND NOT 1) d1;
              d3 = scaler_set_batch_registers op count d2;
              d4 = core_write SC_REG_TRIGGER 1 d3
          in wait_done env d4)"
text \<open>The first operation that fails validation.\<close>

fun validate_all :: "ar_scaler_op list \<Rightarrow> errno option" where
  "validate_all [] = None"
| "validate_all (op # ops) = (case ar_scaler_validate op of Some e \<Rightarrow> Some e | None \<Rightarrow> validate_all ops)"

text \<open>The descriptor of operation \<open>i\<close> in the block, and the whole block.\<close>

definition stage_op :: "nat \<Rightarrow> ar_scaler_op \<Rightarrow> u32 \<Rightarrow> regs \<Rightarrow> regs" where
  "stage_op i op lut w =
     (\<lambda>j. if 64 * i \<le> j then scaler_build_image (\<lambda>k. w (64 * i + k)) op lut (j - 64 * i) else w j)"

fun stage_all :: "nat \<Rightarrow> ar_scaler_op list \<Rightarrow> u32 \<Rightarrow> regs \<Rightarrow> regs" where
  "stage_all i [] lut w = w"
| "stage_all i (op # ops) lut w = stage_all (i + 1) ops lut (stage_op i op lut w)"

definition ar_scaler_run_batch :: "run_env \<Rightarrow> ar_scaler_op list \<Rightarrow> u32 \<Rightarrow> scaler_dev \<Rightarrow> (errno + unit) \<times> scaler_dev" where
  "ar_scaler_run_batch env ops0 count d =
     (let ops = take (unat count) ops0
      in if count = 0 \<or> count > SCALER_BATCH_MAX then (Inl EINVAL, d)
         else case validate_all ops of
           Some e \<Rightarrow> (Inl e, d)
         | None \<Rightarrow>
            if re_intr env then (Inl EINTR, d)
            else if sd_suspended d \<or> sd_dead d then (Inl (if sd_dead d then ENODEV else EAGAIN), d)
            else
              let d1 = (case sd_batch d of
                          None \<Rightarrow> log_bus Wild d
                        | Some w \<Rightarrow> d\<lparr>sd_batch := Some (stage_all 0 ops (ucast (sd_lut_phys d)) (\<lambda>j. if j < BATCH_WORDS then 0 else w j))\<rparr>);
                  d2 = reinit_completion (d1\<lparr>sd_last_op := Some (hd ops), sd_last_batch := True, sd_last_batch_cnt := count\<rparr>);
                  d3 = core_rmw SC_REG_CTRL (\<lambda>v. v OR 1) d2;
                  d4 = core_write SC_REG_BATCHADDR (ucast (sd_batch_phys d3)) d3;
                  d5 = core_rmw SC_REG_BATCHCFG (\<lambda>v. (v AND 0xffff) OR push_bit 16 count) d4;
                  d6 = core_write SC_REG_TRIGGER 1 d5
              in wait_done env d6)"

definition ar_scaler_set_frequency :: "u32 option \<Rightarrow> scaler_dev \<Rightarrow> (errno + unit) \<times> scaler_dev" where
  "ar_scaler_set_frequency arg d =
     (case arg of
        None \<Rightarrow> (Inl EFAULT, d)
      | Some freq \<Rightarrow>
          if sd_dead d then (Inl ENODEV, d)
          else (Inr (), if freq \<noteq> 0 then ar_scaler_set_freq_div freq (d\<lparr>sd_frequency := freq\<rparr>) else d\<lparr>sd_frequency := freq\<rparr>))"

section \<open>The requests\<close>

text \<open>A request of user space carries its argument, or \<open>None\<close> when copying it in fails.\<close>

definition ar_scaler_start_single :: "run_env \<Rightarrow> ar_scaler_op option \<Rightarrow> scaler_dev \<Rightarrow> (errno + unit) \<times> scaler_dev" where
  "ar_scaler_start_single env arg d =
     (case arg of None \<Rightarrow> (Inl EFAULT, d) | Some op \<Rightarrow> ar_scaler_run env op 1 d)"

definition ar_scaler_start_batch ::
  "run_env \<Rightarrow> bool \<Rightarrow> (u32 \<times> ar_scaler_op list) option \<Rightarrow> scaler_dev \<Rightarrow> (errno + unit) \<times> scaler_dev" where
  "ar_scaler_start_batch env kmalloc_ok arg d =
     (if \<not> kmalloc_ok then (Inl ENOMEM, d)
      else case arg of None \<Rightarrow> (Inl EFAULT, d) | Some (count, ops) \<Rightarrow> ar_scaler_run_batch env ops count d)"

record ar_scaler_dmabuf_op =
  do_src_fd :: int
  do_dst_fd :: int
  do_src_off :: u32
  do_dst_off :: u32
  do_op :: ar_scaler_op

record ar_scaler_dmabuf_batch =
  db_count :: u32
  db_reserved :: u32
  db_ops :: "ar_scaler_dmabuf_op list"

text \<open>The checks of \<open>ar_scaler_resolve_dmabuf_op\<close> before the descriptors are looked up.\<close>

definition dmabuf_op_ok :: "ar_scaler_dmabuf_op \<Rightarrow> bool" where
  "dmabuf_op_ok dop =
     (let op = do_op dop
      in \<not> (op_srcphy op \<noteq> 0 \<or> op_dstphy op \<noteq> 0) \<and>
         (do_src_off dop OR do_dst_off dop) AND 0xf = 0 \<and>
         \<not> (op_srch op = 0 \<or> op_srcstride op = 0 \<or> op_dsth op = 0 \<or> op_dststride op = 0 \<or> op_channels op = 0) \<and>
         \<not> ((ucast (op_srcw op) * ucast (op_channels op) :: u64) > ucast (op_srcstride op) \<or>
            (ucast (op_dstw op) * ucast (op_channels op) :: u64) > ucast (op_dststride op)) \<and>
         \<not> ((ucast (op_crop_x op) + ucast (op_cropw op) :: u64) > ucast (op_srcw op) \<or>
            (ucast (op_crop_y op) + ucast (op_croph op) :: u64) > ucast (op_srch op)))"

definition ar_scaler_resolve_dmabuf_op ::
  "dmabuf_env \<Rightarrow> ar_scaler_dmabuf_op \<Rightarrow> cache_state \<Rightarrow> (errno + ar_scaler_op) \<times> cache_state" where
  "ar_scaler_resolve_dmabuf_op denv dop s =
     (let op = do_op dop
      in if \<not> dmabuf_op_ok dop then (Inl EINVAL, s)
         else case ml_bufcache_map_fd denv (do_src_fd dop) DMA_TO_DEVICE s of
           (Inl e, s1) \<Rightarrow> (Inl e, s1)
         | (Inr src, s1) \<Rightarrow>
             (case ml_bufcache_map_fd denv (do_dst_fd dop) DMA_FROM_DEVICE s1 of
                (Inl e, s2) \<Rightarrow> (Inl e, s2)
              | (Inr dst, s2) \<Rightarrow>
                  let sm = cs_entry s2 src; dm = cs_entry s2 dst;
                      sphys = bm_base sm + ucast (do_src_off dop); dphys = bm_base dm + ucast (do_dst_off dop)
                  in if ucast (do_src_off dop) + ucast (op_srch op) * ucast (op_srcstride op) > bm_size sm then (Inl EINVAL, s2)
                     else if ucast (do_dst_off dop) + ucast (op_dsth op) * ucast (op_dststride op) > bm_size dm then (Inl EINVAL, s2)
                     else if drop_bit 32 sphys \<noteq> 0 then (Inl ERANGE, s2)
                     else if drop_bit 32 dphys \<noteq> 0 then (Inl ERANGE, s2)
                     else (Inr (op\<lparr>op_srcphy := ucast sphys, op_dstphy := ucast dphys\<rparr>), s2)))"

definition ar_scaler_start_single_dmabuf ::
  "run_env \<Rightarrow> dmabuf_env \<Rightarrow> ar_scaler_dmabuf_op option \<Rightarrow> cache_state \<Rightarrow> scaler_dev \<Rightarrow> (errno + unit) \<times> cache_state \<times> scaler_dev" where
  "ar_scaler_start_single_dmabuf env denv arg s d =
     (case arg of
        None \<Rightarrow> (Inl EFAULT, s, d)
      | Some dop \<Rightarrow>
          (case ar_scaler_resolve_dmabuf_op denv dop s of
             (Inl e, s1) \<Rightarrow> (Inl e, s1, d)
           | (Inr op, s1) \<Rightarrow> (case ar_scaler_run env op 1 d of (r, d1) \<Rightarrow> (r, s1, d1))))"

text \<open>The resolve loop of the batch.\<close>

fun resolve_all :: "dmabuf_env \<Rightarrow> ar_scaler_dmabuf_op list \<Rightarrow> cache_state \<Rightarrow> (errno + ar_scaler_op list) \<times> cache_state" where
  "resolve_all denv [] s = (Inr [], s)"
| "resolve_all denv (dop # dops) s =
     (case ar_scaler_resolve_dmabuf_op denv dop s of
        (Inl e, s1) \<Rightarrow> (Inl e, s1)
      | (Inr op, s1) \<Rightarrow>
          (case resolve_all denv dops s1 of (Inl e, s2) \<Rightarrow> (Inl e, s2) | (Inr ops, s2) \<Rightarrow> (Inr (op # ops), s2)))"

definition ar_scaler_start_batch_dmabuf ::
  "run_env \<Rightarrow> dmabuf_env \<Rightarrow> ar_scaler_dmabuf_batch option \<Rightarrow> cache_state \<Rightarrow> scaler_dev \<Rightarrow> (errno + unit) \<times> cache_state \<times> scaler_dev" where
  "ar_scaler_start_batch_dmabuf env denv arg s d =
     (case arg of
        None \<Rightarrow> (Inl EFAULT, s, d)
      | Some b \<Rightarrow>
          if db_count b = 0 \<or> db_count b > 8 \<or> db_reserved b \<noteq> 0 then (Inl EINVAL, s, d)
          else case resolve_all denv (take (unat (db_count b)) (db_ops b)) s of
            (Inl e, s1) \<Rightarrow> (Inl e, s1, d)
          | (Inr ops, s1) \<Rightarrow> (case ar_scaler_run_batch env ops (db_count b) d of (r, d1) \<Rightarrow> (r, s1, d1)))"

datatype scaler_cmd =
    SCALER_IOC_SINGLE "ar_scaler_op option"
  | SCALER_IOC_BATCH bool "(u32 \<times> ar_scaler_op list) option"
  | SCALER_IOC_SETFREQ "u32 option"
  | SCALER_IOC_SINGLE_DMABUF "ar_scaler_dmabuf_op option"
  | SCALER_IOC_BATCH_DMABUF "ar_scaler_dmabuf_batch option"
  | SCALER_IOC_OTHER

text \<open>The size check of each case repeats what the command number already fixes.\<close>

definition ar_scaler_ioctl ::
  "run_env \<Rightarrow> dmabuf_env \<Rightarrow> scaler_cmd \<Rightarrow> cache_state \<Rightarrow> scaler_dev \<Rightarrow> (errno + unit) \<times> cache_state \<times> scaler_dev" where
  "ar_scaler_ioctl env denv cmd s d =
     (case cmd of
        SCALER_IOC_SINGLE arg \<Rightarrow> (case ar_scaler_start_single env arg d of (r, d1) \<Rightarrow> (r, s, d1))
      | SCALER_IOC_BATCH kmalloc_ok arg \<Rightarrow> (case ar_scaler_start_batch env kmalloc_ok arg d of (r, d1) \<Rightarrow> (r, s, d1))
      | SCALER_IOC_SETFREQ arg \<Rightarrow> (case ar_scaler_set_frequency arg d of (r, d1) \<Rightarrow> (r, s, d1))
      | SCALER_IOC_SINGLE_DMABUF arg \<Rightarrow> ar_scaler_start_single_dmabuf env denv arg s d
      | SCALER_IOC_BATCH_DMABUF arg \<Rightarrow> ar_scaler_start_batch_dmabuf env denv arg s d
      | SCALER_IOC_OTHER \<Rightarrow> (Inl EINVAL, s, d))"

definition ar_scaler_open :: "bool \<Rightarrow> errno + ml_bufcache" where
  "ar_scaler_open kzalloc_ok = (if kzalloc_ok then Inr bufcache_empty else Inl ENOMEM)"

definition ar_scaler_release :: "cache_state \<Rightarrow> dmabuf_world" where
  "ar_scaler_release s = snd (ml_bufcache_release s)"

section \<open>Life cycle\<close>

text \<open>What the platform gives a probe: a \<open>None\<close> resource, mapping or allocation is a failure.  (The
  \<open>control\<close> property only chooses the address of the second mapping.)\<close>

record probe_env =
  pe_resource :: "nat option"
  pe_ioremap :: "regs option"
  pe_ctrl_ioremap :: "regs option"
  pe_frequency :: "u32 option"
  pe_irq :: "errno option"
  pe_request_irq :: "errno option"
  pe_dma_mask :: "errno option"
  pe_lut :: "(u64 \<times> u8 list) option"
  pe_batch :: "(u64 \<times> regs) option"
  pe_misc :: "errno option"
  pe_proc :: bool

definition ar_scaler_alloc_bufs :: "probe_env \<Rightarrow> scaler_dev \<Rightarrow> errno option \<times> scaler_dev" where
  "ar_scaler_alloc_bufs pe d =
     (case pe_lut pe of
        None \<Rightarrow> (Some ENOMEM, d\<lparr>sd_lut := None\<rparr>)
      | Some (lphys, lbuf) \<Rightarrow>
          let d1 = d\<lparr>sd_lut := Some lbuf, sd_lut_phys := lphys\<rparr>
          in (case pe_batch pe of
                None \<Rightarrow> (Some ENOMEM, d1\<lparr>sd_batch := None, sd_lut := None\<rparr>)
              | Some (bphys, bbuf) \<Rightarrow> (None, d1\<lparr>sd_batch := Some bbuf, sd_batch_phys := bphys\<rparr>)))"

definition ar_scaler_free_bufs :: "scaler_dev \<Rightarrow> scaler_dev" where
  "ar_scaler_free_bufs d = d\<lparr>sd_batch := None, sd_lut := None\<rparr>"

text \<open>The last stage of a probe: bring the engine up and publish the node, or power it off again.\<close>

definition probe_finish :: "probe_env \<Rightarrow> scaler_dev \<Rightarrow> errno option \<times> scaler_dev" where
  "probe_finish pe d4 =
     (let d5 = ar_scaler_hw_init d4
      in case pe_misc pe of
           Some e \<Rightarrow> (Some e, ar_scaler_free_bufs (ar_scaler_poweroff d5))
         | None \<Rightarrow> (None, d5\<lparr>sd_misc := True, sd_proc := pe_proc pe, sd_bound := True\<rparr>))"

text \<open>From the interrupt on, with the register windows mapped.\<close>

definition probe_mapped :: "probe_env \<Rightarrow> scaler_dev \<Rightarrow> errno option \<times> scaler_dev" where
  "probe_mapped pe d3 =
     (case pe_irq pe of Some e \<Rightarrow> (Some e, d3)
      | None \<Rightarrow>
       (case pe_request_irq pe of Some e \<Rightarrow> (Some e, d3)
        | None \<Rightarrow>
         (case pe_dma_mask pe of Some e \<Rightarrow> (Some e, d3)
          | None \<Rightarrow>
           (case ar_scaler_alloc_bufs pe d3 of
              (Some e, d4) \<Rightarrow> (Some e, d4)
            | (None, d4) \<Rightarrow> probe_finish pe d4))))"

definition ar_scaler_probe :: "probe_env \<Rightarrow> scaler_dev \<Rightarrow> errno option \<times> scaler_dev" where
  "ar_scaler_probe pe d0 =
     (if sd_bound d0 then (Some EBUSY, d0)
      else let d1 = d0\<lparr>sd_dead := False\<rparr>;
               d2 = (if \<not> sd_initted d1 then d1\<lparr>sd_done := 0, sd_initted := True\<rparr> else d1)
      in case pe_resource pe of
        None \<Rightarrow> (Some ENODEV, d2)
      | Some rsize \<Rightarrow>
        if rsize < 0x1000 then (Some EINVAL, d2)
        else case pe_ioremap pe of
          None \<Rightarrow> (Some ENOMEM, d2)
        | Some core \<Rightarrow>
          (case pe_ctrl_ioremap pe of
             None \<Rightarrow> (Some ENOMEM, d2\<lparr>sd_ctrlbase := False\<rparr>)
           | Some clk \<Rightarrow>
             let d3 = d2\<lparr>sd_core := core, sd_clk := clk, sd_mapped := True, sd_ctrlbase := True,
                         sd_frequency := (case pe_frequency pe of None \<Rightarrow> 0 | Some f \<Rightarrow> f)\<rparr>
             in probe_mapped pe d3))"

definition ar_scaler_remove :: "scaler_dev \<Rightarrow> scaler_dev" where
  "ar_scaler_remove d =
     (ar_scaler_free_bufs (ar_scaler_poweroff (d\<lparr>sd_proc := False, sd_misc := False, sd_dead := True\<rparr>)))\<lparr>sd_bound := False\<rparr>"

definition ar_scaler_suspend :: "scaler_dev \<Rightarrow> scaler_dev" where
  "ar_scaler_suspend d = (ar_scaler_poweroff d)\<lparr>sd_suspended := True\<rparr>"

definition ar_scaler_resume :: "scaler_dev \<Rightarrow> scaler_dev" where
  "ar_scaler_resume d = (ar_scaler_hw_init d)\<lparr>sd_suspended := False\<rparr>"

section \<open>Register accesses\<close>

text \<open>What register accesses never change.\<close>

definition static :: "scaler_dev \<Rightarrow> scaler_dev" where
  "static d = d\<lparr>sd_core := \<lambda>_. 0, sd_clk := \<lambda>_. 0, sd_done := 0, sd_log := [], sd_launches := []\<rparr>"

lemma static_fields:
  assumes "static d' = static d"
  shows "sd_mapped d' = sd_mapped d" "sd_ctrlbase d' = sd_ctrlbase d" "sd_frequency d' = sd_frequency d" "sd_lut d' = sd_lut d"
    "sd_lut_phys d' = sd_lut_phys d" "sd_batch d' = sd_batch d" "sd_batch_phys d' = sd_batch_phys d"
    "sd_suspended d' = sd_suspended d" "sd_dead d' = sd_dead d" "sd_misc d' = sd_misc d" "sd_bound d' = sd_bound d"
  using arg_cong [OF assms, of sd_mapped] arg_cong [OF assms, of sd_ctrlbase] arg_cong [OF assms, of sd_frequency]
    arg_cong [OF assms, of sd_lut] arg_cong [OF assms, of sd_lut_phys] arg_cong [OF assms, of sd_batch]
    arg_cong [OF assms, of sd_batch_phys] arg_cong [OF assms, of sd_suspended] arg_cong [OF assms, of sd_dead]
    arg_cong [OF assms, of sd_misc] arg_cong [OF assms, of sd_bound]
  by (simp_all add: static_def)

lemma static_poke: "static (core_poke off v d) = static d"
  by (simp add: static_def core_poke_def log_bus_def)

lemma static_ctrl: "static (ctrl_write off v d) = static d" "static (ctrl_rmw off f d) = static d"
  by (simp_all add: static_def ctrl_rmw_def ctrl_write_def log_bus_def)

lemma static_handler: "static (ar_scaler_irq_handler d) = static d"
  by (simp add: ar_scaler_irq_handler_def Let_def static_def core_poke_def log_bus_def)

lemma static_pending: "static (irq_pending d) = static d"
  by (simp add: irq_pending_def static_handler)

lemma static_raise: "static (engine_raise st d) = static d"
  by (simp add: engine_raise_def static_pending) (simp add: static_def)

lemma static_write: "static (core_write off v d) = static d" "static (core_rmw off f d) = static d"
  by (simp_all add: core_write_def core_rmw_def static_pending static_poke)

lemma static_reinit: "static (reinit_completion d) = static d"
  by (simp add: reinit_completion_def static_def)

lemma static_fold: "(\<And>x e. static (f x e) = static e) \<Longrightarrow> static (fold f xs d) = static d"
  by (induction xs arbitrary: d) simp_all

lemmas statics = static_poke static_ctrl static_handler static_pending static_raise static_write static_reinit

lemmas fields_poke [simp] = static_fields [OF static_poke]
lemmas fields_ctrl [simp] = static_fields [OF static_ctrl(1)] static_fields [OF static_ctrl(2)]
lemmas fields_handler [simp] = static_fields [OF static_handler]
lemmas fields_pending [simp] = static_fields [OF static_pending]
lemmas fields_raise [simp] = static_fields [OF static_raise]
lemmas fields_write [simp] = static_fields [OF static_write(1)] static_fields [OF static_write(2)]
lemmas fields_reinit [simp] = static_fields [OF static_reinit]
lemmas fields_raises [simp] = static_fields [OF static_fold [of engine_raise, OF static_raise]]
lemmas fields_writes [simp] = static_fields [OF static_fold [of "\<lambda>i. core_write (g i) (h i)" for g h, OF static_write(1)]]

text \<open>A handler run consumes the status; nothing else of the core registers changes.\<close>

lemma handler_effect:
  assumes "sd_mapped d"
  shows "sd_core (ar_scaler_irq_handler d) = (sd_core d)(SC_REG_STATUS := 0)"
    and "sd_clk (ar_scaler_irq_handler d) = sd_clk d" "sd_launches (ar_scaler_irq_handler d) = sd_launches d"
    and "sd_done (ar_scaler_irq_handler d) = sd_done d + (if bit (sd_core d SC_REG_STATUS) 31 then 1 else 0)"
    and "sd_log (ar_scaler_irq_handler d) = sd_log d @ [Core SC_REG_STATUS (sd_core d SC_REG_STATUS)]"
  using assms by (auto simp: ar_scaler_irq_handler_def Let_def core_poke_def log_bus_def)

lemma pending_effect:
  assumes "sd_mapped d"
  shows "j \<noteq> SC_REG_STATUS \<Longrightarrow> sd_core (irq_pending d) j = sd_core d j"
    and "sd_clk (irq_pending d) = sd_clk d" "sd_launches (irq_pending d) = sd_launches d"
    and "bit (sd_core (irq_pending d) SC_REG_IRQEN) 31 \<Longrightarrow> sd_core (irq_pending d) SC_REG_STATUS = 0"
    and "\<not> bit (sd_core d SC_REG_IRQEN) 31 \<or> sd_core d SC_REG_STATUS = 0 \<Longrightarrow> irq_pending d = d"
  using assms by (auto simp: irq_pending_def handler_effect)

definition tame :: "scaler_dev \<Rightarrow> bool" where
  "tame d \<longleftrightarrow> Wild \<notin> set (sd_log d)"

lemma tame_pending [simp]: "sd_mapped d \<Longrightarrow> tame (irq_pending d) = tame d"
  by (simp add: irq_pending_def tame_def handler_effect)

lemma tame_write [simp]:
  "sd_mapped d \<Longrightarrow> tame (core_write off v d) = tame d" "sd_mapped d \<Longrightarrow> tame (core_rmw off f d) = tame d"
  "sd_mapped d \<Longrightarrow> tame (ctrl_write off v d) = tame d" "sd_mapped d \<Longrightarrow> tame (ctrl_rmw off f d) = tame d"
  by (simp_all add: core_write_def core_rmw_def ctrl_rmw_def) (simp_all add: core_poke_def ctrl_write_def log_bus_def tame_def)

lemma tame_raise [simp]: "tame (engine_raise st d) = tame d"
  by (simp add: engine_raise_def) (simp add: tame_def)

lemma tame_raises [simp]: "tame (fold engine_raise sts d) = tame d"
  by (induction sts arbitrary: d) simp_all

lemma tame_reinit [simp]: "tame (reinit_completion d) = tame d"
  by (simp add: reinit_completion_def tame_def)

text \<open>Reads of the core registers after a write.\<close>

lemma write_core:
  assumes "sd_mapped d" "off \<noteq> SC_REG_STATUS" "off = SC_REG_TRIGGER \<longrightarrow> v \<noteq> 1" "j \<noteq> SC_REG_STATUS"
    and "off < SC_DESC_BASE \<or> SC_DESC_BASE + 0x100 \<le> off \<or> \<not> bit (sd_core d SC_REG_CTRL) 0"
  shows "sd_core (core_write off v d) j = (if j = off then v else sd_core d j)"
  using assms by (auto simp: core_write_def pending_effect) (auto simp: core_poke_def log_bus_def)

lemma write_other:
  assumes "sd_mapped d" "j \<noteq> off" "j \<noteq> SC_REG_STATUS"
  shows "sd_core (core_write off v d) j = sd_core d j"
  using assms by (auto simp: core_write_def pending_effect) (auto simp: core_poke_def log_bus_def)

lemma write_clk: "sd_mapped d \<Longrightarrow> sd_clk (core_write off v d) = sd_clk d"
  by (simp add: core_write_def pending_effect) (simp add: core_poke_def log_bus_def)

lemma write_quiet:
  "sd_mapped d \<Longrightarrow> bit (sd_core (core_write off v d) SC_REG_IRQEN) 31 \<Longrightarrow> sd_core (core_write off v d) SC_REG_STATUS = 0"
  by (simp add: core_write_def pending_effect)

lemma write_launches:
  "sd_mapped d \<Longrightarrow> sd_launches (core_write off v d) =
     (if off = SC_REG_TRIGGER \<and> v = 1 then sd_launches d @ [(sd_core d, sd_batch d)] else sd_launches d)"
  by (simp add: core_write_def pending_effect) (auto simp: core_poke_def log_bus_def)

lemma clk_core: "sd_core (ctrl_write off v d) = sd_core d" "sd_launches (ctrl_write off v d) = sd_launches d"
  "sd_done (ctrl_write off v d) = sd_done d"
  "sd_mapped d \<Longrightarrow> sd_clk (ctrl_write off v d) = (sd_clk d)(off := v)"
  by (simp_all add: ctrl_write_def log_bus_def)

lemma clk_rmw: "sd_core (ctrl_rmw off f d) = sd_core d" "sd_launches (ctrl_rmw off f d) = sd_launches d"
  "sd_done (ctrl_rmw off f d) = sd_done d"
  "sd_mapped d \<Longrightarrow> sd_clk (ctrl_rmw off f d) = (sd_clk d)(off := f (sd_clk d off))"
  by (simp_all add: ctrl_rmw_def clk_core)

lemma rmw_clk: "sd_mapped d \<Longrightarrow> sd_clk (core_rmw off f d) = sd_clk d"
  by (simp add: core_rmw_def write_clk)

lemma rmw_launches: "sd_mapped d \<Longrightarrow> off \<noteq> SC_REG_TRIGGER \<Longrightarrow> sd_launches (core_rmw off f d) = sd_launches d"
  by (simp add: core_rmw_def write_launches)

lemma raise_effect:
  assumes "sd_mapped d"
  shows "j \<noteq> SC_REG_STATUS \<Longrightarrow> sd_core (engine_raise st d) j = sd_core d j" "sd_clk (engine_raise st d) = sd_clk d"
    "sd_launches (engine_raise st d) = sd_launches d"
  using assms by (simp_all add: engine_raise_def pending_effect)

lemma raises_effect:
  assumes "sd_mapped d"
  shows "j \<noteq> SC_REG_STATUS \<Longrightarrow> sd_core (fold engine_raise sts d) j = sd_core d j" "sd_clk (fold engine_raise sts d) = sd_clk d"
    "sd_launches (fold engine_raise sts d) = sd_launches d"
  using assms by (induction sts arbitrary: d) (simp_all add: raise_effect)

text \<open>An armed device: mapped, the interrupt enabled, no status latched.\<close>

definition armed :: "scaler_dev \<Rightarrow> bool" where
  "armed d \<longleftrightarrow> sd_mapped d \<and> bit (sd_core d SC_REG_IRQEN) 31 \<and> sd_core d SC_REG_STATUS = 0"

lemma armed_raise:
  assumes "armed d"
  shows "armed (engine_raise st d)" "sd_done (engine_raise st d) = sd_done d + (if bit st 31 then 1 else 0)"
  using assms
  by (auto simp: armed_def engine_raise_def irq_pending_def handler_effect)

lemma armed_raises:
  assumes "armed d"
  shows "armed (fold engine_raise sts d)"
    "sd_done (fold engine_raise sts d) = sd_done d + length (filter (\<lambda>st. bit st 31) sts)"
  using assms by (induction sts arbitrary: d) (simp_all add: armed_raise)

lemma armed_write:
  assumes "armed d" "off \<noteq> SC_REG_STATUS" "off \<noteq> SC_REG_IRQEN"
  shows "armed (core_write off v d)" "sd_done (core_write off v d) = sd_done d"
proof -
  have "irq_pending (core_poke off v d) = core_poke off v d"
    by (rule pending_effect(5)) (use assms in \<open>auto simp: armed_def core_poke_def log_bus_def\<close>)
  then show "armed (core_write off v d)" "sd_done (core_write off v d) = sd_done d"
    unfolding core_write_def using assms by (auto simp: armed_def core_poke_def log_bus_def)
qed

lemma armed_rmw:
  "armed d \<Longrightarrow> off \<noteq> SC_REG_STATUS \<Longrightarrow> off \<noteq> SC_REG_IRQEN \<Longrightarrow> armed (core_rmw off f d)"
  "armed d \<Longrightarrow> off \<noteq> SC_REG_STATUS \<Longrightarrow> off \<noteq> SC_REG_IRQEN \<Longrightarrow> sd_done (core_rmw off f d) = sd_done d"
  by (simp_all add: core_rmw_def armed_write)

lemma armed_ctrl: "armed d \<Longrightarrow> armed (ctrl_write off v d)" "armed d \<Longrightarrow> armed (ctrl_rmw off f d)"
  by (simp_all add: armed_def clk_core ctrl_rmw_def)

lemma armed_reinit: "armed d \<Longrightarrow> armed (reinit_completion d)"
  by (simp add: armed_def reinit_completion_def)

lemma enable_arms:
  assumes "sd_mapped d" "bit v 31" shows "armed (core_write SC_REG_IRQEN v d)"
proof -
  have "bit (sd_core (core_write SC_REG_IRQEN v d) SC_REG_IRQEN) 31" using assms by (subst write_core) simp_all
  then show ?thesis using assms write_quiet [of d SC_REG_IRQEN v] by (simp add: armed_def)
qed

lemma enable_arms_rmw: "sd_mapped d \<Longrightarrow> (\<And>v. bit (f v) 31) \<Longrightarrow> armed (core_rmw SC_REG_IRQEN f d)"
  by (simp only: core_rmw_def enable_arms)

text \<open>The clock gate.\<close>

definition clocked :: "scaler_dev \<Rightarrow> bool" where
  "clocked d \<longleftrightarrow> sd_clk d CTRL_CLK_GATE AND 0x1900 = 0x1900"

definition gated :: "scaler_dev \<Rightarrow> bool" where
  "gated d \<longleftrightarrow> sd_clk d CTRL_CLK_GATE AND 0x1900 = 0"

lemma set_bits: "(v OR 0x1900) AND 0x1900 = (0x1900 :: u32)" "(v AND NOT 0x1900) AND 0x1900 = (0 :: u32)"
  by (rule bit_word_eqI; auto simp: bit_simps)+

text \<open>\<open>hw_init\<close> leaves an armed and clocked device, with the table in the LUT buffer.\<close>

lemma clock_bringup_effect:
  assumes "sd_mapped d"
  shows "static (clock_bringup d) = static d" "clocked (clock_bringup d)" "tame (clock_bringup d) = tame d"
    "sd_launches (clock_bringup d) = sd_launches d"
proof -
  define d1 where "d1 = (if sd_frequency d \<noteq> 0 then ar_scaler_set_freq_div (sd_frequency d) d else d)"
  have s1: "static d1 = static d" by (simp add: d1_def ar_scaler_set_freq_div_def static_ctrl)
  have m: "sd_mapped d1" "tame d1 = tame d" "sd_launches d1 = sd_launches d"
    using assms by (simp_all add: d1_def ar_scaler_set_freq_div_def clk_rmw)
  note b = clock_bringup_def [of d, folded d1_def, unfolded Let_def]
  show "static (clock_bringup d) = static d" unfolding b by (simp add: static_ctrl s1)
  show "clocked (clock_bringup d)" unfolding b clocked_def using m(1) by (simp add: clk_rmw set_bits)
  show "tame (clock_bringup d) = tame d" unfolding b using m by simp
  show "sd_launches (clock_bringup d) = sd_launches d" unfolding b using m by (simp add: clk_rmw clk_core)
qed

lemma core_seed_effect:
  assumes "sd_mapped d"
  shows "static (core_seed d) = static d" "armed (core_seed d)" "tame (core_seed d) = tame d"
    "sd_clk (core_seed d) = sd_clk d" "sd_launches (core_seed d) = sd_launches d"
proof -
  have b31: "bit (v OR 0x80000000 :: u32) 31" for v
    using bit_or_iff [of v "0x80000000" 31] by simp
  show "static (core_seed d) = static d" by (simp add: core_seed_def Let_def static_write)
  show "armed (core_seed d)"
    unfolding core_seed_def Let_def
    by (rule armed_rmw(1) [OF enable_arms_rmw [OF _ b31]]) (use assms in simp_all)
  show "tame (core_seed d) = tame d" unfolding core_seed_def Let_def using assms by simp
  show "sd_clk (core_seed d) = sd_clk d" unfolding core_seed_def Let_def using assms by (simp add: rmw_clk write_clk)
  show "sd_launches (core_seed d) = sd_launches d"
    unfolding core_seed_def Let_def using assms by (simp add: rmw_launches write_launches)
qed

lemma upload_lut_effect:
  "sd_mapped (upload_lut d) = sd_mapped d" "tame (upload_lut d) = tame d" "sd_clk (upload_lut d) = sd_clk d"
  "sd_launches (upload_lut d) = sd_launches d" "static (upload_lut d) = upload_lut (static d)"
  by (simp_all add: upload_lut_def tame_def static_def)

lemma hw_init_effect:
  assumes "sd_mapped d" "sd_ctrlbase d"
  shows "armed (ar_scaler_hw_init d)" "clocked (ar_scaler_hw_init d)" "tame (ar_scaler_hw_init d) = tame d"
    "sd_launches (ar_scaler_hw_init d) = sd_launches d" "static (ar_scaler_hw_init d) = static (upload_lut d)"
proof -
  note C = clock_bringup_effect [OF assms(1)]
  have m: "sd_mapped (upload_lut (clock_bringup d))" using assms(1) static_fields(1) [OF C(1)] by (simp add: upload_lut_effect)
  note S = core_seed_effect [OF m]
  have i: "ar_scaler_hw_init d = core_seed (upload_lut (clock_bringup d))" using assms(2) by (simp add: ar_scaler_hw_init_def)
  show "armed (ar_scaler_hw_init d)" "tame (ar_scaler_hw_init d) = tame d" "sd_launches (ar_scaler_hw_init d) = sd_launches d"
    "static (ar_scaler_hw_init d) = static (upload_lut d)"
    unfolding i by (simp_all add: S C upload_lut_effect)
  show "clocked (ar_scaler_hw_init d)" using C(2) unfolding i by (simp add: clocked_def S upload_lut_effect)
qed

section \<open>Waiting and recovering\<close>

definition lut_loaded :: "scaler_dev \<Rightarrow> bool" where
  "lut_loaded d \<longleftrightarrow> (\<exists>rest. sd_lut d = Some (scaler_lut_table @ rest))"

lemma upload_twice: "lut_loaded d \<Longrightarrow> upload_lut d = d"
proof -
  assume "lut_loaded d"
  then obtain rest where r: "sd_lut d = Some (scaler_lut_table @ rest)" by (auto simp: lut_loaded_def)
  have "drop ar_scaler_get_lut_size (scaler_lut_table @ rest) = rest" unfolding lut_length [symmetric] by simp
  then have "map_option (\<lambda>buf. scaler_lut_table @ drop ar_scaler_get_lut_size buf) (sd_lut d) = sd_lut d"
    unfolding r option.map by (simp only:)
  then show ?thesis by (cases d) (simp add: upload_lut_def)
qed

lemma lut_loaded_static: "static d' = static d \<Longrightarrow> lut_loaded d' = lut_loaded d"
  unfolding lut_loaded_def by (drule static_fields(4)) simp

text \<open>A device that can serve an operation.\<close>

definition ready :: "scaler_dev \<Rightarrow> bool" where
  "ready d \<longleftrightarrow> armed d \<and> sd_ctrlbase d \<and> clocked d \<and> lut_loaded d \<and> sd_batch d \<noteq> None"

lemma readyI:
  assumes "static d' = static d" "ready d" "armed d'" "clocked d'" shows "ready d'"
  using assms lut_loaded_static [OF assms(1)] static_fields [OF assms(1)] by (simp add: ready_def)

lemma ready_armed: "ready d \<Longrightarrow> armed d" "ready d \<Longrightarrow> sd_mapped d" "ready d \<Longrightarrow> clocked d" "ready d \<Longrightarrow> sd_ctrlbase d"
  "ready d \<Longrightarrow> lut_loaded d"
  by (simp_all add: ready_def armed_def)

lemma clocked_same: "sd_clk d' = sd_clk d \<Longrightarrow> clocked d \<Longrightarrow> clocked d'"
  by (simp add: clocked_def)

lemma ready_write:
  assumes "ready d" "off \<noteq> SC_REG_STATUS" "off \<noteq> SC_REG_IRQEN" shows "ready (core_write off v d)"
  by (rule readyI [OF static_write(1) assms(1) armed_write(1) [OF ready_armed(1) [OF assms(1)] assms(2,3)]
        clocked_same [OF write_clk [OF ready_armed(2) [OF assms(1)]] ready_armed(3) [OF assms(1)]]])

lemma ready_rmw: "ready d \<Longrightarrow> off \<noteq> SC_REG_STATUS \<Longrightarrow> off \<noteq> SC_REG_IRQEN \<Longrightarrow> ready (core_rmw off f d)"
  by (simp add: core_rmw_def ready_write)

lemma ready_reinit: "ready d \<Longrightarrow> ready (reinit_completion d)"
  by (simp add: ready_def reinit_completion_def armed_def clocked_def lut_loaded_def)

lemma ready_raises:
  assumes "ready d" shows "ready (fold engine_raise sts d)"
  by (rule readyI [OF static_fold [of engine_raise, OF static_raise] assms armed_raises(1) [OF ready_armed(1) [OF assms]]
        clocked_same [OF raises_effect(2) [OF ready_armed(2) [OF assms]] ready_armed(3) [OF assms]]])

lemma timeout_reset_effect:
  assumes "ready d"
  shows "ready (ar_scaler_timeout_reset env d)" "sd_done (ar_scaler_timeout_reset env d) = 0"
    "tame (ar_scaler_timeout_reset env d) = tame d" "sd_launches (ar_scaler_timeout_reset env d) = sd_launches d"
    "static (ar_scaler_timeout_reset env d) = static d"
proof -
  define d1 where "d1 = core_write SC_REG_IRQEN 0 (fold engine_raise (re_late env) d)"
  have md: "sd_mapped d" and lc: "sd_ctrlbase d" "lut_loaded d" using assms by (simp_all add: ready_def armed_def)
  have s1: "static d1 = static d" by (simp add: d1_def static_write static_fold static_raise)
  have m1: "sd_mapped d1" "sd_ctrlbase d1" using md lc static_fields [OF s1] by simp_all
  note H = hw_init_effect [OF m1]
  define d2 where "d2 = fold engine_raise (re_reset env) (ar_scaler_hw_init d1)"
  have "upload_lut d1 = d1" using upload_twice lut_loaded_static [OF s1] lc by blast
  then have s2: "static d2 = static d" using H(5) s1 by (simp add: d2_def static_fold static_raise)
  have mh: "sd_mapped (ar_scaler_hw_init d1)" using H(1) by (simp add: armed_def)
  have c2: "clocked d2" using H(2) mh by (simp add: d2_def clocked_def raises_effect)
  define d4 where "d4 = fold engine_raise (re_masked env) (core_write SC_REG_IRQEN 0 d2)"
  have m2: "sd_mapped d2" "sd_mapped d4" using md static_fields [OF s2] by (simp_all add: d4_def)
  define d6 where "d6 = reinit_completion (core_rmw SC_REG_STATUS (\<lambda>v. v) d4)"
  have e: "ar_scaler_timeout_reset env d = core_write SC_REG_IRQEN 0x80000000 d6"
    by (simp add: ar_scaler_timeout_reset_def Let_def d6_def d4_def d2_def d1_def)
  have s6: "static d6 = static d" by (simp add: d6_def d4_def static_reinit static_write static_fold static_raise s2)
  have "sd_core (core_poke SC_REG_STATUS (sd_core d4 SC_REG_STATUS) d4) SC_REG_STATUS = 0"
    using m2 by (simp add: core_poke_def log_bus_def)
  then have st: "sd_core d6 SC_REG_STATUS = 0"
    using m2 by (simp add: d6_def core_rmw_def core_write_def reinit_completion_def irq_pending_def)
  have m6: "sd_mapped d6" using md static_fields [OF s6] by simp
  have dn: "sd_done d6 = 0" by (simp add: d6_def reinit_completion_def)
  have c6: "clocked d6"
    using c2 m2 by (simp add: d6_def clocked_def reinit_completion_def rmw_clk d4_def raises_effect write_clk)
  have se: "static (core_write SC_REG_IRQEN 0x80000000 d6) = static d" by (simp add: static_write s6)
  have a: "armed (core_write SC_REG_IRQEN 0x80000000 d6)" using m6 by (intro enable_arms) simp_all
  have "irq_pending (core_poke SC_REG_IRQEN 0x80000000 d6) = core_poke SC_REG_IRQEN 0x80000000 d6"
    using m6 st by (intro pending_effect(5)) (auto simp: core_poke_def log_bus_def)
  then show "sd_done (ar_scaler_timeout_reset env d) = 0"
    unfolding e using m6 dn by (simp add: core_write_def core_poke_def log_bus_def)
  show "static (ar_scaler_timeout_reset env d) = static d" unfolding e by (rule se)
  show "ready (ar_scaler_timeout_reset env d)"
    unfolding e by (rule readyI [OF se assms a]) (use c6 m6 in \<open>simp add: clocked_def write_clk\<close>)
  have t6: "tame d6 = tame d2" using m2 by (simp add: d6_def d4_def)
  have "tame d2 = tame d" using H(3) md by (simp add: d2_def d1_def)
  then show "tame (ar_scaler_timeout_reset env d) = tame d" unfolding e using m6 t6 by simp
  have "sd_launches d6 = sd_launches d2"
    using m2 by (simp add: d6_def reinit_completion_def rmw_launches d4_def raises_effect write_launches)
  also have "\<dots> = sd_launches d" using H(4) md mh by (simp add: d2_def d1_def raises_effect write_launches)
  finally show "sd_launches (ar_scaler_timeout_reset env d) = sd_launches d" unfolding e using m6 by (simp add: write_launches)
qed

lemma wait_done_effect:
  assumes "ready d" "sd_done d = 0" "wait_done env d = (r, d')"
  shows "r = (if \<exists>st\<in>set (re_during env). bit st 31 then Inr () else Inl ETIMEDOUT)"
    and "ready d'" "tame d' = tame d" "sd_launches d' = sd_launches d" "static d' = static d"
    and "r = Inl ETIMEDOUT \<Longrightarrow> sd_done d' = 0"
proof -
  define d1 where "d1 = fold engine_raise (re_during env) d"
  have m: "sd_mapped d" "armed d" using assms(1) by (simp_all add: ready_def armed_def)
  have d1: "sd_done d1 = length (filter (\<lambda>st. bit st 31) (re_during env))" "ready d1" "tame d1 = tame d" "sd_launches d1 = sd_launches d"
    "static d1 = static d"
    using assms(2) m armed_raises(2) [OF m(2)] ready_raises [OF assms(1)]
    by (simp_all add: d1_def raises_effect static_fold static_raise)
  have dn: "sd_done d1 = 0 \<longleftrightarrow> \<not> (\<exists>st\<in>set (re_during env). bit st 31)"
    unfolding d1(1) by (simp add: filter_empty_conv)
  have w: "(r, d') = (if sd_done d1 = 0 then (Inl ETIMEDOUT, ar_scaler_timeout_reset env d1)
      else (Inr (), d1\<lparr>sd_done := sd_done d1 - 1\<rparr>))"
    using assms(3) [symmetric] unfolding wait_done_def Let_def d1_def .
  show "r = (if \<exists>st\<in>set (re_during env). bit st 31 then Inr () else Inl ETIMEDOUT)" using w dn by (auto split: if_splits)
  have u: "ready (d1\<lparr>sd_done := k\<rparr>)" "tame (d1\<lparr>sd_done := k\<rparr>) = tame d1" "static (d1\<lparr>sd_done := k\<rparr>) = static d1" for k
    using d1(2) by (simp_all add: ready_def armed_def clocked_def lut_loaded_def tame_def static_def)
  show "ready d'" "tame d' = tame d" "sd_launches d' = sd_launches d" "static d' = static d"
    using w timeout_reset_effect [OF d1(2)] u d1 by (auto split: if_splits)
  show "r = Inl ETIMEDOUT \<Longrightarrow> sd_done d' = 0" using w timeout_reset_effect(2) [OF d1(2)] by (auto split: if_splits)
qed

section \<open>The descriptor at the trigger\<close>

lemma image_at:
  "scaler_build_image w op lut k = (if k \<in> set SD_WORDS then scaler_build_image (\<lambda>_. 0) op lut k else w k)"
  unfolding scaler_build_image_def SD_WORDS_def by (auto split: prod.split)

lemma words_small: "i \<in> set SD_WORDS \<Longrightarrow> i < 64"
  by (auto simp: SD_WORDS_def)

lemma descriptor_writes:
  assumes "sd_mapped d" "\<not> bit (sd_core d SC_REG_CTRL) 0" "\<forall>i\<in>set is. i < 64" "j \<noteq> SC_REG_STATUS"
  shows "sd_core (fold (\<lambda>i. core_write (SC_DESC_BASE + 4 * i) (img i)) is d) j =
     (if \<exists>i\<in>set is. j = SC_DESC_BASE + 4 * i then img ((j - SC_DESC_BASE) div 4) else sd_core d j)"
  using assms
proof (induction "is" arbitrary: d)
  case (Cons i "is")
  let ?d = "core_write (SC_DESC_BASE + 4 * i) (img i) d"
  have c: "sd_core ?d k = (if k = SC_DESC_BASE + 4 * i then img i else sd_core d k)" if "k \<noteq> SC_REG_STATUS" for k
    using Cons.prems that by (intro write_core) auto
  have "\<not> bit (sd_core ?d SC_REG_CTRL) 0" using Cons.prems(2) by (simp add: c)
  then show ?case using Cons.IH [of ?d] Cons.prems c [OF Cons.prems(4)] by auto
qed simp

lemma descriptor_ready:
  assumes "ready d"
  shows "ready (fold (\<lambda>i. core_write (SC_DESC_BASE + 4 * i) (img i)) is d)"
    "tame (fold (\<lambda>i. core_write (SC_DESC_BASE + 4 * i) (img i)) is d) = tame d"
    "sd_launches (fold (\<lambda>i. core_write (SC_DESC_BASE + 4 * i) (img i)) is d) = sd_launches d"
    "sd_done (fold (\<lambda>i. core_write (SC_DESC_BASE + 4 * i) (img i)) is d) = sd_done d"
  using assms
  by (induction "is" arbitrary: d) (simp_all add: ready_write ready_armed write_launches armed_write)

lemma ready_book:
  "ready (d\<lparr>sd_last_op := a, sd_last_ctrl := b, sd_last_batch := c, sd_last_batch_cnt := n\<rparr>) = ready d"
  by (simp add: ready_def armed_def clocked_def lut_loaded_def)

text \<open>What every operation leaves behind.\<close>

definition kept :: "scaler_dev \<Rightarrow> scaler_dev \<Rightarrow> bool" where
  "kept d d' \<longleftrightarrow> (ready d \<longrightarrow> ready d') \<and> (sd_mapped d \<longrightarrow> tame d' = tame d) \<and> sd_mapped d' = sd_mapped d \<and> sd_dead d' = sd_dead d \<and>
     sd_suspended d' = sd_suspended d \<and> sd_bound d' = sd_bound d \<and> sd_misc d' = sd_misc d \<and> sd_lut_phys d' = sd_lut_phys d"

lemma keptI_static:
  assumes "static d' = static d" "ready d'" "tame d' = tame d"
  shows "kept d d'"
  using static_fields [OF assms(1)] assms(2,3) by (simp add: kept_def)

lemma run_launched:
  assumes "ready d" "\<not> re_intr env" "\<not> sd_suspended d" "\<not> sd_dead d" "ar_scaler_validate op = None"
    and "ar_scaler_run env op count d = (r, d')"
  obtains core where "r = (if \<exists>st\<in>set (re_during env). bit st 31 then Inr () else Inl ETIMEDOUT)"
    and "ready d'" "kept d d'" "r = Inl ETIMEDOUT \<Longrightarrow> sd_done d' = 0"
    and "sd_launches d' = sd_launches d @ [(core, sd_batch d)]" "\<not> bit (core SC_REG_CTRL) 0"
    and "\<forall>i\<in>set SD_WORDS. core (SC_DESC_BASE + 4 * i) = scaler_build_image (\<lambda>_. 0) op (ucast (sd_lut_phys d)) i"
proof -
  define d2 where "d2 = core_rmw SC_REG_CTRL (\<lambda>v. v AND NOT 1) (reinit_completion d)"
  define img where "img = scaler_build_image (\<lambda>_. 0) op (ucast (sd_lut_phys d))"
  define f where "f = fold (\<lambda>i. core_write (SC_DESC_BASE + 4 * i) (img i)) SD_WORDS d2"
  define d3 where "d3 = f\<lparr>sd_last_op := Some op, sd_last_ctrl := img 3, sd_last_batch := count > 1, sd_last_batch_cnt := count\<rparr>"
  define d4 where "d4 = core_write SC_REG_TRIGGER 1 d3"
  have r2: "ready d2" unfolding d2_def by (intro ready_rmw ready_reinit assms(1)) simp_all
  note m2 = ready_armed(2) [OF r2] and m = ready_armed(2) [OF assms(1)]
  have lp: "sd_lut_phys d2 = sd_lut_phys d" by (simp add: d2_def)
  have run: "wait_done env d4 = (r, d')"
    using assms(2-6)
    by (simp add: ar_scaler_run_def Let_def d4_def d3_def f_def img_def scaler_set_batch_registers_def d2_def)
  have c2: "\<not> bit (sd_core d2 SC_REG_CTRL) 0"
    using m by (simp add: d2_def core_rmw_def write_core bit_simps)
  note F = descriptor_ready [OF r2, of img SD_WORDS, folded f_def]
  have r3: "ready d3" using F(1) by (simp add: d3_def ready_book)
  have c3: "sd_core d3 j = sd_core f j" for j by (simp add: d3_def)
  have core: "sd_core f j = (if \<exists>i\<in>set SD_WORDS. j = SC_DESC_BASE + 4 * i then img ((j - SC_DESC_BASE) div 4) else sd_core d2 j)"
    if "j \<noteq> SC_REG_STATUS" for j
    unfolding f_def by (rule descriptor_writes [OF m2 c2 _ that]) (simp add: words_small)
  have sf: "static f = static d2" unfolding f_def by (rule static_fold) (rule static_write)
  have s2: "static d2 = static d" by (simp add: d2_def static_write static_reinit)
  have d2done: "sd_done d2 = 0"
  proof -
    have "armed (reinit_completion d)" using ready_armed(1) [OF assms(1)] by (rule armed_reinit)
    then have "sd_done d2 = sd_done (reinit_completion d)" unfolding d2_def by (rule armed_rmw(2)) simp_all
    then show ?thesis by (simp add: reinit_completion_def)
  qed
  have r4: "ready d4" unfolding d4_def by (rule ready_write [OF r3]) simp_all
  have a3: "armed d3" by (rule ready_armed(1) [OF r3])
  have dn: "sd_done d4 = 0" unfolding d4_def using armed_write(2) [OF a3] F(4) d2done by (simp add: d3_def)
  note W = wait_done_effect [OF r4 dn run]
  have l4: "sd_launches d4 = sd_launches d @ [(sd_core d3, sd_batch d)]"
    using ready_armed(2) [OF r3] F(3) m static_fields(6) [OF sf] static_fields(6) [OF s2]
    by (simp add: d4_def write_launches d3_def d2_def core_rmw_def) (simp add: reinit_completion_def)
  have st4: "sd_mapped d4 = sd_mapped d" "sd_dead d4 = sd_dead d" "sd_suspended d4 = sd_suspended d" "sd_bound d4 = sd_bound d"
    "sd_misc d4 = sd_misc d" "sd_lut_phys d4 = sd_lut_phys d"
    using static_fields [OF sf] static_fields [OF s2] by (simp_all add: d4_def d3_def)
  have t4: "tame d4 = tame d"
  proof -
    have "tame d4 = tame d3" using ready_armed(2) [OF r3] by (simp add: d4_def)
    also have "\<dots> = tame f" by (simp add: d3_def tame_def)
    also have "\<dots> = tame d" using F(2) m by (simp add: d2_def)
    finally show ?thesis .
  qed
  have "kept d d'" using W st4 t4 static_fields [OF W(5)] by (simp add: kept_def)
  moreover have "\<not> bit (sd_core d3 SC_REG_CTRL) 0" using c2 unfolding c3 by (subst core) auto
  moreover have "\<forall>i\<in>set SD_WORDS. sd_core d3 (SC_DESC_BASE + 4 * i) = img i" unfolding c3 by (auto simp: core)
  ultimately show ?thesis using that [of "sd_core d3"] W l4 by (simp add: img_def)
qed

lemma run_refused:
  assumes "re_intr env \<or> sd_suspended d \<or> sd_dead d \<or> ar_scaler_validate op \<noteq> None"
  shows "snd (ar_scaler_run env op count d) = d" "fst (ar_scaler_run env op count d) \<noteq> Inr ()"
    "fst (ar_scaler_run env op count d) \<noteq> Inl ETIMEDOUT"
  using assms by (auto simp: ar_scaler_run_def ar_scaler_validate_def split: option.splits)

text \<open>C28: A single operation on a ready device: it returns 0 exactly if the lock was granted, the device
  was neither suspended nor removed, the descriptor is valid and the engine raised DONE during this
  very wait (a completion left over from an earlier operation never counts); the engine is
  then triggered once, in single mode, with every descriptor register equal to the packed operation.
  After a timeout no completion is pending; a request that is refused changes
  nothing; and whatever happens the device is ready for the next operation.\<close>

theorem scaler_single_honest:
  assumes "ready d" "ar_scaler_run env op 1 d = (r, d')"
  shows "(r = Inr () \<longleftrightarrow> \<not> re_intr env \<and> \<not> sd_suspended d \<and> \<not> sd_dead d \<and> ar_scaler_validate op = None \<and>
      (\<exists>st\<in>set (re_during env). bit st 31)) \<and>
    (r \<noteq> Inr () \<and> r \<noteq> Inl ETIMEDOUT \<longrightarrow> d' = d) \<and> (r = Inl ETIMEDOUT \<longrightarrow> sd_done d' = 0) \<and> ready d' \<and>
    (r = Inr () \<or> r = Inl ETIMEDOUT \<longrightarrow>
      (\<exists>core. sd_launches d' = sd_launches d @ [(core, sd_batch d)] \<and> \<not> bit (core SC_REG_CTRL) 0 \<and>
        (\<forall>i\<in>set SD_WORDS. core (SC_DESC_BASE + 4 * i) = scaler_build_image (\<lambda>_. 0) op (ucast (sd_lut_phys d)) i)))"
proof (cases "re_intr env \<or> sd_suspended d \<or> sd_dead d \<or> ar_scaler_validate op \<noteq> None")
  case True
  then show ?thesis using run_refused [OF True, of 1] assms by auto
next
  case False
  then have F: "\<not> re_intr env" "\<not> sd_suspended d" "\<not> sd_dead d" "ar_scaler_validate op = None" by auto
  obtain core where *: "r = (if \<exists>st\<in>set (re_during env). bit st 31 then Inr () else Inl ETIMEDOUT)"
    and "ready d'" "kept d d'" "r = Inl ETIMEDOUT \<Longrightarrow> sd_done d' = 0"
    and "sd_launches d' = sd_launches d @ [(core, sd_batch d)]" "\<not> bit (core SC_REG_CTRL) 0"
    and "\<forall>i\<in>set SD_WORDS. core (SC_DESC_BASE + 4 * i) = scaler_build_image (\<lambda>_. 0) op (ucast (sd_lut_phys d)) i"
    by (rule run_launched [OF assms(1) F assms(2)], rule that)
  then show ?thesis using F by auto
qed

section \<open>Batches\<close>

lemma stage_op_at:
  "stage_op i op lut w j = (if 64 * i \<le> j \<and> j - 64 * i \<in> set SD_WORDS then scaler_build_image (\<lambda>_. 0) op lut (j - 64 * i) else w j)"
proof (cases "64 * i \<le> j")
  case True
  then show ?thesis
    using image_at [of "\<lambda>k. w (64 * i + k)" op lut "j - 64 * i"] by (simp add: stage_op_def)
qed (simp add: stage_op_def)

lemma stage_all_at:
  "stage_all i ops lut w j =
     (if i \<le> j div 64 \<and> j div 64 < i + length ops \<and> j mod 64 \<in> set SD_WORDS
      then scaler_build_image (\<lambda>_. 0) (ops ! (j div 64 - i)) lut (j mod 64) else w j)"
proof (induction i ops lut w rule: stage_all.induct)
  case (2 i op ops lut w)
  have here: "64 * i \<le> j \<and> j - 64 * i \<in> set SD_WORDS \<longleftrightarrow> j div 64 = i \<and> j mod 64 \<in> set SD_WORDS"
  proof
    assume a: "64 * i \<le> j \<and> j - 64 * i \<in> set SD_WORDS"
    then have "j - 64 * i < 64" using words_small by blast
    moreover obtain k where "j = 64 * i + k" using a le_Suc_ex by blast
    ultimately show "j div 64 = i \<and> j mod 64 \<in> set SD_WORDS" using a by simp
  next
    assume a: "j div 64 = i \<and> j mod 64 \<in> set SD_WORDS"
    have "j = 64 * (j div 64) + j mod 64" by simp
    then show "64 * i \<le> j \<and> j - 64 * i \<in> set SD_WORDS" using a by (metis add_diff_cancel_left' le_add1)
  qed
  have off: "j - 64 * i = j mod 64" if "j div 64 = i" using that by (metis minus_mult_div_eq_mod)
  show ?case
  proof (cases "j div 64 = i")
    case True
    have w: "stage_op i op lut w j = (if j mod 64 \<in> set SD_WORDS then scaler_build_image (\<lambda>_. 0) op lut (j mod 64) else w j)"
      unfolding stage_op_at unfolding here unfolding off [OF True] using True by simp
    show ?thesis unfolding stage_all.simps "2.IH" w using True by simp
  next
    case False
    then have w: "stage_op i op lut w j = w j" using here by (simp only: stage_op_at) simp
    have c: "i + 1 \<le> j div 64 \<and> j div 64 < i + 1 + length ops \<longleftrightarrow> i \<le> j div 64 \<and> j div 64 < i + length (op # ops)"
      using False by auto
    have "(op # ops) ! (j div 64 - i) = ops ! (j div 64 - (i + 1))" if "i \<le> j div 64" using that False by (simp add: nth_Cons')
    then show ?thesis unfolding stage_all.simps "2.IH" w using c by (auto simp del: length_Cons)
  qed
qed auto

lemma validate_all_ok: "validate_all ops = None \<longleftrightarrow> (\<forall>op\<in>set ops. ar_scaler_validate op = None)"
  by (induction ops) (auto split: option.split)

definition batch_block :: "ar_scaler_op list \<Rightarrow> u32 \<Rightarrow> regs \<Rightarrow> bool" where
  "batch_block ops lut w \<longleftrightarrow>
     (\<forall>i<length ops. \<forall>k<64. w (64 * i + k) = scaler_build_image (\<lambda>_. 0) (ops ! i) lut k) \<and>
     (\<forall>j<BATCH_WORDS. 64 * length ops \<le> j \<longrightarrow> w j = 0)"

lemma staged_block:
  assumes "length ops \<le> 255" "w' = stage_all 0 ops lut (\<lambda>j. if j < BATCH_WORDS then 0 else w j)"
  shows "batch_block ops lut w'" "BATCH_WORDS \<le> j \<Longrightarrow> w' j = w j"
proof -
  have "w' (64 * i + k) = scaler_build_image (\<lambda>_. 0) (ops ! i) lut k" if "i < length ops" "k < 64" for i k
  proof -
    have "64 * i + k < BATCH_WORDS" using that assms(1) by simp
    moreover have "(64 * i + k) div 64 = i" "(64 * i + k) mod 64 = k" using that by simp_all
    moreover have "scaler_build_image (\<lambda>_. 0) (ops ! i) lut k = 0" if "k \<notin> set SD_WORDS" using that by (subst image_at) simp
    ultimately show ?thesis using that unfolding assms(2) stage_all_at by simp
  qed
  moreover have "w' j = 0" if "j < BATCH_WORDS" "64 * length ops \<le> j" for j
    using that unfolding assms(2) stage_all_at by auto
  ultimately show "batch_block ops lut w'" by (simp add: batch_block_def)
  show "w' j = w j" if "BATCH_WORDS \<le> j" using that assms(1) unfolding assms(2) stage_all_at by auto
qed

lemma ready_stage:
  "ready (d\<lparr>sd_batch := Some w, sd_last_op := a, sd_last_batch := c, sd_last_batch_cnt := n\<rparr>) =
    (armed d \<and> sd_ctrlbase d \<and> clocked d \<and> lut_loaded d)"
  by (simp add: ready_def armed_def clocked_def lut_loaded_def)

lemma batch_launched:
  assumes "ready d" "0 < count" "count \<le> SCALER_BATCH_MAX" "validate_all ops = None" "ops = take (unat count) ops0"
    and "\<not> re_intr env" "\<not> sd_suspended d" "\<not> sd_dead d" "sd_batch d = Some w0" "ar_scaler_run_batch env ops0 count d = (r, d')"
  obtains core w where "r = (if \<exists>st\<in>set (re_during env). bit st 31 then Inr () else Inl ETIMEDOUT)"
    and "ready d'" "kept d d'" "r = Inl ETIMEDOUT \<Longrightarrow> sd_done d' = 0"
    and "sd_launches d' = sd_launches d @ [(core, Some w)]" "bit (core SC_REG_CTRL) 0"
    and "core SC_REG_BATCHADDR = ucast (sd_batch_phys d)" "drop_bit 16 (core SC_REG_BATCHCFG) = count"
    and "w = stage_all 0 ops (ucast (sd_lut_phys d)) (\<lambda>j. if j < BATCH_WORDS then 0 else w0 j)"
proof -
  define w where "w = stage_all 0 ops (ucast (sd_lut_phys d)) (\<lambda>j. if j < BATCH_WORDS then 0 else w0 j)"
  define d1 where "d1 = d\<lparr>sd_batch := Some w, sd_last_op := Some (hd ops), sd_last_batch := True, sd_last_batch_cnt := count\<rparr>"
  define d2 where "d2 = reinit_completion d1"
  define d3 where "d3 = core_rmw SC_REG_CTRL (\<lambda>v. v OR 1) d2"
  define d4 where "d4 = core_write SC_REG_BATCHADDR (ucast (sd_batch_phys d)) d3"
  define d5 where "d5 = core_rmw SC_REG_BATCHCFG (\<lambda>v. (v AND 0xffff) OR push_bit 16 count) d4"
  define d6 where "d6 = core_write SC_REG_TRIGGER 1 d5"
  have "\<not> (count = 0 \<or> count > SCALER_BATCH_MAX)" using assms(2,3) by auto
  then have "ar_scaler_run_batch env ops0 count d = wait_done env d6"
    using assms(4-9) by (simp add: ar_scaler_run_batch_def Let_def w_def d1_def d2_def d3_def d4_def d5_def d6_def)
  then have run: "wait_done env d6 = (r, d')" using assms(10) by simp
  have r1: "ready d1" using assms(1) unfolding d1_def ready_stage by (simp add: ready_def)
  have r2: "ready d2" unfolding d2_def by (rule ready_reinit [OF r1])
  have r3: "ready d3" unfolding d3_def by (rule ready_rmw [OF r2]) simp_all
  have r4: "ready d4" unfolding d4_def by (rule ready_write [OF r3]) simp_all
  have r5: "ready d5" unfolding d5_def by (rule ready_rmw [OF r4]) simp_all
  have r6: "ready d6" unfolding d6_def by (rule ready_write [OF r5]) simp_all
  note m = ready_armed(2) [OF r1] ready_armed(2) [OF r2] ready_armed(2) [OF r3] ready_armed(2) [OF r4] ready_armed(2) [OF r5]
  note A = ready_armed(1) [OF r2] ready_armed(1) [OF r3] ready_armed(1) [OF r4] ready_armed(1) [OF r5]
  have dn: "sd_done d6 = 0"
    using A by (simp add: d6_def armed_write(2)) (simp add: d5_def armed_rmw(2), simp add: d4_def armed_write(2),
      simp add: d3_def armed_rmw(2), simp add: d2_def reinit_completion_def)
  note W = wait_done_effect [OF r6 dn run]
  have s: "static d6 = static d1" by (simp add: d6_def d5_def d4_def d3_def d2_def static_write static_reinit)
  have s5: "sd_batch d5 = Some w" by (simp add: d5_def d4_def d3_def d2_def d1_def)
  have l: "sd_launches d6 = sd_launches d @ [(sd_core d5, Some w)]"
  proof -
    have "sd_launches d5 = sd_launches d" using m
      by (simp add: d5_def d4_def d3_def rmw_launches write_launches) (simp add: d2_def d1_def reinit_completion_def)
    then show ?thesis using m s5 by (simp add: d6_def write_launches)
  qed
  have "sd_core d5 SC_REG_CTRL = sd_core d3 SC_REG_CTRL" using m by (simp add: d5_def core_rmw_def write_core d4_def)
  moreover have "sd_core d3 SC_REG_CTRL = sd_core d2 SC_REG_CTRL OR 1" using m by (simp add: d3_def core_rmw_def write_core)
  ultimately have b: "bit (sd_core d5 SC_REG_CTRL) 0" by (simp add: bit_simps)
  have "sd_core d5 SC_REG_BATCHADDR = ucast (sd_batch_phys d)" using m by (simp add: d5_def core_rmw_def write_core d4_def)
  moreover have "drop_bit 16 (sd_core d5 SC_REG_BATCHCFG) = count"
  proof -
    have "sd_core d5 SC_REG_BATCHCFG = (sd_core d4 SC_REG_BATCHCFG AND 0xffff) OR push_bit 16 count"
      using m by (simp add: d5_def core_rmw_def write_core)
    moreover have "(0xffff :: u32) = mask 16" by (simp add: mask_eq_exp_minus_1)
    moreover have "n < 8" if "bit count n" for n
      by (rule high_bit_less [OF _ that]) (use assms(3) in \<open>simp add: word_le_nat_alt\<close>)
    ultimately show ?thesis by (intro bit_word_eqI) (fastforce simp: bit_simps)
  qed
  moreover have "kept d d'"
  proof -
    have "tame d6 = tame d1" using m by (simp add: d6_def d5_def d4_def d3_def d2_def)
    then have "tame d' = tame d" using W(3) by (simp add: d1_def tame_def)
    then show ?thesis using W static_fields [OF W(5)] static_fields [OF s] by (simp add: kept_def d1_def)
  qed
  ultimately show ?thesis using that [of "sd_core d5" w] W l b by (simp add: w_def)
qed

lemma batch_refused:
  assumes "count = 0 \<or> SCALER_BATCH_MAX < count \<or> validate_all (take (unat count) ops) \<noteq> None \<or> re_intr env \<or> sd_suspended d \<or> sd_dead d"
  shows "snd (ar_scaler_run_batch env ops count d) = d" "fst (ar_scaler_run_batch env ops count d) \<noteq> Inr ()"
    "fst (ar_scaler_run_batch env ops count d) \<noteq> Inl ETIMEDOUT"
proof -
  have v: "validate_all xs \<noteq> Some ETIMEDOUT" for xs
    by (induction xs) (auto simp: ar_scaler_validate_def split: option.split)
  show "snd (ar_scaler_run_batch env ops count d) = d" "fst (ar_scaler_run_batch env ops count d) \<noteq> Inr ()"
    "fst (ar_scaler_run_batch env ops count d) \<noteq> Inl ETIMEDOUT"
    using assms v by (auto simp: ar_scaler_run_batch_def Let_def split: option.splits)
qed

text \<open>C29: A batch on a ready device: it returns 0 exactly if it has 1 to 255 operations, all valid, the lock
  was granted, the device is neither suspended nor removed and the engine raised DONE during this wait;
  the engine is then triggered once, in batch mode, pointed at the descriptor block with the operation
  count, and the block holds exactly the packed operations, 64 words each, zeros after them, and no
  word past its 0xff00 bytes was written.  A refused batch changes nothing, and the
  device is ready again in every case.\<close>

theorem scaler_batch_honest:
  assumes "ready d" "ar_scaler_run_batch env ops count d = (r, d')" "unat count \<le> length ops" "sd_batch d = Some w0"
  shows "(r = Inr () \<longleftrightarrow> count \<noteq> 0 \<and> count \<le> SCALER_BATCH_MAX \<and> (\<forall>i<unat count. ar_scaler_validate (ops ! i) = None) \<and>
      \<not> re_intr env \<and> \<not> sd_suspended d \<and> \<not> sd_dead d \<and> (\<exists>st\<in>set (re_during env). bit st 31)) \<and>
    (r \<noteq> Inr () \<and> r \<noteq> Inl ETIMEDOUT \<longrightarrow> d' = d) \<and> ready d' \<and>
    (r = Inr () \<or> r = Inl ETIMEDOUT \<longrightarrow>
      (\<exists>core w. sd_launches d' = sd_launches d @ [(core, Some w)] \<and> bit (core SC_REG_CTRL) 0 \<and>
        core SC_REG_BATCHADDR = ucast (sd_batch_phys d) \<and> drop_bit 16 (core SC_REG_BATCHCFG) = count \<and>
        batch_block (take (unat count) ops) (ucast (sd_lut_phys d)) w \<and> (\<forall>j\<ge>BATCH_WORDS. w j = w0 j)))"
proof (cases "count = 0 \<or> SCALER_BATCH_MAX < count \<or> validate_all (take (unat count) ops) \<noteq> None \<or> re_intr env \<or> sd_suspended d \<or> sd_dead d")
  case True
  have "validate_all (take (unat count) ops) = None \<longleftrightarrow> (\<forall>i<unat count. ar_scaler_validate (ops ! i) = None)"
    using assms(3) by (simp add: validate_all_ok all_set_conv_all_nth)
  then show ?thesis using batch_refused [OF True] True assms by auto
next
  case False
  then have F: "0 < count" "count \<le> SCALER_BATCH_MAX" "validate_all (take (unat count) ops) = None"
    "\<not> re_intr env" "\<not> sd_suspended d" "\<not> sd_dead d"
    by (auto simp: word_gt_0 not_less)
  have v: "\<forall>i<unat count. ar_scaler_validate (ops ! i) = None"
    using F(3) assms(3) by (simp add: validate_all_ok all_set_conv_all_nth)
  obtain core w where L: "r = (if \<exists>st\<in>set (re_during env). bit st 31 then Inr () else Inl ETIMEDOUT)"
    "ready d'" "kept d d'" "r = Inl ETIMEDOUT \<Longrightarrow> sd_done d' = 0"
    "sd_launches d' = sd_launches d @ [(core, Some w)]" "bit (core SC_REG_CTRL) 0"
    "core SC_REG_BATCHADDR = ucast (sd_batch_phys d)" "drop_bit 16 (core SC_REG_BATCHCFG) = count"
    "w = stage_all 0 (take (unat count) ops) (ucast (sd_lut_phys d)) (\<lambda>j. if j < BATCH_WORDS then 0 else w0 j)"
    by (rule batch_launched [OF assms(1) F(1-3) refl F(4-6) assms(4,2)], rule that)
  have "length (take (unat count) ops) \<le> 255" using F(2) by (simp add: word_le_nat_alt)
  note S = staged_block [OF this L(9)]
  have "r = Inr () \<or> r = Inl ETIMEDOUT \<longrightarrow>
      (\<exists>core w. sd_launches d' = sd_launches d @ [(core, Some w)] \<and> bit (core SC_REG_CTRL) 0 \<and>
        core SC_REG_BATCHADDR = ucast (sd_batch_phys d) \<and> drop_bit 16 (core SC_REG_BATCHCFG) = count \<and>
        batch_block (take (unat count) ops) (ucast (sd_lut_phys d)) w \<and> (\<forall>j\<ge>BATCH_WORDS. w j = w0 j))"
    using L(5-8) S by blast
  moreover have "count \<noteq> 0" using F(1) by simp
  ultimately show ?thesis using L(1,2) F v by auto
qed

section \<open>An idle device\<close>

definition idle_device :: scaler_dev where
  "idle_device = \<lparr>sd_core = (\<lambda>_. 0)(SC_REG_IRQEN := 0x80000000), sd_clk = (\<lambda>_. 0)(CTRL_CLK_GATE := 0x1900), sd_mapped = True,
     sd_ctrlbase = True, sd_frequency = 400, sd_lut = Some (scaler_lut_table @ replicate 512 0), sd_lut_phys = 0x30000000,
     sd_batch = Some (\<lambda>_. 0), sd_batch_phys = 0x30010000, sd_done = 0, sd_suspended = False, sd_dead = False, sd_last_op = None,
     sd_last_ctrl = 0, sd_last_batch = False, sd_last_batch_cnt = 0, sd_misc = True, sd_proc = True, sd_bound = True,
     sd_initted = True, sd_log = [], sd_launches = []\<rparr>"

abbreviation engine_done :: run_env where
  "engine_done \<equiv> \<lparr>re_intr = False, re_during = [1, 0x80000000], re_late = [], re_reset = [], re_masked = []\<rparr>"

abbreviation engine_hangs :: run_env where
  "engine_hangs \<equiv> \<lparr>re_intr = False, re_during = [1], re_late = [0x80000000], re_reset = [0x80000000], re_masked = [0x80000000]\<rparr>"

lemma idle_ready: "ready (idle_device\<lparr>sd_done := k\<rparr>)"
  by (auto simp: ready_def armed_def clocked_def lut_loaded_def idle_device_def)

lemma sample_valid: "ar_scaler_validate sample_op = None"
  by (simp add: ar_scaler_validate_def sample_op_def)

lemma scaler_single_honest_witness:
  "fst (ar_scaler_run engine_done sample_op 1 idle_device) = Inr () \<and>
   fst (ar_scaler_run engine_hangs sample_op 1 (idle_device\<lparr>sd_done := 1\<rparr>)) \<noteq> Inr () \<and>
   ready (snd (ar_scaler_run engine_hangs sample_op 1 (idle_device\<lparr>sd_done := 1\<rparr>)))"
proof -
  have i: "ready idle_device" using idle_ready [of "sd_done idle_device"] by simp
  obtain r d r' d' where A: "ar_scaler_run engine_done sample_op 1 idle_device = (r, d)"
    "ar_scaler_run engine_hangs sample_op 1 (idle_device\<lparr>sd_done := 1\<rparr>) = (r', d')" by fastforce
  have f: "\<not> sd_suspended idle_device" "\<not> sd_dead idle_device" by (simp_all add: idle_device_def)
  have "r = Inr ()" using scaler_single_honest [OF i A(1)] sample_valid f by simp
  moreover have "r' \<noteq> Inr ()" "ready d'" using scaler_single_honest [OF idle_ready A(2)] by simp_all
  ultimately show ?thesis using A by simp
qed

lemma scaler_batch_honest_witness:
  "fst (ar_scaler_run_batch engine_done [sample_op, sample_op] 2 idle_device) = Inr () \<and>
   fst (ar_scaler_run_batch engine_done [sample_op] 0 idle_device) \<noteq> Inr ()"
proof -
  have i: "ready idle_device" using idle_ready [of "sd_done idle_device"] by simp
  have b: "sd_batch idle_device = Some (\<lambda>_. 0)" "\<not> sd_suspended idle_device" "\<not> sd_dead idle_device" by (simp_all add: idle_device_def)
  obtain r d r' d' where A: "ar_scaler_run_batch engine_done [sample_op, sample_op] 2 idle_device = (r, d)"
    "ar_scaler_run_batch engine_done [sample_op] 0 idle_device = (r', d')" by fastforce
  have v: "\<forall>i<unat (2 :: u32). ar_scaler_validate ([sample_op, sample_op] ! i) = None"
  proof (intro allI impI)
    fix i assume "i < unat (2 :: u32)"
    then have "i = 0 \<or> i = 1" by auto
    then show "ar_scaler_validate ([sample_op, sample_op] ! i) = None" using sample_valid by auto
  qed
  have "r = Inr ()" using scaler_batch_honest [OF i A(1) _ b(1)] v b by simp
  moreover have "r' \<noteq> Inr ()" using scaler_batch_honest [OF i A(2) _ b(1)] by simp
  ultimately show ?thesis using A by simp
qed

end
