(* ===== verification/Scaler_Life.thy ===== *)
theory Scaler_Life
  imports Ar_Scaler
begin

text \<open>
  The life of the scaler driver: module load, probes that succeed or fail, open files, requests,
  interrupts, power transitions and unbinding, as a step relation on the device and the number of open
  files.  The driver core undoes the mappings of a failed probe and of a removed device (devm).  The
  invariant says when the registers may be touched; the last lemma shows the order of events in which
  the code does touch an unmapped window.
\<close>

section \<open>The driver core's part\<close>

definition devm_release :: "scaler_dev \<Rightarrow> scaler_dev" where
  "devm_release d = d\<lparr>sd_mapped := False\<rparr>"

text \<open>A probe that finds the singleton taken (\<open>EBUSY\<close>) is the probe of another device.\<close>

definition scaler_bind :: "probe_env \<Rightarrow> scaler_dev \<Rightarrow> errno option \<times> scaler_dev" where
  "scaler_bind pe d =
     (case ar_scaler_probe pe d of
        (None, d') \<Rightarrow> (None, d')
      | (Some e, d') \<Rightarrow> (Some e, if sd_bound d then d' else devm_release d'))"

definition module_loaded :: scaler_dev where
  "module_loaded = \<lparr>sd_core = \<lambda>_. 0, sd_clk = \<lambda>_. 0, sd_mapped = False, sd_ctrlbase = False, sd_frequency = 0, sd_lut = None,
     sd_lut_phys = 0, sd_batch = None, sd_batch_phys = 0, sd_done = 0, sd_suspended = False, sd_dead = False, sd_last_op = None,
     sd_last_ctrl = 0, sd_last_batch = False, sd_last_batch_cnt = 0, sd_misc = False, sd_proc = False, sd_bound = False,
     sd_initted = False, sd_log = [], sd_launches = []\<rparr>"

text \<open>One event.  With \<open>orderly\<close>, no probe fails while a file from an earlier binding is still open.\<close>

inductive scaler_step :: "bool \<Rightarrow> scaler_dev \<times> nat \<Rightarrow> scaler_dev \<times> nat \<Rightarrow> bool" for orderly where
  probe_ok: "scaler_bind pe d = (None, d') \<Longrightarrow> scaler_step orderly (d, n) (d', n)"
| probe_fails: "scaler_bind pe d = (Some e, d') \<Longrightarrow> orderly \<longrightarrow> n = 0 \<or> sd_bound d \<Longrightarrow> scaler_step orderly (d, n) (d', n)"
| opened: "sd_misc d \<Longrightarrow> scaler_step orderly (d, n) (d, Suc n)"
| closed: "scaler_step orderly (d, Suc n) (d, n)"
| request: "ar_scaler_ioctl env denv cmd s d = (r, s', d') \<Longrightarrow> 0 < n \<Longrightarrow> scaler_step orderly (d, n) (d', n)"
| interrupt: "scaler_step orderly (d, n) (engine_raise st d, n)"
| unbind: "sd_bound d \<Longrightarrow> \<not> sd_suspended d \<Longrightarrow> scaler_step orderly (d, n) (devm_release (ar_scaler_remove d), n)"
| suspend: "sd_bound d \<Longrightarrow> \<not> sd_suspended d \<Longrightarrow> scaler_step orderly (d, n) (ar_scaler_suspend d, n)"
| resume: "sd_bound d \<Longrightarrow> sd_suspended d \<Longrightarrow> scaler_step orderly (d, n) (ar_scaler_resume d, n)"

inductive scaler_reachable :: "bool \<Rightarrow> scaler_dev \<times> nat \<Rightarrow> bool" for orderly where
  start: "scaler_reachable orderly (module_loaded, 0)"
| next_step: "scaler_reachable orderly x \<Longrightarrow> scaler_step orderly x y \<Longrightarrow> scaler_reachable orderly y"

section \<open>The invariant\<close>

text \<open>Bound: the device is armed and has its buffers, and the clock runs unless it is suspended.
  Not bound: nothing is mapped or allocated, no node exists, and if a file is still open the device is
  dead.\<close>

definition scaler_inv :: "scaler_dev \<times> nat \<Rightarrow> bool" where
  "scaler_inv x \<longleftrightarrow>
     (case x of (d, n) \<Rightarrow>
        tame d \<and>
        (sd_bound d \<longrightarrow> armed d \<and> sd_ctrlbase d \<and> lut_loaded d \<and> sd_batch d \<noteq> None \<and> \<not> sd_dead d \<and> sd_misc d \<and>
           (if sd_suspended d then gated d else clocked d)) \<and>
        (\<not> sd_bound d \<longrightarrow> \<not> sd_mapped d \<and> \<not> sd_suspended d \<and> sd_lut d = None \<and> sd_batch d = None \<and> \<not> sd_misc d \<and>
           (0 < n \<longrightarrow> sd_dead d)))"

lemma inv_bound:
  "sd_bound d \<Longrightarrow> \<not> sd_suspended d \<Longrightarrow> scaler_inv (d, n) \<longleftrightarrow> tame d \<and> ready d \<and> \<not> sd_dead d \<and> sd_misc d"
  by (auto simp: scaler_inv_def ready_def)

lemma set_freq_effect:
  assumes "sd_mapped d"
  shows "static (ar_scaler_set_freq_div f d) = static d" "gated (ar_scaler_set_freq_div f d) = gated d"
    "clocked (ar_scaler_set_freq_div f d) = clocked d" "armed (ar_scaler_set_freq_div f d) = armed d" "tame (ar_scaler_set_freq_div f d) = tame d"
  using assms by (simp_all add: ar_scaler_set_freq_div_def static_ctrl clk_rmw armed_def gated_def clocked_def)

lemma poweroff_effect:
  assumes "sd_mapped d"
  shows "static (ar_scaler_poweroff d) = static d" "gated (ar_scaler_poweroff d)"
    "armed (ar_scaler_poweroff d) = armed d" "tame (ar_scaler_poweroff d) = tame d"
proof -
  show "gated (ar_scaler_poweroff d)"
    unfolding gated_def ar_scaler_poweroff_def clk_rmw(4) [OF assms] fun_upd_same by (rule set_bits(2))
qed (use assms in \<open>simp_all add: ar_scaler_poweroff_def static_ctrl clk_rmw armed_def\<close>)

text \<open>A running operation keeps the invariant; requests on a suspended or dead device change nothing
  of what it speaks about.\<close>

lemma run_kept:
  assumes "ready d \<or> sd_suspended d \<or> sd_dead d" "ar_scaler_run env op count d = (r, d')"
  shows "d' = d \<or> ready d \<and> kept d d'"
proof (cases "re_intr env \<or> sd_suspended d \<or> sd_dead d \<or> ar_scaler_validate op \<noteq> None")
  case True
  then show ?thesis using run_refused(1) [OF True, of count] assms(2) by simp
next
  case False
  then have "ready d" "\<not> re_intr env" "\<not> sd_suspended d" "\<not> sd_dead d" "ar_scaler_validate op = None" using assms(1) by auto
  then show ?thesis using run_launched [OF _ _ _ _ _ assms(2)] by metis
qed

lemma batch_kept:
  assumes "ready d \<or> sd_suspended d \<or> sd_dead d" "ar_scaler_run_batch env ops count d = (r, d')"
  shows "d' = d \<or> ready d \<and> kept d d'"
proof (cases "count = 0 \<or> SCALER_BATCH_MAX < count \<or> validate_all (take (unat count) ops) \<noteq> None \<or> re_intr env \<or> sd_suspended d \<or> sd_dead d")
  case True
  then show ?thesis using batch_refused(1) [OF True] assms(2) by simp
next
  case False
  then have F: "0 < count" "count \<le> SCALER_BATCH_MAX" "validate_all (take (unat count) ops) = None"
    "\<not> re_intr env" "\<not> sd_suspended d" "\<not> sd_dead d" "ready d"
    using assms(1) by (auto simp: word_gt_0 not_less)
  then obtain w0 where "sd_batch d = Some w0" by (auto simp: ready_def)
  then show ?thesis using batch_launched [OF F(7,1-3) refl F(4-6) _ assms(2)] F(7) by metis
qed

lemma kept_inv: "kept d d' \<Longrightarrow> ready d \<Longrightarrow> sd_bound d \<Longrightarrow> \<not> sd_suspended d \<Longrightarrow> scaler_inv (d, n) \<Longrightarrow> scaler_inv (d', n)"
  using inv_bound [of d n] inv_bound [of d' n] ready_armed(2) [of d] unfolding kept_def by blast

lemma request_inv:
  assumes "scaler_inv (d, n)" "0 < n" "ar_scaler_ioctl env denv cmd s d = (r, s', d')"
  shows "scaler_inv (d', n)"
proof -
  have rd: "ready d \<or> sd_suspended d \<or> sd_dead d" using assms(1,2) by (auto simp: scaler_inv_def ready_def split: if_splits)
  have step: "scaler_inv (e, n)" if "e = d \<or> ready d \<and> kept d e" for e
  proof (cases "e = d")
    case False
    then have k: "ready d" "kept d e" using that by auto
    then have b: "sd_bound d" using assms(1) ready_armed(2) [of d] by (auto simp: scaler_inv_def)
    show ?thesis
    proof (cases "sd_suspended d")
      case False
      then show ?thesis using kept_inv k b assms(1) by blast
    next
      case True
      have z: "(0 :: u32) \<noteq> 0x1900" by simp
      have "clocked d" "gated d" using k(1) True assms(1) b by (simp_all add: ready_def scaler_inv_def)
      then show ?thesis using z unfolding clocked_def gated_def by metis
    qed
  qed (use assms(1) in simp)
  have freq: "scaler_inv (e, n)" if f: "ar_scaler_set_frequency arg d = (q, e)" for arg q e
  proof (cases "sd_dead d")
    case True
    then show ?thesis using f assms(1) by (auto simp: ar_scaler_set_frequency_def split: option.splits)
  next
    case False
    then have b: "sd_bound d" "sd_mapped d" using assms(1,2) by (auto simp: scaler_inv_def armed_def)
    have a: "scaler_inv (d\<lparr>sd_frequency := g\<rparr>, n)" for g
      using assms(1) by (cases "sd_suspended d") (simp_all add: scaler_inv_def tame_def armed_def lut_loaded_def gated_def clocked_def)
    have "scaler_inv (ar_scaler_set_freq_div g c, n)" if "scaler_inv (c, n)" "sd_mapped c" for g c
      using that set_freq_effect [OF that(2), of g] static_fields [OF set_freq_effect(1) [OF that(2), of g]]
        lut_loaded_static [OF set_freq_effect(1) [OF that(2), of g]]
      by (simp add: scaler_inv_def)
    then show ?thesis using f a False b(2) assms(1) by (auto simp: ar_scaler_set_frequency_def split: option.splits if_splits)
  qed
  show ?thesis
  proof (cases cmd)
    case (SCALER_IOC_SINGLE arg)
    then show ?thesis using assms(1,3) run_kept [OF rd] step
      by (auto simp: ar_scaler_ioctl_def ar_scaler_start_single_def split: option.splits prod.splits)
  next
    case (SCALER_IOC_BATCH ok arg)
    then show ?thesis using assms(1,3) batch_kept [OF rd] step
      by (auto simp: ar_scaler_ioctl_def ar_scaler_start_batch_def split: option.splits prod.splits if_splits)
  next
    case (SCALER_IOC_SETFREQ arg)
    then show ?thesis using assms(3) freq by (auto simp: ar_scaler_ioctl_def split: prod.splits)
  next
    case (SCALER_IOC_SINGLE_DMABUF arg)
    then show ?thesis using assms(1,3) run_kept [OF rd] step
      by (auto simp: ar_scaler_ioctl_def ar_scaler_start_single_dmabuf_def split: option.splits prod.splits sum.splits)
  next
    case (SCALER_IOC_BATCH_DMABUF arg)
    then show ?thesis using assms(1,3) batch_kept [OF rd] step
      by (auto simp: ar_scaler_ioctl_def ar_scaler_start_batch_dmabuf_def split: option.splits prod.splits sum.splits if_splits)
  qed (use assms in \<open>simp add: ar_scaler_ioctl_def\<close>)
qed

lemma raise_static_gates: "gated (engine_raise st d) = gated d" "clocked (engine_raise st d) = clocked d"
  by (simp_all add: gated_def clocked_def engine_raise_def irq_pending_def handler_effect)

lemma raise_inv:
  assumes "scaler_inv (d, n)" shows "scaler_inv (engine_raise st d, n)"
  using assms armed_raise(1) [of d st] lut_loaded_static [OF static_raise [of st d]]
  by (simp add: scaler_inv_def raise_static_gates)

lemma probe_finish_effect:
  assumes "probe_finish pe d = (r, d')" "sd_mapped d" "sd_ctrlbase d" "sd_lut d = Some buf" "sd_batch d = Some w"
  shows "tame d' = tame d" "sd_suspended d' = sd_suspended d" "sd_dead d' = sd_dead d"
    and "r = None \<Longrightarrow> sd_bound d' \<and> sd_misc d' \<and> armed d' \<and> clocked d' \<and> sd_ctrlbase d' \<and> lut_loaded d' \<and> sd_batch d' = Some w"
    and "r \<noteq> None \<Longrightarrow> sd_lut d' = None \<and> sd_batch d' = None \<and> gated d' \<and> sd_bound d' = sd_bound d \<and> sd_misc d' = sd_misc d"
proof -
  define h where "h = ar_scaler_hw_init d"
  note H = hw_init_effect [OF assms(2,3), folded h_def]
  note F = static_fields [OF H(5)]
  have m: "sd_mapped h" using H(1) by (simp add: armed_def)
  note P = poweroff_effect [OF m] static_fields [OF poweroff_effect(1) [OF m]]
  have l: "lut_loaded h" unfolding lut_loaded_def F using assms(4) by (simp add: upload_lut_def)
  have e: "r = None \<and> d' = h\<lparr>sd_misc := True, sd_proc := pe_proc pe, sd_bound := True\<rparr> \<or>
      r \<noteq> None \<and> d' = ar_scaler_free_bufs (ar_scaler_poweroff h)"
    using assms(1) by (auto simp: probe_finish_def Let_def h_def split: option.splits)
  have u: "sd_suspended (upload_lut d) = sd_suspended d" "sd_dead (upload_lut d) = sd_dead d" "sd_batch (upload_lut d) = sd_batch d"
    "sd_bound (upload_lut d) = sd_bound d" "sd_misc (upload_lut d) = sd_misc d" "sd_ctrlbase (upload_lut d) = sd_ctrlbase d"
    by (simp_all add: upload_lut_def)
  show "tame d' = tame d" "sd_suspended d' = sd_suspended d" "sd_dead d' = sd_dead d"
  proof -
    have fb: "tame (ar_scaler_free_bufs x) = tame x" "sd_suspended (ar_scaler_free_bufs x) = sd_suspended x"
      "sd_dead (ar_scaler_free_bufs x) = sd_dead x" for x
      by (simp_all add: ar_scaler_free_bufs_def tame_def)
    have pb: "tame (h\<lparr>sd_misc := a, sd_proc := b, sd_bound := c\<rparr>) = tame h" for a b c by (simp add: tame_def)
    have t: "tame h = tame d" "sd_suspended h = sd_suspended d" "sd_dead h = sd_dead d" using H(3) F(8,9) u(1,2) by simp_all
    note po = P(4) static_fields(8,9) [OF poweroff_effect(1) [OF m]]
    from e show "tame d' = tame d" "sd_suspended d' = sd_suspended d" "sd_dead d' = sd_dead d"
      by (elim disjE conjE; simp add: fb pb po t)+
  qed
  show "sd_bound d' \<and> sd_misc d' \<and> armed d' \<and> clocked d' \<and> sd_ctrlbase d' \<and> lut_loaded d' \<and> sd_batch d' = Some w" if "r = None"
  proof -
    have d': "d' = h\<lparr>sd_misc := True, sd_proc := pe_proc pe, sd_bound := True\<rparr>" using e that by blast
    have "lut_loaded d' = lut_loaded h" "armed d' = armed h" "clocked d' = clocked h"
      by (simp_all add: d' lut_loaded_def armed_def clocked_def)
    then show ?thesis using H(1,2) l F(2,6) u assms(3,5) by (simp add: d')
  qed
  show "sd_lut d' = None \<and> sd_batch d' = None \<and> gated d' \<and> sd_bound d' = sd_bound d \<and> sd_misc d' = sd_misc d" if "r \<noteq> None"
    using e that P F u by (simp add: ar_scaler_free_bufs_def gated_def)
qed

text \<open>Where a probe can stop: before the mapping, with the window mapped but no buffer, or in its last
  stage.\<close>

lemma probe_cases:
  assumes "ar_scaler_probe pe d = (r, p)" "\<not> sd_bound d" "sd_lut d = None" "sd_batch d = None"
  obtains (early) "r \<noteq> None" "tame p = tame d" "sd_bound p = sd_bound d" "sd_suspended p = sd_suspended d" "sd_lut p = None"
      "sd_batch p = None" "sd_misc p = sd_misc d" "\<not> sd_dead p" "sd_launches p = sd_launches d"
  | (finish) q lbuf bbuf where "probe_finish pe q = (r, p)" "sd_mapped q" "sd_ctrlbase q" "sd_lut q = Some lbuf" "sd_batch q = Some bbuf"
      "tame q = tame d" "sd_bound q = sd_bound d" "sd_suspended q = sd_suspended d" "sd_misc q = sd_misc d" "\<not> sd_dead q"
proof -
  let ?e = "r \<noteq> None \<and> tame p = tame d \<and> sd_bound p = sd_bound d \<and> sd_suspended p = sd_suspended d \<and> sd_lut p = None \<and>
      sd_batch p = None \<and> sd_misc p = sd_misc d \<and> \<not> sd_dead p \<and> sd_launches p = sd_launches d"
  let ?f = "\<exists>q lbuf bbuf. probe_finish pe q = (r, p) \<and> sd_mapped q \<and> sd_ctrlbase q \<and> sd_lut q = Some lbuf \<and> sd_batch q = Some bbuf \<and>
      tame q = tame d \<and> sd_bound q = sd_bound d \<and> sd_suspended q = sd_suspended d \<and> sd_misc q = sd_misc d \<and> \<not> sd_dead q"
  define d2 where "d2 = (if \<not> sd_initted d then d\<lparr>sd_dead := False, sd_done := 0, sd_initted := True\<rparr> else d\<lparr>sd_dead := False\<rparr>)"
  define d3 where "d3 core clk = d2\<lparr>sd_core := core, sd_clk := clk, sd_mapped := True, sd_ctrlbase := True,
                         sd_frequency := (case pe_frequency pe of None \<Rightarrow> 0 | Some f \<Rightarrow> f)\<rparr>" for core clk
  have stages: "r \<noteq> None \<and> (p = d2 \<or> p = d2\<lparr>sd_ctrlbase := False\<rparr>) \<or> (\<exists>core clk. probe_mapped pe (d3 core clk) = (r, p))"
    using assms(1,2) unfolding ar_scaler_probe_def Let_def d2_def d3_def
    by (cases "sd_initted d") (auto split: option.splits if_splits)
  have f2: "tame d2 = tame d" "sd_bound d2 = sd_bound d" "sd_suspended d2 = sd_suspended d" "sd_lut d2 = None" "sd_batch d2 = None"
    "sd_misc d2 = sd_misc d" "\<not> sd_dead d2" "sd_launches d2 = sd_launches d"
    using assms(3,4) by (simp_all add: d2_def tame_def)
  have f3: "tame (d3 core clk) = tame d" "sd_bound (d3 core clk) = sd_bound d" "sd_suspended (d3 core clk) = sd_suspended d"
    "sd_lut (d3 core clk) = None" "sd_batch (d3 core clk) = None" "sd_misc (d3 core clk) = sd_misc d" "\<not> sd_dead (d3 core clk)"
    "sd_launches (d3 core clk) = sd_launches d" "sd_mapped (d3 core clk)" "sd_ctrlbase (d3 core clk)" for core clk
    using f2 by (simp_all add: d3_def tame_def)
  have "?e \<or> ?f"
    using stages
  proof (elim disjE conjE exE)
    fix core clk
    assume "probe_mapped pe (d3 core clk) = (r, p)"
    then consider "r \<noteq> None" "p = d3 core clk"
      | (a) "case ar_scaler_alloc_bufs pe (d3 core clk) of (Some e, d4) \<Rightarrow> r = Some e \<and> p = d4 | (None, d4) \<Rightarrow> probe_finish pe d4 = (r, p)"
      by (auto simp: probe_mapped_def split: option.splits prod.splits dest!: sym [of "Some _"])
    then show "?e \<or> ?f"
    proof cases
      case a
      show ?thesis
    proof (cases "pe_lut pe")
      case None
      then show ?thesis using a f3 by (simp add: ar_scaler_alloc_bufs_def tame_def)
    next
      case (Some l)
      obtain lphys lbuf where l: "l = (lphys, lbuf)" by fastforce
      show ?thesis
      proof (cases "pe_batch pe")
        case None
        then show ?thesis using a f3 Some l by (simp add: ar_scaler_alloc_bufs_def Let_def tame_def)
      next
        case (Some b)
        obtain bphys bbuf where b: "b = (bphys, bbuf)" by fastforce
        let ?q = "(d3 core clk)\<lparr>sd_lut := Some lbuf, sd_lut_phys := lphys, sd_batch := Some bbuf, sd_batch_phys := bphys\<rparr>"
        have "probe_finish pe ?q = (r, p)" using a Some \<open>pe_lut pe = Some l\<close> l b by (simp add: ar_scaler_alloc_bufs_def Let_def)
        moreover have "tame ?q = tame d" using f3(1) [of core clk] by (simp add: tame_def)
        ultimately have ?f using f3 by (intro exI [of _ ?q]) simp
        then show ?thesis by blast
      qed
    qed
    qed (use f3 in \<open>simp add: tame_def\<close>)
  qed (use f2 in \<open>simp_all add: tame_def\<close>)
  then show ?thesis
    by (elim disjE conjE exE) (rule early, assumption+, rule finish, assumption+)
qed

lemma bind_fail_inv:
  assumes "scaler_inv (d, n)" "scaler_bind pe d = (Some e, d')" "n = 0 \<or> sd_bound d"
  shows "scaler_inv (d', n)"
proof (cases "sd_bound d")
  case True
  then show ?thesis using assms by (auto simp: scaler_bind_def ar_scaler_probe_def)
next
  case False
  obtain r p where p: "ar_scaler_probe pe d = (r, p)" by fastforce
  have d': "d' = devm_release p" "r = Some e"
    using assms(2) False p by (auto simp: scaler_bind_def split: option.splits)
  have I: "tame d" "\<not> sd_suspended d" "sd_lut d = None" "sd_batch d = None" "\<not> sd_misc d" using assms(1) False by (auto simp: scaler_inv_def)
  have "tame p \<and> \<not> sd_bound p \<and> \<not> sd_suspended p \<and> sd_lut p = None \<and> sd_batch p = None \<and> \<not> sd_misc p"
    using p False I(3,4)
  proof (cases rule: probe_cases)
    case early
    then show ?thesis using I False by simp
  next
    case (finish q lbuf bbuf)
    then show ?thesis using probe_finish_effect [OF finish(1-5)] I False d'(2) by simp
  qed
  then show ?thesis using assms(3) False d' by (simp add: scaler_inv_def devm_release_def tame_def)
qed

lemma bind_ok_inv:
  assumes "scaler_inv (d, n)" "scaler_bind pe d = (None, d')"
  shows "scaler_inv (d', n)"
proof -
  have b: "\<not> sd_bound d" and p: "ar_scaler_probe pe d = (None, d')"
    using assms(2) by (auto simp: scaler_bind_def ar_scaler_probe_def split: prod.splits option.splits if_splits)
  have I: "tame d" "\<not> sd_suspended d" "sd_lut d = None" "sd_batch d = None" using assms(1) b by (auto simp: scaler_inv_def)
  show ?thesis
    using p b I(3,4)
  proof (cases rule: probe_cases)
    case (finish q lbuf bbuf)
    then show ?thesis using probe_finish_effect [OF finish(1-5)] I b by (simp add: scaler_inv_def)
  qed simp
qed

lemma power_inv:
  assumes "scaler_inv (d, n)" "sd_bound d"
  shows "\<not> sd_suspended d \<Longrightarrow> scaler_inv (devm_release (ar_scaler_remove d), n)" "\<not> sd_suspended d \<Longrightarrow> scaler_inv (ar_scaler_suspend d, n)"
    "sd_suspended d \<Longrightarrow> scaler_inv (ar_scaler_resume d, n)"
proof -
  have I: "armed d" "sd_ctrlbase d" "lut_loaded d" "sd_batch d \<noteq> None" "tame d" "sd_mapped d" "\<not> sd_dead d" "sd_misc d"
    using assms by (auto simp: scaler_inv_def armed_def)
  note P = poweroff_effect [OF I(6)] static_fields [OF poweroff_effect(1) [OF I(6)]]
  let ?d = "d\<lparr>sd_proc := False, sd_misc := False, sd_dead := True\<rparr>"
  have "sd_mapped ?d" using I by simp
  note Q = poweroff_effect [OF this] static_fields [OF poweroff_effect(1) [OF this]]
  have "tame ?d" using I(5) by (simp add: tame_def)
  then show "\<not> sd_suspended d \<Longrightarrow> scaler_inv (devm_release (ar_scaler_remove d), n)"
    using Q by (simp add: scaler_inv_def ar_scaler_remove_def devm_release_def ar_scaler_free_bufs_def tame_def)
  have "lut_loaded (ar_scaler_poweroff d)" using lut_loaded_static [OF P(1)] I(3) by simp
  then show "\<not> sd_suspended d \<Longrightarrow> scaler_inv (ar_scaler_suspend d, n)"
    using P I assms(2) by (simp add: scaler_inv_def ar_scaler_suspend_def armed_def tame_def gated_def lut_loaded_def)
  note H = hw_init_effect [OF I(6,2)]
  have s: "static (ar_scaler_hw_init d) = static d" using H(5) upload_twice [OF I(3)] by simp
  have "lut_loaded (ar_scaler_hw_init d)" using lut_loaded_static [OF s] I(3) by simp
  then show "sd_suspended d \<Longrightarrow> scaler_inv (ar_scaler_resume d, n)"
    using H static_fields [OF s] I assms(2) by (simp add: scaler_inv_def ar_scaler_resume_def armed_def tame_def clocked_def lut_loaded_def)
qed

lemma step_inv:
  assumes "scaler_step True x y" "scaler_inv x" shows "scaler_inv y"
  using assms
proof cases
  case (probe_ok pe d d' n)
  then show ?thesis using bind_ok_inv assms(2) by blast
next
  case (probe_fails pe d e d' n)
  then show ?thesis using bind_fail_inv assms(2) by blast
next
  case (opened d n)
  then show ?thesis using assms(2) by (auto simp: scaler_inv_def)
next
  case (closed d n)
  then show ?thesis using assms(2) by (auto simp: scaler_inv_def)
next
  case (request env denv cmd s d r s' d' n)
  then show ?thesis using request_inv assms(2) by blast
next
  case (interrupt d n st)
  then show ?thesis using raise_inv assms(2) by blast
qed (use power_inv assms(2) in blast)+

lemma reachable_inv: "scaler_reachable True x \<Longrightarrow> scaler_inv x"
proof (induction rule: scaler_reachable.induct)
  case start
  then show ?case by (simp add: scaler_inv_def module_loaded_def tame_def)
qed (rule step_inv)

section \<open>Safety\<close>


definition good_probe :: probe_env where
  "good_probe = \<lparr>pe_resource = Some 0x1000, pe_ioremap = Some (\<lambda>_. 0), pe_ctrl_ioremap = Some (\<lambda>_. 0), pe_frequency = Some 400,
     pe_irq = None, pe_request_irq = None, pe_dma_mask = None, pe_lut = Some (0x30000000, replicate 1536 0),
     pe_batch = Some (0x30010000, \<lambda>_. 0), pe_misc = None, pe_proc = True\<rparr>"

abbreviation bound_device :: scaler_dev where
  "bound_device \<equiv> snd (scaler_bind good_probe module_loaded)"

lemma good_bind: "scaler_bind good_probe module_loaded = (None, bound_device)"
  by (simp add: scaler_bind_def ar_scaler_probe_def probe_mapped_def ar_scaler_alloc_bufs_def probe_finish_def good_probe_def
      module_loaded_def)

lemma bound_facts: "sd_bound bound_device" "\<not> sd_suspended bound_device" "sd_misc bound_device"
proof -
  have I: "scaler_inv (bound_device, 0)"
    by (rule bind_ok_inv [OF _ good_bind]) (simp add: scaler_inv_def module_loaded_def tame_def)
  show b: "sd_bound bound_device"
    by (simp add: scaler_bind_def ar_scaler_probe_def probe_mapped_def ar_scaler_alloc_bufs_def probe_finish_def good_probe_def
        module_loaded_def)
  then show "sd_misc bound_device" using I by (simp add: scaler_inv_def)
  show "\<not> sd_suspended bound_device"
    using static_fields(8) [OF hw_init_effect(5)]
    by (simp add: scaler_bind_def ar_scaler_probe_def probe_mapped_def ar_scaler_alloc_bufs_def probe_finish_def good_probe_def
        module_loaded_def upload_lut_def)
qed

lemma bound_open: "scaler_reachable orderly (bound_device, 1)"
proof -
  have "scaler_reachable orderly (bound_device, 0)" by (rule next_step [OF start probe_ok [OF good_bind]])
  then show ?thesis using next_step opened [OF bound_facts(3)] by (metis One_nat_def)
qed


text \<open>C31: The gap in the teardown gate: \<open>ar_scaler_probe\<close> clears \<open>dead\<close> before it can fail.  After an
  unbind with a file still open and a probe that fails for want of its resource, the device is reachable
  unbound and unmapped, and setting the frequency through the old file writes through the dead window.\<close>

theorem failed_reprobe_reopens_gate:
  "\<exists>d. scaler_reachable False (d, 1) \<and> \<not> sd_bound d \<and> \<not> sd_mapped d \<and>
     Wild \<in> set (sd_log (snd (snd (ar_scaler_ioctl env denv (SCALER_IOC_SETFREQ (Some 400)) s d))))"
proof -
  define gone where "gone = devm_release (ar_scaler_remove bound_device)"
  have g: "\<not> sd_bound gone" by (simp add: gone_def devm_release_def ar_scaler_remove_def)
  define p where "p = (if \<not> sd_initted gone then gone\<lparr>sd_dead := False, sd_done := 0, sd_initted := True\<rparr> else gone\<lparr>sd_dead := False\<rparr>)"
  have f: "scaler_bind (good_probe\<lparr>pe_resource := None\<rparr>) gone = (Some ENODEV, devm_release p)"
    using g by (simp add: scaler_bind_def ar_scaler_probe_def Let_def p_def)
  have "scaler_reachable False (gone, 1)"
    unfolding gone_def by (rule next_step [OF bound_open unbind [OF bound_facts(1,2)]])
  then have "scaler_reachable False (devm_release p, 1)" by (rule next_step [OF _ probe_fails [OF f]]) simp
  moreover have "\<not> sd_bound (devm_release p)" "\<not> sd_mapped (devm_release p)" "\<not> sd_dead (devm_release p)"
    using g by (simp_all add: devm_release_def p_def)
  moreover have "Wild \<in> set (sd_log (ar_scaler_set_freq_div 400 (e\<lparr>sd_frequency := 400\<rparr>)))" if "\<not> sd_mapped e" for e
    using that by (simp add: ar_scaler_set_freq_div_def ctrl_rmw_def ctrl_write_def log_bus_def)
  ultimately show ?thesis
    by (intro exI [of _ "devm_release p"]) (simp add: ar_scaler_ioctl_def ar_scaler_set_frequency_def)
qed

end
