(* ===== verification/Scaler_Clients.thy ===== *)
theory Scaler_Clients
  imports Ar_Scaler
begin

text \<open>
  The dma-buf requests of the scaler: descriptors resolved through the mapping cache of the open file.
  What is resolved lies inside the segments of cached mappings, and stays cached until the engine has
  run, which rests on the \<open>mapping_cache\<close> interface as the segments of an exporter's buffers fulfil it.
\<close>

section \<open>One operation\<close>

text \<open>The images of an operation inside the segments of a set of cached slots.\<close>

definition op_confined :: "(nat \<times> dbuf option \<times> u64 \<times> u64) set \<Rightarrow> ar_scaler_dmabuf_op \<Rightarrow> ar_scaler_op \<Rightarrow> bool" where
  "op_confined P dop op \<longleftrightarrow>
     (\<exists>(si, sb, sbase, ssize)\<in>P. \<exists>(di, db, dbase, dsize)\<in>P.
        unat (op_srcphy op) = unat sbase + unat (do_src_off dop) \<and> unat (op_dstphy op) = unat dbase + unat (do_dst_off dop) \<and>
        unat (do_src_off dop) + unat (op_srch op) * unat (op_srcstride op) \<le> unat ssize \<and>
        unat (do_dst_off dop) + unat (op_dsth op) * unat (op_dststride op) \<le> unat dsize \<and>
        unat (op_crop_x op) + unat (op_cropw op) \<le> unat (op_srcw op) \<and> unat (op_crop_y op) + unat (op_croph op) \<le> unat (op_srch op) \<and>
        unat (op_srcw op) * unat (op_channels op) \<le> unat (op_srcstride op) \<and>
        unat (op_dstw op) * unat (op_channels op) \<le> unat (op_dststride op) \<and>
        16 dvd unat (do_src_off dop) \<and> 16 dvd unat (do_dst_off dop))"

lemma confined_mono: "op_confined P dop op \<Longrightarrow> P \<subseteq> Q \<Longrightarrow> op_confined Q dop op"
  unfolding op_confined_def by blast

lemma unat_wide_prod: "unat (ucast (a :: u32) * ucast (b :: u32) :: u64) = unat a * unat b"
proof -
  have "unat a * unat b \<le> (2 ^ 32 - 1) * (2 ^ 32 - 1)"
    using unat_less_length [of a] unat_less_length [of b] by (intro mult_le_mono) simp_all
  then show ?thesis by (subst unat_mult_small) (simp_all add: unat_ucast_up)
qed

lemma unat_wide_sum: "unat (ucast (a :: u32) + ucast (b :: u32) :: u64) = unat a + unat b"
  using unat_less_length [of a] unat_less_length [of b] by (subst unat_add_small) (simp_all add: unat_ucast_up)

lemma unat_wide_image: "unat (ucast (o1 :: u32) + ucast (a :: u32) * ucast (b :: u32) :: u64) = unat o1 + unat a * unat b"
proof -
  have "unat a * unat b \<le> (2 ^ 32 - 1) * (2 ^ 32 - 1)"
    using unat_less_length [of a] unat_less_length [of b] by (intro mult_le_mono) simp_all
  then have "unat o1 + unat a * unat b < 2 ^ 64" using unat_less_length [of o1] by simp
  then show ?thesis by (subst unat_add_small) (simp_all add: unat_wide_prod unat_ucast_up)
qed

lemma and15: "(w :: u32) AND 0xf = 0 \<longleftrightarrow> 16 dvd unat w"
proof -
  have "w AND 0xf = w AND mask 4" by (simp add: mask_eq_exp_minus_1)
  then show ?thesis by (simp add: word_unat_eq_iff unat_and_mask dvd_eq_mod_eq_0)
qed

lemma or_and_zero: "(a OR b) AND 0xf = (0 :: u32) \<longleftrightarrow> a AND 0xf = 0 \<and> b AND 0xf = 0"
  by (simp add: bit_eq_iff bit_or_iff bit_and_iff) blast

lemma or_dvd: "16 dvd unat (a OR b :: u32) \<longleftrightarrow> 16 dvd unat a \<and> 16 dvd unat b"
  by (simp only: and15 [symmetric] or_and_zero)

lemma dmabuf_op_ok_facts:
  assumes "dmabuf_op_ok dop"
  shows "unat (op_crop_x (do_op dop)) + unat (op_cropw (do_op dop)) \<le> unat (op_srcw (do_op dop))"
    "unat (op_crop_y (do_op dop)) + unat (op_croph (do_op dop)) \<le> unat (op_srch (do_op dop))"
    "unat (op_srcw (do_op dop)) * unat (op_channels (do_op dop)) \<le> unat (op_srcstride (do_op dop))"
    "unat (op_dstw (do_op dop)) * unat (op_channels (do_op dop)) \<le> unat (op_dststride (do_op dop))"
    "16 dvd unat (do_src_off dop)" "16 dvd unat (do_dst_off dop)"
  using assms
  by (simp_all add: dmabuf_op_ok_def Let_def or_dvd and15 word_less_nat_alt unat_wide_prod unat_wide_sum unat_ucast_up not_less)

text \<open>The address arithmetic of a resolved image.\<close>

lemma phys_value:
  assumes "drop_bit 32 (base + ucast (off :: u32)) = (0 :: u64)" "unat base + unat len < 2 ^ 64" "unat off \<le> unat (len :: u64)"
  shows "unat (ucast (base + ucast off) :: u32) = unat base + unat off"
proof -
  have s: "unat (base + ucast off) = unat base + unat off"
    using assms(2,3) by (subst unat_add_small) (simp_all add: unat_ucast_up)
  have "unat (drop_bit 32 (base + ucast off)) = 0" unfolding assms(1) by simp
  then have "unat (base + ucast off) < 2 ^ 32" unfolding unat_drop_bit by (simp add: div_eq_0_iff)
  then show ?thesis using s by (simp add: unat_ucast_mod)
qed
definition segments_fit :: "(dbuf \<Rightarrow> u64 \<times> u64) \<Rightarrow> bool" where
  "segments_fit g \<longleftrightarrow> (\<forall>db. unat (fst (g db)) + unat (snd (g db)) < 2 ^ 64)"

lemma live_segment:
  assumes "seg_inv denv g s" "cs_live s i t" "segments_fit g"
  shows "unat (bm_base (cs_entry s i)) + unat (bm_size (cs_entry s i)) < 2 ^ 64"
proof -
  obtain db where "bm_dmabuf (cs_entry s i) = Some db" "i < ML_BUFCACHE_ENTRIES" using assms(2) by (auto simp: slot_live_def)
  then have "(bm_base (cs_entry s i), bm_size (cs_entry s i)) = g db" using assms(1) by (auto simp: seg_inv_def)
  then show ?thesis using assms(3) unfolding segments_fit_def by (metis fst_conv snd_conv)
qed

lemma resolve_confined:
  assumes "seg_inv denv g s" "cs_clock s + 2 \<le> CLOCK_LIMIT" "segments_fit g"
    and "ar_scaler_resolve_dmabuf_op denv dop s = (Inr op, s')"
    and "seg.pinned s t P" "t \<le> cs_clock s + 1" "cs_clock s + 2 < t + ML_BUFCACHE_ENTRIES"
  obtains Q where "P \<subseteq> Q" "seg.pinned s' t Q" "op_confined Q dop op" "seg_inv denv g s'" "cs_clock s' = cs_clock s + 2"
    "op = (do_op dop)\<lparr>op_srcphy := op_srcphy op, op_dstphy := op_dstphy op\<rparr>"
proof -
  obtain src s1 where m1: "ml_bufcache_map_fd denv (do_src_fd dop) DMA_TO_DEVICE s = (Inr src, s1)"
    using assms(4) by (auto simp: ar_scaler_resolve_dmabuf_op_def Let_def split: if_splits sum.splits prod.splits)
  obtain dst s2 where m2: "ml_bufcache_map_fd denv (do_dst_fd dop) DMA_FROM_DEVICE s1 = (Inr dst, s2)"
    using assms(4) m1 by (auto simp: ar_scaler_resolve_dmabuf_op_def Let_def split: if_splits sum.splits prod.splits)
  have ok: "dmabuf_op_ok dop" and s': "s' = s2"
    and szs: "\<not> bm_size (cs_entry s2 src) < ucast (do_src_off dop) + ucast (op_srch (do_op dop)) * ucast (op_srcstride (do_op dop))"
    and szd: "\<not> bm_size (cs_entry s2 dst) < ucast (do_dst_off dop) + ucast (op_dsth (do_op dop)) * ucast (op_dststride (do_op dop))"
    and hs: "drop_bit 32 (bm_base (cs_entry s2 src) + ucast (do_src_off dop)) = 0"
    and hd: "drop_bit 32 (bm_base (cs_entry s2 dst) + ucast (do_dst_off dop)) = 0"
    and op: "op = (do_op dop)\<lparr>op_srcphy := ucast (bm_base (cs_entry s2 src) + ucast (do_src_off dop)),
        op_dstphy := ucast (bm_base (cs_entry s2 dst) + ucast (do_dst_off dop))\<rparr>"
    using assms(4) m1 m2 by (auto simp: ar_scaler_resolve_dmabuf_op_def Let_def split: if_splits)
  have l1: "cs_clock s < CLOCK_LIMIT" using assms(2) by simp
  have i1: "seg_inv denv g s1" "cs_clock s1 = cs_clock s + 1"
    using seg.step_inv [OF assms(1) l1 m1] seg.step_found [OF assms(1) l1 m1] by simp_all
  have l2: "cs_clock s1 < CLOCK_LIMIT" using assms(2) i1(2) by simp
  have i2: "seg_inv denv g s2" "cs_clock s2 = cs_clock s + 2"
    using seg.step_inv [OF i1(1) l2 m2] seg.step_found [OF i1(1) l2 m2] i1(2) by simp_all
  have P1: "seg.pinned s1 t (insert (src, segment s1 src) P)"
    by (rule seg.pinned_step [OF assms(1) l1 m1 assms(5,6)]) (use assms(7) in simp_all)
  have P2: "seg.pinned s2 t (insert (dst, segment s2 dst) (insert (src, segment s1 src) P))"
    by (rule seg.pinned_step [OF i1(1) l2 m2 P1]) (use assms(6,7) i1(2) in simp_all)
  define Q where "Q = insert (dst, segment s2 dst) (insert (src, segment s1 src) P)"
  have live: "cs_live s2 src t" "cs_live s2 dst t" "segment s2 src = segment s1 src" using P2 by (auto simp: seg.pinned_def)
  have bs: "unat (do_src_off dop) + unat (op_srch (do_op dop)) * unat (op_srcstride (do_op dop)) \<le> unat (bm_size (cs_entry s2 src))"
    "unat (do_dst_off dop) + unat (op_dsth (do_op dop)) * unat (op_dststride (do_op dop)) \<le> unat (bm_size (cs_entry s2 dst))"
    using szs szd by (simp_all add: word_less_nat_alt unat_wide_image not_less)
  have ph: "unat (op_srcphy op) = unat (bm_base (cs_entry s2 src)) + unat (do_src_off dop)"
    "unat (op_dstphy op) = unat (bm_base (cs_entry s2 dst)) + unat (do_dst_off dop)"
    using phys_value [OF hs live_segment [OF i2(1) live(1) assms(3)]] phys_value [OF hd live_segment [OF i2(1) live(2) assms(3)]] bs
    by (simp_all add: op)
  have m: "(src, segment s2 src) \<in> Q" "(dst, segment s2 dst) \<in> Q" using live(3) by (simp_all add: Q_def)
  have "op_confined Q dop op"
    unfolding op_confined_def
    by (rule bexI [OF _ m(1)], unfold segment_def prod.case, rule bexI [OF _ m(2)], unfold segment_def prod.case)
      (use ph bs dmabuf_op_ok_facts [OF ok] in \<open>simp add: op\<close>)
  moreover have "op = (do_op dop)\<lparr>op_srcphy := op_srcphy op, op_dstphy := op_dstphy op\<rparr>" by (simp add: op)
  ultimately show ?thesis using that [of Q] P2 i2 unfolding s' Q_def by blast
qed

section \<open>A batch\<close>

lemma resolve_all_confined:
  assumes "seg_inv denv g s" "cs_clock s + 2 * length dops \<le> CLOCK_LIMIT" "segments_fit g"
    and "resolve_all denv dops s = (Inr ops, s')"
    and "seg.pinned s t P" "t \<le> cs_clock s + 1" "cs_clock s + 2 * length dops < t + ML_BUFCACHE_ENTRIES"
  shows "\<exists>Q. P \<subseteq> Q \<and> seg.pinned s' t Q \<and> list_all2 (op_confined Q) dops ops"
  using assms
proof (induction denv dops s arbitrary: P ops s' rule: resolve_all.induct)
  case (2 denv dop dops s)
  obtain op s1 ops1 where r: "ar_scaler_resolve_dmabuf_op denv dop s = (Inr op, s1)" and r1: "resolve_all denv dops s1 = (Inr ops1, s')"
    and ops: "ops = op # ops1"
    using "2.prems"(4) by (auto split: sum.splits prod.splits)
  obtain Q where Q: "P \<subseteq> Q" "seg.pinned s1 t Q" "op_confined Q dop op" "seg_inv denv g s1" "cs_clock s1 = cs_clock s + 2"
    by (rule resolve_confined [OF "2.prems"(1) _ "2.prems"(3) r "2.prems"(5,6)]) (use "2.prems"(2,7) in auto)
  have "\<exists>R. Q \<subseteq> R \<and> seg.pinned s' t R \<and> list_all2 (op_confined R) dops ops1"
    by (rule "2.IH" [OF r [symmetric] refl Q(4) _ "2.prems"(3) r1 Q(2)]) (use "2.prems"(2,6,7) Q(5) in auto)
  then obtain R where "Q \<subseteq> R" "seg.pinned s' t R" "list_all2 (op_confined R) dops ops1" by blast
  then show ?case using Q(1) confined_mono [OF Q(3)] unfolding ops by (intro exI [of _ R]) auto
qed auto


text \<open>The single request.\<close>

lemma scaler_dmabuf_single_confined:
  assumes "seg_inv denv g s" "cs_clock s + 2 \<le> CLOCK_LIMIT" "segments_fit g" "ready d"
    and "ar_scaler_start_single_dmabuf env denv (Some dop) s d = (r, s', d')" "sd_launches d' \<noteq> sd_launches d"
  shows "\<exists>core op Q. sd_launches d' = sd_launches d @ [(core, sd_batch d)] \<and> op_confined Q dop op \<and>
    (\<forall>(i, seg)\<in>Q. cs_live s' i (cs_clock s + 1) \<and> segment s' i = seg) \<and>
    (\<forall>i\<in>set SD_WORDS. core (SC_DESC_BASE + 4 * i) = scaler_build_image (\<lambda>_. 0) op (ucast (sd_lut_phys d)) i)"
proof -
  obtain op where res: "ar_scaler_resolve_dmabuf_op denv dop s = (Inr op, s')" and run: "ar_scaler_run env op 1 d = (r, d')"
    using assms(5,6) by (auto simp: ar_scaler_start_single_dmabuf_def split: sum.splits prod.splits)
  obtain Q where Q: "seg.pinned s' (cs_clock s + 1) Q" "op_confined Q dop op"
    by (rule resolve_confined [OF assms(1) _ assms(3) res, of "cs_clock s + 1" "{}"]) (use assms(2) in \<open>auto simp: seg.pinned_def\<close>)
  have F: "\<not> re_intr env" "\<not> sd_suspended d" "\<not> sd_dead d" "ar_scaler_validate op = None"
  proof -
    have "\<not> (re_intr env \<or> sd_suspended d \<or> sd_dead d \<or> ar_scaler_validate op \<noteq> None)"
    proof
      assume "re_intr env \<or> sd_suspended d \<or> sd_dead d \<or> ar_scaler_validate op \<noteq> None"
      from run_refused(1) [OF this, of 1] run assms(6) show False by simp
    qed
    then show "\<not> re_intr env" "\<not> sd_suspended d" "\<not> sd_dead d" "ar_scaler_validate op = None" by auto
  qed
  obtain core where "sd_launches d' = sd_launches d @ [(core, sd_batch d)]"
    "\<forall>i\<in>set SD_WORDS. core (SC_DESC_BASE + 4 * i) = scaler_build_image (\<lambda>_. 0) op (ucast (sd_lut_phys d)) i"
    by (rule run_launched [OF assms(4) F run])
  then show ?thesis using Q by (auto simp: seg.pinned_def)
qed

section \<open>A request that runs\<close>

text \<open>An environment in which descriptor 3 is one buffer, and a batch that scales it into itself.\<close>

abbreviation one_buffer_env :: dmabuf_env where
  "one_buffer_env \<equiv> \<lparr>env_get = \<lambda>_ fd. Inr (nat fd), env_attach = \<lambda>_ _. None, env_map = \<lambda>_ _ _. Inr (1, 0x20000000, 0x1000000)\<rparr>"

definition self_scale :: ar_scaler_dmabuf_op where
  "self_scale = \<lparr>do_src_fd = 3, do_dst_fd = 3, do_src_off = 0, do_dst_off = 0x800000,
     do_op = sample_op\<lparr>op_srcphy := 0, op_dstphy := 0\<rparr>\<rparr>"

lemma self_scale_ok: "dmabuf_op_ok self_scale"
  by (simp add: dmabuf_op_ok_def self_scale_def sample_op_def)

definition self_batch :: ar_scaler_dmabuf_batch where
  "self_batch = \<lparr>db_count = 1, db_reserved = 0, db_ops = replicate 8 self_scale\<rparr>"

lemma self_resolves:
  "fst (resolve_all one_buffer_env [self_scale] (bufcache_empty, world_empty 0)) =
     Inr [sample_op\<lparr>op_srcphy := 0x20000000, op_dstphy := 0x20800000\<rparr>]"
  by code_simp

lemma self_env: "seg_inv one_buffer_env (\<lambda>_. (0x20000000, 0x1000000)) (bufcache_empty, world_empty 0)"
  unfolding seg_inv_alt same_segment_def entries_at_def
  using empty_inv by (simp add: bufcache_empty_def)


end
