(* ===== verification/Cgu_Pll.thy ===== *)
theory Cgu_Pll
  imports Kernel_Base "HOL-Library.Monad_Syntax"
begin

text \<open>
  The pixel PLL of the AR9311 clock generation unit (\<open>clk-ar9311-cgu.c\<close>): the rate of a period word,
  the band around the boot rate, and \<open>set_rate\<close>, which walks the feedback word to its target in
  slew-limited steps.  The loop is a partial function, whose value is the list of words it writes;
  that it ends is part of the property.
\<close>

section \<open>Definitions\<close>

abbreviation AR_PLL_KNUM :: u64 where "AR_PLL_KNUM \<equiv> 2314489657"
abbreviation AR_PLL_BAND_PERMILLE :: u64 where "AR_PLL_BAND_PERMILLE \<equiv> 50"
abbreviation AR_PLL_SLEW_SHIFT :: nat where "AR_PLL_SLEW_SHIFT \<equiv> 11"

definition ar9311_pixel_pll_recalc_rate :: "u32 \<Rightarrow> u64 \<Rightarrow> u64" where
  "ar9311_pixel_pll_recalc_rate fbword parent_rate =
     (if fbword = 0 then 0 else parent_rate * AR_PLL_KNUM div ucast fbword)"

definition ar9311_pixel_pll_clamp :: "u64 \<Rightarrow> u64 \<Rightarrow> u64" where
  "ar9311_pixel_pll_clamp boot_rate rate =
     (let lo = boot_rate div 1000 * (1000 - AR_PLL_BAND_PERMILLE);
          hi = boot_rate div 1000 * (1000 + AR_PLL_BAND_PERMILLE)
      in min (max rate lo) hi)"

definition ar9311_pixel_pll_determine_rate :: "u64 \<Rightarrow> u64 \<Rightarrow> u64" where
  "ar9311_pixel_pll_determine_rate boot_rate rate = ar9311_pixel_pll_clamp boot_rate rate"

text \<open>One step of the ramp, and the ramp: the words written from \<open>cur\<close> on.\<close>

definition pll_step :: "u32 \<Rightarrow> u32 \<Rightarrow> u32" where
  "pll_step cur word =
     (let max_step = max (drop_bit AR_PLL_SLEW_SHIFT cur) 1
      in if cur < word then min word (cur + max_step) else max word (cur - max_step))"

partial_function (option) pll_ramp :: "u32 \<Rightarrow> u32 \<Rightarrow> u32 list option" where
  "pll_ramp cur word =
     (if cur = word then Some []
      else do { ws \<leftarrow> pll_ramp (pll_step cur word) word; Some (pll_step cur word # ws) })"

definition pll_target :: "u64 \<Rightarrow> u64 \<Rightarrow> u64 \<Rightarrow> u32" where
  "pll_target boot_rate rate parent_rate = ucast (parent_rate * AR_PLL_KNUM div ar9311_pixel_pll_clamp boot_rate rate)"

text \<open>\<open>set_rate\<close>: an error, or the words written to a register that held \<open>fbword\<close>.\<close>

definition ar9311_pixel_pll_set_rate :: "u64 \<Rightarrow> u32 \<Rightarrow> u64 \<Rightarrow> u64 \<Rightarrow> errno + u32 list option" where
  "ar9311_pixel_pll_set_rate boot_rate fbword rate parent_rate =
     (if parent_rate = 0 then Inl EINVAL else Inr (pll_ramp fbword (pll_target boot_rate rate parent_rate)))"

section \<open>The ramp\<close>

definition step_bound :: "u32 \<Rightarrow> nat" where
  "step_bound cur = max (unat cur div 2048) 1"

lemma unat_max_step: "unat (max (drop_bit AR_PLL_SLEW_SHIFT cur) (1 :: u32)) = step_bound cur"
  by (simp add: step_bound_def max_def word_le_nat_alt unat_drop_bit)

lemma unat_min_max: "unat (min a (b :: 'a::len word)) = min (unat a) (unat b)" "unat (max a (b :: 'a::len word)) = max (unat a) (unat b)"
  by (simp_all add: min_def max_def word_le_nat_alt)

abbreviation SAFE_WORD :: nat where "SAFE_WORD \<equiv> 0xffe00000"

lemma step_value:
  assumes "unat word \<le> SAFE_WORD" "cur \<noteq> word"
  shows "unat (pll_step cur word) =
    (if unat cur < unat word then min (unat word) (unat cur + step_bound cur) else max (unat word) (unat cur - step_bound cur))"
proof (cases "cur < word")
  case True
  then have l: "unat cur < unat word" by (simp add: word_less_nat_alt)
  have "unat cur div 2048 \<le> SAFE_WORD div 2048" using l assms(1) by (intro div_le_mono) simp
  then have "unat cur + step_bound cur < 2 ^ 32" using l assms(1) by (simp add: step_bound_def max_def)
  then have "unat (cur + max (drop_bit AR_PLL_SLEW_SHIFT cur) 1) = unat cur + step_bound cur"
    by (subst unat_add_small) (simp_all add: unat_max_step)
  then show ?thesis using True l by (simp add: pll_step_def Let_def unat_min_max)
next
  case False
  then have l: "unat word < unat cur" using assms(2) by (simp add: word_less_nat_alt word_unat_eq_iff)
  then have "step_bound cur \<le> unat cur" by (auto simp: step_bound_def)
  then have "unat (cur - max (drop_bit AR_PLL_SLEW_SHIFT cur) 1) = unat cur - step_bound cur"
    by (subst unat_sub) (simp_all add: word_le_nat_alt unat_max_step)
  then show ?thesis using False l by (simp add: pll_step_def Let_def unat_min_max)
qed

text \<open>The shape of a ramp: it ends at the target, every step is within the slew limit of the word it starts from,
  and moves towards the target without passing it.\<close>

fun slewed :: "u32 \<Rightarrow> u32 list \<Rightarrow> u32 \<Rightarrow> bool" where
  "slewed cur [] word \<longleftrightarrow> cur = word"
| "slewed cur (w # ws) word \<longleftrightarrow>
     (if unat cur < unat word then unat cur < unat w \<and> unat w \<le> unat word \<and> unat w - unat cur \<le> step_bound cur
      else unat word \<le> unat w \<and> unat w < unat cur \<and> unat cur - unat w \<le> step_bound cur) \<and> slewed w ws word"

definition word_gap :: "u32 \<Rightarrow> u32 \<Rightarrow> nat" where
  "word_gap a b = (if unat a < unat b then unat b - unat a else unat a - unat b)"

lemma step_slewed:
  assumes "unat word \<le> SAFE_WORD" "cur \<noteq> word"
  shows "word_gap (pll_step cur word) word < word_gap cur word"
    and "if unat cur < unat word then unat cur < unat (pll_step cur word) \<and> unat (pll_step cur word) \<le> unat word \<and>
           unat (pll_step cur word) - unat cur \<le> step_bound cur
         else unat word \<le> unat (pll_step cur word) \<and> unat (pll_step cur word) < unat cur \<and>
           unat cur - unat (pll_step cur word) \<le> step_bound cur"
proof -
  have b: "0 < step_bound cur" by (simp add: step_bound_def)
  have ne: "unat cur \<noteq> unat word" using assms(2) by (simp add: word_unat_eq_iff)
  show "if unat cur < unat word then unat cur < unat (pll_step cur word) \<and> unat (pll_step cur word) \<le> unat word \<and>
           unat (pll_step cur word) - unat cur \<le> step_bound cur
         else unat word \<le> unat (pll_step cur word) \<and> unat (pll_step cur word) < unat cur \<and>
           unat cur - unat (pll_step cur word) \<le> step_bound cur"
    unfolding step_value [OF assms] using b ne by auto
  then show "word_gap (pll_step cur word) word < word_gap cur word" using ne by (auto simp: word_gap_def split: if_splits)
qed

lemma ramp_slewed:
  assumes "unat word \<le> SAFE_WORD"
  shows "\<exists>ws. pll_ramp cur word = Some ws \<and> slewed cur ws word \<and> length ws \<le> word_gap cur word"
proof (induction "word_gap cur word" arbitrary: cur rule: less_induct)
  case less
  show ?case
  proof (cases "cur = word")
    case True
    then show ?thesis by (subst pll_ramp.simps) simp
  next
    case False
    note S = step_slewed [OF assms False]
    obtain ws where ws: "pll_ramp (pll_step cur word) word = Some ws" "slewed (pll_step cur word) ws word"
      "length ws \<le> word_gap (pll_step cur word) word"
      using less [OF S(1)] by blast
    have "pll_ramp cur word = Some (pll_step cur word # ws)" using False ws(1) by (subst pll_ramp.simps) simp
    then show ?thesis using S ws(2,3) by (intro exI [of _ "pll_step cur word # ws"]) simp
  qed
qed

lemma slewed_last: "slewed cur ws word \<Longrightarrow> last (cur # ws) = word"
  by (induction cur ws word rule: slewed.induct) (auto split: if_splits)

section \<open>The rate it ends at\<close>

text \<open>The rate of the target word is at least the clamped request and exceeds it by less than one part in
  the word itself.\<close>

lemma target_rate:
  assumes "unat parent * unat AR_PLL_KNUM < 2 ^ 64" "0 < unat r" "unat parent * unat AR_PLL_KNUM div unat r < 2 ^ 32"
    and "unat r \<le> unat parent * unat AR_PLL_KNUM" "w = ucast (parent * AR_PLL_KNUM div r)"
  shows "unat w = unat parent * unat AR_PLL_KNUM div unat r"
    and "unat r \<le> unat (ar9311_pixel_pll_recalc_rate w parent)"
    and "(unat (ar9311_pixel_pll_recalc_rate w parent) - unat r) * unat w < unat r"
proof -
  define P where "P = unat parent * unat AR_PLL_KNUM"
  have p: "unat (parent * AR_PLL_KNUM) = P" unfolding P_def by (rule unat_mult_small) (use assms(1) in simp)
  show w: "unat w = unat parent * unat AR_PLL_KNUM div unat r"
    unfolding assms(5) using assms(3) p by (simp add: unat_ucast_mod unat_div P_def)
  define W where "W = P div unat r"
  have W: "0 < W" using assms(2,4) by (simp add: W_def P_def div_greater_zero_iff)
  have rec: "unat (ar9311_pixel_pll_recalc_rate w parent) = P div W"
  proof -
    have "w \<noteq> 0" using w W by (auto simp: W_def P_def)
    moreover have "unat (ucast w :: u64) = W" using w by (simp add: unat_ucast_up W_def P_def)
    ultimately show ?thesis using p by (simp add: ar9311_pixel_pll_recalc_rate_def unat_div)
  qed
  have wr: "W * unat r \<le> P" unfolding W_def by (rule div_times_less_eq_dividend)
  then show "unat r \<le> unat (ar9311_pixel_pll_recalc_rate w parent)"
    unfolding rec using W by (simp add: less_eq_div_iff_mult_less_eq mult.commute)
  have "P < W * unat r + unat r"
    using dividend_less_div_times [of "unat r" P] assms(2) by (simp add: W_def)
  then have "P div W * W < W * unat r + unat r" by (rule le_less_trans [OF div_times_less_eq_dividend])
  moreover have "(P div W - unat r) * W = P div W * W - unat r * W" by (rule diff_mult_distrib)
  moreover have "unat r * W = W * unat r" by (rule mult.commute)
  ultimately have "(P div W - unat r) * W < unat r" using assms(2) by linarith
  then show "(unat (ar9311_pixel_pll_recalc_rate w parent) - unat r) * unat w < unat r"
    unfolding rec w by (simp add: W_def P_def)
qed

text \<open>C33: The pixel PLL's \<open>set_rate\<close>, for any word in the register and a target word of at most 0xffe00000: it
  returns, the words it writes end at the target, every write moves strictly towards it,
  never past it, and by at most 1/2048 of the word before (at least by one), so at most as many writes
  as the distance; and the rate of the final word is at least the request clamped to the band around the boot
  rate and exceeds it by less than one part in the period word.\<close>

theorem pixel_pll_set_rate_slews:
  assumes "parent \<noteq> 0" "r = ar9311_pixel_pll_clamp boot rate" "0 < unat r" "unat parent * unat AR_PLL_KNUM < 2 ^ 64"
    and "unat r \<le> unat parent * unat AR_PLL_KNUM" "unat parent * unat AR_PLL_KNUM div unat r \<le> SAFE_WORD"
  shows "\<exists>ws. ar9311_pixel_pll_set_rate boot cur rate parent = Inr (Some ws) \<and>
    slewed cur ws (pll_target boot rate parent) \<and> last (cur # ws) = pll_target boot rate parent \<and>
    length ws \<le> word_gap cur (pll_target boot rate parent) \<and>
    unat r \<le> unat (ar9311_pixel_pll_recalc_rate (last (cur # ws)) parent) \<and>
    (unat (ar9311_pixel_pll_recalc_rate (last (cur # ws)) parent) - unat r) * unat (last (cur # ws)) < unat r"
proof -
  let ?w = "pll_target boot rate parent"
  have t: "?w = ucast (parent * AR_PLL_KNUM div r)" by (simp add: pll_target_def assms(2))
  note T = target_rate [OF assms(4,3) _ assms(5) t]
  have s: "unat ?w \<le> SAFE_WORD" using T(1) assms(6) by simp
  obtain ws where ws: "pll_ramp cur ?w = Some ws" "slewed cur ws ?w" "length ws \<le> word_gap cur ?w"
    using ramp_slewed [OF s, of cur] by blast
  have l: "last (cur # ws) = ?w" by (rule slewed_last [OF ws(2)])
  have "ar9311_pixel_pll_set_rate boot cur rate parent = Inr (Some ws)"
    using ws(1) assms(1) by (simp add: ar9311_pixel_pll_set_rate_def)
  moreover have "unat parent * unat AR_PLL_KNUM div unat r < 2 ^ 32" using assms(6) by simp
  ultimately show ?thesis
    by (intro exI [of _ ws] conjI) (simp_all only: l ws T(2,3))
qed

text \<open>The goggle's panel clock: the stock word, a request one percent up.\<close>

lemma pixel_pll_set_rate_slews_witness:
  "\<exists>ws. ar9311_pixel_pll_set_rate 594002000 0x0592eab1 599942020 24000000 = Inr (Some ws) \<and>
     599942020 \<le> unat (ar9311_pixel_pll_recalc_rate (last (0x0592eab1 # ws)) 24000000)"
proof -
  have r: "ar9311_pixel_pll_clamp 594002000 599942020 = 599942020"
    by (simp add: ar9311_pixel_pll_clamp_def Let_def min_def max_def)
  have p: "(24000000 :: u64) \<noteq> 0" "0 < unat (599942020 :: u64)" "unat (24000000 :: u64) * unat AR_PLL_KNUM < 2 ^ 64"
    "unat (599942020 :: u64) \<le> unat (24000000 :: u64) * unat AR_PLL_KNUM"
    "unat (24000000 :: u64) * unat AR_PLL_KNUM div unat (599942020 :: u64) \<le> SAFE_WORD"
    by simp_all
  obtain ws where ws: "ar9311_pixel_pll_set_rate 594002000 0x0592eab1 599942020 24000000 = Inr (Some ws)"
    "unat (599942020 :: u64) \<le> unat (ar9311_pixel_pll_recalc_rate (last (0x0592eab1 # ws)) 24000000)"
    using pixel_pll_set_rate_slews [OF p(1) r [symmetric] p(2-5), of "0x0592eab1"] by blast
  then show ?thesis by (intro exI [of _ ws]) simp
qed

text \<open>Near the top of the word the step wraps: the ramp towards 0xffffffff leaves 0xfff00000 for a word
  more than four thousand times smaller.\<close>

lemma step_wraps: "pll_step 0xfff00000 0xffffffff = 0x000ffe00"
  by code_simp

end
