(* ===== verification/Cgu_Cpu.thy ===== *)
theory Cgu_Cpu
  imports Kernel_Base
begin

text \<open>
  The CPU clock of the clock generation unit (\<open>clk-ar9311-cgu.c\<close>): the dual-bank register and its
  mirror, the two-write bank flip, the clock operations on top of it, and the search for the parent and
  divider closest to a requested rate.  What a register value runs the core from is read off by
  \<open>running\<close>; the lemmas say that no write of a change ever runs it from anything but the old or the new
  setting.
\<close>

section \<open>Definitions\<close>

abbreviation AR_CPU_RATE_PARENTS :: nat where "AR_CPU_RATE_PARENTS \<equiv> 6"
abbreviation AR_CPU_MAX_DIV :: u32 where "AR_CPU_MAX_DIV \<equiv> 128"

text \<open>The register, its mirror, and every value written to either, oldest first.\<close>

record ar9311_cpu_clk =
  cpu_reg :: u32
  cpu_mirror :: u32
  cpu_reg_writes :: "u32 list"
  cpu_mirror_writes :: "u32 list"

definition ar9311_cpu_get_parent :: "u32 \<Rightarrow> u32" where
  "ar9311_cpu_get_parent v =
     (if \<not> bit v 30 then 0
      else if bit v 31 then drop_bit 24 v AND 0x7 else drop_bit 8 v AND 0x7)"

definition ar9311_cpu_recalc_rate :: "u32 \<Rightarrow> u64 \<Rightarrow> u64" where
  "ar9311_cpu_recalc_rate v parent_rate =
     (if \<not> bit v 30 then parent_rate
      else let dv = (if bit v 31 then drop_bit 16 v AND 0x7f else v AND 0x7f) + 1 in parent_rate div ucast dv)"

definition ar9311_cpu_cur_div_m1 :: "u32 \<Rightarrow> u32" where
  "ar9311_cpu_cur_div_m1 v =
     (if \<not> bit v 30 then 0 else if bit v 31 then drop_bit 16 v AND 0x7f else v AND 0x7f)"

text \<open>The two words \<open>ar9311_cpu_program_one\<close> writes.\<close>

definition ar9311_cpu_program_one :: "u32 \<Rightarrow> u32 \<Rightarrow> u32 \<Rightarrow> u32 \<times> u32" where
  "ar9311_cpu_program_one v mux div_m1 =
     (if \<not> bit v 30 then
        let val = (v AND 0x7fffe000) OR div_m1 OR push_bit 8 mux OR push_bit 12 1 in (val, val OR push_bit 30 1)
      else if \<not> bit v 31 then
        let val = (v AND 0xe000ffff) OR push_bit 16 div_m1 OR push_bit 24 mux OR push_bit 28 1 in (val, val OR push_bit 31 1)
      else
        let val = (v AND 0xffffe000) OR div_m1 OR push_bit 8 mux OR push_bit 12 1 in (val, val AND NOT (push_bit 31 1)))"

definition ar9311_cpu_program :: "u32 \<Rightarrow> u32 \<Rightarrow> ar9311_cpu_clk \<Rightarrow> ar9311_cpu_clk" where
  "ar9311_cpu_program mux div_m1 c =
     (case ar9311_cpu_program_one (cpu_reg c) mux div_m1 of (a1, a2) \<Rightarrow>
      case ar9311_cpu_program_one (cpu_mirror c) mux div_m1 of (b1, b2) \<Rightarrow>
        c\<lparr>cpu_reg := a2, cpu_mirror := b2, cpu_reg_writes := cpu_reg_writes c @ [a1, a2],
          cpu_mirror_writes := cpu_mirror_writes c @ [b1, b2]\<rparr>)"

text \<open>The divider of a rate: \<open>DIV_ROUND_CLOSEST\<close> clamped to 1 to 128.\<close>

definition cpu_divider :: "u64 \<Rightarrow> u64 \<Rightarrow> u32" where
  "cpu_divider rate parent_rate = ucast (min (max ((parent_rate + rate div 2) div rate) 1) (ucast AR_CPU_MAX_DIV))"

definition ar9311_cpu_set_parent :: "u32 \<Rightarrow> ar9311_cpu_clk \<Rightarrow> ar9311_cpu_clk" where
  "ar9311_cpu_set_parent index c = ar9311_cpu_program index (ar9311_cpu_cur_div_m1 (cpu_reg c)) c"

definition ar9311_cpu_set_rate :: "u64 \<Rightarrow> u64 \<Rightarrow> ar9311_cpu_clk \<Rightarrow> (errno + unit) \<times> ar9311_cpu_clk" where
  "ar9311_cpu_set_rate rate parent_rate c =
     (if rate = 0 \<or> parent_rate = 0 then (Inl EINVAL, c)
      else (Inr (), ar9311_cpu_program (ar9311_cpu_get_parent (cpu_reg c)) (cpu_divider rate parent_rate - 1) c))"

definition ar9311_cpu_set_rate_and_parent :: "u64 \<Rightarrow> u64 \<Rightarrow> u32 \<Rightarrow> ar9311_cpu_clk \<Rightarrow> (errno + unit) \<times> ar9311_cpu_clk" where
  "ar9311_cpu_set_rate_and_parent rate parent_rate index c =
     (if rate = 0 \<or> parent_rate = 0 then (Inl EINVAL, c)
      else (Inr (), ar9311_cpu_program index (cpu_divider rate parent_rate - 1) c))"

text \<open>The search: one candidate, the dividers that bracket the request on one parent, all parents.  A
  parent that is not there is \<open>None\<close>.\<close>

type_synonym cpu_choice = "u64 \<times> u64 \<times> nat option"

definition rate_distance :: "u64 \<Rightarrow> u64 \<Rightarrow> int" where
  "rate_distance rate req = \<bar>sint (rate - req)\<bar>"

definition try_divider :: "u64 \<Rightarrow> nat \<Rightarrow> u64 \<Rightarrow> nat \<Rightarrow> cpu_choice \<Rightarrow> cpu_choice" where
  "try_divider req i prate d best =
     (case best of (best_rate, best_prate, best_idx) \<Rightarrow>
        let rate = prate div of_nat d
        in if rate_distance rate req < rate_distance best_rate req then (rate, prate, Some i) else best)"

definition bracket :: "u64 \<Rightarrow> u64 \<Rightarrow> nat list" where
  "bracket req prate =
     (let dv = (if req \<noteq> 0 then ucast (prate div req) else AR_CPU_MAX_DIV) :: u32
      in [unat (max dv 1)..<unat (min (dv + 1) AR_CPU_MAX_DIV) + 1])"

definition try_parent :: "u64 \<Rightarrow> (nat \<Rightarrow> u64 option) \<Rightarrow> nat \<Rightarrow> cpu_choice \<Rightarrow> cpu_choice" where
  "try_parent req parents i best =
     (case parents i of
        None \<Rightarrow> best
      | Some prate \<Rightarrow> if prate = 0 then best else fold (try_divider req i prate) (bracket req prate) best)"

definition ar9311_cpu_determine_rate :: "u64 \<Rightarrow> (nat \<Rightarrow> u64 option) \<Rightarrow> errno + (nat \<times> u64 \<times> u64)" where
  "ar9311_cpu_determine_rate req parents =
     (case fold (try_parent req parents) [0..<AR_CPU_RATE_PARENTS] (0, 0, None) of
        (best_rate, best_prate, None) \<Rightarrow> Inl EINVAL
      | (best_rate, best_prate, Some i) \<Rightarrow> Inr (i, best_prate, best_rate))"

section \<open>The flip\<close>

text \<open>What a register value runs the core from: the oscillator, or the multiplexer, divider and gate of
  the active bank.\<close>

datatype cpu_source = Oscillator | Bank u32 u32 bool

definition running :: "u32 \<Rightarrow> cpu_source" where
  "running v =
     (if \<not> bit v 30 then Oscillator
      else if bit v 31 then Bank (drop_bit 24 v AND 0x7) (drop_bit 16 v AND 0x7f) (bit v 28)
      else Bank (drop_bit 8 v AND 0x7) (v AND 0x7f) (bit v 12))"

lemma cpu_masks:
  "(0x7fffe000 :: u32) = push_bit 13 (mask 18)" "(0xe000ffff :: u32) = push_bit 29 (mask 3) OR mask 16"
  "(0xffffe000 :: u32) = push_bit 13 (mask 19)" "(0x7 :: u32) = mask 3" "(0x7f :: u32) = mask 7"
  by (simp_all add: mask_eq_exp_minus_1 push_bit_eq_mult)

lemma bit_at: "bit (push_bit k 1 :: u32) n \<longleftrightarrow> n = k \<and> n < 32"
  by (simp only: bit_push_bit_iff possible_bit_word bit_1_iff) auto

lemmas flip_bits = bit_at bit_or_iff bit_and_iff bit_drop_bit_eq bit_push_bit_iff [of _ "mux :: u32" for mux] bit_mask_iff
  possible_bit_word bit_not_iff bit_1_iff comp_apply

lemma field_facts:
  assumes "unat mux < 8" "unat dv < 128" and x: "\<And>n. n < 13 \<Longrightarrow> \<not> bit x n" and y: "\<And>n. 16 \<le> n \<Longrightarrow> n < 29 \<Longrightarrow> \<not> bit y n"
  shows "drop_bit 8 (x OR dv OR push_bit 8 mux OR push_bit 12 1) AND mask 3 = (mux :: u32)"
    "(x OR dv OR push_bit 8 mux OR push_bit 12 1) AND mask 7 = (dv :: u32)"
    "drop_bit 24 (y OR push_bit 16 dv OR push_bit 24 mux OR push_bit 28 1) AND mask 3 = mux"
    "drop_bit 16 (y OR push_bit 16 dv OR push_bit 24 mux OR push_bit 28 1) AND mask 7 = dv"
proof -
  have m: "\<not> bit mux n" if "3 \<le> n" for n using high_bit_less [of mux 3 n] assms(1) that by auto
  have d: "\<not> bit dv n" if "7 \<le> n" for n using high_bit_less [of dv 7 n] assms(2) that by auto
  show "drop_bit 8 (x OR dv OR push_bit 8 mux OR push_bit 12 1) AND mask 3 = mux"
    by (rule bit_word_eqI, case_tac "n < 3") (simp_all add: flip_bits m d x del: push_bit_of_1)
  show "(x OR dv OR push_bit 8 mux OR push_bit 12 1) AND mask 7 = dv"
    by (rule bit_word_eqI, case_tac "n < 7") (simp_all add: flip_bits m d x del: push_bit_of_1)
  show "drop_bit 24 (y OR push_bit 16 dv OR push_bit 24 mux OR push_bit 28 1) AND mask 3 = mux"
    by (rule bit_word_eqI, case_tac "n < 3") (simp_all add: flip_bits m d y del: push_bit_of_1)
  show "drop_bit 16 (y OR push_bit 16 dv OR push_bit 24 mux OR push_bit 28 1) AND mask 7 = dv"
    by (rule bit_word_eqI, case_tac "n < 7") (simp_all add: flip_bits m d y del: push_bit_of_1)
qed

lemma top_irrelevant:
  assumes "k + n \<le> t"
  shows "drop_bit k (w OR push_bit t 1) AND mask n = (drop_bit k w AND mask n :: u32)"
    "drop_bit k (w AND NOT (push_bit t 1)) AND mask n = (drop_bit k w AND mask n :: u32)"
  by (rule bit_word_eqI, use assms in \<open>auto simp: flip_bits simp del: push_bit_of_1 dest: bit_imp_le_length\<close>)+

lemma kept_fields:
  assumes "unat mux < 8" "unat dv < 128"
    and lo: "lo = (v AND push_bit 13 (mask 19)) OR dv OR push_bit 8 mux OR push_bit 12 (1 :: u32)"
    and hi: "hi = (v AND (push_bit 29 (mask 3) OR mask 16)) OR push_bit 16 dv OR push_bit 24 mux OR push_bit 28 (1 :: u32)"
  shows "drop_bit 24 lo AND mask 3 = drop_bit 24 v AND mask 3" "drop_bit 16 lo AND mask 7 = drop_bit 16 v AND mask 7"
    "bit lo 28 = bit v 28" "bit lo 30 = bit v 30" "bit lo 31 = bit v 31"
    "drop_bit 8 hi AND mask 3 = drop_bit 8 v AND mask 3" "hi AND mask 7 = v AND mask 7"
    "bit hi 12 = bit v 12" "bit hi 30 = bit v 30" "bit hi 31 = bit v 31" "bit lo 12" "bit hi 28"
proof -
  have m: "\<not> bit mux n" if "3 \<le> n" for n using high_bit_less [of mux 3 n] assms(1) that by auto
  have d: "\<not> bit dv n" if "7 \<le> n" for n using high_bit_less [of dv 7 n] assms(2) that by auto
  note s = flip_bits m d lo hi
  show "drop_bit 24 lo AND mask 3 = drop_bit 24 v AND mask 3"
    by (rule bit_word_eqI, case_tac "n < 3") (simp_all add: s del: push_bit_of_1)
  show "drop_bit 16 lo AND mask 7 = drop_bit 16 v AND mask 7"
    by (rule bit_word_eqI, case_tac "n < 7") (simp_all add: s del: push_bit_of_1)
  show "drop_bit 8 hi AND mask 3 = drop_bit 8 v AND mask 3"
    by (rule bit_word_eqI, case_tac "n < 3") (simp_all add: s del: push_bit_of_1)
  show "hi AND mask 7 = v AND mask 7"
    by (rule bit_word_eqI, case_tac "n < 7") (simp_all add: s del: push_bit_of_1)
  show "bit lo 28 = bit v 28" "bit lo 30 = bit v 30" "bit lo 31 = bit v 31" "bit hi 12 = bit v 12" "bit hi 30 = bit v 30"
    "bit hi 31 = bit v 31" "bit lo 12" "bit hi 28"
    by (simp_all add: s del: push_bit_of_1)
qed

lemma flip_glitch_free:
  assumes "unat mux < 8" "unat dv < 128" "ar9311_cpu_program_one v mux dv = (w1, w2)"
  shows "running w1 = running v" "running w2 = Bank mux dv True"
proof -
  define lo where "lo = (v AND push_bit 13 (mask 19)) OR dv OR push_bit 8 mux OR push_bit 12 (1 :: u32)"
  define hi where "hi = (v AND (push_bit 29 (mask 3) OR mask 16)) OR push_bit 16 dv OR push_bit 24 mux OR push_bit 28 (1 :: u32)"
  define byp where "byp = (v AND push_bit 13 (mask 18)) OR dv OR push_bit 8 mux OR push_bit 12 (1 :: u32)"
  have m: "\<not> bit mux n" if "3 \<le> n" for n using high_bit_less [of mux 3 n] assms(1) that by auto
  have d: "\<not> bit dv n" if "7 \<le> n" for n using high_bit_less [of dv 7 n] assms(2) that by auto
  have x: "\<not> bit (v AND push_bit 13 w) n" if "n < 13" for n w using that by (simp add: bit_and_iff bit_push_bit_iff)
  have y: "\<not> bit (v AND (push_bit 29 (mask 3) OR mask 16)) n" if "16 \<le> n" "n < 29" for n
    using that by (simp add: bit_and_iff bit_or_iff bit_push_bit_iff bit_mask_iff)
  note F = field_facts [OF assms(1,2) x y] and K = kept_fields [OF assms(1,2) lo_def hi_def]
  have bb: "bit byp 30 = bit v 30" "\<not> bit byp 31" "bit byp 12"
    unfolding byp_def by (simp_all add: flip_bits m d del: push_bit_of_1)
  have top: "bit (w OR push_bit 30 1) 30" "bit (w OR push_bit 31 1) 31" "bit (w OR push_bit 30 1) n = (n = 30 \<or> bit w n)"
    "bit (w OR push_bit 31 1) n = (n = 31 \<or> bit w n)" "bit (w AND NOT (push_bit 31 1)) n = (n \<noteq> 31 \<and> bit w n)" for w :: u32 and n
    by (auto simp: flip_bits simp del: push_bit_of_1 dest: bit_imp_le_length)
  have p: "ar9311_cpu_program_one v mux dv =
      (if \<not> bit v 30 then (byp, byp OR push_bit 30 1)
       else if \<not> bit v 31 then (hi, hi OR push_bit 31 1) else (lo, lo AND NOT (push_bit 31 1)))"
    unfolding ar9311_cpu_program_one_def Let_def unfolding cpu_masks byp_def hi_def lo_def ..
  have f: "drop_bit 8 byp AND mask 3 = mux" "byp AND mask 7 = dv" "drop_bit 8 lo AND mask 3 = mux" "lo AND mask 7 = dv"
    "drop_bit 24 hi AND mask 3 = mux" "drop_bit 16 hi AND mask 7 = dv"
    unfolding byp_def lo_def hi_def by (rule F; assumption?)+
  have z: "(w OR push_bit 30 1) AND mask 7 = w AND mask 7" "(w AND NOT (push_bit 31 1)) AND mask 7 = w AND mask 7" for w :: u32
    using top_irrelevant [of 0 7 30 w] top_irrelevant [of 0 7 31 w] by simp_all
  consider (osc) "\<not> bit v 30" "w1 = byp" "w2 = byp OR push_bit 30 1" | (low) "bit v 30" "\<not> bit v 31" "w1 = hi" "w2 = hi OR push_bit 31 1"
    | (high) "bit v 30" "bit v 31" "w1 = lo" "w2 = lo AND NOT (push_bit 31 1)"
    using assms(3) unfolding p by (auto split: if_splits)
  then have "running w1 = running v \<and> running w2 = Bank mux dv True"
  proof cases
    case osc
    have "running w1 = running v" using osc bb by (simp add: running_def)
    moreover have "running w2 = Bank mux dv True"
      using osc(1) bb unfolding osc running_def cpu_masks top by (simp add: top_irrelevant z f del: push_bit_of_1 drop_bit_or drop_bit_and)
    ultimately show ?thesis ..
  next
    case low
    have "running w1 = running v" using low K unfolding low running_def cpu_masks by simp
    moreover have "running w2 = Bank mux dv True"
      using low(1) K unfolding low running_def cpu_masks top by (simp add: top_irrelevant z f del: push_bit_of_1 drop_bit_or drop_bit_and)
    ultimately show ?thesis ..
  next
    case high
    have "running w1 = running v" using high K unfolding high running_def cpu_masks by simp
    moreover have "running w2 = Bank mux dv True"
      using high(1) K unfolding high running_def cpu_masks top by (simp add: top_irrelevant z f del: push_bit_of_1 drop_bit_or drop_bit_and)
    ultimately show ?thesis ..
  qed
  then show "running w1 = running v" "running w2 = Bank mux dv True" by simp_all
qed

lemma running_fields:
  assumes "running v = Bank mux dv g"
  shows "ar9311_cpu_get_parent v = mux" "ar9311_cpu_cur_div_m1 v = dv" "ar9311_cpu_recalc_rate v p = p div ucast (dv + 1)"
  using assms by (auto simp: running_def ar9311_cpu_get_parent_def ar9311_cpu_cur_div_m1_def ar9311_cpu_recalc_rate_def split: if_splits)

lemma divider_range:
  assumes "rate \<noteq> 0"
  shows "1 \<le> unat (cpu_divider rate p)" "unat (cpu_divider rate p) \<le> 128" "unat (cpu_divider rate p - 1) = unat (cpu_divider rate p) - 1"
    "unat (cpu_divider rate p) = min (max (unat ((p + rate div 2) div rate)) 1) 128"
proof -
  have e: "unat (min (max ((p + rate div 2) div rate) 1) (128 :: u64)) = min (max (unat ((p + rate div 2) div rate)) 1) 128"
    by (simp add: min_def max_def word_le_nat_alt)
  then show u: "unat (cpu_divider rate p) = min (max (unat ((p + rate div 2) div rate)) 1) 128"
    by (simp add: cpu_divider_def unat_ucast_mod)
  show a: "1 \<le> unat (cpu_divider rate p)" "unat (cpu_divider rate p) \<le> 128" unfolding u by simp_all
  then show "unat (cpu_divider rate p - 1) = unat (cpu_divider rate p) - 1" by (subst unat_sub) (simp_all add: word_le_nat_alt)
qed

section \<open>Changing the clock\<close>

definition glitch_free :: "cpu_source \<Rightarrow> cpu_source \<Rightarrow> u32 list \<Rightarrow> bool" where
  "glitch_free old new ws \<longleftrightarrow> (\<exists>w1 w2. ws = [w1, w2] \<and> running w1 = old \<and> running w2 = new)"

lemma program_effect:
  assumes "unat mux < 8" "unat dv < 128" "c' = ar9311_cpu_program mux dv c"
  shows "running (cpu_reg c') = Bank mux dv True" "running (cpu_mirror c') = Bank mux dv True"
    and "\<exists>ws ms. cpu_reg_writes c' = cpu_reg_writes c @ ws \<and> glitch_free (running (cpu_reg c)) (Bank mux dv True) ws \<and>
      cpu_mirror_writes c' = cpu_mirror_writes c @ ms \<and> glitch_free (running (cpu_mirror c)) (Bank mux dv True) ms"
proof -
  obtain a1 a2 b1 b2 where p: "ar9311_cpu_program_one (cpu_reg c) mux dv = (a1, a2)" "ar9311_cpu_program_one (cpu_mirror c) mux dv = (b1, b2)"
    by fastforce
  note A = flip_glitch_free [OF assms(1,2) p(1)] and B = flip_glitch_free [OF assms(1,2) p(2)]
  have c': "c' = c\<lparr>cpu_reg := a2, cpu_mirror := b2, cpu_reg_writes := cpu_reg_writes c @ [a1, a2],
          cpu_mirror_writes := cpu_mirror_writes c @ [b1, b2]\<rparr>"
    using assms(3) p by (simp add: ar9311_cpu_program_def)
  show "running (cpu_reg c') = Bank mux dv True" "running (cpu_mirror c') = Bank mux dv True" using A B by (simp_all add: c')
  show "\<exists>ws ms. cpu_reg_writes c' = cpu_reg_writes c @ ws \<and> glitch_free (running (cpu_reg c)) (Bank mux dv True) ws \<and>
      cpu_mirror_writes c' = cpu_mirror_writes c @ ms \<and> glitch_free (running (cpu_mirror c)) (Bank mux dv True) ms"
    using A B by (intro exI [of _ "[a1, a2]"] exI [of _ "[b1, b2]"]) (simp add: c' glitch_free_def)
qed

text \<open>C34: Changing the CPU clock is glitch-free: \<open>set_rate_and_parent\<close> makes exactly two writes to the
  register and two to its mirror, the first of which leaves the core on the old source, divider and gate,
  and the second runs it from the requested parent through the divider nearest to the ratio (1 to 128) with its
  gate on; afterwards the register and the mirror agree on the source, and \<open>get_parent\<close> and
  \<open>recalc_rate\<close> read back what was set.  A zero rate or parent rate is refused without a
  write.\<close>

theorem cpu_set_rate_glitch_free:
  assumes "ar9311_cpu_set_rate_and_parent rate parent_rate index c = (r, c')" "unat index < 8"
  shows "(r \<noteq> Inr () \<longleftrightarrow> rate = 0 \<or> parent_rate = 0) \<and> (r \<noteq> Inr () \<longrightarrow> c' = c) \<and>
    (r = Inr () \<longrightarrow>
      (let dv = cpu_divider rate parent_rate; new = Bank index (dv - 1) True in
        unat dv = min (max (unat ((parent_rate + rate div 2) div rate)) 1) 128 \<and>
        (\<exists>ws ms. cpu_reg_writes c' = cpu_reg_writes c @ ws \<and> glitch_free (running (cpu_reg c)) new ws \<and>
          cpu_mirror_writes c' = cpu_mirror_writes c @ ms \<and> glitch_free (running (cpu_mirror c)) new ms) \<and>
        running (cpu_reg c') = running (cpu_mirror c') \<and> ar9311_cpu_get_parent (cpu_reg c') = index \<and>
        ar9311_cpu_recalc_rate (cpu_reg c') parent_rate = parent_rate div ucast dv))"
proof (cases "rate = 0 \<or> parent_rate = 0")
  case True
  then show ?thesis using assms(1) by (auto simp: ar9311_cpu_set_rate_and_parent_def)
next
  case False
  then have r: "r = Inr ()" and c': "c' = ar9311_cpu_program index (cpu_divider rate parent_rate - 1) c" and nz: "rate \<noteq> 0"
    using assms(1) by (auto simp: ar9311_cpu_set_rate_and_parent_def)
  note D = divider_range [OF nz, of parent_rate]
  have d: "unat (cpu_divider rate parent_rate - 1) < 128" using D(1-3) by simp
  note P = program_effect [OF assms(2) d c']
  show ?thesis using False r D(4) P running_fields [OF P(1)] by (simp add: Let_def)
qed

lemma cpu_set_rate_glitch_free_witness:
  "ar9311_cpu_get_parent (cpu_reg (snd (ar9311_cpu_set_rate_and_parent 500000000 1000000000 1
     \<lparr>cpu_reg = 0x40001500, cpu_mirror = 0x40001500, cpu_reg_writes = [], cpu_mirror_writes = []\<rparr>))) = 1"
proof -
  let ?c = "\<lparr>cpu_reg = 0x40001500, cpu_mirror = 0x40001500, cpu_reg_writes = [], cpu_mirror_writes = []\<rparr>"
  obtain r c' where e: "ar9311_cpu_set_rate_and_parent 500000000 1000000000 1 ?c = (r, c')" by fastforce
  have "r = Inr ()" using cpu_set_rate_glitch_free [OF e] by auto
  then show ?thesis using cpu_set_rate_glitch_free [OF e] e by (simp add: Let_def)
qed

section \<open>The closest rate\<close>

lemma distance_value:
  assumes "unat a < 2 ^ 63" "unat b < 2 ^ 63"
  shows "rate_distance a b = \<bar>int (unat a) - int (unat b)\<bar>"
proof -
  have "a - b = word_of_int (int (unat a) - int (unat b))" by (simp add: uint_nat [symmetric] word_of_int_uint)
  then have "sint (a - b) = signed_take_bit (LENGTH(64) - 1) (int (unat a) - int (unat b))"
    by (simp only: sint_sbintrunc')
  also have "\<dots> = int (unat a) - int (unat b)" using assms by (simp add: signed_take_bit_int_eq_self)
  finally show ?thesis by (simp add: rate_distance_def)
qed

lemma closest_divider:
  fixes p q :: nat
  assumes "0 < q" "1 \<le> d" "d \<le> 128" "p div q \<le> 128"
  shows "\<exists>e. max (p div q) 1 \<le> e \<and> e \<le> min (p div q + 1) 128 \<and> \<bar>int (p div e) - int q\<bar> \<le> \<bar>int (p div d) - int q\<bar>"
proof (cases "d \<le> p div q")
  case True
  have "p div (p div q) \<le> p div d" by (rule div_le_mono2) (use True assms(2) in simp_all)
  moreover have "q \<le> p div (p div q)"
  proof -
    have "p div q * q \<le> p" by (rule div_times_less_eq_dividend)
    then show ?thesis using True assms(2) by (simp add: less_eq_div_iff_mult_less_eq mult.commute)
  qed
  ultimately show ?thesis using True assms by (intro exI [of _ "p div q"]) simp
next
  case False
  then have "p div d \<le> p div (p div q + 1)" by (intro div_le_mono2) simp_all
  moreover have "p div (p div q + 1) \<le> q"
  proof -
    have "p < (p div q + 1) * q" using dividend_less_div_times [OF assms(1), of p] by (simp add: algebra_simps)
    then have "p div (p div q + 1) < q" by (subst div_less_iff_less_mult) (simp_all add: algebra_simps)
    then show ?thesis by simp
  qed
  ultimately show ?thesis using False assms by (intro exI [of _ "p div q + 1"]) simp
qed

text \<open>The invariant of the search over a set of candidate rates.\<close>

definition best_so_far :: "u64 \<Rightarrow> (nat \<Rightarrow> u64 option) \<Rightarrow> u64 set \<Rightarrow> cpu_choice \<Rightarrow> bool" where
  "best_so_far req parents S best \<longleftrightarrow>
     (case best of (rate, prate, idx) \<Rightarrow>
        (\<forall>x\<in>insert 0 S. rate_distance rate req \<le> rate_distance x req) \<and>
        (case idx of None \<Rightarrow> rate = 0
         | Some i \<Rightarrow> i < AR_CPU_RATE_PARENTS \<and> parents i = Some prate \<and> (\<exists>d. 1 \<le> d \<and> d \<le> 128 \<and> rate = prate div of_nat d)))"

lemma try_divider_best:
  assumes "best_so_far req parents S best" "i < AR_CPU_RATE_PARENTS" "parents i = Some prate" "1 \<le> d" "d \<le> 128"
  shows "best_so_far req parents (insert (prate div of_nat d) S) (try_divider req i prate d best)"
proof -
  obtain br bp bi where b: "best = (br, bp, bi)" by (metis prod_cases3)
  show ?thesis
  proof (cases "rate_distance (prate div of_nat d) req < rate_distance br req")
    case True
    then show ?thesis using assms by (auto simp: b best_so_far_def try_divider_def Let_def intro: order_trans less_imp_le)
  next
    case False
    then show ?thesis using assms by (auto simp: b best_so_far_def try_divider_def Let_def)
  qed
qed

lemma try_dividers_best:
  assumes "best_so_far req parents S best" "i < AR_CPU_RATE_PARENTS" "parents i = Some prate" "\<forall>d\<in>set ds. 1 \<le> d \<and> d \<le> 128"
  shows "best_so_far req parents (S \<union> (\<lambda>d. prate div of_nat d) ` set ds) (fold (try_divider req i prate) ds best)"
  using assms
proof (induction ds arbitrary: S best)
  case (Cons d ds)
  have "best_so_far req parents (insert (prate div of_nat d) S) (try_divider req i prate d best)"
    by (rule try_divider_best) (use Cons.prems in auto)
  from Cons.IH [OF this] Cons.prems show ?case by simp
qed simp

lemma bracket_value:
  assumes "req \<noteq> 0" "unat prate div unat req \<le> 128"
  shows "bracket req prate = [max (unat prate div unat req) 1..<min (unat prate div unat req + 1) 128 + 1]"
proof -
  have u: "unat (ucast (prate div req) :: u32) = unat prate div unat req"
    using assms(2) by (simp add: unat_ucast_mod unat_div)
  have "unat (ucast (prate div req) + 1 :: u32) = unat prate div unat req + 1"
    using assms(2) u by (subst unat_add_small) simp_all
  then show ?thesis
    unfolding bracket_def Let_def using assms(1) u by (simp add: min_def max_def word_le_nat_alt)
qed

definition candidates :: "u64 \<Rightarrow> (nat \<Rightarrow> u64 option) \<Rightarrow> nat \<Rightarrow> u64 set" where
  "candidates req parents i =
     (case parents i of None \<Rightarrow> {} | Some prate \<Rightarrow> if prate = 0 then {} else (\<lambda>d. prate div of_nat d) ` set (bracket req prate))"

lemma bracket_range: "d \<in> set (bracket req prate) \<Longrightarrow> 1 \<le> d \<and> d \<le> 128"
  unfolding bracket_def Let_def by (auto simp: min_def max_def word_le_nat_alt split: if_splits)

lemma search_best:
  assumes "best_so_far req parents S best" "\<forall>i\<in>set is. i < AR_CPU_RATE_PARENTS"
  shows "best_so_far req parents (S \<union> (\<Union>i\<in>set is. candidates req parents i)) (fold (try_parent req parents) is best)"
  using assms
proof (induction "is" arbitrary: S best)
  case (Cons i "is")
  have "best_so_far req parents (S \<union> candidates req parents i) (try_parent req parents i best)"
  proof (cases "parents i")
    case None
    then show ?thesis using Cons.prems(1) by (simp add: candidates_def try_parent_def)
  next
    case (Some prate)
    then show ?thesis
      using Cons.prems try_dividers_best [OF Cons.prems(1) _ Some, of "bracket req prate"] bracket_range
      by (auto simp: candidates_def try_parent_def)
  qed
  from Cons.IH [OF this] Cons.prems(2) show ?case by (simp add: Un_assoc)
qed simp


text \<open>The parents of the board: 24 MHz, 1 GHz, 800, 666.67, 600 and 400 MHz.\<close>

definition board_parents :: "nat \<Rightarrow> u64 option" where
  "board_parents i =
     (if i = 0 then Some 24000000 else if i = 1 then Some 1000000000 else if i = 2 then Some 800000000
      else if i = 3 then Some 666666666 else if i = 4 then Some 600000000 else if i = 5 then Some 400000000 else None)"

lemma board_parents_range:
  "i < AR_CPU_RATE_PARENTS \<Longrightarrow> board_parents i = Some p \<Longrightarrow> unat p < 2 ^ 63 \<and> unat p div unat (333000000 :: u64) \<le> 128"
  by (auto simp: board_parents_def split: if_splits)


text \<open>Outside the range of the dividers the search does not saturate: 100 kHz is refused, although 24 MHz
  over 128 is nearer to it than 0 Hz.\<close>

lemma low_rate_refused: "ar9311_cpu_determine_rate 100000 board_parents = Inl EINVAL"
  by code_simp

end
