(* ===== verification/Cgu_Leaves.thy ===== *)
theory Cgu_Leaves
  imports Kernel_Base
begin

text \<open>
  The leaves of the clock generation unit (\<open>clk-ar9311-cgu.c\<close>): the table of the 47 plain leaves with
  their registers, halves and parents, the operations on a leaf's gate, parent and divider fields, the
  camera defaults, the provider indices and the probe.  A register of the unit is addressed by bank and
  offset.  Two leaves share most registers, one per half; the lemmas show that working on one never
  changes what the other reads back.
\<close>

section \<open>Leaves\<close>

datatype ar9311_leaf_half = AR_HALF_LO | AR_HALF_HI | AR_HALF_DUAL | AR_HALF_BIT15 | AR_HALF_BIT31

abbreviation AR_LEAF_GATE :: u8 where "AR_LEAF_GATE \<equiv> 1"
abbreviation AR_LEAF_MUX :: u8 where "AR_LEAF_MUX \<equiv> 2"
abbreviation AR_LEAF_DIV :: u8 where "AR_LEAF_DIV \<equiv> 4"
abbreviation AR_LEAF_EXACT :: u8 where "AR_LEAF_EXACT \<equiv> 8"

record ar9311_leaf_desc =
  ld_name :: string
  ld_off :: nat
  ld_bank :: nat
  ld_half :: ar9311_leaf_half
  ld_parents :: "string list"
  ld_caps :: u8

abbreviation leaf :: "string \<Rightarrow> nat \<Rightarrow> nat \<Rightarrow> ar9311_leaf_half \<Rightarrow> string list \<Rightarrow> u8 \<Rightarrow> ar9311_leaf_desc" where
  "leaf nm off bank half ps caps \<equiv> \<lparr>ld_name = nm, ld_off = off, ld_bank = bank, ld_half = half, ld_parents = ps, ld_caps = caps\<rparr>"

abbreviation INV :: string where "INV \<equiv> ''cgu_invalid''"

text \<open>The fixed sources, the shared parent lists and the table.\<close>

definition ar9311_cgu_sources :: "(string \<times> u64) list" where
  "ar9311_cgu_sources =
    [(''fix_pll_clk50'', 50000000),
     (''fix_pll_clk100'', 100000000),
     (''fix_pll_clk125'', 125000000),
     (''fix_pll_clk250'', 250000000),
     (''fix_pll_clk333'', 333333333),
     (''fix_pll_clk400'', 400000000),
     (''fix_pll_clk500'', 500000000),
     (''fix_pll_clk600'', 600000000),
     (''fix_pll_clk666'', 666666666),
     (''fix_pll_clk800'', 800000000),
     (''fix_pll_clk1000'', 1000000000),
     (''fix_pll_clk2000'', 2000000000),
     (''adc_pll_clk20'', 20000000),
     (''adc_pll_clk25'', 25000000),
     (''adc_pll_clk60'', 60000000),
     (''adc_pll_clk100'', 100000000),
     (''adc_pll_clk150'', 150000000),
     (''adc_pll_clk300'', 300000000),
     (''adc_pll_clk400'', 400000000),
     (''adc_pll_clk600'', 600000000),
     (''sd0_fix_clk'', 0),
     (''sd0_sample_clk'', 0),
     (''sd0_drv_clk'', 0),
     (''sd1_fix_clk'', 0),
     (''sd1_sample_clk'', 0),
     (''sd1_drv_clk'', 0),
     (''emmc_fix_clk'', 0),
     (''emmc_sample_clk'', 0),
     (''emmc_drv_clk'', 0),
     (''clk_audio_dig'', 0),
     (''audio_pll_clk'', 0),
     (''mipi_tx_pll_div2'', 445500000)]"

definition PAR_GENERIC_OSC :: "string list" where
  "PAR_GENERIC_OSC = [''cgu_oscin_clk'', ''fix_pll_clk500'', ''fix_pll_clk400'', ''fix_pll_clk333'', ''adc_pll_clk600'', ''adc_pll_clk400'',
       ''pixel_pll_clk'', ''audio_pll_clk'']"

definition PAR_GENERIC_666 :: "string list" where
  "PAR_GENERIC_666 = [''fix_pll_clk666'', ''fix_pll_clk500'', ''fix_pll_clk400'', ''fix_pll_clk333'', ''adc_pll_clk600'', ''adc_pll_clk400'',
       ''pixel_pll_clk'', ''audio_pll_clk'']"

definition PAR_SENSOR :: "string list" where
  "PAR_SENSOR = [''cgu_oscin_clk'', ''pixel_pll_clk1'', ''pixel_pll_clk2'', ''pixel_pll_clk3'', ''pixel_pll_clk4'', ''pixel_pll_clk'', INV, INV]"

definition PAR_DVP :: "string list" where
  "PAR_DVP = [''adc_pll_clk600'', ''pixel_pll_clk1'', ''pixel_pll_clk2'', ''pixel_pll_clk3'', ''pixel_pll_clk4'', ''fix_pll_clk1000'',
       ''fix_pll_clk666'', ''mipi_tx_pll_div2'']"

definition PAR_NPU :: "string list" where
  "PAR_NPU = [''cgu_oscin_clk'', ''fix_pll_clk800'', ''fix_pll_clk666'', ''fix_pll_clk500'', ''fix_pll_clk400'', ''adc_pll_clk600'',
       ''adc_pll_clk400'', ''pixel_pll_clk'']"

definition PAR_CPU :: "string list" where
  "PAR_CPU = [''cgu_oscin_clk'', ''fix_pll_clk1000'', ''fix_pll_clk800'', ''fix_pll_clk666'', ''adc_pll_clk600'', ''adc_pll_clk400'',
       ''pixel_pll_clk'', INV]"

definition PAR_ONE :: "string \<Rightarrow> string list" where
  "PAR_ONE p = [p, INV, INV, INV, INV, INV, INV, INV]"

definition ar9311_leaves :: "ar9311_leaf_desc list" where
  "ar9311_leaves =
    [leaf ''cgu_axi_clk'' 0x00 1 AR_HALF_DUAL PAR_GENERIC_OSC 0,
     leaf ''cgu_sys_clk'' 0x04 1 AR_HALF_DUAL [''cgu_oscin_clk'', ''adc_pll_clk300'', ''fix_pll_clk400'', ''fix_pll_clk333'', ''adc_pll_clk600'',
       ''adc_pll_clk400'', ''pixel_pll_clk'', ''audio_pll_clk''] 0,
     leaf ''cgu_isp_clk'' 0x0c 1 AR_HALF_LO PAR_GENERIC_666 (AR_LEAF_GATE OR AR_LEAF_DIV),
     leaf ''cgu_isp_hdr_clk'' 0x0c 1 AR_HALF_HI PAR_GENERIC_666 (AR_LEAF_GATE OR AR_LEAF_DIV),
     leaf ''cgu_vif_axi_clk'' 0x10 1 AR_HALF_LO PAR_GENERIC_666 (AR_LEAF_GATE OR AR_LEAF_DIV),
     leaf ''cgu_dla_clk'' 0x10 1 AR_HALF_HI [''fix_pll_clk800'', ''fix_pll_clk666'', ''fix_pll_clk500'', ''fix_pll_clk400'', ''adc_pll_clk600'',
       ''adc_pll_clk400'', ''pixel_pll_clk'', ''mipi_tx_pll_div2''] 0,
     leaf ''cgu_rsz_clk'' 0x14 1 AR_HALF_LO PAR_GENERIC_OSC AR_LEAF_GATE,
     leaf ''cgu_de_clk'' 0x14 1 AR_HALF_HI PAR_GENERIC_OSC 0,
     leaf ''cgu_venc_clk'' 0x18 1 AR_HALF_LO PAR_GENERIC_OSC (AR_LEAF_GATE OR AR_LEAF_MUX OR AR_LEAF_EXACT),
     leaf ''cgu_jpeg_clk'' 0x18 1 AR_HALF_HI PAR_GENERIC_OSC 0,
     leaf ''cgu_mipi_csi_0_clk'' 0x1c 1 AR_HALF_LO PAR_GENERIC_OSC (AR_LEAF_GATE OR AR_LEAF_DIV),
     leaf ''cgu_mipi_csi_1_clk'' 0x1c 1 AR_HALF_HI PAR_GENERIC_OSC AR_LEAF_GATE,
     leaf ''cgu_mipi_pcs_clk'' 0x20 1 AR_HALF_LO PAR_GENERIC_OSC (AR_LEAF_GATE OR AR_LEAF_DIV),
     leaf ''cgu_sd0_fix_clk'' 0x20 1 AR_HALF_HI (PAR_ONE ''sd0_fix_clk'') 0,
     leaf ''cgu_sd0_sample_clk'' 0x24 1 AR_HALF_LO (PAR_ONE ''sd0_sample_clk'') 0,
     leaf ''cgu_sd0_drv_clk'' 0x24 1 AR_HALF_HI (PAR_ONE ''sd0_drv_clk'') 0,
     leaf ''cgu_sd1_fix_clk'' 0x28 1 AR_HALF_LO (PAR_ONE ''sd1_fix_clk'') 0,
     leaf ''cgu_sd1_sample_clk'' 0x28 1 AR_HALF_HI (PAR_ONE ''sd1_sample_clk'') 0,
     leaf ''cgu_sd1_drv_clk'' 0x2c 1 AR_HALF_LO (PAR_ONE ''sd1_drv_clk'') 0,
     leaf ''cgu_emmc_fix_clk'' 0x2c 1 AR_HALF_HI (PAR_ONE ''emmc_fix_clk'') 0,
     leaf ''cgu_emmc_sample_clk'' 0x30 1 AR_HALF_LO (PAR_ONE ''emmc_sample_clk'') 0,
     leaf ''cgu_emmc_drv_clk'' 0x30 1 AR_HALF_HI (PAR_ONE ''emmc_drv_clk'') 0,
     leaf ''cgu_qspi_clk'' 0x34 1 AR_HALF_LO PAR_GENERIC_666 0,
     leaf ''cgu_i2s_mclk'' 0x34 1 AR_HALF_HI [''cgu_oscin_clk'', ''audio_pll_clk'', INV, INV, INV, INV, INV, INV] 0,
     leaf ''cgu_i2s_mst0_sclk'' 0x204 1 AR_HALF_BIT15 (PAR_ONE ''cgu_i2s_mclk'') 0,
     leaf ''cgu_i2s_mst1_sclk'' 0x204 1 AR_HALF_BIT31 (PAR_ONE ''cgu_i2s_mclk'') 0,
     leaf ''cgu_usb_phy0_clk'' 0x38 1 AR_HALF_LO (PAR_ONE ''cgu_oscin_clk'') 0,
     leaf ''cgu_audio_300m'' 0x38 1 AR_HALF_HI (PAR_ONE ''clk_audio_dig'') 0,
     leaf ''cgu_gmac_core_clk'' 0x3c 1 AR_HALF_LO [''cgu_oscin_clk'', ''fix_pll_clk500'', ''fix_pll_clk1000'', INV, INV, INV, INV, INV] 0,
     leaf ''cgu_gmac_phy_clk'' 0x3c 1 AR_HALF_HI [''cgu_oscin_clk'', ''fix_pll_clk500'', ''fix_pll_clk1000'', INV, INV, INV, INV, INV] 0,
     leaf ''cgu_hdecomp_clk'' 0x40 1 AR_HALF_LO [''cgu_oscin_clk'', ''fix_pll_clk666'', ''fix_pll_clk500'', ''fix_pll_clk400'', ''adc_pll_clk600'',
       ''adc_pll_clk400'', ''pixel_pll_clk'', ''audio_pll_clk''] 0,
     leaf ''cgu_efuse_clk'' 0x40 1 AR_HALF_HI [''cgu_oscin_clk'', ''fix_pll_clk100'', ''fix_pll_clk400'', ''fix_pll_clk333'', ''fix_pll_clk250'',
       INV, INV, INV] 0,
     leaf ''cgu_sensor_mclk0'' 0x44 1 AR_HALF_LO PAR_SENSOR (AR_LEAF_GATE OR AR_LEAF_MUX OR AR_LEAF_DIV),
     leaf ''cgu_sensor_mclk1'' 0x44 1 AR_HALF_HI PAR_SENSOR 0,
     leaf ''cgu_sensor_mclk2'' 0x48 1 AR_HALF_LO PAR_SENSOR 0,
     leaf ''cgu_dvp_pattern_clk'' 0x48 1 AR_HALF_HI PAR_DVP 0,
     leaf ''cgu_nuc_clk'' 0x4c 1 AR_HALF_HI [''adc_pll_clk600'', ''pixel_pll_clk1'', ''pixel_pll_clk2'', ''pixel_pll_clk3'', ''pixel_pll_clk4'',
       ''fix_pll_clk666'', ''fix_pll_clk500'', ''mipi_tx_pll_div2''] 0,
     leaf ''cgu_scgmac_ptp_clk'' 0x50 1 AR_HALF_LO [''cgu_oscin_clk'', ''fix_pll_clk1000'', ''fix_pll_clk500'', ''fix_pll_clk250'', INV, INV, INV,
       INV] 0,
     leaf ''cgu_scgmac_rgmiitx_clk'' 0x50 1 AR_HALF_HI [''cgu_oscin_clk'', ''fix_pll_clk1000'', ''fix_pll_clk500'', ''fix_pll_clk250'',
       ''adc_pll_clk25'', ''adc_pll_clk20'', INV, INV] 0,
     leaf ''cgu_scgmac_mdc_clk'' 0x54 1 AR_HALF_LO [''cgu_oscin_clk'', ''fix_pll_clk250'', ''fix_pll_clk125'', ''fix_pll_clk50'', ''adc_pll_clk25'',
       ''adc_pll_clk20'', INV, INV] 0,
     leaf ''cgu_npu_clk'' 0x08 1 AR_HALF_DUAL PAR_NPU 0,
     leaf ''cgu_npu_aclk'' 0x58 1 AR_HALF_LO PAR_NPU 0,
     leaf ''cgu_ifc_clk'' 0x58 1 AR_HALF_HI PAR_GENERIC_OSC 0,
     leaf ''cgu_eis_clk'' 0x5c 1 AR_HALF_LO PAR_GENERIC_OSC 0,
     leaf ''cgu_scaler_clk'' 0x5c 1 AR_HALF_HI PAR_GENERIC_OSC 0,
     leaf ''cgu_gen_clk'' 0x200 1 AR_HALF_LO [''fix_pll_clk500'', ''fix_pll_clk100'', ''sd0_fix_clk'', ''adc_pll_clk600'', ''adc_pll_clk25'',
       ''audio_pll_clk'', ''pixel_pll_clk'', ''pixel_pll_clk1''] 0,
     leaf ''cgu_cs_dbg_clk'' 0x10 0 AR_HALF_LO PAR_CPU 0]"

section \<open>Operations on a leaf's register value\<close>

definition ar9311_leaf_get_parent :: "ar9311_leaf_half \<Rightarrow> u32 \<Rightarrow> u32" where
  "ar9311_leaf_get_parent half v =
     (let sel = (\<lambda>hi. if hi then drop_bit 24 v AND 0x7 else drop_bit 8 v AND 0x7)
      in case half of
           AR_HALF_DUAL \<Rightarrow> sel (bit v 31)
         | AR_HALF_HI \<Rightarrow> sel True
         | AR_HALF_LO \<Rightarrow> sel False
         | _ \<Rightarrow> 0)"

definition ar9311_leaf_is_enabled :: "ar9311_leaf_half \<Rightarrow> u32 \<Rightarrow> bool" where
  "ar9311_leaf_is_enabled half v =
     (case half of
        AR_HALF_LO \<Rightarrow> bit v 12
      | AR_HALF_HI \<Rightarrow> bit v 28
      | AR_HALF_DUAL \<Rightarrow> bit v (if bit v 31 then 28 else 12)
      | AR_HALF_BIT15 \<Rightarrow> bit v 15
      | AR_HALF_BIT31 \<Rightarrow> bit v 31)"

definition ar9311_leaf_gate_bit :: "ar9311_leaf_half \<Rightarrow> u32 \<Rightarrow> nat option" where
  "ar9311_leaf_gate_bit half v =
     (case half of
        AR_HALF_LO \<Rightarrow> Some 12
      | AR_HALF_HI \<Rightarrow> Some 28
      | AR_HALF_DUAL \<Rightarrow> Some (if bit v 31 then 28 else 12)
      | _ \<Rightarrow> None)"

text \<open>The new register value, or the error.\<close>

definition ar9311_leaf_set_gate :: "ar9311_leaf_half \<Rightarrow> bool \<Rightarrow> u32 \<Rightarrow> errno + u32" where
  "ar9311_leaf_set_gate half enable v =
     (case ar9311_leaf_gate_bit half v of
        None \<Rightarrow> Inl EINVAL
      | Some b \<Rightarrow> Inr (if enable then v OR push_bit b 1 else v AND NOT (push_bit b 1)))"

definition ar9311_leaf_enable :: "ar9311_leaf_half \<Rightarrow> u32 \<Rightarrow> errno + u32" where
  "ar9311_leaf_enable half v = ar9311_leaf_set_gate half True v"

definition ar9311_leaf_disable :: "ar9311_leaf_half \<Rightarrow> u32 \<Rightarrow> errno + u32" where
  "ar9311_leaf_disable half v = ar9311_leaf_set_gate half False v"

definition ar9311_leaf_set_parent :: "ar9311_leaf_half \<Rightarrow> u8 \<Rightarrow> u32 \<Rightarrow> errno + u32" where
  "ar9311_leaf_set_parent half index v =
     (let put = (\<lambda>shift. (v AND NOT (push_bit shift 0x7)) OR push_bit shift (ucast index AND 0x7))
      in case half of AR_HALF_LO \<Rightarrow> Inr (put 8) | AR_HALF_HI \<Rightarrow> Inr (put 24) | _ \<Rightarrow> Inl EINVAL)"

definition ar9311_leaf_determine_rate_exact :: "u64 option list \<Rightarrow> u64 \<Rightarrow> errno + nat" where
  "ar9311_leaf_determine_rate_exact parents rate =
     (case find (\<lambda>i. parents ! i = Some rate) [0..<length parents] of Some i \<Rightarrow> Inr i | None \<Rightarrow> Inl EINVAL)"

definition ar9311_leaf_div_shift :: "ar9311_leaf_half \<Rightarrow> nat option" where
  "ar9311_leaf_div_shift half = (case half of AR_HALF_LO \<Rightarrow> Some 0 | AR_HALF_HI \<Rightarrow> Some 16 | _ \<Rightarrow> None)"

definition ar9311_leaf_recalc_rate :: "ar9311_leaf_half \<Rightarrow> u32 \<Rightarrow> u64 \<Rightarrow> u64" where
  "ar9311_leaf_recalc_rate half v parent_rate =
     (case ar9311_leaf_div_shift half of
        None \<Rightarrow> parent_rate
      | Some shift \<Rightarrow> let dv = ucast ((drop_bit shift v AND 0x7f) + 1) in (parent_rate + dv - 1) div dv)"

section \<open>Camera defaults and provider\<close>

type_synonym cgu = "nat \<times> nat \<Rightarrow> u32"

abbreviation leaf_reg :: "ar9311_leaf_desc \<Rightarrow> nat \<times> nat" where
  "leaf_reg d \<equiv> (ld_bank d, ld_off d)"

record ar9311_camera_default =
  cd_name :: string
  cd_sel :: u8
  cd_div :: u8

definition ar9311_camera_defaults :: "ar9311_camera_default list" where
  "ar9311_camera_defaults =
    [\<lparr>cd_name = ''cgu_isp_clk'', cd_sel = 3, cd_div = 0\<rparr>,
     \<lparr>cd_name = ''cgu_isp_hdr_clk'', cd_sel = 3, cd_div = 0\<rparr>,
     \<lparr>cd_name = ''cgu_vif_axi_clk'', cd_sel = 3, cd_div = 0\<rparr>,
     \<lparr>cd_name = ''cgu_mipi_csi_0_clk'', cd_sel = 2, cd_div = 1\<rparr>,
     \<lparr>cd_name = ''cgu_mipi_pcs_clk'', cd_sel = 1, cd_div = 3\<rparr>,
     \<lparr>cd_name = ''cgu_sensor_mclk0'', cd_sel = 0, cd_div = 0\<rparr>]"

text \<open>Both fields of one half in one word.\<close>

definition put_sel_div :: "nat \<Rightarrow> nat \<Rightarrow> ar9311_camera_default \<Rightarrow> u32 \<Rightarrow> u32" where
  "put_sel_div sel_shift div_shift c v =
     ((v AND NOT (push_bit sel_shift 0x7)) AND NOT (push_bit div_shift 0x7f)) OR
       push_bit sel_shift (ucast (cd_sel c) AND 0x7) OR push_bit div_shift (ucast (cd_div c) AND 0x7f)"

definition apply_camera_default :: "ar9311_camera_default \<Rightarrow> cgu \<Rightarrow> cgu" where
  "apply_camera_default c regs =
     (case find (\<lambda>d. ld_name d = cd_name c) ar9311_leaves of
        None \<Rightarrow> regs
      | Some d \<Rightarrow>
          (case ld_half d of
             AR_HALF_LO \<Rightarrow> regs(leaf_reg d := put_sel_div 8 0 c (regs (leaf_reg d)))
           | AR_HALF_HI \<Rightarrow> regs(leaf_reg d := put_sel_div 24 16 c (regs (leaf_reg d)))
           | _ \<Rightarrow> regs))"

text \<open>\<open>vif\<close> says whether the device tree has a camera node, and whether it is enabled.\<close>

definition ar9311_apply_camera_defaults :: "bool option \<Rightarrow> cgu \<Rightarrow> cgu" where
  "ar9311_apply_camera_defaults vif regs =
     (case vif of
        Some True \<Rightarrow> fold apply_camera_default ar9311_camera_defaults regs
      | _ \<Rightarrow> regs)"

definition ar9311_pinned_leaves :: "(nat \<times> string) list" where
  "ar9311_pinned_leaves =
    [(2, ''cgu_isp_clk''), (3, ''cgu_isp_hdr_clk''), (4, ''cgu_vif_axi_clk''), (8, ''cgu_venc_clk''),
     (10, ''cgu_mipi_csi_0_clk''), (11, ''cgu_mipi_csi_1_clk''), (12, ''cgu_mipi_pcs_clk''), (32, ''cgu_sensor_mclk0'')]"

definition ar9311_check_provider_indices :: "errno option" where
  "ar9311_check_provider_indices =
     (if list_all (\<lambda>(i, want). i < length ar9311_leaves \<and> ld_name (ar9311_leaves ! i) = want) ar9311_pinned_leaves
      then None else Some EINVAL)"

datatype leaf_ops = Ops_read_only | Ops_gate | Ops_gate_mux | Ops_gate_mux_exact | Ops_gate_div

definition leaf_ops_of :: "u8 \<Rightarrow> leaf_ops" where
  "leaf_ops_of caps =
     (if caps AND AR_LEAF_DIV \<noteq> 0 then Ops_gate_div
      else if caps AND AR_LEAF_EXACT \<noteq> 0 then Ops_gate_mux_exact
      else if caps AND AR_LEAF_MUX \<noteq> 0 then Ops_gate_mux
      else if caps AND AR_LEAF_GATE \<noteq> 0 then Ops_gate
      else Ops_read_only)"

definition ops_can_gate :: "leaf_ops \<Rightarrow> bool" where
  "ops_can_gate ops \<longleftrightarrow> ops \<noteq> Ops_read_only"

definition ops_can_set_parent :: "leaf_ops \<Rightarrow> bool" where
  "ops_can_set_parent ops \<longleftrightarrow> ops = Ops_gate_mux \<or> ops = Ops_gate_mux_exact"

text \<open>The clocks a probe registers, in order, and what each step of it meets: the three register
  windows, the name of the oscillator, the allocation and registration of each clock, and the provider.\<close>

datatype cgu_clk = Fixed_rate u64 | Fixed_factor string nat | Pixel_pll | Pixel_leaf | Cpu_clk | Leaf_clk leaf_ops

record cgu_probe_env =
  cp_resource :: "nat \<Rightarrow> bool"
  cp_ioremap :: "nat \<Rightarrow> bool"
  cp_osc :: "string option"
  cp_register :: "string \<Rightarrow> errno option"
  cp_data :: bool
  cp_vif :: "bool option"
  cp_provider :: "errno option"

definition cgu_trunk :: "string \<Rightarrow> (string \<times> cgu_clk) list" where
  "cgu_trunk osc =
     [(''cgu_oscin_clk'', Fixed_factor osc 1)] @ map (\<lambda>(nm, rate). (nm, Fixed_rate rate)) ar9311_cgu_sources @
     [(''pixel_pll'', Pixel_pll), (''pixel_pll_clk'', Fixed_factor ''pixel_pll'' 1),
      (''pixel_pll_clk1'', Fixed_factor ''pixel_pll'' 1), (''pixel_pll_clk2'', Fixed_factor ''pixel_pll'' 2),
      (''pixel_pll_clk3'', Fixed_factor ''pixel_pll'' 4), (''pixel_pll_clk4'', Fixed_factor ''pixel_pll'' 8),
      (''cgu_dvp_sub_1_2x_pix_clk'', Pixel_leaf), (''cgu_cpu_clk'', Cpu_clk)]"

definition cgu_leaf_clks :: "(string \<times> cgu_clk) list" where
  "cgu_leaf_clks = map (\<lambda>d. (ld_name d, Leaf_clk (leaf_ops_of (ld_caps d)))) ar9311_leaves"

fun register_clks :: "(string \<Rightarrow> errno option) \<Rightarrow> (string \<times> cgu_clk) list \<Rightarrow> errno option" where
  "register_clks reg [] = None"
| "register_clks reg ((nm, c) # cs) = (case reg nm of Some e \<Rightarrow> Some e | None \<Rightarrow> register_clks reg cs)"

fun map_banks :: "cgu_probe_env \<Rightarrow> nat list \<Rightarrow> errno option" where
  "map_banks pe [] = None"
| "map_banks pe (i # is) =
     (if \<not> cp_resource pe i then Some EINVAL else if \<not> cp_ioremap pe i then Some ENOMEM else map_banks pe is)"

text \<open>The provider's clocks by index, and the registers as the probe leaves them.\<close>

definition ar9311_cgu_probe :: "cgu_probe_env \<Rightarrow> cgu \<Rightarrow> (errno + string list) \<times> cgu" where
  "ar9311_cgu_probe pe regs =
     (case map_banks pe [0, 1, 2] of Some e \<Rightarrow> (Inl e, regs)
      | None \<Rightarrow>
     (case cp_osc pe of None \<Rightarrow> (Inl EINVAL, regs)
      | Some osc \<Rightarrow>
     (case register_clks (cp_register pe) (cgu_trunk osc) of Some e \<Rightarrow> (Inl e, regs)
      | None \<Rightarrow>
        if \<not> cp_data pe then (Inl ENOMEM, regs)
        else let regs1 = ar9311_apply_camera_defaults (cp_vif pe) regs
      in case register_clks (cp_register pe) cgu_leaf_clks of Some e \<Rightarrow> (Inl e, regs1)
      | None \<Rightarrow>
     (case ar9311_check_provider_indices of Some e \<Rightarrow> (Inl e, regs1)
      | None \<Rightarrow>
     (case cp_provider pe of Some e \<Rightarrow> (Inl e, regs1)
      | None \<Rightarrow>
        (Inr ([''cgu_dvp_sub_1_2x_pix_clk'', ''pixel_pll'', ''cgu_cpu_clk''] @ map ld_name ar9311_leaves), regs1))))))"

section \<open>What a leaf reads, and from which bits\<close>

definition leaf_view :: "ar9311_leaf_half \<Rightarrow> u32 \<Rightarrow> u32 \<times> bool \<times> (u64 \<Rightarrow> u64)" where
  "leaf_view half v = (ar9311_leaf_get_parent half v, ar9311_leaf_is_enabled half v, ar9311_leaf_recalc_rate half v)"

definition own_bits :: "ar9311_leaf_half \<Rightarrow> nat set" where
  "own_bits half =
     (case half of AR_HALF_LO \<Rightarrow> {0..<16} | AR_HALF_HI \<Rightarrow> {16..<32} | AR_HALF_DUAL \<Rightarrow> {0..<32} | AR_HALF_BIT15 \<Rightarrow> {15} | AR_HALF_BIT31 \<Rightarrow> {31})"

lemma leaf_masks: "(0x7 :: u32) = mask 3" "(0x7f :: u32) = mask 7"
  by (simp_all add: mask_eq_exp_minus_1)

lemma field_eq:
  assumes "\<And>n. k \<le> n \<Longrightarrow> n < k + m \<Longrightarrow> bit v n = bit w n"
  shows "drop_bit k v AND mask m = drop_bit k (w :: u32) AND mask m"
  by (rule bit_word_eqI) (use assms in \<open>auto simp: bit_simps\<close>)

lemma view_local:
  assumes "\<And>n. n \<in> own_bits half \<Longrightarrow> bit v n = bit w n"
  shows "leaf_view half v = leaf_view half w"
proof (cases half)
  case AR_HALF_LO
  then have b: "bit v n = bit w n" if "n < 16" for n using assms that by (simp add: own_bits_def)
  have "drop_bit 8 v AND mask 3 = drop_bit 8 w AND mask 3" "drop_bit 0 v AND mask 7 = drop_bit 0 w AND mask 7"
    by (rule field_eq; simp add: b)+
  then show ?thesis using AR_HALF_LO b
    by (simp add: leaf_view_def ar9311_leaf_get_parent_def ar9311_leaf_is_enabled_def fun_eq_iff ar9311_leaf_recalc_rate_def
        ar9311_leaf_div_shift_def Let_def leaf_masks)
next
  case AR_HALF_HI
  then have b: "bit v n = bit w n" if "16 \<le> n" "n < 32" for n using assms that by (simp add: own_bits_def)
  have "drop_bit 24 v AND mask 3 = drop_bit 24 w AND mask 3" "drop_bit 16 v AND mask 7 = drop_bit 16 w AND mask 7"
    by (rule field_eq; simp add: b)+
  then show ?thesis using AR_HALF_HI b
    by (simp add: leaf_view_def ar9311_leaf_get_parent_def ar9311_leaf_is_enabled_def fun_eq_iff ar9311_leaf_recalc_rate_def
        ar9311_leaf_div_shift_def Let_def leaf_masks)
next
  case AR_HALF_DUAL
  then have "v = w" using assms by (intro bit_word_eqI) (simp add: own_bits_def)
  then show ?thesis by simp
qed (use assms in \<open>simp_all add: leaf_view_def ar9311_leaf_get_parent_def ar9311_leaf_is_enabled_def fun_eq_iff
       ar9311_leaf_recalc_rate_def ar9311_leaf_div_shift_def Let_def own_bits_def\<close>)

lemma leaf_bit: "bit (push_bit k 1 :: u32) n \<longleftrightarrow> n = k \<and> n < 32"
  by (simp only: bit_push_bit_iff possible_bit_word bit_1_iff) auto

lemma set_gate_bits:
  assumes "ar9311_leaf_set_gate half en v = Inr w"
  obtains b where "ar9311_leaf_gate_bit half v = Some b" "b \<in> own_bits half" "b \<in> {12, 28}" "\<And>n. bit w n = (if n = b then en else bit v n)"
proof -
  obtain b where b: "ar9311_leaf_gate_bit half v = Some b"
    and w: "w = (if en then v OR push_bit b 1 else v AND NOT (push_bit b 1))"
    using assms by (auto simp: ar9311_leaf_set_gate_def split: option.splits)
  have r: "b \<in> own_bits half" "b \<in> {12, 28}" using b by (cases half; auto simp: ar9311_leaf_gate_bit_def own_bits_def)+
  have "bit w n = (if n = b then en else bit v n)" for n
    using r(2) unfolding w
    by (cases "n < 32"; cases en) (auto simp: bit_or_iff bit_and_iff bit_not_iff leaf_bit simp del: push_bit_of_1 dest: bit_imp_le_length)
  then show ?thesis using that b r by blast
qed

lemma set_parent_bits:
  assumes "ar9311_leaf_set_parent half k v = Inr w"
  obtains s where "half = AR_HALF_LO \<and> s = 8 \<or> half = AR_HALF_HI \<and> s = 24" "drop_bit s w AND mask 3 = ucast k AND mask 3"
    "\<And>n. n < s \<or> s + 3 \<le> n \<Longrightarrow> bit w n = bit v n"
proof -
  obtain s where s: "half = AR_HALF_LO \<and> s = 8 \<or> half = AR_HALF_HI \<and> s = 24"
    and w: "w = (v AND NOT (push_bit s (mask 3))) OR push_bit s (ucast k AND mask 3)"
    using assms unfolding ar9311_leaf_set_parent_def Let_def leaf_masks by (cases half) auto
  have b: "bit w n = (if s \<le> n \<and> n < s + 3 then bit (ucast k :: u32) (n - s) else bit v n)" if "n < 32" for n
    using that s unfolding w by (auto simp: bit_or_iff bit_and_iff bit_not_iff bit_push_bit_iff bit_mask_iff)
  have "drop_bit s w AND mask 3 = ucast k AND mask 3"
    by (rule bit_word_eqI) (use s b in \<open>auto simp: bit_and_iff bit_drop_bit_eq bit_mask_iff\<close>)
  moreover have "bit w n = bit v n" if "n < s \<or> s + 3 \<le> n" for n
  proof (cases "n < 32")
    case True
    then show ?thesis using b that by auto
  next
    case False
    then have "\<not> bit w n" "\<not> bit v n" by (auto dest: bit_imp_le_length)
    then show ?thesis by simp
  qed
  ultimately show ?thesis using that s by blast
qed

section \<open>Two leaves in one register\<close>

definition halves_share :: "ar9311_leaf_half \<Rightarrow> ar9311_leaf_half \<Rightarrow> bool" where
  "halves_share a b \<longleftrightarrow> (a, b) \<in> {(AR_HALF_LO, AR_HALF_HI), (AR_HALF_HI, AR_HALF_LO), (AR_HALF_BIT15, AR_HALF_BIT31), (AR_HALF_BIT31, AR_HALF_BIT15)}"

fun registers_ok :: "ar9311_leaf_desc list \<Rightarrow> bool" where
  "registers_ok [] \<longleftrightarrow> True"
| "registers_ok (d # ds) \<longleftrightarrow> list_all (\<lambda>e. leaf_reg d = leaf_reg e \<longrightarrow> halves_share (ld_half d) (ld_half e)) ds \<and> registers_ok ds"

text \<open>The pixel leaf, a read-only multiplexer with a gate at the same layout; with it all leaves but
  the CPU clock, whose registers none of them has.\<close>

definition pixel_leaf :: ar9311_leaf_desc where
  "pixel_leaf = leaf ''cgu_dvp_sub_1_2x_pix_clk'' 0x4c 1 AR_HALF_LO PAR_DVP AR_LEAF_GATE"

definition cgu_owners :: "ar9311_leaf_desc list" where
  "cgu_owners = pixel_leaf # ar9311_leaves"

lemma owners_ok: "registers_ok cgu_owners"
  by code_simp

lemma cpu_registers_free: "list_all (\<lambda>d. leaf_reg d \<noteq> (0, 0x08) \<and> leaf_reg d \<noteq> (0, 0x408)) cgu_owners"
  by code_simp

lemma registers_ok_nth:
  "registers_ok ds \<Longrightarrow> i < length ds \<Longrightarrow> j < length ds \<Longrightarrow> i \<noteq> j \<Longrightarrow> leaf_reg (ds ! i) = leaf_reg (ds ! j) \<Longrightarrow>
    halves_share (ld_half (ds ! i)) (ld_half (ds ! j))"
proof (induction ds arbitrary: i j)
  case (Cons d ds)
  have sym: "halves_share a b \<Longrightarrow> halves_share b a" for a b by (auto simp: halves_share_def)
  show ?case
    using Cons sym by (cases i; cases j) (auto simp: list_all_length)
qed simp

lemma share_disjoint: "halves_share a b \<Longrightarrow> n \<in> own_bits b \<Longrightarrow> n \<notin> own_bits a"
  by (auto simp: halves_share_def own_bits_def)

lemma outside_own:
  "ar9311_leaf_set_gate half en v = Inr w \<Longrightarrow> n \<notin> own_bits half \<Longrightarrow> bit w n = bit v n"
  "ar9311_leaf_set_parent half k v = Inr w \<Longrightarrow> n \<notin> own_bits half \<Longrightarrow> bit w n = bit v n"
proof -
  show "ar9311_leaf_set_gate half en v = Inr w \<Longrightarrow> n \<notin> own_bits half \<Longrightarrow> bit w n = bit v n"
    by (elim set_gate_bits) auto
  assume p: "ar9311_leaf_set_parent half k v = Inr w" and n: "n \<notin> own_bits half"
  obtain s where s: "half = AR_HALF_LO \<and> s = 8 \<or> half = AR_HALF_HI \<and> s = 24" "\<And>n. n < s \<or> s + 3 \<le> n \<Longrightarrow> bit w n = bit v n"
    by (rule set_parent_bits [OF p], rule that)
  have "n < s \<or> s + 3 \<le> n" using s(1) n by (auto simp: own_bits_def)
  then show "bit w n = bit v n" by (rule s(2))
qed

text \<open>C36: The leaves do not disturb each other, and each does what it is told: for any two leaves of the
  unit (the pixel leaf included), gating or reparenting one leaves the parent, the gate and the rate of
  the other unchanged, also where they share a register; gating a leaf sets exactly its gate, so its parent
  and rate stay; and reparenting sets its 3-bit select to the given index, so its gate and divider stay.\<close>

theorem cgu_leaves_isolated:
  assumes "i < length cgu_owners" "j < length cgu_owners" "i \<noteq> j" "a = cgu_owners ! i" "b = cgu_owners ! j" "v = regs (leaf_reg a)"
  shows "(ar9311_leaf_set_gate (ld_half a) en v = Inr g \<longrightarrow>
      leaf_view (ld_half b) ((regs(leaf_reg a := g)) (leaf_reg b)) = leaf_view (ld_half b) (regs (leaf_reg b)) \<and>
      leaf_view (ld_half a) g = (ar9311_leaf_get_parent (ld_half a) v, en, ar9311_leaf_recalc_rate (ld_half a) v)) \<and>
    (ar9311_leaf_set_parent (ld_half a) k v = Inr p \<longrightarrow>
      leaf_view (ld_half b) ((regs(leaf_reg a := p)) (leaf_reg b)) = leaf_view (ld_half b) (regs (leaf_reg b)) \<and>
      leaf_view (ld_half a) p = (ucast k AND 0x7, ar9311_leaf_is_enabled (ld_half a) v, ar9311_leaf_recalc_rate (ld_half a) v))"
proof -
  have other: "leaf_view (ld_half b) ((regs(leaf_reg a := w)) (leaf_reg b)) = leaf_view (ld_half b) (regs (leaf_reg b))"
    if w: "\<And>n. n \<notin> own_bits (ld_half a) \<Longrightarrow> bit w n = bit v n" for w
  proof (cases "leaf_reg a = leaf_reg b")
    case True
    have "halves_share (ld_half a) (ld_half b)"
      using registers_ok_nth [OF owners_ok assms(1-3)] True by (simp add: assms(4,5))
    then have "leaf_view (ld_half b) w = leaf_view (ld_half b) v" by (intro view_local w share_disjoint)
    then show ?thesis using True assms(6) by simp
  qed auto
  show ?thesis
  proof (intro conjI impI)
    assume g: "ar9311_leaf_set_gate (ld_half a) en v = Inr g"
    show "leaf_view (ld_half b) ((regs(leaf_reg a := g)) (leaf_reg b)) = leaf_view (ld_half b) (regs (leaf_reg b))"
      by (rule other [OF outside_own(1) [OF g]])
    obtain gb where gb: "ar9311_leaf_gate_bit (ld_half a) v = Some gb" "gb \<in> {12, 28}" "\<And>n. bit g n = (if n = gb then en else bit v n)"
      by (rule set_gate_bits [OF g], rule that)
    have "drop_bit 8 g AND mask 3 = drop_bit 8 v AND mask 3" "drop_bit 24 g AND mask 3 = drop_bit 24 v AND mask 3"
      "drop_bit 0 g AND mask 7 = drop_bit 0 v AND mask 7" "drop_bit 16 g AND mask 7 = drop_bit 16 v AND mask 7"
      by (rule field_eq; use gb in auto)+
    then show "leaf_view (ld_half a) g = (ar9311_leaf_get_parent (ld_half a) v, en, ar9311_leaf_recalc_rate (ld_half a) v)"
      using gb
      by (cases "ld_half a") (auto simp: leaf_view_def ar9311_leaf_gate_bit_def ar9311_leaf_is_enabled_def ar9311_leaf_get_parent_def
          ar9311_leaf_recalc_rate_def ar9311_leaf_div_shift_def Let_def leaf_masks fun_eq_iff)
  next
    assume p: "ar9311_leaf_set_parent (ld_half a) k v = Inr p"
    show "leaf_view (ld_half b) ((regs(leaf_reg a := p)) (leaf_reg b)) = leaf_view (ld_half b) (regs (leaf_reg b))"
      by (rule other [OF outside_own(2) [OF p]])
    obtain s where s: "ld_half a = AR_HALF_LO \<and> s = 8 \<or> ld_half a = AR_HALF_HI \<and> s = 24"
      "drop_bit s p AND mask 3 = ucast k AND mask 3" "\<And>n. n < s \<or> s + 3 \<le> n \<Longrightarrow> bit p n = bit v n"
      by (rule set_parent_bits [OF p], rule that)
    have "drop_bit 0 p AND mask 7 = drop_bit 0 v AND mask 7" "drop_bit 16 p AND mask 7 = drop_bit 16 v AND mask 7"
      by (rule field_eq; use s in auto)+
    then show "leaf_view (ld_half a) p = (ucast k AND 0x7, ar9311_leaf_is_enabled (ld_half a) v, ar9311_leaf_recalc_rate (ld_half a) v)"
      using s by (auto simp: leaf_view_def ar9311_leaf_is_enabled_def ar9311_leaf_get_parent_def
          ar9311_leaf_recalc_rate_def ar9311_leaf_div_shift_def Let_def leaf_masks fun_eq_iff)
  qed
qed

text \<open>The codec's leaf next to the JPEG leaf.\<close>

lemma cgu_leaves_isolated_witness:
  "ar9311_leaf_get_parent AR_HALF_LO ((0x10000300 AND NOT (push_bit 8 0x7)) OR push_bit 8 (ucast (2 :: u8) AND 0x7)) = 2 \<and>
   ld_name (cgu_owners ! 9) = ''cgu_venc_clk''"
proof -
  have n: "cgu_owners ! 9 = leaf ''cgu_venc_clk'' 0x18 1 AR_HALF_LO PAR_GENERIC_OSC (AR_LEAF_GATE OR AR_LEAF_MUX OR AR_LEAF_EXACT)"
    "9 < length cgu_owners" "10 < length cgu_owners"
    by (simp_all add: cgu_owners_def ar9311_leaves_def)
  let ?a = "cgu_owners ! 9" and ?r = "\<lambda>_ :: nat \<times> nat. 0x10000300 :: u32"
  have p: "ar9311_leaf_set_parent (ld_half ?a) 2 (?r (leaf_reg ?a)) = Inr ((0x10000300 AND NOT (push_bit 8 0x7)) OR push_bit 8 (ucast (2 :: u8) AND 0x7))"
    unfolding n by (simp add: ar9311_leaf_set_parent_def Let_def)
  have "ar9311_leaf_get_parent (ld_half ?a) ((0x10000300 AND NOT (push_bit 8 0x7)) OR push_bit 8 (ucast (2 :: u8) AND 0x7)) = ucast (2 :: u8) AND 0x7"
    using cgu_leaves_isolated [where regs = ?r, OF n(2,3) _ refl refl refl, THEN conjunct2, rule_format, OF _ p] by (simp add: leaf_view_def)
  then show ?thesis unfolding n by simp
qed

section \<open>Tables and provider\<close>

text \<open>The provider indices the device trees use.\<close>

lemma provider_indices_hold: "ar9311_check_provider_indices = None"
  by code_simp

text \<open>The operations the table's capabilities give: the sensor's master clock, which has both the mux
  and the divider capability, gets the divider operations, which have no way to set a parent.\<close>

lemma sensor_mclk_has_no_mux:
  "find (\<lambda>d. ld_name d = ''cgu_sensor_mclk0'') ar9311_leaves =
     Some (leaf ''cgu_sensor_mclk0'' 0x44 1 AR_HALF_LO PAR_SENSOR (AR_LEAF_GATE OR AR_LEAF_MUX OR AR_LEAF_DIV))"
  "\<not> ops_can_set_parent (leaf_ops_of (AR_LEAF_GATE OR AR_LEAF_MUX OR AR_LEAF_DIV))"
  by code_simp+

lemma only_listed_leaves_are_written:
  "map ld_name (filter (\<lambda>d. ops_can_gate (leaf_ops_of (ld_caps d))) ar9311_leaves) =
     [''cgu_isp_clk'', ''cgu_isp_hdr_clk'', ''cgu_vif_axi_clk'', ''cgu_rsz_clk'', ''cgu_venc_clk'', ''cgu_mipi_csi_0_clk'',
      ''cgu_mipi_csi_1_clk'', ''cgu_mipi_pcs_clk'', ''cgu_sensor_mclk0'']"
  "map ld_name (filter (\<lambda>d. ops_can_set_parent (leaf_ops_of (ld_caps d))) ar9311_leaves) = [''cgu_venc_clk'']"
  by code_simp+

section \<open>The camera defaults\<close>

definition default_rate :: "ar9311_camera_default \<Rightarrow> u64 \<Rightarrow> u64" where
  "default_rate c p = (let dv = ucast ((ucast (cd_div c) AND 0x7f) + 1 :: u32) in (p + dv - 1) div dv)"

lemma put_bits:
  assumes "sel = 8 \<and> dv = 0 \<or> sel = 24 \<and> dv = 16" "w = put_sel_div sel dv c v"
  shows "drop_bit sel w AND mask 3 = ucast (cd_sel c) AND mask 3" "drop_bit dv w AND mask 7 = ucast (cd_div c) AND mask 7"
    "\<And>n. (n < sel \<or> sel + 3 \<le> n) \<Longrightarrow> (n < dv \<or> dv + 7 \<le> n) \<Longrightarrow> bit w n = bit v n"
proof -
  have b: "bit w n = (if sel \<le> n \<and> n < sel + 3 then bit (ucast (cd_sel c) :: u32) (n - sel)
      else if dv \<le> n \<and> n < dv + 7 then bit (ucast (cd_div c) :: u32) (n - dv) else bit v n)" if "n < 32" for n
    using that assms(1) unfolding assms(2) put_sel_div_def leaf_masks
    by (auto simp: bit_or_iff bit_and_iff bit_not_iff bit_push_bit_iff bit_mask_iff)
  show "drop_bit sel w AND mask 3 = ucast (cd_sel c) AND mask 3" "drop_bit dv w AND mask 7 = ucast (cd_div c) AND mask 7"
    by (rule bit_word_eqI; use assms(1) b in \<open>auto simp: bit_and_iff bit_drop_bit_eq bit_mask_iff\<close>)+
  show "bit w n = bit v n" if "n < sel \<or> sel + 3 \<le> n" "n < dv \<or> dv + 7 \<le> n" for n
  proof (cases "n < 32")
    case True
    then show ?thesis using b [OF True] that by auto
  next
    case False
    then have "\<not> bit w n" "\<not> bit v n" by (auto dest: bit_imp_le_length)
    then show ?thesis by simp
  qed
qed

lemma apply_default_cases:
  assumes "find (\<lambda>d. ld_name d = cd_name c) ar9311_leaves = Some d" "ld_half d = AR_HALF_LO \<or> ld_half d = AR_HALF_HI"
  obtains w where "apply_camera_default c regs = regs(leaf_reg d := w)"
    "leaf_view (ld_half d) w = (ucast (cd_sel c) AND 0x7, ar9311_leaf_is_enabled (ld_half d) (regs (leaf_reg d)), default_rate c)"
    "\<And>n. n \<notin> own_bits (ld_half d) \<Longrightarrow> bit w n = bit (regs (leaf_reg d)) n"
proof -
  obtain sel dv where s: "sel = 8 \<and> dv = 0 \<or> sel = 24 \<and> dv = 16" "ld_half d = AR_HALF_LO \<longleftrightarrow> sel = 8"
    and a: "apply_camera_default c regs = regs(leaf_reg d := put_sel_div sel dv c (regs (leaf_reg d)))"
    using assms by (auto simp: apply_camera_default_def)
  define w where "w = put_sel_div sel dv c (regs (leaf_reg d))"
  note P = put_bits [OF s(1) w_def]
  have "leaf_view (ld_half d) w = (ucast (cd_sel c) AND 0x7, ar9311_leaf_is_enabled (ld_half d) (regs (leaf_reg d)), default_rate c)"
    using assms(2) s P
    by (auto simp: leaf_view_def ar9311_leaf_get_parent_def ar9311_leaf_is_enabled_def ar9311_leaf_recalc_rate_def
        ar9311_leaf_div_shift_def default_rate_def Let_def leaf_masks fun_eq_iff)
  moreover have "bit w n = bit (regs (leaf_reg d)) n" if "n \<notin> own_bits (ld_half d)" for n
    by (rule P(3)) (use that s assms(2) in \<open>auto simp: own_bits_def\<close>)
  ultimately show ?thesis using that a unfolding w_def by blast
qed

lemma default_elsewhere:
  assumes "d \<in> set cgu_owners" "ld_name d \<noteq> cd_name c"
  shows "leaf_view (ld_half d) (apply_camera_default c regs (leaf_reg d)) = leaf_view (ld_half d) (regs (leaf_reg d))"
proof (cases "find (\<lambda>d. ld_name d = cd_name c) ar9311_leaves")
  case None
  then show ?thesis by (simp add: apply_camera_default_def)
next
  case (Some a)
  show ?thesis
  proof (cases "ld_half a = AR_HALF_LO \<or> ld_half a = AR_HALF_HI")
    case True
    obtain w where w: "apply_camera_default c regs = regs(leaf_reg a := w)"
      "\<And>n. n \<notin> own_bits (ld_half a) \<Longrightarrow> bit w n = bit (regs (leaf_reg a)) n"
      by (rule apply_default_cases [OF Some True, of regs], rule that)
    show ?thesis
    proof (cases "leaf_reg a = leaf_reg d")
      case same: True
      have "a \<in> set cgu_owners" "ld_name a = cd_name c" using Some by (auto simp: cgu_owners_def find_Some_iff)
      then obtain i j where ij: "i < length cgu_owners" "j < length cgu_owners" "cgu_owners ! i = a" "cgu_owners ! j = d" "i \<noteq> j"
        using assms by (metis in_set_conv_nth)
      have "halves_share (ld_half a) (ld_half d)" using registers_ok_nth [OF owners_ok ij(1,2,5)] same by (simp add: ij)
      then have "leaf_view (ld_half d) w = leaf_view (ld_half d) (regs (leaf_reg a))" by (intro view_local w(2) share_disjoint)
      then show ?thesis using same by (simp add: w(1))
    qed (use w(1) in auto)
  next
    case False
    then show ?thesis using Some by (cases "ld_half a") (auto simp: apply_camera_default_def)
  qed
qed

lemma defaults_elsewhere:
  assumes "d \<in> set cgu_owners" "ld_name d \<notin> cd_name ` set cs"
  shows "leaf_view (ld_half d) (fold apply_camera_default cs regs (leaf_reg d)) = leaf_view (ld_half d) (regs (leaf_reg d))"
  using assms(2)
proof (induction cs arbitrary: regs)
  case (Cons c cs)
  have "leaf_view (ld_half d) (fold apply_camera_default cs (apply_camera_default c regs) (leaf_reg d)) =
      leaf_view (ld_half d) (apply_camera_default c regs (leaf_reg d))"
    by (rule Cons.IH) (use Cons.prems in auto)
  also have "\<dots> = leaf_view (ld_half d) (regs (leaf_reg d))" by (rule default_elsewhere [OF assms(1)]) (use Cons.prems in auto)
  finally show ?case by simp
qed simp

lemma defaults_here:
  assumes "distinct (map cd_name cs)" "c \<in> set cs" "find (\<lambda>d. ld_name d = cd_name c) ar9311_leaves = Some d"
    and "ld_half d = AR_HALF_LO \<or> ld_half d = AR_HALF_HI"
  shows "leaf_view (ld_half d) (fold apply_camera_default cs regs (leaf_reg d)) =
    (ucast (cd_sel c) AND 0x7, ar9311_leaf_is_enabled (ld_half d) (regs (leaf_reg d)), default_rate c)"
  using assms(1,2)
proof (induction cs arbitrary: regs)
  case (Cons x cs)
  have d: "d \<in> set cgu_owners" "ld_name d = cd_name c" using assms(3) by (auto simp: cgu_owners_def find_Some_iff)
  show ?case
  proof (cases "x = c")
    case True
    obtain w where w: "apply_camera_default c regs = regs(leaf_reg d := w)"
      "leaf_view (ld_half d) w = (ucast (cd_sel c) AND 0x7, ar9311_leaf_is_enabled (ld_half d) (regs (leaf_reg d)), default_rate c)"
      by (rule apply_default_cases [OF assms(3,4), of regs], rule that)
    have "leaf_view (ld_half d) (fold apply_camera_default cs (apply_camera_default c regs) (leaf_reg d)) =
        leaf_view (ld_half d) (apply_camera_default c regs (leaf_reg d))"
      by (rule defaults_elsewhere [OF d(1)]) (use Cons.prems(1) True d(2) in auto)
    then show ?thesis using True w by simp
  next
    case False
    have "leaf_view (ld_half d) (apply_camera_default x regs (leaf_reg d)) = leaf_view (ld_half d) (regs (leaf_reg d))"
      by (rule default_elsewhere [OF d(1)]) (use False Cons.prems d(2) in force)
    then have "ar9311_leaf_is_enabled (ld_half d) (apply_camera_default x regs (leaf_reg d)) = ar9311_leaf_is_enabled (ld_half d) (regs (leaf_reg d))"
      by (simp add: leaf_view_def)
    then show ?thesis using Cons.IH [of "apply_camera_default x regs"] Cons.prems False by simp
  qed
qed simp

text \<open>What the driver's comment promises the camera: the leaf, its parent and the rate it runs at, for an
  oscillator of the given rate.\<close>

definition camera_promise :: "u64 \<Rightarrow> (string \<times> string \<times> u64) list" where
  "camera_promise osc =
    [(''cgu_isp_clk'', ''fix_pll_clk333'', 333333333), (''cgu_isp_hdr_clk'', ''fix_pll_clk333'', 333333333),
     (''cgu_vif_axi_clk'', ''fix_pll_clk333'', 333333333), (''cgu_mipi_csi_0_clk'', ''fix_pll_clk400'', 200000000),
     (''cgu_mipi_pcs_clk'', ''fix_pll_clk500'', 125000000), (''cgu_sensor_mclk0'', ''cgu_oscin_clk'', osc)]"

definition source_rate :: "u64 \<Rightarrow> string \<Rightarrow> u64" where
  "source_rate osc p = (case map_of ((''cgu_oscin_clk'', osc) # ar9311_cgu_sources) p of Some r \<Rightarrow> r | None \<Rightarrow> 0)"

text \<open>One default keeps a row of the promise.\<close>

definition default_keeps :: "u64 \<Rightarrow> ar9311_camera_default \<Rightarrow> string \<times> string \<times> u64 \<Rightarrow> bool" where
  "default_keeps osc c = (\<lambda>(nm, parent, rate). nm = cd_name c \<and>
     (case find (\<lambda>d. ld_name d = cd_name c) ar9311_leaves of None \<Rightarrow> False
      | Some d \<Rightarrow> (ld_half d = AR_HALF_LO \<or> ld_half d = AR_HALF_HI) \<and>
         ld_parents d ! unat (ucast (cd_sel c) AND 0x7 :: u32) = parent \<and> default_rate c (source_rate osc parent) = rate))"

lemma default_leaves:
  "map (\<lambda>nm. map_option (\<lambda>d. (ld_half d, ld_parents d)) (find (\<lambda>d. ld_name d = nm) ar9311_leaves)) (map cd_name ar9311_camera_defaults) =
   [Some (AR_HALF_LO, PAR_GENERIC_666), Some (AR_HALF_HI, PAR_GENERIC_666), Some (AR_HALF_LO, PAR_GENERIC_666),
    Some (AR_HALF_LO, PAR_GENERIC_OSC), Some (AR_HALF_LO, PAR_GENERIC_OSC), Some (AR_HALF_LO, PAR_SENSOR)]"
  by code_simp

lemma default_parents:
  "PAR_GENERIC_666 ! unat (ucast (3 :: u8) AND 0x7 :: u32) = ''fix_pll_clk333''"
  "PAR_GENERIC_OSC ! unat (ucast (2 :: u8) AND 0x7 :: u32) = ''fix_pll_clk400''"
  "PAR_GENERIC_OSC ! unat (ucast (1 :: u8) AND 0x7 :: u32) = ''fix_pll_clk500''"
  "PAR_SENSOR ! unat (ucast (0 :: u8) AND 0x7 :: u32) = ''cgu_oscin_clk''"
  by (simp_all add: PAR_GENERIC_666_def PAR_GENERIC_OSC_def PAR_SENSOR_def)

lemma default_rates:
  "default_rate \<lparr>cd_name = nm, cd_sel = s, cd_div = 0\<rparr> osc = osc"
  "default_rate \<lparr>cd_name = nm, cd_sel = s, cd_div = 1\<rparr> 400000000 = 200000000"
  "default_rate \<lparr>cd_name = nm, cd_sel = s, cd_div = 3\<rparr> 500000000 = 125000000"
  by (simp_all add: default_rate_def Let_def)

lemma source_rates:
  "source_rate osc ''cgu_oscin_clk'' = osc" "source_rate osc ''fix_pll_clk333'' = 333333333"
  "source_rate osc ''fix_pll_clk400'' = 400000000" "source_rate osc ''fix_pll_clk500'' = 500000000"
  by (simp_all add: source_rate_def ar9311_cgu_sources_def)

lemma promise_kept: "list_all2 (default_keeps osc) ar9311_camera_defaults (camera_promise osc)"
  using default_leaves
  by (auto simp: ar9311_camera_defaults_def camera_promise_def default_keeps_def default_parents [simplified] default_rates source_rates)

lemma camera_default_names: "distinct (map cd_name ar9311_camera_defaults)" "fst ` set (camera_promise osc) = cd_name ` set ar9311_camera_defaults"
  by (simp_all add: ar9311_camera_defaults_def camera_promise_def)

lemma list_all2_find: "list_all2 P xs ys \<Longrightarrow> y \<in> set ys \<Longrightarrow> \<exists>x \<in> set xs. P x y"
  by (induction rule: list_all2_induct) auto

lemma promise_row:
  assumes "(nm, parent, rate) \<in> set (camera_promise osc)"
  obtains c d where "c \<in> set ar9311_camera_defaults" "cd_name c = nm" "find (\<lambda>d. ld_name d = nm) ar9311_leaves = Some d"
    "ld_half d = AR_HALF_LO \<or> ld_half d = AR_HALF_HI"
    "ld_parents d ! unat (ucast (cd_sel c) AND 0x7 :: u32) = parent" "default_rate c (source_rate osc parent) = rate"
  using list_all2_find [OF promise_kept assms] by (auto simp: default_keeps_def split: option.splits)

text \<open>On a board with a camera the probe leaves the camera's clocks as the driver promises: each of the six
  leaves selects the promised parent and runs at the promised rate, with its gate as it was; every other
  leaf keeps its parent, gate and rate, also the ones that share a register with a camera leaf.  Without
  a camera, or with a disabled one, no register changes.\<close>

theorem camera_defaults_applied:
  "(\<forall>(nm, parent, rate) \<in> set (camera_promise osc). \<exists>d. find (\<lambda>d. ld_name d = nm) ar9311_leaves = Some d \<and>
      (let v = ar9311_apply_camera_defaults (Some True) regs (leaf_reg d)
       in ld_parents d ! unat (ar9311_leaf_get_parent (ld_half d) v) = parent \<and>
          ar9311_leaf_recalc_rate (ld_half d) v (source_rate osc parent) = rate \<and>
          ar9311_leaf_is_enabled (ld_half d) v = ar9311_leaf_is_enabled (ld_half d) (regs (leaf_reg d)))) \<and>
   (\<forall>d \<in> set cgu_owners. ld_name d \<notin> fst ` set (camera_promise osc) \<longrightarrow>
      leaf_view (ld_half d) (ar9311_apply_camera_defaults (Some True) regs (leaf_reg d)) = leaf_view (ld_half d) (regs (leaf_reg d))) \<and>
   ar9311_apply_camera_defaults None regs = regs \<and> ar9311_apply_camera_defaults (Some False) regs = regs"
proof (intro conjI ballI impI)
  fix row assume row: "row \<in> set (camera_promise osc)"
  obtain nm parent rate where r: "row = (nm, parent, rate)" by (cases row)
  obtain c d where c: "c \<in> set ar9311_camera_defaults" "cd_name c = nm" "find (\<lambda>d. ld_name d = nm) ar9311_leaves = Some d"
    "ld_half d = AR_HALF_LO \<or> ld_half d = AR_HALF_HI"
    "ld_parents d ! unat (ucast (cd_sel c) AND 0x7 :: u32) = parent" "default_rate c (source_rate osc parent) = rate"
    by (rule promise_row [OF row [unfolded r]], rule that)
  have "leaf_view (ld_half d) (fold apply_camera_default ar9311_camera_defaults regs (leaf_reg d)) =
      (ucast (cd_sel c) AND 0x7, ar9311_leaf_is_enabled (ld_half d) (regs (leaf_reg d)), default_rate c)"
    by (rule defaults_here [OF camera_default_names(1) c(1) _ c(4)]) (simp only: c(2,3))
  then show "case row of (nm, parent, rate) \<Rightarrow> \<exists>d. find (\<lambda>d. ld_name d = nm) ar9311_leaves = Some d \<and>
      (let v = ar9311_apply_camera_defaults (Some True) regs (leaf_reg d)
       in ld_parents d ! unat (ar9311_leaf_get_parent (ld_half d) v) = parent \<and>
          ar9311_leaf_recalc_rate (ld_half d) v (source_rate osc parent) = rate \<and>
          ar9311_leaf_is_enabled (ld_half d) v = ar9311_leaf_is_enabled (ld_half d) (regs (leaf_reg d)))"
    using c unfolding r by (simp add: leaf_view_def ar9311_apply_camera_defaults_def Let_def)
next
  fix d assume "d \<in> set cgu_owners" "ld_name d \<notin> fst ` set (camera_promise osc)"
  then show "leaf_view (ld_half d) (ar9311_apply_camera_defaults (Some True) regs (leaf_reg d)) = leaf_view (ld_half d) (regs (leaf_reg d))"
    unfolding camera_default_names(2) by (simp add: ar9311_apply_camera_defaults_def defaults_elsewhere)
qed (simp_all add: ar9311_apply_camera_defaults_def)

text \<open>The image processor's clock on registers that select everything.\<close>

lemma camera_defaults_applied_witness:
  "\<exists>d. find (\<lambda>d. ld_name d = ''cgu_isp_clk'') ar9311_leaves = Some d \<and>
      ar9311_leaf_recalc_rate (ld_half d) (ar9311_apply_camera_defaults (Some True) (\<lambda>_. 0xffffffff) (leaf_reg d)) 333333333 = 333333333"
proof -
  have "(''cgu_isp_clk'', ''fix_pll_clk333'', 333333333) \<in> set (camera_promise 24000000)" by (simp add: camera_promise_def)
  from bspec [OF conjunct1 [OF camera_defaults_applied [of 24000000 "\<lambda>_. 0xffffffff"]] this]
  show ?thesis by (auto simp: Let_def source_rates)
qed

end
