(* ===== verification/Spec2Isabelle.thy ===== *)
theory Spec2Isabelle
  imports Isp_Readers Cvisp_Streams Vb_Pool Ml_Dmablit Mmz_Heap Scaler_Life Scaler_Clients Cgu_Pll Cgu_Cpu Cgu_Leaves
begin

text \<open>
  A verification library for the drivers of the Artosyn Proxima-9311 kernel tree.  The tree holds the
  drivers of a camera and display system on a chip: the shared-memory allocator and the video-buffer
  pools that the media processes use, the scaler and the DMA blit device that work on that memory, the
  clock generation unit, and the image signal processor (ISP), whose register banks and
  coefficient pages are recomputed from a binary tuning file in integer arithmetic.

  \<^bold>\<open>Conventions.\<close>  \<open>Kernel_Base\<close> holds the C integer types as words, the error numbers and the kernel
  helpers the drivers use.  A C struct is a record with the fields the code uses, an enumeration a
  datatype, a function a definition of the same name; a failing function returns \<open>Inl\<close> of an error
  number, in C the negative value.  Buffers are maps from displacements to bytes.  A state is passed
  explicitly; an operation that the code runs under one lock is one step.  What the code asks of the
  kernel and of the hardware (memory allocation, registration, an engine's answer) is an argument of the
  definitions, unconstrained unless a theorem states what it relies on.

  \<^bold>\<open>Shared memory\<close> (\<open>src/modules\<close>).  \<open>Mmz_Zone\<close> is the first-fit allocator of one zone and \<open>Mmz_Osal\<close> the
  rest of \<open>ar_osal.c\<close>: the zone list, kernel mappings, the registry of user mappings and the handlers of
  \<open>/dev/mmz_userdev\<close>.  \<open>Mmz_Safety\<close> has the invariant of the reachable states (blocks sorted, disjoint and
  inside their zone) by rule induction and the safety of the user interface.  \<open>Block_Allocator\<close> is the
  interface between it and \<open>Vb_Pool\<close>, the pools of \<open>ar_vb.c\<close>, whose lemmas are proved from the interface
  and used through its interpretation on the allocator.  \<open>Mmz_Heap\<close> is the dma-heap over the
  same memory.

  \<^bold>\<open>Engines.\<close>  \<open>Dmabuf_Map\<close> is the mapping cache of \<open>ml_dmabuf_map.h\<close> with the reference counts of the
  buffers it holds; the locale \<open>mapping_cache\<close> is what its two clients rely on.  \<open>Ml_Dmablit\<close> is the blit
  device.  The scaler is \<open>Scaler_Image\<close> (the descriptor of an operation), \<open>Scaler_Lut\<close> (its
  interpolation table), \<open>Ar_Scaler\<close> (device state, register sequences, timeouts, requests, probe and power
  management), \<open>Scaler_Clients\<close> (what a dma-buf request can reach) and \<open>Scaler_Life\<close> (a step
  relation over the life of the driver: when registers may be touched).

  \<^bold>\<open>Clocks.\<close>  \<open>Cgu_Pll\<close> is the pixel PLL with its slew-limited ramp, a partial function whose termination is
  part of its property; \<open>Cgu_Cpu\<close> the two-bank CPU clock and its rate search; \<open>Cgu_Leaves\<close> the table of the 47
  leaves, their gates, parents and dividers, the camera defaults and the probe.

  \<^bold>\<open>ISP arithmetic.\<close>  \<open>Isp_Bytes\<close> and \<open>Isp_Softfloat\<close> are the byte accessors and the binary32 arithmetic of the
  headers; \<open>Isp_Rounding\<close> and \<open>Isp_Float_Correct\<close> give bit patterns their real values and show
  correct rounding.  \<open>Isp_Ladder\<close> is the gain-keyed band selection; its locale \<open>band_walk\<close> is the
  contract of every selection and is interpreted on the integer, the binary32 and the row walks.

  \<^bold>\<open>ISP stages.\<close>  \<open>Isp_Fields\<close> holds the lemmas on packed register words; \<open>Isp_Rnr\<close>, \<open>Isp_Lnr\<close>, \<open>Isp_De3d\<close>,
  \<open>Isp_De3d_Geom\<close>, \<open>Isp_Cfa\<close>, \<open>Isp_Cnf\<close> and \<open>Isp_Cm\<close> are the register banks, \<open>Isp_Codec\<close>, \<open>Isp_Tone\<close>,
  \<open>Isp_Colour\<close>, \<open>Isp_Blc\<close> and \<open>Isp_Stats\<close> the coefficient pages, matrices and buffers.  The lemmas read the
  packed words back, and \<open>Isp_Banks\<close> shows that no stage reads outside the tuning file.
  \<open>Isp_Stages\<close> applies the banks to the registers as \<open>ar-isp-tables.c\<close> does, under the module
  parameters, with the parity report that reads them back.

  \<^bold>\<open>ISP driver.\<close>  \<open>Isp_Carried\<close> and \<open>Isp_Setup\<close> are the tables the driver packs and replays, entry for entry.
  \<open>Isp_Pages\<close> is the rest of \<open>ar-isp-tables.c\<close>: the coherent buffers with their allocation and release, the
  fills from the tuning file, the publication of their addresses, the tone re-latch and the
  double-buffered tone-mapping page; its state \<open>ar_isp\<close> is \<open>struct ar_isp\<close> with the registers, and a trace of
  fills, barriers, writes and allocations over which order and balance are stated.  \<open>Isp_Gates\<close> is the gate
  table with the veto and the gates node, \<open>Isp_Driver\<close> is \<open>ar-isp-main.c\<close>: both configurations, the output arm,
  the interrupt, the debugfs nodes, probe and remove.  \<open>Isp_Reach\<close> is the step relation over the life
  of the device, in which an operation is one step and the handler and the stores of the hardware
  come between; its invariants are proved by rule induction.  \<open>Isp_Readers\<close> takes the statistics and
  page nodes apart further: a read of \<open>stats_raw\<close> has an instant of its own for every byte, between
  which frames end and engines store.

  \<^bold>\<open>Output stage.\<close>  \<open>Cvisp_Tables\<close> and \<open>Cvisp\<close> are the stage that writes frames to memory (\<open>ar-cvisp.c\<close>): its register
  tables, the ring of fixed addresses, the black level block, the capture node with its queue, its pipeline of held
  buffers and the frame tick, stream start and stop, probe and remove.  \<open>Cvisp_Life\<close> refines the tick to a
  first-in first-out queue and follows the idle ring; \<open>Cvisp_Streams\<close> follows every path of stream start, with
  the ISP of \<open>Isp_Driver\<close> as the chain behind it, the ownership of the buffers over a step relation, and the
  black level along the gain ladder.  The input path is an argument of stream start; the video-buffer core
  is the order in which the operations are called.

  \<^bold>\<open>Bounds.\<close>  Loops with a bound in the code are recursions or folds over that bound.  The only loop without
  one, the ramp of the PLL, is a partial function.  Machine integers keep their width; where a
  theorem needs a sum or a product not to wrap, it says so.

  \<^bold>\<open>Not modelled.\<close>  The drivers listed as not modelled in the project's manifest: the sensor, the receiver, the
  video input and the display driver, which are mostly sequences of register writes
  with timing; the SD and SDIO hosts, the MPP service devices and the small board drivers; the test
  tools and the Python generators.  In the modelled drivers: text output to \<open>/proc\<close> and debugfs, the registration
  calls themselves, and timing.
\<close>

end
